(* ===== verification/Prelude.thy ===== *)
theory Prelude
  imports
    Complex_Main
    "HOL-Library.AList"
    "HOL-Library.Monad_Syntax"
    "HOL-Library.List_Lexorder"
    "HOL-Library.Char_ord"
    "HOL-Library.Product_Lexorder"
begin

text \<open>
  Shared vocabulary of the development: the types that name what the Python code passes
  around, Python's insertion-ordered dict as an association list, exceptions as values, the
  decimal rendering \<open>str(n)\<close>, and the generic lemmas every component uses.

  Python strings are HOL strings (lists of 8-bit characters). Everything the modelled code
  asks of a string is equality, ordering, concatenation, prefixes and membership of ASCII
  characters, for which the 8-bit alphabet is enough; character classes such as
  \<open>\d\<close> or \<open>str.isspace\<close> are their ASCII part.
\<close>

section \<open>Names\<close>

type_synonym node_id = string
type_synonym edge_id = string
type_synonym port_name = string

named_theorems dict_simps "rewriting of dict lookups, updates and key lists"
named_theorems raise_simps "evaluation of computations that may raise"

section \<open>Exceptions as values\<close>

text \<open>
  A computation that may raise is \<open>'e + 'a\<close>: \<open>Inl e\<close> is the exception and
  \<open>Inr x\<close> the result. \<open>raise_bind\<close> is sequencing, \<open>raise_map\<close> the list comprehension
  whose body may raise (the first exception, in list order, wins), and \<open>first_err\<close> a
  sequence of checks that return nothing and may each raise.
\<close>

definition raise_bind :: "'e + 'a \<Rightarrow> ('a \<Rightarrow> 'e + 'b) \<Rightarrow> 'e + 'b" where
  "raise_bind m f = (case m of Inl e \<Rightarrow> Inl e | Inr x \<Rightarrow> f x)"

lemma raise_bind_simps [simp, raise_simps]:
  "raise_bind (Inl e) f = Inl e"
  "raise_bind (Inr x) f = f x"
  by (simp_all add: raise_bind_def)

lemma raise_bind_Inr_iff [raise_simps]:
  "raise_bind m f = Inr y \<longleftrightarrow> (\<exists>x. m = Inr x \<and> f x = Inr y)"
  by (cases m) simp_all

lemma raise_bind_InrE [elim]:
  assumes "raise_bind m f = Inr y"
  obtains x where "m = Inr x" and "f x = Inr y"
  using assms by (auto simp: raise_bind_Inr_iff)

lemma raise_bind_cong [fundef_cong]:
  "m = m' \<Longrightarrow> (\<And>x. m' = Inr x \<Longrightarrow> f x = g x) \<Longrightarrow> raise_bind m f = raise_bind m' g"
  by (cases m') simp_all

fun raise_map :: "('a \<Rightarrow> 'e + 'b) \<Rightarrow> 'a list \<Rightarrow> 'e + 'b list" where
  "raise_map f [] = Inr []"
| "raise_map f (x # xs) = raise_bind (f x) (\<lambda>y. raise_bind (raise_map f xs) (\<lambda>ys. Inr (y # ys)))"

lemma raise_map_cong [fundef_cong]:
  "xs = ys \<Longrightarrow> (\<And>x. x \<in> set ys \<Longrightarrow> f x = g x) \<Longrightarrow> raise_map f xs = raise_map g ys"
proof (induction xs arbitrary: ys)
  case Nil
  then show ?case by simp
next
  case (Cons x xs)
  then show ?case by (cases ys) auto
qed

lemma raise_map_map: "raise_map f (map g xs) = raise_map (\<lambda>x. f (g x)) xs"
  by (induction xs) simp_all

lemma raise_map_all_Inr: "(\<And>x. x \<in> set xs \<Longrightarrow> f x = Inr (g x)) \<Longrightarrow> raise_map f xs = Inr (map g xs)"
  by (induction xs) simp_all

lemma raise_map_Inr_length: "raise_map f xs = Inr ys \<Longrightarrow> length ys = length xs"
  by (induction xs arbitrary: ys) (auto simp: raise_bind_Inr_iff)

lemma raise_map_Inr_set: "raise_map f xs = Inr ys \<Longrightarrow> y \<in> set ys \<Longrightarrow> \<exists>x \<in> set xs. f x = Inr y"
  by (induction xs arbitrary: ys) (auto simp: raise_bind_Inr_iff)

fun first_err :: "'e option list \<Rightarrow> 'e option" where
  "first_err [] = None"
| "first_err (None # cs) = first_err cs"
| "first_err (Some e # cs) = Some e"

lemma first_err_None_iff [simp, raise_simps]: "first_err cs = None \<longleftrightarrow> set cs \<subseteq> {None}"
  by (induction cs rule: first_err.induct) auto

lemma first_err_map_None [raise_simps]: "first_err (map f xs) = None \<longleftrightarrow> (\<forall>x \<in> set xs. f x = None)"
  by (auto simp: image_subset_iff)

lemma first_err_Some_mem: "first_err cs = Some e \<Longrightarrow> Some e \<in> set cs"
  by (induction cs rule: first_err.induct) auto

definition raise_if :: "bool \<Rightarrow> 'e \<Rightarrow> 'e option" where
  "raise_if b e = (if b then Some e else None)"

lemma raise_if_simps [simp, raise_simps]:
  "raise_if True e = Some e"
  "raise_if False e = None"
  "raise_if b e = None \<longleftrightarrow> \<not> b"
  by (simp_all add: raise_if_def)

section \<open>Dictionaries\<close>

text \<open>
  A dict whose order matters is an association list: \<open>map_of d k\<close> reads it,
  \<open>AList.update k v d\<close> is \<open>d[k] = v\<close> (in place for a key that is there, at the end
  for a new one, as Python keeps insertion order). \<open>dict_of\<close> builds one from pairs, the
  later pair of a repeated key winning at the earlier one's place, and \<open>setdefault_append\<close>
  is \<open>d.setdefault(k, []).append(x)\<close>.
\<close>

type_synonym 'v dict = "(string \<times> 'v) list"

definition dict_of :: "('k \<times> 'v) list \<Rightarrow> ('k \<times> 'v) list" where
  "dict_of ps = fold (\<lambda>(k, v) d. AList.update k v d) ps []"

definition setdefault_append :: "'k \<Rightarrow> 'x \<Rightarrow> ('k \<times> 'x list) list \<Rightarrow> ('k \<times> 'x list) list" where
  "setdefault_append k x d =
     AList.update k ((case map_of d k of None \<Rightarrow> [] | Some xs \<Rightarrow> xs) @ [x]) d"

lemma map_of_update [simp, dict_simps]:
  "map_of (AList.update k v d) k' = (if k' = k then Some v else map_of d k')"
  by (simp add: update_conv')

lemma keys_update_distinct [simp, dict_simps]:
  "distinct (map fst d) \<Longrightarrow> distinct (map fst (AList.update k v d))"
  by (rule distinct_update)

lemma set_keys_update [simp, dict_simps]:
  "fst ` set (AList.update k v d) = insert k (fst ` set d)"
  by (simp add: dom_update)

lemma fold_update_keys:
  "fst ` set (fold (\<lambda>(k, v) d. AList.update k v d) ps d) = fst ` set ps \<union> fst ` set d"
  by (induction ps arbitrary: d) (auto simp: split_beta)

lemma distinct_fold_update:
  "distinct (map fst d) \<Longrightarrow> distinct (map fst (fold (\<lambda>(k, v) d. AList.update k v d) ps d))"
proof (induction ps arbitrary: d)
  case (Cons p ps)
  then show ?case
    by (cases p) (metis (no_types, lifting) case_prod_conv distinct_update fold_simps(2))
qed simp

lemma dict_of_keys [dict_simps]: "fst ` set (dict_of ps) = fst ` set ps"
  by (simp add: dict_of_def fold_update_keys)

lemma distinct_dict_of [simp, dict_simps]: "distinct (map fst (dict_of ps))"
  unfolding dict_of_def by (rule distinct_fold_update) simp

lemma update_fresh: "k \<notin> fst ` set d \<Longrightarrow> AList.update k v d = d @ [(k, v)]"
  by (induction d) auto

lemma fold_update_fresh:
  "distinct (map fst (d @ ps)) \<Longrightarrow> fold (\<lambda>(k, v) d. AList.update k v d) ps d = d @ ps"
proof (induction ps arbitrary: d)
  case (Cons p ps)
  obtain k v where p: "p = (k, v)" by (cases p)
  have "k \<notin> fst ` set d" using Cons.prems p by auto
  then have upd: "AList.update k v d = d @ [(k, v)]" by (rule update_fresh)
  have "distinct (map fst ((d @ [(k, v)]) @ ps))" using Cons.prems p by simp
  then have "fold (\<lambda>(k, v) d. AList.update k v d) ps (d @ [(k, v)]) = (d @ [(k, v)]) @ ps"
    by (rule Cons.IH)
  then show ?case by (simp add: p upd)
qed simp

lemma dict_of_id: "distinct (map fst ps) \<Longrightarrow> dict_of ps = ps"
  unfolding dict_of_def using fold_update_fresh [of "[]" ps] by simp

lemma map_of_setdefault_append [dict_simps]:
  "map_of (setdefault_append k x d) k' =
     (if k' = k then Some ((case map_of d k of None \<Rightarrow> [] | Some xs \<Rightarrow> xs) @ [x]) else map_of d k')"
  by (simp add: setdefault_append_def)

lemma keys_setdefault_append [dict_simps]:
  "fst ` set (setdefault_append k x d) = insert k (fst ` set d)"
  by (simp add: setdefault_append_def)

lemma distinct_setdefault_append [simp, dict_simps]:
  "distinct (map fst d) \<Longrightarrow> distinct (map fst (setdefault_append k x d))"
  by (simp add: setdefault_append_def distinct_update)

lemma map_of_Some_mem: "map_of d k = Some v \<Longrightarrow> (k, v) \<in> set d"
  by (rule map_of_SomeD)

lemma map_of_defined_iff: "(\<exists>v. map_of d k = Some v) \<longleftrightarrow> k \<in> fst ` set d"
  by (metis map_of_eq_None_iff not_None_eq option.distinct(1))

lemma map_of_mapval: "map_of (map (\<lambda>(k, v). (k, f v)) d) k = map_option f (map_of d k)"
  by (induction d) auto

section \<open>Lists\<close>

lemma distinct_concat_map:
  assumes "distinct (map g bs)" and "\<And>b. b \<in> set bs \<Longrightarrow> distinct (f b)"
    and "\<And>b c. b \<in> set bs \<Longrightarrow> c \<in> set bs \<Longrightarrow> g b \<noteq> g c \<Longrightarrow> set (f b) \<inter> set (f c) = {}"
  shows "distinct (concat (map f bs))"
  using assms
proof (induction bs)
  case (Cons b bs)
  have "set (f b) \<inter> set (f c) = {}" if "c \<in> set bs" for c
  proof -
    have "g b \<noteq> g c" using Cons.prems(1) that by force
    then show ?thesis using Cons.prems(3) [of b c] that by simp
  qed
  then have "set (f b) \<inter> set (concat (map f bs)) = {}" by auto
  moreover have "distinct (concat (map f bs))" by (rule Cons.IH) (use Cons.prems in auto)
  ultimately show ?case using Cons.prems(2) by simp
qed simp

section \<open>Decimal rendering\<close>

text \<open>
  \<open>str(n)\<close> for Python's unbounded integers, as the f-strings of the code use it.
\<close>

definition digit_char :: "nat \<Rightarrow> char" where
  "digit_char d = char_of (48 + d)"

fun show_nat :: "nat \<Rightarrow> string" where
  "show_nat n = (if n < 10 then [digit_char n] else show_nat (n div 10) @ [digit_char (n mod 10)])"

declare show_nat.simps [simp del]

function int_digits :: "int \<Rightarrow> string" where
  "int_digits i = (if i < 10 then [digit_char (nat i)] else int_digits (i div 10) @ [digit_char (nat (i mod 10))])"
  by pat_completeness auto
termination
  by (relation "measure nat") auto

declare int_digits.simps [simp del]

definition show_int :: "int \<Rightarrow> string" where
  "show_int i = (if i < 0 then CHR ''-'' # int_digits (- i) else int_digits i)"

definition is_digit :: "char \<Rightarrow> bool" where
  "is_digit c = (48 \<le> (of_char c :: nat) \<and> (of_char c :: nat) \<le> 57)"

definition digit_value :: "char \<Rightarrow> nat" where
  "digit_value c = of_char c - 48"

definition read_nat :: "string \<Rightarrow> nat" where
  "read_nat ds = foldl (\<lambda>n c. 10 * n + digit_value c) 0 ds"

lemma digit_char_value [simp]: "d < 10 \<Longrightarrow> digit_value (digit_char d) = d"
  by (simp add: digit_value_def digit_char_def of_char_of)

lemma is_digit_digit_char [simp]: "d < 10 \<Longrightarrow> is_digit (digit_char d)"
  by (simp add: is_digit_def digit_char_def of_char_of)

lemma read_show_nat [simp]: "read_nat (show_nat n) = n"
proof (induction n rule: show_nat.induct)
  case (1 n)
  show ?case
  proof (cases "n < 10")
    case True
    then show ?thesis by (subst show_nat.simps) (simp add: read_nat_def)
  next
    case False
    with "1.IH" have "read_nat (show_nat (n div 10)) = n div 10" by simp
    with False show ?thesis by (subst show_nat.simps) (simp add: read_nat_def)
  qed
qed

lemma show_nat_inject [simp]: "show_nat m = show_nat n \<longleftrightarrow> m = n"
  by (metis read_show_nat)

lemma show_nat_digits: "c \<in> set (show_nat n) \<Longrightarrow> is_digit c"
proof (induction n rule: show_nat.induct)
  case (1 n)
  then show ?case
    by (subst (asm) (2) show_nat.simps) (auto split: if_splits)
qed

lemma show_nat_nonempty [simp]: "show_nat n \<noteq> []"
  by (subst show_nat.simps) simp

section \<open>ASCII character classes and str methods\<close>

definition is_space :: "char \<Rightarrow> bool" where
  "is_space c = (let n = (of_char c :: nat) in n = 32 \<or> (9 \<le> n \<and> n \<le> 13) \<or> (28 \<le> n \<and> n \<le> 31))"

definition is_word_char :: "char \<Rightarrow> bool" where
  "is_word_char c = (let n = (of_char c :: nat)
     in is_digit c \<or> (65 \<le> n \<and> n \<le> 90) \<or> (97 \<le> n \<and> n \<le> 122) \<or> n = 95)"

definition lower_char :: "char \<Rightarrow> char" where
  "lower_char c = (let n = (of_char c :: nat) in if 65 \<le> n \<and> n \<le> 90 then char_of (n + 32) else c)"

definition strip :: "string \<Rightarrow> string" where
  "strip s = rev (dropWhile is_space (rev (dropWhile is_space s)))"

fun split_ws_aux :: "string \<Rightarrow> string \<Rightarrow> string list" where
  "split_ws_aux acc [] = (if acc = [] then [] else [rev acc])"
| "split_ws_aux acc (c # cs) =
     (if is_space c then (if acc = [] then split_ws_aux [] cs else rev acc # split_ws_aux [] cs)
      else split_ws_aux (c # acc) cs)"

definition split_ws :: "string \<Rightarrow> string list" where
  "split_ws s = split_ws_aux [] s"

fun join :: "string \<Rightarrow> string list \<Rightarrow> string" where
  "join sep [] = []"
| "join sep [x] = x"
| "join sep (x # y # xs) = x @ sep @ join sep (y # xs)"

definition starts_with :: "string \<Rightarrow> string \<Rightarrow> bool" where
  "starts_with p s = (take (length p) s = p)"

fun contains_sub :: "string \<Rightarrow> string \<Rightarrow> bool" where
  "contains_sub p [] = (p = [])"
| "contains_sub p (c # s) = (starts_with p (c # s) \<or> contains_sub p s)"

lemma dropWhile_none: "(\<forall>c \<in> set s. \<not> P c) \<Longrightarrow> dropWhile P s = s"
  by (cases s) auto

lemma strip_id: "(\<forall>c \<in> set s. \<not> is_space c) \<Longrightarrow> strip s = s"
  by (simp add: strip_def dropWhile_none)

lemma contains_sub_iff: "contains_sub p s \<longleftrightarrow> (\<exists>us vs. s = us @ p @ vs)"
proof (induction s)
  case Nil
  then show ?case by simp
next
  case (Cons c s)
  have start: "starts_with p (c # s) \<longleftrightarrow> (\<exists>vs. c # s = p @ vs)"
    unfolding starts_with_def by (metis append_eq_conv_conj)
  show ?case
  proof
    assume "contains_sub p (c # s)"
    then consider "\<exists>vs. c # s = p @ vs" | "\<exists>us vs. s = us @ p @ vs"
      using Cons.IH start by auto
    then show "\<exists>us vs. c # s = us @ p @ vs"
      by cases (metis append_Nil, metis append_Cons)
  next
    assume "\<exists>us vs. c # s = us @ p @ vs"
    then obtain us vs where eq: "c # s = us @ p @ vs" by blast
    show "contains_sub p (c # s)"
    proof (cases us)
      case Nil
      with eq have "c # s = p @ vs" by simp
      with start have "starts_with p (c # s)" by blast
      then show ?thesis by simp
    next
      case (Cons d us')
      with eq have "s = us' @ p @ vs" by simp
      with Cons.IH show ?thesis by auto
    qed
  qed
qed

end
