(* ===== verification/Values.thy ===== *)
theory Values
  imports Prelude
begin

text \<open>
  The Python values a workflow carries: what \<open>json.load\<close> returns and what ports hold
  (None, bool, int, float, str, list, dict). Floats are IEEE binary64: a finite value is the
  rational it denotes, and \<open>round_double\<close> rounds a rational to the nearest one (ties to
  even), as \<open>float(s)\<close> and \<open>float(n)\<close> do. Signed zeros are one value, which no
  modelled operation but \<open>repr\<close> can tell apart.
  \<open>py_eq\<close> is \<open>==\<close>: numbers compare by value across bool, int and float, dicts
  ignore order. \<open>py_str\<close> is \<open>str(x)\<close>, \<open>py_repr\<close> is \<open>repr(x)\<close>.
\<close>

section \<open>Binary64 floats\<close>

datatype pyfloat = PFin rat | PInf | PNegInf | PNaN

definition round_half_even :: "rat \<Rightarrow> int" where
  "round_half_even r =
     (let f = \<lfloor>r\<rfloor>; d = r - of_int f
      in if d < 1/2 then f else if 1/2 < d then f + 1 else if even f then f else f + 1)"

function bit_length :: "int \<Rightarrow> int" where
  "bit_length n = (if n \<le> 0 then 0 else 1 + bit_length (n div 2))"
  by pat_completeness auto
termination
  by (relation "measure nat") auto

declare bit_length.simps [simp del]

definition pow2 :: "int \<Rightarrow> rat" where
  "pow2 k = (if 0 \<le> k then 2 ^ nat k else 1 / 2 ^ nat (- k))"

definition pow10 :: "int \<Rightarrow> rat" where
  "pow10 k = (if 0 \<le> k then 10 ^ nat k else 1 / 10 ^ nat (- k))"

definition floor_log2 :: "rat \<Rightarrow> int" where
  "floor_log2 r =
     (let (n, d) = quotient_of r; k = bit_length n - bit_length d
      in if pow2 k \<le> r then k else k - 1)"

definition round_double :: "rat \<Rightarrow> pyfloat" where
  "round_double r =
     (if r = 0 then PFin 0
      else let a = \<bar>r\<bar>; e = max (floor_log2 a - 52) (- 1074); m = round_half_even (a / pow2 e);
               v = of_int m * pow2 e
           in if 2 ^ 1024 \<le> v then (if r < 0 then PNegInf else PInf)
              else PFin (if r < 0 then - v else v))"

fun pf_eq :: "pyfloat \<Rightarrow> pyfloat \<Rightarrow> bool" where
  "pf_eq (PFin a) (PFin b) = (a = b)"
| "pf_eq PInf PInf = True"
| "pf_eq PNegInf PNegInf = True"
| "pf_eq _ _ = False"

fun pf_less :: "pyfloat \<Rightarrow> pyfloat \<Rightarrow> bool" where
  "pf_less (PFin a) (PFin b) = (a < b)"
| "pf_less (PFin a) PInf = True"
| "pf_less PNegInf (PFin b) = True"
| "pf_less PNegInf PInf = True"
| "pf_less _ _ = False"

definition pf_le :: "pyfloat \<Rightarrow> pyfloat \<Rightarrow> bool" where
  "pf_le a b = (pf_less a b \<or> pf_eq a b)"

lemma pf_less_irrefl [simp]: "\<not> pf_less a a"
  by (cases a) auto

lemma pf_less_trans: "pf_less a b \<Longrightarrow> pf_less b c \<Longrightarrow> pf_less a c"
  by (cases a; cases b; cases c) auto

lemma pf_trichotomy: "a \<noteq> PNaN \<Longrightarrow> b \<noteq> PNaN \<Longrightarrow> pf_less a b \<or> pf_eq a b \<or> pf_less b a"
  by (cases a; cases b) auto

text \<open>
  \<open>repr\<close> of a float: the shortest decimal that rounds back to it, among those the closest
  to its value. \<open>pf_digits\<close> tries \<open>n\<close> = 1, 2, \dots 17 significant digits;
  17 always suffice for binary64.
\<close>

fun log10_up :: "nat \<Rightarrow> rat \<Rightarrow> int" where
  "log10_up 0 r = 0"
| "log10_up (Suc fuel) r =
     (if r < 1/10 then log10_up fuel (r * 10) - 1 else if 1 \<le> r then log10_up fuel (r / 10) + 1 else 0)"

definition pf_candidates :: "rat \<Rightarrow> int \<Rightarrow> nat \<Rightarrow> int list" where
  "pf_candidates a dp n =
     (let q = a * pow10 (int n - dp); f = \<lfloor>q\<rfloor>; near = round_half_even q
      in filter (\<lambda>c. round_double (of_int c * pow10 (dp - int n)) = PFin a)
           (if near = f then [f, f + 1] else [f + 1, f]))"

fun pf_digits :: "nat \<Rightarrow> nat \<Rightarrow> rat \<Rightarrow> int \<Rightarrow> int \<times> nat" where
  "pf_digits 0 n a dp = (round_half_even (a * pow10 (int n - dp)), n)"
| "pf_digits (Suc fuel) n a dp =
     (case pf_candidates a dp n of c # _ \<Rightarrow> (c, n) | [] \<Rightarrow> pf_digits fuel (Suc n) a dp)"

definition strip_zeros :: "string \<Rightarrow> string" where
  "strip_zeros s = rev (dropWhile (\<lambda>c. c = CHR ''0'') (rev s))"

definition pf_repr_abs :: "rat \<Rightarrow> string" where
  "pf_repr_abs a =
     (let dp0 = log10_up 700 a; (c, n) = pf_digits 17 1 a dp0; raw = int_digits c;
          dp = dp0 + int (length raw) - int n; ds = strip_zeros raw; k = length ds
      in if - 4 < dp \<and> dp \<le> 16
         then (if dp \<le> 0 then ''0.'' @ replicate (nat (- dp)) (CHR ''0'') @ ds
               else if k \<le> nat dp then ds @ replicate (nat dp - k) (CHR ''0'') @ ''.0''
               else take (nat dp) ds @ ''.'' @ drop (nat dp) ds)
         else take 1 ds @ (if k = 1 then '''' else ''.'' @ drop 1 ds) @ ''e''
              @ (if dp - 1 < 0 then ''-'' else ''+'')
              @ (let x = int_digits \<bar>dp - 1\<bar> in if length x < 2 then ''0'' @ x else x))"

fun pf_repr :: "pyfloat \<Rightarrow> string" where
  "pf_repr (PFin r) = (if r = 0 then ''0.0'' else if r < 0 then ''-'' @ pf_repr_abs (- r) else pf_repr_abs r)"
| "pf_repr PInf = ''inf''"
| "pf_repr PNegInf = ''-inf''"
| "pf_repr PNaN = ''nan''"

section \<open>Values\<close>

datatype pyval =
    VNone
  | VBool bool
  | VInt int
  | VFloat pyfloat
  | VStr string
  | VList "pyval list"
  | VDict "(string \<times> pyval) list"

type_synonym schema = "(string \<times> pyval) list"

fun py_num :: "pyval \<Rightarrow> pyfloat option" where
  "py_num (VBool b) = Some (PFin (if b then 1 else 0))"
| "py_num (VInt i) = Some (PFin (of_int i))"
| "py_num (VFloat f) = Some f"
| "py_num _ = None"

fun py_eq :: "pyval \<Rightarrow> pyval \<Rightarrow> bool"
and py_eq_list :: "pyval list \<Rightarrow> pyval list \<Rightarrow> bool"
and py_eq_dict :: "(string \<times> pyval) list \<Rightarrow> (string \<times> pyval) list \<Rightarrow> bool" where
  "py_eq (VList xs) w = (case w of VList ys \<Rightarrow> py_eq_list xs ys | _ \<Rightarrow> False)"
| "py_eq (VDict d) w =
     (case w of VDict e \<Rightarrow> length d = length e \<and> py_eq_dict d e | _ \<Rightarrow> False)"
| "py_eq VNone w = (w = VNone)"
| "py_eq (VStr s) w = (w = VStr s)"
| "py_eq v w = (case (py_num v, py_num w) of (Some a, Some b) \<Rightarrow> pf_eq a b | _ \<Rightarrow> False)"
| "py_eq_list [] ys = (ys = [])"
| "py_eq_list (x # xs) ys = (case ys of [] \<Rightarrow> False | y # ys' \<Rightarrow> py_eq x y \<and> py_eq_list xs ys')"
| "py_eq_dict [] e = True"
| "py_eq_dict ((k, v) # d) e =
     ((case map_of e k of None \<Rightarrow> False | Some w \<Rightarrow> py_eq v w) \<and> py_eq_dict d e)"

fun truthy :: "pyval \<Rightarrow> bool" where
  "truthy VNone = False"
| "truthy (VBool b) = b"
| "truthy (VInt i) = (i \<noteq> 0)"
| "truthy (VFloat f) = (f \<noteq> PFin 0)"
| "truthy (VStr s) = (s \<noteq> [])"
| "truthy (VList xs) = (xs \<noteq> [])"
| "truthy (VDict d) = (d \<noteq> [])"

fun type_name :: "pyval \<Rightarrow> string" where
  "type_name VNone = ''NoneType''"
| "type_name (VBool b) = ''bool''"
| "type_name (VInt i) = ''int''"
| "type_name (VFloat f) = ''float''"
| "type_name (VStr s) = ''str''"
| "type_name (VList xs) = ''list''"
| "type_name (VDict d) = ''dict''"

definition hex_digit :: "nat \<Rightarrow> char" where
  "hex_digit d = (if d < 10 then char_of (48 + d) else char_of (87 + d))"

definition hex2 :: "nat \<Rightarrow> string" where
  "hex2 n = [hex_digit (n div 16), hex_digit (n mod 16)]"

definition repr_char :: "char \<Rightarrow> char \<Rightarrow> string" where
  "repr_char q c =
     (let n = (of_char c :: nat)
      in if c = q \<or> n = 92 then [char_of (92::nat), c]
         else if n = 10 then [char_of (92::nat), CHR ''n'']
         else if n = 13 then [char_of (92::nat), CHR ''r'']
         else if n = 9 then [char_of (92::nat), CHR ''t'']
         else if n < 32 \<or> (127 \<le> n \<and> n \<le> 160) \<or> n = 173 then [char_of (92::nat), CHR ''x''] @ hex2 n
         else [c])"

definition repr_str :: "string \<Rightarrow> string" where
  "repr_str s =
     (let sq = char_of (39::nat); dq = char_of (34::nat);
          q = (if sq \<in> set s \<and> dq \<notin> set s then dq else sq)
      in [q] @ concat (map (repr_char q) s) @ [q])"

fun py_repr :: "pyval \<Rightarrow> string" where
  "py_repr VNone = ''None''"
| "py_repr (VBool b) = (if b then ''True'' else ''False'')"
| "py_repr (VInt i) = show_int i"
| "py_repr (VFloat f) = pf_repr f"
| "py_repr (VStr s) = repr_str s"
| "py_repr (VList xs) = ''['' @ join '', '' (map py_repr xs) @ '']''"
| "py_repr (VDict d) = ''{'' @ join '', '' (map (\<lambda>(k, v). repr_str k @ '': '' @ py_repr v) d) @ ''}''"

fun py_str :: "pyval \<Rightarrow> string" where
  "py_str (VStr s) = s"
| "py_str v = py_repr v"

section \<open>Properties\<close>

fun nan_free :: "pyval \<Rightarrow> bool" where
  "nan_free (VFloat f) = (f \<noteq> PNaN)"
| "nan_free (VList xs) = (\<forall>x \<in> set xs. nan_free x)"
| "nan_free (VDict d) = (\<forall>(k, v) \<in> set d. nan_free v)"
| "nan_free _ = True"

fun keys_distinct :: "pyval \<Rightarrow> bool" where
  "keys_distinct (VList xs) = (\<forall>x \<in> set xs. keys_distinct x)"
| "keys_distinct (VDict d) = (distinct (map fst d) \<and> (\<forall>(k, v) \<in> set d. keys_distinct v))"
| "keys_distinct _ = True"

lemma pf_eq_refl [simp]: "pf_eq f f \<longleftrightarrow> f \<noteq> PNaN"
  by (cases f) auto

lemma py_eq_dict_sub:
  "(\<And>k v. (k, v) \<in> set d \<Longrightarrow> \<exists>w. map_of e k = Some w \<and> py_eq v w) \<Longrightarrow> py_eq_dict d e"
proof (induction d)
  case Nil
  then show ?case by simp
next
  case (Cons p d)
  obtain k v where p: "p = (k, v)" by (cases p)
  have "\<exists>w. map_of e k = Some w \<and> py_eq v w" using Cons.prems p by simp
  moreover have "py_eq_dict d e" using Cons.IH Cons.prems by (meson list.set_intros(2))
  ultimately show ?case using p by auto
qed

lemma py_eq_refl: "nan_free v \<Longrightarrow> keys_distinct v \<Longrightarrow> py_eq v v"
proof (induction v)
  case (VList xs)
  have "(\<And>x. x \<in> set ys \<Longrightarrow> py_eq x x) \<Longrightarrow> py_eq_list ys ys" for ys
    by (induction ys) auto
  then show ?case using VList by auto
next
  case (VDict d)
  have "py_eq_dict d d"
  proof (rule py_eq_dict_sub)
    fix k v assume kv: "(k, v) \<in> set d"
    then have "map_of d k = Some v" using VDict.prems by simp
    moreover have "py_eq v v"
      using VDict.IH [of "(k, v)" v] VDict.prems kv by fastforce
    ultimately show "\<exists>w. map_of d k = Some w \<and> py_eq v w" by blast
  qed
  then show ?case by simp
qed auto

end
