(* ===== verification/Models.thy ===== *)
theory Models
  imports Values
begin

text \<open>
  \<open>flow/models.py\<close>: the frozen domain model of a workflow definition, its entry frontier,
  and the shape an agent's result must have. \<open>NodeDef\<close> and \<open>WorkflowDef\<close> refer to each
  other (a subflow node carries its inline child), so they are mutually recursive datatypes
  whose selectors are the dataclass fields; the leaf dataclasses are records.
\<close>

section \<open>Ports, retry, inheritance, conditions, edges\<close>

definition IN_NODE_ID :: node_id where
  "IN_NODE_ID = ''$in''"

definition OUT_NODE_ID :: node_id where
  "OUT_NODE_ID = ''$output''"

record port =
  port_name :: string
  port_schema :: schema
  port_required :: bool

definition string_schema :: schema where
  "string_schema = [(''type'', VStr ''string'')]"

definition default_port :: "string \<Rightarrow> port" where
  "default_port n = \<lparr>port_name = n, port_schema = string_schema, port_required = True\<rparr>"

definition schema_type :: "schema \<Rightarrow> string" where
  "schema_type s = (case map_of s ''type'' of None \<Rightarrow> ''string'' | Some (VStr t) \<Rightarrow> t | Some _ \<Rightarrow> ''string'')"

definition port_type :: "port \<Rightarrow> string" where
  "port_type p = schema_type (port_schema p)"

record retry_policy =
  retry_max :: int
  retry_backoff :: pyfloat

record inherit_spec =
  from_node :: node_id

datatype cond_op = Equals | Contains | Gt | Gte | Lt | Lte | NotC | AndC | OrC

datatype condition = Condition
  (cond_op: cond_op)
  (cond_value: "string option")
  (cond_text: "string option")
  (cond_children: "condition list")

datatype fan_in_mode = FanList | FanConcat

record edge_def =
  src :: node_id
  dst :: node_id
  mapping :: "(string \<times> string) list"
  edge_when :: "condition option"
  loop_max :: "int option"
  fan_out :: "string option"
  fan_in :: "fan_in_mode option"
  loop_strict :: bool

datatype sched_mode = Timer | Hook

record schedule_def =
  sch_mode :: sched_mode
  sch_every :: "string option"
  sch_cron :: "string option"
  sch_inputs :: "(string \<times> pyval) list"
  sch_signal :: "string option"
  sch_listen :: "(string \<times> pyval) list option"
  sch_timeout :: "string option"
  sch_jitter :: "string option"

datatype node_type = Agent | Script | Human | Subflow

datatype on_error_mode = Fail | Isolate

datatype node_def = NodeDef
  (nd_id: node_id)
  (nd_type: node_type)
  (nd_signal: string)
  (nd_model: "string option")
  (nd_system_prompt: string)
  (nd_prompt: string)
  (nd_tools: "string list")
  (nd_skills: "string list")
  (nd_run: "string option")
  (nd_input_ports: "port list")
  (nd_output_ports: "port list")
  (nd_code: "string option")
  (nd_web_search: bool)
  (nd_web_search_model: "string option")
  (nd_retry: "retry_policy option")
  (nd_on_error: on_error_mode)
  (nd_deterministic: bool)
  (nd_child: "workflow_def option")
  (nd_backend: "string option")
  (nd_allowed_tools: "string list")
  (nd_mcp_servers: "(string \<times> (string \<times> pyval) list) list")
  (nd_inherit: "inherit_spec option")
and workflow_def = WorkflowDef
  (wf_name: string)
  (wf_provider: string)
  (wf_entry: node_id)
  (wf_nodes: "node_def list")
  (wf_edges: "edge_def list")
  (wf_default_model: string)
  (wf_initial_state: "(string \<times> pyval) list")
  (wf_in_schema: "(string \<times> schema) list")
  (wf_tool_refs: "(string \<times> string) list")
  (wf_max_concurrency: int)
  (wf_fan_max_concurrency: int)
  (wf_schedule: "schedule_def option")

definition input_names :: "node_def \<Rightarrow> string list" where
  "input_names n = map port_name (nd_input_ports n)"

definition output_names :: "node_def \<Rightarrow> string list" where
  "output_names n = map port_name (nd_output_ports n)"

text \<open>\<open>NodeDef(id=..., type=...)\<close> with every other field at its default, and an
  \<open>EdgeDef(src, dst)\<close> likewise: the starting points of the examples.\<close>

definition node_default :: "node_id \<Rightarrow> node_type \<Rightarrow> node_def" where
  "node_default i t = NodeDef i t '''' None '''' '''' [] [] None [] [] None False None None Fail
     False None None [] [] None"

definition edge_default :: "node_id \<Rightarrow> node_id \<Rightarrow> edge_def" where
  "edge_default s d = \<lparr>src = s, dst = d, mapping = [], edge_when = None, loop_max = None,
     fan_out = None, fan_in = None, loop_strict = False\<rparr>"

definition workflow_default ::
  "string \<Rightarrow> string \<Rightarrow> node_id \<Rightarrow> node_def list \<Rightarrow> edge_def list \<Rightarrow> workflow_def" where
  "workflow_default name provider entry nodes edges =
     WorkflowDef name provider entry nodes edges '''' [] [] [] 0 0 None"

section \<open>The entry frontier\<close>

definition has_real_pred :: "edge_def list \<Rightarrow> node_id set" where
  "has_real_pred es =
     set (map dst (filter (\<lambda>e. loop_max e = None \<and> \<not> (src e = IN_NODE_ID \<or> dst e = OUT_NODE_ID)) es))"

definition entry_frontier :: "workflow_def \<Rightarrow> node_id list" where
  "entry_frontier w =
     (if wf_entry w \<noteq> [] then [wf_entry w]
      else filter (\<lambda>n. n \<notin> has_real_pred (wf_edges w)) (map nd_id (wf_nodes w)))"

section \<open>What an agent returns\<close>

definition agent_is_structured :: "node_def \<Rightarrow> bool" where
  "agent_is_structured n =
     (let ports = nd_output_ports n
      in if length ports = 0 then False
         else if length ports = 1 \<and> py_eq (VDict (port_schema (hd ports))) (VDict string_schema) then False
         else True)"

definition agent_submits_object :: "node_def \<Rightarrow> bool" where
  "agent_submits_object n = (agent_is_structured n \<and> 1 < length (nd_output_ports n))"

definition submit_instruction :: "node_def \<Rightarrow> string option" where
  "submit_instruction n =
     (let ports = nd_output_ports n; nl = [char_of (10::nat)]
      in if \<not> agent_submits_object n
         then (case ports of
                 [] \<Rightarrow> None
               | port # _ \<Rightarrow>
                   (let kind = (case map_of (port_schema port) ''type'' of
                                  Some t \<Rightarrow> (if truthy t then py_str t else ''value'')
                                | None \<Rightarrow> ''value'')
                    in Some (nl @ ''When finished, you MUST call the submit_result tool.''
                         @ '' Pass the '' @ port_name port
                         @ '' value ITSELF as `result` -- a JSON '' @ kind @ ''.''
                         @ '' Do not wrap it in an object.'')))
         else Some (nl @ ''When finished, you MUST call the submit_result tool''
                @ '' with an object containing these fields: ''
                @ join '', '' (map port_name ports) @ ''.''))"

definition agent_output_schema :: "node_def \<Rightarrow> schema" where
  "agent_output_schema n =
     (let ports = nd_output_ports n
      in if length ports = 1 then port_schema (hd ports)
         else [(''type'', VStr ''object''),
               (''properties'', VDict (dict_of (map (\<lambda>p. (port_name p, VDict (port_schema p))) ports))),
               (''required'', VList (map (\<lambda>p. VStr (port_name p)) (filter port_required ports)))])"

section \<open>Properties\<close>

lemma entry_frontier_explicit: "wf_entry w \<noteq> [] \<Longrightarrow> entry_frontier w = [wf_entry w]"
  by (simp add: entry_frontier_def)

lemma entry_frontier_subset:
  "wf_entry w = [] \<Longrightarrow> set (entry_frontier w) \<subseteq> nd_id ` set (wf_nodes w)"
  by (auto simp: entry_frontier_def)

lemma entry_frontier_no_pred:
  assumes "wf_entry w = []" and "n \<in> set (entry_frontier w)" and "e \<in> set (wf_edges w)"
    and "dst e = n" and "loop_max e = None" and "n \<noteq> OUT_NODE_ID"
  shows "src e = IN_NODE_ID"
  using assms by (auto simp: entry_frontier_def has_real_pred_def)

text \<open>The prose the model is given agrees with the schema its answer is checked against:
  a structured node is told to wrap its answer in an object exactly when the schema is the
  port-keyed object.\<close>

lemma structured_ports: "agent_is_structured n \<Longrightarrow> nd_output_ports n \<noteq> []"
  by (auto simp: agent_is_structured_def)

lemma submit_schema_single:
  assumes "agent_is_structured n" and "\<not> agent_submits_object n"
  shows "\<exists>p. nd_output_ports n = [p] \<and> agent_output_schema n = port_schema p"
proof -
  from assms have "length (nd_output_ports n) = 1"
    using structured_ports by (cases "nd_output_ports n") (auto simp: agent_submits_object_def)
  then obtain p where "nd_output_ports n = [p]" by (metis One_nat_def length_0_conv length_Suc_conv)
  then show ?thesis by (simp add: agent_output_schema_def)
qed

lemma submit_schema_object:
  assumes "agent_submits_object n"
  shows "map_of (agent_output_schema n) ''type'' = Some (VStr ''object'')"
  using assms by (auto simp: agent_submits_object_def agent_output_schema_def Let_def)

end
