(* ===== verification/Errors.thy ===== *)
theory Errors
  imports Models
begin

text \<open>
  The exceptions of \<open>flow/errors.py\<close> and the built-in ones the modelled code can raise.
  A \<open>WorkflowValidationError\<close> keeps its machine-readable part, the code and the node or
  edge it is about; the prose of a message is not modelled. \<open>IllTyped\<close> is not an exception:
  it marks the inputs for which the code stores, unchecked, a value of another type than the
  dataclass field declares, a value the typed model does not have.
\<close>

section \<open>Codes\<close>

abbreviation UNKNOWN_REFERENCE :: string where "UNKNOWN_REFERENCE \<equiv> ''unknown-reference''"
abbreviation DUPLICATE_OR_RESERVED_ID :: string where "DUPLICATE_OR_RESERVED_ID \<equiv> ''duplicate-or-reserved-id''"
abbreviation UNKNOWN_FIELD :: string where "UNKNOWN_FIELD \<equiv> ''unknown-field''"
abbreviation MISSING_REQUIRED :: string where "MISSING_REQUIRED \<equiv> ''missing-required''"
abbreviation WRONG_SHAPE :: string where "WRONG_SHAPE \<equiv> ''wrong-shape''"
abbreviation INVALID_VALUE :: string where "INVALID_VALUE \<equiv> ''invalid-value''"
abbreviation TYPE_MISMATCH :: string where "TYPE_MISMATCH \<equiv> ''type-mismatch''"
abbreviation INVALID_SCHEMA :: string where "INVALID_SCHEMA \<equiv> ''invalid-schema''"
abbreviation GRAPH_INCOMPLETE :: string where "GRAPH_INCOMPLETE \<equiv> ''graph-incomplete''"
abbreviation AMBIGUOUS_INPUT :: string where "AMBIGUOUS_INPUT \<equiv> ''ambiguous-input''"
abbreviation INVALID_LOOP :: string where "INVALID_LOOP \<equiv> ''invalid-loop''"
abbreviation INVALID_FANOUT :: string where "INVALID_FANOUT \<equiv> ''invalid-fanout''"
abbreviation NODE_KIND_CONFLICT :: string where "NODE_KIND_CONFLICT \<equiv> ''node-kind-conflict''"
abbreviation INVALID_SCRIPT :: string where "INVALID_SCRIPT \<equiv> ''invalid-script''"
abbreviation INVALID_TEMPLATE :: string where "INVALID_TEMPLATE \<equiv> ''invalid-template''"
abbreviation INVALID_SUBFLOW :: string where "INVALID_SUBFLOW \<equiv> ''invalid-subflow''"
abbreviation PROVIDER_REQUIRED :: string where "PROVIDER_REQUIRED \<equiv> ''provider-required''"
abbreviation INVALID_SCHEDULE :: string where "INVALID_SCHEDULE \<equiv> ''invalid-schedule''"

section \<open>Exceptions\<close>

record validation_error =
  ve_code :: string
  ve_node :: "node_id option"
  ve_edge :: "(node_id \<times> node_id) option"

datatype pyexc =
    ValidationError validation_error
  | ExecutionError
  | WorkflowPaused node_id string
  | BudgetExceeded int int
  | ValueError
  | TypeError
  | KeyError
  | IndexError
  | AttributeError
  | OverflowError
  | AssertionError
  | IllTyped

definition invalid :: "string \<Rightarrow> pyexc" where
  "invalid code = ValidationError \<lparr>ve_code = code, ve_node = None, ve_edge = None\<rparr>"

definition invalid_node :: "string \<Rightarrow> node_id \<Rightarrow> pyexc" where
  "invalid_node code n = ValidationError \<lparr>ve_code = code, ve_node = Some n, ve_edge = None\<rparr>"

definition invalid_edge :: "string \<Rightarrow> node_id \<Rightarrow> node_id \<Rightarrow> pyexc" where
  "invalid_edge code s d = ValidationError \<lparr>ve_code = code, ve_node = None, ve_edge = Some (s, d)\<rparr>"

definition is_validation :: "pyexc \<Rightarrow> bool" where
  "is_validation e = (case e of ValidationError _ \<Rightarrow> True | _ \<Rightarrow> False)"

lemma is_validation_simps [simp]:
  "is_validation (ValidationError v)" "is_validation (invalid c)"
  "is_validation (invalid_node c n)" "is_validation (invalid_edge c s d)"
  by (simp_all add: is_validation_def invalid_def invalid_node_def invalid_edge_def)

text \<open>\<open>as_dict\<close>: absent fields are omitted; the message and hint are the caller's.\<close>

definition error_as_dict :: "string \<Rightarrow> string option \<Rightarrow> validation_error \<Rightarrow> (string \<times> pyval) list" where
  "error_as_dict message hint v =
     [(''message'', VStr message)]
     @ (if ve_code v \<noteq> [] then [(''code'', VStr (ve_code v))] else [])
     @ (case ve_node v of None \<Rightarrow> [] | Some n \<Rightarrow> [(''node'', VStr n)])
     @ (case ve_edge v of None \<Rightarrow> [] | Some (s, d) \<Rightarrow> [(''edge'', VDict [(''from'', VStr s), (''to'', VStr d)])])
     @ (case hint of None \<Rightarrow> [] | Some h \<Rightarrow> [(''hint'', VStr h)])"

end
