(* ===== verification/Loader_Schema.thy ===== *)
theory Loader_Schema
  imports Errors
begin

text \<open>
  The static schema functions of \<open>flow/loader.py\<close>: what a mapping's JSONPath source refers
  to, the schema and type of a node's output ports, and a workflow's input and output
  signatures. A missing answer (\<open>None\<close>) is the code's lenient "leave it un-typed".
\<close>

section \<open>Paths\<close>

definition path_body :: "string \<Rightarrow> string" where
  "path_body key = (if starts_with ''$.'' key then drop 2 key else if starts_with ''$'' key then drop 1 key else key)"

definition is_sep :: "char \<Rightarrow> bool" where
  "is_sep c = (c = CHR ''.'' \<or> c = CHR ''['')"

definition jsonpath_root :: "string \<Rightarrow> string \<times> bool" where
  "jsonpath_root key =
     (let body = path_body key; root = takeWhile (\<lambda>c. \<not> is_sep c) body
      in (root, length root < length body))"

definition plain_index :: "string \<Rightarrow> bool" where
  "plain_index b = (let d = dropWhile (\<lambda>c. c = CHR ''-'') (strip b) in d \<noteq> [] \<and> (\<forall>c \<in> set d. is_digit c))"

text \<open>The steps of a tail, \<open>.field\<close> or \<open>[index]\<close>, until it is used up; any other construct,
  and any gap the scanner would skip over, makes the path un-typable.\<close>

function tail_steps :: "string \<Rightarrow> string list option" where
  "tail_steps [] = Some []"
| "tail_steps (c # s) =
     (if c = CHR ''.''
      then (let f = takeWhile is_word_char s
            in if f = [] then None else map_option (Cons f) (tail_steps (drop (length f) s)))
      else if c = CHR ''[''
      then (let b = takeWhile (\<lambda>x. x \<noteq> CHR '']'') s; rest = drop (length b) s
            in if rest = [] \<or> \<not> plain_index b then None
               else map_option (Cons ''[]'') (tail_steps (drop 1 rest)))
      else None)"
  by pat_completeness auto
termination
  by (relation "measure length") auto

definition jsonpath_tail_steps :: "string \<Rightarrow> string list option" where
  "jsonpath_tail_steps key =
     (let body = path_body key; tail = dropWhile (\<lambda>c. \<not> is_sep c) body
      in if tail = [] then Some [] else if contains_sub ''..'' tail then None else tail_steps tail)"

section \<open>Descending a schema\<close>

definition schema_step :: "(string \<times> pyval) list \<Rightarrow> string \<Rightarrow> pyval option" where
  "schema_step d step =
     (if step = ''[]'' then map_of d ''items''
      else (case map_of d ''properties'' of Some (VDict props) \<Rightarrow> map_of props step | _ \<Rightarrow> None))"

fun schema_descend :: "pyval \<Rightarrow> string list \<Rightarrow> schema option" where
  "schema_descend cur [] = (case cur of VDict d \<Rightarrow> Some d | _ \<Rightarrow> None)"
| "schema_descend cur (step # steps) =
     (case cur of
        VDict d \<Rightarrow> (case schema_step d step of
            None \<Rightarrow> None | Some VNone \<Rightarrow> None | Some v \<Rightarrow> schema_descend v steps)
      | _ \<Rightarrow> None)"

definition schema_subschema :: "schema \<Rightarrow> string list \<Rightarrow> schema option" where
  "schema_subschema s steps = schema_descend (VDict s) steps"

definition type_field :: "schema \<Rightarrow> string option" where
  "type_field s = (case map_of s ''type'' of Some (VStr t) \<Rightarrow> Some t | _ \<Rightarrow> None)"

definition schema_subtype :: "schema \<Rightarrow> string list \<Rightarrow> string option" where
  "schema_subtype s steps = (case schema_subschema s steps of None \<Rightarrow> None | Some leaf \<Rightarrow> type_field leaf)"

section \<open>Output ports of a source\<close>

definition find_node :: "workflow_def \<Rightarrow> node_id \<Rightarrow> node_def option" where
  "find_node w i = List.find (\<lambda>n. nd_id n = i) (wf_nodes w)"

definition output_port_names :: "workflow_def \<Rightarrow> node_id \<Rightarrow> string set \<Rightarrow> string set" where
  "output_port_names w i in_ports =
     (if i = IN_NODE_ID then in_ports
      else (case find_node w i of Some n \<Rightarrow> set (output_names n) | None \<Rightarrow> {}))"

definition output_port_schemas :: "workflow_def \<Rightarrow> node_id \<Rightarrow> (string \<times> schema) list" where
  "output_port_schemas w i =
     (if i = IN_NODE_ID then dict_of (wf_in_schema w)
      else (case find_node w i of
              Some n \<Rightarrow> dict_of (map (\<lambda>p. (port_name p, port_schema p)) (nd_output_ports n)) | None \<Rightarrow> []))"

definition output_port_types :: "workflow_def \<Rightarrow> node_id \<Rightarrow> (string \<times> string) list" where
  "output_port_types w i =
     (if i = IN_NODE_ID
      then dict_of (concat (map (\<lambda>(k, s). case type_field s of Some t \<Rightarrow> [(k, t)] | None \<Rightarrow> []) (wf_in_schema w)))
      else (case find_node w i of
              Some n \<Rightarrow> dict_of (map (\<lambda>p. (port_name p, port_type p)) (nd_output_ports n)) | None \<Rightarrow> []))"

section \<open>Signatures\<close>

definition node_by_id :: "workflow_def \<Rightarrow> node_id \<Rightarrow> node_def option" where
  "node_by_id w = map_of (dict_of (map (\<lambda>n. (nd_id n, n)) (wf_nodes w)))"

definition note_consumers ::
  "node_def \<Rightarrow> (string \<times> string) list \<Rightarrow> (string \<times> schema list) list \<Rightarrow> (string \<times> schema list) list" where
  "note_consumers n mp seen =
     (let ports = dict_of (map (\<lambda>p. (port_name p, port_schema p)) (nd_input_ports n))
      in fold (\<lambda>(sport, dport) seen.
           (let (head, sub) = jsonpath_root sport
            in case map_of ports dport of
                 None \<Rightarrow> seen
               | Some s \<Rightarrow> (if sub then seen else setdefault_append head s seen))) mp seen)"

definition consumer_schemas :: "workflow_def \<Rightarrow> (string \<times> schema list) list" where
  "consumer_schemas w =
     fold (\<lambda>e seen.
       (if src e \<noteq> IN_NODE_ID \<or> fan_out e \<noteq> None then seen
        else (case node_by_id w (dst e) of None \<Rightarrow> seen | Some n \<Rightarrow> note_consumers n (mapping e) seen)))
       (wf_edges w) []"

definition schemas_agree :: "schema list \<Rightarrow> bool" where
  "schemas_agree ss = (case ss of [] \<Rightarrow> False | s # _ \<Rightarrow> (\<forall>t \<in> set ss. py_eq (VDict t) (VDict s)))"

definition infer_input_schema :: "workflow_def \<Rightarrow> (string \<times> schema) list" where
  "infer_input_schema w =
     map (\<lambda>(k, ss). (k, hd ss)) (filter (\<lambda>(k, ss). schemas_agree ss) (consumer_schemas w))"

definition signature_of :: "(string \<times> schema) list \<Rightarrow> schema" where
  "signature_of props =
     [(''type'', VStr ''object''), (''properties'', VDict (map (\<lambda>(k, s). (k, VDict s)) props)),
      (''required'', VList (map VStr (sort (map fst props))))]"

definition input_properties :: "workflow_def \<Rightarrow> (string \<times> schema) list" where
  "input_properties w = (if wf_in_schema w \<noteq> [] then dict_of (wf_in_schema w) else infer_input_schema w)"

definition workflow_input_schema :: "workflow_def \<Rightarrow> schema" where
  "workflow_input_schema w = signature_of (input_properties w)"

definition source_schema :: "workflow_def \<Rightarrow> edge_def \<Rightarrow> string \<Rightarrow> schema" where
  "source_schema w e sport =
     (let (head, sub) = jsonpath_root sport
      in case map_of (output_port_schemas w (src e)) head of
           None \<Rightarrow> string_schema
         | Some s \<Rightarrow>
             (if \<not> sub then s
              else (case jsonpath_tail_steps sport of
                      None \<Rightarrow> string_schema
                    | Some steps \<Rightarrow> (case schema_subschema s steps of None \<Rightarrow> string_schema | Some leaf \<Rightarrow> leaf))))"

definition reduced_schema :: "fan_in_mode option \<Rightarrow> schema \<Rightarrow> schema" where
  "reduced_schema fan s =
     (case fan of
        None \<Rightarrow> s
      | Some FanList \<Rightarrow> [(''type'', VStr ''array''), (''items'', VDict s)]
      | Some FanConcat \<Rightarrow> (case map_of s ''items'' of
            Some (VDict items) \<Rightarrow> [(''type'', VStr ''array''), (''items'', VDict items)]
          | _ \<Rightarrow> [(''type'', VStr ''array'')]))"

definition output_properties :: "workflow_def \<Rightarrow> (string \<times> schema) list" where
  "output_properties w =
     fold (\<lambda>e props.
       (if dst e \<noteq> OUT_NODE_ID then props
        else fold (\<lambda>(sport, okey) props. AList.update okey (reduced_schema (fan_in e) (source_schema w e sport)) props)
               (mapping e) props))
       (wf_edges w) []"

definition workflow_output_schema :: "workflow_def \<Rightarrow> schema" where
  "workflow_output_schema w = signature_of (output_properties w)"

section \<open>Lemmas\<close>

lemma find_node_Some: "find_node w i = Some n \<Longrightarrow> n \<in> set (wf_nodes w) \<and> nd_id n = i"
  by (auto simp: find_node_def find_Some_iff)

lemma find_node_distinct:
  assumes "distinct (map nd_id (wf_nodes w))" and "n \<in> set (wf_nodes w)"
  shows "find_node w (nd_id n) = Some n"
proof -
  have "\<exists>m. find_node w (nd_id n) = Some m"
    using assms(2) by (cases "find_node w (nd_id n)") (auto simp: find_node_def find_None_iff)
  then obtain m where m: "find_node w (nd_id n) = Some m" by blast
  then have "m \<in> set (wf_nodes w)" "nd_id m = nd_id n" using find_node_Some by blast+
  then have "m = n" using assms by (auto simp: distinct_map inj_on_def)
  then show ?thesis using m by simp
qed

lemma map_of_dict_of_distinct:
  assumes "distinct (map fst ps)"
  shows "map_of (dict_of ps) = map_of ps"
  using dict_of_id [OF assms] by simp

lemma node_by_id_find:
  assumes "distinct (map nd_id (wf_nodes w))"
  shows "node_by_id w i = find_node w i"
proof -
  have "map_of (map (\<lambda>n. (nd_id n, n)) ns) i = List.find (\<lambda>n. nd_id n = i) ns" for ns
    by (induction ns) auto
  moreover have "distinct (map fst (map (\<lambda>n. (nd_id n, n)) (wf_nodes w)))"
    using assms by (simp add: comp_def)
  ultimately show ?thesis
    by (simp add: node_by_id_def find_node_def map_of_dict_of_distinct del: map_map)
qed

end
