(* ===== verification/Edge_Ids.thy ===== *)
theory Edge_Ids
  imports Models "HOL-Library.Multiset"
begin

text \<open>
  The internal edge identities of \<open>flow/models.py\<close>: canonical JSON of an edge, its hash,
  and \<open>_resolve_edge_ids\<close>, which shortens the hashes to five characters and suffixes only
  the members of a colliding bucket. SHA-256 is the argument \<open>sha\<close>; the code relies on its
  hex digest having at least five characters and on nothing else.
\<close>

section \<open>json.dumps with sorted keys\<close>

definition json_escape :: "bool \<Rightarrow> char \<Rightarrow> string" where
  "json_escape ascii c =
     (let n = (of_char c :: nat); bs = char_of (92::nat)
      in if n = 34 \<or> n = 92 then [bs, c]
         else if n = 10 then [bs, CHR ''n''] else if n = 13 then [bs, CHR ''r'']
         else if n = 9 then [bs, CHR ''t''] else if n = 12 then [bs, CHR ''f'']
         else if n = 8 then [bs, CHR ''b'']
         else if n < 32 \<or> (ascii \<and> 126 < n) then [bs, CHR ''u'', CHR ''0'', CHR ''0''] @ hex2 n
         else [c])"

definition json_string :: "bool \<Rightarrow> string \<Rightarrow> string" where
  "json_string ascii s = (let q = char_of (34::nat) in [q] @ concat (map (json_escape ascii) s) @ [q])"

fun json_float :: "pyfloat \<Rightarrow> string" where
  "json_float PInf = ''Infinity''"
| "json_float PNegInf = ''-Infinity''"
| "json_float PNaN = ''NaN''"
| "json_float f = pf_repr f"

text \<open>\<open>json.dumps(v, sort_keys=True, ensure_ascii=ascii, separators=(sep, colon))\<close>.\<close>

fun json_dumps :: "bool \<Rightarrow> string \<Rightarrow> string \<Rightarrow> pyval \<Rightarrow> string" where
  "json_dumps ascii sep colon VNone = ''null''"
| "json_dumps ascii sep colon (VBool b) = (if b then ''true'' else ''false'')"
| "json_dumps ascii sep colon (VInt i) = show_int i"
| "json_dumps ascii sep colon (VFloat f) = json_float f"
| "json_dumps ascii sep colon (VStr s) = json_string ascii s"
| "json_dumps ascii sep colon (VList xs) = ''['' @ join sep (map (json_dumps ascii sep colon) xs) @ '']''"
| "json_dumps ascii sep colon (VDict d) =
     ''{'' @ join sep (map (\<lambda>(k, t). json_string ascii k @ colon @ t)
       (sort_key fst (map (\<lambda>(k, v). (k, json_dumps ascii sep colon v)) d))) @ ''}''"

text \<open>What \<open>allow_nan=False\<close> refuses.\<close>

fun has_nan :: "pyval \<Rightarrow> bool" where
  "has_nan (VFloat f) = (case f of PFin r \<Rightarrow> False | _ \<Rightarrow> True)"
| "has_nan (VList xs) = (\<exists>x \<in> set xs. has_nan x)"
| "has_nan (VDict d) = (\<exists>kv \<in> set d. has_nan (snd kv))"
| "has_nan v = False"

section \<open>Fingerprints\<close>

fun op_name :: "cond_op \<Rightarrow> string" where
  "op_name Equals = ''equals''"
| "op_name Contains = ''contains''"
| "op_name Gt = ''gt''"
| "op_name Gte = ''gte''"
| "op_name Lt = ''lt''"
| "op_name Lte = ''lte''"
| "op_name NotC = ''not''"
| "op_name AndC = ''and''"
| "op_name OrC = ''or''"

definition opt_val :: "('a \<Rightarrow> pyval) \<Rightarrow> 'a option \<Rightarrow> pyval" where
  "opt_val f x = (case x of None \<Rightarrow> VNone | Some y \<Rightarrow> f y)"

fun condition_asdict :: "condition \<Rightarrow> pyval" where
  "condition_asdict (Condition op v t cs) =
     VDict [(''op'', VStr (op_name op)), (''value'', opt_val VStr v), (''text'', opt_val VStr t),
            (''children'', VList (map condition_asdict cs))]"

fun fan_in_name :: "fan_in_mode \<Rightarrow> string" where
  "fan_in_name FanList = ''list''"
| "fan_in_name FanConcat = ''concat''"

definition edge_asdict :: "edge_def \<Rightarrow> pyval" where
  "edge_asdict e =
     VDict [(''src'', VStr (src e)), (''dst'', VStr (dst e)),
            (''mapping'', VList (map (\<lambda>(s, d). VList [VStr s, VStr d]) (mapping e))),
            (''when'', opt_val condition_asdict (edge_when e)),
            (''loop_max'', opt_val VInt (loop_max e)),
            (''fan_out'', opt_val VStr (fan_out e)),
            (''fan_in'', opt_val (\<lambda>m. VStr (fan_in_name m)) (fan_in e)),
            (''loop_strict'', VBool (loop_strict e))]"

definition edge_fingerprint :: "(string \<Rightarrow> string) \<Rightarrow> edge_def \<Rightarrow> string" where
  "edge_fingerprint sha e = sha (json_dumps True '','' '':'' (edge_asdict e))"

section \<open>Resolving short ids\<close>

type_synonym bucket_member = "string \<times> nat \<times> nat"

fun fill_buckets ::
  "nat \<Rightarrow> string list \<Rightarrow> (string \<times> nat) list \<Rightarrow> (string \<times> bucket_member list) list
   \<Rightarrow> (string \<times> bucket_member list) list" where
  "fill_buckets i [] occs buckets = buckets"
| "fill_buckets i (fp # fps) occs buckets =
     (let occ = (case map_of occs fp of None \<Rightarrow> 0 | Some k \<Rightarrow> k)
      in fill_buckets (Suc i) fps (AList.update fp (occ + 1) occs)
           (setdefault_append (take 5 fp) (fp, occ, i) buckets))"

definition id_suffix :: "nat \<Rightarrow> string" where
  "id_suffix c = (if c = 0 then '''' else ''-'' @ show_nat c)"

definition edge_id_text :: "string \<Rightarrow> nat \<Rightarrow> edge_id" where
  "edge_id_text short c = ''edge-'' @ short @ id_suffix c"

definition assign_bucket :: "string \<Rightarrow> bucket_member list \<Rightarrow> edge_id list \<Rightarrow> edge_id list" where
  "assign_bucket short members res =
     fold (\<lambda>(c, (fp, occ, i)) res. res[i := edge_id_text short c]) (List.enumerate 0 (sort members)) res"

definition resolve_edge_ids :: "string list \<Rightarrow> edge_id list" where
  "resolve_edge_ids fps =
     fold (\<lambda>(short, members) res. assign_bucket short members res)
       (fill_buckets 0 fps [] []) (replicate (length fps) '''')"

definition edge_identities :: "(string \<Rightarrow> string) \<Rightarrow> workflow_def \<Rightarrow> edge_id list" where
  "edge_identities sha w = resolve_edge_ids (map (edge_fingerprint sha) (wf_edges w))"

section \<open>Resolved ids are pairwise distinct\<close>

definition member_indices :: "string \<Rightarrow> (string \<times> bucket_member list) list \<Rightarrow> nat list" where
  "member_indices short bs =
     (case map_of bs short of None \<Rightarrow> [] | Some ms \<Rightarrow> map (\<lambda>m. snd (snd m)) ms)"

lemma member_indices_append:
  "member_indices s (setdefault_append k (fp, occ, i) bs) =
     member_indices s bs @ (if s = k then [i] else [])"
  by (simp add: member_indices_def map_of_setdefault_append split: option.splits)

lemma member_indices_fill:
  "member_indices s (fill_buckets i fps occs bs) =
     member_indices s bs @ filter (\<lambda>j. take 5 (fps ! (j - i)) = s) [i..<i + length fps]"
proof (induction fps arbitrary: i occs bs)
  case Nil
  then show ?case by simp
next
  case (Cons fp fps)
  let ?P = "\<lambda>j. take 5 ((fp # fps) ! (j - i)) = s"
  have shift: "filter (\<lambda>j. take 5 (fps ! (j - Suc i)) = s) [Suc i..<Suc i + length fps] =
      filter ?P [Suc i..<Suc i + length fps]"
    by (rule filter_cong) (auto simp: nth_Cons')
  have "[i..<i + length (fp # fps)] = i # [Suc i..<Suc i + length fps]"
    using upt_conv_Cons [of i "i + length (fp # fps)"] by simp
  then have "filter ?P [i..<i + length (fp # fps)] =
      (if s = take 5 fp then [i] else []) @ filter ?P [Suc i..<Suc i + length fps]"
    by (simp only: filter.simps) simp
  then show ?case
    by (simp only: fill_buckets.simps Let_def Cons.IH member_indices_append shift append_assoc)
qed

lemma distinct_keys_fill:
  "distinct (map fst bs) \<Longrightarrow> distinct (map fst (fill_buckets i fps occs bs))"
  by (induction fps arbitrary: i occs bs) (simp_all add: Let_def)

lemma keys_fill:
  "fst ` set (fill_buckets i fps occs bs) = take 5 ` set fps \<union> fst ` set bs"
  by (induction fps arbitrary: i occs bs) (auto simp: Let_def keys_setdefault_append)

definition bucket_updates :: "string \<times> bucket_member list \<Rightarrow> (nat \<times> edge_id) list" where
  "bucket_updates b = map (\<lambda>(c, m). (snd (snd m), edge_id_text (fst b) c)) (List.enumerate 0 (sort (snd b)))"

definition id_updates :: "string list \<Rightarrow> (nat \<times> edge_id) list" where
  "id_updates fps = concat (map bucket_updates (fill_buckets 0 fps [] []))"

abbreviation apply_updates :: "(nat \<times> 'x) list \<Rightarrow> 'x list \<Rightarrow> 'x list" where
  "apply_updates us res \<equiv> fold (\<lambda>(i, x) res. res[i := x]) us res"

lemma assign_bucket_updates: "assign_bucket s ms res = apply_updates (bucket_updates (s, ms)) res"
  unfolding assign_bucket_def bucket_updates_def fold_map comp_def
  by (rule fold_cong) (auto split: prod.splits)

lemma resolve_updates:
  "resolve_edge_ids fps = apply_updates (id_updates fps) (replicate (length fps) '''')"
proof -
  have "fold (\<lambda>(s, ms) res. assign_bucket s ms res) bs res = apply_updates (concat (map bucket_updates bs)) res"
    for bs and res :: "edge_id list"
    by (induction bs arbitrary: res) (auto simp: assign_bucket_updates)
  then show ?thesis by (simp add: resolve_edge_ids_def id_updates_def)
qed

lemma length_apply_updates [simp]: "length (apply_updates us res) = length res"
  by (induction us arbitrary: res) auto

lemma nth_apply_updates:
  "distinct (map fst us) \<Longrightarrow> i < length res \<Longrightarrow>
     apply_updates us res ! i = (case map_of us i of Some x \<Rightarrow> x | None \<Rightarrow> res ! i)"
proof (induction us arbitrary: res)
  case (Cons u us)
  then show ?case
    by (cases u) (auto simp: map_of_eq_None_iff nth_list_update image_iff split: option.splits)
qed simp

lemma bucket_updates_fst:
  "map fst (bucket_updates b) = map (\<lambda>m. snd (snd m)) (sort (snd b))"
proof -
  have "map fst (bucket_updates b) = map (\<lambda>m. snd (snd m)) (map snd (List.enumerate 0 (sort (snd b))))"
    unfolding bucket_updates_def map_map by (rule map_cong) auto
  then show ?thesis by simp
qed

lemma bucket_updates_snd:
  "map snd (bucket_updates b) = map (edge_id_text (fst b)) [0..<length (snd b)]"
proof -
  have "map snd (bucket_updates b) = map (edge_id_text (fst b)) (map fst (List.enumerate 0 (sort (snd b))))"
    unfolding bucket_updates_def map_map by (rule map_cong) auto
  then show ?thesis by (simp add: map_fst_enumerate)
qed

lemma distinct_bucket_updates_fst:
  "distinct (map fst (bucket_updates b)) \<longleftrightarrow> distinct (map (\<lambda>m. snd (snd m)) (snd b))"
  by (rule mset_eq_imp_distinct_iff) (simp add: bucket_updates_fst)

lemma edge_id_text_inject:
  assumes "length s = 5" and "length t = 5"
  shows "edge_id_text s c = edge_id_text t d \<longleftrightarrow> s = t \<and> c = d"
  using assms by (auto simp: edge_id_text_def id_suffix_def)


lemma bucket_members:
  assumes "(s, ms) \<in> set (fill_buckets 0 fps [] [])"
  shows "map (\<lambda>m. snd (snd m)) ms = filter (\<lambda>j. take 5 (fps ! j) = s) [0..<length fps]"
proof -
  have "map_of (fill_buckets 0 fps [] []) s = Some ms"
    using assms by (simp add: distinct_keys_fill)
  then have "map (\<lambda>m. snd (snd m)) ms = member_indices s (fill_buckets 0 fps [] [])"
    by (simp add: member_indices_def)
  also have "\<dots> = filter (\<lambda>j. take 5 (fps ! j) = s) [0..<length fps]"
    by (simp add: member_indices_fill) (simp add: member_indices_def)
  finally show ?thesis .
qed

lemma id_updates_fst:
  "distinct (map fst (id_updates fps))" "set (map fst (id_updates fps)) = {0..<length fps}"
proof -
  let ?bs = "fill_buckets 0 fps [] []"
  have idx: "set (map fst (bucket_updates (s, ms))) = {j. j < length fps \<and> take 5 (fps ! j) = s}"
    if "(s, ms) \<in> set ?bs" for s ms
  proof -
    have "set (map fst (bucket_updates (s, ms))) = set (map (\<lambda>m. snd (snd m)) ms)"
      by (simp add: bucket_updates_fst)
    also have "\<dots> = set (filter (\<lambda>j. take 5 (fps ! j) = s) [0..<length fps])"
      by (simp only: bucket_members [OF that])
    finally show ?thesis by auto
  qed
  have dist: "distinct (map fst (bucket_updates b))" if "b \<in> set ?bs" for b
  proof (cases b)
    case (Pair s ms)
    then show ?thesis using bucket_members [of s ms fps] that
      by (simp add: distinct_bucket_updates_fst)
  qed
  have keys: "distinct (map fst ?bs)" by (simp add: distinct_keys_fill)
  have disj: "set (map fst (bucket_updates b)) \<inter> set (map fst (bucket_updates c)) = {}"
    if "b \<in> set ?bs" "c \<in> set ?bs" "fst b \<noteq> fst c" for b c
    using idx [of "fst b" "snd b"] idx [of "fst c" "snd c"] that by auto
  have "distinct (concat (map (\<lambda>b. map fst (bucket_updates b)) ?bs))"
    by (rule distinct_concat_map [OF keys dist disj])
  then show "distinct (map fst (id_updates fps))"
    by (simp add: id_updates_def map_concat comp_def)
  have fst_updates: "set (map fst (id_updates fps)) = (\<Union>b \<in> set ?bs. set (map fst (bucket_updates b)))"
    by (auto simp: id_updates_def)
  have "j \<in> set (map fst (id_updates fps))" if "j < length fps" for j
  proof -
    have "take 5 (fps ! j) \<in> fst ` set ?bs" using that by (auto simp: keys_fill)
    then obtain ms where m: "(take 5 (fps ! j), ms) \<in> set ?bs" by force
    then have "j \<in> set (map fst (bucket_updates (take 5 (fps ! j), ms)))" using idx [OF m] that by simp
    then show ?thesis unfolding fst_updates using m by blast
  qed
  moreover have "j < length fps" if jm: "j \<in> set (map fst (id_updates fps))" for j
  proof -
    obtain b where b: "b \<in> set ?bs" "j \<in> set (map fst (bucket_updates b))"
      using jm unfolding fst_updates by blast
    then show ?thesis using idx [of "fst b" "snd b"] by simp
  qed
  ultimately show "set (map fst (id_updates fps)) = {0..<length fps}" by (auto simp del: set_map)
qed

lemma id_updates_snd:
  assumes "\<forall>fp \<in> set fps. 5 \<le> length fp"
  shows "distinct (map snd (id_updates fps))"
proof -
  let ?bs = "fill_buckets 0 fps [] []"
  have len: "length (fst b) = 5" if "b \<in> set ?bs" for b
  proof -
    have "fst b \<in> take 5 ` set fps" using that keys_fill [of 0 fps "[]" "[]"] by auto
    then show ?thesis using assms by auto
  qed
  have keys: "distinct (map fst ?bs)" by (simp add: distinct_keys_fill)
  have dist: "distinct (map snd (bucket_updates b))" if "b \<in> set ?bs" for b
    unfolding bucket_updates_snd using len [OF that]
    by (simp add: distinct_map inj_on_def edge_id_text_inject)
  have disj: "set (map snd (bucket_updates b)) \<inter> set (map snd (bucket_updates c)) = {}"
    if "b \<in> set ?bs" "c \<in> set ?bs" "fst b \<noteq> fst c" for b c
    unfolding bucket_updates_snd using len [OF that(1)] len [OF that(2)] that(3)
    by (auto simp: edge_id_text_inject)
  have "distinct (concat (map (\<lambda>b. map snd (bucket_updates b)) ?bs))"
    by (rule distinct_concat_map [OF keys dist disj])
  then show ?thesis by (simp add: id_updates_def map_concat comp_def)
qed

lemma length_resolve_edge_ids [simp]: "length (resolve_edge_ids fps) = length fps"
  by (simp add: resolve_updates)

lemma resolve_edge_ids_nth:
  assumes "i < length fps"
  shows "(i, resolve_edge_ids fps ! i) \<in> set (id_updates fps)"
proof -
  have "i \<in> fst ` set (id_updates fps)" using id_updates_fst(2) [of fps] assms by simp
  then obtain x where x: "map_of (id_updates fps) i = Some x"
    by (metis map_of_defined_iff)
  have "resolve_edge_ids fps ! i = x"
    unfolding resolve_updates
    by (subst nth_apply_updates [OF id_updates_fst(1)]) (simp_all add: x assms)
  then show ?thesis using x by (simp add: map_of_SomeD)
qed

lemma distinct_resolve_edge_ids:
  assumes "\<forall>fp \<in> set fps. 5 \<le> length fp"
  shows "distinct (resolve_edge_ids fps)"
proof -
  have inj: "inj_on snd (set (id_updates fps))"
    using id_updates_snd [OF assms] by (simp add: distinct_map)
  have "i = j" if "i < length fps" "j < length fps" "resolve_edge_ids fps ! i = resolve_edge_ids fps ! j" for i j
    using inj_onD [OF inj _ resolve_edge_ids_nth [OF that(1)] resolve_edge_ids_nth [OF that(2)]] that(3)
    by simp
  then show ?thesis by (simp only: distinct_conv_nth length_resolve_edge_ids) blast
qed

end
