(* ===== verification/Coerce.thy ===== *)
theory Coerce
  imports Errors Edge_Ids
begin

text \<open>
  \<open>flow/coerce.py\<close>: between the wire format (type-native JSON values) and the Python type a
  port's schema names. \<open>int(s)\<close> and \<open>float(s)\<close> are modelled on ASCII text, digit
  grouping underscores included; \<open>int\<close> refuses more than 4300 digits as CPython does.
  \<open>json.loads\<close> is the argument \<open>loads\<close>. Tuples, which JSON values never are, are not
  represented, so the tuple-to-list step has nothing to do.
\<close>

section \<open>int(s) and float(s)\<close>

text \<open>Digits with single underscores between them; the digits without the underscores.\<close>

fun digit_run :: "string \<Rightarrow> string option" where
  "digit_run [] = None"
| "digit_run [c] = (if is_digit c then Some [c] else None)"
| "digit_run (c # d # cs) =
     (if \<not> is_digit c then None
      else if d = CHR ''_'' then map_option (Cons c) (digit_run cs)
      else map_option (Cons c) (digit_run (d # cs)))"

definition take_sign :: "string \<Rightarrow> bool \<times> string" where
  "take_sign s = (case s of [] \<Rightarrow> (False, [])
     | c # cs \<Rightarrow> if c = CHR ''-'' then (True, cs) else if c = CHR ''+'' then (False, cs) else (False, s))"

definition parse_int :: "string \<Rightarrow> pyexc + int" where
  "parse_int s =
     (let (neg, body) = take_sign (strip s)
      in case digit_run body of None \<Rightarrow> Inl ValueError
         | Some ds \<Rightarrow> if 4300 < length ds then Inl ValueError
             else Inr (if neg then - int (read_nat ds) else int (read_nat ds)))"

definition break_at :: "(char \<Rightarrow> bool) \<Rightarrow> string \<Rightarrow> string \<times> string option" where
  "break_at P s = (takeWhile (\<lambda>c. \<not> P c) s, case dropWhile (\<lambda>c. \<not> P c) s of [] \<Rightarrow> None | _ # r \<Rightarrow> Some r)"

definition opt_run :: "string \<Rightarrow> string option" where
  "opt_run s = (if s = [] then Some [] else digit_run s)"

text \<open>The digits of the mantissa without the point, and the number of them after it.\<close>

definition parse_mantissa :: "string \<Rightarrow> (string \<times> nat) option" where
  "parse_mantissa s =
     (case break_at (\<lambda>c. c = CHR ''.'') s of
        (whole, None) \<Rightarrow> map_option (\<lambda>ds. (ds, 0)) (digit_run whole)
      | (whole, Some fpart) \<Rightarrow>
          if whole = [] \<and> fpart = [] then None
          else do { w \<leftarrow> opt_run whole; f \<leftarrow> opt_run fpart; Some (w @ f, length f) })"

definition parse_exponent :: "string option \<Rightarrow> int option" where
  "parse_exponent e =
     (case e of None \<Rightarrow> Some 0
      | Some t \<Rightarrow> (let (neg, body) = take_sign t
                  in map_option (\<lambda>ds. if neg then - int (read_nat ds) else int (read_nat ds)) (digit_run body)))"

definition negate_float :: "bool \<Rightarrow> pyfloat \<Rightarrow> pyfloat" where
  "negate_float neg f =
     (if \<not> neg then f else (case f of PFin r \<Rightarrow> PFin (- r) | PInf \<Rightarrow> PNegInf | PNegInf \<Rightarrow> PInf | PNaN \<Rightarrow> PNaN))"

definition parse_float :: "string \<Rightarrow> pyexc + pyfloat" where
  "parse_float s =
     (let (neg, body) = take_sign (strip s); low = map lower_char body
      in if low = ''inf'' \<or> low = ''infinity'' then Inr (negate_float neg PInf)
         else if low = ''nan'' then Inr PNaN
         else (case break_at (\<lambda>c. c = CHR ''e'') low of (man, ex) \<Rightarrow>
            (case (parse_mantissa man, parse_exponent ex) of
               (Some (ds, k), Some x) \<Rightarrow>
                 Inr (negate_float neg (round_double (of_nat (read_nat ds) * pow10 (x - int k))))
             | _ \<Rightarrow> Inl ValueError)))"

text \<open>\<open>int(x)\<close> of a float truncates; \<open>float(n)\<close> of an int rounds and may overflow.\<close>

definition int_of_float :: "pyfloat \<Rightarrow> pyexc + int" where
  "int_of_float f = (case f of PFin r \<Rightarrow> Inr (if r < 0 then \<lceil>r\<rceil> else \<lfloor>r\<rfloor>)
     | PNaN \<Rightarrow> Inl ValueError | _ \<Rightarrow> Inl OverflowError)"

definition float_of_int :: "int \<Rightarrow> pyexc + pyfloat" where
  "float_of_int i = (case round_double (of_int i) of PFin r \<Rightarrow> Inr (PFin r) | _ \<Rightarrow> Inl OverflowError)"

section \<open>The three conversions\<close>

definition port_str :: "pyval \<Rightarrow> string" where
  "port_str v = (case v of VStr s \<Rightarrow> s | _ \<Rightarrow> json_dumps False '', '' '': '' v)"

definition true_words :: "string list" where
  "true_words = [''true'', ''1'', ''yes'', ''on'']"

definition false_words :: "string list" where
  "false_words = [''false'', ''0'', ''no'', ''off'', '''']"

definition to_bool :: "pyval \<Rightarrow> pyexc + bool" where
  "to_bool v =
     (case v of VBool b \<Rightarrow> Inr b
      | _ \<Rightarrow> (let low = map lower_char (strip (py_str v))
             in if low \<in> set true_words then Inr True
                else if low \<in> set false_words then Inr False
                else Inl ValueError))"

definition to_structured :: "(string \<Rightarrow> pyexc + pyval) \<Rightarrow> pyval \<Rightarrow> bool \<Rightarrow> pyexc + pyval" where
  "to_structured loads v arr =
     raise_bind
       (case v of VStr s \<Rightarrow> (if strip s = [] then Inr (if arr then VList [] else VDict []) else loads s) | _ \<Rightarrow> Inr v)
       (\<lambda>x. case x of
          VList xs \<Rightarrow> (if arr then Inr x else Inl ValueError)
        | VDict d \<Rightarrow> (if arr then Inl ValueError else Inr x)
        | _ \<Rightarrow> Inl ValueError)"

definition to_python :: "(string \<Rightarrow> pyexc + pyval) \<Rightarrow> pyval \<Rightarrow> string \<Rightarrow> pyexc + pyval" where
  "to_python loads v t =
     (if t = ''string'' then Inr (case v of VStr s \<Rightarrow> v | _ \<Rightarrow> VStr (port_str v))
      else if t = ''integer''
      then (case v of VBool b \<Rightarrow> Inr (VInt (if b then 1 else 0))
            | VInt i \<Rightarrow> Inr (VInt i)
            | VFloat f \<Rightarrow> raise_bind (int_of_float f) (\<lambda>i. Inr (VInt i))
            | _ \<Rightarrow> (let s = strip (py_str v)
                   in if s \<noteq> [] then raise_bind (parse_int s) (\<lambda>i. Inr (VInt i)) else Inr (VInt 0)))
      else if t = ''number''
      then (case v of VBool b \<Rightarrow> Inr (VFloat (PFin (if b then 1 else 0)))
            | VInt i \<Rightarrow> raise_bind (float_of_int i) (\<lambda>f. Inr (VFloat f))
            | VFloat f \<Rightarrow> Inr (VFloat f)
            | _ \<Rightarrow> (let s = strip (py_str v)
                   in if s \<noteq> [] then raise_bind (parse_float s) (\<lambda>f. Inr (VFloat f)) else Inr (VFloat (PFin 0))))
      else if t = ''boolean'' then raise_bind (to_bool v) (\<lambda>b. Inr (VBool b))
      else if t = ''array'' \<or> t = ''object'' then to_structured loads v (t = ''array'')
      else Inl ValueError)"

definition text_or_zero :: "string \<Rightarrow> string" where
  "text_or_zero s = (if strip s \<noteq> [] then strip s else ''0'')"

definition to_state :: "(string \<Rightarrow> pyexc + pyval) \<Rightarrow> pyval \<Rightarrow> string \<Rightarrow> pyexc + pyval" where
  "to_state loads v t =
     (if t = ''string'' then Inr (case v of VStr s \<Rightarrow> v | _ \<Rightarrow> VStr (port_str v))
      else if t = ''integer''
      then (case v of VBool b \<Rightarrow> Inr (VInt (if b then 1 else 0))
            | VInt i \<Rightarrow> Inr (VInt i)
            | VFloat f \<Rightarrow> raise_bind (int_of_float f) (\<lambda>i. Inr (VInt i))
            | _ \<Rightarrow> raise_bind (parse_int (text_or_zero (py_str v))) (\<lambda>i. Inr (VInt i)))
      else if t = ''number''
      then (case v of VBool b \<Rightarrow> Inr (VFloat (PFin (if b then 1 else 0)))
            | VInt i \<Rightarrow> raise_bind (float_of_int i) (\<lambda>f. Inr (VFloat f))
            | VFloat f \<Rightarrow> Inr (VFloat f)
            | _ \<Rightarrow> raise_bind (parse_float (text_or_zero (py_str v))) (\<lambda>f. Inr (VFloat f)))
      else if t = ''boolean'' then raise_bind (to_bool v) (\<lambda>b. Inr (VBool b))
      else if t = ''array'' \<or> t = ''object'' then to_structured loads v (t = ''array'')
      else Inl ValueError)"

section \<open>Properties\<close>

definition has_type :: "pyval \<Rightarrow> string \<Rightarrow> bool" where
  "has_type v t =
     (case v of VStr s \<Rightarrow> t = ''string'' | VInt i \<Rightarrow> t = ''integer'' | VFloat f \<Rightarrow> t = ''number''
      | VBool b \<Rightarrow> t = ''boolean'' | VList xs \<Rightarrow> t = ''array'' | VDict d \<Rightarrow> t = ''object'' | VNone \<Rightarrow> False)"

lemma to_structured_type:
  "to_structured loads v arr = Inr x \<Longrightarrow> has_type x (if arr then ''array'' else ''object'')"
  unfolding to_structured_def
proof (elim raise_bind_InrE)
  fix y
  assume "(case y of VList xs \<Rightarrow> (if arr then Inr y else Inl ValueError)
    | VDict d \<Rightarrow> (if arr then Inl ValueError else Inr y) | _ \<Rightarrow> Inl ValueError) = Inr x"
  then show "has_type x (if arr then ''array'' else ''object'')"
    by (cases y) (auto simp: has_type_def split: if_splits)
qed

lemma parse_zero: "parse_int ''0'' = Inr 0" "parse_float ''0'' = Inr (PFin 0)"
  by (simp_all add: parse_int_def parse_float_def take_sign_def strip_def is_space_def Let_def is_digit_def
      read_nat_def digit_value_def break_at_def parse_mantissa_def parse_exponent_def negate_float_def
      round_double_def lower_char_def)

lemma has_type_coerced:
  assumes "to_state loads v t = Inr x"
  shows "has_type x t"
proof (cases "t = ''array'' \<or> t = ''object''")
  case True
  then show ?thesis using assms to_structured_type [of loads v "t = ''array''" x] by (auto simp: to_state_def)
next
  case False
  then show ?thesis
    using assms by (auto simp: to_state_def has_type_def raise_bind_Inr_iff split: if_splits pyval.splits)
qed

text \<open>The two directions agree: reading a wire value for a script and storing a script's
  result are the same function of the value and the port type, on every value, so what is
  stored is what the next reader of the same port type sees.\<close>

theorem read_store_agree: "to_python loads v t = to_state loads v t"
  by (cases v) (simp_all add: to_python_def to_state_def text_or_zero_def parse_zero Let_def)

text \<open>Coercion is typed: whatever the value and the port type, a coercion that returns
  returns a value of the port's type, and every type outside the six raises.\<close>

theorem coercion_typed:
  assumes "to_state loads v t = Inr x"
  shows "has_type x t"
  by (rule has_type_coerced [OF assms])

lemma coercion_typed_witness: "has_type (VInt 42) ''integer''"
proof -
  have "to_state (\<lambda>_. Inl ValueError) (VStr '' 42 '') ''integer'' = Inr (VInt 42)"
    by (simp add: to_state_def text_or_zero_def parse_int_def take_sign_def strip_def is_space_def Let_def
        is_digit_def read_nat_def digit_value_def)
  then show ?thesis by (rule coercion_typed)
qed

text \<open>Coercion is idempotent: a coerced value coerces to itself, so a checkpoint reloaded into
  the same ports, or a value forwarded between ports of one type, does not drift.\<close>

theorem coercion_idempotent:
  assumes "to_state loads v t = Inr x"
  shows "to_state loads x t = Inr x"
proof -
  have "has_type x t" by (rule has_type_coerced [OF assms])
  then show ?thesis
    by (cases x) (auto simp: has_type_def to_state_def to_structured_def to_bool_def)
qed


lemma coercion_idempotent_witness: "to_state (\<lambda>_. Inl ValueError) (VList [VNone]) ''array'' = Inr (VList [VNone])"
  by (rule coercion_idempotent [of _ "VList [VNone]"]) (simp add: to_state_def to_structured_def)

end
