(* ===== verification/Loader_Parse.thy ===== *)
theory Loader_Parse
  imports Loader_Schema Coerce
begin

text \<open>
  The parsing half of \<open>flow/loader.py\<close>: from the JSON value \<open>json.load\<close> returns to the
  typed workflow. Every early \<open>raise\<close> is a branch, in the order of the code, and so are the
  built-in exceptions of the accesses it makes (\<open>KeyError\<close> of a missing key,
  \<open>AttributeError\<close> of \<open>.get\<close> on a non-dict, \<open>TypeError\<close> of subscripting a scalar).
  Subflow files come from a finite file system \<open>files\<close>, an association list from resolved
  paths to contents; \<open>join_path\<close> and \<open>parent_dir\<close> are \<open>pathlib\<close>'s operations.
\<close>

section \<open>Accesses to a JSON value\<close>

definition py_get :: "pyval \<Rightarrow> string \<Rightarrow> pyexc + pyval option" where
  "py_get v k = (case v of VDict d \<Rightarrow> Inr (map_of d k) | _ \<Rightarrow> Inl AttributeError)"

definition py_index :: "pyval \<Rightarrow> string \<Rightarrow> pyexc + pyval" where
  "py_index v k = (case v of VDict d \<Rightarrow> (case map_of d k of Some x \<Rightarrow> Inr x | None \<Rightarrow> Inl KeyError) | _ \<Rightarrow> Inl TypeError)"

definition py_in :: "string \<Rightarrow> pyval \<Rightarrow> pyexc + bool" where
  "py_in k v = (case v of VDict d \<Rightarrow> Inr (map_of d k \<noteq> None) | VStr s \<Rightarrow> Inr (contains_sub k s)
     | VList xs \<Rightarrow> Inr (\<exists>x \<in> set xs. py_eq (VStr k) x) | _ \<Rightarrow> Inl TypeError)"

definition py_iter :: "pyval \<Rightarrow> pyexc + pyval list" where
  "py_iter v = (case v of VList xs \<Rightarrow> Inr xs | VDict d \<Rightarrow> Inr (map (\<lambda>(k, _). VStr k) d)
     | VStr s \<Rightarrow> Inr (map (\<lambda>c. VStr [c]) s) | _ \<Rightarrow> Inl TypeError)"

definition py_int :: "pyval \<Rightarrow> pyexc + int" where
  "py_int v = (case v of VBool b \<Rightarrow> Inr (if b then 1 else 0) | VInt i \<Rightarrow> Inr i | VFloat f \<Rightarrow> int_of_float f
     | VStr s \<Rightarrow> parse_int s | _ \<Rightarrow> Inl TypeError)"

definition is_dict :: "pyval \<Rightarrow> bool" where
  "is_dict v = (case v of VDict _ \<Rightarrow> True | _ \<Rightarrow> False)"

definition or_else :: "pyval \<Rightarrow> pyval option \<Rightarrow> pyval" where
  "or_else x v = (case v of None \<Rightarrow> x | Some y \<Rightarrow> y)"

definition dict_items :: "pyval \<Rightarrow> (string \<times> pyval) list" where
  "dict_items v = (case v of VDict d \<Rightarrow> d | _ \<Rightarrow> [])"

text \<open>A field stored unchecked in a \<open>str\<close> or \<open>str | None\<close> attribute.\<close>

definition str_field :: "pyval option \<Rightarrow> pyexc + string" where
  "str_field v = (case v of None \<Rightarrow> Inr [] | Some (VStr s) \<Rightarrow> Inr s | Some _ \<Rightarrow> Inl IllTyped)"

definition opt_str_field :: "pyval option \<Rightarrow> pyexc + string option" where
  "opt_str_field v = (case v of None \<Rightarrow> Inr None | Some VNone \<Rightarrow> Inr None | Some (VStr s) \<Rightarrow> Inr (Some s)
     | Some _ \<Rightarrow> Inl IllTyped)"

definition get_opt :: "pyval option \<Rightarrow> pyval option" where
  "get_opt v = (case v of Some VNone \<Rightarrow> None | _ \<Rightarrow> v)"

lemma size_dict_value: "map_of d k = Some v \<Longrightarrow> size v < size (VDict d)"
proof -
  assume "map_of d k = Some v"
  then have "(k, v) \<in> set d" by (rule map_of_SomeD)
  then show "size v < size (VDict d)"
    by (induction d) (auto simp: less_Suc_eq_le trans_le_add1 trans_le_add2)
qed

lemma size_list_elem: "x \<in> set xs \<Longrightarrow> size x < size (VList xs)"
  by (induction xs) (auto simp: less_Suc_eq_le trans_le_add1 trans_le_add2)

section \<open>Conditions\<close>

definition operand_pair :: "cond_op \<Rightarrow> pyval \<Rightarrow> pyexc + condition" where
  "operand_pair op inner =
     raise_bind (py_index inner ''value'') (\<lambda>v. raise_bind (py_index inner ''text'') (\<lambda>t.
       Inr (Condition op (Some (py_str v)) (Some (py_str t)) [])))"

definition leaf_op :: "(string \<times> pyval) list \<Rightarrow> (cond_op \<times> pyval) option" where
  "leaf_op d =
     (case map_of d ''equals'' of Some v \<Rightarrow> Some (Equals, v) | None \<Rightarrow>
     (case map_of d ''contains'' of Some v \<Rightarrow> Some (Contains, v) | None \<Rightarrow>
     (case map_of d ''gt'' of Some v \<Rightarrow> Some (Gt, v) | None \<Rightarrow>
     (case map_of d ''gte'' of Some v \<Rightarrow> Some (Gte, v) | None \<Rightarrow>
     (case map_of d ''lt'' of Some v \<Rightarrow> Some (Lt, v) | None \<Rightarrow>
     (case map_of d ''lte'' of Some v \<Rightarrow> Some (Lte, v) | None \<Rightarrow> None))))))"

text \<open>\<open>for c in v: _parse_condition(c)\<close>: the elements a non-list yields are strings, the first
  of which already raises.\<close>

definition cond_elems :: "pyval \<Rightarrow> pyexc + pyval list" where
  "cond_elems v = (case v of VList xs \<Rightarrow> Inr xs
     | VDict d \<Rightarrow> (if d = [] then Inr [] else Inl (invalid WRONG_SHAPE))
     | VStr s \<Rightarrow> (if s = [] then Inr [] else Inl (invalid WRONG_SHAPE))
     | _ \<Rightarrow> Inl TypeError)"

lemma cond_elems_size: "cond_elems v = Inr xs \<Longrightarrow> x \<in> set xs \<Longrightarrow> size x < size v"
  by (cases v) (auto simp: cond_elems_def size_list_elem [unfolded pyval.size] split: if_splits dest: size_list_elem)

function parse_condition :: "pyval \<Rightarrow> pyexc + condition" where
  "parse_condition v =
     (case v of
        VDict d \<Rightarrow>
          (case leaf_op d of Some (op, inner) \<Rightarrow> operand_pair op inner
           | None \<Rightarrow>
          (case map_of d ''not'' of Some c \<Rightarrow>
             raise_bind (parse_condition c) (\<lambda>x. Inr (Condition NotC None None [x]))
           | None \<Rightarrow>
          (case map_of d ''and'' of Some c \<Rightarrow>
             (case cond_elems c of Inl e \<Rightarrow> Inl e
              | Inr xs \<Rightarrow> raise_bind (raise_map parse_condition xs) (\<lambda>ys. Inr (Condition AndC None None ys)))
           | None \<Rightarrow>
          (case map_of d ''or'' of Some c \<Rightarrow>
             (case cond_elems c of Inl e \<Rightarrow> Inl e
              | Inr xs \<Rightarrow> raise_bind (raise_map parse_condition xs) (\<lambda>ys. Inr (Condition OrC None None ys)))
           | None \<Rightarrow> Inl (invalid UNKNOWN_FIELD)))))
      | _ \<Rightarrow> Inl (invalid WRONG_SHAPE))"
  by pat_completeness auto
termination
  by (relation "measure size") (auto dest!: size_dict_value cond_elems_size)

declare parse_condition.simps [simp del]

section \<open>Ports\<close>

definition port_from_obj :: "(string \<times> pyval) list \<Rightarrow> pyexc + port" where
  "port_from_obj d =
     (case map_of d ''name'' of None \<Rightarrow> Inl KeyError
      | Some n \<Rightarrow> (case map_of d ''schema'' of
            Some (VDict s) \<Rightarrow> Inr \<lparr>port_name = py_str n, port_schema = s,
              port_required = truthy (or_else (VBool True) (map_of d ''required''))\<rparr>
          | _ \<Rightarrow> Inl (invalid MISSING_REQUIRED)))"

definition parse_port :: "pyval \<Rightarrow> pyexc + port" where
  "parse_port v = (case v of VDict d \<Rightarrow> port_from_obj d | _ \<Rightarrow> Inr (default_port (py_str v)))"

definition parse_ports :: "pyval \<Rightarrow> pyexc + port list" where
  "parse_ports raw = (if \<not> truthy raw then Inr [] else raise_bind (py_iter raw) (raise_map parse_port))"

definition str_list :: "pyval \<Rightarrow> pyexc + string list" where
  "str_list raw = (if truthy raw then raise_bind (py_iter raw) (\<lambda>xs. Inr (map py_str xs)) else Inr [])"

section \<open>Nodes without their child\<close>

text \<open>\<open>x < 0\<close> for the numbers \<open>isinstance(x, (int, float))\<close> lets through.\<close>

definition num_negative :: "pyval \<Rightarrow> bool" where
  "num_negative v = (case v of VInt i \<Rightarrow> i < 0 | VFloat f \<Rightarrow> pf_less f (PFin 0) | _ \<Rightarrow> False)"

definition is_int :: "pyval \<Rightarrow> bool" where
  "is_int v = (case v of VInt _ \<Rightarrow> True | VBool _ \<Rightarrow> True | _ \<Rightarrow> False)"

definition is_number :: "pyval \<Rightarrow> bool" where
  "is_number v = (is_int v \<or> (case v of VFloat _ \<Rightarrow> True | _ \<Rightarrow> False))"

definition py_float :: "pyval \<Rightarrow> pyexc + pyfloat" where
  "py_float v = (case v of VBool b \<Rightarrow> Inr (PFin (if b then 1 else 0)) | VInt i \<Rightarrow> float_of_int i | VFloat f \<Rightarrow> Inr f
     | VStr s \<Rightarrow> parse_float s | _ \<Rightarrow> Inl TypeError)"

definition parse_retry :: "pyval option \<Rightarrow> pyexc + retry_policy option" where
  "parse_retry raw =
     (case get_opt raw of
        None \<Rightarrow> Inr None
      | Some (VDict d) \<Rightarrow>
          (let m = or_else (VInt 0) (map_of d ''max''); b = or_else (VFloat (PFin 0)) (map_of d ''backoff'')
           in if \<not> is_int m \<or> num_negative m then Inl (invalid INVALID_VALUE)
              else if \<not> is_number b \<or> num_negative b then Inl (invalid INVALID_VALUE)
              else raise_bind (py_int m) (\<lambda>i. raise_bind (py_float b) (\<lambda>f.
                     Inr (Some \<lparr>retry_max = i, retry_backoff = f\<rparr>))))
      | Some _ \<Rightarrow> Inl (invalid WRONG_SHAPE))"

definition parse_on_error :: "pyval option \<Rightarrow> pyexc + on_error_mode" where
  "parse_on_error raw =
     (let v = or_else (VStr ''fail'') raw
      in if v = VStr ''fail'' then Inr Fail else if v = VStr ''isolate'' then Inr Isolate else Inl (invalid INVALID_VALUE))"

definition parse_type :: "pyval option \<Rightarrow> pyexc + node_type" where
  "parse_type raw =
     (let v = or_else (VStr ''agent'') raw
      in if v = VStr ''agent'' then Inr Agent else if v = VStr ''script'' then Inr Script
         else if v = VStr ''human'' then Inr Human else if v = VStr ''subflow'' then Inr Subflow
         else Inl (invalid INVALID_VALUE))"

definition parse_mcp :: "pyval option \<Rightarrow> pyexc + (string \<times> (string \<times> pyval) list) list" where
  "parse_mcp raw =
     raise_map (\<lambda>(k, v). case v of VDict d \<Rightarrow> Inr (k, d) | _ \<Rightarrow> Inl (invalid WRONG_SHAPE))
       (dict_items (or_else (VDict []) raw))"

definition parse_inherit :: "node_id \<Rightarrow> pyval option \<Rightarrow> pyexc + inherit_spec option" where
  "parse_inherit nid raw =
     (case get_opt raw of
        None \<Rightarrow> Inr None
      | Some (VDict d) \<Rightarrow>
          (if \<exists>k \<in> fst ` set d. k \<noteq> ''from'' then Inl (invalid_node UNKNOWN_FIELD nid)
           else (case map_of d ''from'' of
                   Some (VStr s) \<Rightarrow> (if s = [] then Inl (invalid_node MISSING_REQUIRED nid)
                                    else Inr (Some \<lparr>from_node = s\<rparr>))
                 | _ \<Rightarrow> Inl (invalid_node MISSING_REQUIRED nid)))
      | Some _ \<Rightarrow> Inl (invalid_node WRONG_SHAPE nid))"

text \<open>The fields read before the subflow branch, and those read after it.\<close>

record node_head =
  nh_tools :: "string list"
  nh_skills :: "string list"
  nh_id :: node_id
  nh_retry :: "retry_policy option"
  nh_on_error :: on_error_mode
  nh_type :: node_type
  nh_signal :: string
  nh_inputs :: "port list"
  nh_outputs :: "port list"

definition parse_node_head :: "pyval \<Rightarrow> pyexc + node_head" where
  "parse_node_head v =
     (case v of
        VDict d \<Rightarrow>
          raise_bind (str_list (or_else (VList []) (map_of d ''tools''))) (\<lambda>tools.
          raise_bind (str_list (or_else (VList []) (map_of d ''skills''))) (\<lambda>skills.
          raise_bind (py_index v ''id'') (\<lambda>i.
          raise_bind (parse_retry (map_of d ''retry'')) (\<lambda>retry.
          raise_bind (parse_on_error (map_of d ''on_error'')) (\<lambda>on_error.
          raise_bind (parse_type (map_of d ''type'')) (\<lambda>t.
          raise_bind (parse_ports (or_else (VList []) (map_of d ''inputs''))) (\<lambda>ins.
          raise_bind (parse_ports (or_else (VList []) (map_of d ''outputs''))) (\<lambda>outs.
            Inr \<lparr>nh_tools = tools, nh_skills = skills, nh_id = py_str i, nh_retry = retry, nh_on_error = on_error,
                 nh_type = t, nh_signal = py_str (or_else (VStr []) (map_of d ''signal'')),
                 nh_inputs = ins, nh_outputs = outs\<rparr>))))))))
      | _ \<Rightarrow> Inl AttributeError)"

definition build_node :: "(string \<times> pyval) list \<Rightarrow> node_head \<Rightarrow> workflow_def option \<Rightarrow> port list \<Rightarrow> port list \<Rightarrow> pyexc + node_def" where
  "build_node d h child ins outs =
     raise_bind (str_list (or_else (VList []) (map_of d ''allowed_tools''))) (\<lambda>allowed.
     raise_bind (parse_mcp (map_of d ''mcp_servers'')) (\<lambda>mcp.
     raise_bind (parse_inherit (nh_id h) (map_of d ''inherit'')) (\<lambda>inh.
     raise_bind (opt_str_field (map_of d ''model'')) (\<lambda>model.
     raise_bind (str_field (map_of d ''system_prompt'')) (\<lambda>system.
     raise_bind (str_field (map_of d ''prompt'')) (\<lambda>prompt.
     raise_bind (opt_str_field (map_of d ''run'')) (\<lambda>run.
     raise_bind (opt_str_field (map_of d ''code'')) (\<lambda>code.
     raise_bind (opt_str_field (map_of d ''web_search_model'')) (\<lambda>wsm.
       Inr (NodeDef (nh_id h) (nh_type h) (nh_signal h) model system prompt (nh_tools h) (nh_skills h) run ins outs code
              (truthy (or_else (VBool False) (map_of d ''web_search''))) wsm (nh_retry h) (nh_on_error h)
              (truthy (or_else (VBool False) (map_of d ''deterministic''))) child
              (map_option py_str (get_opt (map_of d ''backend''))) allowed mcp inh))))))))))"

definition derived_ports :: "(string \<times> schema) list \<Rightarrow> port list" where
  "derived_ports props = map (\<lambda>(k, s). \<lparr>port_name = k, port_schema = s, port_required = True\<rparr>) props"

section \<open>Edges\<close>

definition positive_bound :: "pyval \<Rightarrow> pyexc + int" where
  "positive_bound v =
     (case py_int v of
        Inl OverflowError \<Rightarrow> Inl OverflowError
      | Inl _ \<Rightarrow> Inl (invalid INVALID_LOOP)
      | Inr i \<Rightarrow> if i \<le> 0 then Inl (invalid INVALID_LOOP) else Inr i)"

definition WHILE_SAFE_MAX :: int where
  "WHILE_SAFE_MAX = 100"

definition parse_while :: "pyval \<Rightarrow> pyexc + condition \<times> int" where
  "parse_while raw =
     (case raw of
        VDict d \<Rightarrow>
          (if map_of d ''cond'' \<noteq> None \<or> map_of d ''max'' \<noteq> None
           then (case map_of d ''cond'' of
                   None \<Rightarrow> Inl (invalid INVALID_LOOP)
                 | Some c \<Rightarrow> raise_bind (parse_condition c) (\<lambda>cond.
                     (case map_of d ''max'' of
                        Some m \<Rightarrow> raise_bind (positive_bound m) (\<lambda>i. Inr (cond, i))
                      | None \<Rightarrow> Inr (cond, WHILE_SAFE_MAX))))
           else raise_bind (parse_condition raw) (\<lambda>cond. Inr (cond, WHILE_SAFE_MAX)))
      | _ \<Rightarrow> raise_bind (parse_condition raw) (\<lambda>cond. Inr (cond, WHILE_SAFE_MAX)))"

text \<open>The guard and the loop of an edge: \<open>(when, loop_max, loop_strict)\<close>.\<close>

definition parse_loop :: "pyval \<Rightarrow> pyexc + condition option \<times> int option \<times> bool" where
  "parse_loop v =
     raise_bind (py_in ''when'' v) (\<lambda>has_when.
     raise_bind (if has_when then raise_bind (py_index v ''when'') (\<lambda>c. raise_bind (parse_condition c) (\<lambda>x. Inr (Some x)))
                 else Inr None) (\<lambda>when.
     raise_bind (py_in ''while'' v) (\<lambda>has_while.
     raise_bind (py_in ''loop'' v) (\<lambda>has_loop.
       if has_while
       then if has_loop then raise_bind (py_get v ''from'') (\<lambda>_. Inl (invalid INVALID_LOOP))
            else if has_when then raise_bind (py_get v ''from'') (\<lambda>_. Inl (invalid INVALID_LOOP))
            else raise_bind (py_index v ''while'') (\<lambda>raw. raise_bind (parse_while raw) (\<lambda>(c, m). Inr (Some c, Some m, True)))
       else if has_loop
       then raise_bind (py_index v ''loop'') (\<lambda>l.
              case l of
                VDict d \<Rightarrow> (case map_of d ''max'' of
                    None \<Rightarrow> Inl (invalid INVALID_LOOP)
                  | Some m \<Rightarrow> raise_bind (positive_bound m) (\<lambda>i. Inr (when, Some i, False)))
              | _ \<Rightarrow> Inr (when, None, False))
       else Inr (when, None, False)))))"

definition parse_fan_in :: "pyval option \<Rightarrow> pyexc + fan_in_mode option" where
  "parse_fan_in raw =
     (case get_opt raw of
        None \<Rightarrow> Inr None
      | Some v \<Rightarrow> if v = VStr ''list'' then Inr (Some FanList) else if v = VStr ''concat'' then Inr (Some FanConcat)
                  else Inl (invalid INVALID_FANOUT))"

definition parse_edge :: "pyval \<Rightarrow> pyexc + edge_def" where
  "parse_edge v =
     raise_bind (parse_loop v) (\<lambda>(when, bound, strict).
     raise_bind (py_get v ''map'') (\<lambda>raw_map.
     raise_bind (py_get v ''fan_out'') (\<lambda>raw_fan_out.
     raise_bind (py_get v ''fan_in'') (\<lambda>raw_fan_in.
     raise_bind (parse_fan_in raw_fan_in) (\<lambda>fin.
     raise_bind (py_index v ''from'') (\<lambda>s.
     raise_bind (py_index v ''to'') (\<lambda>t.
       Inr \<lparr>src = py_str s, dst = py_str t,
            mapping = map (\<lambda>(k, x). (k, py_str x)) (dict_items (or_else (VDict []) raw_map)),
            edge_when = when, loop_max = bound, fan_out = map_option py_str (get_opt raw_fan_out), fan_in = fin,
            loop_strict = strict\<rparr>)))))))"

section \<open>The schedule\<close>

text \<open>\<open>^\d+[smhd]$\<close>: \<open>$\<close> also matches before a final newline.\<close>

definition is_duration :: "string \<Rightarrow> bool" where
  "is_duration s =
     (let body = (if s \<noteq> [] \<and> last s = CHR 0x0A then butlast s else s); ds = takeWhile is_digit body; u = drop (length ds) body
      in ds \<noteq> [] \<and> u \<in> {''s'', ''m'', ''h'', ''d''})"

definition duration :: "pyval option \<Rightarrow> pyexc + string option" where
  "duration raw =
     (case get_opt raw of
        None \<Rightarrow> Inr None
      | Some v \<Rightarrow> if is_duration (py_str v) then Inr (Some (py_str v)) else Inl (invalid INVALID_SCHEDULE))"

definition schedule_inputs :: "pyval option \<Rightarrow> pyexc + (string \<times> pyval) list" where
  "schedule_inputs raw =
     (case or_else (VDict []) raw of
        VDict d \<Rightarrow> Inr d
      | v \<Rightarrow> if truthy v then Inl (invalid INVALID_SCHEDULE) else Inr [])"

definition parse_timer :: "(string \<times> pyval) list \<Rightarrow> (string \<times> pyval) list \<Rightarrow> pyexc + schedule_def" where
  "parse_timer d ins =
     (let every = map_option py_str (get_opt (map_of d ''every'')); cron = map_option py_str (get_opt (map_of d ''cron''))
      in if (every = None) = (cron = None) then Inl (invalid INVALID_SCHEDULE)
         else if (case every of Some e \<Rightarrow> \<not> is_duration e | None \<Rightarrow> False) then Inl (invalid INVALID_SCHEDULE)
         else if (case cron of Some c \<Rightarrow> length (split_ws c) \<noteq> 5 | None \<Rightarrow> False) then Inl (invalid INVALID_SCHEDULE)
         else raise_bind (duration (map_of d ''timeout'')) (\<lambda>timeout.
              raise_bind (duration (map_of d ''jitter'')) (\<lambda>jitter.
                Inr \<lparr>sch_mode = Timer, sch_every = every, sch_cron = cron, sch_inputs = ins, sch_signal = None,
                     sch_listen = None, sch_timeout = timeout, sch_jitter = jitter\<rparr>)))"

definition parse_hook :: "(string \<times> pyval) list \<Rightarrow> (string \<times> pyval) list \<Rightarrow> pyexc + schedule_def" where
  "parse_hook d ins =
     (case map_of d ''signal'' of
        Some (VStr sig) \<Rightarrow>
          (if sig = [] then Inl (invalid INVALID_SCHEDULE)
           else (case map_of d ''listen'' of
                   Some (VDict l) \<Rightarrow>
                     (if or_else VNone (map_of l ''type'') \<notin> {VStr ''http'', VStr ''file'', VStr ''socket''}
                      then Inl (invalid INVALID_SCHEDULE)
                      else raise_bind (duration (map_of d ''timeout'')) (\<lambda>timeout.
                        Inr \<lparr>sch_mode = Hook, sch_every = None, sch_cron = None, sch_inputs = ins, sch_signal = Some sig,
                             sch_listen = Some l, sch_timeout = timeout, sch_jitter = None\<rparr>))
                 | _ \<Rightarrow> Inl (invalid INVALID_SCHEDULE)))
      | _ \<Rightarrow> Inl (invalid INVALID_SCHEDULE))"

definition parse_schedule :: "pyval option \<Rightarrow> pyexc + schedule_def option" where
  "parse_schedule raw =
     (case get_opt raw of
        None \<Rightarrow> Inr None
      | Some (VDict d) \<Rightarrow>
          (let mode = or_else VNone (map_of d ''mode'')
           in if mode \<noteq> VStr ''timer'' \<and> mode \<noteq> VStr ''hook'' then Inl (invalid INVALID_SCHEDULE)
              else raise_bind (schedule_inputs (map_of d ''inputs'')) (\<lambda>ins.
                raise_bind (if mode = VStr ''timer'' then parse_timer d ins else parse_hook d ins) (\<lambda>s. Inr (Some s))))
      | Some _ \<Rightarrow> Inl (invalid INVALID_SCHEDULE))"

section \<open>Nodes and workflows\<close>

record file_env =
  env_files :: "(string \<times> pyval option) list"
  env_join :: "string \<Rightarrow> string \<Rightarrow> string"
  env_parent :: "string \<Rightarrow> string"

definition parse_in_schema :: "pyval option \<Rightarrow> pyexc + (string \<times> schema) list" where
  "parse_in_schema raw =
     raise_map (\<lambda>(k, v). case v of VDict d \<Rightarrow> Inr (k, d) | _ \<Rightarrow> Inl (invalid INVALID_SCHEMA))
       (dict_items (or_else (VDict []) raw))"

definition parse_limit :: "pyval option \<Rightarrow> pyexc + int" where
  "parse_limit raw =
     (let v = or_else (VInt 0) raw
      in if \<not> is_int v \<or> num_negative v then Inl (invalid INVALID_VALUE) else py_int v)"

definition node_elems :: "pyval \<Rightarrow> pyexc + pyval list" where
  "node_elems v = (case v of VList xs \<Rightarrow> Inr xs
     | VDict d \<Rightarrow> (if d = [] then Inr [] else Inl AttributeError)
     | VStr s \<Rightarrow> (if s = [] then Inr [] else Inl AttributeError)
     | _ \<Rightarrow> Inl TypeError)"

lemma node_elems_size: "node_elems v = Inr xs \<Longrightarrow> x \<in> set xs \<Longrightarrow> size x < size v"
  by (cases v) (auto simp: node_elems_def split: if_splits dest: size_list_elem)

lemma or_else_size: "x \<in> set xs \<Longrightarrow> node_elems (or_else (VList []) (map_of d k)) = Inr xs \<Longrightarrow> size x < size (VDict d)"
proof -
  assume x: "x \<in> set xs" and e: "node_elems (or_else (VList []) (map_of d k)) = Inr xs"
  then obtain v where v: "map_of d k = Some v" by (cases "map_of d k") (auto simp: or_else_def node_elems_def)
  then have "size x < size v" using node_elems_size [of v xs x] e x by (simp add: or_else_def)
  then show "size x < size (VDict d)" using size_dict_value [OF v] by simp
qed

lemma unseen_less:
  assumes "map_of files p = Some c" and "p \<notin> set seen"
  shows "card (fst ` set files - set (seen @ [p])) < card (fst ` set files - set seen)"
proof (rule psubset_card_mono)
  have "p \<in> fst ` set files" using assms(1) by (force dest: map_of_SomeD)
  then show "fst ` set files - set (seen @ [p]) \<subset> fst ` set files - set seen" using assms(2) by auto
qed simp

type_synonym parse_args = "file_env \<times> string option \<times> string list \<times> pyval"

definition parse_measure :: "((parse_args + parse_args + parse_args) \<times> (parse_args + parse_args + parse_args)) set" where
  "parse_measure = measures
     [\<lambda>x. (case x of Inl (env, base, seen, v) \<Rightarrow> card (fst ` set (env_files env) - set seen)
         | Inr (Inl (env, base, seen, v)) \<Rightarrow> card (fst ` set (env_files env) - set seen)
         | Inr (Inr (env, base, seen, v)) \<Rightarrow> card (fst ` set (env_files env) - set seen)),
      \<lambda>x. (case x of Inl (env, base, seen, v) \<Rightarrow> size v
         | Inr (Inl (env, base, seen, v)) \<Rightarrow> size v
         | Inr (Inr (env, base, seen, v)) \<Rightarrow> size v),
      \<lambda>x. (case x of Inl _ \<Rightarrow> 0 | Inr (Inl _) \<Rightarrow> 1 | Inr (Inr _) \<Rightarrow> 0)]"

lemma head_dict: "parse_node_head v = Inr h \<Longrightarrow> \<exists>d. v = VDict d"
  by (cases v) (auto simp: parse_node_head_def)

text \<open>\<open>seen\<close> is \<open>_seen\<close>, the paths being loaded: a reference to one of them is a cycle.\<close>

function (sequential) parse_node :: "file_env \<Rightarrow> string option \<Rightarrow> string list \<Rightarrow> pyval \<Rightarrow> pyexc + node_def"
and parse_child :: "file_env \<Rightarrow> string option \<Rightarrow> string list \<Rightarrow> pyval \<Rightarrow> pyexc + workflow_def"
and parse_workflow :: "file_env \<Rightarrow> string option \<Rightarrow> string list \<Rightarrow> pyval \<Rightarrow> pyexc + workflow_def" where
  "parse_node env base seen v =
     raise_bind (parse_node_head v) (\<lambda>h.
       if nh_type h \<noteq> Subflow then build_node (dict_items v) h None (nh_inputs h) (nh_outputs h)
       else if truthy (or_else VNone (map_of (dict_items v) ''inputs''))
             \<or> truthy (or_else VNone (map_of (dict_items v) ''outputs'')) then Inl (invalid INVALID_SUBFLOW)
       else (case map_of (dict_items v) ''subflow'' of
               None \<Rightarrow> Inl (invalid MISSING_REQUIRED)
             | Some raw \<Rightarrow> raise_bind (parse_child env base seen raw) (\<lambda>c.
                 build_node (dict_items v) h (Some c) (derived_ports (input_properties c))
                   (derived_ports (output_properties c)))))"
| "parse_child env base seen (VStr path) =
     (case base of
        None \<Rightarrow> Inl (invalid INVALID_SUBFLOW)
      | Some b \<Rightarrow>
          (let p = env_join env b path
           in if p \<in> set seen then Inl (invalid INVALID_SUBFLOW)
              else (case map_of (env_files env) p of
                      None \<Rightarrow> Inl (invalid INVALID_SUBFLOW)
                    | Some None \<Rightarrow> Inl ValueError
                    | Some (Some content) \<Rightarrow> parse_workflow env (Some (env_parent env p)) (seen @ [p]) content)))"
| "parse_child env base seen (VDict d) = parse_workflow env base seen (VDict d)"
| "parse_child env base seen v = Inl (invalid MISSING_REQUIRED)"
| "parse_workflow env base seen (VDict d) =
     (let text = (\<lambda>k. py_str (or_else (VStr []) (map_of d k)))
      in raise_bind (py_get (or_else (VDict []) (map_of d ''defaults'')) ''model'') (\<lambda>model.
         raise_bind (parse_in_schema (map_of d ''in_schema'')) (\<lambda>in_schema.
         raise_bind (parse_limit (map_of d ''max_concurrency'')) (\<lambda>cap.
         raise_bind (parse_limit (map_of d ''fan_max_concurrency'')) (\<lambda>fan_cap.
         raise_bind (parse_schedule (map_of d ''schedule'')) (\<lambda>schedule.
         raise_bind (node_elems (or_else (VList []) (map_of d ''nodes''))) (\<lambda>raw_nodes.
         raise_bind (raise_map (parse_node env base seen) raw_nodes) (\<lambda>nodes.
         raise_bind (py_iter (or_else (VList []) (map_of d ''edges''))) (\<lambda>raw_edges.
         raise_bind (raise_map parse_edge raw_edges) (\<lambda>edges.
           Inr (WorkflowDef (text ''name'') (text ''provider'') (text ''entry'') nodes edges
                  (py_str (or_else (VStr []) model))
                  (dict_items (or_else (VDict []) (map_of d ''state''))) in_schema
                  (map (\<lambda>(k, x). (k, py_str x)) (dict_items (or_else (VDict []) (map_of d ''tools''))))
                  cap fan_cap schedule)))))))))))"
| "parse_workflow env base seen v = Inl AttributeError"
  by pat_completeness auto
termination
proof (relation parse_measure)
  show "wf parse_measure" by (simp add: parse_measure_def)
next
  fix env :: file_env and base :: "string option" and seen :: "string list" and v :: pyval and h :: node_head and raw :: pyval
  assume h: "parse_node_head v = Inr h" and raw: "map_of (dict_items v) ''subflow'' = Some raw"
  obtain d where "v = VDict d" using head_dict [OF h] ..
  then have "size raw < size v" using raw size_dict_value [of d] by (simp add: dict_items_def)
  then show "(Inr (Inl (env, base, seen, raw)), Inl (env, base, seen, v)) \<in> parse_measure"
    by (simp add: parse_measure_def)
next
  fix env :: file_env and base :: "string option" and seen :: "string list" and path b p :: string and c :: "pyval option" and content :: pyval
  assume "base = Some b" "p = env_join env b path" "p \<notin> set seen" "map_of (env_files env) p = Some c" "c = Some content"
  then show "(Inr (Inr (env, Some (env_parent env p), seen @ [p], content)), Inr (Inl (env, base, seen, VStr path))) \<in> parse_measure"
    using unseen_less [of "env_files env" p c seen] by (simp add: parse_measure_def)
next
  fix env :: file_env and base :: "string option" and seen :: "string list" and d :: "(string \<times> pyval) list"
  show "(Inr (Inr (env, base, seen, VDict d)), Inr (Inl (env, base, seen, VDict d))) \<in> parse_measure"
    by (simp add: parse_measure_def)
next
  fix env :: file_env and base :: "string option" and seen :: "string list" and d :: "(string \<times> pyval) list" and raw_nodes and x :: pyval
  assume "node_elems (or_else (VList []) (map_of d ''nodes'')) = Inr raw_nodes" "x \<in> set raw_nodes"
  then have "size x < size (VDict d)" by (rule or_else_size [rotated])
  then show "(Inl (env, base, seen, x), Inr (Inr (env, base, seen, VDict d))) \<in> parse_measure"
    by (simp add: parse_measure_def)
qed

declare parse_node.simps [simp del] parse_workflow.simps [simp del]

section \<open>What a parsed workflow satisfies\<close>

definition edge_parsed :: "edge_def \<Rightarrow> bool" where
  "edge_parsed e \<longleftrightarrow> (\<forall>m. loop_max e = Some m \<longrightarrow> 1 \<le> m) \<and>
     (loop_strict e \<longrightarrow> loop_max e \<noteq> None \<and> edge_when e \<noteq> None)"

definition node_parsed :: "node_def \<Rightarrow> bool" where
  "node_parsed n \<longleftrightarrow>
     (\<forall>r. nd_retry n = Some r \<longrightarrow> 0 \<le> retry_max r) \<and>
     (\<forall>s. nd_inherit n = Some s \<longrightarrow> from_node s \<noteq> []) \<and>
     (nd_type n = Subflow \<longleftrightarrow> nd_child n \<noteq> None) \<and>
     (\<forall>c. nd_child n = Some c \<longrightarrow> nd_input_ports n = derived_ports (input_properties c) \<and>
        nd_output_ports n = derived_ports (output_properties c))"

definition duration_ok :: "string option \<Rightarrow> bool" where
  "duration_ok d = (case d of None \<Rightarrow> True | Some s \<Rightarrow> is_duration s)"

definition schedule_parsed :: "schedule_def \<Rightarrow> bool" where
  "schedule_parsed s \<longleftrightarrow>
     (case sch_mode s of
        Timer \<Rightarrow> ((sch_every s = None) \<noteq> (sch_cron s = None)) \<and> duration_ok (sch_every s) \<and>
          (\<forall>c. sch_cron s = Some c \<longrightarrow> length (split_ws c) = 5) \<and> sch_signal s = None \<and> sch_listen s = None
      | Hook \<Rightarrow> sch_every s = None \<and> sch_cron s = None \<and> (\<exists>g. sch_signal s = Some g \<and> g \<noteq> []) \<and> sch_listen s \<noteq> None) \<and>
     duration_ok (sch_timeout s) \<and> duration_ok (sch_jitter s)"

lemma positive_bound_ge: "positive_bound v = Inr i \<Longrightarrow> 1 \<le> i"
  by (auto simp: positive_bound_def split: sum.splits pyexc.splits if_splits)

lemma parse_while_ge: "parse_while raw = Inr (c, m) \<Longrightarrow> 1 \<le> m"
  by (auto simp: parse_while_def WHILE_SAFE_MAX_def raise_bind_Inr_iff
      split: pyval.splits if_splits option.splits dest: positive_bound_ge)

lemma parse_loop_ok:
  assumes "parse_loop v = Inr (when, bound, strict)"
  shows "(\<forall>m. bound = Some m \<longrightarrow> 1 \<le> m) \<and> (strict \<longrightarrow> bound \<noteq> None \<and> when \<noteq> None)"
  using assms unfolding parse_loop_def
proof (elim raise_bind_InrE)
  fix has_when when0 has_while has_loop
  assume eq: "(if has_while
       then if has_loop then raise_bind (py_get v ''from'') (\<lambda>_. Inl (invalid INVALID_LOOP))
            else if has_when then raise_bind (py_get v ''from'') (\<lambda>_. Inl (invalid INVALID_LOOP))
            else raise_bind (py_index v ''while'') (\<lambda>raw. raise_bind (parse_while raw) (\<lambda>(c, m). Inr (Some c, Some m, True)))
       else if has_loop
       then raise_bind (py_index v ''loop'') (\<lambda>l.
              case l of
                VDict d \<Rightarrow> (case map_of d ''max'' of
                    None \<Rightarrow> Inl (invalid INVALID_LOOP)
                  | Some m \<Rightarrow> raise_bind (positive_bound m) (\<lambda>i. Inr (when0, Some i, False)))
              | _ \<Rightarrow> Inr (when0, None, False))
       else Inr (when0, None, False)) = Inr (when, bound, strict)"
  show ?thesis
  proof (cases has_while)
    case True
    then obtain raw c m where "parse_while raw = Inr (c, m)" "when = Some c" "bound = Some m"
      using eq by (auto simp: raise_bind_Inr_iff split: if_splits)
    then show ?thesis using parse_while_ge by auto
  next
    case False
    show ?thesis
    proof (cases has_loop)
      case True
      then obtain l where l: "(case l of
                VDict d \<Rightarrow> (case map_of d ''max'' of
                    None \<Rightarrow> Inl (invalid INVALID_LOOP)
                  | Some m \<Rightarrow> raise_bind (positive_bound m) (\<lambda>i. Inr (when0, Some i, False)))
              | _ \<Rightarrow> Inr (when0, None, False)) = Inr (when, bound, strict)"
        using eq False by (auto simp: raise_bind_Inr_iff)
      then show ?thesis
        by (cases l) (auto simp: raise_bind_Inr_iff split: option.splits dest: positive_bound_ge)
    qed (use eq False in auto)
  qed
qed

lemma parse_edge_ok: "parse_edge v = Inr e \<Longrightarrow> edge_parsed e"
  by (auto simp: parse_edge_def edge_parsed_def raise_bind_Inr_iff dest!: parse_loop_ok)

lemma is_int_py_int: "is_int v \<Longrightarrow> \<not> num_negative v \<Longrightarrow> py_int v = Inr i \<Longrightarrow> 0 \<le> i"
  by (auto simp: is_int_def num_negative_def py_int_def split: pyval.splits)

lemma parse_retry_ok: "parse_retry raw = Inr (Some r) \<Longrightarrow> 0 \<le> retry_max r"
  by (auto simp: parse_retry_def Let_def raise_bind_Inr_iff split: option.splits pyval.splits if_splits
      dest: is_int_py_int)

lemma parse_inherit_ok: "parse_inherit nid raw = Inr (Some s) \<Longrightarrow> from_node s \<noteq> []"
  by (auto simp: parse_inherit_def split: option.splits pyval.splits if_splits)

lemma head_retry: "parse_node_head v = Inr h \<Longrightarrow> nh_retry h = Some r \<Longrightarrow> 0 \<le> retry_max r"
  by (auto simp: parse_node_head_def raise_bind_Inr_iff split: pyval.splits dest: parse_retry_ok)

lemma build_node_fields:
  assumes "build_node d h child ins outs = Inr n"
  shows "nd_retry n = nh_retry h" "nd_type n = nh_type h" "nd_child n = child"
    "nd_input_ports n = ins" "nd_output_ports n = outs"
    "nd_inherit n = Some s \<Longrightarrow> from_node s \<noteq> []"
  using assms by (auto simp: build_node_def raise_bind_Inr_iff dest: parse_inherit_ok)

lemma parse_node_ok:
  assumes "parse_node env base seen v = Inr n"
  shows "node_parsed n"
proof -
  obtain h where h: "parse_node_head v = Inr h" using assms by (auto simp: parse_node.simps raise_bind_Inr_iff)
  show ?thesis
  proof (cases "nh_type h = Subflow")
    case False
    then have "build_node (dict_items v) h None (nh_inputs h) (nh_outputs h) = Inr n"
      using assms h by (simp add: parse_node.simps)
    then show ?thesis using build_node_fields head_retry [OF h] False by (auto simp: node_parsed_def)
  next
    case True
    then obtain c where "build_node (dict_items v) h (Some c) (derived_ports (input_properties c))
        (derived_ports (output_properties c)) = Inr n"
      using assms h True by (auto simp: parse_node.simps raise_bind_Inr_iff split: if_splits option.splits)
    then show ?thesis using build_node_fields head_retry [OF h] True by (auto simp: node_parsed_def)
  qed
qed

lemma parse_limit_ok: "parse_limit raw = Inr i \<Longrightarrow> 0 \<le> i"
  by (auto simp: parse_limit_def Let_def split: if_splits dest: is_int_py_int)

lemma duration_ok_parsed: "duration raw = Inr d \<Longrightarrow> duration_ok d"
  by (auto simp: duration_def duration_ok_def split: option.splits if_splits)

lemma parse_timer_ok: "parse_timer d ins = Inr s \<Longrightarrow> schedule_parsed s"
  by (auto simp: parse_timer_def Let_def schedule_parsed_def raise_bind_Inr_iff duration_ok_def
      split: if_splits option.splits dest!: duration_ok_parsed)

lemma parse_hook_ok: "parse_hook d ins = Inr s \<Longrightarrow> schedule_parsed s"
  by (auto simp: parse_hook_def Let_def schedule_parsed_def raise_bind_Inr_iff duration_ok_def
      split: if_splits option.splits pyval.splits dest!: duration_ok_parsed)

lemma parse_schedule_ok: "parse_schedule raw = Inr (Some s) \<Longrightarrow> schedule_parsed s"
  by (auto simp: parse_schedule_def Let_def raise_bind_Inr_iff split: if_splits option.splits pyval.splits
      dest: parse_timer_ok parse_hook_ok)

definition workflow_parsed :: "workflow_def \<Rightarrow> bool" where
  "workflow_parsed w \<longleftrightarrow>
     (\<forall>e \<in> set (wf_edges w). edge_parsed e) \<and> (\<forall>n \<in> set (wf_nodes w). node_parsed n) \<and>
     0 \<le> wf_max_concurrency w \<and> 0 \<le> wf_fan_max_concurrency w \<and>
     (\<forall>s. wf_schedule w = Some s \<longrightarrow> schedule_parsed s)"

lemma parse_workflow_ok:
  assumes "parse_workflow env base seen v = Inr w"
  shows "workflow_parsed w"
proof -
  obtain d where v: "v = VDict d" using assms by (cases v) (simp_all add: parse_workflow.simps)
  obtain model in_schema cap fan_cap schedule raw_nodes nodes raw_edges edges where
    "parse_limit (map_of d ''max_concurrency'') = Inr cap"
    "parse_limit (map_of d ''fan_max_concurrency'') = Inr fan_cap"
    "parse_schedule (map_of d ''schedule'') = Inr schedule"
    "raise_map (parse_node env base seen) raw_nodes = Inr nodes"
    "raise_map parse_edge raw_edges = Inr edges"
    "wf_nodes w = nodes" "wf_edges w = edges" "wf_max_concurrency w = cap" "wf_fan_max_concurrency w = fan_cap"
    "wf_schedule w = schedule"
    using assms v by (auto simp: parse_workflow.simps Let_def raise_bind_Inr_iff)
  note facts = this
  have "edge_parsed e" if "e \<in> set edges" for e
    using raise_map_Inr_set [OF facts(5) that] parse_edge_ok by blast
  moreover have "node_parsed n" if "n \<in> set nodes" for n
    using raise_map_Inr_set [OF facts(4) that] parse_node_ok by blast
  ultimately show ?thesis
    using facts parse_limit_ok [OF facts(1)] parse_limit_ok [OF facts(2)]
      parse_schedule_ok [of "map_of d ''schedule''"]
    by (simp add: workflow_parsed_def)
qed

text \<open>C40. What parsing guarantees: in every workflow \<open>parse_workflow\<close> returns, each loop bound is
  at least one, a strict loop has both its bound and its condition, retry counts and concurrency
  limits are not negative, an inherited session has a source, a node has a child exactly when it
  is a subflow and then its ports are the child's signature, and a schedule is a timer with
  exactly one well-formed trigger or a hook with a signal and a listener.\<close>

theorem parsed_workflow_sound:
  assumes "parse_workflow env base seen v = Inr w"
  shows "workflow_parsed w"
  by (rule parse_workflow_ok [OF assms])

definition demo_env :: file_env where
  "demo_env = \<lparr>env_files = [], env_join = (\<lambda>b p. b @ ''/'' @ p), env_parent = (\<lambda>p. p)\<rparr>"

definition demo_edge_json :: pyval where
  "demo_edge_json = VDict [(''from'', VStr ''b''), (''to'', VStr ''a''),
     (''while'', VDict [(''not'', VDict [(''equals'', VDict [(''value'', VStr ''{{ $.ok }}''), (''text'', VStr ''yes'')])])])]"

lemma demo_edge_parses:
  "parse_edge demo_edge_json = Inr \<lparr>src = ''b'', dst = ''a'', mapping = [],
     edge_when = Some (Condition NotC None None [Condition Equals (Some ''{{ $.ok }}'') (Some ''yes'') []]),
     loop_max = Some 100, fan_out = None, fan_in = None, loop_strict = True\<rparr>"
  by (simp add: demo_edge_json_def parse_edge_def parse_loop_def py_in_def py_index_def py_get_def parse_while_def
      parse_condition.simps leaf_op_def operand_pair_def WHILE_SAFE_MAX_def dict_items_def or_else_def get_opt_def
      parse_fan_in_def)

lemma parsed_workflow_sound_witness:
  "\<exists>w. parse_workflow demo_env None [] (VDict [(''edges'', VList [demo_edge_json])]) = Inr w \<and> workflow_parsed w"
proof -
  have "\<exists>w. parse_workflow demo_env None [] (VDict [(''edges'', VList [demo_edge_json])]) = Inr w"
    by (simp add: parse_workflow.simps demo_edge_parses py_get_def or_else_def parse_in_schema_def dict_items_def parse_limit_def is_int_def
        num_negative_def py_int_def parse_schedule_def get_opt_def node_elems_def py_iter_def)
  then show ?thesis using parsed_workflow_sound by blast
qed

end
