(* ===== verification/Conditions.thy ===== *)
theory Conditions
  imports Coerce
begin

text \<open>
  \<open>flow/interpolate.py\<close> and \<open>flow/conditions.py\<close>: placeholders in templates and the
  condition trees of edges. The third-party JSONPath engine is the argument \<open>jp\<close>:
  \<open>jp path state\<close> is the values of \<open>parse(path).find(state)\<close>, or the exception either
  call raises. The compiled-expression cache is invisible to callers and not modelled.
\<close>

type_synonym wf_state = "(string \<times> pyval) list"
type_synonym jsonpath = "string \<Rightarrow> wf_state \<Rightarrow> pyexc + pyval list"

definition jsonpath_get :: "jsonpath \<Rightarrow> wf_state \<Rightarrow> string \<Rightarrow> pyexc + pyval" where
  "jsonpath_get jp st path =
     raise_bind (jp path st) (\<lambda>ms. Inr (case ms of [] \<Rightarrow> VNone | m # _ \<Rightarrow> m))"

section \<open>The placeholder pattern\<close>

text \<open>
  \<open>\{\{\s*(.+?)\s*\}\}\<close> after its opening braces. \<open>lazy_group\<close> extends the group one
  character at a time (never over a newline) until only blanks separate it from the closing
  braces; \<open>skip_blanks\<close> is the backtracking of the leading \<open>\s*\<close>, which first
  takes every blank and then gives them back one by one.
\<close>

definition closes :: "string \<Rightarrow> string option" where
  "closes s = (let r = dropWhile is_space s
               in if starts_with ''}}'' r then Some (drop 2 r) else None)"

fun lazy_group :: "string \<Rightarrow> string \<Rightarrow> (string \<times> string) option" where
  "lazy_group acc [] = None"
| "lazy_group acc (c # s) =
     (if c = CHR 0x0A then None
      else (case closes s of Some rest \<Rightarrow> Some (rev (c # acc), rest) | None \<Rightarrow> lazy_group (c # acc) s))"

fun skip_blanks :: "string \<Rightarrow> (string \<times> string) option" where
  "skip_blanks [] = None"
| "skip_blanks (c # s) =
     (if is_space c then (case skip_blanks s of Some r \<Rightarrow> Some r | None \<Rightarrow> lazy_group [] (c # s))
      else lazy_group [] (c # s))"

definition placeholder :: "string \<Rightarrow> (string \<times> string) option" where
  "placeholder s = (if starts_with ''{{'' s then skip_blanks (drop 2 s) else None)"

lemma closes_shorter: "closes s = Some rest \<Longrightarrow> length rest \<le> length s"
  by (auto simp: closes_def Let_def split: if_splits)
    (metis diff_le_self le_trans length_dropWhile_le)

lemma lazy_group_shorter: "lazy_group acc s = Some (p, rest) \<Longrightarrow> length rest < length s"
proof (induction acc s rule: lazy_group.induct)
  case (2 acc c s)
  then show ?case using closes_shorter [of s rest] by (auto split: if_splits option.splits)
qed simp

lemma skip_blanks_shorter: "skip_blanks s = Some (p, rest) \<Longrightarrow> length rest < length s"
proof (induction s)
  case (Cons c s)
  then show ?case using lazy_group_shorter [of "[]" "c # s" p rest] by (auto split: if_splits option.splits)
qed simp

lemma placeholder_shorter: "placeholder s = Some (p, rest) \<Longrightarrow> length rest < length s"
  using skip_blanks_shorter [of "drop 2 s" p rest] by (auto simp: placeholder_def split: if_splits)

text \<open>\<open>re.sub\<close>: literal characters are copied, a match is replaced and scanning resumes after it.
  The exception of the first placeholder that raises is the exception of the call.\<close>

function interpolate :: "jsonpath \<Rightarrow> wf_state \<Rightarrow> string \<Rightarrow> pyexc + string" where
  "interpolate jp st [] = Inr []"
| "interpolate jp st (c # s) =
     (case placeholder (c # s) of
        None \<Rightarrow> raise_bind (interpolate jp st s) (\<lambda>t. Inr (c # t))
      | Some (path, rest) \<Rightarrow>
          raise_bind (jsonpath_get jp st path)
            (\<lambda>v. raise_bind (interpolate jp st rest)
              (\<lambda>t. Inr ((if v = VNone then '''' else port_str v) @ t))))"
  by pat_completeness auto
termination
  by (relation "measure (\<lambda>(jp, st, s). length s)") (auto dest: placeholder_shorter)

declare interpolate.simps(2) [simp del]

section \<open>Conditions\<close>

definition as_number :: "string \<Rightarrow> pyexc + pyfloat option" where
  "as_number raw =
     (let s = strip raw
      in if s = [] then Inr None
         else (case parse_float s of Inr f \<Rightarrow> Inr (Some f) | Inl e \<Rightarrow> Inl (invalid '''')))"

definition both_operands ::
  "string option \<Rightarrow> string option \<Rightarrow> (string \<Rightarrow> string \<Rightarrow> pyexc + bool) \<Rightarrow> pyexc + bool" where
  "both_operands v t k = (case (v, t) of (Some x, Some y) \<Rightarrow> k x y | _ \<Rightarrow> Inl (invalid ''''))"

definition numeric_op :: "cond_op \<Rightarrow> pyfloat \<Rightarrow> pyfloat \<Rightarrow> bool" where
  "numeric_op op l r =
     (if op = Gt then pf_less r l else if op = Gte then pf_le r l else if op = Lt then pf_less l r else pf_le l r)"

text \<open>\<open>all\<close> and \<open>any\<close> stop at the first child that decides them, so a later child that
  would raise is not evaluated.\<close>

fun evaluate :: "jsonpath \<Rightarrow> wf_state \<Rightarrow> condition \<Rightarrow> pyexc + bool"
and eval_all :: "jsonpath \<Rightarrow> wf_state \<Rightarrow> condition list \<Rightarrow> pyexc + bool"
and eval_any :: "jsonpath \<Rightarrow> wf_state \<Rightarrow> condition list \<Rightarrow> pyexc + bool" where
  "evaluate jp st (Condition op v t cs) =
     (case op of
        Equals \<Rightarrow> both_operands v t (\<lambda>x y. raise_bind (interpolate jp st x) (\<lambda>a.
          raise_bind (interpolate jp st y) (\<lambda>b. Inr (a = b))))
      | Contains \<Rightarrow> both_operands v t (\<lambda>x y. raise_bind (interpolate jp st y) (\<lambda>b.
          raise_bind (interpolate jp st x) (\<lambda>a. Inr (contains_sub b a))))
      | NotC \<Rightarrow> (case cs of [c] \<Rightarrow> raise_bind (evaluate jp st c) (\<lambda>b. Inr (\<not> b)) | _ \<Rightarrow> Inl (invalid ''''))
      | AndC \<Rightarrow> eval_all jp st cs
      | OrC \<Rightarrow> eval_any jp st cs
      | _ \<Rightarrow> both_operands v t (\<lambda>x y. raise_bind (interpolate jp st x) (\<lambda>a.
          raise_bind (as_number a) (\<lambda>l. raise_bind (interpolate jp st y) (\<lambda>b.
            raise_bind (as_number b) (\<lambda>r.
              Inr (case (l, r) of (Some p, Some q) \<Rightarrow> numeric_op op p q | _ \<Rightarrow> False)))))))"
| "eval_all jp st [] = Inr True"
| "eval_all jp st (c # cs) = raise_bind (evaluate jp st c) (\<lambda>b. if b then eval_all jp st cs else Inr False)"
| "eval_any jp st [] = Inr False"
| "eval_any jp st (c # cs) = raise_bind (evaluate jp st c) (\<lambda>b. if b then Inr True else eval_any jp st cs)"

section \<open>Reference semantics\<close>

text \<open>What a condition means once every template it uses is text (\<open>txt\<close>) and every number it
  compares is a number.\<close>

definition number_of :: "string \<Rightarrow> pyfloat option" where
  "number_of s = (case as_number s of Inr f \<Rightarrow> f | Inl e \<Rightarrow> None)"

fun cond_holds :: "(string \<Rightarrow> string) \<Rightarrow> condition \<Rightarrow> bool" where
  "cond_holds txt (Condition op v t cs) =
     (case op of
        Equals \<Rightarrow> txt (the v) = txt (the t)
      | Contains \<Rightarrow> contains_sub (txt (the t)) (txt (the v))
      | NotC \<Rightarrow> (case cs of [c] \<Rightarrow> \<not> cond_holds txt c | _ \<Rightarrow> False)
      | AndC \<Rightarrow> (\<forall>c \<in> set cs. cond_holds txt c)
      | OrC \<Rightarrow> (\<exists>c \<in> set cs. cond_holds txt c)
      | _ \<Rightarrow> (case (number_of (txt (the v)), number_of (txt (the t))) of
               (Some p, Some q) \<Rightarrow> numeric_op op p q | _ \<Rightarrow> False))"

text \<open>The conditions on which evaluation cannot raise: right arity, both operands, templates that
  interpolate, numeric operands that are numbers or empty.\<close>

fun cond_ok :: "jsonpath \<Rightarrow> wf_state \<Rightarrow> condition \<Rightarrow> bool" where
  "cond_ok jp st (Condition op v t cs) =
     (let texts = (v \<noteq> None \<and> t \<noteq> None \<and> (\<exists>a. interpolate jp st (the v) = Inr a) \<and> (\<exists>b. interpolate jp st (the t) = Inr b))
      in case op of
        Equals \<Rightarrow> texts
      | Contains \<Rightarrow> texts
      | NotC \<Rightarrow> (case cs of [c] \<Rightarrow> cond_ok jp st c | _ \<Rightarrow> False)
      | AndC \<Rightarrow> (\<forall>c \<in> set cs. cond_ok jp st c)
      | OrC \<Rightarrow> (\<forall>c \<in> set cs. cond_ok jp st c)
      | _ \<Rightarrow> texts \<and> (\<forall>a. interpolate jp st (the v) = Inr a \<longrightarrow> (\<exists>n. as_number a = Inr n))
                 \<and> (\<forall>b. interpolate jp st (the t) = Inr b \<longrightarrow> (\<exists>n. as_number b = Inr n)))"

definition rendered :: "jsonpath \<Rightarrow> wf_state \<Rightarrow> string \<Rightarrow> string" where
  "rendered jp st s = (case interpolate jp st s of Inr t \<Rightarrow> t | Inl e \<Rightarrow> [])"

lemma eval_all_ok:
  "(\<And>c. c \<in> set cs \<Longrightarrow> evaluate jp st c = Inr (P c)) \<Longrightarrow> eval_all jp st cs = Inr (\<forall>c \<in> set cs. P c)"
  by (induction cs) auto

lemma eval_any_ok:
  "(\<And>c. c \<in> set cs \<Longrightarrow> evaluate jp st c = Inr (P c)) \<Longrightarrow> eval_any jp st cs = Inr (\<exists>c \<in> set cs. P c)"
  by (induction cs) auto

lemma evaluate_correct: "cond_ok jp st c \<Longrightarrow> evaluate jp st c = Inr (cond_holds (rendered jp st) c)"
proof (induction c)
  case (Condition op v t cs)
  show ?case
  proof (cases "op = NotC \<or> op = AndC \<or> op = OrC")
    case True
    have child: "evaluate jp st c = Inr (cond_holds (rendered jp st) c)"
      if "c \<in> set cs" "cond_ok jp st c" for c
      using Condition.IH [OF that] .
    show ?thesis
    proof (cases "op = NotC")
      case True
      then obtain c where "cs = [c]" "cond_ok jp st c"
        using Condition.prems by (auto split: list.splits)
      then show ?thesis using True child [of c] by simp
    next
      case False
      then show ?thesis
        using \<open>op = NotC \<or> _\<close> Condition.prems child
          eval_all_ok [of cs jp st "cond_holds (rendered jp st)"] eval_any_ok [of cs jp st "cond_holds (rendered jp st)"]
        by auto
    qed
  next
    case False
    then have txts: "v \<noteq> None \<and> t \<noteq> None \<and> (\<exists>a. interpolate jp st (the v) = Inr a) \<and> (\<exists>b. interpolate jp st (the t) = Inr b)"
      using Condition.prems by (cases op) (simp_all add: Let_def)
    then obtain x y a b where ab: "v = Some x" "t = Some y" "interpolate jp st x = Inr a" "interpolate jp st y = Inr b"
      by auto
    show ?thesis
    proof (cases "op = Equals \<or> op = Contains")
      case True
      then show ?thesis using ab by (auto simp: both_operands_def rendered_def)
    next
      case neq: False
      then have "(\<exists>n. as_number a = Inr n) \<and> (\<exists>n. as_number b = Inr n)"
        using False Condition.prems ab by (cases op) (simp_all add: Let_def)
      then obtain p q where "as_number a = Inr p" "as_number b = Inr q" by blast
      then show ?thesis
        using False neq ab by (cases op) (simp_all add: both_operands_def rendered_def number_of_def)
    qed
  qed
qed

text \<open>Condition evaluation is correct: on a condition of the right shape whose templates
  resolve and whose numeric operands are numbers or empty, \<open>evaluate\<close> returns, and what it
  returns is the truth of the condition tree: text equality and containment, numeric
  comparison with an unresolved operand false, negation, conjunction and disjunction.\<close>

theorem evaluate_is_truth:
  assumes "cond_ok jp st c"
  shows "evaluate jp st c = Inr (cond_holds (rendered jp st) c)"
  by (rule evaluate_correct [OF assms])

definition demo_jp :: jsonpath where
  "demo_jp path st = Inr (case map_of st path of None \<Rightarrow> [] | Some v \<Rightarrow> [v])"

lemma evaluate_is_truth_witness:
  "evaluate demo_jp [] (Condition NotC None None [Condition Gte (Some '''') (Some ''20'') []]) = Inr True"
proof -
  have i: "interpolate demo_jp [] '''' = Inr ''''" "interpolate demo_jp [] ''20'' = Inr ''20''"
    by (simp_all add: interpolate.simps placeholder_def starts_with_def)
  have n: "as_number '''' = Inr None" "\<exists>f. as_number ''20'' = Inr (Some f)"
    by (simp_all add: as_number_def parse_float_def take_sign_def strip_def is_space_def Let_def is_digit_def
        read_nat_def digit_value_def break_at_def parse_mantissa_def parse_exponent_def lower_char_def)
  have "cond_ok demo_jp [] (Condition NotC None None [Condition Gte (Some '''') (Some ''20'') []])"
    using i n by auto
  then have "evaluate demo_jp [] (Condition NotC None None [Condition Gte (Some '''') (Some ''20'') []]) =
      Inr (cond_holds (rendered demo_jp []) (Condition NotC None None [Condition Gte (Some '''') (Some ''20'') []]))"
    by (rule evaluate_is_truth)
  moreover have "cond_holds (rendered demo_jp []) (Condition NotC None None [Condition Gte (Some '''') (Some ''20'') []])"
    using i n by (auto simp: rendered_def number_of_def)
  ultimately show ?thesis by simp
qed

text \<open>Evaluation is lazy: once a child of \<open>and\<close> is false the remaining children are not
  evaluated, so one that would raise does not; dually for \<open>or\<close>.\<close>

theorem short_circuit:
  assumes "\<forall>d \<in> set cs1. evaluate jp st d = Inr b" and "evaluate jp st c = Inr (\<not> b)"
  shows "evaluate jp st (Condition (if b then AndC else OrC) v t (cs1 @ c # cs2)) = Inr (\<not> b)"
proof (cases b)
  case True
  have "\<forall>d \<in> set cs1. evaluate jp st d = Inr True \<Longrightarrow> eval_all jp st (cs1 @ c # cs2) = Inr False"
    using assms(2) True by (induction cs1) auto
  then show ?thesis using assms(1) True by simp
next
  case False
  have "\<forall>d \<in> set cs1. evaluate jp st d = Inr False \<Longrightarrow> eval_any jp st (cs1 @ c # cs2) = Inr True"
    using assms(2) False by (induction cs1) auto
  then show ?thesis using assms(1) False by simp
qed

lemma short_circuit_witness:
  "evaluate demo_jp [] (Condition OrC None None ([] @ Condition AndC None None [] # [Condition Equals None None []])) = Inr True"
  using short_circuit [of "[]" demo_jp "[]" False "Condition AndC None None []" None None "[Condition Equals None None []]"]
  by simp

section \<open>Templates\<close>

lemma starts_with_iff: "starts_with p s \<longleftrightarrow> (\<exists>t. s = p @ t)"
  unfolding starts_with_def by (metis append_eq_conv_conj)

lemma placeholder_no_brace: "c \<noteq> CHR ''{'' \<Longrightarrow> placeholder (c # s) = None"
  by (simp add: placeholder_def starts_with_def)

lemma interpolate_literal:
  "CHR ''{'' \<notin> set lit \<Longrightarrow> interpolate jp st (lit @ s) = raise_bind (interpolate jp st s) (\<lambda>t. Inr (lit @ t))"
proof (induction lit)
  case Nil
  then show ?case by (cases "interpolate jp st s") simp_all
next
  case (Cons c lit)
  then have "c \<noteq> CHR ''{''" by auto
  then have "placeholder (c # lit @ s) = None" by (rule placeholder_no_brace)
  then show ?case
    using Cons by (cases "interpolate jp st s") (simp_all add: interpolate.simps)
qed

definition plain_path :: "string \<Rightarrow> bool" where
  "plain_path p = (p \<noteq> [] \<and> (\<forall>c \<in> set p. \<not> is_space c \<and> c \<noteq> CHR ''}''))"

lemma closes_brace: "closes (''}}'' @ rest) = Some rest"
  by (simp add: closes_def is_space_def starts_with_def Let_def)

lemma closes_blanks: "(\<forall>c \<in> set ws. is_space c) \<Longrightarrow> closes (ws @ ''}}'' @ rest) = Some rest"
  by (induction ws) (simp_all add: closes_def is_space_def starts_with_def Let_def)

lemma closes_char: "\<not> is_space c \<Longrightarrow> c \<noteq> CHR ''}'' \<Longrightarrow> closes (c # s) = None"
  by (simp add: closes_def starts_with_def Let_def)

lemma lazy_group_path:
  assumes "plain_path p" and "\<forall>c \<in> set ws. is_space c"
  shows "lazy_group acc (p @ ws @ ''}}'' @ rest) = Some (rev acc @ p, rest)"
  using assms(1)
proof (induction p arbitrary: acc)
  case (Cons c p)
  have c: "\<not> is_space c" "c \<noteq> CHR ''}''" using Cons.prems by (auto simp: plain_path_def)
  then have nl: "c \<noteq> CHR 0x0A" by (auto simp: is_space_def)
  show ?case
  proof (cases p)
    case Nil
    then show ?thesis using nl closes_blanks [OF assms(2), of rest] by simp
  next
    case p: (Cons d p')
    then have "closes (p @ ws @ ''}}'' @ rest) = None" using Cons.prems closes_char [of d] by (auto simp: plain_path_def)
    moreover have "plain_path p" using Cons.prems p by (auto simp: plain_path_def)
    ultimately show ?thesis using nl Cons.IH [of "c # acc"] by simp
  qed
qed (simp add: plain_path_def)

lemma skip_blanks_path:
  assumes "plain_path p" and "\<forall>c \<in> set ws. is_space c" and "\<forall>c \<in> set pre. is_space c"
  shows "skip_blanks (pre @ p @ ws @ ''}}'' @ rest) = Some (p, rest)"
  using assms(3)
proof (induction pre)
  case Nil
  obtain c p' where p: "p = c # p'" "\<not> is_space c" using assms(1) by (cases p) (auto simp: plain_path_def)
  then show ?case using lazy_group_path [OF assms(1,2), of "[]" rest] by simp
next
  case (Cons c pre)
  then show ?case by simp
qed

text \<open>Interpolation is compositional: literal text without braces is copied, a placeholder whose
  path has no blank or brace is replaced by the projection of what the path finds, nothing when
  it finds nothing, blanks inside the braces do not matter, and the rest of the template is
  treated the same way.\<close>

theorem interpolation_compositional:
  assumes "CHR ''{'' \<notin> set lit" and "plain_path p" and "\<forall>c \<in> set pre \<union> set post. is_space c"
  shows "interpolate jp st (lit @ ''{{'' @ pre @ p @ post @ ''}}'' @ rest) =
    raise_bind (jsonpath_get jp st p) (\<lambda>v. raise_bind (interpolate jp st rest)
      (\<lambda>t. Inr (lit @ (if v = VNone then '''' else port_str v) @ t)))"
proof -
  let ?s = "''{{'' @ pre @ p @ post @ ''}}'' @ rest"
  have "placeholder ?s = Some (p, rest)"
    using skip_blanks_path [OF assms(2), of post pre rest] assms(3) by (simp add: placeholder_def starts_with_def)
  then have "interpolate jp st ?s = raise_bind (jsonpath_get jp st p) (\<lambda>v. raise_bind (interpolate jp st rest)
      (\<lambda>t. Inr ((if v = VNone then '''' else port_str v) @ t)))"
    by (simp add: interpolate.simps)
  then show ?thesis
    unfolding interpolate_literal [OF assms(1)]
    by (cases "jsonpath_get jp st p"; cases "interpolate jp st rest") simp_all
qed

lemma interpolation_compositional_witness:
  "interpolate demo_jp [(''$.topic'', VStr ''cats'')] (''on '' @ ''{{'' @ '' '' @ ''$.topic'' @ '' '' @ ''}}'' @ ''!'') = Inr ''on cats!''"
proof -
  have "plain_path ''$.topic''" by (simp add: plain_path_def is_space_def)
  then have "interpolate demo_jp [(''$.topic'', VStr ''cats'')] (''on '' @ ''{{'' @ '' '' @ ''$.topic'' @ '' '' @ ''}}'' @ ''!'') =
    raise_bind (jsonpath_get demo_jp [(''$.topic'', VStr ''cats'')] ''$.topic'')
      (\<lambda>v. raise_bind (interpolate demo_jp [(''$.topic'', VStr ''cats'')] ''!'')
      (\<lambda>t. Inr (''on '' @ (if v = VNone then '''' else port_str v) @ t)))"
    by (rule interpolation_compositional [rotated]) (simp_all add: is_space_def)
  then show ?thesis
    by (simp add: jsonpath_get_def demo_jp_def port_str_def interpolate.simps placeholder_def starts_with_def)
qed

end
