(* ===== verification/Cycle.thy ===== *)
theory Cycle
  imports Models
begin

text \<open>
  \<open>_detect_cycle\<close> of \<open>flow/loader.py\<close>: the iterative white/grey/black depth-first search over
  the edges that no loop bound excuses, with its explicit stack, and the proof that it reports
  a cycle exactly when there is one.
\<close>

section \<open>The search\<close>

datatype colour = White | Grey | Black

type_synonym colours = "(node_id \<times> colour) list"
type_synonym dfs_entry = "node_id \<times> nat \<times> node_id list"

definition real_edge :: "edge_def \<Rightarrow> bool" where
  "real_edge e = (loop_max e = None \<and> src e \<notin> {IN_NODE_ID, OUT_NODE_ID} \<and> dst e \<notin> {IN_NODE_ID, OUT_NODE_ID})"

definition cycle_adj :: "edge_def list \<Rightarrow> node_id \<Rightarrow> node_id list" where
  "cycle_adj es n = map dst (filter (\<lambda>e. real_edge e \<and> src e = n) es)"

text \<open>\<open>color.get(n, BLACK)\<close>: a node the workflow does not declare counts as finished.\<close>

definition colour_of :: "colours \<Rightarrow> node_id \<Rightarrow> colour" where
  "colour_of col n = (case map_of col n of None \<Rightarrow> Black | Some c \<Rightarrow> c)"

definition from_first :: "node_id \<Rightarrow> node_id list \<Rightarrow> node_id list" where
  "from_first n path = dropWhile (\<lambda>m. m \<noteq> n) path"

definition whites :: "colours \<Rightarrow> node_id set" where
  "whites col = {n. map_of col n = Some White}"

lemma finite_whites [simp]: "finite (whites col)"
  by (rule finite_subset [of _ "fst ` set col"]) (auto simp: whites_def dest: map_of_SomeD intro: rev_image_eqI)

lemma whites_update: "c \<noteq> White \<Longrightarrow> whites (AList.update n c col) = whites col - {n}"
  by (auto simp: whites_def update_conv)

definition entry_left :: "(node_id \<Rightarrow> node_id list) \<Rightarrow> dfs_entry \<Rightarrow> nat" where
  "entry_left adj e = (case e of (n, i, path) \<Rightarrow> Suc (length (adj n) - i))"

text \<open>The \<open>while stack\<close> loop, the top of the stack first: \<open>Inl\<close> is the early return of a cycle,
  \<open>Inr\<close> the colours when the stack is empty.\<close>

function dfs :: "(node_id \<Rightarrow> node_id list) \<Rightarrow> colours \<Rightarrow> dfs_entry list \<Rightarrow> node_id list + colours" where
  "dfs adj col [] = Inr col"
| "dfs adj col ((n, i, path) # stack) =
     (if i < length (adj n)
      then (if colour_of col (adj n ! i) = Grey then Inl (from_first (adj n ! i) path @ [adj n ! i])
            else if colour_of col (adj n ! i) = White
            then dfs adj (AList.update (adj n ! i) Grey col)
                   ((adj n ! i, 0, path @ [adj n ! i]) # (n, Suc i, path) # stack)
            else dfs adj col ((n, Suc i, path) # stack))
      else dfs adj (AList.update n Black col) stack)"
  by pat_completeness auto

termination
proof (relation "(\<lambda>(adj, col, stack). card (whites col)) <*mlex*>
    (\<lambda>(adj, col, stack). sum_list (map (entry_left adj) stack)) <*mlex*> {}", goal_cases)
  case 1
  show ?case by (intro wf_mlex) simp
next
  case (2 adj col n i path stack)
  then have "adj n ! i \<in> whites col" by (auto simp: whites_def colour_of_def split: option.splits)
  then have "card (whites col - {adj n ! i}) < card (whites col)" by (intro card_Diff1_less) simp_all
  then show ?case by (intro mlex_less) (simp add: whites_update)
next
  case (3 adj col n i path stack)
  have "((adj, col, (n, Suc i, path) # stack), adj, col, (n, i, path) # stack)
      \<in> (\<lambda>(adj, col, stack). sum_list (map (entry_left adj) stack)) <*mlex*> {}"
    using 3 by (intro mlex_less) (simp add: entry_left_def)
  then show ?case by (rule mlex_leq [rotated]) simp
next
  case (4 adj col n i path stack)
  have "((adj, AList.update n Black col, stack), adj, col, (n, i, path) # stack)
      \<in> (\<lambda>(adj, col, stack). sum_list (map (entry_left adj) stack)) <*mlex*> {}"
    using 4 by (intro mlex_less) (simp add: entry_left_def)
  moreover have "card (whites (AList.update n Black col)) \<le> card (whites col)"
    by (simp add: whites_update card_mono)
  ultimately show ?case by (auto simp: mlex_prod_def le_less)
qed

declare dfs.simps(2) [simp del]

fun dfs_starts :: "(node_id \<Rightarrow> node_id list) \<Rightarrow> colours \<Rightarrow> node_id list \<Rightarrow> node_id list option" where
  "dfs_starts adj col [] = None"
| "dfs_starts adj col (s # ss) =
     (if map_of col s \<noteq> Some White then dfs_starts adj col ss
      else (case dfs adj (AList.update s Grey col) [(s, 0, [s])] of
              Inl cycle \<Rightarrow> Some cycle
            | Inr col' \<Rightarrow> dfs_starts adj col' ss))"

definition detect_cycle :: "workflow_def \<Rightarrow> node_id list option" where
  "detect_cycle w =
     (let ids = map nd_id (wf_nodes w)
      in dfs_starts (cycle_adj (wf_edges w)) (dict_of (map (\<lambda>n. (n, White)) ids)) ids)"

section \<open>Correctness of the search\<close>

definition edge_rel :: "(node_id \<Rightarrow> node_id list) \<Rightarrow> (node_id \<times> node_id) set" where
  "edge_rel adj = {(a, b). b \<in> set (adj a)}"

definition is_cycle :: "(node_id \<Rightarrow> node_id list) \<Rightarrow> node_id list \<Rightarrow> bool" where
  "is_cycle adj c \<longleftrightarrow> 2 \<le> length c \<and> hd c = last c \<and> successively (\<lambda>a b. b \<in> set (adj a)) c"

fun stack_ok :: "(node_id \<Rightarrow> node_id list) \<Rightarrow> colours \<Rightarrow> node_id option \<Rightarrow> dfs_entry list \<Rightarrow> bool" where
  "stack_ok adj col up [] = True"
| "stack_ok adj col up ((n, i, path) # rest) \<longleftrightarrow>
     path = rev (n # map fst rest) \<and>
     (\<forall>j < i. j < length (adj n) \<longrightarrow> colour_of col (adj n ! j) = Black \<or> up = Some (adj n ! j)) \<and>
     (rest \<noteq> [] \<longrightarrow> n \<in> set (adj (fst (hd rest)))) \<and>
     stack_ok adj col (Some n) rest"

definition blacks :: "colours \<Rightarrow> node_id set" where
  "blacks col = {n. map_of col n = Some Black}"

definition dfs_inv :: "(node_id \<Rightarrow> node_id list) \<Rightarrow> colours \<Rightarrow> dfs_entry list \<Rightarrow> bool" where
  "dfs_inv adj col stack \<longleftrightarrow>
     distinct (map fst stack) \<and> (\<forall>n. map_of col n = Some Grey \<longleftrightarrow> n \<in> fst ` set stack) \<and>
     stack_ok adj col None stack \<and>
     (\<forall>b \<in> blacks col. \<forall>s \<in> set (adj b). colour_of col s = Black) \<and>
     acyclic (edge_rel adj \<inter> blacks col \<times> blacks col)"

lemma stack_ok_path: "stack_ok adj col up stack \<Longrightarrow> successively (\<lambda>a b. b \<in> set (adj a)) (rev (map fst stack))"
proof (induction stack arbitrary: up)
  case (Cons e rest)
  obtain n i path where e: "e = (n, i, path)" by (cases e)
  have "successively (\<lambda>a b. b \<in> set (adj a)) (rev (map fst rest))" using Cons e by auto
  moreover have "rest \<noteq> [] \<Longrightarrow> n \<in> set (adj (last (rev (map fst rest))))"
    using Cons.prems e by (simp add: last_rev hd_map)
  ultimately show ?case by (auto simp: e successively_append_iff)
qed simp

lemma stack_ok_mono:
  assumes "stack_ok adj col up stack" and "\<And>x. colour_of col x = Black \<Longrightarrow> colour_of col' x = Black"
  shows "stack_ok adj col' up stack"
  using assms by (induction adj col up stack rule: stack_ok.induct) fastforce+

lemma stack_ok_above:
  assumes "stack_ok adj col (Some n) stack" and "colour_of col n = Black"
  shows "stack_ok adj col up stack"
  using assms by (cases stack) auto

lemma acyclic_add_sink:
  assumes "acyclic (R \<inter> B \<times> B)" and "v \<notin> B" and "\<And>b. b \<in> B \<Longrightarrow> (b, v) \<notin> R" and "(v, v) \<notin> R"
  shows "acyclic (R \<inter> insert v B \<times> insert v B)"
proof -
  have "R \<inter> insert v B \<times> insert v B \<subseteq> (R \<inter> B \<times> B) \<union> {v} \<times> B" using assms(3,4) by auto
  moreover have "acyclic ((R \<inter> B \<times> B) \<union> {v} \<times> B)"
  proof (rule acyclicI, rule allI, rule notI)
    let ?S = "(R \<inter> B \<times> B) \<union> {v} \<times> B"
    fix x assume loop: "(x, x) \<in> ?S\<^sup>+"
    have inB: "b \<in> B" if "(a, b) \<in> ?S\<^sup>+" for a b using that by (induction rule: trancl_induct) auto
    have stay: "(a, b) \<in> (R \<inter> B \<times> B)\<^sup>+" if "(a, b) \<in> ?S\<^sup>+" "a \<in> B" for a b
      using that
    proof (induction rule: trancl_induct)
      case (base b)
      then show ?case using assms(2) by auto
    next
      case (step b c)
      have "b \<in> B" using inB [OF step.hyps(1)] .
      then have "(b, c) \<in> R \<inter> B \<times> B" using step.hyps(2) assms(2) by auto
      then show ?case using step by (meson trancl_into_trancl)
    qed
    have "x \<in> B" using inB [OF loop] .
    then show False using stay [OF loop] assms(1) by (simp add: acyclic_def)
  qed
  ultimately show ?thesis by (rule acyclic_subset [rotated])
qed

lemma colour_update: "colour_of (AList.update n c col) x = (if x = n then c else colour_of col x)"
  by (simp add: colour_of_def update_conv)

lemma blacks_update: "blacks (AList.update n c col) = (if c = Black then insert n (blacks col) else blacks col - {n})"
  by (auto simp: blacks_def update_conv)

lemma dfs_correct:
  assumes "dfs_inv adj col stack" and "fst ` set stack \<subseteq> fst ` set col"
  shows "(case dfs adj col stack of Inl c \<Rightarrow> is_cycle adj c
     | Inr col' \<Rightarrow> dfs_inv adj col' [] \<and> whites col' \<subseteq> whites col \<and> fst ` set col' = fst ` set col)"
  using assms
proof (induction adj col stack rule: dfs.induct)
  case (1 adj col)
  then show ?case by simp
next
  case (2 adj col n i path stack)
  note inv = "2.prems"(1)
  have path: "path = rev (n # map fst stack)" using inv by (simp add: dfs_inv_def)
  show ?case
  proof (cases "i < length (adj n)")
    case True
    let ?x = "adj n ! i"
    have edge: "?x \<in> set (adj n)" using True by simp
    show ?thesis
    proof (cases "colour_of col ?x")
      case Grey
      then have "map_of col ?x = Some Grey" by (auto simp: colour_of_def split: option.splits)
      then have mem: "?x \<in> set path" using inv by (auto simp: dfs_inv_def path)
      obtain us vs where split: "path = us @ ?x # vs" "?x \<notin> set us" using split_list_first [OF mem] by blast
      then have ff: "from_first ?x path = ?x # vs" by (simp add: from_first_def dropWhile_append)
      have "successively (\<lambda>a b. b \<in> set (adj a)) path"
        using stack_ok_path [of adj col None "(n, i, path) # stack"] inv by (simp add: dfs_inv_def path)
      then have "successively (\<lambda>a b. b \<in> set (adj a)) (?x # vs)"
        using split(1) by (simp add: successively_append_iff)
      moreover have "last (?x # vs) = n" using split(1) path by (metis last_appendR last_rev list.sel(1) list.discI)
      ultimately have "successively (\<lambda>a b. b \<in> set (adj a)) ((?x # vs) @ [?x])"
        using edge by (simp only: successively_append_iff) simp
      then have "is_cycle adj ((?x # vs) @ [?x])" by (simp add: is_cycle_def)
      then show ?thesis using True Grey ff by (simp add: dfs.simps(2))
    next
      case White
      let ?col = "AList.update ?x Grey col"
      let ?stack = "(?x, 0, path @ [?x]) # (n, Suc i, path) # stack"
      have xw: "map_of col ?x = Some White" using White by (auto simp: colour_of_def split: option.splits)
      then have new: "?x \<notin> fst ` set ((n, i, path) # stack)" using inv by (metis colour.distinct(1) dfs_inv_def option.inject)
      have "stack_ok adj ?col (Some n) stack"
        by (rule stack_ok_mono [of _ col]) (use inv White in \<open>auto simp: dfs_inv_def colour_update\<close>)
      moreover have "\<forall>j < Suc i. j < length (adj n) \<longrightarrow> colour_of ?col (adj n ! j) = Black \<or> Some ?x = Some (adj n ! j)"
        using inv by (auto simp: dfs_inv_def colour_update less_Suc_eq)
      ultimately have so: "stack_ok adj ?col None ?stack"
        using inv edge path by (auto simp: dfs_inv_def)
      have "blacks ?col = blacks col" using xw by (auto simp: blacks_update blacks_def)
      then have "dfs_inv adj ?col ?stack"
        using inv so new White unfolding dfs_inv_def
        by (auto simp: update_conv colour_update)
      moreover have "fst ` set ?stack \<subseteq> fst ` set ?col"
        using "2.prems"(2) by (auto simp: dom_update)
      ultimately have IH: "case dfs adj ?col ?stack of Inl c \<Rightarrow> is_cycle adj c
         | Inr col' \<Rightarrow> dfs_inv adj col' [] \<and> whites col' \<subseteq> whites ?col \<and> fst ` set col' = fst ` set ?col"
        by (intro "2.IH"(1) [OF True _ White]) (simp_all add: White)
      have w: "whites ?col \<subseteq> whites col" by (auto simp: whites_update)
      have k: "fst ` set ?col = fst ` set col" using xw by (force simp: dom_update dest: map_of_SomeD)
      have "dfs adj col ((n, i, path) # stack) = dfs adj ?col ?stack" using True White by (simp add: dfs.simps(2))
      then show ?thesis using IH w k by (auto split: sum.splits)
    next
      case Black
      have "dfs_inv adj col ((n, Suc i, path) # stack)"
        using inv Black by (auto simp: dfs_inv_def less_Suc_eq)
      then show ?thesis using "2.IH"(2) [OF True] "2.prems"(2) Black True by (simp add: dfs.simps(2))
    qed
  next
    case False
    let ?col = "AList.update n Black col"
    have grey: "map_of col n = Some Grey" using inv by (simp add: dfs_inv_def)
    have blackn: "n \<notin> blacks col" using grey by (simp add: blacks_def)
    have done_n: "colour_of col s = Black" if "s \<in> set (adj n)" for s
      using that inv False by (auto simp: dfs_inv_def in_set_conv_nth)
    have loopfree: "(n, n) \<notin> edge_rel adj"
      using done_n [of n] grey by (auto simp: edge_rel_def colour_of_def)
    have closed: "(b, n) \<notin> edge_rel adj" if "b \<in> blacks col" for b
    proof
      assume "(b, n) \<in> edge_rel adj"
      then have "n \<in> set (adj b)" by (simp add: edge_rel_def)
      moreover have "\<forall>s \<in> set (adj b). colour_of col s = Black" using inv that by (simp add: dfs_inv_def)
      ultimately have "colour_of col n = Black" by blast
      then show False using grey by (simp add: colour_of_def)
    qed
    have "acyclic (edge_rel adj \<inter> blacks ?col \<times> blacks ?col)"
      using acyclic_add_sink [of "edge_rel adj" "blacks col" n] inv blackn closed loopfree
      by (simp add: dfs_inv_def blacks_update)
    moreover have "stack_ok adj ?col None stack"
    proof (rule stack_ok_above [of _ _ n])
      show "stack_ok adj ?col (Some n) stack"
        by (rule stack_ok_mono [of _ col]) (use inv in \<open>auto simp: dfs_inv_def colour_update\<close>)
    qed (simp add: colour_update)
    moreover have "\<forall>b \<in> blacks ?col. \<forall>s \<in> set (adj b). colour_of ?col s = Black"
    proof (intro ballI)
      fix b s assume b: "b \<in> blacks ?col" and s: "s \<in> set (adj b)"
      have "colour_of col s = Black"
      proof (cases "b = n")
        case True
        then show ?thesis using done_n s by simp
      next
        case False
        then have "b \<in> blacks col" using b by (simp add: blacks_update)
        then show ?thesis using inv s by (simp add: dfs_inv_def)
      qed
      then show "colour_of ?col s = Black" by (simp add: colour_update)
    qed
    moreover have "distinct (map fst stack)" "n \<notin> fst ` set stack" using inv by (simp_all add: dfs_inv_def)
    moreover have "map_of ?col m = Some Grey \<longleftrightarrow> m \<in> fst ` set stack" for m
      using inv \<open>n \<notin> fst ` set stack\<close> by (auto simp: dfs_inv_def update_conv)
    ultimately have "dfs_inv adj ?col stack" by (simp add: dfs_inv_def)
    moreover have "fst ` set stack \<subseteq> fst ` set ?col" using "2.prems"(2) by (auto simp: dom_update)
    ultimately have IH: "case dfs adj ?col stack of Inl c \<Rightarrow> is_cycle adj c
       | Inr col' \<Rightarrow> dfs_inv adj col' [] \<and> whites col' \<subseteq> whites ?col \<and> fst ` set col' = fst ` set ?col"
      by (intro "2.IH"(3) [OF False])
    have w: "whites ?col \<subseteq> whites col" by (auto simp: whites_update)
    have k: "fst ` set ?col = fst ` set col" using grey by (force simp: dom_update dest: map_of_SomeD)
    have "dfs adj col ((n, i, path) # stack) = dfs adj ?col stack" using False by (simp add: dfs.simps(2))
    then show ?thesis using IH w k by (auto split: sum.splits)
  qed
qed


lemma dfs_inv_start:
  assumes "dfs_inv adj col []" and "map_of col s = Some White"
  shows "dfs_inv adj (AList.update s Grey col) [(s, 0, [s])]"
proof -
  have "blacks (AList.update s Grey col) = blacks col" using assms(2) by (auto simp: blacks_update blacks_def)
  moreover have "colour_of col s = White" using assms(2) by (simp add: colour_of_def)
  ultimately show ?thesis
    using assms unfolding dfs_inv_def by (auto simp: update_conv colour_update)
qed

lemma dfs_starts_correct:
  assumes "dfs_inv adj col []" and "set ss \<subseteq> fst ` set col"
  shows "(case dfs_starts adj col ss of Some c \<Rightarrow> is_cycle adj c
     | None \<Rightarrow> (whites col \<subseteq> set ss \<longrightarrow> acyclic (edge_rel adj \<inter> fst ` set col \<times> fst ` set col)))"
  using assms
proof (induction ss arbitrary: col)
  case Nil
  have "fst ` set col \<subseteq> blacks col" if "whites col = {}"
  proof
    fix n assume "n \<in> fst ` set col"
    then obtain c where c: "map_of col n = Some c" by (metis map_of_eq_None_iff not_None_eq)
    moreover have "c \<noteq> White" using that c by (auto simp: whites_def)
    moreover have "c \<noteq> Grey" using Nil.prems(1) c by (auto simp: dfs_inv_def)
    ultimately show "n \<in> blacks col" by (cases c) (simp_all add: blacks_def)
  qed
  moreover have "blacks col \<subseteq> fst ` set col" by (auto simp: blacks_def dest: map_of_SomeD intro: rev_image_eqI)
  ultimately have "whites col = {} \<Longrightarrow> fst ` set col = blacks col" by blast
  then show ?case using Nil.prems(1) by (auto simp: dfs_inv_def)
next
  case (Cons s ss)
  show ?case
  proof (cases "map_of col s = Some White")
    case False
    then have "whites col \<subseteq> set (s # ss) \<Longrightarrow> whites col \<subseteq> set ss" by (auto simp: whites_def)
    then show ?thesis using Cons.IH [OF Cons.prems(1)] Cons.prems(2) False by (auto split: option.splits)
  next
    case True
    let ?col = "AList.update s Grey col"
    have keys: "fst ` set ?col = fst ` set col" using Cons.prems(2) by (auto simp: dom_update)
    have r: "case dfs adj ?col [(s, 0, [s])] of Inl c \<Rightarrow> is_cycle adj c
       | Inr col' \<Rightarrow> dfs_inv adj col' [] \<and> whites col' \<subseteq> whites ?col \<and> fst ` set col' = fst ` set ?col"
      by (rule dfs_correct [OF dfs_inv_start [OF Cons.prems(1) True]]) (use Cons.prems(2) keys in auto)
    show ?thesis
    proof (cases "dfs adj ?col [(s, 0, [s])]")
      case (Inl c)
      then show ?thesis using r True by simp
    next
      case (Inr col')
      then have col': "dfs_inv adj col' []" "whites col' \<subseteq> whites col - {s}" "fst ` set col' = fst ` set col"
        using r keys by (auto simp: whites_update)
      then have "whites col \<subseteq> set (s # ss) \<Longrightarrow> whites col' \<subseteq> set ss" by auto
      then show ?thesis
        using Cons.IH [OF col'(1)] Cons.prems(2) col'(3) True Inr by (auto split: option.splits)
    qed
  qed
qed

lemma dict_of_white:
  "map_of (dict_of (map (\<lambda>n. (n, White)) ns)) n = (if n \<in> set ns then Some White else None)"
proof -
  have "map_of (fold (\<lambda>(k, v) d. AList.update k v d) (map (\<lambda>n. (n, White)) ns) d) n =
      (if n \<in> set ns then Some White else map_of d n)" for d
    by (induction ns arbitrary: d) (auto simp: update_conv)
  then show ?thesis by (simp add: dict_of_def)
qed

lemma detect_cycle_cases:
  "case detect_cycle w of Some c \<Rightarrow> is_cycle (cycle_adj (wf_edges w)) c
   | None \<Rightarrow> acyclic (edge_rel (cycle_adj (wf_edges w)) \<inter> nd_id ` set (wf_nodes w) \<times> nd_id ` set (wf_nodes w))"
proof -
  let ?ids = "map nd_id (wf_nodes w)"
  let ?col = "dict_of (map (\<lambda>n. (n, White)) ?ids)"
  have "blacks ?col = {}" by (auto simp: blacks_def dict_of_white simp del: map_map split: if_splits)
  then have inv: "dfs_inv (cycle_adj (wf_edges w)) ?col []"
    by (simp add: dfs_inv_def dict_of_white acyclic_def del: map_map)
  have keys: "fst ` set ?col = set ?ids" by (simp only: dict_of_keys) force
  have "whites ?col \<subseteq> set ?ids" by (auto simp: whites_def dict_of_white simp del: map_map split: if_splits)
  then show ?thesis
    using dfs_starts_correct [OF inv, of ?ids] keys unfolding detect_cycle_def Let_def
    by (auto split: option.splits)
qed

lemma edge_rel_cycle_adj: "edge_rel (cycle_adj es) = {(src e, dst e) | e. e \<in> set es \<and> real_edge e}"
  by (auto simp: edge_rel_def cycle_adj_def)

section \<open>Properties\<close>

text \<open>Cycle detection is sound: a reported path really is a cycle, its consecutive nodes are
  joined by unbounded edges of the workflow and it ends where it starts.\<close>

theorem reported_cycle_is_real:
  assumes "detect_cycle w = Some c"
  shows "2 \<le> length c \<and> hd c = last c \<and>
    successively (\<lambda>a b. \<exists>e \<in> set (wf_edges w). real_edge e \<and> src e = a \<and> dst e = b) c"
proof -
  have "is_cycle (cycle_adj (wf_edges w)) c" using detect_cycle_cases [of w] assms by simp
  then show ?thesis by (auto simp: is_cycle_def cycle_adj_def elim!: successively_mono)
qed

lemma reported_cycle_is_real_witness:
  "\<exists>c. detect_cycle (workflow_default '''' '''' '''' [node_default ''a'' Script] [edge_default ''a'' ''a'']) = Some c
     \<and> hd c = last c"
proof -
  have "detect_cycle (workflow_default '''' '''' '''' [node_default ''a'' Script] [edge_default ''a'' ''a'']) = Some [''a'', ''a'']"
    by (simp add: detect_cycle_def workflow_default_def node_default_def edge_default_def Let_def dict_of_def
        dfs.simps(2) cycle_adj_def real_edge_def IN_NODE_ID_def OUT_NODE_ID_def colour_of_def from_first_def)
  then show ?thesis using reported_cycle_is_real by blast
qed

text \<open>Cycle detection is complete: when the search finds nothing, the unbounded edges between
  the declared nodes form no cycle, so forward execution cannot revisit a node.\<close>

theorem no_cycle_means_acyclic:
  assumes "detect_cycle w = None"
  shows "acyclic ({(src e, dst e) | e. e \<in> set (wf_edges w) \<and> real_edge e}
    \<inter> nd_id ` set (wf_nodes w) \<times> nd_id ` set (wf_nodes w))"
  using detect_cycle_cases [of w] assms by (simp add: edge_rel_cycle_adj)

lemma no_cycle_means_acyclic_witness:
  "acyclic ({(src e, dst e) | e. e \<in> {edge_default ''a'' ''b''} \<and> real_edge e} \<inter> {''a'', ''b''} \<times> {''a'', ''b''})"
proof -
  let ?w = "workflow_default '''' '''' '''' [node_default ''a'' Script, node_default ''b'' Script] [edge_default ''a'' ''b'']"
  have "detect_cycle ?w = None"
    by (simp add: detect_cycle_def workflow_default_def node_default_def edge_default_def Let_def dict_of_def
        dfs.simps(2) cycle_adj_def real_edge_def IN_NODE_ID_def OUT_NODE_ID_def colour_of_def)
  from no_cycle_means_acyclic [OF this] show ?thesis
    by (simp add: workflow_default_def node_default_def)
qed

end
