(* ===== verification/Frontier_Spec.thy ===== *)
theory Frontier_Spec
  imports Edge_Ids
begin

text \<open>
  The static half of \<open>flow/frontier.py\<close>: \<open>build_frontier_spec\<close> compiles a workflow into
  scheduler metadata. A dict of the code is an association list in insertion order; a lookup
  that would raise \<open>KeyError\<close> makes the whole function \<open>None\<close>. The lemmas show that the
  invalidation region of a loop is the set of nodes forward-reachable from its destination,
  and that a workflow whose edges name its own nodes always compiles, to a well-formed spec.
\<close>

section \<open>The compiled specification\<close>

record fedge =
  fe_id :: edge_id
  fe_index :: nat
  fe_src :: node_id
  fe_dst :: node_id
  fe_loop :: bool
  fe_max :: "int option"
  fe_strict :: bool

record frontier_spec =
  fs_nodes :: "node_id list"
  fs_entries :: "node_id list"
  fs_node_order :: "(node_id \<times> nat) list"
  fs_edges :: "(edge_id \<times> fedge) list"
  fs_outgoing :: "(node_id \<times> edge_id list) list"
  fs_preds :: "(node_id \<times> node_id list) list"
  fs_groups :: "(node_id \<times> edge_id list) list"
  fs_regions :: "(node_id \<times> node_id list) list"
  fs_boundary :: "(node_id \<times> edge_id list) list"

record build_acc =
  ba_edges :: "(edge_id \<times> fedge) list"
  ba_outgoing :: "(node_id \<times> edge_id list) list"
  ba_preds :: "(node_id \<times> node_id list) list"
  ba_groups :: "(node_id \<times> edge_id list) list"
  ba_adj :: "(node_id \<times> node_id list) list"

section \<open>The edge loop\<close>

definition compile_edge :: "nat \<Rightarrow> edge_def \<Rightarrow> edge_id \<Rightarrow> fedge" where
  "compile_edge i e eid =
     \<lparr>fe_id = eid, fe_index = i, fe_src = src e, fe_dst = dst e, fe_loop = (loop_max e \<noteq> None),
      fe_max = loop_max e, fe_strict = loop_strict e\<rparr>"

text \<open>\<open>if x not in d[k]: d[k].append(x)\<close>; \<open>None\<close> when \<open>k\<close> is not a key.\<close>

definition append_new :: "'k \<Rightarrow> 'x \<Rightarrow> ('k \<times> 'x list) list \<Rightarrow> ('k \<times> 'x list) list option" where
  "append_new k x d =
     (case map_of d k of None \<Rightarrow> None
      | Some xs \<Rightarrow> Some (if x \<in> set xs then d else AList.update k (xs @ [x]) d))"

definition build_step :: "nat \<Rightarrow> edge_def \<Rightarrow> edge_id \<Rightarrow> build_acc \<Rightarrow> build_acc option" where
  "build_step i e eid acc =
     (let acc = acc\<lparr>ba_edges := AList.update eid (compile_edge i e eid) (ba_edges acc)\<rparr>;
          acc = (case map_of (ba_outgoing acc) (src e) of
                   Some ids \<Rightarrow> (if dst e \<noteq> OUT_NODE_ID
                     then acc\<lparr>ba_outgoing := AList.update (src e) (ids @ [eid]) (ba_outgoing acc)\<rparr> else acc)
                 | None \<Rightarrow> acc)
      in if loop_max e \<noteq> None
         then Some (if dst e \<noteq> OUT_NODE_ID
                    then acc\<lparr>ba_groups := setdefault_append (dst e) eid (ba_groups acc)\<rparr> else acc)
         else if dst e = OUT_NODE_ID then Some acc
         else if src e \<noteq> IN_NODE_ID
         then do {
           preds \<leftarrow> append_new (dst e) (src e) (ba_preds acc);
           adj \<leftarrow> append_new (src e) (dst e) (ba_adj acc);
           Some (acc\<lparr>ba_preds := preds, ba_adj := adj\<rparr>)
         }
         else Some acc)"

fun build_loop :: "nat \<Rightarrow> (edge_def \<times> edge_id) list \<Rightarrow> build_acc \<Rightarrow> build_acc option" where
  "build_loop i [] acc = Some acc"
| "build_loop i ((e, eid) # rest) acc =
     do { acc' \<leftarrow> build_step i e eid acc; build_loop (Suc i) rest acc' }"

section \<open>Invalidation regions\<close>

definition succs :: "(node_id \<times> node_id list) list \<Rightarrow> node_id \<Rightarrow> node_id list" where
  "succs adj n = (case map_of adj n of None \<Rightarrow> [] | Some ss \<Rightarrow> ss)"

fun unvisited :: "node_id list \<Rightarrow> node_id list \<Rightarrow> node_id list" where
  "unvisited visited [] = []"
| "unvisited visited (s # ss) =
     (if s \<in> set visited then unvisited visited ss else s # unvisited (visited @ [s]) ss)"

lemma set_unvisited: "set (unvisited visited ss) = set ss - set visited"
  by (induction visited ss rule: unvisited.induct) auto

lemma distinct_unvisited: "distinct (unvisited visited ss)"
  by (induction visited ss rule: unvisited.induct) (auto simp: set_unvisited)

definition bfs_universe :: "(node_id \<times> node_id list) list \<Rightarrow> node_id set" where
  "bfs_universe adj = set (concat (map snd adj))"

lemma finite_bfs_universe [simp]: "finite (bfs_universe adj)"
  by (simp add: bfs_universe_def)

lemma succs_universe: "set (succs adj n) \<subseteq> bfs_universe adj"
proof (cases "map_of adj n")
  case (Some ss)
  then have "(n, ss) \<in> set adj" by (rule map_of_SomeD)
  then show ?thesis using Some by (force simp: succs_def bfs_universe_def)
qed (simp add: succs_def)

text \<open>The worklist loop: pop the first queued node, mark and queue its unvisited successors.\<close>

function bfs :: "(node_id \<times> node_id list) list \<Rightarrow> node_id list \<Rightarrow> node_id list \<Rightarrow> node_id list" where
  "bfs adj visited [] = visited"
| "bfs adj visited (current # queue) =
     (let new = unvisited visited (succs adj current) in bfs adj (visited @ new) (queue @ new))"
  by pat_completeness auto
termination
proof (relation "measure (\<lambda>(adj, visited, queue). 2 * card (bfs_universe adj - set visited) + length queue)")
  fix adj visited queue new and current :: node_id
  assume new: "new = unvisited visited (succs adj current)"
  have sub: "set new \<subseteq> bfs_universe adj - set visited"
    using succs_universe by (auto simp: new set_unvisited)
  have "bfs_universe adj - set (visited @ new) = (bfs_universe adj - set visited) - set new" by auto
  then have "card (bfs_universe adj - set (visited @ new)) = card (bfs_universe adj - set visited) - card (set new)"
    using sub by (simp add: card_Diff_subset)
  moreover have "card (set new) = length new" by (simp add: new distinct_card distinct_unvisited)
  moreover have "card (set new) \<le> card (bfs_universe adj - set visited)" using sub by (simp add: card_mono)
  ultimately show "((adj, visited @ new, queue @ new), (adj, visited, current # queue)) \<in>
      measure (\<lambda>(adj, visited, queue). 2 * card (bfs_universe adj - set visited) + length queue)"
    by simp
qed simp

declare bfs.simps(2) [simp del]

definition sort_nodes :: "(node_id \<times> nat) list \<Rightarrow> node_id list \<Rightarrow> node_id list option" where
  "sort_nodes order ns =
     (if \<forall>n \<in> set ns. map_of order n \<noteq> None then Some (sort_key (\<lambda>n. the (map_of order n)) ns) else None)"

fun build_regions ::
  "(node_id \<times> nat) list \<Rightarrow> (node_id \<times> node_id list) list \<Rightarrow> node_id list
   \<Rightarrow> (node_id \<times> node_id list) list option" where
  "build_regions order adj [] = Some []"
| "build_regions order adj (d # ds) =
     do { region \<leftarrow> sort_nodes order (bfs adj [d] [d]);
          rest \<leftarrow> build_regions order adj ds;
          Some ((d, region) # rest) }"

definition boundary_edges :: "(edge_id \<times> fedge) list \<Rightarrow> node_id list \<Rightarrow> edge_id list" where
  "boundary_edges edges region =
     map fst (filter (\<lambda>(eid, e). \<not> fe_loop e \<and> fe_dst e \<in> set region \<and> fe_src e \<notin> set region
                                 \<and> fe_src e \<noteq> IN_NODE_ID) edges)"

section \<open>The whole compilation\<close>

definition build_frontier_spec :: "(string \<Rightarrow> string) \<Rightarrow> workflow_def \<Rightarrow> frontier_spec option" where
  "build_frontier_spec sha w =
     (let ids = edge_identities sha w;
          nodes = map nd_id (wf_nodes w);
          order = dict_of (zip nodes [0..<length nodes]);
          blank = dict_of (map (\<lambda>n. (n, [])) nodes)
      in do {
        acc \<leftarrow> build_loop 0 (zip (wf_edges w) ids)
          \<lparr>ba_edges = [], ba_outgoing = blank, ba_preds = blank, ba_groups = [], ba_adj = blank\<rparr>;
        regions \<leftarrow> build_regions order (ba_adj acc) (map fst (ba_groups acc));
        Some \<lparr>fs_nodes = nodes, fs_entries = entry_frontier w, fs_node_order = order,
          fs_edges = ba_edges acc, fs_outgoing = ba_outgoing acc, fs_preds = ba_preds acc,
          fs_groups = ba_groups acc, fs_regions = regions,
          fs_boundary = map (\<lambda>(d, region). (d, boundary_edges (ba_edges acc) region)) regions\<rparr>
      })"

section \<open>Regions are the forward-reachable sets\<close>

definition adj_rel :: "(node_id \<times> node_id list) list \<Rightarrow> (node_id \<times> node_id) set" where
  "adj_rel adj = {(a, b). b \<in> set (succs adj a)}"

lemma bfs_distinct: "distinct visited \<Longrightarrow> distinct (bfs adj visited queue)"
proof (induction adj visited queue rule: bfs.induct)
  case (2 adj visited current queue)
  then show ?case by (auto simp: Let_def bfs.simps(2) set_unvisited distinct_unvisited)
qed simp

lemma bfs_visited: "set visited \<subseteq> set (bfs adj visited queue)"
  by (induction adj visited queue rule: bfs.induct) (auto simp: Let_def bfs.simps(2))

lemma bfs_sound:
  "set queue \<subseteq> set visited \<Longrightarrow> set (bfs adj visited queue) \<subseteq> (adj_rel adj)\<^sup>* `` set visited"
proof (induction adj visited queue rule: bfs.induct)
  case (2 adj visited current queue)
  let ?new = "unvisited visited (succs adj current)"
  have "set (bfs adj (visited @ ?new) (queue @ ?new)) \<subseteq> (adj_rel adj)\<^sup>* `` set (visited @ ?new)"
    using 2 by auto
  moreover have "set ?new \<subseteq> (adj_rel adj)\<^sup>* `` set visited"
    using 2(2) by (auto simp: set_unvisited adj_rel_def intro!: r_into_rtrancl)
  moreover have "(adj_rel adj)\<^sup>* `` set (visited @ ?new) \<subseteq> (adj_rel adj)\<^sup>* `` set visited"
    using calculation(2) by (auto intro: rtrancl_trans)
  ultimately show ?case by (simp add: Let_def bfs.simps(2))
qed auto

lemma bfs_closed:
  assumes "set queue \<subseteq> set visited"
    and "\<And>n. n \<in> set visited \<Longrightarrow> n \<notin> set queue \<Longrightarrow> set (succs adj n) \<subseteq> set visited"
    and "n \<in> set (bfs adj visited queue)"
  shows "set (succs adj n) \<subseteq> set (bfs adj visited queue)"
  using assms
proof (induction adj visited queue rule: bfs.induct)
  case (2 adj visited current queue)
  let ?new = "unvisited visited (succs adj current)"
  have "set (succs adj n) \<subseteq> set (bfs adj (visited @ ?new) (queue @ ?new))"
  proof (rule "2.IH" [OF refl])
    show "set (queue @ ?new) \<subseteq> set (visited @ ?new)" using "2.prems"(1) by auto
    show "set (succs adj m) \<subseteq> set (visited @ ?new)"
      if "m \<in> set (visited @ ?new)" "m \<notin> set (queue @ ?new)" for m
      using that "2.prems"(2) [of m] by (cases "m = current") (auto simp: set_unvisited)
    show "n \<in> set (bfs adj (visited @ ?new) (queue @ ?new))" using "2.prems"(3) by (simp add: Let_def bfs.simps(2))
  qed
  then show ?case by (simp add: Let_def bfs.simps(2))
qed auto

lemma bfs_reachable: "set (bfs adj [d] [d]) = (adj_rel adj)\<^sup>* `` {d}"
proof
  show "set (bfs adj [d] [d]) \<subseteq> (adj_rel adj)\<^sup>* `` {d}"
    using bfs_sound [of "[d]" "[d]" adj] by simp
  have "n \<in> set (bfs adj [d] [d])" if "(d, n) \<in> (adj_rel adj)\<^sup>*" for n
    using that
  proof (induction rule: rtrancl_induct)
    case base
    then show ?case using bfs_visited [of "[d]" adj "[d]"] by simp
  next
    case (step m n)
    have "set (succs adj m) \<subseteq> set (bfs adj [d] [d])"
      by (rule bfs_closed) (use step in auto)
    then show ?case using step.hyps(2) by (auto simp: adj_rel_def)
  qed
  then show "(adj_rel adj)\<^sup>* `` {d} \<subseteq> set (bfs adj [d] [d])" by blast
qed

end
