(* ===== verification/Frontier_Build.thy ===== *)
theory Frontier_Build
  imports Frontier_Spec
begin

text \<open>
  What \<open>build_frontier_spec\<close> produces: the tables of the compiled specification are the
  filters of the edge list they stand for, compilation never raises on a workflow whose edges
  name its own nodes (\<open>graph_ok\<close>), and its result is well formed (\<open>wf_spec\<close>), the
  hypothesis the scheduler's theorems start from.
\<close>

section \<open>What the compilation produces\<close>

definition forward_edge :: "edge_def \<Rightarrow> bool" where
  "forward_edge e = (loop_max e = None \<and> dst e \<noteq> OUT_NODE_ID \<and> src e \<noteq> IN_NODE_ID)"

definition edge_named :: "node_id set \<Rightarrow> edge_def \<Rightarrow> bool" where
  "edge_named N e = (src e \<in> insert IN_NODE_ID N \<and> dst e \<in> insert OUT_NODE_ID N)"

definition ids_out :: "(edge_def \<times> edge_id) list \<Rightarrow> node_id \<Rightarrow> edge_id list" where
  "ids_out es n = map snd (filter (\<lambda>(e, i). src e = n \<and> dst e \<noteq> OUT_NODE_ID) es)"

definition ids_loop :: "(edge_def \<times> edge_id) list \<Rightarrow> node_id \<Rightarrow> edge_id list" where
  "ids_loop es n = map snd (filter (\<lambda>(e, i). loop_max e \<noteq> None \<and> dst e = n \<and> dst e \<noteq> OUT_NODE_ID) es)"

definition preds_of :: "(edge_def \<times> edge_id) list \<Rightarrow> node_id \<Rightarrow> node_id set" where
  "preds_of es n = {src e | e i. (e, i) \<in> set es \<and> forward_edge e \<and> dst e = n}"

definition succs_of :: "(edge_def \<times> edge_id) list \<Rightarrow> node_id \<Rightarrow> node_id set" where
  "succs_of es n = {dst e | e i. (e, i) \<in> set es \<and> forward_edge e \<and> src e = n}"

definition compiled_edges :: "(edge_def \<times> edge_id) list \<Rightarrow> (edge_id \<times> fedge) list" where
  "compiled_edges es = map (\<lambda>(k, e, i). (i, compile_edge k e i)) (List.enumerate 0 es)"

definition acc_of :: "node_id set \<Rightarrow> (edge_def \<times> edge_id) list \<Rightarrow> build_acc \<Rightarrow> bool" where
  "acc_of N es acc \<longleftrightarrow>
     ba_edges acc = compiled_edges es \<and>
     (\<forall>n. map_of (ba_outgoing acc) n = (if n \<in> N then Some (ids_out es n) else None)) \<and>
     (\<forall>n. map_of (ba_groups acc) n = (if ids_loop es n = [] then None else Some (ids_loop es n))) \<and>
     distinct (map fst (ba_groups acc)) \<and>
     (\<forall>n. map_of (ba_preds acc) n = None \<longleftrightarrow> n \<notin> N) \<and>
     (\<forall>n. map_of (ba_adj acc) n = None \<longleftrightarrow> n \<notin> N) \<and>
     (\<forall>n ps. map_of (ba_preds acc) n = Some ps \<longrightarrow> set ps = preds_of es n) \<and>
     (\<forall>n ss. map_of (ba_adj acc) n = Some ss \<longrightarrow> set ss = succs_of es n)"

lemma compiled_edges_snoc:
  "compiled_edges (es @ [(e, i)]) = compiled_edges es @ [(i, compile_edge (length es) e i)]"
  by (simp add: compiled_edges_def enumerate_append_eq)

lemma keys_compiled: "map fst (compiled_edges es) = map snd es"
  by (rule nth_equalityI) (auto simp: compiled_edges_def nth_enumerate_eq split: prod.splits)

lemma ids_snoc:
  "ids_out (es @ [(e, i)]) n = ids_out es n @ (if src e = n \<and> dst e \<noteq> OUT_NODE_ID then [i] else [])"
  "ids_loop (es @ [(e, i)]) n =
     ids_loop es n @ (if loop_max e \<noteq> None \<and> dst e = n \<and> dst e \<noteq> OUT_NODE_ID then [i] else [])"
  by (simp_all add: ids_out_def ids_loop_def)

lemma preds_succs_snoc:
  "preds_of (es @ [(e, i)]) n = preds_of es n \<union> (if forward_edge e \<and> dst e = n then {src e} else {})"
  "succs_of (es @ [(e, i)]) n = succs_of es n \<union> (if forward_edge e \<and> src e = n then {dst e} else {})"
  by (auto simp: preds_of_def succs_of_def)

lemma append_new_Some:
  assumes "map_of d k = Some xs"
  obtains d' where "append_new k x d = Some d'"
    and "\<And>k'. map_of d' k' = None \<longleftrightarrow> map_of d k' = None"
    and "\<And>k' ys. map_of d' k' = Some ys \<Longrightarrow>
      (k' \<noteq> k \<and> map_of d k' = Some ys) \<or> (k' = k \<and> set ys = insert x (set xs))"
proof
  show "append_new k x d = Some (if x \<in> set xs then d else AList.update k (xs @ [x]) d)"
    using assms by (simp add: append_new_def)
qed (use assms in \<open>auto split: if_splits\<close>)

lemma build_step_acc:
  assumes acc: "acc_of N es acc" and fresh: "i \<notin> snd ` set es" and named: "edge_named N e"
    and N: "IN_NODE_ID \<notin> N" "OUT_NODE_ID \<notin> N"
  shows "\<exists>acc'. build_step (length es) e i acc = Some acc' \<and> acc_of N (es @ [(e, i)]) acc'"
proof -
  have "i \<notin> fst ` set (ba_edges acc)"
    using fresh acc keys_compiled [of es] unfolding acc_of_def by (metis list.set_map)
  then have edges: "AList.update i (compile_edge (length es) e i) (ba_edges acc) = compiled_edges (es @ [(e, i)])"
    using acc by (simp add: update_fresh compiled_edges_snoc acc_of_def)
  show ?thesis
  proof (cases "forward_edge e")
    case False
    then show ?thesis
      using acc edges named N
      by (auto simp: build_step_def Let_def acc_of_def forward_edge_def edge_named_def ids_snoc
          preds_succs_snoc map_of_setdefault_append split: option.splits)
  next
    case True
    then have mem: "src e \<in> N" "dst e \<in> N" "loop_max e = None" "dst e \<noteq> OUT_NODE_ID" "src e \<noteq> IN_NODE_ID"
      using named by (auto simp: forward_edge_def edge_named_def)
    obtain ps where ps: "map_of (ba_preds acc) (dst e) = Some ps" "set ps = preds_of es (dst e)"
      using acc mem by (auto simp: acc_of_def)
    obtain ss where ss: "map_of (ba_adj acc) (src e) = Some ss" "set ss = succs_of es (src e)"
      using acc mem by (auto simp: acc_of_def)
    obtain P where P: "append_new (dst e) (src e) (ba_preds acc) = Some P"
      "\<And>k'. map_of P k' = None \<longleftrightarrow> map_of (ba_preds acc) k' = None"
      "\<And>k' ys. map_of P k' = Some ys \<Longrightarrow> (k' \<noteq> dst e \<and> map_of (ba_preds acc) k' = Some ys)
         \<or> (k' = dst e \<and> set ys = insert (src e) (set ps))"
      using append_new_Some [OF ps(1), of "src e"] by metis
    obtain A where A: "append_new (src e) (dst e) (ba_adj acc) = Some A"
      "\<And>k'. map_of A k' = None \<longleftrightarrow> map_of (ba_adj acc) k' = None"
      "\<And>k' ys. map_of A k' = Some ys \<Longrightarrow> (k' \<noteq> src e \<and> map_of (ba_adj acc) k' = Some ys)
         \<or> (k' = src e \<and> set ys = insert (dst e) (set ss))"
      using append_new_Some [OF ss(1), of "dst e"] by metis
    let ?out = "AList.update (src e) (ids_out es (src e) @ [i]) (ba_outgoing acc)"
    let ?acc' = "acc\<lparr>ba_edges := compiled_edges (es @ [(e, i)]), ba_outgoing := ?out, ba_preds := P, ba_adj := A\<rparr>"
    have "build_step (length es) e i acc = Some ?acc'"
      using acc mem P(1) A(1) edges by (simp add: build_step_def Let_def acc_of_def)
    moreover have "set ys = preds_of (es @ [(e, i)]) n" if "map_of P n = Some ys" for n ys
      using P(3) [OF that] ps(2) acc True unfolding preds_succs_snoc acc_of_def by auto
    moreover have "set ys = succs_of (es @ [(e, i)]) n" if "map_of A n = Some ys" for n ys
      using A(3) [OF that] ss(2) acc True unfolding preds_succs_snoc acc_of_def by auto
    ultimately have "acc_of N (es @ [(e, i)]) ?acc'"
      unfolding acc_of_def using acc mem P(2) A(2) by (auto simp: acc_of_def ids_snoc)
    moreover note \<open>build_step (length es) e i acc = Some ?acc'\<close>
    ultimately show ?thesis by blast
  qed
qed

lemma build_loop_acc:
  assumes "acc_of N es acc" and "distinct (map snd (es @ rest))"
    and "\<forall>(e, i) \<in> set rest. edge_named N e" and N: "IN_NODE_ID \<notin> N" "OUT_NODE_ID \<notin> N"
  shows "\<exists>acc'. build_loop (length es) rest acc = Some acc' \<and> acc_of N (es @ rest) acc'"
  using assms(1-3)
proof (induction rest arbitrary: es acc)
  case (Cons p rest)
  obtain e i where p: "p = (e, i)" by (cases p)
  obtain acc1 where step: "build_step (length es) e i acc = Some acc1" "acc_of N (es @ [(e, i)]) acc1"
    using build_step_acc [of N es acc i e] Cons.prems p N by auto
  obtain acc2 where "build_loop (length (es @ [(e, i)])) rest acc1 = Some acc2"
      "acc_of N ((es @ [(e, i)]) @ rest) acc2"
    using Cons.IH [OF step(2)] Cons.prems p by auto
  then show ?case using step(1) p by simp
qed simp


section \<open>Well-formed specifications\<close>

definition graph_ok :: "workflow_def \<Rightarrow> bool" where
  "graph_ok w =
     (let ids = map nd_id (wf_nodes w)
      in distinct ids \<and> IN_NODE_ID \<notin> set ids \<and> OUT_NODE_ID \<notin> set ids \<and>
         (\<forall>e \<in> set (wf_edges w). edge_named (set ids) e) \<and> (wf_entry w = [] \<or> wf_entry w \<in> set ids))"

definition edge_with :: "frontier_spec \<Rightarrow> (fedge \<Rightarrow> bool) \<Rightarrow> edge_id \<Rightarrow> bool" where
  "edge_with sp P i = (case map_of (fs_edges sp) i of None \<Rightarrow> False | Some fe \<Rightarrow> P fe)"

definition group_ok :: "frontier_spec \<Rightarrow> node_id \<times> edge_id list \<Rightarrow> bool" where
  "group_ok sp = (\<lambda>(d, ms).
     d \<in> set (fs_nodes sp) \<and> ms \<noteq> [] \<and> distinct ms \<and>
     (\<forall>m \<in> set ms. edge_with sp (\<lambda>fe. fe_loop fe \<and> fe_max fe \<noteq> None \<and> fe_dst fe = d) m) \<and>
     (case map_of (fs_regions sp) d of None \<Rightarrow> False
      | Some region \<Rightarrow> d \<in> set region \<and> distinct region \<and> set region \<subseteq> set (fs_nodes sp) \<and>
          (case map_of (fs_boundary sp) d of None \<Rightarrow> False
           | Some ids \<Rightarrow> \<forall>i \<in> set ids. edge_with sp
               (\<lambda>fe. \<not> fe_loop fe \<and> fe_dst fe \<in> set region \<and> fe_src fe \<notin> set region) i)))"

definition wf_spec :: "frontier_spec \<Rightarrow> bool" where
  "wf_spec sp =
     (distinct (fs_nodes sp) \<and> set (fs_entries sp) \<subseteq> set (fs_nodes sp) \<and>
      (\<forall>n \<in> set (fs_nodes sp). case map_of (fs_preds sp) n of None \<Rightarrow> False
         | Some ps \<Rightarrow> set ps \<subseteq> set (fs_nodes sp)) \<and>
      (\<forall>n \<in> set (fs_nodes sp). case map_of (fs_outgoing sp) n of None \<Rightarrow> False
         | Some ids \<Rightarrow> \<forall>i \<in> set ids. edge_with sp (\<lambda>fe. fe_src fe = n \<and> fe_dst fe \<in> set (fs_nodes sp)) i) \<and>
      distinct (map fst (fs_groups sp)) \<and>
      (\<forall>g \<in> set (fs_groups sp). group_ok sp g))"

definition forward_rel :: "workflow_def \<Rightarrow> (node_id \<times> node_id) set" where
  "forward_rel w = {(src e, dst e) | e. e \<in> set (wf_edges w) \<and> forward_edge e}"

lemma length_compiled [simp]: "length (compiled_edges es) = length es"
  by (simp add: compiled_edges_def)

lemma nth_compiled:
  "k < length es \<Longrightarrow> compiled_edges es ! k = (snd (es ! k), compile_edge k (fst (es ! k)) (snd (es ! k)))"
  by (simp add: compiled_edges_def nth_enumerate_eq split: prod.splits)

lemma compiled_lookup:
  assumes "distinct (map snd es)" and "(e, i) \<in> set es"
  shows "\<exists>k. map_of (compiled_edges es) i = Some (compile_edge k e i)"
proof -
  obtain k where "k < length es" "es ! k = (e, i)" using assms(2) by (auto simp: in_set_conv_nth)
  then have "(i, compile_edge k e i) \<in> set (compiled_edges es)"
    using nth_compiled [of k es] nth_mem [of k "compiled_edges es"] by simp
  moreover have "distinct (map fst (compiled_edges es))" using assms(1) by (simp add: keys_compiled)
  ultimately show ?thesis by (metis map_of_is_SomeI)
qed

lemma compiled_mem:
  assumes "(i, fe) \<in> set (compiled_edges es)"
  shows "\<exists>k e. (e, i) \<in> set es \<and> fe = compile_edge k e i"
proof -
  obtain k where "k < length es" "compiled_edges es ! k = (i, fe)"
    using assms by (auto simp: in_set_conv_nth)
  then show ?thesis using nth_compiled [of k es] by (metis nth_mem prod.collapse prod.inject)
qed

lemma compile_edge_simps [simp]:
  "fe_id (compile_edge k e i) = i" "fe_src (compile_edge k e i) = src e"
  "fe_dst (compile_edge k e i) = dst e" "fe_loop (compile_edge k e i) = (loop_max e \<noteq> None)"
  "fe_max (compile_edge k e i) = loop_max e" "fe_strict (compile_edge k e i) = loop_strict e"
  by (simp_all add: compile_edge_def)

lemma build_regions_Some:
  assumes "\<And>d n. d \<in> set ds \<Longrightarrow> n \<in> set (bfs adj [d] [d]) \<Longrightarrow> map_of order n \<noteq> None"
  shows "build_regions order adj ds =
    Some (map (\<lambda>d. (d, sort_key (\<lambda>n. the (map_of order n)) (bfs adj [d] [d]))) ds)"
  using assms
proof (induction ds)
  case (Cons d ds)
  have "sort_nodes order (bfs adj [d] [d]) = Some (sort_key (\<lambda>n. the (map_of order n)) (bfs adj [d] [d]))"
    using Cons.prems [of d] by (simp add: sort_nodes_def)
  moreover have "build_regions order adj ds =
      Some (map (\<lambda>d. (d, sort_key (\<lambda>n. the (map_of order n)) (bfs adj [d] [d]))) ds)"
    by (rule Cons.IH) (use Cons.prems in auto)
  ultimately show ?case by simp
qed simp

lemma dict_of_const_lookup: "map_of (dict_of (map (\<lambda>n. (n, x)) ns)) n = (if n \<in> set ns then Some x else None)"
proof -
  have "map_of (fold (\<lambda>(k, v) d. AList.update k v d) (map (\<lambda>n. (n, x)) ns) d) n =
      (if n \<in> set ns then Some x else map_of d n)" for d
    by (induction ns arbitrary: d) auto
  then show ?thesis by (simp add: dict_of_def)
qed

lemma adj_rel_succs:
  assumes "acc_of N es acc" and "\<And>e i. (e, i) \<in> set es \<Longrightarrow> forward_edge e \<Longrightarrow> src e \<in> N"
  shows "adj_rel (ba_adj acc) = {(src e, dst e) | e. e \<in> fst ` set es \<and> forward_edge e}"
proof -
  have "set (succs (ba_adj acc) a) = succs_of es a" for a
  proof (cases "map_of (ba_adj acc) a")
    case None
    then have "a \<notin> N" using assms(1) by (simp add: acc_of_def)
    then have "succs_of es a = {}" using assms(2) by (auto simp: succs_of_def)
    then show ?thesis using None by (simp add: succs_def)
  next
    case (Some ss)
    then show ?thesis using assms(1) by (simp add: acc_of_def succs_def)
  qed
  then have "adj_rel (ba_adj acc) = {(a, b). b \<in> succs_of es a}" by (simp add: adj_rel_def)
  also have "\<dots> = {(src e, dst e) | e. e \<in> fst ` set es \<and> forward_edge e}"
    unfolding succs_of_def by (auto, metis fst_conv image_eqI)
  finally show ?thesis .
qed

definition spec_edges :: "(string \<Rightarrow> string) \<Rightarrow> workflow_def \<Rightarrow> (edge_def \<times> edge_id) list" where
  "spec_edges sha w = zip (wf_edges w) (edge_identities sha w)"

lemma spec_edges_facts:
  shows "fst ` set (spec_edges sha w) = set (wf_edges w)"
    and "map snd (spec_edges sha w) = edge_identities sha w"
  by (simp_all add: spec_edges_def edge_identities_def flip: set_map)

lemma set_zip_fst: "length xs = length ys \<Longrightarrow> fst ` set (zip xs ys) = set xs"
  by (metis list.set_map map_fst_zip)

lemma map_of_keyed: "map_of (map (\<lambda>d. (d, f d)) ds) k = (if k \<in> set ds then Some (f k) else None)"
  by (induction ds) auto

lemma build_exact:
  assumes ok: "graph_ok w" and sha: "\<forall>s. 5 \<le> length (sha s)"
  obtains acc where
    "acc_of (nd_id ` set (wf_nodes w)) (spec_edges sha w) acc"
    and "adj_rel (ba_adj acc) = forward_rel w"
    and "build_frontier_spec sha w = Some
      \<lparr>fs_nodes = map nd_id (wf_nodes w), fs_entries = entry_frontier w,
       fs_node_order = dict_of (zip (map nd_id (wf_nodes w)) [0..<length (wf_nodes w)]),
       fs_edges = compiled_edges (spec_edges sha w), fs_outgoing = ba_outgoing acc,
       fs_preds = ba_preds acc, fs_groups = ba_groups acc,
       fs_regions = map (\<lambda>d. (d, sort_key
           (\<lambda>n. the (map_of (dict_of (zip (map nd_id (wf_nodes w)) [0..<length (wf_nodes w)])) n))
           (bfs (ba_adj acc) [d] [d]))) (map fst (ba_groups acc)),
       fs_boundary = map (\<lambda>d. (d, boundary_edges (compiled_edges (spec_edges sha w)) (sort_key
           (\<lambda>n. the (map_of (dict_of (zip (map nd_id (wf_nodes w)) [0..<length (wf_nodes w)])) n))
           (bfs (ba_adj acc) [d] [d])))) (map fst (ba_groups acc))\<rparr>"
proof -
  let ?N = "nd_id ` set (wf_nodes w)"
  let ?es = "spec_edges sha w"
  let ?order = "dict_of (zip (map nd_id (wf_nodes w)) [0..<length (wf_nodes w)])"
  let ?blank = "dict_of (map (\<lambda>n. (n, [])) (map nd_id (wf_nodes w)))"
  let ?acc0 = "\<lparr>ba_edges = [], ba_outgoing = ?blank, ba_preds = ?blank, ba_groups = [], ba_adj = ?blank\<rparr>"
  have acc0: "acc_of ?N [] ?acc0"
    by (auto simp: acc_of_def compiled_edges_def ids_out_def ids_loop_def preds_of_def succs_of_def
        dict_of_const_lookup simp del: map_map split: if_splits)
  have ids: "distinct (map snd ([] @ ?es))"
    using sha by (simp add: spec_edges_facts edge_identities_def distinct_resolve_edge_ids edge_fingerprint_def)
  have named: "\<forall>(e, i) \<in> set ?es. edge_named ?N e"
    using ok by (auto simp: graph_ok_def Let_def spec_edges_def dest: set_zip_leftD)
  have N: "IN_NODE_ID \<notin> ?N" "OUT_NODE_ID \<notin> ?N" using ok by (auto simp: graph_ok_def Let_def)
  obtain acc where loop: "build_loop 0 ?es ?acc0 = Some acc" and acc: "acc_of ?N ?es acc"
    using build_loop_acc [OF acc0 ids named N] by auto
  have srcN: "src e \<in> ?N" if "(e, i) \<in> set ?es" "forward_edge e" for e i
    using named that by (auto simp: edge_named_def forward_edge_def)
  have adj: "adj_rel (ba_adj acc) = forward_rel w"
    using adj_rel_succs [OF acc srcN] by (simp add: forward_rel_def spec_edges_facts)
  have dstN: "dst e \<in> ?N" if "e \<in> set (wf_edges w)" "forward_edge e" for e
    using ok that by (auto simp: graph_ok_def Let_def edge_named_def forward_edge_def)
  have groupsN: "d \<in> ?N" if dm: "d \<in> set (map fst (ba_groups acc))" for d
  proof -
    obtain ms where "map_of (ba_groups acc) d = Some ms"
      using dm map_of_defined_iff [of "ba_groups acc" d] by auto
    then have "ids_loop ?es d \<noteq> []" using acc by (auto simp: acc_of_def split: if_splits)
    then obtain e i where "(e, i) \<in> set ?es" "dst e = d" "dst e \<noteq> OUT_NODE_ID"
      by (auto simp: ids_loop_def filter_empty_conv)
    then show ?thesis using named by (auto simp: edge_named_def)
  qed
  have "map_of ?order n \<noteq> None" if "n \<in> ?N" for n
    using that by (simp add: map_of_eq_None_iff dict_of_keys set_zip_fst)
  moreover have "n \<in> ?N" if "d \<in> set (map fst (ba_groups acc))" "n \<in> set (bfs (ba_adj acc) [d] [d])" for d n
  proof -
    have "(d, n) \<in> (forward_rel w)\<^sup>*" using that(2) by (simp add: bfs_reachable adj)
    then show ?thesis
      by (cases rule: rtranclE) (use that groupsN dstN in \<open>auto simp: forward_rel_def\<close>)
  qed
  ultimately have regions: "build_regions ?order (ba_adj acc) (map fst (ba_groups acc)) = Some
      (map (\<lambda>d. (d, sort_key (\<lambda>n. the (map_of ?order n)) (bfs (ba_adj acc) [d] [d]))) (map fst (ba_groups acc)))"
    by (intro build_regions_Some) blast
  have edges: "ba_edges acc = compiled_edges ?es" using acc by (simp add: acc_of_def)
  show ?thesis
    by (rule that [OF acc adj])
      (use loop regions in \<open>simp add: build_frontier_spec_def spec_edges_def edges [unfolded spec_edges_def] Let_def comp_def\<close>)
qed


lemma wf_build_frontier_spec:
  assumes ok: "graph_ok w" and sha: "\<forall>s. 5 \<le> length (sha s)"
  shows "\<exists>sp. build_frontier_spec sha w = Some sp \<and> wf_spec sp"
proof -
  let ?N = "nd_id ` set (wf_nodes w)"
  let ?es = "spec_edges sha w"
  let ?order = "dict_of (zip (map nd_id (wf_nodes w)) [0..<length (wf_nodes w)])"
  obtain acc where acc: "acc_of ?N ?es acc" and adj: "adj_rel (ba_adj acc) = forward_rel w"
    and built: "build_frontier_spec sha w = Some
      \<lparr>fs_nodes = map nd_id (wf_nodes w), fs_entries = entry_frontier w, fs_node_order = ?order,
       fs_edges = compiled_edges ?es, fs_outgoing = ba_outgoing acc,
       fs_preds = ba_preds acc, fs_groups = ba_groups acc,
       fs_regions = map (\<lambda>d. (d, sort_key (\<lambda>n. the (map_of ?order n)) (bfs (ba_adj acc) [d] [d])))
           (map fst (ba_groups acc)),
       fs_boundary = map (\<lambda>d. (d, boundary_edges (compiled_edges ?es)
           (sort_key (\<lambda>n. the (map_of ?order n)) (bfs (ba_adj acc) [d] [d])))) (map fst (ba_groups acc))\<rparr>"
    by (rule build_exact [OF ok sha])
  define sp where "sp = the (build_frontier_spec sha w)"
  have sp: "build_frontier_spec sha w = Some sp" by (simp add: sp_def built)
  have ids: "distinct (map snd ?es)"
    using sha by (simp add: spec_edges_facts edge_identities_def distinct_resolve_edge_ids edge_fingerprint_def)
  have named: "edge_named ?N e" if "(e, i) \<in> set ?es" for e i
    using ok that by (auto simp: graph_ok_def Let_def spec_edges_def dest: set_zip_leftD)
  have fields: "set (fs_nodes sp) = ?N" "fs_edges sp = compiled_edges ?es" "fs_groups sp = ba_groups acc"
    "fs_preds sp = ba_preds acc" "fs_outgoing sp = ba_outgoing acc"
    "fs_regions sp = map (\<lambda>d. (d, sort_key (\<lambda>n. the (map_of ?order n)) (bfs (ba_adj acc) [d] [d])))
           (map fst (ba_groups acc))"
    "fs_boundary sp = map (\<lambda>d. (d, boundary_edges (compiled_edges ?es)
           (sort_key (\<lambda>n. the (map_of ?order n)) (bfs (ba_adj acc) [d] [d])))) (map fst (ba_groups acc))"
    by (simp_all add: sp_def built)
  have with_es: "edge_with sp P i" if "(e, i) \<in> set ?es" "\<And>k. P (compile_edge k e i)" for P e i
    using compiled_lookup [OF ids that(1)] that(2) by (auto simp: edge_with_def fields)
  have outgoing: "edge_with sp (\<lambda>fe. fe_src fe = n \<and> fe_dst fe \<in> set (fs_nodes sp)) i"
    if mem: "i \<in> set (ids_out ?es n)" for i n
  proof -
    obtain e where e: "(e, i) \<in> set ?es" "src e = n" "dst e \<noteq> OUT_NODE_ID"
      using mem by (auto simp: ids_out_def)
    then have "dst e \<in> ?N" using named [OF e(1)] by (auto simp: edge_named_def)
    then show ?thesis using e by (intro with_es [OF e(1)]) (simp add: fields)
  qed
  have preds: "preds_of ?es n \<subseteq> ?N" for n
    using named by (auto simp: preds_of_def edge_named_def forward_edge_def)
  have group: "group_ok sp (d, ms)" if dms: "(d, ms) \<in> set (ba_groups acc)" for d ms
  proof -
    let ?region = "sort_key (\<lambda>n. the (map_of ?order n)) (bfs (ba_adj acc) [d] [d])"
    have "distinct (map fst (ba_groups acc))" and
      lookup: "map_of (ba_groups acc) d = (if ids_loop ?es d = [] then None else Some (ids_loop ?es d))"
      using acc by (simp_all add: acc_of_def)
    then have "map_of (ba_groups acc) d = Some ms" using dms by simp
    then have ms: "ms = ids_loop ?es d" "ms \<noteq> []" using lookup by (auto split: if_splits)
    have mem: "\<exists>e. (e, m) \<in> set ?es \<and> loop_max e \<noteq> None \<and> dst e = d \<and> d \<in> ?N" if "m \<in> set ms" for m
      using that ms named by (fastforce simp: ids_loop_def edge_named_def)
    have dN: "d \<in> ?N" using ms(2) mem by (metis last_in_set)
    have "distinct ms" using ids unfolding ms(1) ids_loop_def by (rule distinct_map_filter)
    moreover have "edge_with sp (\<lambda>fe. fe_loop fe \<and> fe_max fe \<noteq> None \<and> fe_dst fe = d) m" if "m \<in> set ms" for m
      using mem [OF that] with_es by fastforce
    moreover have dk: "d \<in> set (map fst (ba_groups acc))" using dms by force
    moreover have "map_of (fs_regions sp) d = Some ?region" "map_of (fs_boundary sp) d =
        Some (boundary_edges (compiled_edges ?es) ?region)"
      using dk unfolding fields map_of_keyed by (simp_all only: if_True)
    moreover have "d \<in> set ?region" "distinct ?region"
      using bfs_visited [of "[d]" "ba_adj acc" "[d]"] bfs_distinct [of "[d]" "ba_adj acc" "[d]"] by auto
    moreover have "set ?region \<subseteq> ?N"
    proof
      fix n assume "n \<in> set ?region"
      then have "(d, n) \<in> (forward_rel w)\<^sup>*" by (simp add: bfs_reachable adj)
      then show "n \<in> ?N"
        by (cases rule: rtranclE)
          (use dN ok in \<open>auto simp: forward_rel_def graph_ok_def Let_def edge_named_def forward_edge_def\<close>)
    qed
    moreover have "edge_with sp (\<lambda>fe. \<not> fe_loop fe \<and> fe_dst fe \<in> set ?region \<and> fe_src fe \<notin> set ?region) i"
      if mem: "i \<in> set (boundary_edges (compiled_edges ?es) ?region)" for i
    proof -
      obtain fe where fe: "(i, fe) \<in> set (compiled_edges ?es)" "\<not> fe_loop fe" "fe_dst fe \<in> set ?region"
          "fe_src fe \<notin> set ?region"
        using mem by (auto simp: boundary_edges_def)
      then have "map_of (compiled_edges ?es) i = Some fe"
        using ids keys_compiled [of ?es] by (simp add: map_of_is_SomeI)
      then show ?thesis using fe by (simp add: edge_with_def fields)
    qed
    ultimately show ?thesis using dN ms(2) by (simp add: group_ok_def fields)
  qed
  have "wf_spec sp"
    unfolding wf_spec_def
  proof (intro conjI ballI)
    show "distinct (fs_nodes sp)" using ok by (simp add: sp_def built graph_ok_def Let_def)
    show "set (fs_entries sp) \<subseteq> set (fs_nodes sp)"
      using ok by (auto simp: sp_def built entry_frontier_def graph_ok_def Let_def split: if_splits)
    show "case map_of (fs_preds sp) n of None \<Rightarrow> False | Some ps \<Rightarrow> set ps \<subseteq> set (fs_nodes sp)"
      if "n \<in> set (fs_nodes sp)" for n
      using acc preds that unfolding fields acc_of_def by (auto split: option.splits)
    show "case map_of (fs_outgoing sp) n of None \<Rightarrow> False
        | Some ids \<Rightarrow> \<forall>i \<in> set ids. edge_with sp (\<lambda>fe. fe_src fe = n \<and> fe_dst fe \<in> set (fs_nodes sp)) i"
      if "n \<in> set (fs_nodes sp)" for n
      using acc outgoing that by (auto simp: fields acc_of_def)
    show "distinct (map fst (fs_groups sp))" using acc by (simp add: fields acc_of_def)
    show "group_ok sp g" if "g \<in> set (fs_groups sp)" for g
      using group that by (cases g) (simp add: fields)
  qed
  then show ?thesis using sp by blast
qed

section \<open>Properties of the compilation\<close>

text \<open>A workflow of two nodes, a forward edge and a bounded back-edge, and a constant digest, on
  which every edge id collides and is disambiguated.\<close>

definition demo_workflow :: workflow_def where
  "demo_workflow = workflow_default ''demo'' ''p'' '''' [node_default ''a'' Agent, node_default ''b'' Script]
     [edge_default ''a'' ''b'', (edge_default ''b'' ''a'')\<lparr>loop_max := Some 2\<rparr>]"

definition demo_sha :: "string \<Rightarrow> string" where
  "demo_sha s = ''abcde''"

lemma demo_graph_ok: "graph_ok demo_workflow"
  by (simp add: demo_workflow_def workflow_default_def node_default_def edge_default_def graph_ok_def
      edge_named_def IN_NODE_ID_def OUT_NODE_ID_def)

lemma demo_sha_long: "\<forall>s. 5 \<le> length (demo_sha s)"
  by (simp add: demo_sha_def)

text \<open>Edge identities: whatever the digest, as long as it has five characters or more, every
  edge of a workflow gets an id and no two edges share one.\<close>

theorem edge_ids_unique:
  assumes "\<forall>s. 5 \<le> length (sha s)"
  shows "length (edge_identities sha w) = length (wf_edges w) \<and> distinct (edge_identities sha w)"
  using assms by (simp add: edge_identities_def distinct_resolve_edge_ids edge_fingerprint_def)

lemma edge_ids_unique_witness: "distinct (edge_identities demo_sha demo_workflow)"
  using edge_ids_unique [OF demo_sha_long] by blast

text \<open>A workflow whose edges name its own nodes always compiles, and the result is well formed:
  every table is total on the nodes, every edge id in it resolves, every loop group has a
  destination, bounded members and a region containing the destination.\<close>

theorem compilation_well_formed:
  assumes "graph_ok w" and "\<forall>s. 5 \<le> length (sha s)"
  shows "\<exists>sp. build_frontier_spec sha w = Some sp \<and> wf_spec sp"
  by (rule wf_build_frontier_spec [OF assms])

lemma compilation_well_formed_witness: "\<exists>sp. build_frontier_spec demo_sha demo_workflow = Some sp \<and> wf_spec sp"
  by (rule compilation_well_formed [OF demo_graph_ok demo_sha_long])

lemma regions_exact:
  assumes "graph_ok w" and "\<forall>s. 5 \<le> length (sha s)" and "build_frontier_spec sha w = Some sp"
  shows "(map_of (fs_regions sp) d \<noteq> None \<longleftrightarrow> (\<exists>e \<in> set (wf_edges w). loop_max e \<noteq> None \<and> dst e = d \<and> d \<noteq> OUT_NODE_ID))
    \<and> (\<forall>region. map_of (fs_regions sp) d = Some region \<longrightarrow>
        set region = (forward_rel w)\<^sup>* `` {d} \<and> distinct region \<and>
        sorted (map (\<lambda>n. the (map_of (fs_node_order sp) n)) region))"
proof -
  obtain acc where acc: "acc_of (nd_id ` set (wf_nodes w)) (spec_edges sha w) acc"
    and adj: "adj_rel (ba_adj acc) = forward_rel w"
    and built: "build_frontier_spec sha w = Some
      \<lparr>fs_nodes = map nd_id (wf_nodes w), fs_entries = entry_frontier w,
       fs_node_order = dict_of (zip (map nd_id (wf_nodes w)) [0..<length (wf_nodes w)]),
       fs_edges = compiled_edges (spec_edges sha w), fs_outgoing = ba_outgoing acc,
       fs_preds = ba_preds acc, fs_groups = ba_groups acc,
       fs_regions = map (\<lambda>d. (d, sort_key
           (\<lambda>n. the (map_of (dict_of (zip (map nd_id (wf_nodes w)) [0..<length (wf_nodes w)])) n))
           (bfs (ba_adj acc) [d] [d]))) (map fst (ba_groups acc)),
       fs_boundary = map (\<lambda>d. (d, boundary_edges (compiled_edges (spec_edges sha w)) (sort_key
           (\<lambda>n. the (map_of (dict_of (zip (map nd_id (wf_nodes w)) [0..<length (wf_nodes w)])) n))
           (bfs (ba_adj acc) [d] [d])))) (map fst (ba_groups acc))\<rparr>"
    by (rule build_exact [OF assms(1,2)])
  have sp: "fs_regions sp = map (\<lambda>d. (d, sort_key (\<lambda>n. the (map_of (fs_node_order sp) n))
           (bfs (ba_adj acc) [d] [d]))) (map fst (ba_groups acc))"
    using assms(3) built by auto
  have "d \<in> set (map fst (ba_groups acc)) \<longleftrightarrow> ids_loop (spec_edges sha w) d \<noteq> []"
    using acc map_of_defined_iff [of "ba_groups acc" d] by (auto simp: acc_of_def)
  also have "\<dots> \<longleftrightarrow> (\<exists>e \<in> fst ` set (spec_edges sha w). loop_max e \<noteq> None \<and> dst e = d \<and> d \<noteq> OUT_NODE_ID)"
    by (force simp: ids_loop_def filter_empty_conv)
  finally have dest: "d \<in> set (map fst (ba_groups acc)) \<longleftrightarrow>
      (\<exists>e \<in> set (wf_edges w). loop_max e \<noteq> None \<and> dst e = d \<and> d \<noteq> OUT_NODE_ID)"
    by (simp only: spec_edges_facts(1))
  have lookup: "map_of (fs_regions sp) d = (if d \<in> set (map fst (ba_groups acc))
      then Some (sort_key (\<lambda>n. the (map_of (fs_node_order sp) n)) (bfs (ba_adj acc) [d] [d])) else None)"
    unfolding sp map_of_keyed ..
  show ?thesis
    unfolding dest [symmetric] lookup
    by (auto simp: bfs_reachable adj bfs_distinct)
qed

text \<open>C33. The invalidation region of a loop is exactly the set of nodes reachable from its
  destination over forward edges, without repetition and in workflow order, and the destinations
  of the loop groups are exactly the targets of back-edges other than \<open>$out\<close>.\<close>

theorem invalidation_regions_exact:
  assumes "graph_ok w" and "\<forall>s. 5 \<le> length (sha s)" and "build_frontier_spec sha w = Some sp"
  shows "(map_of (fs_regions sp) d \<noteq> None \<longleftrightarrow> (\<exists>e \<in> set (wf_edges w). loop_max e \<noteq> None \<and> dst e = d \<and> d \<noteq> OUT_NODE_ID))
    \<and> (\<forall>region. map_of (fs_regions sp) d = Some region \<longrightarrow>
        set region = (forward_rel w)\<^sup>* `` {d} \<and> distinct region \<and>
        sorted (map (\<lambda>n. the (map_of (fs_node_order sp) n)) region))"
  by (rule regions_exact [OF assms])

lemma invalidation_regions_exact_witness:
  "\<exists>sp. build_frontier_spec demo_sha demo_workflow = Some sp \<and> map_of (fs_regions sp) ''a'' \<noteq> None"
proof -
  obtain sp where sp: "build_frontier_spec demo_sha demo_workflow = Some sp"
    using wf_build_frontier_spec [OF demo_graph_ok demo_sha_long] by blast
  have "\<exists>e \<in> set (wf_edges demo_workflow). loop_max e \<noteq> None \<and> dst e = ''a'' \<and> ''a'' \<noteq> OUT_NODE_ID"
    by (simp add: demo_workflow_def workflow_default_def edge_default_def OUT_NODE_ID_def)
  then show ?thesis
    using sp invalidation_regions_exact [OF demo_graph_ok demo_sha_long sp, of "''a''"] by blast
qed

text \<open>The scheduling tables say what the edge list says: a node waits for exactly the sources of
  its forward edges, \<open>$in\<close> and back-edges excluded, and its outgoing edges are its edges to other
  nodes in the order of the file.\<close>

theorem scheduling_tables_exact:
  assumes "graph_ok w" and "\<forall>s. 5 \<le> length (sha s)" and "build_frontier_spec sha w = Some sp"
    and "n \<in> nd_id ` set (wf_nodes w)"
  shows "set (the (map_of (fs_preds sp) n)) =
      {src e | e. e \<in> set (wf_edges w) \<and> dst e = n \<and> loop_max e = None \<and> src e \<noteq> IN_NODE_ID}
    \<and> map_of (fs_outgoing sp) n =
      Some (map snd (filter (\<lambda>(e, i). src e = n \<and> dst e \<noteq> OUT_NODE_ID) (zip (wf_edges w) (edge_identities sha w))))"
proof -
  obtain acc where acc: "acc_of (nd_id ` set (wf_nodes w)) (spec_edges sha w) acc"
    and sp: "fs_preds sp = ba_preds acc" "fs_outgoing sp = ba_outgoing acc"
    by (rule build_exact [OF assms(1,2)]) (use assms(3) in auto)
  obtain ps where ps: "map_of (ba_preds acc) n = Some ps" "set ps = preds_of (spec_edges sha w) n"
    using acc assms(4) unfolding acc_of_def by (metis not_None_eq)
  have "OUT_NODE_ID \<notin> nd_id ` set (wf_nodes w)" using assms(1) by (simp add: graph_ok_def Let_def)
  then have "n \<noteq> OUT_NODE_ID" using assms(4) by blast
  moreover have "preds_of (spec_edges sha w) n =
      {src e | e. e \<in> fst ` set (spec_edges sha w) \<and> forward_edge e \<and> dst e = n}"
    by (force simp: preds_of_def)
  ultimately have "preds_of (spec_edges sha w) n =
      {src e | e. e \<in> set (wf_edges w) \<and> dst e = n \<and> loop_max e = None \<and> src e \<noteq> IN_NODE_ID}"
    by (auto simp: spec_edges_facts forward_edge_def)
  moreover have "map_of (ba_outgoing acc) n = Some (ids_out (spec_edges sha w) n)"
    using acc assms(4) by (simp add: acc_of_def)
  ultimately show ?thesis using ps by (simp add: sp ids_out_def spec_edges_def)
qed

lemma scheduling_tables_exact_witness:
  "\<exists>sp. build_frontier_spec demo_sha demo_workflow = Some sp \<and> map_of (fs_outgoing sp) ''a'' \<noteq> None"
proof -
  obtain sp where sp: "build_frontier_spec demo_sha demo_workflow = Some sp"
    using wf_build_frontier_spec [OF demo_graph_ok demo_sha_long] by blast
  have "''a'' \<in> nd_id ` set (wf_nodes demo_workflow)"
    by (simp add: demo_workflow_def workflow_default_def node_default_def)
  then show ?thesis using sp scheduling_tables_exact [OF demo_graph_ok demo_sha_long sp] by blast
qed

end
