(* ===== verification/Loader_Validate.thy ===== *)
theory Loader_Validate
  imports Loader_Parse Conditions Cycle Frontier_Build
begin

text \<open>
  Static validation, the second half of \<open>flow/loader.py\<close>: \<open>validation_errors\<close> and every
  check it runs. A check is the exception it raises, or \<open>None\<close>; a pass over the workflow is
  the errors it collected and the exception that ended it early, if one did. What the code asks
  of the outside is a record: the digest of edge ids, whether a skill resolves (with the
  directory of the workflow file, when there is one), the parameter lists of the top-level
  functions of a script (\<open>None\<close> for a \<open>SyntaxError\<close>), and the names of the built-in tools.
  The warning about unguarded loops has no effect on the result and is left out.
\<close>

record load_env =
  le_sha :: "string \<Rightarrow> string"
  le_skill :: "string option \<Rightarrow> string \<Rightarrow> bool"
  le_script :: "string \<Rightarrow> string list list option"
  le_tools :: "string list"

section \<open>Passes\<close>

type_synonym checks = "validation_error list \<times> pyexc option"

definition passed :: checks where
  "passed = ([], None)"

definition and_then :: "checks \<Rightarrow> checks \<Rightarrow> checks" where
  "and_then a b = (if snd a = None then (fst a @ fst b, snd b) else a)"

definition fatal :: "pyexc option \<Rightarrow> checks" where
  "fatal c = ([], c)"

text \<open>\<open>with collector.item(node=..., edge=...)\<close>: a validation error is absorbed, and located
  unless it already says where it is; any other exception goes through.\<close>

definition located :: "node_id option \<Rightarrow> (node_id \<times> node_id) option \<Rightarrow> validation_error \<Rightarrow> validation_error" where
  "located n e v =
     v\<lparr>ve_node := (if ve_node v = None then n else ve_node v), ve_edge := (if ve_edge v = None then e else ve_edge v)\<rparr>"

definition item :: "node_id option \<Rightarrow> (node_id \<times> node_id) option \<Rightarrow> pyexc option \<Rightarrow> checks" where
  "item n e c =
     (case c of None \<Rightarrow> passed | Some (ValidationError v) \<Rightarrow> ([located n e v], None) | Some x \<Rightarrow> ([], Some x))"

definition each_item :: "('a \<Rightarrow> checks) \<Rightarrow> 'a list \<Rightarrow> checks" where
  "each_item f xs = foldr (\<lambda>x. and_then (f x)) xs passed"

section \<open>Templates\<close>

function placeholder_texts :: "string \<Rightarrow> string list" where
  "placeholder_texts [] = []"
| "placeholder_texts (c # s) =
     (case placeholder (c # s) of
        None \<Rightarrow> placeholder_texts s
      | Some (p, rest) \<Rightarrow> p # placeholder_texts rest)"
  by pat_completeness auto
termination
  by (relation "measure length") (auto dest: placeholder_shorter)

declare placeholder_texts.simps(2) [simp del]

definition placeholder_roots :: "string \<Rightarrow> string list" where
  "placeholder_roots text = filter (\<lambda>r. r \<noteq> []) (map (\<lambda>p. fst (jsonpath_root p)) (placeholder_texts text))"

definition opt_roots :: "string option \<Rightarrow> string list" where
  "opt_roots t = (case t of None \<Rightarrow> [] | Some s \<Rightarrow> placeholder_roots s)"

fun condition_operand_roots :: "condition \<Rightarrow> string list" where
  "condition_operand_roots (Condition op v t cs) =
     opt_roots v @ opt_roots t @ concat (map condition_operand_roots cs)"

section \<open>Nodes\<close>

text \<open>\<open>^[\w.]+:[\w]+$\<close>, under \<open>re.match\<close>: the dollar also matches before a final newline.\<close>

definition run_ref_ok :: "string \<Rightarrow> bool" where
  "run_ref_ok s =
     (let path = takeWhile (\<lambda>c. is_word_char c \<or> c = CHR ''.'') s;
          rest = drop (length path) s;
          name = takeWhile is_word_char (drop 1 rest)
      in path \<noteq> [] \<and> take 1 rest = '':'' \<and> name \<noteq> [] \<and>
         drop (length name) (drop 1 rest) \<in> {[], [CHR 0x0A]})"

definition validate_script_node :: "load_env \<Rightarrow> node_def \<Rightarrow> pyexc option" where
  "validate_script_node env n =
     (let has_code = nd_code n \<noteq> None; has_run = nd_run n \<notin> {None, Some []}
      in if has_code \<and> has_run then Some (invalid NODE_KIND_CONFLICT)
         else if \<not> has_code \<and> \<not> has_run then Some (invalid MISSING_REQUIRED)
         else if has_run then raise_if (\<not> run_ref_ok (the (nd_run n))) (invalid INVALID_VALUE)
         else (case le_script env (the (nd_code n)) of
                 None \<Rightarrow> Some (invalid INVALID_SCRIPT)
               | Some [] \<Rightarrow> Some (invalid INVALID_SCRIPT)
               | Some (args # others) \<Rightarrow>
                   first_err
                     [raise_if (others \<noteq> []) (invalid INVALID_SCRIPT),
                      raise_if (args = [] \<or> hd args \<noteq> ''ctx'') (invalid INVALID_SCRIPT),
                      raise_if (set (tl args) \<noteq> set (input_names n)) (invalid INVALID_SCRIPT)]))"

definition KNOWN_CLI_BACKENDS :: "string list" where
  "KNOWN_CLI_BACKENDS = [''claude-cli'', ''codex-cli'']"

definition validate_agent_node :: "node_def \<Rightarrow> pyexc option" where
  "validate_agent_node n =
     first_err
       [raise_if (nd_run n \<noteq> None) (invalid NODE_KIND_CONFLICT),
        raise_if (nd_code n \<noteq> None) (invalid NODE_KIND_CONFLICT),
        raise_if (case nd_backend n of None \<Rightarrow> False | Some b \<Rightarrow> b \<notin> set KNOWN_CLI_BACKENDS) (invalid INVALID_VALUE),
        raise_if (nd_backend n = None \<and> (nd_allowed_tools n \<noteq> [] \<or> nd_mcp_servers n \<noteq> [])) (invalid NODE_KIND_CONFLICT),
        raise_if (\<exists>t \<in> set [nd_system_prompt n, nd_prompt n]. \<exists>r \<in> set (placeholder_roots t). r \<notin> set (input_names n))
          (invalid INVALID_TEMPLATE)]"

definition validate_human_node :: "node_def \<Rightarrow> pyexc option" where
  "validate_human_node n =
     first_err
       [raise_if (nd_signal n = []) (invalid MISSING_REQUIRED),
        raise_if (nd_code n \<noteq> None) (invalid NODE_KIND_CONFLICT),
        raise_if (nd_run n \<noteq> None) (invalid NODE_KIND_CONFLICT),
        raise_if (nd_prompt n \<noteq> []) (invalid NODE_KIND_CONFLICT),
        raise_if (nd_tools n \<noteq> []) (invalid NODE_KIND_CONFLICT),
        raise_if (1 < length (nd_output_ports n)) (invalid NODE_KIND_CONFLICT)]"

definition validate_subflow_node :: "(workflow_def \<Rightarrow> pyexc option) \<Rightarrow> node_def \<Rightarrow> pyexc option" where
  "validate_subflow_node check_child n =
     (case nd_child n of
        None \<Rightarrow> Some (invalid INVALID_SUBFLOW)
      | Some child \<Rightarrow>
          first_err
            [raise_if (nd_code n \<noteq> None) (invalid NODE_KIND_CONFLICT),
             raise_if (nd_prompt n \<noteq> [] \<or> nd_system_prompt n \<noteq> []) (invalid NODE_KIND_CONFLICT),
             raise_if (nd_tools n \<noteq> []) (invalid NODE_KIND_CONFLICT),
             raise_if (\<exists>c \<in> set (wf_nodes child). nd_type c = Subflow) (invalid INVALID_SUBFLOW),
             check_child child])"

definition validate_skills :: "load_env \<Rightarrow> string option \<Rightarrow> node_def \<Rightarrow> pyexc option" where
  "validate_skills env base n =
     raise_if (\<exists>s \<in> set (nd_skills n). \<not> le_skill env base s) (invalid UNKNOWN_REFERENCE)"

definition VALID_TYPES :: "string list" where
  "VALID_TYPES = [''string'', ''integer'', ''number'', ''boolean'', ''array'', ''object'']"

definition known_tools :: "load_env \<Rightarrow> workflow_def \<Rightarrow> string set" where
  "known_tools env w = set (le_tools env) \<union> fst ` set (wf_tool_refs w)"

definition validate_tool :: "load_env \<Rightarrow> workflow_def \<Rightarrow> string \<Rightarrow> pyexc option" where
  "validate_tool env w t =
     (if t = [] then Some (invalid MISSING_REQUIRED)
      else raise_if (t \<notin> known_tools env w) (invalid UNKNOWN_REFERENCE))"

definition validate_node ::
  "load_env \<Rightarrow> (workflow_def \<Rightarrow> pyexc option) \<Rightarrow> string option \<Rightarrow> workflow_def \<Rightarrow> node_def \<Rightarrow> pyexc option" where
  "validate_node env check_child base w n =
     first_err
       [raise_if (\<exists>p \<in> set (nd_input_ports n @ nd_output_ports n). port_type p \<notin> set VALID_TYPES) (invalid INVALID_SCHEMA),
        validate_skills env base n,
        first_err (map (validate_tool env w) (nd_tools n)),
        (case nd_type n of
           Script \<Rightarrow> validate_script_node env n
         | Agent \<Rightarrow> validate_agent_node n
         | Human \<Rightarrow> validate_human_node n
         | Subflow \<Rightarrow> validate_subflow_node check_child n)]"

section \<open>Inheritance\<close>

definition always_before :: "edge_def list \<Rightarrow> node_id \<Rightarrow> node_id list" where
  "always_before es n =
     map src (filter (\<lambda>e. dst e = n \<and> edge_when e = None \<and> loop_max e = None \<and> src e \<notin> {IN_NODE_ID, OUT_NODE_ID}) es)"

lemma ancestors_decreases:
  assumes "current \<notin> seen"
  shows "card (set (map src es) \<union> set (rev (always_before es current) @ frontier) - insert current seen)
       < card (set (map src es) \<union> set (current # frontier) - seen)"
  by (rule psubset_card_mono) (use assms in \<open>auto simp: always_before_def\<close>)

text \<open>The stack of the search, its top first: \<open>extend\<close> pushes at the end, \<open>pop\<close> takes from it.\<close>

function ancestors :: "edge_def list \<Rightarrow> node_id set \<Rightarrow> node_id list \<Rightarrow> node_id set" where
  "ancestors es seen [] = seen"
| "ancestors es seen (current # frontier) =
     (if current \<in> seen then ancestors es seen frontier
      else ancestors es (insert current seen) (rev (always_before es current) @ frontier))"
  by pat_completeness auto
termination
  by (relation "(\<lambda>(es, seen, frontier). card (set (map src es) \<union> set frontier - seen)) <*mlex*>
      measure (\<lambda>(es, seen, frontier). length frontier)")
    (auto simp: mlex_iff ancestors_decreases [simplified] intro!: wf_mlex card_mono)

declare ancestors.simps(2) [simp del]

definition unconditional_ancestors :: "workflow_def \<Rightarrow> node_id \<Rightarrow> node_id set" where
  "unconditional_ancestors w n = ancestors (wf_edges w) {} (rev (always_before (wf_edges w) n))"

definition fan_out_workers :: "workflow_def \<Rightarrow> node_id set" where
  "fan_out_workers w = set (map dst (filter (\<lambda>e. fan_out e \<noteq> None) (wf_edges w)))"

definition loop_touched :: "workflow_def \<Rightarrow> node_id set" where
  "loop_touched w =
     (let es = filter (\<lambda>e. loop_max e \<noteq> None) (wf_edges w) in set (map src es) \<union> set (map dst es))"

definition node_index :: "workflow_def \<Rightarrow> (node_id \<times> int) list" where
  "node_index w =
     (let ids = map nd_id (wf_nodes w)
      in AList.update OUT_NODE_ID (int (length ids)) (AList.update IN_NODE_ID (- 1)
           (dict_of (zip ids (map int [0..<length ids])))))"

definition index_of :: "workflow_def \<Rightarrow> node_id \<Rightarrow> int" where
  "index_of w i = (case map_of (node_index w) i of Some k \<Rightarrow> k | None \<Rightarrow> 0)"

definition validate_inherit :: "workflow_def \<Rightarrow> node_def \<Rightarrow> pyexc option" where
  "validate_inherit w n =
     (case nd_inherit n of
        None \<Rightarrow> None
      | Some spec \<Rightarrow>
          (case node_by_id w (from_node spec) of
             None \<Rightarrow> Some (invalid UNKNOWN_REFERENCE)
           | Some s \<Rightarrow>
               first_err
                 [raise_if (nd_type s \<noteq> Agent) (invalid NODE_KIND_CONFLICT),
                  raise_if (nd_backend s \<noteq> None \<or> nd_backend n \<noteq> None) (invalid NODE_KIND_CONFLICT),
                  raise_if (nd_deterministic s) (invalid NODE_KIND_CONFLICT),
                  raise_if (from_node spec \<in> fan_out_workers w) (invalid INVALID_FANOUT),
                  raise_if (from_node spec \<noteq> nd_id n \<and> index_of w (nd_id n) \<le> index_of w (from_node spec))
                    (invalid GRAPH_INCOMPLETE),
                  raise_if (from_node spec \<noteq> nd_id n \<and> from_node spec \<notin> unconditional_ancestors w (nd_id n))
                    (invalid GRAPH_INCOMPLETE)]))"

section \<open>Edges\<close>

definition validate_fan_out_edge :: "workflow_def \<Rightarrow> edge_def \<Rightarrow> string \<Rightarrow> string set \<Rightarrow> pyexc option" where
  "validate_fan_out_edge w e port src_outputs =
     (let schemas = output_port_schemas w (src e);
          s = (case map_of schemas port of Some s \<Rightarrow> s | None \<Rightarrow> [])
      in first_err
           [raise_if (port \<notin> src_outputs) (invalid UNKNOWN_REFERENCE),
            raise_if (src e = IN_NODE_ID \<and> map_of schemas port = None) (invalid INVALID_FANOUT),
            raise_if (map_of s ''type'' \<noteq> Some (VStr ''array'')) (invalid INVALID_FANOUT),
            raise_if (port \<notin> set (map (\<lambda>m. fst (jsonpath_root (fst m))) (mapping e))) (invalid INVALID_FANOUT),
            raise_if (loop_max e \<noteq> None) (invalid INVALID_FANOUT),
            raise_if (dst e \<in> loop_touched w) (invalid INVALID_FANOUT),
            raise_if (\<exists>x \<in> set (wf_edges w). fan_out x \<noteq> None \<and> dst x = src e) (invalid INVALID_FANOUT)])"

definition validate_fan_in_edge :: "workflow_def \<Rightarrow> edge_def \<Rightarrow> pyexc option" where
  "validate_fan_in_edge w e = raise_if (src e \<notin> fan_out_workers w) (invalid INVALID_FANOUT)"

definition validate_concat_source :: "workflow_def \<Rightarrow> edge_def \<Rightarrow> string \<Rightarrow> pyexc option" where
  "validate_concat_source w e sport =
     (let (head, subpath) = jsonpath_root sport
      in raise_if (fan_in e = Some FanConcat \<and>
           (subpath \<or> map_of (output_port_types w (src e)) head \<noteq> Some ''array'')) (invalid INVALID_FANOUT))"

text \<open>The type a mapping delivers, when it can be told statically.\<close>

definition mapped_type :: "workflow_def \<Rightarrow> edge_def \<Rightarrow> string \<Rightarrow> string option" where
  "mapped_type w e sport =
     (let (head, subpath) = jsonpath_root sport;
          sub = (\<lambda>steps. case map_of (output_port_schemas w (src e)) head of
                   Some s \<Rightarrow> schema_subtype s steps | None \<Rightarrow> None)
      in if fan_in e \<noteq> None then Some ''array''
         else if fan_out e = Some head \<and> \<not> subpath then sub [''[]'']
         else if \<not> subpath then map_of (output_port_types w (src e)) head
         else (case jsonpath_tail_steps sport of None \<Rightarrow> None | Some steps \<Rightarrow> sub steps))"

definition typed_source :: "workflow_def \<Rightarrow> edge_def \<Rightarrow> string \<Rightarrow> bool" where
  "typed_source w e head =
     (map_of (output_port_types w (src e)) head \<noteq> None \<or> map_of (output_port_schemas w (src e)) head \<noteq> None)"

definition input_types :: "node_def \<Rightarrow> (string \<times> string) list" where
  "input_types n = dict_of (map (\<lambda>p. (port_name p, port_type p)) (nd_input_ports n))"

definition validate_mapping :: "workflow_def \<Rightarrow> edge_def \<Rightarrow> string set \<Rightarrow> node_def \<Rightarrow> string \<times> string \<Rightarrow> pyexc option" where
  "validate_mapping w e src_outputs target = (\<lambda>(sport, dport).
     (let head = fst (jsonpath_root sport)
      in first_err
           [raise_if (head \<notin> src_outputs) (invalid UNKNOWN_REFERENCE),
            raise_if (dport \<notin> set (input_names target)) (invalid UNKNOWN_REFERENCE),
            validate_concat_source w e sport,
            (case map_of (input_types target) dport of
               None \<Rightarrow> None
             | Some t \<Rightarrow> raise_if (typed_source w e head \<and> mapped_type w e sport \<notin> {None, Some t}) (invalid TYPE_MISMATCH))]))"

type_synonym feeds = "((node_id \<times> string) \<times> nat) list"

definition bump :: "node_id \<times> string \<Rightarrow> feeds \<Rightarrow> feeds" where
  "bump k d = AList.update k ((case map_of d k of Some n \<Rightarrow> n | None \<Rightarrow> 0) + 1) d"

text \<open>The mapping loop counts a mapping once it has passed; the first one that fails stops it,
  and what was counted before stays.\<close>

fun feed_mappings ::
  "workflow_def \<Rightarrow> edge_def \<Rightarrow> string set \<Rightarrow> node_def \<Rightarrow> (string \<times> string) list \<Rightarrow> feeds \<times> feeds
   \<Rightarrow> pyexc option \<times> feeds \<times> feeds" where
  "feed_mappings w e outs target [] (fed, ufed) = (None, fed, ufed)"
| "feed_mappings w e outs target (m # ms) (fed, ufed) =
     (case validate_mapping w e outs target m of
        Some x \<Rightarrow> (Some x, fed, ufed)
      | None \<Rightarrow>
          feed_mappings w e outs target ms
            (bump (dst e, snd m) fed,
             if edge_when e = None \<and> loop_max e = None then bump (dst e, snd m) ufed else ufed))"

definition in_ports :: "workflow_def \<Rightarrow> string set" where
  "in_ports w = set (map fst (wf_initial_state w))"

definition validate_edge_shape :: "workflow_def \<Rightarrow> edge_def \<Rightarrow> pyexc option" where
  "validate_edge_shape w e =
     (let outs = output_port_names w (src e) (in_ports w)
      in first_err
           [raise_if (src e = OUT_NODE_ID) (invalid DUPLICATE_OR_RESERVED_ID),
            raise_if (src e \<noteq> IN_NODE_ID \<and> node_by_id w (src e) = None) (invalid UNKNOWN_REFERENCE),
            raise_if (dst e \<noteq> OUT_NODE_ID \<and> node_by_id w (dst e) = None) (invalid UNKNOWN_REFERENCE),
            raise_if (dst e = IN_NODE_ID) (invalid DUPLICATE_OR_RESERVED_ID),
            raise_if (loop_strict e \<and> (case loop_max e of None \<Rightarrow> True | Some m \<Rightarrow> m < 1 \<or> edge_when e = None)) (invalid INVALID_LOOP),
            (case edge_when e of None \<Rightarrow> None
             | Some c \<Rightarrow> raise_if (\<not> set (condition_operand_roots c) \<subseteq> outs) (invalid INVALID_TEMPLATE)),
            (case fan_out e of None \<Rightarrow> None | Some port \<Rightarrow> validate_fan_out_edge w e port outs),
            (case fan_in e of None \<Rightarrow> None | Some mode \<Rightarrow> validate_fan_in_edge w e)])"

definition validate_output_mapping :: "workflow_def \<Rightarrow> edge_def \<Rightarrow> string \<times> string \<Rightarrow> pyexc option" where
  "validate_output_mapping w e m =
     first_err
       [raise_if (fst (jsonpath_root (fst m)) \<notin> output_port_names w (src e) (in_ports w)) (invalid UNKNOWN_REFERENCE),
        validate_concat_source w e (fst m)]"

definition validate_edge :: "workflow_def \<Rightarrow> edge_def \<Rightarrow> feeds \<times> feeds \<Rightarrow> pyexc option \<times> feeds \<times> feeds" where
  "validate_edge w e feeds =
     (case validate_edge_shape w e of
        Some x \<Rightarrow> (Some x, feeds)
      | None \<Rightarrow>
          if dst e = OUT_NODE_ID then (first_err (map (validate_output_mapping w e) (mapping e)), feeds)
          else (case node_by_id w (dst e) of
                  None \<Rightarrow> (Some KeyError, feeds)
                | Some target \<Rightarrow>
                    (let (err, feeds) = feed_mappings w e (output_port_names w (src e) (in_ports w)) target (mapping e) feeds
                     in (first_err
                           [err,
                            raise_if (index_of w (dst e) \<le> index_of w (src e) \<and>
                              \<not> (case loop_max e of None \<Rightarrow> False | Some m \<Rightarrow> 1 \<le> m)) (invalid INVALID_LOOP)],
                         feeds))))"

fun edge_items :: "workflow_def \<Rightarrow> edge_def list \<Rightarrow> feeds \<times> feeds \<Rightarrow> checks \<times> feeds \<times> feeds" where
  "edge_items w [] feeds = (passed, feeds)"
| "edge_items w (e # es) feeds =
     (let (err, feeds) = validate_edge w e feeds;
          (rest, feeds) = edge_items w es feeds
      in (and_then (item None (Some (src e, dst e)) err) rest, feeds))"

section \<open>Loop regions\<close>

definition region_of :: "frontier_spec \<Rightarrow> node_id \<Rightarrow> node_id set" where
  "region_of sp d = (case map_of (fs_regions sp) d of Some region \<Rightarrow> set region | None \<Rightarrow> {})"

definition regions_cross :: "node_id set \<Rightarrow> node_id set \<Rightarrow> bool" where
  "regions_cross a b = (a \<inter> b \<noteq> {} \<and> \<not> (a \<subseteq> b \<or> b \<subseteq> a))"

fun some_cross :: "frontier_spec \<Rightarrow> node_id list \<Rightarrow> bool" where
  "some_cross sp [] = False"
| "some_cross sp (d # ds) = ((\<exists>r \<in> set ds. regions_cross (region_of sp d) (region_of sp r)) \<or> some_cross sp ds)"

definition validate_loop_regions :: "load_env \<Rightarrow> workflow_def \<Rightarrow> pyexc option" where
  "validate_loop_regions env w =
     (let loops = filter (\<lambda>e. loop_max e \<noteq> None) (wf_edges w)
      in if loops = [] then None
         else (case build_frontier_spec (le_sha env) w of
                 None \<Rightarrow> Some KeyError
               | Some sp \<Rightarrow>
                   first_err
                     [raise_if (\<exists>e \<in> set loops. src e \<notin> region_of sp (dst e)) (invalid INVALID_LOOP),
                      raise_if (some_cross sp (map fst (fs_regions sp))) (invalid INVALID_LOOP)]))"

section \<open>The whole validation\<close>

definition validate_ids :: "workflow_def \<Rightarrow> pyexc option" where
  "validate_ids w =
     (let ids = map nd_id (wf_nodes w)
      in first_err
           [first_err (map (\<lambda>i. if i = [] then Some (invalid MISSING_REQUIRED)
              else raise_if (i = IN_NODE_ID \<or> i = OUT_NODE_ID) (invalid DUPLICATE_OR_RESERVED_ID)) ids),
            raise_if (\<not> distinct ids) (invalid DUPLICATE_OR_RESERVED_ID)])"

definition validate_entry :: "workflow_def \<Rightarrow> pyexc option" where
  "validate_entry w =
     first_err
       [raise_if (wf_entry w \<noteq> [] \<and> node_by_id w (wf_entry w) = None) (invalid UNKNOWN_REFERENCE),
        raise_if (entry_frontier w = []) (invalid GRAPH_INCOMPLETE)]"

definition validate_provider :: "workflow_def \<Rightarrow> pyexc option" where
  "validate_provider w =
     raise_if ((\<exists>n \<in> set (wf_nodes w). nd_type n = Agent \<and> nd_backend n = None) \<and> wf_provider w = [])
       (invalid PROVIDER_REQUIRED)"

definition validate_tool_ref :: "string \<times> string \<Rightarrow> pyexc option" where
  "validate_tool_ref t =
     (if fst t = [] then Some (invalid MISSING_REQUIRED)
      else raise_if (\<not> run_ref_ok (snd t)) (invalid INVALID_VALUE))"

definition validate_subflow_scope :: "workflow_def \<Rightarrow> node_def \<Rightarrow> pyexc option" where
  "validate_subflow_scope w n =
     raise_if (nd_type n = Subflow \<and> (nd_id n \<in> loop_touched w \<or> nd_id n \<in> fan_out_workers w)) (invalid INVALID_SUBFLOW)"

definition validate_fed :: "feeds \<Rightarrow> node_def \<Rightarrow> pyexc option" where
  "validate_fed fed n =
     raise_if (\<exists>p \<in> set (nd_input_ports n). port_required p \<and>
       map_of fed (nd_id n, port_name p) \<in> {None, Some 0}) (invalid GRAPH_INCOMPLETE)"

definition validate_workflow_into ::
  "load_env \<Rightarrow> (workflow_def \<Rightarrow> pyexc option) \<Rightarrow> string option \<Rightarrow> workflow_def \<Rightarrow> checks" where
  "validate_workflow_into env check_child base w =
     (let (edge_checks, fed, ufed) = edge_items w (wf_edges w) ([], [])
      in foldr and_then
           [fatal (validate_ids w),
            fatal (raise_if (detect_cycle w \<noteq> None) (invalid INVALID_LOOP)),
            fatal (validate_entry w),
            fatal (validate_provider w),
            fatal (first_err (map validate_tool_ref (wf_tool_refs w))),
            each_item (\<lambda>n. item (Some (nd_id n)) None (validate_node env check_child base w n)) (wf_nodes w),
            fatal (first_err (map (validate_subflow_scope w) (wf_nodes w))),
            each_item (\<lambda>n. item (Some (nd_id n)) None (validate_inherit w n)) (wf_nodes w),
            edge_checks,
            fatal (validate_loop_regions env w),
            fatal (raise_if (\<exists>c \<in> set (map snd ufed). 1 < c) (invalid AMBIGUOUS_INPUT)),
            each_item (\<lambda>n. item (Some (nd_id n)) None (validate_fed fed n)) (wf_nodes w)]
           passed)"

definition close_errors :: "checks \<Rightarrow> pyexc + validation_error list" where
  "close_errors r =
     (case snd r of None \<Rightarrow> Inr (fst r) | Some (ValidationError v) \<Rightarrow> Inr (fst r @ [v]) | Some x \<Rightarrow> Inl x)"

definition first_error :: "pyexc + validation_error list \<Rightarrow> pyexc option" where
  "first_error r = (case r of Inl x \<Rightarrow> Some x | Inr [] \<Rightarrow> None | Inr (v # vs) \<Rightarrow> Some (ValidationError v))"

lemma each_item_cong: "(\<And>x. x \<in> set xs \<Longrightarrow> f x = g x) \<Longrightarrow> each_item f xs = each_item g xs"
  by (induction xs) (simp_all add: each_item_def)

lemma validate_workflow_into_cong [fundef_cong]:
  assumes "w = w'" and "\<And>n c. n \<in> set (wf_nodes w') \<Longrightarrow> nd_child n = Some c \<Longrightarrow> f c = g c"
  shows "validate_workflow_into env f base w = validate_workflow_into env g base w'"
proof -
  have "validate_subflow_node f n = validate_subflow_node g n" if "n \<in> set (wf_nodes w')" for n
    using assms(2) [OF that] by (cases "nd_child n") (auto simp: validate_subflow_node_def)
  then have "validate_node env f base w' n = validate_node env g base w' n" if "n \<in> set (wf_nodes w')" for n
    using that by (cases "nd_type n") (simp_all add: validate_node_def)
  then show ?thesis
    using assms(1) each_item_cong [of "wf_nodes w'" "\<lambda>n. item (Some (nd_id n)) None (validate_node env f base w' n)"
      "\<lambda>n. item (Some (nd_id n)) None (validate_node env g base w' n)"]
    by (simp add: validate_workflow_into_def cong: if_cong)
qed

lemma child_smaller: "n \<in> set (wf_nodes w) \<Longrightarrow> nd_child n = Some c \<Longrightarrow> size c < size w"
proof -
  assume n: "n \<in> set (wf_nodes w)" and c: "nd_child n = Some c"
  have "size c < size n" using c by (cases n) simp
  moreover have "size n \<le> size_list size (wf_nodes w)" using n by (rule size_list_estimation') simp
  moreover have "size_list size (wf_nodes w) < size w" by (cases w) simp
  ultimately show ?thesis by simp
qed

text \<open>A child is validated without the directory of the file: \<open>validate_workflow(node.child)\<close>.\<close>

function validation_errors :: "load_env \<Rightarrow> string option \<Rightarrow> workflow_def \<Rightarrow> pyexc + validation_error list" where
  "validation_errors env base w =
     close_errors (validate_workflow_into env (\<lambda>c. first_error (validation_errors env None c)) base w)"
  by pat_completeness auto
termination
  by (relation "measure (\<lambda>(env, base, w). size w)") (auto intro: child_smaller)

declare validation_errors.simps [simp del]

definition validate_workflow :: "load_env \<Rightarrow> string option \<Rightarrow> workflow_def \<Rightarrow> pyexc option" where
  "validate_workflow env base w = first_error (validation_errors env base w)"

datatype unconfined = OwnSession string | BashTool

text \<open>Why a workflow cannot be confined to its workspace; each reason is the path of node ids to
  it, and what is wrong there.\<close>

function unconfinable_reasons :: "workflow_def \<Rightarrow> (node_id list \<times> unconfined) list" where
  "unconfinable_reasons w =
     concat (map (\<lambda>n.
       (case nd_backend n of None \<Rightarrow> [] | Some b \<Rightarrow> [([nd_id n], OwnSession b)])
       @ (if ''bash'' \<in> set (nd_tools n) then [([nd_id n], BashTool)] else [])
       @ (case nd_child n of None \<Rightarrow> []
          | Some c \<Rightarrow> map (\<lambda>(p, r). (nd_id n # p, r)) (unconfinable_reasons c))) (wf_nodes w))"
  by pat_completeness auto
termination
  by (relation "measure size") (auto intro: child_smaller)

declare unconfinable_reasons.simps [simp del]

end
