(* ===== verification/Valid_Facts.thy ===== *)
theory Valid_Facts
  imports Loader_Validate
begin

text \<open>
  What it means that \<open>validation_errors\<close> returns nothing: each check passed, and the feed
  counters say how many mappings write each input port. The search for unconditional ancestors
  is exact. These facts carry the properties of \<open>Loader_Valid\<close>.
\<close>

section \<open>What a clean pass means\<close>

lemma and_then_passed: "and_then a b = passed \<longleftrightarrow> a = passed \<and> b = passed"
  by (cases a; cases b) (auto simp: and_then_def passed_def)

lemma item_passed: "item n e c = passed \<longleftrightarrow> c = None"
  by (auto simp: item_def passed_def split: option.splits pyexc.splits)

lemma fatal_passed: "fatal c = passed \<longleftrightarrow> c = None"
  by (simp add: fatal_def passed_def)

lemma each_item_passed: "each_item f xs = passed \<longleftrightarrow> (\<forall>x \<in> set xs. f x = passed)"
  by (induction xs) (auto simp: each_item_def and_then_passed)

lemma close_errors_clean: "close_errors r = Inr [] \<longleftrightarrow> r = passed"
  by (cases r) (auto simp: close_errors_def passed_def split: option.splits pyexc.splits)

lemma first_error_None: "first_error r = None \<longleftrightarrow> r = Inr []"
  by (auto simp: first_error_def split: sum.splits list.splits)

lemmas pass_simps = and_then_passed item_passed fatal_passed each_item_passed

definition valid :: "load_env \<Rightarrow> string option \<Rightarrow> workflow_def \<Rightarrow> bool" where
  "valid env base w = (validation_errors env base w = Inr [])"

lemma validate_workflow_None: "validate_workflow env base w = None \<longleftrightarrow> valid env base w"
  by (simp add: validate_workflow_def valid_def first_error_None)

section \<open>Counting feeds\<close>

definition feed_count :: "feeds \<Rightarrow> node_id \<times> string \<Rightarrow> nat" where
  "feed_count d k = (case map_of d k of Some n \<Rightarrow> n | None \<Rightarrow> 0)"

lemma feed_count_bump [simp]: "feed_count (bump k d) k' = feed_count d k' + (if k' = k then 1 else 0)"
  by (simp add: feed_count_def bump_def)

lemma feed_count_Nil [simp]: "feed_count [] k = 0"
  by (simp add: feed_count_def)

text \<open>The mappings that write a port, over the edges a predicate selects.\<close>

definition producers :: "(edge_def \<Rightarrow> bool) \<Rightarrow> edge_def list \<Rightarrow> node_id \<times> string \<Rightarrow> (edge_def \<times> string \<times> string) list" where
  "producers P es k =
     concat (map (\<lambda>e. map (Pair e) (filter (\<lambda>m. (dst e, snd m) = k) (mapping e)))
       (filter (\<lambda>e. dst e \<noteq> OUT_NODE_ID \<and> P e) es))"

definition always_on :: "edge_def \<Rightarrow> bool" where
  "always_on e = (edge_when e = None \<and> loop_max e = None)"

lemma feed_mappings_count:
  "feed_mappings w e outs target ms (fed, ufed) = (None, fed', ufed') \<Longrightarrow>
     feed_count fed' k = feed_count fed k + length (filter (\<lambda>m. (dst e, snd m) = k) ms) \<and>
     feed_count ufed' k = feed_count ufed k + (if always_on e then length (filter (\<lambda>m. (dst e, snd m) = k) ms) else 0)"
  by (induction ms arbitrary: fed ufed) (auto simp: always_on_def split: option.splits)

lemma feed_mappings_ok:
  "feed_mappings w e outs target ms feeds = (None, feeds') \<Longrightarrow> m \<in> set ms \<Longrightarrow> validate_mapping w e outs target m = None"
  by (induction ms arbitrary: feeds) (auto split: option.splits)

definition edge_ok :: "workflow_def \<Rightarrow> edge_def \<Rightarrow> bool" where
  "edge_ok w e \<longleftrightarrow>
     validate_edge_shape w e = None \<and>
     (if dst e = OUT_NODE_ID then \<forall>m \<in> set (mapping e). validate_output_mapping w e m = None
      else (\<exists>target. node_by_id w (dst e) = Some target \<and>
              (\<forall>m \<in> set (mapping e). validate_mapping w e (output_port_names w (src e) (in_ports w)) target m = None)) \<and>
           (index_of w (src e) < index_of w (dst e) \<or> (\<exists>m. loop_max e = Some m \<and> 1 \<le> m)))"

lemma validate_edge_ok:
  assumes "validate_edge w e (fed, ufed) = (None, fed', ufed')"
  shows "edge_ok w e \<and>
     feed_count fed' k = feed_count fed k + length (producers (\<lambda>e. True) [e] k) \<and>
     feed_count ufed' k = feed_count ufed k + length (producers always_on [e] k)"
proof -
  have shape: "validate_edge_shape w e = None"
    using assms by (auto simp: validate_edge_def split: option.splits)
  show ?thesis
  proof (cases "dst e = OUT_NODE_ID")
    case True
    then show ?thesis
      using assms shape by (auto simp: validate_edge_def edge_ok_def producers_def image_subset_iff)
  next
    case False
    then obtain target where target: "node_by_id w (dst e) = Some target"
      using assms shape by (auto simp: validate_edge_def split: option.splits)
    obtain err fed1 ufed1 where feed: "feed_mappings w e (output_port_names w (src e) (in_ports w)) target (mapping e) (fed, ufed)
        = (err, fed1, ufed1)" by (metis prod_cases3)
    then have ok: "err = None" "fed1 = fed'" "ufed1 = ufed'"
      and order: "index_of w (src e) < index_of w (dst e) \<or> (\<exists>m. loop_max e = Some m \<and> 1 \<le> m)"
      using assms shape False target by (auto simp: validate_edge_def split: option.splits)
    then have feed': "feed_mappings w e (output_port_names w (src e) (in_ports w)) target (mapping e) (fed, ufed)
        = (None, fed', ufed')" using feed by simp
    have "\<forall>m \<in> set (mapping e). validate_mapping w e (output_port_names w (src e) (in_ports w)) target m = None"
      using feed_mappings_ok [OF feed'] by blast
    then show ?thesis
      using feed_mappings_count [OF feed', of k] shape False target order
      by (simp add: edge_ok_def producers_def)
  qed
qed

lemma producers_Cons: "length (producers P (e # es) k) = length (producers P [e] k) + length (producers P es k)"
  by (simp add: producers_def)

lemma edge_items_ok:
  "edge_items w es (fed, ufed) = (passed, fed', ufed') \<Longrightarrow>
     (\<forall>e \<in> set es. edge_ok w e) \<and>
     feed_count fed' k = feed_count fed k + length (producers (\<lambda>e. True) es k) \<and>
     feed_count ufed' k = feed_count ufed k + length (producers always_on es k)"
proof (induction es arbitrary: fed ufed)
  case Nil
  then show ?case by (simp add: producers_def)
next
  case (Cons e es)
  obtain err fed1 ufed1 where e: "validate_edge w e (fed, ufed) = (err, fed1, ufed1)" by (metis prod_cases3)
  obtain rest fed2 ufed2 where es: "edge_items w es (fed1, ufed1) = (rest, fed2, ufed2)" by (metis prod_cases3)
  have "and_then (item None (Some (src e, dst e)) err) rest = passed" "fed2 = fed'" "ufed2 = ufed'"
    using Cons.prems e es by simp_all
  then have "err = None" "rest = passed" by (simp_all add: pass_simps)
  then have "edge_items w es (fed1, ufed1) = (passed, fed', ufed')" and "validate_edge w e (fed, ufed) = (None, fed1, ufed1)"
    using e es \<open>fed2 = fed'\<close> \<open>ufed2 = ufed'\<close> by simp_all
  then show ?case
    using Cons.IH [of fed1 ufed1] validate_edge_ok [of w e fed ufed fed1 ufed1 k] producers_Cons [of _ e es k] by simp
qed

section \<open>The facts of a valid workflow\<close>

lemma valid_facts:
  assumes "valid env base w"
  shows "validate_ids w = None" and "detect_cycle w = None" and "validate_entry w = None" and "validate_provider w = None"
    and "\<forall>t \<in> set (wf_tool_refs w). validate_tool_ref t = None"
    and "\<forall>n \<in> set (wf_nodes w). validate_node env (validate_workflow env None) base w n = None"
    and "\<forall>n \<in> set (wf_nodes w). validate_subflow_scope w n = None"
    and "\<forall>n \<in> set (wf_nodes w). validate_inherit w n = None"
    and "\<forall>e \<in> set (wf_edges w). edge_ok w e"
    and "validate_loop_regions env w = None"
    and "length (producers always_on (wf_edges w) k) \<le> 1"
    and "\<forall>n \<in> set (wf_nodes w). \<forall>p \<in> set (nd_input_ports n). port_required p \<longrightarrow>
          producers (\<lambda>e. True) (wf_edges w) (nd_id n, port_name p) \<noteq> []"
proof -
  have child: "(\<lambda>c. first_error (validation_errors env None c)) = validate_workflow env None"
    by (simp add: validate_workflow_def fun_eq_iff)
  obtain checks fed ufed where items: "edge_items w (wf_edges w) ([], []) = (checks, fed, ufed)" by (metis prod_cases3)
  have "validate_workflow_into env (validate_workflow env None) base w = passed"
    using assms unfolding valid_def by (subst (asm) validation_errors.simps) (simp add: close_errors_clean child)
  then have *: "validate_ids w = None" "detect_cycle w = None" "validate_entry w = None" "validate_provider w = None"
    "\<forall>t \<in> set (wf_tool_refs w). validate_tool_ref t = None"
    "\<forall>n \<in> set (wf_nodes w). validate_node env (validate_workflow env None) base w n = None"
    "\<forall>n \<in> set (wf_nodes w). validate_subflow_scope w n = None"
    "\<forall>n \<in> set (wf_nodes w). validate_inherit w n = None"
    "checks = passed" "validate_loop_regions env w = None"
    "\<forall>c \<in> set (map snd ufed). c \<le> 1"
    "\<forall>n \<in> set (wf_nodes w). validate_fed fed n = None"
    using items by (auto simp: validate_workflow_into_def pass_simps first_err_map_None not_less simp del: first_err_None_iff)
  show "validate_ids w = None" "detect_cycle w = None" "validate_entry w = None" "validate_provider w = None"
    "\<forall>t \<in> set (wf_tool_refs w). validate_tool_ref t = None"
    "\<forall>n \<in> set (wf_nodes w). validate_node env (validate_workflow env None) base w n = None"
    "\<forall>n \<in> set (wf_nodes w). validate_subflow_scope w n = None"
    "\<forall>n \<in> set (wf_nodes w). validate_inherit w n = None" "validate_loop_regions env w = None"
    by (fact *)+
  have edges: "edge_items w (wf_edges w) ([], []) = (passed, fed, ufed)" using items *(9) by simp
  show "\<forall>e \<in> set (wf_edges w). edge_ok w e" using edge_items_ok [OF edges] by blast
  show "length (producers always_on (wf_edges w) k) \<le> 1"
  proof -
    have "feed_count ufed k \<le> 1"
      using *(11) by (cases "map_of ufed k") (force simp: feed_count_def dest: map_of_SomeD)+
    then show ?thesis using edge_items_ok [OF edges, of k] by simp
  qed
  show "\<forall>n \<in> set (wf_nodes w). \<forall>p \<in> set (nd_input_ports n). port_required p \<longrightarrow>
          producers (\<lambda>e. True) (wf_edges w) (nd_id n, port_name p) \<noteq> []"
  proof (intro ballI impI)
    fix n p assume "n \<in> set (wf_nodes w)" "p \<in> set (nd_input_ports n)" "port_required p"
    then have "map_of fed (nd_id n, port_name p) \<notin> {None, Some 0}"
      using *(12) unfolding validate_fed_def raise_if_simps by blast
    then have "feed_count fed (nd_id n, port_name p) \<noteq> 0"
      by (cases "map_of fed (nd_id n, port_name p)") (simp_all add: feed_count_def)
    then show "producers (\<lambda>e. True) (wf_edges w) (nd_id n, port_name p) \<noteq> []"
      using edge_items_ok [OF edges, of "(nd_id n, port_name p)"] by auto
  qed
qed

lemma valid_ids:
  assumes "validate_ids w = None"
  shows "distinct (map nd_id (wf_nodes w))" and "IN_NODE_ID \<notin> nd_id ` set (wf_nodes w)"
    and "OUT_NODE_ID \<notin> nd_id ` set (wf_nodes w)" and "[] \<notin> nd_id ` set (wf_nodes w)"
proof -
  have each: "i \<noteq> [] \<and> i \<noteq> IN_NODE_ID \<and> i \<noteq> OUT_NODE_ID" if "i \<in> nd_id ` set (wf_nodes w)" for i
  proof -
    have "\<forall>i \<in> set (map nd_id (wf_nodes w)). (if i = [] then Some (invalid MISSING_REQUIRED)
        else raise_if (i = IN_NODE_ID \<or> i = OUT_NODE_ID) (invalid DUPLICATE_OR_RESERVED_ID)) = None"
      using assms unfolding validate_ids_def Let_def by (simp only: first_err_None_iff) (simp del: first_err_None_iff add: first_err_map_None)
    then show ?thesis using that by (cases "i = []") force+
  qed
  show "distinct (map nd_id (wf_nodes w))" using assms by (simp add: validate_ids_def Let_def)
  show "IN_NODE_ID \<notin> nd_id ` set (wf_nodes w)" "OUT_NODE_ID \<notin> nd_id ` set (wf_nodes w)" "[] \<notin> nd_id ` set (wf_nodes w)"
    using each by blast+
qed

lemma node_by_id_None:
  "distinct (map nd_id (wf_nodes w)) \<Longrightarrow> node_by_id w i = None \<longleftrightarrow> i \<notin> nd_id ` set (wf_nodes w)"
  by (auto simp: node_by_id_find find_node_def find_None_iff)

lemma node_by_id_Some:
  assumes "distinct (map nd_id (wf_nodes w))"
  shows "node_by_id w i = Some n \<longleftrightarrow> n \<in> set (wf_nodes w) \<and> nd_id n = i"
  using find_node_Some [of w i n] find_node_distinct [OF assms, of n] unfolding node_by_id_find [OF assms] by blast

lemmas node_by_id_mem = node_by_id_None node_by_id_Some

lemma edge_ok_shape:
  assumes "edge_ok w e" and "distinct (map nd_id (wf_nodes w))"
  shows "src e \<noteq> OUT_NODE_ID" and "dst e \<noteq> IN_NODE_ID"
    and "src e = IN_NODE_ID \<or> src e \<in> nd_id ` set (wf_nodes w)"
    and "dst e = OUT_NODE_ID \<or> dst e \<in> nd_id ` set (wf_nodes w)"
    and "loop_strict e \<Longrightarrow> (\<exists>m. loop_max e = Some m \<and> 1 \<le> m) \<and> edge_when e \<noteq> None"
    and "edge_when e = Some c \<Longrightarrow> set (condition_operand_roots c) \<subseteq> output_port_names w (src e) (in_ports w)"
    and "fan_out e = Some port \<Longrightarrow> validate_fan_out_edge w e port (output_port_names w (src e) (in_ports w)) = None"
    and "fan_in e \<noteq> None \<Longrightarrow> src e \<in> fan_out_workers w"
  using assms(1)
  by (auto simp: edge_ok_def validate_edge_shape_def Let_def validate_fan_in_edge_def node_by_id_mem(1) [OF assms(2)]
      split: option.splits)

lemma valid_graph_ok:
  assumes "valid env base w"
  shows "graph_ok w"
proof -
  note facts = valid_facts [OF assms] and ids = valid_ids [OF valid_facts(1) [OF assms]]
  have "edge_named (set (map nd_id (wf_nodes w))) e" if "e \<in> set (wf_edges w)" for e
    using edge_ok_shape [of w e] facts(9) that ids(1) by (auto simp: edge_named_def)
  moreover have "wf_entry w = [] \<or> wf_entry w \<in> nd_id ` set (wf_nodes w)"
    using facts(3) node_by_id_mem(1) [OF ids(1)] by (auto simp: validate_entry_def)
  ultimately show ?thesis using ids by (simp add: graph_ok_def)
qed

lemma map_of_zip_nth: "distinct ids \<Longrightarrow> k < length ids \<Longrightarrow> map_of (zip ids (map int [0..<length ids])) (ids ! k) = Some (int k)"
  by (subst map_of_zip_nth) simp_all

lemma index_of_nth:
  assumes "validate_ids w = None" and "k < length (wf_nodes w)"
  shows "index_of w (nd_id (wf_nodes w ! k)) = int k"
proof -
  note ids = valid_ids [OF assms(1)]
  let ?ids = "map nd_id (wf_nodes w)"
  have ne: "nd_id (wf_nodes w ! k) \<noteq> IN_NODE_ID" "nd_id (wf_nodes w ! k) \<noteq> OUT_NODE_ID"
    using ids(2,3) nth_mem [OF assms(2)] by (metis imageI)+
  have "map_of (dict_of (zip ?ids (map int [0..<length ?ids]))) = map_of (zip ?ids (map int [0..<length ?ids]))"
    by (rule map_of_dict_of_distinct) (simp only: map_fst_zip length_map length_upt minus_nat.diff_0 ids(1))
  moreover have "map_of (zip ?ids (map int [0..<length ?ids])) (?ids ! k) = Some (int k)"
    by (rule map_of_zip_nth) (use ids(1) assms(2) in simp_all)
  ultimately show ?thesis using ne assms(2) by (simp add: index_of_def node_index_def Let_def)
qed

lemma edge_relates_ancestors:
  "set (always_before es n) = {src e | e. e \<in> set es \<and> dst e = n \<and> always_on e \<and> src e \<notin> {IN_NODE_ID, OUT_NODE_ID}}"
  by (auto simp: always_before_def always_on_def)

definition always_rel :: "edge_def list \<Rightarrow> (node_id \<times> node_id) set" where
  "always_rel es = {(src e, dst e) | e. e \<in> set es \<and> always_on e \<and> src e \<notin> {IN_NODE_ID, OUT_NODE_ID}}"

lemma ancestors_sound:
  assumes "\<And>x. x \<in> seen \<Longrightarrow> (x, n) \<in> (always_rel es)\<^sup>+" and "\<And>x. x \<in> set frontier \<Longrightarrow> (x, n) \<in> (always_rel es)\<^sup>+"
    and "y \<in> ancestors es seen frontier"
  shows "(y, n) \<in> (always_rel es)\<^sup>+"
  using assms
proof (induction es seen frontier rule: ancestors.induct)
  case (1 es seen)
  then show ?case by simp
next
  case (2 es seen current frontier)
  show ?case
  proof (cases "current \<in> seen")
    case True
    then show ?thesis using 2 by (simp add: ancestors.simps(2))
  next
    case False
    have cur: "(current, n) \<in> (always_rel es)\<^sup>+" using "2.prems"(2) by simp
    have step: "(x, n) \<in> (always_rel es)\<^sup>+" if "x \<in> set (always_before es current)" for x
    proof -
      have "(x, current) \<in> always_rel es" using that by (auto simp: edge_relates_ancestors always_rel_def)
      then show ?thesis using cur by (rule trancl_into_trancl2)
    qed
    show ?thesis
      by (rule "2.IH"(2) [OF False]) (use "2.prems" False cur step in \<open>auto simp: ancestors.simps(2)\<close>)
  qed
qed

lemma ancestors_mono: "seen \<subseteq> ancestors es seen frontier"
  by (induction es seen frontier rule: ancestors.induct) (auto simp: ancestors.simps(2))

lemma ancestors_closed:
  assumes "\<And>x. x \<in> seen \<Longrightarrow> set (always_before es x) \<subseteq> seen \<union> set frontier"
  shows "set frontier \<subseteq> ancestors es seen frontier \<and>
    (\<forall>x \<in> ancestors es seen frontier. set (always_before es x) \<subseteq> ancestors es seen frontier)"
  using assms
proof (induction es seen frontier rule: ancestors.induct)
  case (1 es seen)
  then show ?case by simp
next
  case (2 es seen current frontier)
  show ?case
  proof (cases "current \<in> seen")
    case True
    have "\<And>x. x \<in> seen \<Longrightarrow> set (always_before es x) \<subseteq> seen \<union> set frontier" using "2.prems" True by auto
    then show ?thesis using "2.IH"(1) [OF True] True ancestors_mono [of seen es frontier] by (auto simp: ancestors.simps(2))
  next
    case False
    have "\<And>x. x \<in> insert current seen \<Longrightarrow> set (always_before es x) \<subseteq> insert current seen \<union> set (rev (always_before es current) @ frontier)"
      using "2.prems" by auto
    then show ?thesis
      using "2.IH"(2) [OF False] False ancestors_mono [of "insert current seen" es "rev (always_before es current) @ frontier"]
      by (auto simp: ancestors.simps(2))
  qed
qed

text \<open>The search computes exactly the nodes with a path of always-on edges to \<open>n\<close>.\<close>

lemma unconditional_ancestors_exact:
  "unconditional_ancestors w n = {x. (x, n) \<in> (always_rel (wf_edges w))\<^sup>+}"
proof -
  let ?es = "wf_edges w" and ?A = "unconditional_ancestors w n"
  have cl: "set (always_before ?es n) \<subseteq> ?A" "\<And>x. x \<in> ?A \<Longrightarrow> set (always_before ?es x) \<subseteq> ?A"
    using ancestors_closed [of "{}" ?es "rev (always_before ?es n)"] by (auto simp: unconditional_ancestors_def)
  have "x \<in> ?A" if "(x, n) \<in> (always_rel ?es)\<^sup>+" for x
    using that
  proof (induction rule: converse_trancl_induct)
    case (base y)
    then show ?case using cl(1) by (auto simp: always_rel_def edge_relates_ancestors)
  next
    case (step y z)
    then show ?case using cl(2) [of z] by (auto simp: always_rel_def edge_relates_ancestors)
  qed
  moreover have "(x, n) \<in> (always_rel ?es)\<^sup>+" if "x \<in> ?A" for x
    by (rule ancestors_sound [of "{}" n ?es "rev (always_before ?es n)"])
      (use that in \<open>auto simp: unconditional_ancestors_def edge_relates_ancestors always_rel_def intro!: r_into_trancl\<close>)
  ultimately show ?thesis by blast
qed

end
