(* ===== verification/Valid_Demo.thy ===== *)
theory Valid_Demo
  imports Valid_Facts
begin

text \<open>A small workflow with a bounded loop that passes validation; it witnesses the properties.\<close>

definition demo_load :: load_env where
  "demo_load = \<lparr>le_sha = demo_sha, le_skill = (\<lambda>base slug. False), le_script = (\<lambda>code. Some [[''ctx'', ''x'']]), le_tools = [''echo'']\<rparr>"

definition demo_script :: "node_id \<Rightarrow> node_def" where
  "demo_script i = NodeDef i Script '''' None '''' '''' [] [] None [default_port ''x''] [default_port ''y'']
     (Some ''def f(ctx, x): ...'') False None None Fail False None None [] [] None"

text \<open>Two script nodes in a line with a bounded loop back to the first, fed from \<open>$in\<close>.\<close>

definition demo_flow :: workflow_def where
  "demo_flow = WorkflowDef ''demo'' '''' '''' [demo_script ''a'', demo_script ''b'']
     [(edge_default IN_NODE_ID ''a'')\<lparr>mapping := [(''$.x'', ''x'')]\<rparr>,
      (edge_default ''a'' ''b'')\<lparr>mapping := [(''$.y'', ''x'')]\<rparr>,
      (edge_default ''b'' ''a'')\<lparr>mapping := [(''$.y'', ''x'')], loop_max := Some 2\<rparr>,
      (edge_default ''b'' OUT_NODE_ID)\<lparr>mapping := [(''$.y'', ''answer'')]\<rparr>]
     '''' [(''x'', VStr ''1'')] [] [] 0 0 None"


lemma demo_flow_steps:
  "validate_ids demo_flow = None"
  "detect_cycle demo_flow = None"
  "validate_entry demo_flow = None"
  "validate_provider demo_flow = None"
  "\<forall>n \<in> set (wf_nodes demo_flow). validate_subflow_scope demo_flow n = None"
  "\<forall>n \<in> set (wf_nodes demo_flow). validate_inherit demo_flow n = None"
  by code_simp+

lemma demo_flow_nodes: "validate_node demo_load f None demo_flow (demo_script i) = None"
  by (simp add: validate_node_def demo_script_def validate_skills_def validate_script_node_def demo_load_def
      default_port_def string_schema_def port_type_def schema_type_def VALID_TYPES_def input_names_def)

lemma demo_flow_edges:
  "edge_items demo_flow (wf_edges demo_flow) ([], []) =
     (passed, [((''a'', ''x''), 2), ((''b'', ''x''), 1)], [((''a'', ''x''), 1), ((''b'', ''x''), 1)])"
  unfolding passed_def by code_simp

lemma demo_flow_regions: "validate_loop_regions demo_load demo_flow = None"
  by code_simp

lemma demo_flow_fed: "n \<in> set (wf_nodes demo_flow) \<Longrightarrow> validate_fed [((''a'', ''x''), 2), ((''b'', ''x''), 1)] n = None"
  by (auto simp: demo_flow_def validate_fed_def demo_script_def default_port_def)

lemma demo_flow_valid: "valid demo_load base demo_flow"
proof -
  have nodes: "n \<in> set (wf_nodes demo_flow) \<Longrightarrow> n = demo_script ''a'' \<or> n = demo_script ''b''" for n
    by (auto simp: demo_flow_def)
  have "validate_node demo_load f base demo_flow (demo_script i) = validate_node demo_load f None demo_flow (demo_script i)" for f i
    by (simp add: validate_node_def validate_skills_def demo_script_def)
  then have "\<forall>n \<in> set (wf_nodes demo_flow). validate_node demo_load f base demo_flow n = None" for f
    using nodes demo_flow_nodes by metis
  moreover have "wf_tool_refs demo_flow = []" by (simp add: demo_flow_def)
  ultimately have "validate_workflow_into demo_load f base demo_flow = passed" for f
    using demo_flow_steps demo_flow_edges demo_flow_regions demo_flow_fed
    by (simp add: validate_workflow_into_def pass_simps first_err_map_None del: first_err_None_iff)
  then show ?thesis unfolding valid_def by (subst validation_errors.simps) (simp add: close_errors_clean)
qed

end
