(* ===== verification/Loader_Valid.thy ===== *)
theory Loader_Valid
  imports Valid_Demo
begin

text \<open>
  What a workflow that passes validation is guaranteed to be: topologically ordered but for
  bounded loops, every required input fed and none by two unconditional producers, types that
  agree along every mapping, laminar loop regions, sound inheritance, valid children.
\<close>

section \<open>Order and ports\<close>

text \<open>Declaration order is a topological order: in a valid workflow every edge that is not a
  bounded loop goes from an earlier node to a later one.\<close>

theorem valid_forward_order:
  assumes "valid env base w" and "e \<in> set (wf_edges w)" and "loop_max e = None"
    and "src e \<noteq> IN_NODE_ID" and "dst e \<noteq> OUT_NODE_ID"
  shows "\<exists>i j. i < j \<and> j < length (wf_nodes w) \<and> nd_id (wf_nodes w ! i) = src e \<and> nd_id (wf_nodes w ! j) = dst e"
proof -
  note ids = valid_facts(1) [OF assms(1)]
  have ok: "edge_ok w e" using valid_facts(9) [OF assms(1)] assms(2) by blast
  then have "src e \<in> nd_id ` set (wf_nodes w)" "dst e \<in> nd_id ` set (wf_nodes w)"
    using edge_ok_shape(3,4) [OF ok valid_ids(1) [OF ids]] assms(4,5) by blast+
  then obtain i j where ij: "i < length (wf_nodes w)" "nd_id (wf_nodes w ! i) = src e"
      "j < length (wf_nodes w)" "nd_id (wf_nodes w ! j) = dst e" by (metis imageE in_set_conv_nth)
  have "index_of w (src e) < index_of w (dst e)" using ok assms(3,5) by (auto simp: edge_ok_def)
  then have "i < j" using index_of_nth [OF ids ij(1)] index_of_nth [OF ids ij(3)] ij by simp
  then show ?thesis using ij by blast
qed

lemma valid_forward_order_witness:
  "\<exists>i j. i < j \<and> j < length (wf_nodes demo_flow) \<and> nd_id (wf_nodes demo_flow ! i) = ''a'' \<and> nd_id (wf_nodes demo_flow ! j) = ''b''"
  using valid_forward_order [OF demo_flow_valid, of "(edge_default ''a'' ''b'')\<lparr>mapping := [(''$.y'', ''x'')]\<rparr>"]
  by (simp add: demo_flow_def edge_default_def IN_NODE_ID_def OUT_NODE_ID_def)

lemma producers_nonempty:
  "producers P es k \<noteq> [] \<longleftrightarrow>
     (\<exists>e \<in> set es. dst e \<noteq> OUT_NODE_ID \<and> P e \<and> (\<exists>m \<in> set (mapping e). (dst e, snd m) = k))"
  by (force simp: producers_def filter_empty_conv)

text \<open>C35. Inputs are fed and unambiguous: in a valid workflow every required input port is written by
  some edge mapping, and at most one always-on mapping writes any one port.\<close>

theorem valid_inputs_fed:
  assumes "valid env base w" and "n \<in> set (wf_nodes w)"
  shows "(\<forall>p \<in> set (nd_input_ports n). port_required p \<longrightarrow>
            (\<exists>e \<in> set (wf_edges w). dst e = nd_id n \<and> port_name p \<in> snd ` set (mapping e)))
    \<and> length (producers always_on (wf_edges w) (nd_id n, q)) \<le> 1"
proof (intro conjI ballI impI)
  fix p assume p: "p \<in> set (nd_input_ports n)" "port_required p"
  then have "producers (\<lambda>e. True) (wf_edges w) (nd_id n, port_name p) \<noteq> []"
    using valid_facts(12) [OF assms(1)] assms(2) by blast
  then show "\<exists>e \<in> set (wf_edges w). dst e = nd_id n \<and> port_name p \<in> snd ` set (mapping e)"
    unfolding producers_nonempty by force
qed (rule valid_facts(11) [OF assms(1)])

lemma valid_inputs_fed_witness:
  "\<exists>e \<in> set (wf_edges demo_flow). dst e = ''b'' \<and> ''x'' \<in> snd ` set (mapping e)"
proof -
  have "demo_script ''b'' \<in> set (wf_nodes demo_flow)" by (simp add: demo_flow_def)
  from valid_inputs_fed [OF demo_flow_valid this, THEN conjunct1] show ?thesis
    by (simp add: demo_script_def default_port_def)
qed

text \<open>C36. Mappings are typed: in a valid workflow the source of every mapping between nodes is an output
  port of the source node, its target an input port of the target node, and when the type the
  mapping delivers can be told statically it is the type the target port declares.\<close>

theorem valid_mapping_typed:
  assumes "valid env base w" and "e \<in> set (wf_edges w)" and "dst e \<noteq> OUT_NODE_ID" and "(s, d) \<in> set (mapping e)"
  shows "\<exists>n \<in> set (wf_nodes w). nd_id n = dst e \<and> d \<in> set (input_names n)
    \<and> fst (jsonpath_root s) \<in> output_port_names w (src e) (in_ports w)
    \<and> (\<forall>t. typed_source w e (fst (jsonpath_root s)) \<and> mapped_type w e s = Some t \<longrightarrow> map_of (input_types n) d = Some t)"
proof -
  have ok: "edge_ok w e" using valid_facts(9) [OF assms(1)] assms(2) by blast
  then obtain n where n: "node_by_id w (dst e) = Some n"
    and m: "validate_mapping w e (output_port_names w (src e) (in_ports w)) n (s, d) = None"
    using assms(3,4) by (auto simp: edge_ok_def)
  have "n \<in> set (wf_nodes w)" "nd_id n = dst e"
    using n node_by_id_Some [OF valid_ids(1) [OF valid_facts(1) [OF assms(1)]]] by simp_all
  moreover have port: "d \<in> set (input_names n)" using m by (simp add: validate_mapping_def Let_def)
  moreover have "map_of (input_types n) d = Some t"
    if t: "typed_source w e (fst (jsonpath_root s))" "mapped_type w e s = Some t" for t
  proof -
    have "d \<in> fst ` set (input_types n)"
      using port by (simp add: input_types_def dict_of_keys input_names_def image_image)
    then obtain t' where t': "map_of (input_types n) d = Some t'" using map_of_defined_iff by metis
    then have "t' = t" using m t by (auto simp: validate_mapping_def Let_def)
    then show ?thesis using t' by simp
  qed
  ultimately show ?thesis using m by (auto simp: validate_mapping_def Let_def intro!: bexI [of _ n])
qed

lemma valid_mapping_typed_witness:
  "map_of (input_types (demo_script ''b'')) ''x'' = Some ''string''"
proof -
  let ?e = "(edge_default ''a'' ''b'')\<lparr>mapping := [(''$.y'', ''x'')]\<rparr>"
  have e: "?e \<in> set (wf_edges demo_flow)" by (simp add: demo_flow_def)
  have d: "dst ?e = ''b''" "''b'' \<noteq> OUT_NODE_ID" by (simp_all add: edge_default_def OUT_NODE_ID_def)
  have m: "(''$.y'', ''x'') \<in> set (mapping ?e)" by simp
  have root: "jsonpath_root ''$.y'' = (''y'', False)"
    by (simp add: jsonpath_root_def path_body_def starts_with_def is_sep_def Let_def)
  have ty: "typed_source demo_flow ?e ''y''" "mapped_type demo_flow ?e ''$.y'' = Some ''string''"
    by (simp_all add: typed_source_def mapped_type_def root output_port_types_def output_port_schemas_def
        edge_default_def IN_NODE_ID_def find_node_def demo_flow_def demo_script_def default_port_def
        dict_of_def port_type_def schema_type_def string_schema_def)
  from valid_mapping_typed [OF demo_flow_valid e _ m] d obtain n where
    n: "n \<in> set (wf_nodes demo_flow)" "nd_id n = ''b''" "map_of (input_types n) ''x'' = Some ''string''"
    using ty by (auto simp: root)
  then have "n = demo_script ''b''" by (auto simp: demo_flow_def demo_script_def)
  then show ?thesis using n by simp
qed

section \<open>Loops\<close>

lemma forward_index:
  assumes "valid env base w" and "(a, b) \<in> (forward_rel w)\<^sup>*"
  shows "index_of w a \<le> index_of w b"
  using assms(2)
proof (induction rule: rtrancl_induct)
  case (step b c)
  then obtain e where e: "e \<in> set (wf_edges w)" "src e = b" "dst e = c" "forward_edge e" by (auto simp: forward_rel_def)
  then have "edge_ok w e" using valid_facts(9) [OF assms(1)] by blast
  then have "index_of w b < index_of w c" using e by (auto simp: edge_ok_def forward_edge_def)
  then show ?case using step by simp
qed simp

lemma some_cross_iff:
  "\<not> some_cross sp ds \<Longrightarrow> a \<in> set ds \<Longrightarrow> b \<in> set ds \<Longrightarrow>
     region_of sp a \<inter> region_of sp b = {} \<or> region_of sp a \<subseteq> region_of sp b \<or> region_of sp b \<subseteq> region_of sp a"
proof (induction ds)
  case (Cons d ds)
  consider "a = d" "b = d" | "a = d" "b \<in> set ds" | "b = d" "a \<in> set ds" | "a \<in> set ds" "b \<in> set ds"
    using Cons.prems by auto
  then show ?case
  proof cases
    case 4
    then show ?thesis using Cons by auto
  qed (use Cons.prems in \<open>auto simp: regions_cross_def\<close>)
qed simp

text \<open>C34. Loops are structured: in a valid workflow every bounded loop joins two declared nodes, its
  source is forward-reachable from its destination and its bound is at least one, and the regions
  two loops re-run are disjoint or nested.\<close>

theorem valid_loops_structured:
  assumes "valid env base w" and "\<forall>s. 5 \<le> length (le_sha env s)"
    and "e \<in> set (wf_edges w)" and "loop_max e = Some m" and "e' \<in> set (wf_edges w)" and "loop_max e' = Some m'"
  shows "{src e, dst e} \<subseteq> nd_id ` set (wf_nodes w) \<and> (dst e, src e) \<in> (forward_rel w)\<^sup>* \<and> 1 \<le> m
    \<and> (let R = (forward_rel w)\<^sup>* `` {dst e}; R' = (forward_rel w)\<^sup>* `` {dst e'}
       in R \<inter> R' = {} \<or> R \<subseteq> R' \<or> R' \<subseteq> R)"
proof -
  note graph = valid_graph_ok [OF assms(1)] and ids = valid_ids [OF valid_facts(1) [OF assms(1)]]
  obtain sp where sp: "build_frontier_spec (le_sha env) w = Some sp"
    using wf_build_frontier_spec [OF graph assms(2)] by blast
  have loops: "e \<in> set (filter (\<lambda>e. loop_max e \<noteq> None) (wf_edges w))" "e' \<in> set (filter (\<lambda>e. loop_max e \<noteq> None) (wf_edges w))"
    using assms(3-6) by simp_all
  then have "filter (\<lambda>e. loop_max e \<noteq> None) (wf_edges w) \<noteq> []" by (metis empty_iff list.set(1))
  then have facts: "\<forall>e \<in> set (wf_edges w). loop_max e \<noteq> None \<longrightarrow> src e \<in> region_of sp (dst e)"
      "\<not> some_cross sp (map fst (fs_regions sp))"
    using valid_facts(10) [OF assms(1)] sp by (auto simp: validate_loop_regions_def Let_def split: if_splits)
  note exact = regions_exact [OF graph assms(2) sp]
  have region: "dst x \<noteq> OUT_NODE_ID \<and> dst x \<in> set (map fst (fs_regions sp)) \<and>
      region_of sp (dst x) = (forward_rel w)\<^sup>* `` {dst x} \<and> src x \<in> region_of sp (dst x)"
    if "x \<in> set (wf_edges w)" "loop_max x \<noteq> None" for x
  proof -
    have s: "src x \<in> region_of sp (dst x)" using facts(1) that by blast
    then obtain region where r: "map_of (fs_regions sp) (dst x) = Some region" by (auto simp: region_of_def split: option.splits)
    have "dst x \<noteq> OUT_NODE_ID"
      using exact [of "dst x", THEN conjunct1] r by (metis option.distinct(1))
    moreover have "set region = (forward_rel w)\<^sup>* `` {dst x}"
      using exact [of "dst x", THEN conjunct2, rule_format, OF r] by (rule conjunct1)
    moreover have "dst x \<in> set (map fst (fs_regions sp))" using r by (force dest: map_of_SomeD)
    ultimately show ?thesis using s r by (simp add: region_of_def)
  qed
  have e: "edge_ok w e" using valid_facts(9) [OF assms(1)] assms(3) by blast
  note re = region [OF assms(3)] and re' = region [OF assms(5)]
  have reach: "(dst e, src e) \<in> (forward_rel w)\<^sup>*" using re assms(4) by auto
  then have "index_of w (dst e) \<le> index_of w (src e)" by (rule forward_index [OF assms(1)])
  then have bound: "1 \<le> m" using e re assms(4) by (auto simp: edge_ok_def)
  have d: "dst e \<in> nd_id ` set (wf_nodes w)" using edge_ok_shape(4) [OF e ids(1)] re assms(4) by auto
  have s: "src e \<in> nd_id ` set (wf_nodes w)"
  proof (cases "src e = dst e")
    case False
    then obtain b where "(b, src e) \<in> forward_rel w" using reach by (metis rtranclE)
    then obtain x where x: "x \<in> set (wf_edges w)" "forward_edge x" "dst x = src e" by (auto simp: forward_rel_def)
    have ok: "edge_ok w x" using valid_facts(9) [OF assms(1)] x(1) by blast
    show ?thesis using edge_ok_shape(2,4) [OF ok ids(1)] x by (auto simp: forward_edge_def)
  qed (use d in simp)
  have "region_of sp (dst e) \<inter> region_of sp (dst e') = {} \<or> region_of sp (dst e) \<subseteq> region_of sp (dst e')
      \<or> region_of sp (dst e') \<subseteq> region_of sp (dst e)"
    by (rule some_cross_iff [OF facts(2)]) (use re re' assms(4,6) in blast)+
  then have "let R = (forward_rel w)\<^sup>* `` {dst e}; R' = (forward_rel w)\<^sup>* `` {dst e'}
       in R \<inter> R' = {} \<or> R \<subseteq> R' \<or> R' \<subseteq> R"
    using re re' assms(4,6) by (metis option.distinct(1))
  then show ?thesis using s d reach bound by blast
qed

definition demo_back_edge :: edge_def where
  "demo_back_edge = (edge_default ''b'' ''a'')\<lparr>mapping := [(''$.y'', ''x'')], loop_max := Some 2\<rparr>"

lemma valid_loops_structured_witness: "(''a'', ''b'') \<in> (forward_rel demo_flow)\<^sup>*"
proof -
  have e: "demo_back_edge \<in> set (wf_edges demo_flow)" by (simp add: demo_flow_def demo_back_edge_def)
  have m: "loop_max demo_back_edge = Some 2" by (simp add: demo_back_edge_def)
  have sha: "\<forall>s. 5 \<le> length (le_sha demo_load s)" by (simp add: demo_load_def demo_sha_def)
  have "src demo_back_edge = ''b''" "dst demo_back_edge = ''a''" by (simp_all add: demo_back_edge_def edge_default_def)
  then show ?thesis using valid_loops_structured [OF demo_flow_valid sha e m e m, THEN conjunct2, THEN conjunct1] by simp
qed

section \<open>Inheritance, children, templates\<close>

text \<open>Inherited sessions exist: in a valid workflow a node inherits only from an in-process agent
  node that is not memoised and not fanned out, and that is either itself or an earlier node
  joined to it by a path of edges that always run.\<close>

theorem valid_inheritance:
  assumes "valid env base w" and "n \<in> set (wf_nodes w)" and "nd_inherit n = Some spec"
  shows "\<exists>s \<in> set (wf_nodes w). nd_id s = from_node spec \<and> nd_type s = Agent \<and> nd_backend s = None
    \<and> \<not> nd_deterministic s \<and> nd_id s \<notin> fan_out_workers w
    \<and> (s = n \<or> (nd_id s, nd_id n) \<in> (always_rel (wf_edges w))\<^sup>+ \<and> index_of w (nd_id s) < index_of w (nd_id n))"
proof -
  note ids = valid_ids(1) [OF valid_facts(1) [OF assms(1)]]
  have v: "validate_inherit w n = None" using valid_facts(8) [OF assms(1)] assms(2) by blast
  then obtain s where s: "node_by_id w (from_node spec) = Some s"
    using assms(3) by (auto simp: validate_inherit_def split: option.splits)
  then have mem: "s \<in> set (wf_nodes w)" "nd_id s = from_node spec" using node_by_id_Some [OF ids] by simp_all
  have checks: "nd_type s = Agent" "nd_backend s = None" "\<not> nd_deterministic s" "nd_id s \<notin> fan_out_workers w"
    "nd_id s \<noteq> nd_id n \<Longrightarrow> index_of w (nd_id s) < index_of w (nd_id n)"
    "nd_id s \<noteq> nd_id n \<Longrightarrow> nd_id s \<in> unconditional_ancestors w (nd_id n)"
    using v assms(3) s mem by (auto simp: validate_inherit_def)
  have "s = n" if "nd_id s = nd_id n"
    using ids mem assms(2) that by (auto simp: distinct_map inj_on_def)
  then show ?thesis using mem checks by (intro bexI [of _ s]) (auto simp: unconditional_ancestors_exact)
qed

text \<open>Children are valid: in a valid workflow a subflow node carries an inline child that is itself
  valid, holds no further subflow, and the node is neither in a bounded loop nor fanned out.\<close>

theorem valid_children:
  assumes "valid env base w" and "n \<in> set (wf_nodes w)" and "nd_type n = Subflow"
  shows "\<exists>c. nd_child n = Some c \<and> valid env None c \<and> (\<forall>m \<in> set (wf_nodes c). nd_type m \<noteq> Subflow)
    \<and> nd_id n \<notin> loop_touched w \<union> fan_out_workers w"
proof -
  have "validate_node env (validate_workflow env None) base w n = None" "validate_subflow_scope w n = None"
    using valid_facts(6,7) [OF assms(1)] assms(2) by blast+
  then show ?thesis using assms(3)
    by (auto simp: validate_node_def validate_subflow_node_def validate_subflow_scope_def validate_workflow_None
        split: option.splits)
qed

text \<open>Templates refer to what is there: in a valid workflow every placeholder of an agent's prompts is
  rooted at one of its input ports, and every placeholder of an edge condition at an output port
  of the edge's source.\<close>

theorem valid_templates:
  assumes "valid env base w"
  shows "(\<forall>n \<in> set (wf_nodes w). nd_type n = Agent \<longrightarrow>
            set (placeholder_roots (nd_system_prompt n) @ placeholder_roots (nd_prompt n)) \<subseteq> set (input_names n))
    \<and> (\<forall>e \<in> set (wf_edges w). \<forall>c. edge_when e = Some c \<longrightarrow>
            set (condition_operand_roots c) \<subseteq> output_port_names w (src e) (in_ports w))"
proof (intro conjI ballI impI allI)
  fix n assume "n \<in> set (wf_nodes w)" "nd_type n = Agent"
  then have "validate_agent_node n = None"
    using valid_facts(6) [OF assms] by (auto simp: validate_node_def)
  then show "set (placeholder_roots (nd_system_prompt n) @ placeholder_roots (nd_prompt n)) \<subseteq> set (input_names n)"
    by (auto simp: validate_agent_node_def)
next
  fix e c assume "e \<in> set (wf_edges w)" "edge_when e = Some c"
  then show "set (condition_operand_roots c) \<subseteq> output_port_names w (src e) (in_ports w)"
    using valid_facts(9) [OF assms] edge_ok_shape(6) [OF _ valid_ids(1) [OF valid_facts(1) [OF assms]]] by blast
qed

section \<open>Validation itself\<close>

definition tame :: "pyexc option \<Rightarrow> bool" where
  "tame c = (case c of None \<Rightarrow> True | Some x \<Rightarrow> is_validation x)"

lemma tame_simps [simp]:
  "tame None" "tame (Some (ValidationError v))" "tame (Some (invalid c))"
  "tame (raise_if b (invalid c))"
  by (simp_all add: tame_def raise_if_def)

lemma tame_first_err: "(\<And>c. c \<in> set cs \<Longrightarrow> tame c) \<Longrightarrow> tame (first_err cs)"
  by (induction cs rule: first_err.induct) auto

lemma tame_first_err_map: "(\<And>x. x \<in> set xs \<Longrightarrow> tame (f x)) \<Longrightarrow> tame (first_err (map f xs))"
  by (rule tame_first_err) auto

definition flat :: "workflow_def \<Rightarrow> bool" where
  "flat c = (\<forall>m \<in> set (wf_nodes c). nd_type m \<noteq> Subflow)"

lemma tame_nodes:
  assumes "\<And>c. nd_type n = Subflow \<Longrightarrow> nd_child n = Some c \<Longrightarrow> flat c \<Longrightarrow> tame (check_child c)"
  shows "tame (validate_node env check_child base w n)"
proof -
  have "tame (validate_script_node env n)"
    by (auto simp: validate_script_node_def Let_def intro!: tame_first_err split: option.splits list.splits)
  moreover have "tame (validate_subflow_node check_child n)" if "nd_type n = Subflow"
  proof (cases "nd_child n")
    case (Some c)
    have "tame (check_child c)" if "flat c" using assms Some that \<open>nd_type n = Subflow\<close> by blast
    then show ?thesis using Some
      by (cases "flat c"; cases "check_child c")
        (auto simp: validate_subflow_node_def flat_def raise_if_def tame_def invalid_def is_validation_def)
  qed (simp add: validate_subflow_node_def)
  ultimately show ?thesis
    by (cases "nd_type n")
      (auto simp: validate_node_def validate_skills_def validate_agent_node_def validate_human_node_def
        validate_tool_def intro!: tame_first_err)
qed

lemma tame_inherit: "tame (validate_inherit w n)"
  by (auto simp: validate_inherit_def intro!: tame_first_err split: option.splits)

lemma tame_mapping: "tame (validate_mapping w e outs target m)"
  by (cases m) (auto simp: validate_mapping_def Let_def validate_concat_source_def split_beta
      intro!: tame_first_err split: option.splits)

lemma tame_feed: "tame (fst (feed_mappings w e outs target ms feeds))"
proof (induction ms arbitrary: feeds)
  case Nil
  then show ?case by (cases feeds) simp
next
  case (Cons m ms)
  then show ?case using tame_mapping [of w e outs target m] by (cases feeds) (auto split: option.splits)
qed

lemma tame_edge: "tame (fst (validate_edge w e feeds))"
proof -
  have shape: "tame (validate_edge_shape w e)"
    by (auto simp: validate_edge_shape_def Let_def validate_fan_out_edge_def validate_fan_in_edge_def
        intro!: tame_first_err split: option.splits)
  have known: "validate_edge_shape w e = None \<Longrightarrow> dst e \<noteq> OUT_NODE_ID \<Longrightarrow> node_by_id w (dst e) \<noteq> None"
    by (auto simp: validate_edge_shape_def Let_def)
  have "tame (validate_output_mapping w e m)" for m
    by (auto simp: validate_output_mapping_def validate_concat_source_def split_beta intro!: tame_first_err)
  then have out: "tame (first_err (map (validate_output_mapping w e) (mapping e)))"
    by (intro tame_first_err_map)
  have last: "tame (first_err [fst (feed_mappings w e outs target ms feeds), raise_if b (invalid INVALID_LOOP)])"
    for outs target ms b by (rule tame_first_err) (use tame_feed [of w e outs target ms feeds] in auto)
  show ?thesis
    using shape known out last by (auto simp: validate_edge_def split_beta Let_def split: option.splits)
qed

definition tame_pass :: "checks \<Rightarrow> bool" where
  "tame_pass r = tame (snd r)"

lemma tame_pass_and_then: "tame_pass a \<Longrightarrow> (snd a = None \<Longrightarrow> tame_pass b) \<Longrightarrow> tame_pass (and_then a b)"
  by (auto simp: tame_pass_def and_then_def)

lemma tame_pass_simps [simp]:
  "tame_pass passed" "tame c \<Longrightarrow> tame_pass (fatal c)" "tame c \<Longrightarrow> tame_pass (item n e c)"
  by (auto simp: tame_pass_def passed_def fatal_def item_def tame_def split: option.splits pyexc.splits)

lemma tame_pass_each: "(\<And>x. x \<in> set xs \<Longrightarrow> tame_pass (f x)) \<Longrightarrow> tame_pass (each_item f xs)"
  by (induction xs) (auto simp: each_item_def intro: tame_pass_and_then)

lemma tame_pass_edges: "tame_pass (fst (edge_items w es feeds))"
proof (induction es arbitrary: feeds)
  case (Cons e es)
  have "tame_pass (item None (Some (src e, dst e)) (fst (validate_edge w e feeds)))" using tame_edge by simp
  then show ?case using Cons.IH [of "snd (validate_edge w e feeds)"]
    by (auto simp: split_beta Let_def intro: tame_pass_and_then)
qed simp

lemma snd_fatal [simp]: "snd (fatal c) = c"
  by (simp add: fatal_def)

lemma tame_into:
  assumes named: "\<forall>e \<in> set (wf_edges w). edge_named (nd_id ` set (wf_nodes w)) e"
    and sha: "\<forall>s. 5 \<le> length (le_sha env s)"
    and child: "\<And>n c. n \<in> set (wf_nodes w) \<Longrightarrow> nd_type n = Subflow \<Longrightarrow> nd_child n = Some c \<Longrightarrow> flat c \<Longrightarrow> tame (check_child c)"
  shows "tame_pass (validate_workflow_into env check_child base w)"
proof -
  have ids: "tame (validate_ids w)"
    by (auto simp: validate_ids_def Let_def intro!: tame_first_err tame_first_err_map)
  have entry: "tame (validate_entry w)" by (auto simp: validate_entry_def intro!: tame_first_err)
  have tools: "tame (first_err (map validate_tool_ref (wf_tool_refs w)))"
    by (rule tame_first_err_map) (simp add: validate_tool_ref_def)
  have scope: "tame (first_err (map (validate_subflow_scope w) (wf_nodes w)))"
    by (rule tame_first_err_map) (simp add: validate_subflow_scope_def)
  have regions: "tame (validate_loop_regions env w)" if "validate_ids w = None" "validate_entry w = None"
  proof -
    note i = valid_ids [OF that(1)]
    have "wf_entry w = [] \<or> wf_entry w \<in> nd_id ` set (wf_nodes w)"
      using that(2) node_by_id_None [OF i(1)] by (auto simp: validate_entry_def)
    then have "graph_ok w" using i named by (simp add: graph_ok_def)
    then obtain sp where "build_frontier_spec (le_sha env) w = Some sp" using wf_build_frontier_spec sha by blast
    then show ?thesis by (auto simp: validate_loop_regions_def Let_def intro!: tame_first_err)
  qed
  have nodes: "tame_pass (each_item (\<lambda>n. item (Some (nd_id n)) None (validate_node env check_child base w n)) (wf_nodes w))"
    by (rule tame_pass_each) (simp add: tame_nodes child)
  have inherits: "tame_pass (each_item (\<lambda>n. item (Some (nd_id n)) None (validate_inherit w n)) (wf_nodes w))"
    by (rule tame_pass_each) (simp add: tame_inherit)
  have fed: "tame_pass (each_item (\<lambda>n. item (Some (nd_id n)) None (validate_fed f n)) (wf_nodes w))" for f
    by (rule tame_pass_each) (simp add: validate_fed_def)
  have provider: "tame (validate_provider w)" by (simp add: validate_provider_def)
  show ?thesis
    unfolding validate_workflow_into_def Let_def split_beta foldr_Cons foldr_Nil comp_def id_apply
    by (intro tame_pass_and_then tame_pass_simps nodes inherits fed tame_pass_edges ids entry tools scope provider regions)
      simp_all
qed

lemma close_errors_tame: "tame_pass r \<Longrightarrow> \<exists>errs. close_errors r = Inr errs"
  by (cases "snd r") (auto simp: tame_pass_def tame_def close_errors_def is_validation_def split: pyexc.splits)

lemma validation_total:
  assumes "\<forall>s. 5 \<le> length (le_sha env s)"
    and "\<forall>e \<in> set (wf_edges w). edge_named (nd_id ` set (wf_nodes w)) e"
    and "\<forall>n \<in> set (wf_nodes w). \<forall>c. nd_child n = Some c \<longrightarrow> (\<forall>e \<in> set (wf_edges c). edge_named (nd_id ` set (wf_nodes c)) e)"
  shows "\<exists>errs. validation_errors env base w = Inr errs"
proof -
  have child: "tame (first_error (validation_errors env None c))"
    if "n \<in> set (wf_nodes w)" "nd_child n = Some c" "flat c" for n c
  proof -
    have "tame_pass (validate_workflow_into env (\<lambda>c. first_error (validation_errors env None c)) None c)"
      by (rule tame_into [OF _ assms(1)]) (use assms(3) that in \<open>auto simp: flat_def\<close>)
    then obtain errs where "validation_errors env None c = Inr errs"
      using close_errors_tame validation_errors.simps [of env None c] by metis
    then show ?thesis by (simp add: first_error_def split: list.splits)
  qed
  show ?thesis
    by (subst validation_errors.simps) (rule close_errors_tame, rule tame_into [OF assms(2,1)], rule child)
qed

text \<open>C37. Validation reports, it does not crash: when the edges of a workflow and of its inline children
  name their nodes, \<open>validation_errors\<close> returns a list of validation errors.\<close>

theorem validation_returns:
  assumes "\<forall>s. 5 \<le> length (le_sha env s)"
    and "\<forall>e \<in> set (wf_edges w). edge_named (nd_id ` set (wf_nodes w)) e"
    and "\<forall>n \<in> set (wf_nodes w). \<forall>c. nd_child n = Some c \<longrightarrow> (\<forall>e \<in> set (wf_edges c). edge_named (nd_id ` set (wf_nodes c)) e)"
  shows "\<exists>errs. validation_errors env base w = Inr errs"
  by (rule validation_total [OF assms])

lemma validation_returns_witness: "\<exists>errs. validation_errors demo_load None demo_workflow = Inr errs"
proof (rule validation_returns)
  show "\<forall>s. 5 \<le> length (le_sha demo_load s)" by (simp add: demo_load_def demo_sha_def)
  show "\<forall>e \<in> set (wf_edges demo_workflow). edge_named (nd_id ` set (wf_nodes demo_workflow)) e"
    using demo_graph_ok by (simp add: graph_ok_def)
qed (simp add: demo_workflow_def workflow_default_def node_default_def)

text \<open>A bounded loop next to an edge that names no node: the edge check is collected, but the region
  check then compiles the graph, which looks the unknown node up.\<close>

definition dangling_flow :: workflow_def where
  "dangling_flow = workflow_default ''d'' '''' '''' [(demo_script ''a'')]
     [edge_default ''a'' ''ghost'', (edge_default ''a'' ''a'')\<lparr>loop_max := Some 2\<rparr>]"

lemma dangling_regions: "validate_loop_regions env dangling_flow = Some KeyError"
proof -
  have "length (edge_identities (le_sha env) dangling_flow) = 2"
    by (simp add: edge_identities_def dangling_flow_def workflow_default_def)
  then obtain i j where "edge_identities (le_sha env) dangling_flow = [i, j]"
    by (metis (no_types, opaque_lifting) One_nat_def Suc_1 length_0_conv length_Suc_conv)
  then have "build_frontier_spec (le_sha env) dangling_flow = None"
    by (simp add: build_frontier_spec_def dangling_flow_def workflow_default_def demo_script_def edge_default_def
        build_step_def append_new_def compile_edge_def dict_of_def Let_def IN_NODE_ID_def OUT_NODE_ID_def)
  then show ?thesis by (simp add: validate_loop_regions_def dangling_flow_def workflow_default_def edge_default_def)
qed

text \<open>The exception \<open>validation_returns\<close> leaves open is real: for this workflow, with a bounded loop
  and an edge to an unknown node, validation raises \<open>KeyError\<close>, where it promises the collected
  errors.\<close>

lemma dangling_key_error:
  "validation_errors \<lparr>le_sha = sha, le_skill = skill, le_script = (\<lambda>code. Some [[''ctx'', ''x'']]), le_tools = tools\<rparr>
     base dangling_flow = Inl KeyError"
proof -
  let ?env = "\<lparr>le_sha = sha, le_skill = skill, le_script = (\<lambda>code. Some [[''ctx'', ''x'']]), le_tools = tools\<rparr>"
  have [simp]: "wf_nodes dangling_flow = [demo_script ''a'']" "wf_tool_refs dangling_flow = []"
      "wf_edges dangling_flow = [edge_default ''a'' ''ghost'', (edge_default ''a'' ''a'')\<lparr>loop_max := Some 2\<rparr>]"
      "wf_entry dangling_flow = []"
    by (simp_all add: dangling_flow_def workflow_default_def)
  have [simp]: "nd_id (demo_script i) = i" "nd_type (demo_script i) = Script" "nd_inherit (demo_script i) = None" for i
    by (simp_all add: demo_script_def)
  have ids: "validate_ids dangling_flow = None" by (simp add: validate_ids_def IN_NODE_ID_def OUT_NODE_ID_def)
  have cycle: "detect_cycle dangling_flow = None"
    by (simp add: detect_cycle_def Let_def dict_of_def dfs.simps(2) cycle_adj_def real_edge_def edge_default_def
        IN_NODE_ID_def OUT_NODE_ID_def colour_of_def)
  have entry: "validate_entry dangling_flow = None"
    by (simp add: validate_entry_def entry_frontier_def has_real_pred_def edge_default_def IN_NODE_ID_def OUT_NODE_ID_def)
  have node: "validate_node ?env f base dangling_flow (demo_script ''a'') = None" for f
    by (simp add: validate_node_def demo_script_def validate_skills_def validate_script_node_def
        default_port_def string_schema_def port_type_def schema_type_def VALID_TYPES_def input_names_def)
  have edges: "snd (fst (edge_items dangling_flow (wf_edges dangling_flow) feeds)) = None" for feeds
  proof -
    have a: "node_by_id dangling_flow i = (if i = ''a'' then Some (demo_script ''a'') else None)" for i
      by (simp add: node_by_id_def dict_of_def)
    have one: "validate_edge dangling_flow (edge_default ''a'' ''ghost'') f = (Some (invalid UNKNOWN_REFERENCE), f)" for f
      by (simp add: validate_edge_def validate_edge_shape_def edge_default_def a IN_NODE_ID_def OUT_NODE_ID_def)
    have two: "validate_edge dangling_flow ((edge_default ''a'' ''a'')\<lparr>loop_max := Some 2\<rparr>) f = (None, f)" for f
      by (cases f) (simp add: validate_edge_def validate_edge_shape_def edge_default_def a IN_NODE_ID_def OUT_NODE_ID_def)
    show ?thesis by (simp add: one two item_def invalid_def and_then_def passed_def)
  qed
  have chain: "snd (and_then c (and_then (fatal (Some KeyError)) r)) = Some KeyError" if "snd c = None" for c r
    using that by (simp add: and_then_def fatal_def)
  have pass: "snd (and_then passed r) = snd r" for r by (simp add: and_then_def passed_def)
  have into: "snd (validate_workflow_into ?env f base dangling_flow) = Some KeyError" for f
    unfolding validate_workflow_into_def Let_def split_beta foldr_Cons foldr_Nil comp_def id_apply dangling_regions
    using ids cycle entry node edges [of "([], [])"]
    by (simp add: fatal_def and_then_def each_item_def item_def passed_def validate_provider_def
        validate_subflow_scope_def validate_inherit_def)
  show ?thesis by (subst validation_errors.simps) (simp add: close_errors_def into)
qed

definition demo_session :: workflow_def where
  "demo_session = workflow_default ''s'' ''p'' '''' [NodeDef ''a'' Agent '''' None ''be brief'' ''{{ $.q }}'' [] [] None
     [\<lparr>port_name = ''q'', port_schema = string_schema, port_required = False\<rparr>] [] None False None None Fail False None
     None [] [] (Some \<lparr>from_node = ''a''\<rparr>)] []"

definition demo_parent :: workflow_def where
  "demo_parent = workflow_default ''t'' '''' '''' [NodeDef ''s'' Subflow '''' None '''' '''' [] [] None
     [] [] None False None None Fail False (Some demo_session) None [] [] None] []"

lemma demo_session_steps:
  "validate_ids demo_session = None" "detect_cycle demo_session = None" "validate_entry demo_session = None"
  "validate_provider demo_session = None" "validate_loop_regions demo_load demo_session = None"
  "\<forall>n \<in> set (wf_nodes demo_session). validate_subflow_scope demo_session n = None"
  "\<forall>n \<in> set (wf_nodes demo_session). validate_inherit demo_session n = None"
  "\<forall>n \<in> set (wf_nodes demo_session). validate_fed [] n = None"
  "\<forall>n \<in> set (wf_nodes demo_session). validate_agent_node n = None"
  "\<forall>n \<in> set (wf_nodes demo_session). \<forall>p \<in> set (nd_input_ports n @ nd_output_ports n). port_type p \<in> set VALID_TYPES"
  by code_simp+

lemma demo_parent_steps:
  "validate_ids demo_parent = None" "detect_cycle demo_parent = None" "validate_entry demo_parent = None"
  "validate_provider demo_parent = None" "validate_loop_regions demo_load demo_parent = None"
  "\<forall>n \<in> set (wf_nodes demo_parent). validate_subflow_scope demo_parent n = None"
  "\<forall>n \<in> set (wf_nodes demo_parent). validate_inherit demo_parent n = None"
  "\<forall>n \<in> set (wf_nodes demo_parent). validate_fed [] n = None"
  by code_simp+

lemma demo_session_valid: "valid demo_load base demo_session"
proof -
  have "wf_edges demo_session = []" "wf_tool_refs demo_session = []"
    by (simp_all add: demo_session_def workflow_default_def)
  moreover have "nd_tools n = [] \<and> nd_skills n = [] \<and> nd_type n = Agent" if "n \<in> set (wf_nodes demo_session)" for n
    using that by (auto simp: demo_session_def workflow_default_def)
  then have "\<forall>n \<in> set (wf_nodes demo_session). validate_node demo_load f base demo_session n = None" for f
    using demo_session_steps(9,10) by (auto simp: validate_node_def validate_skills_def)
  ultimately have "validate_workflow_into demo_load f base demo_session = passed" for f
    using demo_session_steps by (auto simp: validate_workflow_into_def pass_simps)
  then show ?thesis unfolding valid_def by (subst validation_errors.simps) (simp add: close_errors_clean)
qed

lemma demo_parent_valid: "valid demo_load base demo_parent"
proof -
  let ?f = "\<lambda>c. first_error (validation_errors demo_load None c)"
  have "wf_edges demo_parent = []" "wf_tool_refs demo_parent = []"
    by (simp_all add: demo_parent_def workflow_default_def)
  moreover have "?f demo_session = None"
    using demo_session_valid [of None] by (simp add: first_error_None valid_def)
  then have "\<forall>n \<in> set (wf_nodes demo_parent). validate_node demo_load ?f base demo_parent n = None"
    by (auto simp: validate_node_def validate_skills_def validate_subflow_node_def demo_parent_def demo_session_def
        workflow_default_def)
  ultimately have "validate_workflow_into demo_load ?f base demo_parent = passed"
    using demo_parent_steps by (auto simp: validate_workflow_into_def pass_simps)
  then show ?thesis unfolding valid_def by (subst validation_errors.simps) (simp add: close_errors_clean)
qed

lemma valid_inheritance_witness:
  "\<exists>s \<in> set (wf_nodes demo_session). nd_id s = ''a'' \<and> nd_type s = Agent"
proof -
  let ?n = "hd (wf_nodes demo_session)"
  have "?n \<in> set (wf_nodes demo_session)" "nd_inherit ?n = Some \<lparr>from_node = ''a''\<rparr>"
    by (simp_all add: demo_session_def workflow_default_def)
  from valid_inheritance [OF demo_session_valid this] show ?thesis by auto
qed

lemma valid_children_witness: "\<exists>c. nd_child (hd (wf_nodes demo_parent)) = Some c \<and> valid demo_load None c"
proof -
  have "hd (wf_nodes demo_parent) \<in> set (wf_nodes demo_parent)" "nd_type (hd (wf_nodes demo_parent)) = Subflow"
    by (simp_all add: demo_parent_def workflow_default_def)
  from valid_children [OF demo_parent_valid this] show ?thesis by blast
qed

lemma valid_templates_witness: "set (placeholder_roots ''{{ $.q }}'') \<subseteq> {''q''}"
  using valid_templates [OF demo_session_valid, THEN conjunct1]
  by (simp add: demo_session_def workflow_default_def input_names_def)

end
