(* ===== verification/Frontier.thy ===== *)
theory Frontier
  imports Frontier_Build
begin

text \<open>
  The dynamic half of \<open>flow/frontier.py\<close>: the scheduler's transient state and its transitions.
  The state dict is the record \<open>fstate\<close>; a transition that mutates it returns the new record.
  \<open>None\<close> is a raised \<open>KeyError\<close> or \<open>TypeError\<close>. The checked casts \<open>_dict\<close>, \<open>_set\<close>,
  \<open>_tuple\<close>, \<open>_int\<close> are the types here, except \<open>_int(edge["max"])\<close>, where the source
  admits a missing limit. \<open>loop_counts\<close>, which the run context owns, is a separate argument.
\<close>

section \<open>State\<close>

type_synonym epoch_key = "node_id \<times> nat"
type_synonym activation = "node_id \<times> nat \<times> edge_id list"
type_synonym completion = "node_id \<times> nat \<times> (edge_id \<rightharpoonup> bool)"
type_synonym counters = "edge_id \<rightharpoonup> int"

record fstate =
  fr_generations :: "node_id \<rightharpoonup> nat"
  fr_reached :: "epoch_key set"
  fr_running :: "epoch_key set"
  fr_completed :: "node_id \<rightharpoonup> nat"
  fr_enabled :: "epoch_key \<rightharpoonup> edge_id list"
  fr_isolated :: "epoch_key set"
  fr_isolated_nodes :: "node_id set"
  fr_arrivals :: "epoch_key \<rightharpoonup> (edge_id \<rightharpoonup> bool)"
  fr_closed :: "epoch_key set"
  fr_decisions :: "node_id \<rightharpoonup> (edge_id \<rightharpoonup> bool)"
  fr_exhausted :: "edge_id list"

definition new_frontier_state :: "frontier_spec \<Rightarrow> node_id set \<Rightarrow> fstate" where
  "new_frontier_state sp restored =
     (let known = restored \<inter> set (fs_nodes sp)
      in \<lparr>fr_generations = (\<lambda>n. if n \<in> set (fs_nodes sp) then Some 0 else None),
          fr_reached = (\<lambda>n. (n, 0)) ` (set (fs_entries sp) - known),
          fr_running = {}, fr_completed = (\<lambda>n. if n \<in> known then Some 0 else None),
          fr_enabled = Map.empty, fr_isolated = {}, fr_isolated_nodes = {}, fr_arrivals = Map.empty,
          fr_closed = {}, fr_decisions = Map.empty, fr_exhausted = []\<rparr>)"

text \<open>\<open>d.get(key, default)\<close>, and \<open>_generation\<close>, which raises on an unknown node.\<close>

definition get_or :: "'v \<Rightarrow> 'v option \<Rightarrow> 'v" where
  "get_or x v = (case v of None \<Rightarrow> x | Some y \<Rightarrow> y)"

lemma get_or_simps [simp]: "get_or x None = x" "get_or x (Some y) = y"
  by (simp_all add: get_or_def)

definition generation :: "fstate \<Rightarrow> node_id \<Rightarrow> nat option" where
  "generation st n = fr_generations st n"

section \<open>The ready frontier\<close>

text \<open>\<open>any(...)\<close> over the predecessors stops at the first stale one, so a later unknown
  predecessor is not looked up.\<close>

fun preds_settled :: "fstate \<Rightarrow> node_id list \<Rightarrow> bool option" where
  "preds_settled st [] = Some True"
| "preds_settled st (p # ps) =
     do { g \<leftarrow> generation st p;
          if fr_completed st p \<noteq> Some g then Some False else preds_settled st ps }"

definition ready_node :: "frontier_spec \<Rightarrow> fstate \<Rightarrow> node_id \<Rightarrow> activation list option" where
  "ready_node sp st n =
     do { g \<leftarrow> generation st n;
          if (n, g) \<notin> fr_reached st \<or> (n, g) \<in> fr_running st \<or> (n, g) \<in> fr_isolated st
             \<or> n \<in> fr_isolated_nodes st
          then Some []
          else if fr_completed st n = Some g then Some []
          else do {
            ps \<leftarrow> map_of (fs_preds sp) n;
            settled \<leftarrow> preds_settled st ps;
            Some (if settled then [(n, g, get_or [] (fr_enabled st (n, g)))] else [])
          } }"

fun ready_list :: "frontier_spec \<Rightarrow> fstate \<Rightarrow> node_id list \<Rightarrow> activation list option" where
  "ready_list sp st [] = Some []"
| "ready_list sp st (n # ns) =
     do { a \<leftarrow> ready_node sp st n; rest \<leftarrow> ready_list sp st ns; Some (a @ rest) }"

definition ready :: "frontier_spec \<Rightarrow> fstate \<Rightarrow> activation list option" where
  "ready sp st = ready_list sp st (fs_nodes sp)"

definition act_key :: "activation \<Rightarrow> epoch_key" where
  "act_key a = (fst a, fst (snd a))"

definition take_ready :: "frontier_spec \<Rightarrow> fstate \<Rightarrow> (activation list \<times> fstate) option" where
  "take_ready sp st =
     do { acts \<leftarrow> ready sp st;
          Some (acts, st\<lparr>fr_running := fr_running st \<union> set (map act_key acts)\<rparr>) }"

section \<open>Isolation, edge enabling, invalidation\<close>

definition isolate_nodes :: "node_id set \<Rightarrow> fstate \<Rightarrow> fstate option" where
  "isolate_nodes ns st =
     (if \<exists>n \<in> ns. generation st n = None then None
      else let keys = (\<lambda>n. (n, the (generation st n))) ` ns
           in Some (st\<lparr>fr_isolated_nodes := fr_isolated_nodes st \<union> ns, fr_isolated := fr_isolated st \<union> keys,
                       fr_reached := fr_reached st - keys, fr_running := fr_running st - keys\<rparr>))"

definition enable_edge :: "frontier_spec \<Rightarrow> edge_id \<Rightarrow> fstate \<Rightarrow> fstate option" where
  "enable_edge sp eid st =
     do { e \<leftarrow> map_of (fs_edges sp) eid;
          g \<leftarrow> generation st (fe_dst e);
          let key = (fe_dst e, g);
          let current = get_or [] (fr_enabled st key);
          Some (st\<lparr>fr_reached := insert key (fr_reached st),
                   fr_enabled := (if eid \<in> set current then fr_enabled st
                                  else (fr_enabled st)(key \<mapsto> current @ [eid]))\<rparr>) }"

definition clear_epochs :: "node_id list \<Rightarrow> fstate \<Rightarrow> fstate" where
  "clear_epochs ns st =
     st\<lparr>fr_reached := {k \<in> fr_reached st. fst k \<notin> set ns},
        fr_running := {k \<in> fr_running st. fst k \<notin> set ns},
        fr_isolated := {k \<in> fr_isolated st. fst k \<notin> set ns},
        fr_completed := (\<lambda>n. if n \<in> set ns then None else fr_completed st n),
        fr_enabled := (\<lambda>k. if fst k \<in> set ns then None else fr_enabled st k),
        fr_arrivals := (\<lambda>k. if fst k \<in> set ns then None else fr_arrivals st k),
        fr_closed := {k \<in> fr_closed st. fst k \<notin> set ns}\<rparr>"

section \<open>Loop groups\<close>

definition loop_count :: "counters \<Rightarrow> edge_id \<Rightarrow> int" where
  "loop_count lc m = get_or 0 (lc m)"

text \<open>The members selected by \<open>P\<close> whose counter has reached their limit.\<close>

fun spent_members :: "frontier_spec \<Rightarrow> (fedge \<Rightarrow> bool) \<Rightarrow> counters \<Rightarrow> edge_id list \<Rightarrow> edge_id list option" where
  "spent_members sp P lc [] = Some []"
| "spent_members sp P lc (m # ms) =
     do { e \<leftarrow> map_of (fs_edges sp) m;
          hit \<leftarrow> (if P e then do { limit \<leftarrow> fe_max e; Some (limit \<le> loop_count lc m) } else Some False);
          rest \<leftarrow> spent_members sp P lc ms;
          Some (if hit then m # rest else rest) }"

fun note_exhausted :: "edge_id list \<Rightarrow> edge_id list \<Rightarrow> edge_id list" where
  "note_exhausted seen [] = seen"
| "note_exhausted seen (m # ms) = note_exhausted (if m \<in> set seen then seen else seen @ [m]) ms"

fun count_loops :: "edge_id list \<Rightarrow> counters \<Rightarrow> counters" where
  "count_loops [] lc = lc"
| "count_loops (m # ms) lc = count_loops ms (lc(m \<mapsto> loop_count lc m + 1))"

fun bump_generations :: "node_id list \<Rightarrow> (node_id \<rightharpoonup> nat) \<Rightarrow> (node_id \<rightharpoonup> nat) option" where
  "bump_generations [] gs = Some gs"
| "bump_generations (n # ns) gs =
     do { g \<leftarrow> gs n; bump_generations ns (gs(n \<mapsto> g + 1)) }"

fun resupply :: "frontier_spec \<Rightarrow> edge_id list \<Rightarrow> fstate \<Rightarrow> fstate option" where
  "resupply sp [] st = Some st"
| "resupply sp (b # bs) st =
     do { e \<leftarrow> map_of (fs_edges sp) b;
          st' \<leftarrow> (if get_or Map.empty (fr_decisions st (fe_src e)) b = Some True
                 then enable_edge sp b st else Some st);
          resupply sp bs st' }"

definition fire_loop :: "frontier_spec \<Rightarrow> node_id \<Rightarrow> edge_id list \<Rightarrow> fstate \<Rightarrow> fstate option" where
  "fire_loop sp d ms st =
     do { region \<leftarrow> map_of (fs_regions sp) d;
          let st = clear_epochs region st;
          gens \<leftarrow> bump_generations region (fr_generations st);
          let st = st\<lparr>fr_generations := gens\<rparr>;
          g \<leftarrow> generation st d;
          let st = st\<lparr>fr_reached := insert (d, g) (fr_reached st), fr_enabled := (fr_enabled st)((d, g) \<mapsto> ms)\<rparr>;
          boundary \<leftarrow> map_of (fs_boundary sp) d;
          resupply sp boundary st }"

text \<open>One turn of the loop over the groups: \<open>Some e\<close> in the first component is the early
  \<open>return exhausted_strict[0]\<close>.\<close>

definition evaluate_group ::
  "frontier_spec \<Rightarrow> node_id \<Rightarrow> edge_id list \<Rightarrow> fstate \<Rightarrow> counters \<Rightarrow> (edge_id option \<times> fstate \<times> counters) option" where
  "evaluate_group sp d ms st lc =
     do { g \<leftarrow> generation st d;
          let key = (d, g);
          let arrived = get_or Map.empty (fr_arrivals st key);
          if key \<in> fr_closed st then Some (None, st, lc)
          else if \<exists>m \<in> set ms. arrived m = None then Some (None, st, lc)
          else if \<exists>m \<in> set ms. arrived m \<noteq> Some True
          then Some (None, st\<lparr>fr_closed := insert key (fr_closed st)\<rparr>, lc)
          else do {
            strict \<leftarrow> spent_members sp fe_strict lc ms;
            if strict \<noteq> [] then Some (Some (hd strict), st, lc)
            else do {
              spent \<leftarrow> spent_members sp (\<lambda>_. True) lc ms;
              if spent \<noteq> []
              then Some (None, st\<lparr>fr_exhausted := note_exhausted (fr_exhausted st) spent,
                                  fr_closed := insert key (fr_closed st)\<rparr>, lc)
              else do { st' \<leftarrow> fire_loop sp d ms st; Some (None, st', count_loops ms lc) }
            } } }"

fun evaluate_groups ::
  "frontier_spec \<Rightarrow> (node_id \<times> edge_id list) list \<Rightarrow> fstate \<Rightarrow> counters
   \<Rightarrow> (edge_id option \<times> fstate \<times> counters) option" where
  "evaluate_groups sp [] st lc = Some (None, st, lc)"
| "evaluate_groups sp ((d, ms) # gs) st lc =
     do { r \<leftarrow> evaluate_group sp d ms st lc;
          (case r of (Some e, st', lc') \<Rightarrow> Some (Some e, st', lc')
           | (None, st', lc') \<Rightarrow> evaluate_groups sp gs st' lc') }"

definition exhausted_edge_label :: "frontier_spec \<Rightarrow> fstate \<Rightarrow> string option option" where
  "exhausted_edge_label sp st =
     (case fr_exhausted st of [] \<Rightarrow> Some None
      | m # _ \<Rightarrow> do { e \<leftarrow> map_of (fs_edges sp) m; Some (Some (fe_src e @ ''->'' @ fe_dst e)) })"

section \<open>Restoring from a checkpoint\<close>

fun restore_loop_activations ::
  "(node_id \<times> edge_id list) list \<Rightarrow> counters \<Rightarrow> fstate \<Rightarrow> fstate option" where
  "restore_loop_activations [] lc st = Some st"
| "restore_loop_activations ((d, ms) # gs) lc st =
     (if fr_completed st d \<noteq> None then restore_loop_activations gs lc st
      else if ms = [] \<or> (\<exists>m \<in> set ms. loop_count lc m \<le> 0) then restore_loop_activations gs lc st
      else do { g \<leftarrow> generation st d;
                restore_loop_activations gs lc
                  (st\<lparr>fr_reached := insert (d, g) (fr_reached st), fr_enabled := (fr_enabled st)((d, g) \<mapsto> ms)\<rparr>) })"

definition record_arrival :: "node_id \<Rightarrow> edge_id \<Rightarrow> bool \<Rightarrow> fstate \<Rightarrow> fstate option" where
  "record_arrival d eid verdict st =
     do { g \<leftarrow> generation st d;
          let arrived = get_or Map.empty (fr_arrivals st (d, g));
          Some (st\<lparr>fr_arrivals := (fr_arrivals st)((d, g) \<mapsto> arrived(eid \<mapsto> verdict))\<rparr>) }"

fun replay_edges :: "frontier_spec \<Rightarrow> (edge_id \<rightharpoonup> bool) \<Rightarrow> edge_id list \<Rightarrow> fstate \<Rightarrow> fstate option" where
  "replay_edges sp results [] st = Some st"
| "replay_edges sp results (eid # ids) st =
     do { e \<leftarrow> map_of (fs_edges sp) eid;
          let verdict = get_or False (results eid);
          st' \<leftarrow> (if fe_loop e then record_arrival (fe_dst e) eid verdict st
                 else if verdict then enable_edge sp eid st else Some st);
          replay_edges sp results ids st' }"

definition mark_completed :: "node_id \<Rightarrow> nat \<Rightarrow> (edge_id \<rightharpoonup> bool) \<Rightarrow> fstate \<Rightarrow> fstate" where
  "mark_completed n g results st =
     st\<lparr>fr_completed := (fr_completed st)(n \<mapsto> g), fr_decisions := (fr_decisions st)(n \<mapsto> results)\<rparr>"

definition replay_completed :: "frontier_spec \<Rightarrow> node_id \<Rightarrow> (edge_id \<rightharpoonup> bool) \<Rightarrow> fstate \<Rightarrow> fstate option" where
  "replay_completed sp n results st =
     do { g \<leftarrow> generation st n;
          ids \<leftarrow> map_of (fs_outgoing sp) n;
          replay_edges sp results ids (mark_completed n g results st) }"

section \<open>Committing a batch\<close>

text \<open>The first loop: a completion of a stale epoch only gives back its lease.\<close>

fun commit_completions :: "completion list \<Rightarrow> fstate \<Rightarrow> (completion list \<times> fstate) option" where
  "commit_completions [] st = Some ([], st)"
| "commit_completions ((n, epoch, results) # cs) st =
     do { let st = st\<lparr>fr_running := fr_running st - {(n, epoch)}\<rparr>;
          g \<leftarrow> generation st n;
          if epoch \<noteq> g then commit_completions cs st
          else do { r \<leftarrow> commit_completions cs (mark_completed n epoch results st);
                    Some ((n, epoch, results) # fst r, snd r) } }"

fun forward_edges :: "frontier_spec \<Rightarrow> (edge_id \<rightharpoonup> bool) \<Rightarrow> edge_id list \<Rightarrow> fstate \<Rightarrow> fstate option" where
  "forward_edges sp results [] st = Some st"
| "forward_edges sp results (eid # ids) st =
     do { e \<leftarrow> map_of (fs_edges sp) eid;
          st' \<leftarrow> (if \<not> fe_loop e \<and> get_or False (results eid) then enable_edge sp eid st else Some st);
          forward_edges sp results ids st' }"

fun forward_batch :: "frontier_spec \<Rightarrow> completion list \<Rightarrow> fstate \<Rightarrow> fstate option" where
  "forward_batch sp [] st = Some st"
| "forward_batch sp ((n, epoch, results) # cs) st =
     do { ids \<leftarrow> map_of (fs_outgoing sp) n;
          st' \<leftarrow> forward_edges sp results ids st;
          forward_batch sp cs st' }"

fun loop_edges ::
  "frontier_spec \<Rightarrow> node_id \<Rightarrow> nat \<Rightarrow> (edge_id \<rightharpoonup> bool) \<Rightarrow> edge_id list \<Rightarrow> fstate \<Rightarrow> fstate option" where
  "loop_edges sp n epoch results [] st = Some st"
| "loop_edges sp n epoch results (eid # ids) st =
     do { e \<leftarrow> map_of (fs_edges sp) eid;
          st' \<leftarrow> (if \<not> fe_loop e then Some st
                 else do { g \<leftarrow> generation st n;
                           if epoch \<noteq> g then Some st
                           else record_arrival (fe_dst e) eid (get_or False (results eid)) st });
          loop_edges sp n epoch results ids st' }"

fun loop_batch :: "frontier_spec \<Rightarrow> completion list \<Rightarrow> fstate \<Rightarrow> fstate option" where
  "loop_batch sp [] st = Some st"
| "loop_batch sp ((n, epoch, results) # cs) st =
     do { ids \<leftarrow> map_of (fs_outgoing sp) n;
          st' \<leftarrow> loop_edges sp n epoch results ids st;
          loop_batch sp cs st' }"

definition complete_batch ::
  "frontier_spec \<Rightarrow> completion list \<Rightarrow> fstate \<Rightarrow> counters \<Rightarrow> (edge_id option \<times> fstate \<times> counters) option" where
  "complete_batch sp completions st lc =
     do { r \<leftarrow> commit_completions completions st;
          st1 \<leftarrow> forward_batch sp (fst r) (snd r);
          st2 \<leftarrow> loop_batch sp (fst r) st1;
          evaluate_groups sp (fs_groups sp) st2 lc }"

end
