(* ===== verification/Frontier_Inv.thy ===== *)
theory Frontier_Inv
  imports Frontier
begin

text \<open>
  The scheduler's state invariant \<open>state_inv\<close>: tokens, leases, completions, loop arrivals and
  closed groups always belong to the current generation of their node, a leased activation is
  reached, not isolated and not completed. On a well-formed specification no operation of the
  scheduler raises and each one preserves the invariant; the lemmas here give that for the
  state-changing helpers, with what each one changes.
\<close>

section \<open>The invariant\<close>

definition live :: "fstate \<Rightarrow> epoch_key \<Rightarrow> bool" where
  "live st k = (fr_generations st (fst k) = Some (snd k))"

definition state_inv :: "frontier_spec \<Rightarrow> fstate \<Rightarrow> bool" where
  "state_inv sp st \<longleftrightarrow>
     (\<forall>n. fr_generations st n \<noteq> None \<longleftrightarrow> n \<in> set (fs_nodes sp)) \<and>
     (\<forall>k \<in> fr_running st. k \<in> fr_reached st \<and> fst k \<notin> fr_isolated_nodes st \<and> fr_completed st (fst k) = None) \<and>
     (\<forall>k \<in> fr_reached st. live st k) \<and>
     (\<forall>k \<in> fr_isolated st. live st k \<and> fst k \<in> fr_isolated_nodes st) \<and>
     (\<forall>k \<in> fr_closed st. live st k) \<and>
     (\<forall>k ids. fr_enabled st k = Some ids \<longrightarrow>
        live st k \<and> distinct ids \<and> (\<forall>i \<in> set ids. edge_with sp (\<lambda>fe. fe_dst fe = fst k) i)) \<and>
     (\<forall>k a. fr_arrivals st k = Some a \<longrightarrow> live st k) \<and>
     (\<forall>n g. fr_completed st n = Some g \<longrightarrow> fr_generations st n = Some g) \<and>
     distinct (fr_exhausted st) \<and> (\<forall>i \<in> set (fr_exhausted st). edge_with sp (\<lambda>fe. fe_loop fe) i)"

lemma state_invD:
  assumes "state_inv sp st"
  shows "fr_generations st n \<noteq> None \<longleftrightarrow> n \<in> set (fs_nodes sp)"
    and "k \<in> fr_running st \<Longrightarrow> k \<in> fr_reached st"
    and "k \<in> fr_reached st \<Longrightarrow> live st k"
    and "k \<in> fr_isolated st \<Longrightarrow> live st k \<and> fst k \<in> fr_isolated_nodes st"
    and "k \<in> fr_closed st \<Longrightarrow> live st k"
    and "fr_enabled st k = Some ids \<Longrightarrow> live st k \<and> distinct ids \<and> (\<forall>i \<in> set ids. edge_with sp (\<lambda>fe. fe_dst fe = fst k) i)"
    and "fr_arrivals st k = Some a \<Longrightarrow> live st k"
    and "fr_completed st n = Some g \<Longrightarrow> fr_generations st n = Some g"
    and "k \<in> fr_running st \<Longrightarrow> fst k \<notin> fr_isolated_nodes st \<and> fr_completed st (fst k) = None"
    and "distinct (fr_exhausted st)"
    and "i \<in> set (fr_exhausted st) \<Longrightarrow> edge_with sp (\<lambda>fe. fe_loop fe) i"
  using assms unfolding state_inv_def by blast+

lemma state_invI:
  assumes "\<And>n. fr_generations st n \<noteq> None \<longleftrightarrow> n \<in> set (fs_nodes sp)"
    and "\<And>k. k \<in> fr_running st \<Longrightarrow>
      k \<in> fr_reached st \<and> fst k \<notin> fr_isolated_nodes st \<and> fr_completed st (fst k) = None"
    and "\<And>k. k \<in> fr_reached st \<Longrightarrow> live st k"
    and "\<And>k. k \<in> fr_isolated st \<Longrightarrow> live st k \<and> fst k \<in> fr_isolated_nodes st"
    and "\<And>k. k \<in> fr_closed st \<Longrightarrow> live st k"
    and "\<And>k ids. fr_enabled st k = Some ids \<Longrightarrow>
      live st k \<and> distinct ids \<and> (\<forall>i \<in> set ids. edge_with sp (\<lambda>fe. fe_dst fe = fst k) i)"
    and "\<And>k a. fr_arrivals st k = Some a \<Longrightarrow> live st k"
    and "\<And>n g. fr_completed st n = Some g \<Longrightarrow> fr_generations st n = Some g"
    and "distinct (fr_exhausted st)" and "\<And>i. i \<in> set (fr_exhausted st) \<Longrightarrow> edge_with sp (\<lambda>fe. fe_loop fe) i"
  shows "state_inv sp st"
  using assms unfolding state_inv_def by blast

lemma generation_known:
  assumes "state_inv sp st" and "n \<in> set (fs_nodes sp)"
  obtains g where "fr_generations st n = Some g"
proof -
  have "fr_generations st n \<noteq> None" using assms by (simp add: state_inv_def)
  then show ?thesis using that by blast
qed

lemma edge_withD:
  assumes "edge_with sp P i"
  obtains fe where "map_of (fs_edges sp) i = Some fe" and "P fe"
  using assms by (auto simp: edge_with_def split: option.splits)

lemma edge_with_mono: "edge_with sp P i \<Longrightarrow> (\<And>fe. P fe \<Longrightarrow> Q fe) \<Longrightarrow> edge_with sp Q i"
  by (auto simp: edge_with_def split: option.splits)

section \<open>Initial state\<close>

lemma state_inv_new:
  assumes "wf_spec sp"
  shows "state_inv sp (new_frontier_state sp restored)"
  using assms unfolding wf_spec_def state_inv_def new_frontier_state_def Let_def
  by (auto simp: live_def split: if_splits)

section \<open>Taking the ready frontier\<close>

lemma preds_settled_total:
  assumes "state_inv sp st" and "set ps \<subseteq> set (fs_nodes sp)"
  shows "preds_settled st ps = Some (\<forall>p \<in> set ps. fr_completed st p \<noteq> None)"
  using assms(2)
proof (induction ps)
  case (Cons p ps)
  then obtain g where "fr_generations st p = Some g" using generation_known [OF assms(1)] by auto
  moreover have "fr_completed st p = Some g' \<Longrightarrow> g' = g" for g'
    using state_invD(8) [OF assms(1)] calculation by fastforce
  ultimately show ?case using Cons by (cases "fr_completed st p") (auto simp: generation_def)
qed simp

definition preds_done :: "frontier_spec \<Rightarrow> fstate \<Rightarrow> node_id \<Rightarrow> bool" where
  "preds_done sp st n = (\<forall>p \<in> set (get_or [] (map_of (fs_preds sp) n)). fr_completed st p \<noteq> None)"

definition ready_key :: "frontier_spec \<Rightarrow> fstate \<Rightarrow> epoch_key \<Rightarrow> bool" where
  "ready_key sp st k \<longleftrightarrow>
     k \<in> fr_reached st \<and> k \<notin> fr_running st \<and> k \<notin> fr_isolated st \<and> fst k \<notin> fr_isolated_nodes st \<and>
     fr_completed st (fst k) = None \<and> preds_done sp st (fst k)"

lemma ready_node_total:
  assumes inv: "state_inv sp st" and wf: "wf_spec sp" and n: "n \<in> set (fs_nodes sp)"
    and g: "fr_generations st n = Some g"
  shows "ready_node sp st n =
    Some (if ready_key sp st (n, g) then [(n, g, get_or [] (fr_enabled st (n, g)))] else [])"
proof -
  obtain ps where ps: "map_of (fs_preds sp) n = Some ps" "set ps \<subseteq> set (fs_nodes sp)"
    using wf n by (fastforce simp: wf_spec_def split: option.splits)
  have "fr_completed st n = Some g \<longleftrightarrow> fr_completed st n \<noteq> None"
    using state_invD(8) [OF inv] g by fastforce
  then show ?thesis
    using preds_settled_total [OF inv ps(2)] ps(1) g
    by (auto simp: ready_node_def generation_def ready_key_def preds_done_def)
qed

lemma ready_list_total:
  assumes inv: "state_inv sp st" and wf: "wf_spec sp" and sub: "set ns \<subseteq> set (fs_nodes sp)"
  shows "ready_list sp st ns = Some (concat (map (\<lambda>n. the (ready_node sp st n)) ns))"
  using sub
proof (induction ns)
  case (Cons n ns)
  then obtain g where "fr_generations st n = Some g" using generation_known [OF inv] by auto
  then show ?case using ready_node_total [OF inv wf] Cons by simp
qed simp

definition ready_acts :: "frontier_spec \<Rightarrow> fstate \<Rightarrow> activation list" where
  "ready_acts sp st = concat (map (\<lambda>n. the (ready_node sp st n)) (fs_nodes sp))"

lemma ready_acts_iff:
  assumes inv: "state_inv sp st" and wf: "wf_spec sp"
  shows "(n, g, ids) \<in> set (ready_acts sp st) \<longleftrightarrow>
    ready_key sp st (n, g) \<and> ids = get_or [] (fr_enabled st (n, g))"
proof
  assume "(n, g, ids) \<in> set (ready_acts sp st)"
  then obtain m where m: "m \<in> set (fs_nodes sp)" "(n, g, ids) \<in> set (the (ready_node sp st m))"
    by (auto simp: ready_acts_def)
  obtain h where "fr_generations st m = Some h" using generation_known [OF inv m(1)] by auto
  then show "ready_key sp st (n, g) \<and> ids = get_or [] (fr_enabled st (n, g))"
    using ready_node_total [OF inv wf m(1)] m(2) by (auto split: if_splits)
next
  assume r: "ready_key sp st (n, g) \<and> ids = get_or [] (fr_enabled st (n, g))"
  then have g: "fr_generations st n = Some g"
    using state_invD(3) [OF inv] by (auto simp: ready_key_def live_def)
  then have n: "n \<in> set (fs_nodes sp)" using state_invD(1) [OF inv, of n] by simp
  show "(n, g, ids) \<in> set (ready_acts sp st)"
    unfolding ready_acts_def using ready_node_total [OF inv wf n g] r n by (auto intro!: bexI [of _ n])
qed

lemma ready_acts_keys:
  assumes inv: "state_inv sp st" and wf: "wf_spec sp"
  shows "act_key ` set (ready_acts sp st) = {k. ready_key sp st k}"
proof (intro set_eqI iffI)
  fix k assume "k \<in> act_key ` set (ready_acts sp st)"
  then obtain n g ids where "(n, g, ids) \<in> set (ready_acts sp st)" "k = (n, g)"
    by (auto simp: act_key_def)
  then show "k \<in> {k. ready_key sp st k}" by (simp add: ready_acts_iff [OF inv wf])
next
  fix k assume "k \<in> {k. ready_key sp st k}"
  then have "(fst k, snd k, get_or [] (fr_enabled st k)) \<in> set (ready_acts sp st)"
    by (simp add: ready_acts_iff [OF inv wf])
  then show "k \<in> act_key ` set (ready_acts sp st)" by (rule rev_image_eqI) (simp add: act_key_def)
qed

lemma take_ready_total:
  assumes inv: "state_inv sp st" and wf: "wf_spec sp"
  shows "take_ready sp st = Some (ready_acts sp st,
    st\<lparr>fr_running := fr_running st \<union> {k. ready_key sp st k}\<rparr>)"
  using ready_list_total [OF inv wf] ready_acts_keys [OF inv wf]
  by (simp add: take_ready_def ready_def ready_acts_def)

lemma state_inv_take:
  assumes "state_inv sp st" and "wf_spec sp" and "take_ready sp st = Some (acts, st')"
  shows "state_inv sp st'"
proof -
  have "st' = st\<lparr>fr_running := fr_running st \<union> {k. ready_key sp st k}\<rparr>"
    using assms(3) by (simp add: take_ready_total [OF assms(1,2)])
  then show ?thesis using assms(1) by (auto simp: state_inv_def live_def ready_key_def)
qed

section \<open>Isolation, edges, invalidation\<close>

lemma isolate_total:
  assumes "state_inv sp st" and "ns \<subseteq> set (fs_nodes sp)"
  shows "\<exists>st'. isolate_nodes ns st = Some st' \<and> state_inv sp st'
    \<and> fr_isolated_nodes st' = fr_isolated_nodes st \<union> ns
    \<and> fr_running st' = {k \<in> fr_running st. fst k \<notin> ns}
    \<and> fr_generations st' = fr_generations st \<and> fr_completed st' = fr_completed st"
proof -
  have known: "\<not> (\<exists>n \<in> ns. generation st n = None)"
    using assms by (auto simp: state_inv_def generation_def)
  have keys: "(\<lambda>n. (n, the (generation st n))) ` ns = {k. live st k \<and> fst k \<in> ns}"
    using known by (force simp: live_def generation_def)
  have run: "fr_running st - {k. live st k \<and> fst k \<in> ns} = {k \<in> fr_running st. fst k \<notin> ns}"
    using state_invD(2,3) [OF assms(1)] by auto
  let ?st = "st\<lparr>fr_isolated_nodes := fr_isolated_nodes st \<union> ns,
      fr_isolated := fr_isolated st \<union> {k. live st k \<and> fst k \<in> ns},
      fr_reached := fr_reached st - {k. live st k \<and> fst k \<in> ns},
      fr_running := fr_running st - {k. live st k \<and> fst k \<in> ns}\<rparr>"
  have "isolate_nodes ns st = Some ?st" using known by (simp add: isolate_nodes_def Let_def keys)
  moreover have "state_inv sp ?st"
  proof (rule state_invI)
    show "k \<in> fr_reached ?st \<and> fst k \<notin> fr_isolated_nodes ?st \<and> fr_completed ?st (fst k) = None"
      if "k \<in> fr_running ?st" for k
      using that state_invD(2,3,9) [OF assms(1), of k] by auto
    show "live ?st k" if "k \<in> fr_reached ?st" for k
      using that state_invD(3) [OF assms(1), of k] by (simp add: live_def)
    show "live ?st k \<and> fst k \<in> fr_isolated_nodes ?st" if "k \<in> fr_isolated ?st" for k
      using that state_invD(4) [OF assms(1), of k] by (auto simp: live_def)
    show "live ?st k \<and> distinct ids \<and> (\<forall>i \<in> set ids. edge_with sp (\<lambda>fe. fe_dst fe = fst k) i)"
      if "fr_enabled ?st k = Some ids" for k ids
      using that state_invD(6) [OF assms(1), of k ids] by (simp add: live_def)
  qed (use state_invD(1,5,7,8,10,11) [OF assms(1)] in \<open>simp_all add: live_def\<close>)
  ultimately show ?thesis using run by (intro exI [of _ ?st]) simp
qed

text \<open>The steps between a commit and the loop evaluation only add tokens: they change
  \<open>reached\<close>, \<open>enabled\<close> and \<open>loop_arrivals\<close>, and never take a token away.\<close>

definition token_step :: "fstate \<Rightarrow> fstate \<Rightarrow> bool" where
  "token_step st st' \<longleftrightarrow>
     st' = st\<lparr>fr_reached := fr_reached st', fr_enabled := fr_enabled st', fr_arrivals := fr_arrivals st'\<rparr> \<and>
     fr_reached st \<subseteq> fr_reached st' \<and>
     (\<forall>k. set (get_or [] (fr_enabled st k)) \<subseteq> set (get_or [] (fr_enabled st' k)))"

lemma token_step_fields:
  assumes "token_step st st'"
  shows "fr_generations st' = fr_generations st" "fr_running st' = fr_running st"
    "fr_completed st' = fr_completed st" "fr_isolated st' = fr_isolated st"
    "fr_isolated_nodes st' = fr_isolated_nodes st" "fr_closed st' = fr_closed st"
    "fr_decisions st' = fr_decisions st" "fr_exhausted st' = fr_exhausted st"
proof -
  obtain r e a where "st' = st\<lparr>fr_reached := r, fr_enabled := e, fr_arrivals := a\<rparr>"
    using assms unfolding token_step_def by blast
  then show "fr_generations st' = fr_generations st" "fr_running st' = fr_running st"
    "fr_completed st' = fr_completed st" "fr_isolated st' = fr_isolated st"
    "fr_isolated_nodes st' = fr_isolated_nodes st" "fr_closed st' = fr_closed st"
    "fr_decisions st' = fr_decisions st" "fr_exhausted st' = fr_exhausted st"
    by simp_all
qed

lemma token_step_mono:
  assumes "token_step st st'"
  shows "k \<in> fr_reached st \<Longrightarrow> k \<in> fr_reached st'"
    and "i \<in> set (get_or [] (fr_enabled st k)) \<Longrightarrow> i \<in> set (get_or [] (fr_enabled st' k))"
  using assms unfolding token_step_def by blast+

lemma token_step_refl [simp]: "token_step st st"
  by (simp add: token_step_def)

lemma token_step_trans:
  assumes a: "token_step st st'" and b: "token_step st' st''"
  shows "token_step st st''"
proof -
  have "st'' = st\<lparr>fr_reached := fr_reached st'', fr_enabled := fr_enabled st'', fr_arrivals := fr_arrivals st''\<rparr>"
    by (rule fstate.equality) (simp_all add: token_step_fields [OF a] token_step_fields [OF b])
  then show ?thesis using a b unfolding token_step_def by blast
qed

definition enabled_edge :: "frontier_spec \<Rightarrow> edge_id \<Rightarrow> fstate \<Rightarrow> bool" where
  "enabled_edge sp eid st =
     (case map_of (fs_edges sp) eid of None \<Rightarrow> False
      | Some e \<Rightarrow> (case fr_generations st (fe_dst e) of None \<Rightarrow> False
          | Some g \<Rightarrow> (fe_dst e, g) \<in> fr_reached st \<and> eid \<in> set (get_or [] (fr_enabled st (fe_dst e, g)))))"

lemma enabled_edge_mono: "token_step st st' \<Longrightarrow> enabled_edge sp eid st \<Longrightarrow> enabled_edge sp eid st'"
  unfolding enabled_edge_def using token_step_fields(1) [of st st'] token_step_mono [of st st']
  by (auto split: option.splits)

lemma enable_total:
  assumes inv: "state_inv sp st" and e: "map_of (fs_edges sp) eid = Some e" and d: "fe_dst e \<in> set (fs_nodes sp)"
  obtains st' where "enable_edge sp eid st = Some st'" and "state_inv sp st'"
    and "token_step st st'" and "enabled_edge sp eid st'"
proof -
  obtain g where g: "fr_generations st (fe_dst e) = Some g" using generation_known [OF inv d] .
  let ?k = "(fe_dst e, g)"
  let ?old = "get_or [] (fr_enabled st ?k)"
  define en where "en = (if eid \<in> set ?old then fr_enabled st else (fr_enabled st)(?k \<mapsto> ?old @ [eid]))"
  let ?st = "st\<lparr>fr_reached := insert ?k (fr_reached st), fr_enabled := en\<rparr>"
  have run: "enable_edge sp eid st = Some ?st" using e g by (simp add: enable_edge_def generation_def Let_def en_def)
  have old: "distinct ?old \<and> (\<forall>i \<in> set ?old. edge_with sp (\<lambda>fe. fe_dst fe = fe_dst e) i)"
    using state_invD(6) [OF inv, of ?k] by (cases "fr_enabled st ?k") auto
  have this_edge: "edge_with sp (\<lambda>fe. fe_dst fe = fe_dst e) eid" using e by (simp add: edge_with_def)
  have "live st k \<and> distinct ids \<and> (\<forall>i \<in> set ids. edge_with sp (\<lambda>fe. fe_dst fe = fst k) i)"
    if "en k = Some ids" for k ids
  proof (cases "k = ?k \<and> eid \<notin> set ?old")
    case True
    then show ?thesis using that old this_edge g by (auto simp: en_def live_def)
  next
    case False
    then have "fr_enabled st k = Some ids" using that by (auto simp: en_def split: if_splits)
    then show ?thesis by (rule state_invD(6) [OF inv])
  qed
  then have "state_inv sp ?st"
    using inv g unfolding state_inv_def live_def by auto
  moreover have "token_step st ?st" by (auto simp: token_step_def en_def)
  moreover have "enabled_edge sp eid ?st" using e g by (auto simp: enabled_edge_def en_def)
  ultimately show ?thesis using that run by blast
qed

lemma record_total:
  assumes inv: "state_inv sp st" and d: "d \<in> set (fs_nodes sp)"
  obtains st' where "record_arrival d eid v st = Some st'" and "state_inv sp st'" and "token_step st st'"
    and "\<And>g. fr_generations st d = Some g \<Longrightarrow> get_or Map.empty (fr_arrivals st' (d, g)) eid = Some v"
proof -
  obtain g where g: "fr_generations st d = Some g" using generation_known [OF inv d] .
  let ?st = "st\<lparr>fr_arrivals := (fr_arrivals st)((d, g) \<mapsto> (get_or Map.empty (fr_arrivals st (d, g)))(eid \<mapsto> v))\<rparr>"
  have "record_arrival d eid v st = Some ?st" using g by (simp add: record_arrival_def generation_def Let_def)
  moreover have "state_inv sp ?st" using inv g unfolding state_inv_def live_def by auto
  moreover have "token_step st ?st" by (simp add: token_step_def)
  ultimately show ?thesis using that g by simp
qed

section \<open>Walking the outgoing edges\<close>

definition edges_from :: "frontier_spec \<Rightarrow> node_id \<Rightarrow> edge_id list \<Rightarrow> bool" where
  "edges_from sp n ids \<longleftrightarrow>
     (\<forall>i \<in> set ids. edge_with sp (\<lambda>fe. fe_src fe = n \<and> fe_dst fe \<in> set (fs_nodes sp)) i)"

lemma outgoing_known:
  assumes "wf_spec sp" and "n \<in> set (fs_nodes sp)"
  obtains ids where "map_of (fs_outgoing sp) n = Some ids" and "edges_from sp n ids"
  using assms by (fastforce simp: wf_spec_def edges_from_def split: option.splits)

lemma forward_edges_total:
  assumes "state_inv sp st" and "edges_from sp n ids"
  shows "\<exists>st'. forward_edges sp results ids st = Some st' \<and> state_inv sp st' \<and> token_step st st' \<and>
    (\<forall>i \<in> set ids. edge_with sp (\<lambda>fe. \<not> fe_loop fe) i \<and> results i = Some True \<longrightarrow> enabled_edge sp i st')"
  using assms
proof (induction ids arbitrary: st)
  case (Cons i ids)
  obtain e where e: "map_of (fs_edges sp) i = Some e" "fe_dst e \<in> set (fs_nodes sp)"
    using Cons.prems(2) by (auto simp: edges_from_def elim: edge_withD)
  have rest: "edges_from sp n ids" using Cons.prems(2) by (simp add: edges_from_def)
  show ?case
  proof (cases "\<not> fe_loop e \<and> get_or False (results i)")
    case True
    obtain st1 where st1: "enable_edge sp i st = Some st1" "state_inv sp st1" "token_step st st1" "enabled_edge sp i st1"
      using enable_total [OF Cons.prems(1) e] .
    obtain st2 where st2: "forward_edges sp results ids st1 = Some st2" "state_inv sp st2" "token_step st1 st2"
      "\<forall>i \<in> set ids. edge_with sp (\<lambda>fe. \<not> fe_loop fe) i \<and> results i = Some True \<longrightarrow> enabled_edge sp i st2"
      using Cons.IH [OF st1(2) rest] by blast
    have "forward_edges sp results (i # ids) st = Some st2" using e st1(1) st2(1) True by simp
    then show ?thesis using st1 st2 enabled_edge_mono token_step_trans by (metis set_ConsD)
  next
    case False
    obtain st2 where st2: "forward_edges sp results ids st = Some st2" "state_inv sp st2" "token_step st st2"
      "\<forall>i \<in> set ids. edge_with sp (\<lambda>fe. \<not> fe_loop fe) i \<and> results i = Some True \<longrightarrow> enabled_edge sp i st2"
      using Cons.IH [OF Cons.prems(1) rest] by blast
    have "forward_edges sp results (i # ids) st = Some st2" using e st2(1) False by auto
    moreover have "\<not> (edge_with sp (\<lambda>fe. \<not> fe_loop fe) i \<and> results i = Some True)"
      using False e(1) by (auto simp: edge_with_def)
    ultimately show ?thesis using st2 by auto
  qed
qed simp

lemma loop_edges_total:
  assumes "state_inv sp st" and "edges_from sp n ids" and "n \<in> set (fs_nodes sp)"
  shows "\<exists>st'. loop_edges sp n epoch results ids st = Some st' \<and> state_inv sp st' \<and> token_step st st'"
  using assms
proof (induction ids arbitrary: st)
  case (Cons i ids)
  obtain e where e: "map_of (fs_edges sp) i = Some e" "fe_dst e \<in> set (fs_nodes sp)"
    using Cons.prems(2) by (auto simp: edges_from_def elim: edge_withD)
  obtain g where g: "fr_generations st n = Some g" using generation_known [OF Cons.prems(1,3)] .
  have rest: "edges_from sp n ids" using Cons.prems(2) by (simp add: edges_from_def)
  obtain st1 where st1: "(if \<not> fe_loop e then Some st
                 else do { g \<leftarrow> generation st n;
                           if epoch \<noteq> g then Some st
                           else record_arrival (fe_dst e) i (get_or False (results i)) st }) = Some st1"
      "state_inv sp st1" "token_step st st1"
  proof (cases "fe_loop e \<and> epoch = g")
    case True
    show ?thesis
      by (rule record_total [OF Cons.prems(1) e(2), of i "get_or False (results i)"])
        (use True g that in \<open>auto simp: generation_def\<close>)
  next
    case False
    then show ?thesis using that [of st] g Cons.prems(1) by (auto simp: generation_def)
  qed
  obtain st2 where "loop_edges sp n epoch results ids st1 = Some st2" "state_inv sp st2" "token_step st1 st2"
    using Cons.IH [OF st1(2) rest Cons.prems(3)] by blast
  then show ?case using e(1) st1 token_step_trans by fastforce
qed simp

lemma replay_edges_total:
  assumes "state_inv sp st" and "edges_from sp n ids"
  shows "\<exists>st'. replay_edges sp results ids st = Some st' \<and> state_inv sp st' \<and> token_step st st'"
  using assms
proof (induction ids arbitrary: st)
  case (Cons i ids)
  obtain e where e: "map_of (fs_edges sp) i = Some e" "fe_dst e \<in> set (fs_nodes sp)"
    using Cons.prems(2) by (auto simp: edges_from_def elim: edge_withD)
  have rest: "edges_from sp n ids" using Cons.prems(2) by (simp add: edges_from_def)
  let ?v = "get_or False (results i)"
  obtain st1 where st1: "(if fe_loop e then record_arrival (fe_dst e) i ?v st
                 else if ?v then enable_edge sp i st else Some st) = Some st1"
      "state_inv sp st1" "token_step st st1"
    using record_total [OF Cons.prems(1) e(2), of i ?v] enable_total [OF Cons.prems(1) e] Cons.prems(1)
      token_step_refl by (metis (full_types))
  obtain st2 where "replay_edges sp results ids st1 = Some st2" "state_inv sp st2" "token_step st1 st2"
    using Cons.IH [OF st1(2) rest] by blast
  then show ?case using e(1) st1 token_step_trans by (fastforce simp: Let_def)
qed simp

end
