(* ===== verification/Frontier_Batch.thy ===== *)
theory Frontier_Batch
  imports Frontier_Inv
begin

text \<open>
  Committing a batch of completions: each phase of \<open>complete_batch\<close> is total on a well-formed
  specification and preserves the invariant, the exact effect of firing a loop group, and the
  budget argument: every fire spends loop budget, every effective completion lowers the
  number of incomplete nodes.
\<close>

section \<open>Committing\<close>

definition known_batch :: "frontier_spec \<Rightarrow> completion list \<Rightarrow> bool" where
  "known_batch sp cs = (\<forall>c \<in> set cs. fst c \<in> set (fs_nodes sp))"

definition fresh_completions :: "fstate \<Rightarrow> completion list \<Rightarrow> completion list" where
  "fresh_completions st cs = filter (\<lambda>(n, epoch, results). fr_generations st n = Some epoch) cs"

definition batch_keys :: "completion list \<Rightarrow> epoch_key set" where
  "batch_keys cs = (\<lambda>(n, epoch, results). (n, epoch)) ` set cs"

lemma state_inv_mark:
  assumes inv: "state_inv sp st" and g: "fr_generations st n = Some g"
  shows "state_inv sp (mark_completed n g results (st\<lparr>fr_running := fr_running st - {(n, g)}\<rparr>))"
    (is "state_inv sp ?st")
proof (rule state_invI)
  show "k \<in> fr_reached ?st \<and> fst k \<notin> fr_isolated_nodes ?st \<and> fr_completed ?st (fst k) = None"
    if "k \<in> fr_running ?st" for k
  proof -
    have k: "k \<in> fr_running st" "k \<noteq> (n, g)" using that by (auto simp: mark_completed_def)
    moreover have "fst k \<noteq> n" using k g state_invD(2,3) [OF inv, of k] by (auto simp: live_def prod_eq_iff)
    ultimately show ?thesis using state_invD(2,9) [OF inv, of k] by (simp add: mark_completed_def)
  qed
  show "fr_generations ?st m = Some h" if "fr_completed ?st m = Some h" for m h
    using that g state_invD(8) [OF inv, of m h] by (auto simp: mark_completed_def split: if_splits)
  show "live ?st k \<and> distinct ids \<and> (\<forall>i \<in> set ids. edge_with sp (\<lambda>fe. fe_dst fe = fst k) i)"
    if "fr_enabled ?st k = Some ids" for k ids
    using that state_invD(6) [OF inv, of k ids] by (simp add: live_def mark_completed_def)
qed (use state_invD(1,3,4,5,7,10,11) [OF inv] in \<open>simp_all add: live_def mark_completed_def\<close>)

lemma state_inv_unlease:
  assumes inv: "state_inv sp st"
  shows "state_inv sp (st\<lparr>fr_running := fr_running st - K\<rparr>)"
  using inv unfolding state_inv_def live_def by simp

lemma commit_total:
  assumes "state_inv sp st" and "known_batch sp cs"
  shows "\<exists>st'. commit_completions cs st = Some (fresh_completions st cs, st') \<and> state_inv sp st' \<and>
    fr_generations st' = fr_generations st \<and> fr_isolated_nodes st' = fr_isolated_nodes st \<and>
    fr_running st' = fr_running st - batch_keys cs \<and> fr_reached st' = fr_reached st \<and>
    (\<forall>n. fr_completed st' n = (if n \<in> fst ` set (fresh_completions st cs) then fr_generations st n
                               else fr_completed st n))"
  using assms
proof (induction cs arbitrary: st)
  case Nil
  then show ?case by (simp add: fresh_completions_def batch_keys_def)
next
  case (Cons c cs)
  obtain n e r where c: "c = (n, e, r)" by (cases c)
  then obtain g where g: "fr_generations st n = Some g"
    using Cons.prems generation_known [OF Cons.prems(1), of n] by (auto simp: known_batch_def)
  have cs: "known_batch sp cs" using Cons.prems(2) by (simp add: known_batch_def)
  let ?st = "st\<lparr>fr_running := fr_running st - {(n, e)}\<rparr>"
  show ?case
  proof (cases "e = g")
    case False
    have "state_inv sp ?st" using Cons.prems(1) by (rule state_inv_unlease)
    then obtain st' where "commit_completions cs ?st = Some (fresh_completions ?st cs, st')" "state_inv sp st'"
      "fr_generations st' = fr_generations ?st" "fr_isolated_nodes st' = fr_isolated_nodes ?st"
      "fr_running st' = fr_running ?st - batch_keys cs" "fr_reached st' = fr_reached ?st"
      "\<forall>n. fr_completed st' n = (if n \<in> fst ` set (fresh_completions ?st cs) then fr_generations ?st n
                               else fr_completed ?st n)"
      using Cons.IH [of ?st] cs by blast
    then show ?thesis using g False
      by (auto simp: c generation_def Let_def fresh_completions_def batch_keys_def)
  next
    case True
    let ?st1 = "mark_completed n e r ?st"
    have "state_inv sp ?st1" using state_inv_mark [OF Cons.prems(1)] g True by simp
    then obtain st' where "commit_completions cs ?st1 = Some (fresh_completions ?st1 cs, st')" "state_inv sp st'"
      "fr_generations st' = fr_generations ?st1" "fr_isolated_nodes st' = fr_isolated_nodes ?st1"
      "fr_running st' = fr_running ?st1 - batch_keys cs" "fr_reached st' = fr_reached ?st1"
      "\<forall>n. fr_completed st' n = (if n \<in> fst ` set (fresh_completions ?st1 cs) then fr_generations ?st1 n
                               else fr_completed ?st1 n)"
      using Cons.IH [of ?st1] cs by blast
    then show ?thesis using g True
      by (auto simp: c generation_def Let_def fresh_completions_def batch_keys_def mark_completed_def)
  qed
qed

lemma forward_batch_total:
  assumes "wf_spec sp" and "state_inv sp st" and "known_batch sp cs"
  shows "\<exists>st'. forward_batch sp cs st = Some st' \<and> state_inv sp st' \<and> token_step st st' \<and>
    (\<forall>(n, epoch, results) \<in> set cs. \<forall>ids. map_of (fs_outgoing sp) n = Some ids \<longrightarrow>
      (\<forall>i \<in> set ids. edge_with sp (\<lambda>fe. \<not> fe_loop fe) i \<and> results i = Some True \<longrightarrow> enabled_edge sp i st'))"
  using assms(2,3)
proof (induction cs arbitrary: st)
  case (Cons c cs)
  obtain n e r where c: "c = (n, e, r)" by (cases c)
  obtain ids where ids: "map_of (fs_outgoing sp) n = Some ids" "edges_from sp n ids"
    using outgoing_known [OF assms(1), of n] Cons.prems(2) c by (auto simp: known_batch_def)
  obtain st1 where st1: "forward_edges sp r ids st = Some st1" "state_inv sp st1" "token_step st st1"
    "\<forall>i \<in> set ids. edge_with sp (\<lambda>fe. \<not> fe_loop fe) i \<and> r i = Some True \<longrightarrow> enabled_edge sp i st1"
    using forward_edges_total [OF Cons.prems(1) ids(2)] by blast
  have "known_batch sp cs" using Cons.prems(2) by (simp add: known_batch_def)
  then obtain st2 where st2: "forward_batch sp cs st1 = Some st2" "state_inv sp st2" "token_step st1 st2"
    "\<forall>(n, epoch, results) \<in> set cs. \<forall>ids. map_of (fs_outgoing sp) n = Some ids \<longrightarrow>
      (\<forall>i \<in> set ids. edge_with sp (\<lambda>fe. \<not> fe_loop fe) i \<and> results i = Some True \<longrightarrow> enabled_edge sp i st2)"
    using Cons.IH [OF st1(2)] by blast
  have "forward_batch sp (c # cs) st = Some st2" using ids st1 st2 by (simp add: c)
  moreover have "token_step st st2" using st1(3) st2(3) by (rule token_step_trans)
  moreover have "enabled_edge sp i st2" if "i \<in> set ids" "edge_with sp (\<lambda>fe. \<not> fe_loop fe) i" "r i = Some True" for i
    using enabled_edge_mono [OF st2(3)] st1(4) that by blast
  ultimately show ?case using st2(2,4) ids(1) by (auto simp: c)
qed simp

lemma loop_batch_total:
  assumes "wf_spec sp" and "state_inv sp st" and "known_batch sp cs"
  shows "\<exists>st'. loop_batch sp cs st = Some st' \<and> state_inv sp st' \<and> token_step st st'"
  using assms(2,3)
proof (induction cs arbitrary: st)
  case (Cons c cs)
  obtain n e r where c: "c = (n, e, r)" by (cases c)
  have n: "n \<in> set (fs_nodes sp)" using Cons.prems(2) c by (simp add: known_batch_def)
  obtain ids where ids: "map_of (fs_outgoing sp) n = Some ids" "edges_from sp n ids"
    using outgoing_known [OF assms(1) n] .
  obtain st1 where st1: "loop_edges sp n e r ids st = Some st1" "state_inv sp st1" "token_step st st1"
    using loop_edges_total [OF Cons.prems(1) ids(2) n] by blast
  have "known_batch sp cs" using Cons.prems(2) by (simp add: known_batch_def)
  then obtain st2 where st2: "loop_batch sp cs st1 = Some st2" "state_inv sp st2" "token_step st1 st2"
    using Cons.IH [OF st1(2)] by blast
  then show ?case using ids st1 token_step_trans by (fastforce simp: c)
qed simp

section \<open>Firing a loop\<close>

lemma bump_total:
  assumes "\<And>n. n \<in> set ns \<Longrightarrow> gs n \<noteq> None" and "distinct ns"
  shows "bump_generations ns gs = Some (\<lambda>n. if n \<in> set ns then map_option Suc (gs n) else gs n)"
  using assms
proof (induction ns arbitrary: gs)
  case (Cons n ns)
  then obtain g where g: "gs n = Some g" by fastforce
  have "bump_generations ns (gs(n \<mapsto> g + 1)) =
      Some (\<lambda>m. if m \<in> set ns then map_option Suc ((gs(n \<mapsto> g + 1)) m) else (gs(n \<mapsto> g + 1)) m)"
    by (rule Cons.IH) (use Cons.prems in auto)
  then show ?case using g Cons.prems(2) by (auto simp: fun_eq_iff)
qed simp

definition fired_state :: "node_id list \<Rightarrow> node_id \<Rightarrow> edge_id list \<Rightarrow> fstate \<Rightarrow> fstate" where
  "fired_state region d ms st =
     (let gens = (\<lambda>n. if n \<in> set region then map_option Suc (fr_generations st n) else fr_generations st n);
          st1 = (clear_epochs region st)\<lparr>fr_generations := gens\<rparr>
      in st1\<lparr>fr_reached := insert (d, the (gens d)) (fr_reached st1),
             fr_enabled := (fr_enabled st1)((d, the (gens d)) \<mapsto> ms)\<rparr>)"

lemma fired_state_fields:
  "fr_generations (fired_state region d ms st) =
     (\<lambda>n. if n \<in> set region then map_option Suc (fr_generations st n) else fr_generations st n)"
  "fr_completed (fired_state region d ms st) = (\<lambda>n. if n \<in> set region then None else fr_completed st n)"
  "fr_running (fired_state region d ms st) = {k \<in> fr_running st. fst k \<notin> set region}"
  "fr_isolated_nodes (fired_state region d ms st) = fr_isolated_nodes st"
  "fr_decisions (fired_state region d ms st) = fr_decisions st"
  "fr_exhausted (fired_state region d ms st) = fr_exhausted st"
  by (simp_all add: fired_state_def Let_def clear_epochs_def)

lemma fired_state_outside:
  assumes "n \<notin> set region" and "d \<in> set region"
  shows "(n, g) \<in> fr_reached (fired_state region d ms st) \<longleftrightarrow> (n, g) \<in> fr_reached st"
    and "fr_enabled (fired_state region d ms st) (n, g) = fr_enabled st (n, g)"
  using assms by (auto simp: fired_state_def Let_def clear_epochs_def)

lemma fired_state_dest:
  assumes "fr_generations st d = Some g" and "d \<in> set region"
  shows "(d, Suc g) \<in> fr_reached (fired_state region d ms st)"
    and "fr_enabled (fired_state region d ms st) (d, Suc g) = Some ms"
  using assms by (simp_all add: fired_state_def Let_def)

lemma state_inv_fired:
  assumes inv: "state_inv sp st" and ok: "group_ok sp (d, ms)" and region: "map_of (fs_regions sp) d = Some region"
  shows "state_inv sp (fired_state region d ms st)" (is "state_inv sp ?st")
proof -
  have r: "d \<in> set region" "set region \<subseteq> set (fs_nodes sp)" "distinct ms"
    "\<forall>m \<in> set ms. edge_with sp (\<lambda>fe. fe_dst fe = d) m"
    using ok region by (auto simp: group_ok_def edge_with_def split: option.splits)
  obtain g where g: "fr_generations st d = Some g" using generation_known [OF inv, of d] r by blast
  have new: "the (if d \<in> set region then map_option Suc (fr_generations st d) else fr_generations st d) = Suc g"
    using r g by simp
  have live: "live ?st k \<longleftrightarrow> live st k" if "fst k \<notin> set region" for k
    using that by (simp add: live_def fired_state_fields)
  have lived: "live ?st (d, Suc g)" using r g by (simp add: live_def fired_state_fields)
  have reached: "fr_reached ?st = insert (d, Suc g) {k \<in> fr_reached st. fst k \<notin> set region}"
    and enabled: "fr_enabled ?st k = (if k = (d, Suc g) then Some ms else if fst k \<in> set region then None else fr_enabled st k)"
    and rest: "fr_arrivals ?st k = (if fst k \<in> set region then None else fr_arrivals st k)"
      "fr_closed ?st = {k \<in> fr_closed st. fst k \<notin> set region}"
      "fr_isolated ?st = {k \<in> fr_isolated st. fst k \<notin> set region}" for k
    unfolding fired_state_def Let_def new by (simp_all add: clear_epochs_def)
  show ?thesis
  proof (rule state_invI)
    show "fr_generations ?st n \<noteq> None \<longleftrightarrow> n \<in> set (fs_nodes sp)" for n
      using state_invD(1) [OF inv, of n] by (simp add: fired_state_fields)
    show "k \<in> fr_reached ?st \<and> fst k \<notin> fr_isolated_nodes ?st \<and> fr_completed ?st (fst k) = None"
      if "k \<in> fr_running ?st" for k
      using that state_invD(2,9) [OF inv, of k] by (simp add: fired_state_fields reached)
    show "live ?st k" if "k \<in> fr_reached ?st" for k
      using that lived live [of k] state_invD(3) [OF inv, of k] by (auto simp: reached)
    show "live ?st k \<and> fst k \<in> fr_isolated_nodes ?st" if "k \<in> fr_isolated ?st" for k
      using that live [of k] state_invD(4) [OF inv, of k] by (auto simp: rest fired_state_fields)
    show "live ?st k" if "k \<in> fr_closed ?st" for k using that live [of k] state_invD(5) [OF inv, of k] by (auto simp: rest)
    show "live ?st k \<and> distinct ids \<and> (\<forall>i \<in> set ids. edge_with sp (\<lambda>fe. fe_dst fe = fst k) i)"
      if "fr_enabled ?st k = Some ids" for k ids
      using that lived live [of k] state_invD(6) [OF inv, of k ids] r(3,4) by (auto simp: enabled split: if_splits)
    show "live ?st k" if "fr_arrivals ?st k = Some a" for k a
      using that live [of k] state_invD(7) [OF inv, of k a] by (auto simp: rest split: if_splits)
    show "fr_generations ?st n = Some h" if "fr_completed ?st n = Some h" for n h
      using that state_invD(8) [OF inv, of n h] by (auto simp: fired_state_fields split: if_splits)
    show "distinct (fr_exhausted ?st)" "\<And>i. i \<in> set (fr_exhausted ?st) \<Longrightarrow> edge_with sp fe_loop i"
      using state_invD(10,11) [OF inv] by (simp_all add: fired_state_fields)
  qed
qed

lemma resupply_total:
  assumes "state_inv sp st" and "\<forall>i \<in> set bs. edge_with sp (\<lambda>fe. fe_dst fe \<in> set (fs_nodes sp)) i"
  shows "\<exists>st'. resupply sp bs st = Some st' \<and> state_inv sp st' \<and> token_step st st' \<and>
    (\<forall>i \<in> set bs. \<forall>e. map_of (fs_edges sp) i = Some e \<and> get_or Map.empty (fr_decisions st (fe_src e)) i = Some True
        \<longrightarrow> enabled_edge sp i st')"
  using assms
proof (induction bs arbitrary: st)
  case (Cons i bs)
  obtain e where e: "map_of (fs_edges sp) i = Some e" "fe_dst e \<in> set (fs_nodes sp)"
    using Cons.prems(2) by (auto elim: edge_withD)
  obtain st1 where st1: "(if get_or Map.empty (fr_decisions st (fe_src e)) i = Some True
       then enable_edge sp i st else Some st) = Some st1" "state_inv sp st1" "token_step st st1"
     "get_or Map.empty (fr_decisions st (fe_src e)) i = Some True \<Longrightarrow> enabled_edge sp i st1"
  proof (cases "get_or Map.empty (fr_decisions st (fe_src e)) i = Some True")
    case True
    show ?thesis by (rule enable_total [OF Cons.prems(1) e]) (use True that in simp)
  next
    case False
    then show ?thesis using that [of st] Cons.prems(1) by simp
  qed
  obtain st2 where st2: "resupply sp bs st1 = Some st2" "state_inv sp st2" "token_step st1 st2"
    "\<forall>i \<in> set bs. \<forall>e. map_of (fs_edges sp) i = Some e \<and> get_or Map.empty (fr_decisions st1 (fe_src e)) i = Some True
        \<longrightarrow> enabled_edge sp i st2"
    using Cons.IH [OF st1(2)] Cons.prems(2) by auto
  have "resupply sp (i # bs) st = Some st2" using e(1) st1(1) st2(1) by simp
  moreover have "token_step st st2" using st1(3) st2(3) by (rule token_step_trans)
  moreover have "fr_decisions st1 = fr_decisions st" using st1(3) by (simp add: token_step_fields)
  moreover have "enabled_edge sp i st2" if "get_or Map.empty (fr_decisions st (fe_src e)) i = Some True"
    using st1(4) [OF that] enabled_edge_mono [OF st2(3)] by blast
  ultimately show ?case using st2(2,4) e(1) by auto
qed simp

lemma fire_total:
  assumes inv: "state_inv sp st" and ok: "group_ok sp (d, ms)"
  obtains region boundary st' where "map_of (fs_regions sp) d = Some region"
    and "map_of (fs_boundary sp) d = Some boundary"
    and "fire_loop sp d ms st = Some st'" and "state_inv sp st'" and "token_step (fired_state region d ms st) st'"
    and "\<forall>i \<in> set boundary. \<forall>e. map_of (fs_edges sp) i = Some e \<and>
        get_or Map.empty (fr_decisions st (fe_src e)) i = Some True \<longrightarrow> enabled_edge sp i st'"
proof -
  obtain region boundary where rb: "map_of (fs_regions sp) d = Some region" "map_of (fs_boundary sp) d = Some boundary"
    "d \<in> set region" "distinct region" "set region \<subseteq> set (fs_nodes sp)"
    "\<forall>i \<in> set boundary. edge_with sp
               (\<lambda>fe. \<not> fe_loop fe \<and> fe_dst fe \<in> set region \<and> fe_src fe \<notin> set region) i"
    using ok by (auto simp: group_ok_def split: option.splits)
  have known: "fr_generations st n \<noteq> None" if "n \<in> set region" for n
    using state_invD(1) [OF inv, of n] that rb(5) by auto
  let ?gens = "\<lambda>n. if n \<in> set region then map_option Suc (fr_generations st n) else fr_generations st n"
  have bump: "bump_generations region (fr_generations (clear_epochs region st)) = Some ?gens"
    using bump_total [of region "fr_generations st"] known rb(4) by (simp add: clear_epochs_def)
  obtain g where g: "fr_generations st d = Some g" using generation_known [OF inv, of d] rb by blast
  have bd: "edge_with sp (\<lambda>fe. fe_dst fe \<in> set (fs_nodes sp)) i" if "i \<in> set boundary" for i
    by (rule edge_with_mono [where P = "\<lambda>fe. \<not> fe_loop fe \<and> fe_dst fe \<in> set region \<and> fe_src fe \<notin> set region"])
      (use that rb in auto)
  obtain st' where st': "resupply sp boundary (fired_state region d ms st) = Some st'" "state_inv sp st'"
    "token_step (fired_state region d ms st) st'"
    "\<forall>i \<in> set boundary. \<forall>e. map_of (fs_edges sp) i = Some e \<and>
      get_or Map.empty (fr_decisions (fired_state region d ms st) (fe_src e)) i = Some True \<longrightarrow> enabled_edge sp i st'"
    using resupply_total [OF state_inv_fired [OF inv ok rb(1)], of boundary] bd by blast
  have "fire_loop sp d ms st = Some st'"
    using rb(1-3) g st'(1) by (simp add: fire_loop_def bump generation_def fired_state_def Let_def)
  then show ?thesis using that rb(1,2) st' by (simp add: fired_state_fields)
qed

section \<open>Evaluating the loop groups\<close>

definition edge_limit :: "frontier_spec \<Rightarrow> edge_id \<Rightarrow> int" where
  "edge_limit sp m = (case map_of (fs_edges sp) m of None \<Rightarrow> 0 | Some e \<Rightarrow> get_or 0 (fe_max e))"

definition edge_strict :: "frontier_spec \<Rightarrow> edge_id \<Rightarrow> bool" where
  "edge_strict sp m = edge_with sp fe_strict m"

lemma spent_total:
  assumes "\<forall>m \<in> set ms. edge_with sp (\<lambda>fe. fe_max fe \<noteq> None) m"
  shows "spent_members sp P lc ms = Some (filter (\<lambda>m. edge_with sp P m \<and> edge_limit sp m \<le> loop_count lc m) ms)"
  using assms
proof (induction ms)
  case (Cons m ms)
  obtain e l where "map_of (fs_edges sp) m = Some e" "fe_max e = Some l"
    using Cons.prems by (auto elim!: edge_withD)
  then show ?case using Cons by (auto simp: edge_with_def edge_limit_def)
qed simp

lemma count_loops_count:
  "distinct ms \<Longrightarrow> loop_count (count_loops ms lc) m = loop_count lc m + (if m \<in> set ms then 1 else 0)"
  by (induction ms arbitrary: lc) (auto simp: loop_count_def)

lemma note_exhausted_inv:
  "distinct seen \<Longrightarrow> distinct (note_exhausted seen ms)"
  "set (note_exhausted seen ms) = set seen \<union> set ms"
  by (induction seen ms rule: note_exhausted.induct) auto

lemma state_inv_closed:
  assumes "state_inv sp st" and "live st k"
  shows "state_inv sp (st\<lparr>fr_closed := insert k (fr_closed st)\<rparr>)"
  using assms unfolding state_inv_def live_def by simp

lemma state_inv_exhausted:
  assumes "state_inv sp st" and "\<forall>m \<in> set ms. edge_with sp (\<lambda>fe. fe_loop fe) m"
  shows "state_inv sp (st\<lparr>fr_exhausted := note_exhausted (fr_exhausted st) ms\<rparr>)"
  using assms note_exhausted_inv [of "fr_exhausted st" ms] unfolding state_inv_def live_def by auto

lemma group_okD:
  assumes "group_ok sp (d, ms)"
  shows "d \<in> set (fs_nodes sp)" "ms \<noteq> []" "distinct ms"
    "\<forall>m \<in> set ms. edge_with sp (\<lambda>fe. fe_max fe \<noteq> None) m" "\<forall>m \<in> set ms. edge_with sp (\<lambda>fe. fe_loop fe) m"
  using assms by (auto simp: group_ok_def edge_with_def split: option.splits)

text \<open>What one turn of the group loop can do. \<open>Waiting\<close> covers a closed group and one whose
  members have not all reported.\<close>

definition group_arrived :: "fstate \<Rightarrow> node_id \<Rightarrow> edge_id \<rightharpoonup> bool" where
  "group_arrived st d = (case fr_generations st d of None \<Rightarrow> Map.empty
     | Some g \<Rightarrow> get_or Map.empty (fr_arrivals st (d, g)))"

definition group_open :: "fstate \<Rightarrow> node_id \<Rightarrow> bool" where
  "group_open st d = (case fr_generations st d of None \<Rightarrow> False | Some g \<Rightarrow> (d, g) \<notin> fr_closed st)"

definition group_pending :: "fstate \<Rightarrow> node_id \<Rightarrow> edge_id list \<Rightarrow> bool" where
  "group_pending st d ms = (\<not> group_open st d \<or> (\<exists>m \<in> set ms. group_arrived st d m = None))"

definition over_limit :: "frontier_spec \<Rightarrow> counters \<Rightarrow> edge_id \<Rightarrow> bool" where
  "over_limit sp lc m = (edge_limit sp m \<le> loop_count lc m)"

lemma evaluate_group_exact:
  assumes inv: "state_inv sp st" and ok: "group_ok sp (d, ms)" and g: "fr_generations st d = Some g"
  shows "evaluate_group sp d ms st lc =
    (if group_pending st d ms then Some (None, st, lc)
     else if \<exists>m \<in> set ms. group_arrived st d m \<noteq> Some True
     then Some (None, st\<lparr>fr_closed := insert (d, g) (fr_closed st)\<rparr>, lc)
     else if \<exists>m \<in> set ms. edge_strict sp m \<and> over_limit sp lc m
     then Some (Some (hd (filter (\<lambda>m. edge_strict sp m \<and> over_limit sp lc m) ms)), st, lc)
     else if \<exists>m \<in> set ms. over_limit sp lc m
     then Some (None, st\<lparr>fr_exhausted := note_exhausted (fr_exhausted st) (filter (over_limit sp lc) ms),
                        fr_closed := insert (d, g) (fr_closed st)\<rparr>, lc)
     else Some (None, the (fire_loop sp d ms st), count_loops ms lc))"
proof -
  note max = group_okD(4) [OF ok]
  have all: "edge_with sp (\<lambda>_. True) m" if "m \<in> set ms" for m
    using max that by (auto simp: edge_with_def split: option.splits)
  have s1: "spent_members sp fe_strict lc ms = Some (filter (\<lambda>m. edge_strict sp m \<and> over_limit sp lc m) ms)"
    unfolding spent_total [OF max] edge_strict_def over_limit_def ..
  have "filter (\<lambda>m. edge_with sp (\<lambda>_. True) m \<and> edge_limit sp m \<le> loop_count lc m) ms = filter (over_limit sp lc) ms"
    by (rule filter_cong) (use all in \<open>auto simp: over_limit_def\<close>)
  then have s2: "spent_members sp (\<lambda>_. True) lc ms = Some (filter (over_limit sp lc) ms)"
    using spent_total [OF max, of "\<lambda>_. True"] by simp
  obtain st' where "fire_loop sp d ms st = Some st'"
    using fire_total [OF inv ok] by metis
  note fire = this
  let ?a = "get_or Map.empty (fr_arrivals st (d, g))"
  let ?S = "\<lambda>m. edge_strict sp m \<and> over_limit sp lc m"
  have arrived: "group_arrived st d = ?a" by (simp add: group_arrived_def g)
  have pending: "group_pending st d ms \<longleftrightarrow> (d, g) \<in> fr_closed st \<or> (\<exists>m \<in> set ms. ?a m = None)"
    by (simp add: group_pending_def group_open_def g arrived)
  have some: "(filter P ms \<noteq> []) = (\<exists>m \<in> set ms. P m)" for P by (simp add: filter_empty_conv)
  have "evaluate_group sp d ms st lc =
    (if (d, g) \<in> fr_closed st then Some (None, st, lc)
     else if \<exists>m \<in> set ms. ?a m = None then Some (None, st, lc)
     else if \<exists>m \<in> set ms. ?a m \<noteq> Some True
     then Some (None, st\<lparr>fr_closed := insert (d, g) (fr_closed st)\<rparr>, lc)
     else if \<exists>m \<in> set ms. ?S m then Some (Some (hd (filter ?S ms)), st, lc)
     else if \<exists>m \<in> set ms. over_limit sp lc m
     then Some (None, st\<lparr>fr_exhausted := note_exhausted (fr_exhausted st) (filter (over_limit sp lc) ms),
                        fr_closed := insert (d, g) (fr_closed st)\<rparr>, lc)
     else Some (None, st', count_loops ms lc))"
    by (simp only: evaluate_group_def generation_def g s1 s2 Let_def bind.bind_lunit fire some)
  moreover have "(if P then x else if Q then x else y) = (if P \<or> Q then x else y)" for P Q and x y :: 'x by simp
  ultimately show ?thesis unfolding pending arrived fire option.sel by (simp only: )
qed

section \<open>The budget\<close>

definition loop_members :: "frontier_spec \<Rightarrow> edge_id set" where
  "loop_members sp = set (concat (map snd (fs_groups sp)))"

definition budget :: "frontier_spec \<Rightarrow> counters \<Rightarrow> nat" where
  "budget sp lc = (\<Sum>m \<in> loop_members sp. nat (edge_limit sp m - loop_count lc m))"

definition incomplete :: "frontier_spec \<Rightarrow> fstate \<Rightarrow> nat" where
  "incomplete sp st = card {n \<in> set (fs_nodes sp). fr_completed st n = None}"

definition work_left :: "frontier_spec \<Rightarrow> fstate \<Rightarrow> counters \<Rightarrow> nat" where
  "work_left sp st lc = budget sp lc * (length (fs_nodes sp) + 1) + incomplete sp st"

lemma incomplete_le: "incomplete sp st \<le> length (fs_nodes sp)"
proof -
  have "incomplete sp st \<le> card (set (fs_nodes sp))" unfolding incomplete_def by (rule card_mono) auto
  then show ?thesis using card_length [of "fs_nodes sp"] by simp
qed

lemma budget_fire:
  assumes "ms \<noteq> []" and "distinct ms" and "set ms \<subseteq> loop_members sp" and "\<forall>m \<in> set ms. \<not> over_limit sp lc m"
  shows "budget sp (count_loops ms lc) < budget sp lc"
  unfolding budget_def
proof (rule sum_strict_mono_ex1)
  show "finite (loop_members sp)" by (simp add: loop_members_def)
  show "\<forall>m \<in> loop_members sp. nat (edge_limit sp m - loop_count (count_loops ms lc) m)
      \<le> nat (edge_limit sp m - loop_count lc m)"
    using count_loops_count [OF assms(2)] by auto
  obtain m where "m \<in> set ms" using assms(1) by (cases ms) auto
  then show "\<exists>m \<in> loop_members sp. nat (edge_limit sp m - loop_count (count_loops ms lc) m)
      < nat (edge_limit sp m - loop_count lc m)"
    using assms(3,4) count_loops_count [OF assms(2), of lc m]
    by (intro bexI [of _ m]) (auto simp: over_limit_def)
qed

lemma work_left_fire:
  assumes "budget sp lc' < budget sp lc"
  shows "work_left sp st' lc' < work_left sp st lc"
proof -
  let ?N = "length (fs_nodes sp) + 1"
  have "budget sp lc' * ?N + ?N \<le> budget sp lc * ?N"
    using assms by (metis Suc_leI add.commute mult_Suc mult_le_mono1)
  then show ?thesis using incomplete_le [of sp st'] by (simp add: work_left_def)
qed

text \<open>What an evaluation step leaves unchanged or moves in one direction only.\<close>

definition eval_step :: "frontier_spec \<Rightarrow> fstate \<Rightarrow> counters \<Rightarrow> fstate \<Rightarrow> counters \<Rightarrow> bool" where
  "eval_step sp st lc st' lc' \<longleftrightarrow>
     state_inv sp st' \<and> fr_isolated_nodes st' = fr_isolated_nodes st \<and> fr_running st' \<subseteq> fr_running st \<and>
     work_left sp st' lc' \<le> work_left sp st lc \<and>
     (\<forall>m. loop_count lc m \<le> loop_count lc' m \<and>
          loop_count lc' m \<le> max (loop_count lc m) (edge_limit sp m)) \<and>
     (\<forall>n g. fr_generations st n = Some g \<longrightarrow>
        (\<exists>g'. fr_generations st' n = Some g' \<and> g \<le> g' \<and> g' + budget sp lc' \<le> g + budget sp lc)) \<and>
     (\<forall>n g. fr_generations st n = Some g \<and> fr_generations st' n = Some g \<longrightarrow>
        fr_completed st' n = fr_completed st n \<and> ((n, g) \<in> fr_running st' \<longleftrightarrow> (n, g) \<in> fr_running st) \<and>
        ((n, g) \<in> fr_reached st \<longrightarrow> (n, g) \<in> fr_reached st') \<and>
        set (get_or [] (fr_enabled st (n, g))) \<subseteq> set (get_or [] (fr_enabled st' (n, g))))"

lemma eval_step_refl: "state_inv sp st \<Longrightarrow> eval_step sp st lc st lc"
  by (simp add: eval_step_def)

lemma eval_step_same:
  assumes "eval_step sp st lc st' lc'" and "fr_generations st n = Some g" and "fr_generations st' n = Some g"
  shows "fr_completed st' n = fr_completed st n \<and> ((n, g) \<in> fr_running st' \<longleftrightarrow> (n, g) \<in> fr_running st) \<and>
    ((n, g) \<in> fr_reached st \<longrightarrow> (n, g) \<in> fr_reached st') \<and>
    set (get_or [] (fr_enabled st (n, g))) \<subseteq> set (get_or [] (fr_enabled st' (n, g)))"
  using assms by (simp add: eval_step_def)

lemma eval_step_trans:
  assumes a: "eval_step sp st lc st1 lc1" and b: "eval_step sp st1 lc1 st2 lc2"
  shows "eval_step sp st lc st2 lc2"
proof -
  have "loop_count lc m \<le> loop_count lc2 m \<and> loop_count lc2 m \<le> max (loop_count lc m) (edge_limit sp m)" for m
  proof -
    have "loop_count lc m \<le> loop_count lc1 m" "loop_count lc1 m \<le> max (loop_count lc m) (edge_limit sp m)"
      "loop_count lc1 m \<le> loop_count lc2 m" "loop_count lc2 m \<le> max (loop_count lc1 m) (edge_limit sp m)"
      using a b by (simp_all add: eval_step_def)
    then show ?thesis by linarith
  qed
  moreover have "\<exists>g2. fr_generations st2 n = Some g2 \<and> g \<le> g2 \<and> g2 + budget sp lc2 \<le> g + budget sp lc"
    if "fr_generations st n = Some g" for n g
  proof -
    obtain g1 where g1: "fr_generations st1 n = Some g1" "g \<le> g1" "g1 + budget sp lc1 \<le> g + budget sp lc"
      using a \<open>fr_generations st n = Some g\<close> unfolding eval_step_def by blast
    obtain g2 where "fr_generations st2 n = Some g2" "g1 \<le> g2" "g2 + budget sp lc2 \<le> g1 + budget sp lc1"
      using b g1(1) unfolding eval_step_def by blast
    then show ?thesis using g1 by auto
  qed
  moreover have "fr_completed st2 n = fr_completed st n \<and> ((n, g) \<in> fr_running st2 \<longleftrightarrow> (n, g) \<in> fr_running st) \<and>
      ((n, g) \<in> fr_reached st \<longrightarrow> (n, g) \<in> fr_reached st2) \<and>
      set (get_or [] (fr_enabled st (n, g))) \<subseteq> set (get_or [] (fr_enabled st2 (n, g)))"
    if old: "fr_generations st n = Some g" and new: "fr_generations st2 n = Some g" for n g
  proof -
    obtain g1 where g1: "fr_generations st1 n = Some g1" "g \<le> g1"
      using a old unfolding eval_step_def by blast
    moreover have "g1 \<le> g" using b g1(1) new unfolding eval_step_def by fastforce
    ultimately have "fr_generations st1 n = Some g" by simp
    then show ?thesis using eval_step_same [OF a old] eval_step_same [OF b] new by auto
  qed
  moreover have "state_inv sp st2" "fr_isolated_nodes st2 = fr_isolated_nodes st"
    "fr_running st2 \<subseteq> fr_running st" "work_left sp st2 lc2 \<le> work_left sp st lc"
    using a b unfolding eval_step_def by auto
  ultimately show ?thesis unfolding eval_step_def by blast
qed

lemma evaluate_group_step:
  assumes inv: "state_inv sp st" and ok: "group_ok sp (d, ms)" and mem: "set ms \<subseteq> loop_members sp"
  shows "\<exists>res st' lc'. evaluate_group sp d ms st lc = Some (res, st', lc') \<and> eval_step sp st lc st' lc' \<and>
    (\<forall>m. res = Some m \<longrightarrow> m \<in> set ms \<and> edge_strict sp m \<and> over_limit sp lc m \<and> st' = st \<and> lc' = lc)"
proof -
  obtain g where g: "fr_generations st d = Some g" using generation_known [OF inv] group_okD(1) [OF ok] .
  have lk: "live st (d, g)" using g by (simp add: live_def)
  have closed: "eval_step sp st lc (st\<lparr>fr_closed := insert (d, g) (fr_closed st)\<rparr>) lc"
    using state_inv_closed [OF inv lk] by (simp add: eval_step_def work_left_def incomplete_def)
  have "state_inv sp (st\<lparr>fr_exhausted := note_exhausted (fr_exhausted st) (filter (over_limit sp lc) ms)\<rparr>)"
    using group_okD(5) [OF ok] by (intro state_inv_exhausted [OF inv]) auto
  from state_inv_closed [OF this, of "(d, g)"] lk
  have spent: "eval_step sp st lc (st\<lparr>fr_exhausted := note_exhausted (fr_exhausted st) (filter (over_limit sp lc) ms),
      fr_closed := insert (d, g) (fr_closed st)\<rparr>) lc"
    by (simp add: eval_step_def work_left_def incomplete_def live_def)
  have fire: "eval_step sp st lc (the (fire_loop sp d ms st)) (count_loops ms lc)"
    if none: "\<not> (\<exists>m \<in> set ms. over_limit sp lc m)"
  proof -
    obtain region boundary st' where reg: "map_of (fs_regions sp) d = Some region"
      and f: "fire_loop sp d ms st = Some st'" "state_inv sp st'" "token_step (fired_state region d ms st) st'"
      using fire_total [OF inv ok] .
    have d: "d \<in> set region" using ok reg by (auto simp: group_ok_def split: option.splits)
    note same = token_step_fields [OF f(3)]
    have b: "budget sp (count_loops ms lc) < budget sp lc"
      using budget_fire [OF group_okD(2,3) [OF ok] mem] none by blast
    have "loop_count lc m \<le> loop_count (count_loops ms lc) m \<and>
        loop_count (count_loops ms lc) m \<le> max (loop_count lc m) (edge_limit sp m)" for m
      using none count_loops_count [OF group_okD(3) [OF ok]] by (auto simp: over_limit_def)
    moreover have "fr_completed st' n = fr_completed st n \<and> ((n, h) \<in> fr_running st' \<longleftrightarrow> (n, h) \<in> fr_running st) \<and>
        ((n, h) \<in> fr_reached st \<longrightarrow> (n, h) \<in> fr_reached st') \<and>
        set (get_or [] (fr_enabled st (n, h))) \<subseteq> set (get_or [] (fr_enabled st' (n, h)))"
      if old: "fr_generations st n = Some h" and new: "fr_generations st' n = Some h" for n h
    proof -
      have n: "n \<notin> set region" using old new same by (auto simp: fired_state_fields split: if_splits)
      then show ?thesis
        using same token_step_mono(1) [OF f(3), of "(n, h)"] token_step_mono(2) [OF f(3), where k = "(n, h)"] fired_state_outside [OF n d, where g = h and ms = ms and st = st]
        by (auto simp: fired_state_fields)
    qed
    ultimately show ?thesis
      using f(1,2) b work_left_fire [OF b, of st' st] same
      by (auto simp: eval_step_def fired_state_fields)
  qed
  have strict: "hd (filter Q ms) \<in> set ms \<and> Q (hd (filter Q ms))" if "\<exists>m \<in> set ms. Q m" for Q
  proof -
    have "filter Q ms \<noteq> []" using that by (simp add: filter_empty_conv)
    then have "hd (filter Q ms) \<in> set (filter Q ms)" by (rule hd_in_set)
    then show ?thesis by simp
  qed
  show ?thesis
    using evaluate_group_exact [OF inv ok g, of lc] closed spent fire eval_step_refl [OF inv, of lc]
      strict [of "\<lambda>m. edge_strict sp m \<and> over_limit sp lc m"]
    by (auto split: if_splits)
qed

lemma evaluate_groups_step:
  assumes "state_inv sp st" and "\<forall>(d, ms) \<in> set gs. group_ok sp (d, ms) \<and> set ms \<subseteq> loop_members sp"
  shows "\<exists>res st' lc'. evaluate_groups sp gs st lc = Some (res, st', lc') \<and> eval_step sp st lc st' lc' \<and>
    (\<forall>m. res = Some m \<longrightarrow> edge_strict sp m \<and> over_limit sp lc' m \<and> (\<exists>(d, ms) \<in> set gs. m \<in> set ms))"
  using assms
proof (induction gs arbitrary: st lc)
  case Nil
  then show ?case by (simp add: eval_step_refl)
next
  case (Cons x gs)
  obtain d ms where x: "x = (d, ms)" by (cases x)
  obtain res st1 lc1 where one: "evaluate_group sp d ms st lc = Some (res, st1, lc1)" "eval_step sp st lc st1 lc1"
    "\<forall>m. res = Some m \<longrightarrow> m \<in> set ms \<and> edge_strict sp m \<and> over_limit sp lc m \<and> st1 = st \<and> lc1 = lc"
    using evaluate_group_step [OF Cons.prems(1), of d ms lc] Cons.prems(2) x by auto
  show ?case
  proof (cases res)
    case (Some m)
    then show ?thesis using one by (auto simp: x)
  next
    case None
    have "state_inv sp st1" using one(2) by (simp add: eval_step_def)
    then obtain res' st2 lc2 where two: "evaluate_groups sp gs st1 lc1 = Some (res', st2, lc2)"
      "eval_step sp st1 lc1 st2 lc2"
      "\<forall>m. res' = Some m \<longrightarrow> edge_strict sp m \<and> over_limit sp lc2 m \<and> (\<exists>(d, ms) \<in> set gs. m \<in> set ms)"
      using Cons.IH [of st1 lc1] Cons.prems(2) by auto
    then show ?thesis using one None eval_step_trans [OF one(2) two(2)] by (auto simp: x)
  qed
qed

section \<open>The whole batch\<close>

lemma wf_groups:
  assumes "wf_spec sp"
  shows "\<forall>(d, ms) \<in> set (fs_groups sp). group_ok sp (d, ms) \<and> set ms \<subseteq> loop_members sp"
proof -
  have "set ms \<subseteq> loop_members sp" if "(d, ms) \<in> set (fs_groups sp)" for d ms
    using that by (force simp: loop_members_def)
  then show ?thesis using assms by (auto simp: wf_spec_def)
qed

lemma complete_batch_step:
  assumes wf: "wf_spec sp" and inv: "state_inv sp st" and known: "known_batch sp cs"
  shows "\<exists>st2 res st' lc'. complete_batch sp cs st lc = Some (res, st', lc') \<and>
    eval_step sp st2 lc st' lc' \<and>
    fr_generations st2 = fr_generations st \<and> fr_isolated_nodes st2 = fr_isolated_nodes st \<and>
    fr_running st2 = fr_running st - batch_keys cs \<and>
    (\<forall>n. fr_completed st2 n = (if n \<in> fst ` set (fresh_completions st cs) then fr_generations st n
                               else fr_completed st n)) \<and>
    (\<forall>m. res = Some m \<longrightarrow> edge_strict sp m \<and> over_limit sp lc' m)"
proof -
  let ?vs = "fresh_completions st cs"
  obtain st0 where c: "commit_completions cs st = Some (?vs, st0)" "state_inv sp st0"
    "fr_generations st0 = fr_generations st" "fr_isolated_nodes st0 = fr_isolated_nodes st"
    "fr_running st0 = fr_running st - batch_keys cs"
    "\<forall>n. fr_completed st0 n = (if n \<in> fst ` set ?vs then fr_generations st n else fr_completed st n)"
    using commit_total [OF inv known] by blast
  have vs: "known_batch sp ?vs" using known by (auto simp: known_batch_def fresh_completions_def)
  obtain st1 where f: "forward_batch sp ?vs st0 = Some st1" "state_inv sp st1" "token_step st0 st1"
    using forward_batch_total [OF wf c(2) vs] by blast
  obtain st2 where l: "loop_batch sp ?vs st1 = Some st2" "state_inv sp st2" "token_step st1 st2"
    using loop_batch_total [OF wf f(2) vs] by blast
  have same: "fr_generations st2 = fr_generations st0" "fr_isolated_nodes st2 = fr_isolated_nodes st0"
    "fr_running st2 = fr_running st0" "fr_completed st2 = fr_completed st0"
    using token_step_fields [OF token_step_trans [OF f(3) l(3)]] by simp_all
  obtain res st' lc' where e: "evaluate_groups sp (fs_groups sp) st2 lc = Some (res, st', lc')"
    "eval_step sp st2 lc st' lc'" "\<forall>m. res = Some m \<longrightarrow> edge_strict sp m \<and> over_limit sp lc' m"
    using evaluate_groups_step [OF l(2) wf_groups [OF wf], of lc] by blast
  have "complete_batch sp cs st lc = Some (res, st', lc')"
    using c(1) f(1) l(1) e(1) by (simp add: complete_batch_def)
  then show ?thesis using e c same by metis
qed

lemma incomplete_mono:
  assumes "\<And>n. fr_completed st n \<noteq> None \<Longrightarrow> fr_completed st' n \<noteq> None"
  shows "incomplete sp st' \<le> incomplete sp st"
  unfolding incomplete_def by (rule card_mono) (simp, use assms in blast)

lemma incomplete_less:
  assumes "\<And>n. fr_completed st n \<noteq> None \<Longrightarrow> fr_completed st' n \<noteq> None"
    and "n \<in> set (fs_nodes sp)" and "fr_completed st n = None" and "fr_completed st' n \<noteq> None"
  shows "incomplete sp st' < incomplete sp st"
proof -
  have "n \<in> {n \<in> set (fs_nodes sp). fr_completed st n = None}" "n \<notin> {n \<in> set (fs_nodes sp). fr_completed st' n = None}"
    using assms(2-4) by simp_all
  moreover have "{n \<in> set (fs_nodes sp). fr_completed st' n = None} \<subseteq> {n \<in> set (fs_nodes sp). fr_completed st n = None}"
    using assms(1) by blast
  ultimately have "{n \<in> set (fs_nodes sp). fr_completed st' n = None} \<subset> {n \<in> set (fs_nodes sp). fr_completed st n = None}"
    by blast
  then show ?thesis unfolding incomplete_def by (intro psubset_card_mono) simp
qed

lemma complete_batch_work:
  assumes wf: "wf_spec sp" and inv: "state_inv sp st" and known: "known_batch sp cs"
    and run: "complete_batch sp cs st lc = Some (res, st', lc')"
  shows "work_left sp st' lc' \<le> work_left sp st lc"
    and "(n, g, r) \<in> set cs \<Longrightarrow> (n, g) \<in> fr_running st \<Longrightarrow> work_left sp st' lc' < work_left sp st lc"
proof -
  obtain st2 where e: "eval_step sp st2 lc st' lc'" "fr_generations st2 = fr_generations st"
    "\<forall>n. fr_completed st2 n = (if n \<in> fst ` set (fresh_completions st cs) then fr_generations st n
                               else fr_completed st n)"
    using complete_batch_step [OF wf inv known, of lc] run by auto
  have le: "work_left sp st' lc' \<le> work_left sp st2 lc" using e(1) by (simp add: eval_step_def)
  have known_gen: "fr_generations st n \<noteq> None" if "n \<in> fst ` set (fresh_completions st cs)" for n
    using that by (auto simp: fresh_completions_def)
  have mono: "fr_completed st n \<noteq> None \<Longrightarrow> fr_completed st2 n \<noteq> None" for n
    using e(3) known_gen by auto
  have "work_left sp st2 lc \<le> work_left sp st lc"
    using incomplete_mono [of st st2 sp] mono by (simp add: work_left_def)
  then show "work_left sp st' lc' \<le> work_left sp st lc" using le by simp
  show "work_left sp st' lc' < work_left sp st lc" if mem: "(n, g, r) \<in> set cs" and leased: "(n, g) \<in> fr_running st"
  proof -
    have g: "fr_generations st n = Some g"
      using state_invD(2,3) [OF inv] leased by (fastforce simp: live_def)
    have n: "n \<in> set (fs_nodes sp)" using state_invD(1) [OF inv, of n] g by simp
    have "(n, g, r) \<in> set (fresh_completions st cs)" using mem g by (simp add: fresh_completions_def)
    then have "fr_completed st2 n = Some g" using e(3) g by force
    moreover have "fr_completed st n = None" using state_invD(9) [OF inv leased] by simp
    ultimately have "incomplete sp st2 < incomplete sp st"
      using incomplete_less [of st st2 n sp] mono n by simp
    then show ?thesis using le by (simp add: work_left_def)
  qed
qed

end
