(* ===== verification/Machine.thy ===== *)
theory Machine
  imports Prelude
begin

text \<open>
  Runs of a labelled step relation, and two contracts for one. A \<open>bounded_machine\<close> keeps an
  invariant and never gains work, so its effective steps are bounded by the work it starts
  with; a \<open>lease_machine\<close> moreover grants each key at most once. The scheduler provides both.
\<close>

section \<open>Traces\<close>

inductive trace :: "('s \<Rightarrow> 'e \<Rightarrow> 's \<Rightarrow> bool) \<Rightarrow> 's \<Rightarrow> 'e list \<Rightarrow> 's \<Rightarrow> bool"
  for step :: "'s \<Rightarrow> 'e \<Rightarrow> 's \<Rightarrow> bool" and s :: 's where
  trace_nil: "trace step s [] s"
| trace_snoc: "trace step s es s' \<Longrightarrow> step s' e s'' \<Longrightarrow> trace step s (es @ [e]) s''"

inductive_cases trace_snocE: "trace step s (es @ [e]) s''"

lemma trace_one: "st s e s' \<Longrightarrow> trace st s [e] s'"
  using trace_snoc [of st s "[]" s e s'] trace_nil [of st s] by simp

lemma trace_append: "trace st s es s' \<Longrightarrow> trace st s' es' s'' \<Longrightarrow> trace st s (es @ es') s''"
proof (induction es' arbitrary: s'' rule: rev_induct)
  case Nil
  then show ?case by (auto elim: trace.cases)
next
  case (snoc e es')
  from snoc.prems(2) obtain t where "trace st s' es' t" "st t e s''" by (auto elim: trace_snocE)
  then show ?case using trace_snoc [OF snoc.IH [OF snoc.prems(1)]] by fastforce
qed

lemma trace_keeps:
  assumes "trace step s es s'" and "P s" and "\<And>s e s'. step s e s' \<Longrightarrow> P s \<Longrightarrow> P s'"
  shows "P s'"
  using assms by (induction rule: trace.induct) auto

text \<open>A run in which \<open>k\<close> of the steps are effective.\<close>

inductive counted :: "('s \<Rightarrow> 'e \<Rightarrow> 's \<Rightarrow> bool) \<Rightarrow> ('s \<Rightarrow> 'e \<Rightarrow> bool) \<Rightarrow> 's \<Rightarrow> nat \<Rightarrow> 's \<Rightarrow> bool"
  for step :: "'s \<Rightarrow> 'e \<Rightarrow> 's \<Rightarrow> bool" and eff :: "'s \<Rightarrow> 'e \<Rightarrow> bool" and s :: 's where
  counted_nil: "counted step eff s 0 s"
| counted_snoc: "counted step eff s k s' \<Longrightarrow> step s' e s'' \<Longrightarrow>
    counted step eff s (if eff s' e then Suc k else k) s''"

section \<open>Contracts\<close>

locale bounded_machine =
  fixes step :: "'s \<Rightarrow> 'e \<Rightarrow> 's \<Rightarrow> bool"
    and inv :: "'s \<Rightarrow> bool"
    and work :: "'s \<Rightarrow> nat"
    and eff :: "'s \<Rightarrow> 'e \<Rightarrow> bool"
  assumes inv_step: "step s e s' \<Longrightarrow> inv s \<Longrightarrow> inv s'"
    and work_step: "step s e s' \<Longrightarrow> inv s \<Longrightarrow> work s' \<le> work s"
    and work_eff: "step s e s' \<Longrightarrow> inv s \<Longrightarrow> eff s e \<Longrightarrow> work s' < work s"
begin

lemma trace_inv: "trace step s es s' \<Longrightarrow> inv s \<Longrightarrow> inv s'"
  by (induction rule: trace.induct) (auto intro: inv_step)

lemma trace_work: "trace step s es s' \<Longrightarrow> inv s \<Longrightarrow> work s' \<le> work s"
proof (induction rule: trace.induct)
  case (trace_snoc es s' e s'')
  then show ?case using work_step trace_inv by fastforce
qed simp

lemma counted_inv: "counted step eff s k s' \<Longrightarrow> inv s \<Longrightarrow> inv s'"
  by (induction rule: counted.induct) (auto intro: inv_step)

lemma counted_bound: "counted step eff s k s' \<Longrightarrow> inv s \<Longrightarrow> k + work s' \<le> work s"
proof (induction rule: counted.induct)
  case (counted_snoc k s' e s'')
  have "inv s'" by (rule counted_inv [OF counted_snoc.hyps(1) counted_snoc.prems])
  then show ?case
    using counted_snoc work_step [of s' e s''] work_eff [of s' e s''] by fastforce
qed simp

end

locale lease_machine = bounded_machine step inv work eff
  for step :: "'s \<Rightarrow> 'e \<Rightarrow> 's \<Rightarrow> bool" and inv work eff +
  fixes granted :: "'e \<Rightarrow> 'k list"
    and spent :: "'s \<Rightarrow> 'k \<Rightarrow> bool"
  assumes granted_distinct: "step s e s' \<Longrightarrow> inv s \<Longrightarrow> distinct (granted e)"
    and granted_new: "step s e s' \<Longrightarrow> inv s \<Longrightarrow> k \<in> set (granted e) \<Longrightarrow> \<not> spent s k \<and> spent s' k"
    and spent_step: "step s e s' \<Longrightarrow> inv s \<Longrightarrow> spent s k \<Longrightarrow> spent s' k"
begin

lemma granted_spent:
  assumes "trace step s es s'" and "inv s" and "k \<in> set (concat (map granted es))"
  shows "spent s' k"
  using assms
proof (induction rule: trace.induct)
  case (trace_snoc es s' e s'')
  then have "inv s'" using trace_inv by blast
  then show ?case using trace_snoc granted_new [of s' e s'' k] spent_step [of s' e s'' k] by auto
qed simp

lemma granted_once:
  assumes "trace step s es s'" and "inv s"
  shows "distinct (concat (map granted es))"
  using assms
proof (induction rule: trace.induct)
  case (trace_snoc es s' e s'')
  then have "inv s'" using trace_inv by blast
  moreover have "spent s' k" if "k \<in> set (concat (map granted es))" for k
    using granted_spent [OF trace_snoc.hyps(1) trace_snoc.prems that] .
  ultimately show ?case
    using trace_snoc granted_distinct [of s' e s''] granted_new [of s' e s''] by fastforce
qed simp

lemma trace_spent: "trace step s es s' \<Longrightarrow> inv s \<Longrightarrow> spent s k \<Longrightarrow> spent s' k"
proof (induction rule: trace.induct)
  case (trace_snoc es s' e s'')
  then show ?case using spent_step trace_inv by blast
qed

lemma granted_unspent:
  assumes "trace step s es s'" and "inv s" and "k \<in> set (concat (map granted es))"
  shows "\<not> spent s k"
  using assms
proof (induction rule: trace.induct)
  case (trace_snoc es s' e s'')
  then show ?case using granted_new [of s' e s'' k] trace_inv trace_spent by fastforce
qed simp

lemma unspent_decreases:
  assumes run: "trace step s es s'" and inv: "inv s" and fin: "finite U"
    and sub: "set (concat (map granted es)) \<subseteq> U"
  shows "card {k \<in> U. \<not> spent s' k} + length (concat (map granted es)) \<le> card {k \<in> U. \<not> spent s k}"
proof -
  let ?K = "set (concat (map granted es))"
  have "{k \<in> U. \<not> spent s' k} \<inter> ?K = {}" using granted_spent [OF run inv] by blast
  then have "card ({k \<in> U. \<not> spent s' k} \<union> ?K) = card {k \<in> U. \<not> spent s' k} + card ?K"
    using fin by (intro card_Un_disjoint) simp_all
  moreover have "{k \<in> U. \<not> spent s' k} \<union> ?K \<subseteq> {k \<in> U. \<not> spent s k}"
    using trace_spent [OF run inv] granted_unspent [OF run inv] sub by blast
  then have "card ({k \<in> U. \<not> spent s' k} \<union> ?K) \<le> card {k \<in> U. \<not> spent s k}"
    using fin by (intro card_mono) simp_all
  ultimately show ?thesis using distinct_card [OF granted_once [OF run inv]] by simp
qed

end

end
