(* ===== verification/Frontier_Run.thy ===== *)
theory Frontier_Run
  imports Frontier_Batch Machine
begin

text \<open>
  The scheduler as a state machine: the driver of \<open>executor.py\<close> leases the ready frontier,
  commits batches of finished activations and isolates nodes, in any order. The relation is
  interpreted as a \<open>lease_machine\<close>; the properties of whole runs follow from its lemmas.
\<close>

section \<open>The step relation\<close>

text \<open>The driver leases the ready frontier, commits a batch of finished activations, or isolates
  nodes. The order is free: a commit may carry any completions, stale or repeated ones included.\<close>

datatype sched_event =
    Lease "activation list"
  | Commit "completion list" "edge_id option"
  | Isolate "node_id set"

inductive sched_step :: "frontier_spec \<Rightarrow> fstate \<times> counters \<Rightarrow> sched_event \<Rightarrow> fstate \<times> counters \<Rightarrow> bool"
  for sp :: frontier_spec where
  sched_lease: "take_ready sp st = Some (acts, st') \<Longrightarrow> sched_step sp (st, lc) (Lease acts) (st', lc)"
| sched_commit: "complete_batch sp cs st lc = Some (res, st', lc') \<Longrightarrow>
    sched_step sp (st, lc) (Commit cs res) (st', lc')"
| sched_isolate: "isolate_nodes ns st = Some st' \<Longrightarrow> sched_step sp (st, lc) (Isolate ns) (st', lc)"

inductive_cases sched_leaseE: "sched_step sp s (Lease acts) s'"
inductive_cases sched_commitE: "sched_step sp s (Commit cs res) s'"
inductive_cases sched_isolateE: "sched_step sp s (Isolate ns) s'"

definition leased_keys :: "sched_event \<Rightarrow> epoch_key list" where
  "leased_keys e = (case e of Lease acts \<Rightarrow> map act_key acts | _ \<Rightarrow> [])"

definition effective :: "fstate \<times> counters \<Rightarrow> sched_event \<Rightarrow> bool" where
  "effective s e = (case e of Commit cs res \<Rightarrow> batch_keys cs \<inter> fr_running (fst s) \<noteq> {} | _ \<Rightarrow> False)"

definition spent_key :: "fstate \<times> counters \<Rightarrow> epoch_key \<Rightarrow> bool" where
  "spent_key s k =
     (case fr_generations (fst s) (fst k) of None \<Rightarrow> False
      | Some g \<Rightarrow> snd k < g \<or> (snd k = g \<and>
          (k \<in> fr_running (fst s) \<or> fr_completed (fst s) (fst k) \<noteq> None \<or> fst k \<in> fr_isolated_nodes (fst s))))"

section \<open>Each step\<close>

lemma commit_known:
  assumes "state_inv sp st" and "commit_completions cs st = Some r"
  shows "known_batch sp cs"
  using assms
proof (induction cs arbitrary: st r)
  case (Cons c cs)
  obtain n e res where c: "c = (n, e, res)" by (cases c)
  let ?st = "st\<lparr>fr_running := fr_running st - {(n, e)}\<rparr>"
  obtain g where g: "fr_generations st n = Some g"
    using Cons.prems(2) by (auto simp: c generation_def Let_def bind_eq_Some_conv)
  have inv: "state_inv sp ?st" using Cons.prems(1) by (rule state_inv_unlease)
  have "known_batch sp cs"
  proof (cases "e = g")
    case True
    have "state_inv sp (mark_completed n e res ?st)" using state_inv_mark [OF Cons.prems(1) g] True by simp
    then show ?thesis
      using Cons.IH [of "mark_completed n e res ?st"] Cons.prems(2) g True
      by (auto simp: c generation_def Let_def bind_eq_Some_conv)
  next
    case False
    then show ?thesis
      using Cons.IH [OF inv] Cons.prems(2) g by (auto simp: c generation_def Let_def)
  qed
  moreover have "n \<in> set (fs_nodes sp)" using state_invD(1) [OF Cons.prems(1), of n] g by simp
  ultimately show ?case by (simp add: c known_batch_def)
qed (simp add: known_batch_def)

lemma complete_batch_known:
  assumes "state_inv sp st" and "complete_batch sp cs st lc = Some r"
  shows "known_batch sp cs"
  using assms commit_known by (auto simp: complete_batch_def bind_eq_Some_conv)

lemma isolate_known:
  assumes "state_inv sp st" and "isolate_nodes ns st = Some st'"
  shows "ns \<subseteq> set (fs_nodes sp)"
  using assms state_invD(1) [OF assms(1)] by (auto simp: isolate_nodes_def generation_def split: if_splits)

lemma sched_inv:
  assumes "wf_spec sp" and "sched_step sp s e s'" and "state_inv sp (fst s)"
  shows "state_inv sp (fst s')"
  using assms(2,3)
proof cases
  case (sched_lease st acts st' lc)
  then show ?thesis using state_inv_take [OF _ assms(1)] assms(3) by simp
next
  case (sched_commit cs st lc res st' lc')
  have inv: "state_inv sp st" using assms(3) sched_commit by simp
  show ?thesis
    using complete_batch_step [OF assms(1) inv complete_batch_known [OF inv sched_commit(4)], of lc] sched_commit
    by (auto simp: eval_step_def)
next
  case (sched_isolate ns st st' lc)
  then show ?thesis using isolate_total [of sp st ns] isolate_known [of sp st ns st'] assms(3) by auto
qed

lemma sched_work:
  assumes "wf_spec sp" and "sched_step sp s e s'" and "state_inv sp (fst s)"
  shows "work_left sp (fst s') (snd s') \<le> work_left sp (fst s) (snd s)"
    and "effective s e \<Longrightarrow> work_left sp (fst s') (snd s') < work_left sp (fst s) (snd s)"
proof -
  have "work_left sp (fst s') (snd s') \<le> work_left sp (fst s) (snd s) \<and>
      (effective s e \<longrightarrow> work_left sp (fst s') (snd s') < work_left sp (fst s) (snd s))"
    using assms(2,3)
  proof cases
    case (sched_lease st acts st' lc)
    then show ?thesis
      using take_ready_total [OF _ assms(1), of st] assms(3)
      by (auto simp: work_left_def incomplete_def effective_def)
  next
    case (sched_commit cs st lc res st' lc')
    have inv: "state_inv sp st" using assms(3) sched_commit by simp
    note work = complete_batch_work [OF assms(1) inv complete_batch_known [OF inv sched_commit(4)] sched_commit(4)]
    show ?thesis using work sched_commit by (auto simp: effective_def batch_keys_def)
  next
    case (sched_isolate ns st st' lc)
    have inv: "state_inv sp st" using assms(3) sched_isolate by simp
    have "fr_completed st' = fr_completed st"
      using isolate_total [OF inv isolate_known [OF inv sched_isolate(4)]] sched_isolate(4) by auto
    then show ?thesis using sched_isolate by (simp add: work_left_def incomplete_def effective_def)
  qed
  then show "work_left sp (fst s') (snd s') \<le> work_left sp (fst s) (snd s)"
    and "effective s e \<Longrightarrow> work_left sp (fst s') (snd s') < work_left sp (fst s) (snd s)" by auto
qed

lemma distinct_nodes_leased:
  assumes inv: "state_inv sp st" and wf: "wf_spec sp" and take: "take_ready sp st = Some (acts, st')"
  shows "distinct (map fst acts)"
proof -
  have known: "\<exists>g. fr_generations st n = Some g" if "n \<in> set (fs_nodes sp)" for n
    using generation_known [OF inv that] by blast
  let ?f = "\<lambda>n. map fst (the (ready_node sp st n))"
  have one: "set (?f n) \<subseteq> {n} \<and> distinct (?f n)" if n: "n \<in> set (fs_nodes sp)" for n
    using known [OF n] ready_node_total [OF inv wf n] by auto
  have "distinct ns \<Longrightarrow> set ns \<subseteq> set (fs_nodes sp) \<Longrightarrow> distinct (concat (map ?f ns)) \<and> set (concat (map ?f ns)) \<subseteq> set ns"
    for ns
  proof (induction ns)
    case (Cons n ns)
    then have IH: "distinct (concat (map ?f ns))" "set (concat (map ?f ns)) \<subseteq> set ns" and n: "n \<notin> set ns" by simp_all
    have f: "set (?f n) \<subseteq> {n}" "distinct (?f n)" using one [of n] Cons.prems(2) by simp_all
    then have "set (?f n) \<inter> set (concat (map ?f ns)) = {}" using IH(2) n by blast
    then have "distinct (?f n @ concat (map ?f ns))" using IH(1) f(2) by (simp only: distinct_append)
    moreover have "set (?f n @ concat (map ?f ns)) \<subseteq> set (n # ns)" using IH(2) f(1) by fastforce
    ultimately show ?case by (simp only: list.map concat.simps)
  qed simp
  moreover have "distinct (fs_nodes sp)" using wf by (simp add: wf_spec_def)
  moreover have "acts = ready_acts sp st" using take by (simp add: take_ready_total [OF inv wf])
  ultimately have "distinct (concat (map ?f (fs_nodes sp)))" "acts = ready_acts sp st" by simp_all
  then show ?thesis by (simp only: ready_acts_def map_concat map_map comp_def)
qed

lemma distinct_leased:
  assumes "state_inv sp st" and "wf_spec sp" and "take_ready sp st = Some (acts, st')"
  shows "distinct (map act_key acts)"
proof -
  have "map fst acts = map fst (map act_key acts)" by (simp add: act_key_def comp_def)
  then show ?thesis using distinct_nodes_leased [OF assms] by (metis distinct_map)
qed

lemma leased_ready:
  assumes inv: "state_inv sp st" and wf: "wf_spec sp" and take: "take_ready sp st = Some (acts, st')"
  shows "set (map act_key acts) = {k. ready_key sp st k}"
  using take ready_acts_keys [OF inv wf] by (simp add: take_ready_total [OF inv wf])

lemma lease_spent:
  assumes wf: "wf_spec sp" and step: "sched_step sp s e s'" and inv: "state_inv sp (fst s)"
    and k: "k \<in> set (leased_keys e)"
  shows "\<not> spent_key s k \<and> spent_key s' k"
  using step
proof cases
  case (sched_lease st acts st' lc)
  have inv: "state_inv sp st" using inv sched_lease by simp
  have r: "ready_key sp st k"
    using k leased_ready [OF inv wf sched_lease(4)] sched_lease by (auto simp: leased_keys_def)
  then have "fr_generations st (fst k) = Some (snd k)"
    using state_invD(3) [OF inv] by (simp add: ready_key_def live_def)
  moreover have "st' = st\<lparr>fr_running := fr_running st \<union> {k. ready_key sp st k}\<rparr>"
    using sched_lease(4) by (simp add: take_ready_total [OF inv wf])
  ultimately show ?thesis using r sched_lease by (auto simp: spent_key_def ready_key_def)
qed (use k in \<open>simp_all add: leased_keys_def\<close>)

lemma spent_mono:
  assumes wf: "wf_spec sp" and step: "sched_step sp s e s'" and inv: "state_inv sp (fst s)" and spent: "spent_key s k"
  shows "spent_key s' k"
  using step
proof cases
  case (sched_lease st acts st' lc)
  have "state_inv sp st" using inv sched_lease by simp
  then have "st' = st\<lparr>fr_running := fr_running st \<union> {k. ready_key sp st k}\<rparr>"
    using sched_lease(4) by (simp add: take_ready_total [OF _ wf])
  then show ?thesis using spent sched_lease by (auto simp: spent_key_def split: option.splits)
next
  case (sched_isolate ns st st' lc)
  have i: "state_inv sp st" using inv sched_isolate by simp
  have "fr_isolated_nodes st' = fr_isolated_nodes st \<union> ns \<and> fr_running st' = {k \<in> fr_running st. fst k \<notin> ns}
    \<and> fr_generations st' = fr_generations st \<and> fr_completed st' = fr_completed st"
    using isolate_total [OF i isolate_known [OF i sched_isolate(4)]] sched_isolate(4) by auto
  then show ?thesis using spent sched_isolate by (auto simp: spent_key_def split: option.splits)
next
  case (sched_commit cs st lc res st' lc')
  have i: "state_inv sp st" using inv sched_commit by simp
  obtain st2 where s2: "eval_step sp st2 lc st' lc'" "fr_generations st2 = fr_generations st"
    "fr_isolated_nodes st2 = fr_isolated_nodes st" "fr_running st2 = fr_running st - batch_keys cs"
    "\<forall>n. fr_completed st2 n = (if n \<in> fst ` set (fresh_completions st cs) then fr_generations st n
                               else fr_completed st n)"
    using complete_batch_step [OF wf i complete_batch_known [OF i sched_commit(4)], of lc] sched_commit(4) by auto
  obtain n h where k: "k = (n, h)" by (cases k)
  obtain g where g: "fr_generations st n = Some g" and le: "h \<le> g"
    using spent sched_commit by (auto simp: spent_key_def k split: option.splits)
  obtain g' where g': "fr_generations st' n = Some g'" "g \<le> g'"
    using s2(1,2) g unfolding eval_step_def by metis
  show ?thesis
  proof (cases "h < g'")
    case True
    then show ?thesis using g' sched_commit by (simp add: spent_key_def k)
  next
    case False
    then have eq: "h = g" "g' = g" using le g' by auto
    have "(n, g) \<in> fr_running st2 \<or> fr_completed st2 n \<noteq> None \<or> n \<in> fr_isolated_nodes st2"
    proof (cases "(n, g) \<in> batch_keys cs")
      case True
      then have "n \<in> fst ` set (fresh_completions st cs)"
        using g by (force simp: batch_keys_def fresh_completions_def)
      then show ?thesis using s2(5) g by simp
    next
      case False
      then show ?thesis using spent s2 g eq sched_commit by (auto simp: spent_key_def k)
    qed
    moreover have "fr_completed st' n = fr_completed st2 n \<and> ((n, g) \<in> fr_running st' \<longleftrightarrow> (n, g) \<in> fr_running st2)"
      using eval_step_same [OF s2(1), of n g] g g' eq s2(2) by simp
    ultimately show ?thesis
      using g' eq s2(1) sched_commit by (auto simp: spent_key_def k eval_step_def)
  qed
qed

interpretation sched: lease_machine "sched_step sp" "\<lambda>s. wf_spec sp \<and> state_inv sp (fst s)"
    "\<lambda>s. work_left sp (fst s) (snd s)" effective leased_keys spent_key
  for sp
proof unfold_locales
  show "wf_spec sp \<and> state_inv sp (fst s')" if "sched_step sp s e s'" "wf_spec sp \<and> state_inv sp (fst s)" for s e s'
    using sched_inv that by blast
  show "work_left sp (fst s') (snd s') \<le> work_left sp (fst s) (snd s)"
    if "sched_step sp s e s'" "wf_spec sp \<and> state_inv sp (fst s)" for s e s'
    using sched_work(1) that by blast
  show "work_left sp (fst s') (snd s') < work_left sp (fst s) (snd s)"
    if "sched_step sp s e s'" "wf_spec sp \<and> state_inv sp (fst s)" "effective s e" for s e s'
    using sched_work(2) that by blast
  show "distinct (leased_keys e)" if "sched_step sp s e s'" "wf_spec sp \<and> state_inv sp (fst s)" for s e s'
    using that(1) by cases (use that(2) distinct_leased in \<open>auto simp: leased_keys_def\<close>)
  show "\<not> spent_key s k \<and> spent_key s' k"
    if "sched_step sp s e s'" "wf_spec sp \<and> state_inv sp (fst s)" "k \<in> set (leased_keys e)" for s e s' k
    using lease_spent that by blast
  show "spent_key s' k"
    if "sched_step sp s e s'" "wf_spec sp \<and> state_inv sp (fst s)" "spent_key s k" for s e s' k
    using spent_mono that by blast
qed

section \<open>Runs\<close>

lemma run_inv:
  assumes "wf_spec sp" and "trace (sched_step sp) (new_frontier_state sp restored, lc) es s"
  shows "state_inv sp (fst s)"
  using sched.trace_inv [OF assms(2)] assms(1) state_inv_new [OF assms(1)] by simp

lemma step_counts:
  assumes wf: "wf_spec sp" and inv: "state_inv sp (fst s)" and step: "sched_step sp s e s'"
  shows "loop_count (snd s) m \<le> loop_count (snd s') m"
    and "loop_count (snd s') m \<le> max (loop_count (snd s) m) (edge_limit sp m)"
    and "fr_generations (fst s) n = Some g \<Longrightarrow>
      \<exists>g'. fr_generations (fst s') n = Some g' \<and> g' + budget sp (snd s') \<le> g + budget sp (snd s)"
    and "fr_isolated_nodes (fst s) \<subseteq> fr_isolated_nodes (fst s')"
proof -
  have "loop_count (snd s) m \<le> loop_count (snd s') m \<and>
    loop_count (snd s') m \<le> max (loop_count (snd s) m) (edge_limit sp m) \<and>
    (\<forall>g. fr_generations (fst s) n = Some g \<longrightarrow>
      (\<exists>g'. fr_generations (fst s') n = Some g' \<and> g' + budget sp (snd s') \<le> g + budget sp (snd s))) \<and>
    fr_isolated_nodes (fst s) \<subseteq> fr_isolated_nodes (fst s')"
    using step
  proof cases
    case (sched_lease st acts st' lc)
    then show ?thesis using take_ready_total [OF _ wf, of st] inv by simp
  next
    case (sched_commit cs st lc res st' lc')
    have i: "state_inv sp st" using inv sched_commit by simp
    obtain st2 where s2: "eval_step sp st2 lc st' lc'" "fr_generations st2 = fr_generations st"
      "fr_isolated_nodes st2 = fr_isolated_nodes st"
      using complete_batch_step [OF wf i complete_batch_known [OF i sched_commit(4)], of lc] sched_commit(4) by auto
    then show ?thesis using sched_commit unfolding eval_step_def by (metis fst_conv snd_conv order_refl)
  next
    case (sched_isolate ns st st' lc)
    have i: "state_inv sp st" using inv sched_isolate by simp
    show ?thesis
      using isolate_total [OF i isolate_known [OF i sched_isolate(4)]] sched_isolate by auto
  qed
  then show "loop_count (snd s) m \<le> loop_count (snd s') m"
    and "loop_count (snd s') m \<le> max (loop_count (snd s) m) (edge_limit sp m)"
    and "fr_generations (fst s) n = Some g \<Longrightarrow>
      \<exists>g'. fr_generations (fst s') n = Some g' \<and> g' + budget sp (snd s') \<le> g + budget sp (snd s)"
    and "fr_isolated_nodes (fst s) \<subseteq> fr_isolated_nodes (fst s')" by blast+
qed

lemma trace_counts:
  assumes wf: "wf_spec sp" and run: "trace (sched_step sp) s es s'" and inv: "state_inv sp (fst s)"
  shows "loop_count (snd s) m \<le> loop_count (snd s') m"
    and "loop_count (snd s') m \<le> max (loop_count (snd s) m) (edge_limit sp m)"
    and "fr_generations (fst s) n = Some g \<Longrightarrow>
      \<exists>g'. fr_generations (fst s') n = Some g' \<and> g' + budget sp (snd s') \<le> g + budget sp (snd s)"
    and "fr_isolated_nodes (fst s) \<subseteq> fr_isolated_nodes (fst s')"
proof -
  have "loop_count (snd s) m \<le> loop_count (snd s') m \<and>
    loop_count (snd s') m \<le> max (loop_count (snd s) m) (edge_limit sp m) \<and>
    (\<forall>g. fr_generations (fst s) n = Some g \<longrightarrow>
      (\<exists>g'. fr_generations (fst s') n = Some g' \<and> g' + budget sp (snd s') \<le> g + budget sp (snd s))) \<and>
    fr_isolated_nodes (fst s) \<subseteq> fr_isolated_nodes (fst s')"
    using run
  proof (induction rule: trace.induct)
    case (trace_snoc es s1 e s2)
    have inv1: "state_inv sp (fst s1)" using sched.trace_inv [OF trace_snoc.hyps(1)] wf inv by simp
    note step = step_counts [OF wf inv1 trace_snoc.hyps(2)]
    have "loop_count (snd s2) m \<le> max (loop_count (snd s) m) (edge_limit sp m)"
      using trace_snoc.IH step(2) [of m] by auto
    moreover have "loop_count (snd s) m \<le> loop_count (snd s2) m" using trace_snoc.IH step(1) [of m] by auto
    moreover have "\<exists>g2. fr_generations (fst s2) n = Some g2 \<and> g2 + budget sp (snd s2) \<le> g + budget sp (snd s)"
      if g: "fr_generations (fst s) n = Some g" for g
    proof -
      obtain g1 where "fr_generations (fst s1) n = Some g1" "g1 + budget sp (snd s1) \<le> g + budget sp (snd s)"
        using trace_snoc.IH g by blast
      then show ?thesis using step(3) [of n g1] by fastforce
    qed
    ultimately show ?case using trace_snoc.IH step(4) by blast
  qed auto
  then show "loop_count (snd s) m \<le> loop_count (snd s') m"
    and "loop_count (snd s') m \<le> max (loop_count (snd s) m) (edge_limit sp m)"
    and "fr_generations (fst s) n = Some g \<Longrightarrow>
      \<exists>g'. fr_generations (fst s') n = Some g' \<and> g' + budget sp (snd s') \<le> g + budget sp (snd s)"
    and "fr_isolated_nodes (fst s) \<subseteq> fr_isolated_nodes (fst s')" by blast+
qed

lemma leases_bound_from:
  assumes wf: "wf_spec sp" and inv: "state_inv sp (fst s)" and fresh: "\<And>n. n \<in> set (fs_nodes sp) \<Longrightarrow> fr_generations (fst s) n = Some 0"
    and run: "trace (sched_step sp) s es s'"
  shows "length (concat (map leased_keys es)) \<le> length (fs_nodes sp) * (budget sp (snd s) + 1)"
proof -
  let ?L = "concat (map leased_keys es)"
  have inv': "state_inv sp (fst s')" using sched.trace_inv [OF run] wf inv by simp
  have "set ?L \<subseteq> set (fs_nodes sp) \<times> {..budget sp (snd s)}"
  proof
    fix k assume "k \<in> set ?L"
    then have "spent_key s' k" using sched.granted_spent [OF run] wf inv by blast
    then obtain g where g: "fr_generations (fst s') (fst k) = Some g" "snd k \<le> g"
      by (auto simp: spent_key_def split: option.splits)
    then have n: "fst k \<in> set (fs_nodes sp)" using state_invD(1) [OF inv', of "fst k"] by simp
    then have "g \<le> budget sp (snd s)" using trace_counts(3) [OF wf run inv fresh [OF n]] g(1) by fastforce
    then show "k \<in> set (fs_nodes sp) \<times> {..budget sp (snd s)}" using n g(2) by (cases k) auto
  qed
  then have "card (set ?L) \<le> card (set (fs_nodes sp) \<times> {..budget sp (snd s)})" by (intro card_mono) simp_all
  moreover have "distinct ?L" using sched.granted_once [OF run] wf inv by blast
  moreover have "distinct (fs_nodes sp)" using wf by (simp add: wf_spec_def)
  ultimately have "length ?L = card (set ?L)" "card (set (fs_nodes sp)) = length (fs_nodes sp)"
    by (simp_all only: distinct_card)
  then show ?thesis using \<open>card (set ?L) \<le> _\<close> by (simp add: card_cartesian_product)
qed

lemma trace_leases_bound:
  assumes wf: "wf_spec sp" and run: "trace (sched_step sp) (new_frontier_state sp restored, lc) es s'"
  shows "length (concat (map leased_keys es)) \<le> length (fs_nodes sp) * (budget sp lc + 1)"
  using leases_bound_from [OF wf _ _ run] state_inv_new [OF wf] by (simp add: new_frontier_state_def Let_def)

lemma isolated_not_leased:
  assumes wf: "wf_spec sp" and run: "trace (sched_step sp) s es s'" and inv: "state_inv sp (fst s)"
    and n: "n \<in> fr_isolated_nodes (fst s)"
  shows "n \<notin> fst ` set (concat (map leased_keys es))"
  using run
proof (induction rule: trace.induct)
  case (trace_snoc es s1 e s2)
  have inv1: "state_inv sp (fst s1)" using sched.trace_inv [OF trace_snoc.hyps(1)] wf inv by simp
  have n1: "n \<in> fr_isolated_nodes (fst s1)" using trace_counts(4) [OF wf trace_snoc.hyps(1) inv] n by blast
  have "n \<notin> fst ` set (leased_keys e)"
    using trace_snoc.hyps(2)
  proof cases
    case (sched_lease st acts st' lc)
    then show ?thesis
      using leased_ready [OF _ wf, of st acts st'] inv1 n1 by (auto simp: leased_keys_def ready_key_def)
  qed (simp_all add: leased_keys_def)
  then show ?case using trace_snoc.IH by auto
qed simp

lemma mark_completed_simps [simp]:
  "fr_generations (mark_completed n e r st) = fr_generations st"
  "fr_running (mark_completed n e r st) = fr_running st"
  "(mark_completed n e r st)\<lparr>fr_running := R\<rparr> = mark_completed n e r (st\<lparr>fr_running := R\<rparr>)"
  by (simp_all add: mark_completed_def)

section \<open>Properties of the scheduler\<close>

text \<open>A two-node workflow with a forward edge and one bounded loop, for the concrete instances.\<close>

definition demo_edge :: "edge_id \<Rightarrow> nat \<Rightarrow> node_id \<Rightarrow> node_id \<Rightarrow> int option \<Rightarrow> fedge" where
  "demo_edge i k s d mx = \<lparr>fe_id = i, fe_index = k, fe_src = s, fe_dst = d, fe_loop = (mx \<noteq> None), fe_max = mx,
     fe_strict = False\<rparr>"

definition demo_spec :: frontier_spec where
  "demo_spec = \<lparr>fs_nodes = [''a'', ''b''], fs_entries = [''a''], fs_node_order = [(''a'', 0), (''b'', 1)],
     fs_edges = [(''e0'', demo_edge ''e0'' 0 ''a'' ''b'' None), (''e1'', demo_edge ''e1'' 1 ''b'' ''a'' (Some 2))],
     fs_outgoing = [(''a'', [''e0'']), (''b'', [''e1''])], fs_preds = [(''a'', []), (''b'', [''a''])],
     fs_groups = [(''a'', [''e1''])], fs_regions = [(''a'', [''a'', ''b''])], fs_boundary = [(''a'', [])]\<rparr>"

definition demo_state :: fstate where
  "demo_state = new_frontier_state demo_spec {}"

lemma wf_demo: "wf_spec demo_spec"
  by (simp add: wf_spec_def demo_spec_def group_ok_def edge_with_def demo_edge_def)

lemma demo_lease:
  "take_ready demo_spec demo_state = Some ([(''a'', 0, [])], demo_state\<lparr>fr_running := {(''a'', 0)}\<rparr>)"
  by (simp add: demo_state_def demo_spec_def take_ready_def ready_def ready_node_def new_frontier_state_def
      generation_def Let_def act_key_def)

lemma demo_run:
  "trace (sched_step demo_spec) (new_frontier_state demo_spec {}, Map.empty) [Lease [(''a'', 0, [])]]
     (demo_state\<lparr>fr_running := {(''a'', 0)}\<rparr>, Map.empty)"
  using trace_snoc [of "sched_step demo_spec" "(demo_state, Map.empty)" "[]", OF trace_nil sched_lease [OF demo_lease]]
  by (simp add: demo_state_def)

lemma demo_members: "loop_members demo_spec = {''e1''}" "budget demo_spec Map.empty = 2"
  by (simp_all add: loop_members_def budget_def demo_spec_def edge_limit_def demo_edge_def loop_count_def)

text \<open>The scheduler never raises in a reachable state: leasing the ready frontier, committing
  any batch that names the workflow's nodes (stale and duplicated completions included) and
  isolating any of its nodes all return.\<close>

theorem scheduler_never_raises:
  assumes "wf_spec sp" and "trace (sched_step sp) (new_frontier_state sp restored, lc) es (st, lc')"
  shows "take_ready sp st \<noteq> None \<and> (known_batch sp cs \<longrightarrow> complete_batch sp cs st lc' \<noteq> None) \<and>
    (ns \<subseteq> set (fs_nodes sp) \<longrightarrow> isolate_nodes ns st \<noteq> None)"
proof -
  have inv: "state_inv sp st" using run_inv [OF assms] by simp
  show ?thesis
    using take_ready_total [OF inv assms(1)] complete_batch_step [OF assms(1) inv, of cs lc'] isolate_total [OF inv, of ns]
    by fastforce
qed

lemma scheduler_never_raises_witness:
  "take_ready demo_spec (demo_state\<lparr>fr_running := {(''a'', 0)}\<rparr>) \<noteq> None"
  using scheduler_never_raises [OF wf_demo demo_run] by simp

text \<open>C7. No activation is leased twice: over a whole run, whatever the order of leases, commits,
  loop fires and isolations, the leased (node, epoch) pairs are pairwise distinct.\<close>

theorem lease_once:
  assumes "wf_spec sp" and "trace (sched_step sp) (new_frontier_state sp restored, lc) es s"
  shows "distinct (concat (map leased_keys es))"
  using sched.granted_once [OF assms(2)] assms(1) state_inv_new [OF assms(1)] by simp

lemma lease_once_witness: "distinct (concat (map leased_keys [Lease [(''a'', 0, [])]]))"
  by (rule lease_once [OF wf_demo demo_run])

text \<open>Termination: the number of activations a run can ever lease is bounded by the number of
  nodes times one more than the loop budget, the sum of what the counters leave of the limits.\<close>

theorem lease_bound:
  assumes "wf_spec sp" and "trace (sched_step sp) (new_frontier_state sp restored, lc) es s"
  shows "length (concat (map leased_keys es)) \<le> length (fs_nodes sp) * (budget sp lc + 1)"
  by (rule trace_leases_bound [OF assms])

lemma lease_bound_witness: "length (concat (map leased_keys [Lease [(''a'', 0, [])]])) \<le> 6"
  using lease_bound [OF wf_demo demo_run] by (simp add: demo_members) (simp add: demo_spec_def)

text \<open>Every commit that completes a leased activation makes progress: the number of such commits
  in a run is at most the work the run starts with, loop budget times nodes plus one, plus the
  nodes not yet complete.\<close>

theorem effective_commits_bounded:
  assumes "wf_spec sp"
    and "counted (sched_step sp) effective (new_frontier_state sp restored, lc) k s"
  shows "k \<le> budget sp lc * (length (fs_nodes sp) + 1) + length (fs_nodes sp)"
proof -
  have "k + work_left sp (fst s) (snd s) \<le> work_left sp (new_frontier_state sp restored) lc"
    using sched.counted_bound [OF assms(2)] assms(1) state_inv_new [OF assms(1)] by simp
  then show ?thesis
    using incomplete_le [of sp "new_frontier_state sp restored"] by (simp add: work_left_def)
qed

lemma effective_commits_bounded_witness: "(0::nat) \<le> 2 * 3 + 2"
  using effective_commits_bounded [OF wf_demo counted_nil] by simp

text \<open>C32. Loop counters only grow, and never past the limit of their edge unless the run was
  started past it.\<close>

theorem loop_counters_bounded:
  assumes "wf_spec sp" and "trace (sched_step sp) (new_frontier_state sp restored, lc) es (st, lc')"
  shows "loop_count lc m \<le> loop_count lc' m \<and> loop_count lc' m \<le> max (loop_count lc m) (edge_limit sp m)"
  using trace_counts(1,2) [OF assms(1,2), of m] state_inv_new [OF assms(1)] by simp

lemma loop_counters_bounded_witness:
  "loop_count Map.empty ''e1'' \<le> loop_count Map.empty ''e1'' \<and>
   loop_count Map.empty ''e1'' \<le> max (loop_count Map.empty ''e1'') (edge_limit demo_spec ''e1'')"
  by (rule loop_counters_bounded [OF wf_demo demo_run])

text \<open>C8. The join barrier: a leased activation is of the node's current epoch, was not running,
  isolated or complete, every forward predecessor has completed its own current epoch, and the
  edges handed to the node all end at it.\<close>

theorem lease_sound:
  assumes "wf_spec sp" and "trace (sched_step sp) (new_frontier_state sp restored, lc) es (st, lc')"
    and "take_ready sp st = Some (acts, st')" and "(n, g, ids) \<in> set acts"
  shows "fr_generations st n = Some g \<and> (n, g) \<notin> fr_running st \<and> (n, g) \<in> fr_running st' \<and>
    n \<notin> fr_isolated_nodes st \<and> fr_completed st n = None \<and>
    (\<forall>p \<in> set (get_or [] (map_of (fs_preds sp) n)). fr_completed st p = fr_generations st p \<and> fr_completed st p \<noteq> None) \<and>
    (\<forall>i \<in> set ids. edge_with sp (\<lambda>fe. fe_dst fe = n) i)"
proof -
  have inv: "state_inv sp st" using run_inv [OF assms(1,2)] by simp
  have acts: "acts = ready_acts sp st" "st' = st\<lparr>fr_running := fr_running st \<union> {k. ready_key sp st k}\<rparr>"
    using assms(3) by (simp_all add: take_ready_total [OF inv assms(1)])
  have r: "ready_key sp st (n, g)" and ids: "ids = get_or [] (fr_enabled st (n, g))"
    using assms(4) ready_acts_iff [OF inv assms(1)] by (simp_all add: acts)
  have "fr_completed st p = fr_generations st p" if "fr_completed st p \<noteq> None" for p
    using that state_invD(8) [OF inv, of p] by auto
  moreover have "\<forall>i \<in> set ids. edge_with sp (\<lambda>fe. fe_dst fe = n) i"
    using state_invD(6) [OF inv, of "(n, g)"] ids by (cases "fr_enabled st (n, g)") auto
  moreover have "fr_generations st n = Some g"
    using r state_invD(3) [OF inv, of "(n, g)"] by (simp add: ready_key_def live_def)
  ultimately show ?thesis using r acts(2) by (simp add: ready_key_def preds_done_def)
qed

lemma lease_sound_witness: "(''a'', 0) \<notin> fr_running demo_state \<and> fr_generations demo_state ''a'' = Some 0"
  using lease_sound [OF wf_demo trace_nil demo_lease [unfolded demo_state_def], of "''a''" 0 "[]"]
  by (simp add: demo_state_def)

text \<open>A completion of an epoch that is no longer current, that of an activation overtaken by
  a loop fire, has no effect on the batch beyond giving back its own lease.\<close>

theorem stale_completion_ignored:
  assumes "fr_generations st n = Some g" and "epoch \<noteq> g"
  shows "complete_batch sp (cs1 @ (n, epoch, results) # cs2) st lc =
    complete_batch sp (cs1 @ cs2) (st\<lparr>fr_running := fr_running st - {(n, epoch)}\<rparr>) lc"
proof -
  have "commit_completions (cs1 @ (n, epoch, results) # cs2) st =
      commit_completions (cs1 @ cs2) (st\<lparr>fr_running := fr_running st - {(n, epoch)}\<rparr>)"
    using assms(1)
  proof (induction cs1 arbitrary: st)
    case Nil
    then show ?case using assms(2) by (simp add: generation_def Let_def)
  next
    case (Cons c cs1)
    obtain m e r where c: "c = (m, e, r)" by (cases c)
    have comm: "fr_running st - {(m, h)} - {(n, epoch)} = fr_running st - {(n, epoch)} - {(m, h)}" for h by blast
    let ?un = "\<lambda>st. st\<lparr>fr_running := fr_running st - {(n, epoch)}\<rparr>"
    let ?st = "st\<lparr>fr_running := fr_running st - {(m, e)}\<rparr>"
    have IH1: "commit_completions (cs1 @ (n, epoch, results) # cs2) ?st = commit_completions (cs1 @ cs2) (?un ?st)"
      by (rule Cons.IH) (use Cons.prems in simp)
    have IH2: "commit_completions (cs1 @ (n, epoch, results) # cs2) (mark_completed m e r ?st) =
        commit_completions (cs1 @ cs2) (?un (mark_completed m e r ?st))"
      by (rule Cons.IH) (use Cons.prems in simp)
    show ?case
      by (cases "fr_generations st m";
          simp only: c append_Cons commit_completions.simps Let_def generation_def IH1 IH2)
        (simp_all add: comm)
  qed
  then show ?thesis by (simp add: complete_batch_def)
qed

lemma stale_completion_ignored_witness:
  "complete_batch demo_spec ([] @ (''a'', 1, Map.empty) # []) demo_state Map.empty =
   complete_batch demo_spec ([] @ []) (demo_state\<lparr>fr_running := fr_running demo_state - {(''a'', 1)}\<rparr>) Map.empty"
  by (rule stale_completion_ignored [where g = 0]) (simp_all add: demo_state_def new_frontier_state_def Let_def demo_spec_def)

end
