(* ===== verification/Exec_Data.thy ===== *)
theory Exec_Data
  imports Loader_Valid Frontier_Run
begin

text \<open>
  What one node of \<open>flow/executor.py\<close> reads and writes: its inputs from the edges enabled for
  the activation, the coercion of what a script or an agent returns into output ports, the
  trace frame and the live workflow output, retry bounds, the memo key, and the static scope
  of an isolated failure. Where the code mutates a dict step by step and may raise in between,
  the result is the dict as far as it got and the exception.
\<close>

section \<open>The store\<close>

type_synonym ports = "(string \<times> pyval) list"
type_synonym store = "(node_id \<times> ports) list"

definition source_ports :: "store \<Rightarrow> node_id \<Rightarrow> ports" where
  "source_ports out n = (case map_of out n of None \<Rightarrow> [] | Some p \<Rightarrow> p)"

text \<open>\<open>outputs.setdefault(n, {})[k] = x\<close>.\<close>

definition set_port :: "node_id \<Rightarrow> string \<Rightarrow> pyval \<Rightarrow> store \<Rightarrow> store" where
  "set_port n k x out = AList.update n (AList.update k x (source_ports out n)) out"

section \<open>Inputs\<close>

definition fan_concat :: "pyval \<Rightarrow> pyval" where
  "fan_concat v =
     (case v of VList xs \<Rightarrow> VList (concat (map (\<lambda>x. case x of VList ys \<Rightarrow> ys | _ \<Rightarrow> [x]) xs)) | _ \<Rightarrow> v)"

definition mapping_root :: "string \<Rightarrow> string" where
  "mapping_root s = takeWhile (\<lambda>c. \<not> is_sep c) (path_body s)"

fun feed_inputs :: "jsonpath \<Rightarrow> ports \<Rightarrow> bool \<Rightarrow> (string \<times> string) list \<Rightarrow> ports \<Rightarrow> pyexc + ports" where
  "feed_inputs jp src_ports flatten [] ins = Inr ins"
| "feed_inputs jp src_ports flatten ((sport, dport) # ms) ins =
     raise_bind (jsonpath_get jp src_ports sport) (\<lambda>r.
       feed_inputs jp src_ports flatten ms
         (if r = VNone then ins else AList.update dport (if flatten then fan_concat r else r) ins))"

fun build_inputs_from ::
  "jsonpath \<Rightarrow> store \<Rightarrow> edge_id set \<Rightarrow> (edge_def \<times> edge_id) list \<Rightarrow> ports \<Rightarrow> pyexc + ports" where
  "build_inputs_from jp out enabled [] ins = Inr ins"
| "build_inputs_from jp out enabled ((e, i) # es) ins =
     (if src e \<noteq> IN_NODE_ID \<and> i \<notin> enabled then build_inputs_from jp out enabled es ins
      else raise_bind (feed_inputs jp (source_ports out (src e)) (fan_in e = Some FanConcat) (mapping e) ins)
             (build_inputs_from jp out enabled es))"

definition build_inputs ::
  "jsonpath \<Rightarrow> workflow_def \<Rightarrow> edge_id list \<Rightarrow> store \<Rightarrow> node_id \<Rightarrow> edge_id list \<Rightarrow> pyexc + ports" where
  "build_inputs jp w ids out n enabled =
     build_inputs_from jp out (set enabled) (filter (\<lambda>(e, i). dst e = n) (zip (wf_edges w) ids)) []"

definition incoming_fan_out_edge :: "workflow_def \<Rightarrow> node_id \<Rightarrow> edge_def option" where
  "incoming_fan_out_edge w n = List.find (\<lambda>e. dst e = n \<and> fan_out e \<noteq> None) (wf_edges w)"

definition fan_items :: "jsonpath \<Rightarrow> ports \<Rightarrow> edge_def \<Rightarrow> pyexc + pyval list \<times> string" where
  "fan_items jp src_ports e =
     (case List.find (\<lambda>(s, d). Some (mapping_root s) = fan_out e) (mapping e) of
        None \<Rightarrow> Inr ([], '''')
      | Some (s, d) \<Rightarrow> raise_bind (jsonpath_get jp src_ports s) (\<lambda>raw.
          Inr ((case raw of VList xs \<Rightarrow> xs | _ \<Rightarrow> []), d)))"

section \<open>Outputs\<close>

type_synonym json_loads = "string \<Rightarrow> pyexc + pyval"

fun coerce_fields :: "json_loads \<Rightarrow> pyexc \<Rightarrow> port list \<Rightarrow> ports \<Rightarrow> ports \<Rightarrow> pyexc + ports" where
  "coerce_fields loads missing [] d acc = Inr acc"
| "coerce_fields loads missing (p # ps) d acc =
     (case map_of d (port_name p) of None \<Rightarrow> Inl missing
      | Some v \<Rightarrow> raise_bind (to_state loads v (port_type p)) (\<lambda>x.
          coerce_fields loads missing ps d (AList.update (port_name p) x acc)))"

definition coerce_script_output :: "json_loads \<Rightarrow> node_def \<Rightarrow> pyval \<Rightarrow> pyexc + ports" where
  "coerce_script_output loads n v =
     (case nd_output_ports n of
        [] \<Rightarrow> Inr []
      | [p] \<Rightarrow> raise_bind (to_state loads v (port_type p)) (\<lambda>x. Inr [(port_name p, x)])
      | ps \<Rightarrow> (case v of VDict d \<Rightarrow> coerce_fields loads KeyError ps d [] | _ \<Rightarrow> Inl ExecutionError))"

definition project_agent :: "json_loads \<Rightarrow> node_def \<Rightarrow> pyval \<Rightarrow> pyexc + ports" where
  "project_agent loads n v =
     (case nd_output_ports n of
        [] \<Rightarrow> Inr []
      | p # ps \<Rightarrow>
          if agent_submits_object n
          then (case v of VDict d \<Rightarrow> coerce_fields loads ExecutionError (p # ps) d [] | _ \<Rightarrow> Inl ExecutionError)
          else Inr [(port_name p, v)])"

fun store_fields :: "json_loads \<Rightarrow> node_id \<Rightarrow> port list \<Rightarrow> ports \<Rightarrow> store \<Rightarrow> store \<times> pyexc option" where
  "store_fields loads n [] d out = (out, None)"
| "store_fields loads n (p # ps) d out =
     (case map_of d (port_name p) of None \<Rightarrow> (out, Some ExecutionError)
      | Some v \<Rightarrow> (case to_state loads v (port_type p) of
          Inl e \<Rightarrow> (out, Some e)
        | Inr x \<Rightarrow> store_fields loads n ps d (set_port n (port_name p) x out)))"

definition store_agent_output :: "json_loads \<Rightarrow> node_def \<Rightarrow> pyval \<Rightarrow> store \<Rightarrow> store \<times> pyexc option" where
  "store_agent_output loads n v out =
     (case nd_output_ports n of
        [] \<Rightarrow> (out, None)
      | p # ps \<Rightarrow>
          if agent_submits_object n
          then (case v of VDict d \<Rightarrow> store_fields loads (nd_id n) (p # ps) d out | _ \<Rightarrow> (out, Some ExecutionError))
          else (set_port (nd_id n) (port_name p) v out, None))"

definition store_script_output :: "node_id \<Rightarrow> ports \<Rightarrow> store \<Rightarrow> store" where
  "store_script_output n ps out =
     (if ps = [] then out
      else AList.update n (fold (\<lambda>(k, v) d. AList.update k v d) ps (source_ports out n)) out)"

definition script_args :: "json_loads \<Rightarrow> node_def \<Rightarrow> ports \<Rightarrow> pyexc + ports" where
  "script_args loads n ins =
     raise_bind (raise_map (\<lambda>p.
         raise_bind (to_python loads (case map_of ins (port_name p) of Some v \<Rightarrow> v | None \<Rightarrow> VStr '''') (port_type p))
           (\<lambda>x. Inr (port_name p, x))) (nd_input_ports n))
       (\<lambda>ps. Inr (dict_of ps))"

text \<open>A stub is authored as ports and reshaped into what the script would return.\<close>

definition script_stub_value :: "node_def \<Rightarrow> ports \<Rightarrow> pyexc + pyval" where
  "script_stub_value n ps =
     (let declared = output_names n
      in if \<not> fst ` set ps \<subseteq> set declared then Inl ExecutionError
         else (case declared of
                 [] \<Rightarrow> Inr VNone
               | [p] \<Rightarrow> Inr (case map_of ps p of Some v \<Rightarrow> v | None \<Rightarrow> VNone)
               | _ \<Rightarrow> Inr (VDict ps)))"

definition retry_bounds :: "node_def \<Rightarrow> int \<times> pyfloat" where
  "retry_bounds n =
     (case nd_retry n of None \<Rightarrow> (1, PFin 0) | Some r \<Rightarrow> (1 + retry_max r, retry_backoff r))"

definition memo_key :: "(string \<Rightarrow> string) \<Rightarrow> node_id \<Rightarrow> ports \<Rightarrow> string" where
  "memo_key sha n ins = n @ '':'' @ sha (json_dumps True '', '' '': '' (VDict ins))"

section \<open>Frames and the live output\<close>

record frame =
  tf_step :: nat
  tf_node :: node_id
  tf_in :: ports
  tf_out :: ports

fun flush_mappings ::
  "jsonpath \<Rightarrow> ports \<Rightarrow> bool \<Rightarrow> (string \<times> string) list \<Rightarrow> ports \<Rightarrow> ports \<times> pyexc option" where
  "flush_mappings jp ps flatten [] shown = (shown, None)"
| "flush_mappings jp ps flatten ((sport, okey) # ms) shown =
     (if map_of ps (mapping_root sport) = None then flush_mappings jp ps flatten ms shown
      else (case jsonpath_get jp ps sport of
              Inl e \<Rightarrow> (shown, Some e)
            | Inr r \<Rightarrow> flush_mappings jp ps flatten ms
                (if r = VNone then shown else AList.update okey (if flatten then fan_concat r else r) shown)))"

fun flush_output :: "jsonpath \<Rightarrow> ports \<Rightarrow> edge_def list \<Rightarrow> ports \<Rightarrow> ports \<times> pyexc option" where
  "flush_output jp ps [] shown = (shown, None)"
| "flush_output jp ps (e # es) shown =
     (if dst e \<noteq> OUT_NODE_ID then flush_output jp ps es shown
      else (case (case edge_when e of None \<Rightarrow> Inr True | Some c \<Rightarrow> evaluate jp ps c) of
              Inl x \<Rightarrow> (shown, Some x)
            | Inr False \<Rightarrow> flush_output jp ps es shown
            | Inr True \<Rightarrow>
                (case flush_mappings jp ps (fan_in e = Some FanConcat) (mapping e) shown of
                   (shown', Some x) \<Rightarrow> (shown', Some x)
                 | (shown', None) \<Rightarrow> flush_output jp ps es shown')))"

definition node_out_edges :: "workflow_def \<Rightarrow> node_id \<Rightarrow> edge_def list" where
  "node_out_edges w n = filter (\<lambda>e. src e = n) (wf_edges w)"

text \<open>The verdict of every outgoing edge but those into \<open>$output\<close>.\<close>

fun resolve_edges ::
  "jsonpath \<Rightarrow> ports \<Rightarrow> (edge_def \<times> edge_id) list \<Rightarrow> (edge_id \<rightharpoonup> bool) \<Rightarrow> pyexc + (edge_id \<rightharpoonup> bool)" where
  "resolve_edges jp ps [] acc = Inr acc"
| "resolve_edges jp ps ((e, i) # es) acc =
     (if dst e = OUT_NODE_ID then resolve_edges jp ps es acc
      else raise_bind (case edge_when e of None \<Rightarrow> Inr True | Some c \<Rightarrow> evaluate jp ps c)
             (\<lambda>v. resolve_edges jp ps es (acc(i \<mapsto> v))))"

definition resolve_outgoing :: "jsonpath \<Rightarrow> workflow_def \<Rightarrow> edge_id list \<Rightarrow> store \<Rightarrow> node_id \<Rightarrow> pyexc + (edge_id \<rightharpoonup> bool)" where
  "resolve_outgoing jp w ids out n =
     resolve_edges jp (source_ports out n) (filter (\<lambda>(e, i). src e = n) (zip (wf_edges w) ids)) Map.empty"

section \<open>The scope of an isolated failure\<close>

definition runnable_succs :: "workflow_def \<Rightarrow> node_id \<Rightarrow> node_id list" where
  "runnable_succs w n = map dst (filter (\<lambda>e. src e = n \<and> loop_max e = None \<and> dst e \<noteq> OUT_NODE_ID) (wf_edges w))"

lemma runnable_succs_dst: "set (runnable_succs w n) \<subseteq> set (map dst (wf_edges w))"
  by (auto simp: runnable_succs_def)

text \<open>The stack, its top first: a successor not yet visited is marked and pushed.\<close>

function successors_from :: "workflow_def \<Rightarrow> node_id list \<Rightarrow> node_id list \<Rightarrow> node_id list" where
  "successors_from w visited [] = visited"
| "successors_from w visited (current # queue) =
     (let new = unvisited visited (runnable_succs w current) in successors_from w (visited @ new) (rev new @ queue))"
  by pat_completeness auto
termination
proof (relation "measure (\<lambda>(w, visited, queue). 2 * card (set (map dst (wf_edges w)) - set visited) + length queue)")
  fix w :: workflow_def and visited queue new and current :: node_id
  assume new: "new = unvisited visited (runnable_succs w current)"
  let ?U = "set (map dst (wf_edges w))"
  have sub: "set new \<subseteq> ?U - set visited"
    using runnable_succs_dst [of w current] by (auto simp: new set_unvisited simp del: set_map)
  have "?U - set (visited @ new) = (?U - set visited) - set new" by auto
  then have "card (?U - set (visited @ new)) = card (?U - set visited) - card (set new)"
    using sub by (simp add: card_Diff_subset del: set_map)
  moreover have "card (set new) = length new" by (simp add: new distinct_card distinct_unvisited)
  moreover have "card (set new) \<le> card (?U - set visited)" using sub by (simp add: card_mono del: set_map)
  ultimately show "((w, visited @ new, rev new @ queue), (w, visited, current # queue)) \<in>
      measure (\<lambda>(w, visited, queue). 2 * card (set (map dst (wf_edges w)) - set visited) + length queue)"
    by simp
qed simp

declare successors_from.simps(2) [simp del]

definition transitive_successors :: "workflow_def \<Rightarrow> node_id \<Rightarrow> node_id set" where
  "transitive_successors w n = set (successors_from w [] [n])"

end
