(* ===== verification/Executor.thy ===== *)
theory Executor
  imports Exec_Data
begin

text \<open>
  The run loop of \<open>flow/executor.py\<close> as a machine. Asynchronous code is atomic between two
  awaits, so a run is a sequence of such blocks: taking the ready frontier, the block of one
  activation up to the call it awaits (\<open>Call\<close>), the block from the answer on (\<open>Return\<close>,
  after which a failed attempt may wait for its retry), and settling the batch once every
  activation has ended. The blocks of different activations interleave freely, up to the
  concurrency cap. What the outside answers is a \<open>world\<close>: the agent runners, script
  functions and stubs, and the run of a child workflow, which is another run of this machine.
  The instances of a fanned node are taken in index order: which of several failing instances
  is reported, and whose session is kept, depends on timing in the code, and so does the
  inherited session a late instance sees; here all of them see the one from before. Events, logging,
  previews, retry delays, and the file-system bound of scripts have no effect on the run and
  are left out.
\<close>

section \<open>The outside\<close>

record agent_call =
  ac_node :: node_def
  ac_system :: string
  ac_user :: string
  ac_model :: string
  ac_inputs :: ports
  ac_step :: nat
  ac_fan :: "nat option"
  ac_session :: "ports option"
  ac_attempt :: nat

record script_call =
  sc_node :: node_def
  sc_args :: ports
  sc_step :: nat
  sc_fan :: "nat option"
  sc_attempt :: nat

record child_call =
  cc_node :: node_def
  cc_inputs :: ports
  cc_budget :: "int option"
  cc_run_id :: "string option"
  cc_step :: nat

record world =
  wd_agent :: "agent_call \<Rightarrow> pyexc + pyval \<times> int \<times> ports option"
  wd_resolve :: "node_def \<Rightarrow> nat \<Rightarrow> nat \<Rightarrow> pyexc option"
  wd_script :: "script_call \<Rightarrow> pyexc + pyval"
  wd_stub_script :: "node_def \<Rightarrow> ports \<Rightarrow> nat \<Rightarrow> nat option \<Rightarrow> pyexc + ports option"
  wd_stub_child :: "node_def \<Rightarrow> ports \<Rightarrow> nat \<Rightarrow> pyexc + ports option"
  wd_child :: "child_call \<Rightarrow> pyexc + ports \<times> int"

record exec_env =
  xv_wf :: workflow_def
  xv_ids :: "edge_id list"
  xv_jp :: jsonpath
  xv_loads :: json_loads
  xv_sha :: "string \<Rightarrow> string"
  xv_signals :: "string set"
  xv_max_tokens :: "int option"
  xv_run_id :: "string option"
  xv_saving :: bool
  xv_cap :: int
  xv_world :: world

section \<open>State\<close>

record xstate =
  xs_outputs :: store
  xs_sessions :: "(node_id \<times> ports) list"
  xs_stack :: "frame list"
  xs_live :: ports
  xs_memo :: "(string \<times> ports) list"
  xs_tokens :: int
  xs_step :: nat
  xs_completed :: "node_id set"

datatype request = Refuse pyexc | AskAgent agent_call | AskScript script_call | AskStub ports

datatype phase =
    Waiting
  | Retrying ports nat
  | Asking ports nat request
  | AskingChild ports child_call
  | AskingFan "pyval list" string "request list"
  | Ended "pyexc option"

record slot =
  sl_node :: node_id
  sl_epoch :: nat
  sl_enabled :: "edge_id list"
  sl_step :: nat
  sl_phase :: phase

section \<open>One call\<close>

definition agent_request ::
  "exec_env \<Rightarrow> xstate \<Rightarrow> node_def \<Rightarrow> ports \<Rightarrow> nat \<Rightarrow> nat option \<Rightarrow> nat \<Rightarrow> request" where
  "agent_request env x n ins step fan attempt =
     (case raise_bind (interpolate (xv_jp env) ins (nd_system_prompt n)) (\<lambda>sys.
             raise_bind (interpolate (xv_jp env) ins (nd_prompt n)) (\<lambda>user. Inr (sys, user))) of
        Inl e \<Rightarrow> Refuse e
      | Inr (sys, user) \<Rightarrow> AskAgent
          \<lparr>ac_node = n, ac_system = sys, ac_user = user,
           ac_model = (case nd_model n of None \<Rightarrow> wf_default_model (xv_wf env)
                         | Some m \<Rightarrow> if m = [] then wf_default_model (xv_wf env) else m),
           ac_inputs = ins, ac_step = step, ac_fan = fan,
           ac_session = (case nd_inherit n of None \<Rightarrow> None | Some s \<Rightarrow> map_of (xs_sessions x) (from_node s)),
           ac_attempt = attempt\<rparr>)"

definition script_request :: "exec_env \<Rightarrow> node_def \<Rightarrow> ports \<Rightarrow> nat \<Rightarrow> nat option \<Rightarrow> nat \<Rightarrow> request" where
  "script_request env n ins step fan attempt =
     (case wd_stub_script (xv_world env) n ins step fan of
        Inl e \<Rightarrow> Refuse e
      | Inr (Some ps) \<Rightarrow> AskStub ps
      | Inr None \<Rightarrow>
          (case wd_resolve (xv_world env) n step attempt of
             Some e \<Rightarrow> Refuse e
           | None \<Rightarrow> (case script_args (xv_loads env) n ins of
               Inl e \<Rightarrow> Refuse e
             | Inr args \<Rightarrow> AskScript \<lparr>sc_node = n, sc_args = args, sc_step = step, sc_fan = fan, sc_attempt = attempt\<rparr>)))"

definition node_request ::
  "exec_env \<Rightarrow> xstate \<Rightarrow> node_def \<Rightarrow> ports \<Rightarrow> nat \<Rightarrow> nat option \<Rightarrow> nat \<Rightarrow> request" where
  "node_request env x n ins step fan attempt =
     (if nd_type n = Script then script_request env n ins step fan attempt
      else agent_request env x n ins step fan attempt)"

datatype answer = ScriptPorts ports | AgentValue pyval int "ports option"

definition answer_of :: "exec_env \<Rightarrow> node_def \<Rightarrow> request \<Rightarrow> pyexc + answer" where
  "answer_of env n r =
     (case r of
        Refuse e \<Rightarrow> Inl e
      | AskStub ps \<Rightarrow> raise_bind (script_stub_value n ps) (\<lambda>v.
          raise_bind (coerce_script_output (xv_loads env) n v) (\<lambda>ps. Inr (ScriptPorts ps)))
      | AskScript c \<Rightarrow> raise_bind (wd_script (xv_world env) c) (\<lambda>v.
          raise_bind (coerce_script_output (xv_loads env) n v) (\<lambda>ps. Inr (ScriptPorts ps)))
      | AskAgent c \<Rightarrow> raise_bind (wd_agent (xv_world env) c) (\<lambda>(v, tokens, session). Inr (AgentValue v tokens session)))"

section \<open>Ending an activation\<close>

definition record_frame :: "exec_env \<Rightarrow> node_id \<Rightarrow> ports \<Rightarrow> nat \<Rightarrow> xstate \<Rightarrow> xstate \<times> pyexc option" where
  "record_frame env i ins step x =
     (let ps = source_ports (xs_outputs x) i;
          (shown, e) = flush_output (xv_jp env) ps (node_out_edges (xv_wf env) i) (xs_live x)
      in (x\<lparr>xs_stack := xs_stack x @ [\<lparr>tf_step = step, tf_node = i, tf_in = ins, tf_out = ps\<rparr>], xs_live := shown\<rparr>, e))"

definition memoize :: "exec_env \<Rightarrow> node_def \<Rightarrow> ports \<Rightarrow> xstate \<Rightarrow> xstate" where
  "memoize env n ins x =
     (if nd_deterministic n
      then x\<lparr>xs_memo := AList.update (memo_key (xv_sha env) (nd_id n) ins)
               (source_ports (xs_outputs x) (nd_id n)) (xs_memo x)\<rparr>
      else x)"

definition capture_session :: "node_id \<Rightarrow> ports option \<Rightarrow> xstate \<Rightarrow> xstate" where
  "capture_session i session x =
     (case session of None \<Rightarrow> x | Some s \<Rightarrow> x\<lparr>xs_sessions := AList.update i s (xs_sessions x)\<rparr>)"

definition end_script :: "exec_env \<Rightarrow> node_def \<Rightarrow> ports \<Rightarrow> nat \<Rightarrow> ports \<Rightarrow> xstate \<Rightarrow> xstate \<times> pyexc option" where
  "end_script env n ins step ps x =
     (case record_frame env (nd_id n) ins step (x\<lparr>xs_outputs := store_script_output (nd_id n) ps (xs_outputs x)\<rparr>) of
        (x, Some e) \<Rightarrow> (x, Some e)
      | (x, None) \<Rightarrow> (memoize env n ins x, None))"

definition end_agent :: "exec_env \<Rightarrow> node_def \<Rightarrow> ports \<Rightarrow> nat \<Rightarrow> pyval \<Rightarrow> int \<Rightarrow> xstate \<Rightarrow> xstate \<times> pyexc option" where
  "end_agent env n ins step v tokens x =
     (case store_agent_output (xv_loads env) n v (xs_outputs x) of
        (out, Some e) \<Rightarrow> (x\<lparr>xs_outputs := out\<rparr>, Some e)
      | (out, None) \<Rightarrow>
          (case record_frame env (nd_id n) ins step (x\<lparr>xs_outputs := out\<rparr>) of
             (x, Some e) \<Rightarrow> (x, Some e)
           | (x, None) \<Rightarrow> (memoize env n ins (x\<lparr>xs_tokens := xs_tokens x + tokens\<rparr>), None)))"

text \<open>Memo hits, approvals and stubbed or finished children replace the ports as a whole.\<close>

definition end_with_ports :: "exec_env \<Rightarrow> node_id \<Rightarrow> ports \<Rightarrow> nat \<Rightarrow> ports \<Rightarrow> int \<Rightarrow> xstate \<Rightarrow> xstate \<times> pyexc option" where
  "end_with_ports env i ins step ps tokens x =
     (case record_frame env i ins step (x\<lparr>xs_outputs := AList.update i ps (xs_outputs x)\<rparr>) of
        (x, Some e) \<Rightarrow> (x, Some e)
      | (x, None) \<Rightarrow> (x\<lparr>xs_tokens := xs_tokens x + tokens\<rparr>, None))"

definition select_ports :: "port list \<Rightarrow> ports \<Rightarrow> ports" where
  "select_ports declared ps =
     dict_of (concat (map (\<lambda>p. case map_of ps (port_name p) of Some v \<Rightarrow> [(port_name p, v)] | None \<Rightarrow> []) declared))"

section \<open>Fan-out\<close>

definition fan_requests :: "exec_env \<Rightarrow> xstate \<Rightarrow> node_def \<Rightarrow> ports \<Rightarrow> nat \<Rightarrow> string \<Rightarrow> pyval list \<Rightarrow> request list" where
  "fan_requests env x n shared step worker items =
     map (\<lambda>(k, item). node_request env x n (AList.update worker item shared) step (Some k) 0) (List.enumerate 0 items)"

text \<open>The instances of one fan-out run concurrently under \<open>asyncio.gather\<close>. Here they answer together, in one
  \<open>Return\<close> and in the order of their index, which is the order \<open>gather\<close> lists their results in; the session
  kept is that of the last instance. \<open>gather\<close> is called without \<open>return_exceptions\<close>: when an instance
  raises, the fan-out fails at once, but the other instances run on unobserved. If the failed node is
  isolated, so that the run goes on, one of them may still write the node's entry of the sessions
  (\<open>_capture_session\<close>) after its batch has settled. The model stops at the first failure in index order
  and has no such late writes: what is proved of sessions does not cover a fan-out that failed.\<close>

fun fan_answers :: "exec_env \<Rightarrow> node_def \<Rightarrow> request list \<Rightarrow> xstate \<Rightarrow> xstate \<times> (pyexc + (ports \<times> int) list)" where
  "fan_answers env n [] x = (x, Inr [])"
| "fan_answers env n (r # rs) x =
     (case answer_of env n r of
        Inl e \<Rightarrow> (x, Inl e)
      | Inr (ScriptPorts ps) \<Rightarrow>
          (let (x, rest) = fan_answers env n rs x in (x, raise_bind rest (\<lambda>qs. Inr ((ps, 0) # qs))))
      | Inr (AgentValue v tokens session) \<Rightarrow>
          (let x = capture_session (nd_id n) session x
           in case project_agent (xv_loads env) n v of
                Inl e \<Rightarrow> (x, Inl e)
              | Inr ps \<Rightarrow> (let (x, rest) = fan_answers env n rs x in (x, raise_bind rest (\<lambda>qs. Inr ((ps, tokens) # qs))))))"

definition aggregate :: "port list \<Rightarrow> ports list \<Rightarrow> ports" where
  "aggregate declared rows =
     dict_of (map (\<lambda>p. (port_name p, VList (map (\<lambda>r. case map_of r (port_name p) of Some v \<Rightarrow> v | None \<Rightarrow> VNone) rows))) declared)"

definition end_fan ::
  "exec_env \<Rightarrow> node_def \<Rightarrow> pyval list \<Rightarrow> string \<Rightarrow> nat \<Rightarrow> request list \<Rightarrow> xstate \<Rightarrow> xstate \<times> pyexc option" where
  "end_fan env n items worker step rs x =
     (case fan_answers env n rs x of
        (x, Inl e) \<Rightarrow> (x, Some e)
      | (x, Inr rows) \<Rightarrow>
          end_with_ports env (nd_id n) (if worker \<noteq> [] then [(worker, VList items)] else []) step
            (aggregate (nd_output_ports n) (map fst rows)) (sum_list (map snd rows)) x)"

section \<open>Starting an activation\<close>

definition attempts_of :: "node_def \<Rightarrow> nat" where
  "attempts_of n = nat (fst (retry_bounds n))"

definition approve :: "exec_env \<Rightarrow> node_def \<Rightarrow> ports \<Rightarrow> nat \<Rightarrow> xstate \<Rightarrow> xstate \<times> pyexc option" where
  "approve env n ins step x =
     (let out = AList.update (nd_id n) (source_ports (xs_outputs x) (nd_id n)) (xs_outputs x);
          out = (case nd_output_ports n of [] \<Rightarrow> out
                 | p # _ \<Rightarrow> set_port (nd_id n) (port_name p) (VStr ''approved'') out)
      in record_frame env (nd_id n) ins step (x\<lparr>xs_outputs := out\<rparr>))"

definition ended :: "xstate \<times> pyexc option \<Rightarrow> xstate \<times> phase" where
  "ended r = (fst r, Ended (snd r))"

definition begin_child :: "exec_env \<Rightarrow> node_def \<Rightarrow> ports \<Rightarrow> nat \<Rightarrow> xstate \<Rightarrow> xstate \<times> phase" where
  "begin_child env n ins step x =
     (case nd_child n of
        None \<Rightarrow> (x, Ended (Some AssertionError))
      | Some _ \<Rightarrow>
          (case wd_stub_child (xv_world env) n ins step of
             Inl e \<Rightarrow> (x, Ended (Some e))
           | Inr (Some ps) \<Rightarrow> ended (end_with_ports env (nd_id n) ins step (select_ports (nd_output_ports n) ps) 0 x)
           | Inr None \<Rightarrow>
               (x, AskingChild ins
                  \<lparr>cc_node = n, cc_inputs = select_ports (nd_input_ports n) ins,
                   cc_budget = (case xv_max_tokens env of None \<Rightarrow> None
                                | Some m \<Rightarrow> if 0 < m then Some (max 0 (m - xs_tokens x)) else None),
                   cc_run_id = (case xv_run_id env of None \<Rightarrow> None
                                | Some r \<Rightarrow> if r = [] then None else Some (r @ ''::'' @ nd_id n)),
                   cc_step = step\<rparr>)))"

text \<open>A node no attempt is left for ends with what the code initialises its result to.\<close>

definition begin_attempts :: "exec_env \<Rightarrow> node_def \<Rightarrow> ports \<Rightarrow> nat \<Rightarrow> xstate \<Rightarrow> xstate \<times> phase" where
  "begin_attempts env n ins step x =
     (if attempts_of n = 0
      then ended (if nd_type n = Script then end_script env n ins step [] x else end_agent env n ins step (VStr []) 0 x)
      else (x, Asking ins 0 (node_request env x n ins step None 0)))"

definition begin_single :: "exec_env \<Rightarrow> node_def \<Rightarrow> ports \<Rightarrow> nat \<Rightarrow> xstate \<Rightarrow> xstate \<times> phase" where
  "begin_single env n ins step x =
     (case (if nd_deterministic n then map_of (xs_memo x) (memo_key (xv_sha env) (nd_id n) ins) else None) of
        Some ps \<Rightarrow> ended (end_with_ports env (nd_id n) ins step ps 0 x)
      | None \<Rightarrow>
          (case nd_type n of
             Human \<Rightarrow> (if nd_signal n \<in> xv_signals env then ended (approve env n ins step x)
                      else (x, Ended (Some (WorkflowPaused (nd_id n) (nd_signal n)))))
           | Subflow \<Rightarrow> begin_child env n ins step x
           | _ \<Rightarrow> begin_attempts env n ins step x))"

definition begin_fan :: "exec_env \<Rightarrow> node_def \<Rightarrow> edge_def \<Rightarrow> ports \<Rightarrow> nat \<Rightarrow> xstate \<Rightarrow> xstate \<times> phase" where
  "begin_fan env n e shared step x =
     (case fan_items (xv_jp env) (source_ports (xs_outputs x) (src e)) e of
        Inl err \<Rightarrow> (x, Ended (Some err))
      | Inr (items, worker) \<Rightarrow> (x, AskingFan items worker (fan_requests env x n shared step worker items)))"

definition exec_node :: "exec_env \<Rightarrow> node_id \<Rightarrow> node_def option" where
  "exec_node env i = node_by_id (xv_wf env) i"

definition begin_slot :: "exec_env \<Rightarrow> slot \<Rightarrow> xstate \<Rightarrow> xstate \<times> phase" where
  "begin_slot env s x =
     (if sl_node s \<in> xs_completed x then (x, Ended None)
      else (case exec_node env (sl_node s) of
              None \<Rightarrow> (x, Ended (Some KeyError))
            | Some n \<Rightarrow>
                (case build_inputs (xv_jp env) (xv_wf env) (xv_ids env) (xs_outputs x) (sl_node s) (sl_enabled s) of
                   Inl e \<Rightarrow> (x, Ended (Some e))
                 | Inr ins \<Rightarrow>
                     (case incoming_fan_out_edge (xv_wf env) (sl_node s) of
                        Some e \<Rightarrow> begin_fan env n e ins (sl_step s) x
                      | None \<Rightarrow> begin_single env n ins (sl_step s) x))))"

section \<open>The answer to a call\<close>

definition end_child :: "exec_env \<Rightarrow> node_def \<Rightarrow> ports \<Rightarrow> nat \<Rightarrow> child_call \<Rightarrow> xstate \<Rightarrow> xstate \<times> pyexc option" where
  "end_child env n ins step c x =
     (case wd_child (xv_world env) c of
        Inl e \<Rightarrow> (x, Some e)
      | Inr (ps, tokens) \<Rightarrow> end_with_ports env (nd_id n) ins step (select_ports (nd_output_ports n) ps) tokens x)"

definition end_attempt ::
  "exec_env \<Rightarrow> node_def \<Rightarrow> ports \<Rightarrow> nat \<Rightarrow> nat \<Rightarrow> request \<Rightarrow> xstate \<Rightarrow> xstate \<times> phase" where
  "end_attempt env n ins step attempt r x =
     (case answer_of env n r of
        Inl e \<Rightarrow> (x, if attempt + 1 < attempts_of n then Retrying ins (attempt + 1) else Ended (Some e))
      | Inr (ScriptPorts ps) \<Rightarrow> ended (end_script env n ins step ps x)
      | Inr (AgentValue v tokens session) \<Rightarrow>
          ended (end_agent env n ins step v tokens (capture_session (nd_id n) session x)))"

definition answer_slot :: "exec_env \<Rightarrow> slot \<Rightarrow> xstate \<Rightarrow> (xstate \<times> phase) option" where
  "answer_slot env s x =
     (case exec_node env (sl_node s) of
        None \<Rightarrow> None
      | Some n \<Rightarrow>
          (case sl_phase s of
             Asking ins attempt r \<Rightarrow> Some (end_attempt env n ins (sl_step s) attempt r x)
           | AskingChild ins c \<Rightarrow> Some (ended (end_child env n ins (sl_step s) c x))
           | AskingFan items worker rs \<Rightarrow> Some (ended (end_fan env n items worker (sl_step s) rs x))
           | _ \<Rightarrow> None))"

definition call_slot :: "exec_env \<Rightarrow> slot \<Rightarrow> xstate \<Rightarrow> (xstate \<times> phase) option" where
  "call_slot env s x =
     (case sl_phase s of
        Waiting \<Rightarrow> Some (begin_slot env s x)
      | Retrying ins attempt \<Rightarrow>
          (case exec_node env (sl_node s) of
             None \<Rightarrow> None
           | Some n \<Rightarrow> Some (x, Asking ins attempt (node_request env x n ins (sl_step s) None attempt)))
      | _ \<Rightarrow> None)"

section \<open>Settling a batch\<close>

record snapshot =
  sn_outputs :: store
  sn_sessions :: "(node_id \<times> ports) list"
  sn_completed :: "node_id set"
  sn_counts :: counters
  sn_stack :: "frame list"
  sn_live :: ports
  sn_memo :: "(string \<times> ports) list"
  sn_tokens :: int

definition snapshot_of :: "xstate \<Rightarrow> counters \<Rightarrow> snapshot" where
  "snapshot_of x lc =
     \<lparr>sn_outputs = xs_outputs x, sn_sessions = xs_sessions x, sn_completed = xs_completed x, sn_counts = lc,
      sn_stack = xs_stack x, sn_live = xs_live x, sn_memo = xs_memo x, sn_tokens = xs_tokens x\<rparr>"

datatype status = Running | Quiescent | Raised pyexc

record conf =
  cf_front :: fstate
  cf_counts :: counters
  cf_x :: xstate
  cf_batch :: "slot list"
  cf_failed :: "(node_id \<times> pyexc) list"
  cf_saved :: "snapshot list"
  cf_status :: status

record verdict =
  vd_front :: fstate
  vd_failed :: "(node_id \<times> pyexc) list"
  vd_done :: "completion list"
  vd_deferred :: "pyexc option"

definition note_failure :: "exec_env \<Rightarrow> node_id \<Rightarrow> pyexc \<Rightarrow> verdict \<Rightarrow> pyexc + verdict" where
  "note_failure env i e v =
     (case exec_node env i of
        None \<Rightarrow> Inl KeyError
      | Some n \<Rightarrow>
          if nd_on_error n = on_error_mode.Isolate
          then (case isolate_nodes (insert i (transitive_successors (xv_wf env) i)) (vd_front v) of
                  None \<Rightarrow> Inl KeyError
                | Some f \<Rightarrow> Inr (v\<lparr>vd_front := f, vd_failed := AList.update i e (vd_failed v)\<rparr>))
          else Inr (v\<lparr>vd_deferred := (if vd_deferred v = None then Some e else vd_deferred v)\<rparr>))"

fun stops_run :: "pyexc \<Rightarrow> bool" where
  "stops_run (WorkflowPaused n s) = True"
| "stops_run (BudgetExceeded a b) = True"
| "stops_run _ = False"

definition classify_slot :: "exec_env \<Rightarrow> store \<Rightarrow> slot \<Rightarrow> verdict \<Rightarrow> pyexc + verdict" where
  "classify_slot env out s v =
     (case sl_phase s of
        Ended None \<Rightarrow>
          raise_bind (resolve_outgoing (xv_jp env) (xv_wf env) (xv_ids env) out (sl_node s)) (\<lambda>m.
            Inr (v\<lparr>vd_done := vd_done v @ [(sl_node s, sl_epoch s, m)]\<rparr>))
      | Ended (Some e) \<Rightarrow>
          if stops_run e then Inr (v\<lparr>vd_deferred := (if vd_deferred v = None then Some e else vd_deferred v)\<rparr>)
          else note_failure env (sl_node s) e v
      | _ \<Rightarrow> Inr v)"

fun classify :: "exec_env \<Rightarrow> store \<Rightarrow> slot list \<Rightarrow> verdict \<Rightarrow> pyexc + verdict" where
  "classify env out [] v = Inr v"
| "classify env out (s # ss) v = raise_bind (classify_slot env out s v) (classify env out ss)"

definition save :: "exec_env \<Rightarrow> conf \<Rightarrow> conf" where
  "save env c = (if xv_saving env then c\<lparr>cf_saved := snapshot_of (cf_x c) (cf_counts c) # cf_saved c\<rparr> else c)"

text \<open>\<open>_settle_frontier_batch\<close> under the interceptor: a snapshot is saved only after it returned.\<close>

definition settle_done :: "exec_env \<Rightarrow> frontier_spec \<Rightarrow> completion list \<Rightarrow> conf \<Rightarrow> pyexc + conf" where
  "settle_done env sp cs c =
     (case complete_batch sp cs (cf_front c) (cf_counts c) of
        None \<Rightarrow> Inl KeyError
      | Some (Some strict, f, lc) \<Rightarrow> Inl ExecutionError
      | Some (None, f, lc) \<Rightarrow>
          Inr (save env (c\<lparr>cf_front := f, cf_counts := lc,
                           cf_x := (cf_x c)\<lparr>xs_completed := dom (fr_completed f)\<rparr>\<rparr>)))"

definition over_budget :: "exec_env \<Rightarrow> xstate \<Rightarrow> pyexc option" where
  "over_budget env x =
     (case xv_max_tokens env of None \<Rightarrow> None
      | Some m \<Rightarrow> if 0 < m \<and> m < xs_tokens x then Some (BudgetExceeded (xs_tokens x) m) else None)"

definition settle :: "exec_env \<Rightarrow> frontier_spec \<Rightarrow> conf \<Rightarrow> pyexc + conf" where
  "settle env sp c =
     raise_bind (classify env (xs_outputs (cf_x c)) (cf_batch c)
         \<lparr>vd_front = cf_front c, vd_failed = cf_failed c, vd_done = [], vd_deferred = None\<rparr>) (\<lambda>v.
     raise_bind
       (let c = c\<lparr>cf_front := vd_front v, cf_failed := vd_failed v, cf_batch := []\<rparr>
        in if vd_done v \<noteq> [] then settle_done env sp (vd_done v) c
           else (case vd_deferred v of Some (WorkflowPaused n s) \<Rightarrow> Inr (save env c) | _ \<Rightarrow> Inr c)) (\<lambda>c.
     Inr (case over_budget env (cf_x c) of
            Some e \<Rightarrow> c\<lparr>cf_status := Raised e\<rparr>
          | None \<Rightarrow> (case vd_deferred v of Some e \<Rightarrow> c\<lparr>cf_status := Raised e\<rparr> | None \<Rightarrow> c))))"

section \<open>The machine\<close>

datatype xevent = Take | Call nat | Return nat | Settle

definition in_flight :: "phase \<Rightarrow> bool" where
  "in_flight p = (case p of Waiting \<Rightarrow> False | Ended _ \<Rightarrow> False | _ \<Rightarrow> True)"

definition flying :: "slot list \<Rightarrow> nat" where
  "flying ss = length (filter (\<lambda>s. in_flight (sl_phase s)) ss)"

text \<open>A semaphore of \<open>cap\<close> slots admits a new activation only while fewer are in flight.\<close>

definition admitted :: "exec_env \<Rightarrow> slot list \<Rightarrow> phase \<Rightarrow> bool" where
  "admitted env ss p = (p = Waiting \<longrightarrow> xv_cap env \<le> 0 \<or> int (flying ss) < xv_cap env)"

definition make_slots :: "nat \<Rightarrow> activation list \<Rightarrow> slot list" where
  "make_slots step acts =
     map (\<lambda>(k, i, epoch, ids). \<lparr>sl_node = i, sl_epoch = epoch, sl_enabled = ids, sl_step = step + k, sl_phase = Waiting\<rparr>)
       (List.enumerate 0 acts)"

definition put_slot :: "nat \<Rightarrow> xstate \<times> phase \<Rightarrow> conf \<Rightarrow> conf" where
  "put_slot k r c = c\<lparr>cf_x := fst r, cf_batch := (cf_batch c)[k := (cf_batch c ! k)\<lparr>sl_phase := snd r\<rparr>]\<rparr>"

definition is_ended :: "phase \<Rightarrow> bool" where
  "is_ended p = (case p of Ended _ \<Rightarrow> True | _ \<Rightarrow> False)"

fun exec_event :: "exec_env \<Rightarrow> frontier_spec \<Rightarrow> xevent \<Rightarrow> conf \<Rightarrow> conf option" where
  "exec_event env sp Take c =
     (if cf_status c \<noteq> Running \<or> cf_batch c \<noteq> [] then None
      else Some (case take_ready sp (cf_front c) of
             None \<Rightarrow> c\<lparr>cf_status := Raised KeyError\<rparr>
           | Some ([], f) \<Rightarrow> c\<lparr>cf_front := f, cf_status := Quiescent\<rparr>
           | Some (a # as, f) \<Rightarrow>
               c\<lparr>cf_front := f, cf_batch := make_slots (xs_step (cf_x c)) (a # as),
                 cf_x := (cf_x c)\<lparr>xs_step := xs_step (cf_x c) + length (a # as)\<rparr>\<rparr>))"
| "exec_event env sp (Call k) c =
     (if cf_status c \<noteq> Running \<or> \<not> k < length (cf_batch c)
         \<or> \<not> admitted env (cf_batch c) (sl_phase (cf_batch c ! k)) then None
      else map_option (\<lambda>r. put_slot k r c) (call_slot env (cf_batch c ! k) (cf_x c)))"
| "exec_event env sp (Return k) c =
     (if cf_status c \<noteq> Running \<or> \<not> k < length (cf_batch c) then None
      else map_option (\<lambda>r. put_slot k r c) (answer_slot env (cf_batch c ! k) (cf_x c)))"
| "exec_event env sp Settle c =
     (if cf_status c \<noteq> Running \<or> cf_batch c = [] \<or> \<not> (\<forall>s \<in> set (cf_batch c). is_ended (sl_phase s)) then None
      else Some (case settle env sp c of Inl e \<Rightarrow> c\<lparr>cf_status := Raised e\<rparr> | Inr c' \<Rightarrow> c'))"

definition exec_step :: "exec_env \<Rightarrow> frontier_spec \<Rightarrow> conf \<Rightarrow> xevent \<Rightarrow> conf \<Rightarrow> bool" where
  "exec_step env sp c e c' = (exec_event env sp e c = Some c')"

section \<open>Starting a run, and resuming one\<close>

definition start_conf :: "exec_env \<Rightarrow> frontier_spec \<Rightarrow> ports \<Rightarrow> conf" where
  "start_conf env sp inputs =
     \<lparr>cf_front = new_frontier_state sp {}, cf_counts = Map.empty,
      cf_x = \<lparr>xs_outputs = [(IN_NODE_ID, dict_of (wf_initial_state (xv_wf env) @ inputs))], xs_sessions = [], xs_stack = [],
              xs_live = [], xs_memo = [], xs_tokens = 0, xs_step = 0, xs_completed = {}\<rparr>,
      cf_batch = [], cf_failed = [], cf_saved = [], cf_status = Running\<rparr>"

text \<open>Restoring re-evaluates the strict loops that had reached their bound, in edge order here; the
  code goes in the order the counters were first set, so another one of several errors may win.\<close>

definition still_looping :: "exec_env \<Rightarrow> snapshot \<Rightarrow> edge_def \<times> edge_id \<Rightarrow> pyexc option" where
  "still_looping env sn = (\<lambda>(e, i).
     (case (sn_counts sn i, loop_max e, edge_when e) of
        (Some k, Some m, Some c) \<Rightarrow>
          if loop_strict e \<and> m \<le> k
          then (case evaluate (xv_jp env) (source_ports (sn_outputs sn) (src e)) c of
                  Inl x \<Rightarrow> Some x | Inr b \<Rightarrow> raise_if b ExecutionError)
          else None
      | _ \<Rightarrow> None))"

fun replay_nodes :: "exec_env \<Rightarrow> frontier_spec \<Rightarrow> snapshot \<Rightarrow> node_id list \<Rightarrow> fstate \<Rightarrow> pyexc + fstate" where
  "replay_nodes env sp sn [] f = Inr f"
| "replay_nodes env sp sn (i # is) f =
     (if i \<notin> sn_completed sn then replay_nodes env sp sn is f
      else raise_bind (resolve_outgoing (xv_jp env) (xv_wf env) (xv_ids env) (sn_outputs sn) i) (\<lambda>m.
             (case replay_completed sp i m f of None \<Rightarrow> Inl KeyError | Some f' \<Rightarrow> replay_nodes env sp sn is f')))"

definition restored_counts :: "exec_env \<Rightarrow> counters \<Rightarrow> counters" where
  "restored_counts env lc = lc |` set (xv_ids env)"

definition resume_conf :: "exec_env \<Rightarrow> frontier_spec \<Rightarrow> snapshot \<Rightarrow> pyexc + conf" where
  "resume_conf env sp sn =
     (case first_err (map (still_looping env sn) (zip (wf_edges (xv_wf env)) (xv_ids env))) of
        Some e \<Rightarrow> Inl e
      | None \<Rightarrow>
          raise_bind
            (if sn_completed sn = {} then Inr (new_frontier_state sp (sn_completed sn))
             else raise_bind (replay_nodes env sp sn (map nd_id (wf_nodes (xv_wf env))) (new_frontier_state sp (sn_completed sn)))
               (\<lambda>f. case restore_loop_activations (fs_groups sp) (restored_counts env (sn_counts sn)) f of
                      None \<Rightarrow> Inl KeyError | Some f' \<Rightarrow> Inr f'))
            (\<lambda>f. Inr
               \<lparr>cf_front = f, cf_counts = restored_counts env (sn_counts sn),
                cf_x = \<lparr>xs_outputs = sn_outputs sn, xs_sessions = sn_sessions sn, xs_stack = sn_stack sn,
                        xs_live = sn_live sn, xs_memo = sn_memo sn, xs_tokens = sn_tokens sn,
                        xs_step = length (sn_stack sn), xs_completed = sn_completed sn\<rparr>,
                cf_batch = [], cf_failed = [], cf_saved = [], cf_status = Running\<rparr>))"

record run_result =
  rr_workflow :: string
  rr_step :: int
  rr_node :: node_id
  rr_stack :: "frame list"
  rr_state :: store
  rr_in :: "ports option"
  rr_out :: ports
  rr_failed :: "(node_id \<times> pyexc) list"
  rr_memo :: "(string \<times> ports) list"
  rr_tokens :: int
  rr_stopped_by :: "string option"

definition run_result :: "exec_env \<Rightarrow> frontier_spec \<Rightarrow> conf \<Rightarrow> run_result option" where
  "run_result env sp c =
     (let x = cf_x c
      in map_option (\<lambda>label.
           \<lparr>rr_workflow = wf_name (xv_wf env), rr_step = (if xs_stack x = [] then - 1 else int (tf_step (last (xs_stack x)))),
            rr_node = (if xs_stack x = [] then [] else tf_node (last (xs_stack x))),
            rr_stack = xs_stack x, rr_state = filter (\<lambda>(k, v). k \<noteq> IN_NODE_ID) (xs_outputs x),
            rr_in = map_of (xs_outputs x) IN_NODE_ID, rr_out = xs_live x, rr_failed = cf_failed c,
            rr_memo = xs_memo x, rr_tokens = xs_tokens x, rr_stopped_by = label\<rparr>)
         (exhausted_edge_label sp (cf_front c)))"

end
