(* ===== verification/Exec_Facts.thy ===== *)
theory Exec_Facts
  imports Executor
begin

text \<open>
  What one block of an activation can change: it keeps the step counter and the completed nodes,
  and appends at most the one frame of its own step, ending the activation when it does.
\<close>

section \<open>What a slot's block changes\<close>

lemma exec_node_id: "exec_node env i = Some n \<Longrightarrow> nd_id n = i \<and> n \<in> set (wf_nodes (xv_wf env))"
proof -
  assume "exec_node env i = Some n"
  then have "(i, n) \<in> set (dict_of (map (\<lambda>n. (nd_id n, n)) (wf_nodes (xv_wf env))))"
    by (auto simp: exec_node_def node_by_id_def dest: map_of_SomeD)
  moreover have "set (fold (\<lambda>(k, v) d. AList.update k v d) (map (\<lambda>n. (nd_id n, n)) ns) d) \<subseteq> (\<lambda>n. (nd_id n, n)) ` set ns \<union> set d"
    for ns :: "node_def list" and d
  proof (induction ns arbitrary: d)
    case (Cons m ns)
    have "set (AList.update (nd_id m) m d) \<subseteq> insert (nd_id m, m) (set d)"
      by (induction d) auto
    then show ?case using Cons.IH [of "AList.update (nd_id m) m d"] by auto
  qed simp
  ultimately show ?thesis unfolding dict_of_def by fastforce
qed

text \<open>A block keeps the step counter and the committed nodes; it either leaves the trace alone or
  appends the one frame of its own step.\<close>

definition framed :: "node_id \<Rightarrow> nat \<Rightarrow> xstate \<Rightarrow> xstate \<Rightarrow> bool" where
  "framed i step x x' \<longleftrightarrow>
     xs_step x' = xs_step x \<and> xs_completed x' = xs_completed x \<and>
     (xs_stack x' = xs_stack x \<or> (\<exists>f. xs_stack x' = xs_stack x @ [f] \<and> tf_step f = step \<and> tf_node f = i))"

definition unframed :: "xstate \<Rightarrow> xstate \<Rightarrow> bool" where
  "unframed x x' \<longleftrightarrow> xs_step x' = xs_step x \<and> xs_completed x' = xs_completed x \<and> xs_stack x' = xs_stack x"

lemma framed_simps [simp]:
  "unframed x x" "framed i step x x"
  by (simp_all add: framed_def unframed_def)

lemma unframed_framed: "unframed x y \<Longrightarrow> framed i step y z \<Longrightarrow> framed i step x z"
  by (auto simp: framed_def unframed_def)

lemma framed_unframed: "framed i step x y \<Longrightarrow> unframed y z \<Longrightarrow> framed i step x z"
  by (auto simp: framed_def unframed_def)

lemma framed_record: "record_frame env i ins step x = (x', e) \<Longrightarrow> framed i step x x'"
  by (auto simp: record_frame_def framed_def Let_def split: prod.splits)

lemma unframed_updates [simp]:
  "unframed x (x\<lparr>xs_outputs := out\<rparr>)" "unframed x (x\<lparr>xs_tokens := t\<rparr>)"
  "unframed x (memoize env n ins x)" "unframed x (capture_session i session x)"
  by (auto simp: unframed_def memoize_def capture_session_def split: option.splits)

lemma framed_end_with_ports: "end_with_ports env i ins step ps tokens x = (x', e) \<Longrightarrow> framed i step x x'"
  by (auto simp: end_with_ports_def split: prod.splits option.splits dest!: framed_record
      intro: unframed_framed [OF unframed_updates(1)] framed_unframed)

lemma framed_end_script: "end_script env n ins step ps x = (x', e) \<Longrightarrow> framed (nd_id n) step x x'"
  by (auto simp: end_script_def split: prod.splits option.splits dest!: framed_record
      intro: unframed_framed [OF unframed_updates(1)] framed_unframed)

lemma framed_end_agent: "end_agent env n ins step v tokens x = (x', e) \<Longrightarrow> framed (nd_id n) step x x'"
proof -
  assume eq: "end_agent env n ins step v tokens x = (x', e)"
  obtain out err where out: "store_agent_output (xv_loads env) n v (xs_outputs x) = (out, err)" by force
  obtain y err' where y: "record_frame env (nd_id n) ins step (x\<lparr>xs_outputs := out\<rparr>) = (y, err')" by force
  have fy: "framed (nd_id n) step x y" by (rule unframed_framed [OF unframed_updates(1) framed_record [OF y]])
  show ?thesis
  proof (cases err)
    case (Some a)
    then show ?thesis using eq out by (auto simp: end_agent_def framed_def)
  next
    case None
    have "unframed y (memoize env n ins (y\<lparr>xs_tokens := xs_tokens y + tokens\<rparr>))"
      by (auto simp: unframed_def memoize_def)
    then show ?thesis
      using eq out y None fy framed_unframed by (cases err') (auto simp: end_agent_def)
  qed
qed

lemma framed_approve: "approve env n ins step x = (x', e) \<Longrightarrow> framed (nd_id n) step x x'"
  by (auto simp: approve_def Let_def dest!: framed_record intro: unframed_framed [OF unframed_updates(1)])

lemma unframed_capture: "unframed (capture_session i session x) y \<Longrightarrow> unframed x y"
  using unframed_updates(4) [of x i session] by (simp add: unframed_def)

lemma unframed_fan_answers: "fan_answers env n rs x = (x', r) \<Longrightarrow> unframed x x'"
proof (induction rs arbitrary: x x' r)
  case Nil
  then show ?case by simp
next
  case (Cons q rs)
  show ?case
  proof (cases "answer_of env n q")
    case (Inl e)
    then show ?thesis using Cons.prems by simp
  next
    case (Inr a)
    show ?thesis
    proof (cases a)
      case (ScriptPorts ps)
      then show ?thesis using Cons Inr by (auto split: prod.splits)
    next
      case (AgentValue v tokens session)
      obtain y rest where y: "fan_answers env n rs (capture_session (nd_id n) session x) = (y, rest)" by force
      have uy: "unframed x y" by (rule unframed_capture [OF Cons.IH [OF y]])
      show ?thesis
      proof (cases "project_agent (xv_loads env) n v")
        case (Inl e)
        then show ?thesis using Cons.prems Inr AgentValue by (auto simp: Let_def)
      next
        case (Inr ps)
        then show ?thesis using Cons.prems \<open>answer_of env n q = Inr a\<close> AgentValue y uy by (auto simp: Let_def)
      qed
    qed
  qed
qed

lemma framed_end_fan: "end_fan env n items worker step rs x = (x', e) \<Longrightarrow> framed (nd_id n) step x x'"
proof -
  assume eq: "end_fan env n items worker step rs x = (x', e)"
  obtain y r where y: "fan_answers env n rs x = (y, r)" by force
  have uy: "unframed x y" by (rule unframed_fan_answers [OF y])
  show ?thesis
  proof (cases r)
    case (Inl a)
    then show ?thesis using eq y uy by (simp add: end_fan_def framed_def unframed_def)
  next
    case (Inr rows)
    then show ?thesis
      using eq y unframed_framed [OF uy] framed_end_with_ports by (auto simp: end_fan_def)
  qed
qed

text \<open>The phase a block leaves: if it recorded a frame, the activation has ended.\<close>

definition blocked :: "exec_env \<Rightarrow> slot \<Rightarrow> xstate \<Rightarrow> xstate \<times> phase \<Rightarrow> bool" where
  "blocked env s x r \<longleftrightarrow>
     framed (sl_node s) (sl_step s) x (fst r) \<and> (is_ended (snd r) \<or> unframed x (fst r)) \<and>
     snd r \<noteq> Waiting \<and> (in_flight (snd r) \<longrightarrow> exec_node env (sl_node s) \<noteq> None)"

lemma blocked_ended: "framed (sl_node s) (sl_step s) x (fst r) \<Longrightarrow> blocked env s x (ended r)"
  by (simp add: blocked_def ended_def is_ended_def in_flight_def)

lemma blocked_Ended [simp]: "blocked env s x (x, Ended e)"
  by (simp add: blocked_def is_ended_def in_flight_def)

lemma blocked_asking:
  assumes "exec_node env (sl_node s) = Some n" and "in_flight p"
  shows "blocked env s x (x, p)"
  using assms by (cases p) (simp_all add: blocked_def in_flight_def)

lemma blocked_begin_single:
  assumes n: "exec_node env (sl_node s) = Some n"
  shows "blocked env s x (begin_single env n ins (sl_step s) x)"
proof -
  have id: "nd_id n = sl_node s" using exec_node_id [OF n] by simp
  have ports: "blocked env s x (ended (end_with_ports env (nd_id n) ins (sl_step s) ps t x))" for ps t
    using framed_end_with_ports id by (metis blocked_ended prod.collapse)
  have app: "blocked env s x (ended (approve env n ins (sl_step s) x))"
    using framed_approve id by (metis blocked_ended prod.collapse)
  have sc: "blocked env s x (ended (end_script env n ins (sl_step s) qs x))" for qs
    using framed_end_script id by (metis blocked_ended prod.collapse)
  have ag: "blocked env s x (ended (end_agent env n ins (sl_step s) v t x))" for v t
    using framed_end_agent id by (metis blocked_ended prod.collapse)
  have asking: "blocked env s x (x, Asking ins k r)" "blocked env s x (x, AskingChild ins c)" for k r c
    by (rule blocked_asking [OF n], simp add: in_flight_def)+
  have child: "blocked env s x (begin_child env n ins (sl_step s) x)"
    by (simp add: begin_child_def ports asking split: option.split sum.split)
  have attempts: "blocked env s x (begin_attempts env n ins (sl_step s) x)"
    by (simp add: begin_attempts_def sc ag asking)
  show ?thesis
    by (simp add: begin_single_def ports app child attempts split: option.split node_type.split)
qed

lemma blocked_call:
  assumes "call_slot env s x = Some r"
  shows "blocked env s x r"
proof (cases "sl_phase s")
  case Waiting
  have "blocked env s x (begin_slot env s x)"
  proof (cases "exec_node env (sl_node s)")
    case (Some n)
    have fan: "blocked env s x (begin_fan env n e ins (sl_step s) x)" for e ins
      by (auto simp: begin_fan_def blocked_def in_flight_def Some is_ended_def split: sum.splits)
    show ?thesis using fan blocked_begin_single [OF Some] Some
      by (auto simp: begin_slot_def split: sum.splits option.splits)
  qed (simp add: begin_slot_def)
  then show ?thesis using assms Waiting by (simp add: call_slot_def)
next
  case (Retrying ins k)
  then show ?thesis using assms
    by (auto simp: call_slot_def blocked_def in_flight_def split: option.splits)
qed (use assms in \<open>simp_all add: call_slot_def\<close>)

lemma blocked_answer:
  assumes "answer_slot env s x = Some r"
  shows "blocked env s x r"
proof -
  obtain n where n: "exec_node env (sl_node s) = Some n" using assms by (auto simp: answer_slot_def split: option.splits)
  have id: "nd_id n = sl_node s" using exec_node_id [OF n] by simp
  show ?thesis
  proof (cases "sl_phase s")
    case (Asking ins k q)
    have r: "r = end_attempt env n ins (sl_step s) k q x" using assms n Asking by (simp add: answer_slot_def)
    show ?thesis
    proof (cases "answer_of env n q")
      case (Inl e)
      then show ?thesis using r n by (auto simp: end_attempt_def blocked_def in_flight_def is_ended_def)
    next
      case (Inr a)
      have "framed (sl_node s) (sl_step s) x (fst (end_agent env n ins (sl_step s) v t (capture_session (nd_id n) session x)))" for v t session
        using unframed_framed [OF unframed_updates(4) framed_end_agent] id by (metis prod.collapse)
      moreover have "framed (sl_node s) (sl_step s) x (fst (end_script env n ins (sl_step s) ps x))" for ps
        using framed_end_script id by (metis prod.collapse)
      ultimately show ?thesis using r Inr by (cases a) (auto simp: end_attempt_def intro!: blocked_ended)
    qed
  next
    case (AskingChild ins c)
    have "framed (sl_node s) (sl_step s) x (fst (end_child env n ins (sl_step s) c x))"
      using framed_end_with_ports id
      by (auto simp: end_child_def split: sum.splits) (metis prod.collapse)
    then show ?thesis using assms n AskingChild by (auto simp: answer_slot_def intro!: blocked_ended)
  next
    case (AskingFan items worker rs)
    have "framed (sl_node s) (sl_step s) x (fst (end_fan env n items worker (sl_step s) rs x))"
      using framed_end_fan id by (metis prod.collapse)
    then show ?thesis using assms n AskingFan by (auto simp: answer_slot_def intro!: blocked_ended)
  qed (use assms n in \<open>simp_all add: answer_slot_def\<close>)
qed

end
