(* ===== verification/Exec_Progress.thy ===== *)
theory Exec_Progress
  imports Exec_Facts
begin

text \<open>
  Every block of an activation brings it closer to its end, and settling a batch is a run of the
  scheduler: isolations, then at most one commit.
\<close>

section \<open>Progress of one activation\<close>

definition attempts_at :: "exec_env \<Rightarrow> node_id \<Rightarrow> nat" where
  "attempts_at env i = (case exec_node env i of None \<Rightarrow> 0 | Some n \<Rightarrow> attempts_of n)"

definition slot_rank :: "exec_env \<Rightarrow> node_id \<Rightarrow> phase \<Rightarrow> nat" where
  "slot_rank env i p =
     (case p of
        Waiting \<Rightarrow> 2 * attempts_at env i + 2
      | Retrying ins k \<Rightarrow> 2 * (attempts_at env i - k) + 2
      | Asking ins k r \<Rightarrow> 2 * (attempts_at env i - k) + 1
      | Ended e \<Rightarrow> 0
      | _ \<Rightarrow> 1)"

lemma slot_rank_ended [simp]: "is_ended p \<Longrightarrow> slot_rank env i p = 0"
  by (cases p) (simp_all add: is_ended_def slot_rank_def)

lemma ended_phase [simp]: "slot_rank env i (snd (ended r)) = 0"
  by (simp add: ended_def slot_rank_def)

lemma begin_rank: "slot_rank env i (snd (begin_slot env s x)) \<le> 2 * attempts_at env i + 1"
  by (auto simp: begin_slot_def begin_fan_def begin_single_def begin_child_def begin_attempts_def slot_rank_def ended_def
      split: option.split sum.split node_type.split)

lemma call_rank:
  assumes "call_slot env s x = Some r"
  shows "slot_rank env (sl_node s) (snd r) < slot_rank env (sl_node s) (sl_phase s)"
proof (cases "sl_phase s")
  case Waiting
  then show ?thesis
    using assms begin_rank [of env "sl_node s" s x] by (simp add: call_slot_def slot_rank_def [of _ _ Waiting])
next
  case (Retrying ins k)
  then show ?thesis using assms by (auto simp: call_slot_def slot_rank_def split: option.splits)
qed (use assms in \<open>simp_all add: call_slot_def\<close>)

lemma answer_rank:
  assumes "answer_slot env s x = Some r"
  shows "slot_rank env (sl_node s) (snd r) < slot_rank env (sl_node s) (sl_phase s)"
proof -
  obtain n where n: "exec_node env (sl_node s) = Some n" using assms by (auto simp: answer_slot_def split: option.splits)
  show ?thesis
  proof (cases "sl_phase s")
    case (Asking ins k q)
    have r: "r = end_attempt env n ins (sl_step s) k q x" using assms n Asking by (simp add: answer_slot_def)
    show ?thesis
    proof (cases "answer_of env n q")
      case (Inl e)
      then show ?thesis using r n Asking by (auto simp: end_attempt_def slot_rank_def attempts_at_def)
    next
      case (Inr a)
      then show ?thesis using r Asking by (cases a) (simp_all add: end_attempt_def slot_rank_def ended_def)
    qed
  qed (use assms n in \<open>auto simp: answer_slot_def slot_rank_def ended_def\<close>)
qed

definition batch_rank :: "exec_env \<Rightarrow> slot list \<Rightarrow> nat" where
  "batch_rank env ss = (\<Sum>s\<leftarrow>ss. slot_rank env (sl_node s) (sl_phase s))"

lemma batch_rank_put:
  assumes "k < length ss" and "slot_rank env (sl_node (ss ! k)) p < slot_rank env (sl_node (ss ! k)) (sl_phase (ss ! k))"
  shows "batch_rank env (ss[k := (ss ! k)\<lparr>sl_phase := p\<rparr>]) < batch_rank env ss"
  using assms unfolding batch_rank_def
proof (induction ss arbitrary: k)
  case (Cons s ss)
  then show ?case by (cases k) auto
qed simp

lemma batch_rank_ended: "\<forall>s \<in> set ss. is_ended (sl_phase s) \<Longrightarrow> batch_rank env ss = 0"
  by (simp add: batch_rank_def)

section \<open>Settling is a run of the scheduler\<close>

lemma note_failure_step:
  assumes "note_failure env i e v = Inr v'"
  shows "trace (sched_step sp) (vd_front v, lc) [] (vd_front v', lc) \<or>
    (\<exists>ns. trace (sched_step sp) (vd_front v, lc) [Isolate ns] (vd_front v', lc))"
proof -
  have iso: "trace (sched_step sp) (f, lc) [Isolate ns] (f', lc)" if "isolate_nodes ns f = Some f'" for f f' ns
    by (rule trace_one) (rule sched_isolate [OF that])
  show ?thesis
    using assms by (auto simp: note_failure_def trace_nil dest: iso split: option.splits if_splits)
qed

lemma classify_slot_step:
  assumes "classify_slot env out s v = Inr v'"
  obtains es where "trace (sched_step sp) (vd_front v, lc) es (vd_front v', lc)" and "concat (map leased_keys es) = []"
proof (cases "sl_phase s")
  case (Ended r)
  show ?thesis
  proof (cases r)
    case None
    then show ?thesis using assms Ended that [of "[]"] by (auto simp: classify_slot_def trace_nil split: sum.splits)
  next
    case (Some e)
    show ?thesis
    proof (cases "stops_run e")
      case True
      then show ?thesis using assms Ended Some that [of "[]"] by (auto simp: classify_slot_def trace_nil)
    next
      case False
      then have "note_failure env (sl_node s) e v = Inr v'" using assms Ended Some by (simp add: classify_slot_def)
      then show ?thesis using note_failure_step that by (fastforce simp: leased_keys_def)
    qed
  qed
qed (use assms that [of "[]"] in \<open>simp_all add: classify_slot_def trace_nil\<close>)

lemma classify_step:
  assumes "classify env out ss v = Inr v'"
  obtains es where "trace (sched_step sp) (vd_front v, lc) es (vd_front v', lc)" and "concat (map leased_keys es) = []"
  using assms
proof (induction ss arbitrary: v thesis)
  case Nil
  show ?case using Nil.prems(1) [of "[]"] Nil.prems(2) by (simp add: trace_nil)
next
  case (Cons s ss)
  obtain v1 where v1: "classify_slot env out s v = Inr v1" "classify env out ss v1 = Inr v'"
    using Cons.prems(2) by (auto split: sum.splits)
  obtain es1 where es1: "trace (sched_step sp) (vd_front v, lc) es1 (vd_front v1, lc)" "concat (map leased_keys es1) = []"
    using classify_slot_step [OF v1(1)] by blast
  obtain es2 where es2: "trace (sched_step sp) (vd_front v1, lc) es2 (vd_front v', lc)" "concat (map leased_keys es2) = []"
    using Cons.IH [OF _ v1(2)] by blast
  show ?case using Cons.prems(1) [OF trace_append [OF es1(1) es2(1)]] es1(2) es2(2) by simp
qed

lemma isolate_completed: "isolate_nodes ns st = Some st' \<Longrightarrow> fr_completed st' = fr_completed st"
  by (auto simp: isolate_nodes_def Let_def split: if_splits)

lemma classify_slot_completed:
  "classify_slot env out s v = Inr v' \<Longrightarrow> fr_completed (vd_front v') = fr_completed (vd_front v)"
  by (auto simp: classify_slot_def note_failure_def dest: isolate_completed
      split: phase.splits option.splits sum.splits if_splits)

lemma classify_completed:
  "classify env out ss v = Inr v' \<Longrightarrow> fr_completed (vd_front v') = fr_completed (vd_front v)"
  by (induction ss arbitrary: v) (auto simp: raise_bind_Inr_iff dest: classify_slot_completed)

lemma save_simps [simp]:
  "cf_front (save env c) = cf_front c" "cf_counts (save env c) = cf_counts c" "cf_x (save env c) = cf_x c"
  "cf_batch (save env c) = cf_batch c" "cf_status (save env c) = cf_status c" "cf_failed (save env c) = cf_failed c"
  by (simp_all add: save_def)

text \<open>A settle that returns is isolations followed by at most one commit; it empties the batch and
  changes of the run's data only the committed nodes, which then mirror the scheduler's.\<close>

definition settled :: "frontier_spec \<Rightarrow> conf \<Rightarrow> conf \<Rightarrow> bool" where
  "settled sp c c' \<longleftrightarrow>
     (\<exists>es. trace (sched_step sp) (cf_front c, cf_counts c) es (cf_front c', cf_counts c') \<and>
           concat (map leased_keys es) = []) \<and>
     cf_batch c' = [] \<and>
     (\<exists>X. cf_x c' = (cf_x c)\<lparr>xs_completed := X\<rparr> \<and>
          (xs_completed (cf_x c) = dom (fr_completed (cf_front c)) \<longrightarrow> X = dom (fr_completed (cf_front c'))))"

lemma settled_prefix:
  assumes "trace (sched_step sp) (cf_front c, cf_counts c) es (cf_front d, cf_counts d)"
    and "concat (map leased_keys es) = []" and "cf_x d = cf_x c"
    and "fr_completed (cf_front d) = fr_completed (cf_front c)" and "settled sp d c'"
  shows "settled sp c c'"
proof -
  obtain es' X where s: "trace (sched_step sp) (cf_front d, cf_counts d) es' (cf_front c', cf_counts c')"
    "concat (map leased_keys es') = []" "cf_batch c' = []" "cf_x c' = (cf_x d)\<lparr>xs_completed := X\<rparr>"
    "xs_completed (cf_x d) = dom (fr_completed (cf_front d)) \<longrightarrow> X = dom (fr_completed (cf_front c'))"
    using assms(5) unfolding settled_def by blast
  have "concat (map leased_keys (es @ es')) = []" using assms(2) s(2) by simp
  then show ?thesis
    unfolding settled_def using trace_append [OF assms(1) s(1)] s(3-5) assms(3,4) by metis
qed

lemma settle_done_settled:
  assumes "settle_done env sp cs c = Inr c'" and "cf_batch c = []"
  shows "settled sp c c'"
proof -
  obtain f lc where b: "complete_batch sp cs (cf_front c) (cf_counts c) = Some (None, f, lc)"
    and c': "c' = save env (c\<lparr>cf_front := f, cf_counts := lc, cf_x := (cf_x c)\<lparr>xs_completed := dom (fr_completed f)\<rparr>\<rparr>)"
    using assms(1) by (auto simp: settle_done_def split: option.splits)
  have "trace (sched_step sp) (cf_front c, cf_counts c) [Commit cs None] (f, lc)"
    by (rule trace_one) (rule sched_commit [OF b])
  then show ?thesis using assms(2) unfolding settled_def c'
    by (intro conjI exI [of _ "[Commit cs None]"]) (auto simp: leased_keys_def)
qed

lemma settle_settled:
  assumes "settle env sp c = Inr c'"
  shows "settled sp c c'"
proof -
  let ?v0 = "\<lparr>vd_front = cf_front c, vd_failed = cf_failed c, vd_done = [], vd_deferred = None\<rparr>"
  obtain v where v: "classify env (xs_outputs (cf_x c)) (cf_batch c) ?v0 = Inr v"
    using assms by (auto simp: settle_def split: sum.splits)
  let ?c1 = "c\<lparr>cf_front := vd_front v, cf_failed := vd_failed v, cf_batch := []\<rparr>"
  obtain es where es: "trace (sched_step sp) (cf_front c, cf_counts c) es (vd_front v, cf_counts c)"
    "concat (map leased_keys es) = []"
    using classify_step [OF v, of sp "cf_counts c"] by auto
  have kept: "fr_completed (vd_front v) = fr_completed (cf_front c)" using classify_completed [OF v] by simp
  obtain c2 where c2: "(if vd_done v \<noteq> [] then settle_done env sp (vd_done v) ?c1
      else (case vd_deferred v of Some (WorkflowPaused n s) \<Rightarrow> Inr (save env ?c1) | _ \<Rightarrow> Inr ?c1)) = Inr c2"
    and c': "cf_front c' = cf_front c2" "cf_counts c' = cf_counts c2" "cf_batch c' = cf_batch c2" "cf_x c' = cf_x c2"
    using assms v by (fastforce simp: settle_def Let_def split: sum.splits option.splits)
  have "settled sp ?c1 c2"
  proof (cases "vd_done v = []")
    case True
    then have "c2 = ?c1 \<or> c2 = save env ?c1" using c2 by (auto split: option.splits pyexc.splits)
    then show ?thesis unfolding settled_def
      by (intro conjI exI [of _ "[]"] exI [of _ "xs_completed (cf_x c)"]) (auto simp: trace_nil)
  next
    case False
    then show ?thesis using settle_done_settled [of env sp "vd_done v" ?c1 c2] c2 by simp
  qed
  then have "settled sp c c2" by (rule settled_prefix [rotated -1]) (use es kept in simp_all)
  then show ?thesis by (simp add: settled_def c')
qed

end
