(* ===== verification/Exec_Events.thy ===== *)
theory Exec_Events
  imports Exec_Progress
begin

text \<open>
  The events of the executor taken apart, and each seen as a run of the scheduler.
\<close>

section \<open>A step of the executor is a run of the scheduler\<close>

lemma length_make_slots [simp]: "length (make_slots k acts) = length acts"
  by (simp add: make_slots_def)

lemma take_sched:
  assumes "take_ready sp st = Some (acts, st')"
  shows "trace (sched_step sp) (st, lc) [Lease acts] (st', lc)"
  by (rule trace_one) (rule sched_lease [OF assms])

lemma put_slot_simps [simp]:
  "cf_front (put_slot k r c) = cf_front c" "cf_counts (put_slot k r c) = cf_counts c" "cf_x (put_slot k r c) = fst r"
  "cf_status (put_slot k r c) = cf_status c" "cf_saved (put_slot k r c) = cf_saved c"
  "cf_batch (put_slot k r c) = (cf_batch c)[k := (cf_batch c ! k)\<lparr>sl_phase := snd r\<rparr>]"
  by (simp_all add: put_slot_def)

text \<open>Each event, taken apart: what it needs and what it yields.\<close>

lemma exec_event_takeE:
  assumes "exec_event env sp Take c = Some c'"
  obtains (none) "cf_status c = Running" "cf_batch c = []" "take_ready sp (cf_front c) = None"
      "c' = c\<lparr>cf_status := Raised KeyError\<rparr>"
    | (empty) f where "cf_status c = Running" "cf_batch c = []" "take_ready sp (cf_front c) = Some ([], f)"
      "c' = c\<lparr>cf_front := f, cf_status := Quiescent\<rparr>"
    | (some) acts f where "cf_status c = Running" "cf_batch c = []" "take_ready sp (cf_front c) = Some (acts, f)" "acts \<noteq> []"
      "c' = c\<lparr>cf_front := f, cf_batch := make_slots (xs_step (cf_x c)) acts,
              cf_x := (cf_x c)\<lparr>xs_step := xs_step (cf_x c) + length acts\<rparr>\<rparr>"
  using assms by (auto split: if_splits option.splits list.splits)

lemma exec_event_callE:
  assumes "exec_event env sp (Call k) c = Some c'"
  obtains r where "cf_status c = Running" "k < length (cf_batch c)" "admitted env (cf_batch c) (sl_phase (cf_batch c ! k))"
    "call_slot env (cf_batch c ! k) (cf_x c) = Some r" "c' = put_slot k r c"
  using assms by (auto split: if_splits)

lemma exec_event_returnE:
  assumes "exec_event env sp (Return k) c = Some c'"
  obtains r where "cf_status c = Running" "k < length (cf_batch c)"
    "answer_slot env (cf_batch c ! k) (cf_x c) = Some r" "c' = put_slot k r c"
  using assms by (auto split: if_splits)

lemma exec_event_settleE:
  assumes "exec_event env sp Settle c = Some c'"
  obtains (fails) e where "cf_status c = Running" "cf_batch c \<noteq> []" "\<forall>s \<in> set (cf_batch c). is_ended (sl_phase s)"
      "settle env sp c = Inl e" "c' = c\<lparr>cf_status := Raised e\<rparr>"
    | (returns) "cf_status c = Running" "cf_batch c \<noteq> []" "\<forall>s \<in> set (cf_batch c). is_ended (sl_phase s)"
      "settle env sp c = Inr c'"
  using assms by (auto split: if_splits sum.splits)

text \<open>The outcomes of a step, with \<open>Call\<close> and \<open>Return\<close> taken together: one slot moves on.\<close>

definition moved :: "exec_env \<Rightarrow> nat \<Rightarrow> conf \<Rightarrow> xstate \<times> phase \<Rightarrow> bool" where
  "moved env k c r \<longleftrightarrow> cf_status c = Running \<and> k < length (cf_batch c) \<and>
     (sl_phase (cf_batch c ! k) = Waiting \<longrightarrow> admitted env (cf_batch c) Waiting) \<and>
     \<not> is_ended (sl_phase (cf_batch c ! k)) \<and>
     blocked env (cf_batch c ! k) (cf_x c) r \<and>
     slot_rank env (sl_node (cf_batch c ! k)) (snd r) <
       slot_rank env (sl_node (cf_batch c ! k)) (sl_phase (cf_batch c ! k))"

lemma exec_step_cases:
  assumes "exec_step env sp c e c'"
  obtains (broken) "e = Take" "cf_status c = Running" "cf_batch c = []" "take_ready sp (cf_front c) = None"
      "c' = c\<lparr>cf_status := Raised KeyError\<rparr>"
    | (quiet) f where "e = Take" "cf_status c = Running" "cf_batch c = []" "take_ready sp (cf_front c) = Some ([], f)"
      "c' = c\<lparr>cf_front := f, cf_status := Quiescent\<rparr>"
    | (leased) acts f where "e = Take" "cf_status c = Running" "cf_batch c = []" "take_ready sp (cf_front c) = Some (acts, f)"
      "acts \<noteq> []"
      "c' = c\<lparr>cf_front := f, cf_batch := make_slots (xs_step (cf_x c)) acts,
              cf_x := (cf_x c)\<lparr>xs_step := xs_step (cf_x c) + length acts\<rparr>\<rparr>"
    | (moves) k r where "moved env k c r" "c' = put_slot k r c"
    | (raised) e' where "e = Settle" "cf_status c = Running" "cf_batch c \<noteq> []" "\<forall>s \<in> set (cf_batch c). is_ended (sl_phase s)"
      "c' = c\<lparr>cf_status := Raised e'\<rparr>"
    | (settles) "e = Settle" "cf_status c = Running" "cf_batch c \<noteq> []" "\<forall>s \<in> set (cf_batch c). is_ended (sl_phase s)"
      "settle env sp c = Inr c'"
proof (cases e)
  case Take
  then have "exec_event env sp Take c = Some c'" using assms by (simp add: exec_step_def)
  then show ?thesis
  proof (cases rule: exec_event_takeE)
    case none
    show ?thesis by (rule broken [OF Take none])
  next
    case (empty f)
    show ?thesis by (rule quiet [OF Take empty])
  next
    case (some acts f)
    show ?thesis by (rule leased [OF Take some])
  qed
next
  case (Call k)
  then obtain r where r: "cf_status c = Running" "k < length (cf_batch c)"
    "admitted env (cf_batch c) (sl_phase (cf_batch c ! k))"
    "call_slot env (cf_batch c ! k) (cf_x c) = Some r" "c' = put_slot k r c"
    using assms exec_event_callE unfolding exec_step_def by metis
  have "\<not> is_ended (sl_phase (cf_batch c ! k))"
    using r(4) by (cases "sl_phase (cf_batch c ! k)") (simp_all add: call_slot_def is_ended_def)
  moreover have "admitted env (cf_batch c) Waiting" if "sl_phase (cf_batch c ! k) = Waiting"
    using r(3) that by simp
  ultimately show ?thesis using r(1,2) blocked_call [OF r(4)] call_rank [OF r(4)] by (intro moves [OF _ r(5)]) (simp add: moved_def)
next
  case (Return k)
  then obtain r where r: "cf_status c = Running" "k < length (cf_batch c)"
    "answer_slot env (cf_batch c ! k) (cf_x c) = Some r" "c' = put_slot k r c"
    using assms exec_event_returnE unfolding exec_step_def by metis
  have "\<not> is_ended (sl_phase (cf_batch c ! k))" "sl_phase (cf_batch c ! k) \<noteq> Waiting"
    using r(3) by (cases "sl_phase (cf_batch c ! k)"; simp add: answer_slot_def is_ended_def split: option.splits)+
  then show ?thesis using r moves [of k r] blocked_answer [OF r(3)] answer_rank [OF r(3)] by (simp add: moved_def)
next
  case Settle
  then have "exec_event env sp Settle c = Some c'" using assms by (simp add: exec_step_def)
  then show ?thesis
  proof (cases rule: exec_event_settleE)
    case (fails e')
    show ?thesis by (rule raised [OF Settle fails(1-3,5)])
  next
    case returns
    show ?thesis by (rule settles [OF Settle returns])
  qed
qed

lemma exec_sched:
  assumes "exec_step env sp c e c'"
  obtains es where "trace (sched_step sp) (cf_front c, cf_counts c) es (cf_front c', cf_counts c')"
    and "xs_step (cf_x c') = xs_step (cf_x c) + length (concat (map leased_keys es))"
  using assms
proof (cases rule: exec_step_cases)
  case broken
  show ?thesis by (rule that [of "[]"]) (simp_all add: broken trace_nil)
next
  case (quiet f)
  show ?thesis by (rule that [of "[Lease []]"]) (simp_all add: quiet take_sched leased_keys_def)
next
  case (leased acts f)
  show ?thesis by (rule that [of "[Lease acts]"]) (simp_all add: leased take_sched leased_keys_def)
next
  case (moves k r)
  then have "xs_step (fst r) = xs_step (cf_x c)" by (simp add: moved_def blocked_def framed_def)
  then show ?thesis by (intro that [of "[]"]) (simp_all add: moves trace_nil)
next
  case (raised e')
  show ?thesis by (rule that [of "[]"]) (simp_all add: raised trace_nil)
next
  case settles
  obtain es X where es: "trace (sched_step sp) (cf_front c, cf_counts c) es (cf_front c', cf_counts c')"
    "concat (map leased_keys es) = []" "cf_x c' = (cf_x c)\<lparr>xs_completed := X\<rparr>"
    using settle_settled [OF settles(5)] unfolding settled_def by blast
  have "length (concat (map leased_keys es)) = 0" by (simp only: es(2) list.size)
  then show ?thesis using that [OF es(1)] es(3) by simp
qed

end
