(* ===== verification/Exec_Machine.thy ===== *)
theory Exec_Machine
  imports Exec_Events
begin

text \<open>
  The executor provides the \<open>bounded_machine\<close> contract: an invariant that every step keeps and a
  measure that every step lowers. A run that is not over always has a next step.
\<close>

section \<open>The invariant of a run\<close>

text \<open>No epoch of a node can go past \<open>N\<close>: what it has plus what the loops may still fire.\<close>

definition epochs_below :: "frontier_spec \<Rightarrow> nat \<Rightarrow> fstate \<times> counters \<Rightarrow> bool" where
  "epochs_below sp N s \<longleftrightarrow> (\<forall>n g. fr_generations (fst s) n = Some g \<longrightarrow> g + budget sp (snd s) \<le> N)"

definition exec_inv :: "exec_env \<Rightarrow> frontier_spec \<Rightarrow> nat \<Rightarrow> conf \<Rightarrow> bool" where
  "exec_inv env sp N c \<longleftrightarrow>
     wf_spec sp \<and> state_inv sp (cf_front c) \<and> epochs_below sp N (cf_front c, cf_counts c) \<and>
     (\<forall>s \<in> set (cf_batch c). in_flight (sl_phase s) \<longrightarrow> exec_node env (sl_node s) \<noteq> None) \<and>
     (0 < xv_cap env \<longrightarrow> int (flying (cf_batch c)) \<le> xv_cap env)"

definition attempts_max :: "exec_env \<Rightarrow> nat" where
  "attempts_max env = Max (insert 0 (attempts_of ` set (wf_nodes (xv_wf env))))"

definition unspent :: "frontier_spec \<Rightarrow> nat \<Rightarrow> fstate \<times> counters \<Rightarrow> nat" where
  "unspent sp N s = card {k \<in> set (fs_nodes sp) \<times> {..N}. \<not> spent_key s k}"

definition exec_work :: "exec_env \<Rightarrow> frontier_spec \<Rightarrow> nat \<Rightarrow> conf \<Rightarrow> nat" where
  "exec_work env sp N c =
     (if cf_status c \<noteq> Running then 0
      else unspent sp N (cf_front c, cf_counts c) * (2 * attempts_max env + 4) + batch_rank env (cf_batch c) +
           (if cf_batch c = [] then 0 else 1) + 1)"

lemma attempts_at_max: "attempts_at env i \<le> attempts_max env"
proof (cases "exec_node env i")
  case (Some n)
  then have "n \<in> set (wf_nodes (xv_wf env))" using exec_node_id by blast
  then show ?thesis unfolding attempts_at_def attempts_max_def using Some by simp
qed (simp add: attempts_at_def)

lemma epochs_below_trace:
  assumes wf: "wf_spec sp" and run: "trace (sched_step sp) s es s'" and inv: "state_inv sp (fst s)" and N: "epochs_below sp N s"
  shows "epochs_below sp N s'"
  unfolding epochs_below_def
proof (intro allI impI)
  fix n g' assume g': "fr_generations (fst s') n = Some g'"
  have inv': "state_inv sp (fst s')" using sched.trace_inv [OF run] wf inv by blast
  then have "n \<in> set (fs_nodes sp)" using g' state_invD(1) [of sp "fst s'" n] by simp
  then obtain g where g: "fr_generations (fst s) n = Some g" using state_invD(1) [OF inv, of n] by auto
  then have "g' + budget sp (snd s') \<le> g + budget sp (snd s)" using trace_counts(3) [OF wf run inv g] g' by auto
  moreover have "g + budget sp (snd s) \<le> N" using N g unfolding epochs_below_def by blast
  ultimately show "g' + budget sp (snd s') \<le> N" by linarith
qed

lemma unspent_trace:
  assumes wf: "wf_spec sp" and run: "trace (sched_step sp) s es s'" and inv: "state_inv sp (fst s)" and N: "epochs_below sp N s"
  shows "unspent sp N s' + length (concat (map leased_keys es)) \<le> unspent sp N s"
  unfolding unspent_def
proof (rule sched.unspent_decreases [OF run])
  show "set (concat (map leased_keys es)) \<subseteq> set (fs_nodes sp) \<times> {..N}"
  proof
    fix k assume "k \<in> set (concat (map leased_keys es))"
    then have "spent_key s' k" using sched.granted_spent [OF run] wf inv by blast
    then obtain g where g: "fr_generations (fst s') (fst k) = Some g" "snd k \<le> g"
      by (auto simp: spent_key_def split: option.splits)
    moreover have "state_inv sp (fst s')" using sched.trace_inv [OF run] wf inv by blast
    moreover have "g \<le> N" using epochs_below_trace [OF assms] g(1) add_leD1 unfolding epochs_below_def by blast
    ultimately show "k \<in> set (fs_nodes sp) \<times> {..N}" using state_invD(1) [of sp "fst s'" "fst k"] by (cases k) auto
  qed
qed (use wf inv in auto)

section \<open>Batches\<close>

lemma make_slots_phase: "s \<in> set (make_slots k acts) \<Longrightarrow> sl_phase s = Waiting"
  by (auto simp: make_slots_def)

lemma flying_waiting: "\<forall>s \<in> set ss. sl_phase s = Waiting \<Longrightarrow> flying ss = 0"
  by (auto simp: flying_def in_flight_def filter_empty_conv)

lemma batch_rank_slots: "batch_rank env (make_slots k acts) \<le> length acts * (2 * attempts_max env + 2)"
proof -
  have "batch_rank env ss \<le> length ss * (2 * attempts_max env + 2)" if "\<forall>s \<in> set ss. sl_phase s = Waiting" for ss
    using that
  proof (induction ss)
    case (Cons s ss)
    then show ?case using attempts_at_max [of env "sl_node s"] by (simp add: batch_rank_def slot_rank_def)
  qed (simp add: batch_rank_def)
  from this [of "make_slots k acts"] show ?thesis by (simp add: make_slots_phase)
qed

lemma flying_put:
  assumes "k < length ss"
  shows "flying (ss[k := s]) + (if in_flight (sl_phase (ss ! k)) then 1 else 0) =
    flying ss + (if in_flight (sl_phase s) then 1 else 0)"
  using assms unfolding flying_def
proof (induction ss arbitrary: k)
  case (Cons t ss)
  then show ?case by (cases k) auto
qed simp

lemma phase_cases3: "\<not> in_flight p \<longleftrightarrow> p = Waiting \<or> is_ended p"
  by (cases p) (simp_all add: in_flight_def is_ended_def)

lemma moved_cap:
  assumes m: "moved env k c r" and cap: "0 < xv_cap env \<longrightarrow> int (flying (cf_batch c)) \<le> xv_cap env"
  shows "0 < xv_cap env \<longrightarrow> int (flying (cf_batch (put_slot k r c))) \<le> xv_cap env"
proof
  assume pos: "0 < xv_cap env"
  let ?s = "cf_batch c ! k"
  have k: "k < length (cf_batch c)" and ne: "\<not> is_ended (sl_phase ?s)" using m by (simp_all add: moved_def)
  note put = flying_put [OF k, of "?s\<lparr>sl_phase := snd r\<rparr>"]
  show "int (flying (cf_batch (put_slot k r c))) \<le> xv_cap env"
  proof (cases "sl_phase ?s = Waiting")
    case True
    then have "int (flying (cf_batch c)) < xv_cap env" using m pos by (simp add: moved_def admitted_def)
    then show ?thesis using put by (simp split: if_splits)
  next
    case False
    then have "in_flight (sl_phase ?s)" using ne phase_cases3 by blast
    then show ?thesis using put cap pos by (simp split: if_splits)
  qed
qed

section \<open>The executor is a bounded machine\<close>

lemma exec_inv_step:
  assumes step: "exec_step env sp c e c'" and inv: "exec_inv env sp N c"
  shows "exec_inv env sp N c'"
proof -
  have wf: "wf_spec sp" and si: "state_inv sp (cf_front c)" and ep: "epochs_below sp N (cf_front c, cf_counts c)"
    and nodes: "\<forall>s \<in> set (cf_batch c). in_flight (sl_phase s) \<longrightarrow> exec_node env (sl_node s) \<noteq> None"
    and cap: "0 < xv_cap env \<longrightarrow> int (flying (cf_batch c)) \<le> xv_cap env"
    using inv unfolding exec_inv_def by blast+
  obtain es where es: "trace (sched_step sp) (cf_front c, cf_counts c) es (cf_front c', cf_counts c')"
    using exec_sched [OF step] by blast
  have "state_inv sp (cf_front c')" using sched.trace_inv [OF es] wf si by simp
  moreover have "epochs_below sp N (cf_front c', cf_counts c')" by (rule epochs_below_trace [OF wf es _ ep]) (simp add: si)
  moreover have "(\<forall>s \<in> set (cf_batch c'). in_flight (sl_phase s) \<longrightarrow> exec_node env (sl_node s) \<noteq> None) \<and>
      (0 < xv_cap env \<longrightarrow> int (flying (cf_batch c')) \<le> xv_cap env)"
    using step
  proof (cases rule: exec_step_cases)
    case (leased acts f)
    have w: "\<forall>s \<in> set (cf_batch c'). sl_phase s = Waiting" using make_slots_phase by (simp add: leased)
    then show ?thesis using flying_waiting [OF w] by (simp add: in_flight_def)
  next
    case (moves k r)
    have "set (cf_batch c') \<subseteq> insert ((cf_batch c ! k)\<lparr>sl_phase := snd r\<rparr>) (set (cf_batch c))"
      using set_update_subset_insert by (simp add: moves)
    moreover have "in_flight (snd r) \<longrightarrow> exec_node env (sl_node (cf_batch c ! k)) \<noteq> None"
      using moves(1) by (simp add: moved_def blocked_def)
    ultimately have "\<forall>s \<in> set (cf_batch c'). in_flight (sl_phase s) \<longrightarrow> exec_node env (sl_node s) \<noteq> None"
      using nodes by auto
    then show ?thesis using moved_cap [OF moves(1) cap] moves(2) by simp
  next
    case settles
    then show ?thesis using settle_settled [OF settles(5)] by (simp add: settled_def flying_def)
  qed (use nodes cap in simp_all)
  ultimately show ?thesis using wf by (simp add: exec_inv_def)
qed

lemma exec_work_step:
  assumes step: "exec_step env sp c e c'" and inv: "exec_inv env sp N c"
  shows "exec_work env sp N c' < exec_work env sp N c"
proof -
  have wf: "wf_spec sp" and si: "state_inv sp (cf_front c)" and ep: "epochs_below sp N (cf_front c, cf_counts c)"
    using inv by (simp_all add: exec_inv_def)
  obtain es where es: "trace (sched_step sp) (cf_front c, cf_counts c) es (cf_front c', cf_counts c')"
    and n: "xs_step (cf_x c') = xs_step (cf_x c) + length (concat (map leased_keys es))"
    using exec_sched [OF step] by blast
  let ?W = "2 * attempts_max env + 4"
  let ?u = "unspent sp N (cf_front c, cf_counts c)" and ?u' = "unspent sp N (cf_front c', cf_counts c')"
  have u: "?u' + length (concat (map leased_keys es)) \<le> ?u" by (rule unspent_trace [OF wf es _ ep]) (simp add: si)
  then have uW: "?u' * ?W + length (concat (map leased_keys es)) * ?W \<le> ?u * ?W"
    by (metis add_mult_distrib mult_le_mono1)
  show ?thesis
    using step
  proof (cases rule: exec_step_cases)
    case (leased acts f)
    have "length (concat (map leased_keys es)) = length acts" using n leased by simp
    then have "?u' * ?W + length acts * ?W \<le> ?u * ?W" using uW by simp
    moreover have "batch_rank env (cf_batch c') \<le> length acts * (2 * attempts_max env + 2)"
      using batch_rank_slots leased by simp
    moreover have "length acts * ?W = length acts * (2 * attempts_max env + 2) + 2 * length acts"
      by (simp add: add_mult_distrib2)
    moreover have "0 < length acts" using leased(5) by simp
    ultimately have "?u' * ?W + batch_rank env (cf_batch c') + 1 < ?u * ?W" by linarith
    moreover have "cf_batch c' \<noteq> []" using leased by (auto simp: make_slots_def enumerate_eq_zip)
    moreover have "cf_status c' = Running" using leased(2,6) by simp
    moreover have "cf_batch c = []" "cf_status c = Running" by (fact leased)+
    ultimately show ?thesis by (simp add: exec_work_def)
  next
    case (moves k r)
    then have "batch_rank env (cf_batch c') < batch_rank env (cf_batch c)"
      using batch_rank_put [of k "cf_batch c" env "snd r"] by (simp add: moved_def)
    moreover have "cf_status c = Running" "cf_batch c \<noteq> []" "cf_batch c' \<noteq> []" using moves by (auto simp: moved_def)
    ultimately show ?thesis using moves(2) by (simp add: exec_work_def)
  next
    case settles
    have "cf_batch c' = []" using settle_settled [OF settles(5)] by (simp add: settled_def)
    then show ?thesis using settles uW by (simp add: exec_work_def batch_rank_def)
  qed (simp_all add: exec_work_def)
qed

interpretation exec: bounded_machine "exec_step env sp" "exec_inv env sp N" "exec_work env sp N" "\<lambda>c e. True"
  for env sp N
proof unfold_locales
  show "exec_inv env sp N s'" if "exec_step env sp s e s'" "exec_inv env sp N s" for s e s'
    by (rule exec_inv_step [OF that])
  show "exec_work env sp N s' \<le> exec_work env sp N s" if "exec_step env sp s e s'" "exec_inv env sp N s" for s e s'
    using exec_work_step [OF that] by simp
  show "exec_work env sp N s' < exec_work env sp N s" if "exec_step env sp s e s'" "exec_inv env sp N s" for s e s'
    by (rule exec_work_step [OF that])
qed

lemma exec_step_running: "exec_step env sp c e c' \<Longrightarrow> cf_status c = Running"
  by (erule exec_step_cases) (simp_all add: moved_def)

text \<open>A run that is not over can always go on.\<close>

lemma exec_progress:
  assumes inv: "exec_inv env sp N c" and run: "cf_status c = Running"
  shows "\<exists>e c'. exec_step env sp c e c'"
proof (cases "cf_batch c = []")
  case True
  then have "exec_event env sp Take c \<noteq> None" using run by simp
  then show ?thesis unfolding exec_step_def by blast
next
  case ne: False
  show ?thesis
  proof (cases "\<forall>s \<in> set (cf_batch c). is_ended (sl_phase s)")
    case True
    then have "exec_event env sp Settle c \<noteq> None" using run ne by simp
    then show ?thesis unfolding exec_step_def by blast
  next
    case unended: False
    show ?thesis
    proof (cases "\<exists>s \<in> set (cf_batch c). in_flight (sl_phase s)")
      case True
      then obtain k where k: "k < length (cf_batch c)" "in_flight (sl_phase (cf_batch c ! k))" by (auto simp: in_set_conv_nth)
      then obtain n where n: "exec_node env (sl_node (cf_batch c ! k)) = Some n"
        using inv nth_mem [OF k(1)] by (fastforce simp: exec_inv_def)
      have "answer_slot env (cf_batch c ! k) (cf_x c) \<noteq> None \<or>
          (call_slot env (cf_batch c ! k) (cf_x c) \<noteq> None \<and> sl_phase (cf_batch c ! k) \<noteq> Waiting)"
        using k(2) n by (cases "sl_phase (cf_batch c ! k)") (simp_all add: answer_slot_def call_slot_def in_flight_def)
      then have "exec_event env sp (Return k) c \<noteq> None \<or> exec_event env sp (Call k) c \<noteq> None"
        using run k(1) by (auto simp: admitted_def)
      then show ?thesis unfolding exec_step_def by blast
    next
      case False
      then have "flying (cf_batch c) = 0" by (auto simp: flying_def filter_empty_conv)
      moreover obtain k where "k < length (cf_batch c)" "\<not> is_ended (sl_phase (cf_batch c ! k))"
        using unended by (auto simp: in_set_conv_nth)
      moreover have "sl_phase (cf_batch c ! k) = Waiting" using calculation False phase_cases3 nth_mem by blast
      ultimately have "exec_event env sp (Call k) c \<noteq> None" using run by (auto simp: admitted_def call_slot_def)
      then show ?thesis unfolding exec_step_def by blast
    qed
  qed
qed

end
