(* ===== verification/Exec_Runs.thy ===== *)
theory Exec_Runs
  imports Exec_Machine
begin

text \<open>
  Invariants of whole runs: the trace of frames, and the completed nodes against the scheduler's.
\<close>

section \<open>The trace of a fresh run\<close>

text \<open>A batch holds the last reserved steps in order; a recorded step is in the past, is recorded
  once, and belongs to an activation that has ended if that is still in the batch.\<close>

definition stack_ok :: "conf \<Rightarrow> bool" where
  "stack_ok c \<longleftrightarrow>
     length (cf_batch c) \<le> xs_step (cf_x c) \<and>
     map sl_step (cf_batch c) = [xs_step (cf_x c) - length (cf_batch c) ..< xs_step (cf_x c)] \<and>
     distinct (map tf_step (xs_stack (cf_x c))) \<and>
     (\<forall>f \<in> set (xs_stack (cf_x c)). tf_step f < xs_step (cf_x c) \<and>
        (\<forall>s \<in> set (cf_batch c). sl_step s = tf_step f \<longrightarrow> is_ended (sl_phase s) \<and> sl_node s = tf_node f))"

lemma step_make_slots: "map sl_step (make_slots k acts) = [k ..< k + length acts]"
proof -
  show ?thesis
    by (rule nth_equalityI) (simp_all add: make_slots_def nth_enumerate_eq case_prod_beta)
qed

lemma stack_ok_take:
  assumes "stack_ok c" and "cf_batch c = []"
  shows "stack_ok (c\<lparr>cf_front := f, cf_batch := make_slots (xs_step (cf_x c)) acts,
      cf_x := (cf_x c)\<lparr>xs_step := xs_step (cf_x c) + length acts\<rparr>\<rparr>)"
proof -
  have steps: "xs_step (cf_x c) \<le> sl_step s" if "s \<in> set (make_slots (xs_step (cf_x c)) acts)" for s
  proof -
    have "sl_step s \<in> set (map sl_step (make_slots (xs_step (cf_x c)) acts))" using that by simp
    then show ?thesis unfolding step_make_slots by simp
  qed
  show ?thesis
    using assms steps unfolding stack_ok_def by (fastforce simp: step_make_slots)
qed

lemma stack_ok_moved:
  assumes ok: "stack_ok c" and m: "moved env k c r"
  shows "stack_ok (put_slot k r c)"
proof -
  let ?s = "cf_batch c ! k" and ?c = "put_slot k r c"
  have k: "k < length (cf_batch c)" and ne: "\<not> is_ended (sl_phase ?s)" and b: "blocked env ?s (cf_x c) r"
    using m by (simp_all add: moved_def)
  have steps: "map sl_step (cf_batch ?c) = map sl_step (cf_batch c)"
    using k by (intro nth_equalityI) (simp_all add: nth_list_update)
  have keeps: "xs_step (fst r) = xs_step (cf_x c)"
    and stack: "xs_stack (fst r) = xs_stack (cf_x c) \<or>
      (is_ended (snd r) \<and> (\<exists>f. xs_stack (fst r) = xs_stack (cf_x c) @ [f] \<and> tf_step f = sl_step ?s \<and> tf_node f = sl_node ?s))"
    using b by (auto simp: blocked_def framed_def unframed_def)
  have new: "sl_step ?s \<notin> tf_step ` set (xs_stack (cf_x c))"
    using ok ne nth_mem [OF k] by (auto simp: stack_ok_def)
  have bound: "sl_step ?s < xs_step (cf_x c)"
  proof -
    have "sl_step ?s \<in> set (map sl_step (cf_batch c))" using nth_mem [OF k] by simp
    then show ?thesis using ok unfolding stack_ok_def by (metis atLeastLessThan_iff set_upt)
  qed
  have dist: "distinct (map sl_step (cf_batch c))" using ok unfolding stack_ok_def by (metis distinct_upt)
  have slots: "is_ended (sl_phase s) \<and> sl_node s = tf_node f"
    if s: "s \<in> set (cf_batch ?c)" and f: "f \<in> set (xs_stack (fst r))" and eq: "sl_step s = tf_step f" for s f
  proof -
    obtain j where j: "j < length (cf_batch c)" "s = cf_batch ?c ! j" using s by (auto simp: in_set_conv_nth)
    show ?thesis
    proof (cases "j = k")
      case True
      then have s': "s = ?s\<lparr>sl_phase := snd r\<rparr>" using j by simp
      then show ?thesis using stack f eq new by (auto simp: rev_image_eqI)
    next
      case False
      then have "s = cf_batch c ! j" using j by simp
      moreover have "sl_step (cf_batch c ! j) \<noteq> sl_step ?s"
        using dist False j(1) k by (simp add: distinct_conv_nth)
      ultimately have "f \<in> set (xs_stack (cf_x c))" "s \<in> set (cf_batch c)" using stack f eq j(1) by auto
      then show ?thesis using ok eq by (simp add: stack_ok_def)
    qed
  qed
  have "distinct (map tf_step (xs_stack (fst r)))" "\<forall>f \<in> set (xs_stack (fst r)). tf_step f < xs_step (cf_x c)"
    using stack ok new bound by (auto simp: stack_ok_def)
  then show ?thesis using ok steps keeps slots by (simp add: stack_ok_def)
qed

lemma stack_ok_step:
  assumes step: "exec_step env sp c e c'" and ok: "stack_ok c"
  shows "stack_ok c'"
  using step
proof (cases rule: exec_step_cases)
  case (leased acts f)
  then show ?thesis using stack_ok_take [OF ok] by simp
next
  case (moves k r)
  then show ?thesis using stack_ok_moved [OF ok] by simp
next
  case settles
  then show ?thesis using settle_settled [OF settles(5)] ok by (auto simp: settled_def stack_ok_def)
qed (use ok in \<open>simp_all add: stack_ok_def\<close>)

section \<open>The completed nodes mirror the scheduler\<close>

definition mirrored :: "frontier_spec \<Rightarrow> conf \<Rightarrow> bool" where
  "mirrored sp c \<longleftrightarrow> wf_spec sp \<and> state_inv sp (cf_front c) \<and>
     xs_completed (cf_x c) = dom (fr_completed (cf_front c)) \<and>
     (\<forall>s \<in> set (cf_batch c). (sl_node s, sl_epoch s) \<in> fr_running (cf_front c))"

lemma key_make_slots: "map (\<lambda>s. (sl_node s, sl_epoch s)) (make_slots k acts) = map act_key acts"
proof -
  have "map (\<lambda>s. (sl_node s, sl_epoch s)) (make_slots k acts) = map act_key (map snd (List.enumerate 0 acts))"
    by (simp add: make_slots_def act_key_def case_prod_beta comp_def del: map_snd_enumerate)
  then show ?thesis by simp
qed

lemma mirrored_step:
  assumes step: "exec_step env sp c e c'" and m: "mirrored sp c"
  shows "mirrored sp c'"
proof -
  have wf: "wf_spec sp" and inv: "state_inv sp (cf_front c)" and eq: "xs_completed (cf_x c) = dom (fr_completed (cf_front c))"
    and run: "\<forall>s \<in> set (cf_batch c). (sl_node s, sl_epoch s) \<in> fr_running (cf_front c)"
    using m unfolding mirrored_def by blast+
  obtain es where es: "trace (sched_step sp) (cf_front c, cf_counts c) es (cf_front c', cf_counts c')"
    using exec_sched [OF step] by blast
  have inv': "state_inv sp (cf_front c')" using sched.trace_inv [OF es] wf inv by simp
  note total = take_ready_total [OF inv wf]
  from step show ?thesis
  proof (cases rule: exec_step_cases)
    case (quiet f)
    have "fr_completed f = fr_completed (cf_front c)" using quiet(4) unfolding total by auto
    then show ?thesis using inv' wf eq quiet by (simp add: mirrored_def)
  next
    case (leased acts f)
    have keys: "(\<lambda>s. (sl_node s, sl_epoch s)) ` set (cf_batch c') = set (map act_key acts)"
      using arg_cong [OF key_make_slots [of "xs_step (cf_x c)" acts], of set] leased by simp
    have "acts = ready_acts sp (cf_front c)" "f = (cf_front c)\<lparr>fr_running := fr_running (cf_front c) \<union> {k. ready_key sp (cf_front c) k}\<rparr>"
      using leased(4) total by simp_all
    then have "set (map act_key acts) \<subseteq> fr_running f" "fr_completed f = fr_completed (cf_front c)"
      using ready_acts_keys [OF inv wf] by auto
    moreover have "cf_front c' = f" "xs_completed (cf_x c') = xs_completed (cf_x c)" by (simp_all add: leased)
    moreover have "(sl_node s, sl_epoch s) \<in> set (map act_key acts)" if "s \<in> set (cf_batch c')" for s
      using keys that by blast
    ultimately show ?thesis using inv' wf eq by (auto simp: mirrored_def)
  next
    case (moves k r)
    have "xs_completed (fst r) = xs_completed (cf_x c)" using moves by (simp add: moved_def blocked_def framed_def)
    moreover have "(sl_node s, sl_epoch s) \<in> fr_running (cf_front c)" if "s \<in> set (cf_batch c')" for s
    proof -
      have k: "k < length (cf_batch c)" using moves by (simp add: moved_def)
      have "s = (cf_batch c ! k)\<lparr>sl_phase := snd r\<rparr> \<or> s \<in> set (cf_batch c)"
        using that set_update_subset_insert [of "cf_batch c" k] moves(2) by auto
      then show ?thesis using run nth_mem [OF k] by auto
    qed
    ultimately show ?thesis using inv' wf eq moves by (simp add: mirrored_def)
  next
    case settles
    then show ?thesis using settle_settled [OF settles(5), of ] inv' wf eq by (auto simp: settled_def mirrored_def)
  qed (use m in \<open>simp_all add: mirrored_def\<close>)
qed

lemma leased_not_completed:
  assumes "mirrored sp c" and "s \<in> set (cf_batch c)"
  shows "sl_node s \<notin> xs_completed (cf_x c)"
proof -
  have "(sl_node s, sl_epoch s) \<in> fr_running (cf_front c)" and "state_inv sp (cf_front c)"
    and "xs_completed (cf_x c) = dom (fr_completed (cf_front c))"
    using assms unfolding mirrored_def by blast+
  then show ?thesis using state_invD(9) [of sp "cf_front c" "(sl_node s, sl_epoch s)"] by auto
qed

section \<open>Fresh runs\<close>

lemma start_ok:
  assumes "wf_spec sp"
  shows "exec_inv env sp (budget sp Map.empty) (start_conf env sp inputs)"
    and "stack_ok (start_conf env sp inputs)" and "mirrored sp (start_conf env sp inputs)"
  using assms state_inv_new [OF assms, of "{}"]
  by (simp_all add: exec_inv_def start_conf_def epochs_below_def stack_ok_def mirrored_def flying_def
      new_frontier_state_def Let_def)

lemma run_ok:
  assumes wf: "wf_spec sp" and run: "trace (exec_step env sp) (start_conf env sp inputs) es c"
  shows "exec_inv env sp (budget sp Map.empty) c" and "stack_ok c" and "mirrored sp c"
proof -
  show "exec_inv env sp (budget sp Map.empty) c" by (rule exec.trace_inv [OF run]) (rule start_ok(1) [OF wf])
  show "stack_ok c" by (rule trace_keeps [where P = stack_ok, OF run start_ok(2) [OF wf]]) (rule stack_ok_step)
  show "mirrored sp c" by (rule trace_keeps [where P = "mirrored sp", OF run start_ok(3) [OF wf]]) (rule mirrored_step)
qed

lemma exec_trace_sched:
  assumes "trace (exec_step env sp) c es c'"
  obtains ses where "trace (sched_step sp) (cf_front c, cf_counts c) ses (cf_front c', cf_counts c')"
    and "xs_step (cf_x c') = xs_step (cf_x c) + length (concat (map leased_keys ses))"
  using assms
proof (induction arbitrary: thesis rule: trace.induct)
  case trace_nil
  show ?case by (rule trace_nil.prems [of "[]"]) (simp_all add: trace.trace_nil)
next
  case (trace_snoc es c1 e c2)
  obtain ses1 where s1: "trace (sched_step sp) (cf_front c, cf_counts c) ses1 (cf_front c1, cf_counts c1)"
    "xs_step (cf_x c1) = xs_step (cf_x c) + length (concat (map leased_keys ses1))"
    using trace_snoc.IH by blast
  obtain ses2 where s2: "trace (sched_step sp) (cf_front c1, cf_counts c1) ses2 (cf_front c2, cf_counts c2)"
    "xs_step (cf_x c2) = xs_step (cf_x c1) + length (concat (map leased_keys ses2))"
    using exec_sched [OF trace_snoc.hyps(2)] by blast
  show ?case
    by (rule trace_snoc.prems [OF trace_append [OF s1(1) s2(1)]]) (use s1(2) s2(2) in simp)
qed

lemma exec_work_start:
  "exec_work env sp N (start_conf env sp inputs) \<le> length (fs_nodes sp) * (N + 1) * (2 * attempts_max env + 4) + 1"
proof -
  have "unspent sp N s \<le> length (fs_nodes sp) * (N + 1)" for s
  proof -
    have "unspent sp N s \<le> card (set (fs_nodes sp) \<times> {..N})" unfolding unspent_def by (rule card_mono) auto
    also have "\<dots> \<le> length (fs_nodes sp) * (N + 1)"
      using mult_le_mono1 [OF card_length [of "fs_nodes sp"], of "N + 1"] by (simp add: card_cartesian_product)
    finally show ?thesis .
  qed
  then have "unspent sp N s * (2 * attempts_max env + 4) \<le> length (fs_nodes sp) * (N + 1) * (2 * attempts_max env + 4)" for s
    by (rule mult_le_mono1)
  then show ?thesis by (simp add: exec_work_def start_conf_def batch_rank_def)
qed

lemma trace_length: 
  assumes "trace (exec_step env sp) c es c'" and "exec_inv env sp N c"
  shows "length es + exec_work env sp N c' \<le> exec_work env sp N c"
proof -
  have "counted (exec_step env sp) (\<lambda>c e. True) c (length es) c'"
    using assms(1)
  proof (induction rule: trace.induct)
    case (trace_snoc es c1 e c2)
    then show ?case using counted_snoc [OF trace_snoc.IH trace_snoc.hyps(2)] by simp
  qed (simp add: counted_nil)
  then show ?thesis by (rule exec.counted_bound) (rule assms(2))
qed

end
