(* ===== verification/Exec_Flow.thy ===== *)
theory Exec_Flow
  imports Exec_Runs
begin

text \<open>
  What reaches what: the scope of an isolated failure, where a node's inputs come from, and the
  types of what a script stores.
\<close>

section \<open>The scope of an isolated failure\<close>

definition scope_rel :: "workflow_def \<Rightarrow> (node_id \<times> node_id) set" where
  "scope_rel w = {(src e, dst e) | e. e \<in> set (wf_edges w) \<and> loop_max e = None \<and> dst e \<noteq> OUT_NODE_ID}"

lemma runnable_succs_rel: "set (runnable_succs w n) = {m. (n, m) \<in> scope_rel w}"
  by (auto simp: runnable_succs_def scope_rel_def)

lemma successors_from_sound:
  assumes "set visited \<subseteq> (scope_rel w)\<^sup>+ `` {n}" and "set queue \<subseteq> insert n (set visited)"
  shows "set (successors_from w visited queue) \<subseteq> (scope_rel w)\<^sup>+ `` {n}"
  using assms
proof (induction w visited queue rule: successors_from.induct)
  case (2 w visited current queue)
  let ?new = "unvisited visited (runnable_succs w current)"
  have reach: "current = n \<or> (n, current) \<in> (scope_rel w)\<^sup>+" using "2.prems" by auto
  have "set ?new \<subseteq> (scope_rel w)\<^sup>+ `` {n}"
  proof
    fix m assume "m \<in> set ?new"
    then have "(current, m) \<in> scope_rel w" by (simp add: set_unvisited runnable_succs_rel)
    then show "m \<in> (scope_rel w)\<^sup>+ `` {n}" using reach by (auto intro: trancl_into_trancl)
  qed
  then show ?case using "2.IH" [OF refl] "2.prems" by (auto simp: successors_from.simps(2) Let_def)
qed simp

lemma successors_from_closed:
  assumes "scope_rel w `` (set visited - set queue) \<subseteq> set visited"
  shows "set visited \<subseteq> set (successors_from w visited queue) \<and>
    scope_rel w `` (set (successors_from w visited queue) \<union> set queue) \<subseteq> set (successors_from w visited queue)"
  using assms
proof (induction w visited queue rule: successors_from.induct)
  case (1 w visited)
  then show ?case by simp
next
  case (2 w visited current queue)
  let ?new = "unvisited visited (runnable_succs w current)"
  let ?r = "successors_from w (visited @ ?new) (rev ?new @ queue)"
  have succ: "scope_rel w `` {current} \<subseteq> set (visited @ ?new)"
    by (auto simp: set_unvisited runnable_succs_rel)
  have "scope_rel w `` (set (visited @ ?new) - set (rev ?new @ queue)) \<subseteq> set (visited @ ?new)"
  proof -
    have "set (visited @ ?new) - set (rev ?new @ queue) \<subseteq> insert current (set visited - set (current # queue))" by auto
    then show ?thesis using "2.prems" succ by fastforce
  qed
  from "2.IH" [OF refl this] have IH: "set (visited @ ?new) \<subseteq> set ?r"
    "scope_rel w `` (set ?r \<union> set (rev ?new @ queue)) \<subseteq> set ?r" by blast+
  have "scope_rel w `` (set ?r \<union> set (current # queue)) \<subseteq> set ?r"
    using IH succ by (simp add: Image_Un) blast
  then show ?case using IH(1) by (simp add: successors_from.simps(2) Let_def)
qed

lemma transitive_successors_closure: "transitive_successors w n = (scope_rel w)\<^sup>+ `` {n}"
proof
  show "transitive_successors w n \<subseteq> (scope_rel w)\<^sup>+ `` {n}"
    unfolding transitive_successors_def by (rule successors_from_sound) simp_all
  have closed: "scope_rel w `` (transitive_successors w n \<union> {n}) \<subseteq> transitive_successors w n"
    using successors_from_closed [of w "[]" "[n]"] by (simp add: transitive_successors_def)
  show "(scope_rel w)\<^sup>+ `` {n} \<subseteq> transitive_successors w n"
  proof
    fix m assume "m \<in> (scope_rel w)\<^sup>+ `` {n}"
    then have "(n, m) \<in> (scope_rel w)\<^sup>+" by simp
    then show "m \<in> transitive_successors w n"
      by (induction rule: trancl_induct) (use closed in \<open>blast+\<close>)
  qed
qed

section \<open>What a node can read\<close>

text \<open>One mapping of one edge accounts for a value at a port.\<close>

definition fed_by :: "jsonpath \<Rightarrow> store \<Rightarrow> edge_def \<Rightarrow> string \<Rightarrow> pyval \<Rightarrow> bool" where
  "fed_by jp out e k v \<longleftrightarrow>
     (\<exists>sport r. (sport, k) \<in> set (mapping e) \<and> jsonpath_get jp (source_ports out (src e)) sport = Inr r \<and> r \<noteq> VNone \<and>
        v = (if fan_in e = Some FanConcat then fan_concat r else r))"

lemma feed_inputs_source:
  assumes "feed_inputs jp ps fl ms ins = Inr ins'" and "map_of ins' k = Some v"
  shows "map_of ins k = Some v \<or> (\<exists>sport r. (sport, k) \<in> set ms \<and> jsonpath_get jp ps sport = Inr r \<and> r \<noteq> VNone \<and>
      v = (if fl then fan_concat r else r))"
  using assms
proof (induction jp ps fl ms ins rule: feed_inputs.induct)
  case (2 jp ps fl sport dport ms ins)
  obtain r where r: "jsonpath_get jp ps sport = Inr r"
    "feed_inputs jp ps fl ms (if r = VNone then ins else AList.update dport (if fl then fan_concat r else r) ins) = Inr ins'"
    using "2.prems"(1) by (auto simp: raise_bind_Inr_iff)
  from "2.IH" [OF r(1) r(2) "2.prems"(2)] show ?case
  proof
    assume "map_of (if r = VNone then ins else AList.update dport (if fl then fan_concat r else r) ins) k = Some v"
    then show ?thesis using r(1) by (auto split: if_splits)
  next
    assume "\<exists>sport r. (sport, k) \<in> set ms \<and> jsonpath_get jp ps sport = Inr r \<and> r \<noteq> VNone \<and>
      v = (if fl then fan_concat r else r)"
    then show ?thesis unfolding list.set by blast
  qed
qed simp

lemma build_inputs_from_source:
  assumes "build_inputs_from jp out enabled es ins = Inr ins'" and "map_of ins' k = Some v"
  shows "map_of ins k = Some v \<or>
    (\<exists>(e, i) \<in> set es. (src e = IN_NODE_ID \<or> i \<in> enabled) \<and> fed_by jp out e k v)"
  using assms
proof (induction jp out enabled es ins rule: build_inputs_from.induct)
  case (2 jp out enabled e i es ins)
  show ?case
  proof (cases "src e \<noteq> IN_NODE_ID \<and> i \<notin> enabled")
    case True
    then have "build_inputs_from jp out enabled es ins = Inr ins'" using "2.prems"(1) by simp
    from "2.IH"(1) [OF True this "2.prems"(2)] show ?thesis by auto
  next
    case False
    then obtain ins1 where f: "feed_inputs jp (source_ports out (src e)) (fan_in e = Some FanConcat) (mapping e) ins = Inr ins1"
      "build_inputs_from jp out enabled es ins1 = Inr ins'"
      using "2.prems"(1) by (auto simp: raise_bind_Inr_iff)
    from "2.IH"(2) [OF False f(1) f(2) "2.prems"(2)] show ?thesis
    proof
      assume "map_of ins1 k = Some v"
      from feed_inputs_source [OF f(1) this]
      have "map_of ins k = Some v \<or> fed_by jp out e k v" unfolding fed_by_def .
      then show ?thesis using False by auto
    qed auto
  qed
qed simp

section \<open>What a node writes\<close>

lemma coerce_fields_typed:
  assumes "coerce_fields loads m ps d acc = Inr out" and "distinct (map port_name ps)"
  shows "(\<forall>p \<in> set ps. \<exists>x. map_of out (port_name p) = Some x \<and> has_type x (port_type p)) \<and>
    (\<forall>k. k \<notin> port_name ` set ps \<longrightarrow> map_of out k = map_of acc k)"
  using assms
proof (induction loads m ps d acc rule: coerce_fields.induct)
  case (2 loads m q ps d acc)
  obtain v x where v: "map_of d (port_name q) = Some v" "to_state loads v (port_type q) = Inr x"
    "coerce_fields loads m ps d (AList.update (port_name q) x acc) = Inr out"
    using "2.prems"(1) by (auto simp: raise_bind_Inr_iff split: option.splits)
  have q: "port_name q \<notin> port_name ` set ps" and dist: "distinct (map port_name ps)" using "2.prems"(2) by auto
  note IH = "2.IH" [OF v(1,2) v(3) dist]
  have "map_of out (port_name q) = Some x" using IH q by simp
  then show ?case using IH has_type_coerced [OF v(2)] by auto
qed simp

lemma coerce_script_output_typed:
  assumes "coerce_script_output loads n v = Inr out" and "distinct (output_names n)" and "p \<in> set (nd_output_ports n)"
  shows "\<exists>x. map_of out (port_name p) = Some x \<and> has_type x (port_type p)"
proof (cases "nd_output_ports n")
  case Nil
  then show ?thesis using assms(3) by simp
next
  case (Cons q qs)
  show ?thesis
  proof (cases qs)
    case Nil
    then show ?thesis using assms Cons by (auto simp: coerce_script_output_def raise_bind_Inr_iff dest: has_type_coerced)
  next
    case (Cons r rs)
    then obtain d where "coerce_fields loads KeyError (nd_output_ports n) d [] = Inr out"
      using assms(1) \<open>nd_output_ports n = q # qs\<close> by (auto simp: coerce_script_output_def split: pyval.splits)
    then show ?thesis using coerce_fields_typed assms(2,3) unfolding output_names_def by blast
  qed
qed

end
