(* ===== verification/Exec_Settle.thy ===== *)
theory Exec_Settle
  imports Exec_Flow
begin

text \<open>
  Settling a batch in order: commit, checkpoint, budget, failure; and what isolation leaves.
\<close>

section \<open>The verdict on a batch\<close>

text \<open>What is raised after a batch: the first failure, in batch order, that is not isolated.\<close>

definition raises :: "exec_env \<Rightarrow> slot \<Rightarrow> pyexc option" where
  "raises env s =
     (case sl_phase s of
        Ended (Some e) \<Rightarrow>
          if stops_run e \<or> (\<exists>n. exec_node env (sl_node s) = Some n \<and> nd_on_error n \<noteq> on_error_mode.Isolate) then Some e else None
      | _ \<Rightarrow> None)"

definition first_failure :: "exec_env \<Rightarrow> slot list \<Rightarrow> pyexc option" where
  "first_failure env ss = (case List.map_filter (raises env) ss of [] \<Rightarrow> None | e # _ \<Rightarrow> Some e)"

lemma classify_slot_verdict:
  assumes "classify_slot env out s v = Inr v'"
  shows "(vd_done v' \<noteq> []) = (vd_done v \<noteq> [] \<or> sl_phase s = Ended None) \<and>
    vd_deferred v' = (case vd_deferred v of None \<Rightarrow> raises env s | Some e \<Rightarrow> Some e)"
proof (cases "sl_phase s")
  case (Ended r)
  show ?thesis
  proof (cases r)
    case None
    then show ?thesis using assms Ended
      by (auto simp: classify_slot_def raises_def raise_bind_Inr_iff split: option.splits)
  next
    case (Some e)
    then show ?thesis using assms Ended
      by (auto simp: classify_slot_def note_failure_def raises_def split: option.splits if_splits)
  qed
qed (use assms in \<open>auto simp: classify_slot_def raises_def split: option.splits\<close>)

lemma classify_verdict:
  assumes "classify env out ss v = Inr v'"
  shows "(vd_done v' \<noteq> []) = (vd_done v \<noteq> [] \<or> (\<exists>s \<in> set ss. sl_phase s = Ended None)) \<and>
    vd_deferred v' = (case vd_deferred v of None \<Rightarrow> first_failure env ss | Some e \<Rightarrow> Some e)"
  using assms
proof (induction ss arbitrary: v)
  case Nil
  then show ?case by (simp add: first_failure_def map_filter_simps split: option.splits)
next
  case (Cons s ss)
  obtain v1 where v1: "classify_slot env out s v = Inr v1" "classify env out ss v1 = Inr v'"
    using Cons.prems by (auto simp: raise_bind_Inr_iff)
  show ?case
    using classify_slot_verdict [OF v1(1)] Cons.IH [OF v1(2)]
    by (auto simp: first_failure_def map_filter_simps split: option.splits)
qed

section \<open>Settling, in order\<close>

lemma settle_done_saved:
  assumes "settle_done env sp cs c = Inr c'"
  shows "cf_saved c' = (if xv_saving env then [snapshot_of (cf_x c') (cf_counts c')] else []) @ cf_saved c \<and>
    cf_status c' = cf_status c \<and> xs_tokens (cf_x c') = xs_tokens (cf_x c)"
  using assms by (auto simp: settle_done_def save_def split: option.splits)

lemma settle_order:
  assumes eq: "settle env sp c = Inr c'" and run: "cf_status c = Running"
  shows "cf_saved c' =
      (if xv_saving env \<and> ((\<exists>s \<in> set (cf_batch c). sl_phase s = Ended None) \<or>
           (\<exists>n sig. first_failure env (cf_batch c) = Some (WorkflowPaused n sig)))
       then [snapshot_of (cf_x c') (cf_counts c')] else []) @ cf_saved c"
    and "cf_status c' = (case over_budget env (cf_x c') of
        Some e \<Rightarrow> Raised e
      | None \<Rightarrow> (case first_failure env (cf_batch c) of Some e \<Rightarrow> Raised e | None \<Rightarrow> Running))"
proof -
  let ?v0 = "\<lparr>vd_front = cf_front c, vd_failed = cf_failed c, vd_done = [], vd_deferred = None\<rparr>"
  obtain v where v: "classify env (xs_outputs (cf_x c)) (cf_batch c) ?v0 = Inr v"
    using eq by (auto simp: settle_def raise_bind_Inr_iff)
  have verdict: "(vd_done v \<noteq> []) = (\<exists>s \<in> set (cf_batch c). sl_phase s = Ended None)"
    "vd_deferred v = first_failure env (cf_batch c)"
    using classify_verdict [OF v] by simp_all
  let ?c1 = "c\<lparr>cf_front := vd_front v, cf_failed := vd_failed v, cf_batch := []\<rparr>"
  obtain c2 where c2: "(if vd_done v \<noteq> [] then settle_done env sp (vd_done v) ?c1
      else (case vd_deferred v of Some (WorkflowPaused n s) \<Rightarrow> Inr (save env ?c1) | _ \<Rightarrow> Inr ?c1)) = Inr c2"
    and c': "c' = (case over_budget env (cf_x c2) of
            Some e \<Rightarrow> c2\<lparr>cf_status := Raised e\<rparr>
          | None \<Rightarrow> (case vd_deferred v of Some e \<Rightarrow> c2\<lparr>cf_status := Raised e\<rparr> | None \<Rightarrow> c2))"
    using eq v by (auto simp: settle_def Let_def raise_bind_Inr_iff)
  have fields: "cf_saved c' = cf_saved c2" "cf_x c' = cf_x c2" "cf_counts c' = cf_counts c2"
    unfolding c' by (auto split: option.splits)
  have saved: "cf_status c2 = cf_status c \<and> cf_saved c2 =
      (if xv_saving env \<and> ((\<exists>s \<in> set (cf_batch c). sl_phase s = Ended None) \<or>
           (\<exists>n sig. first_failure env (cf_batch c) = Some (WorkflowPaused n sig)))
       then [snapshot_of (cf_x c2) (cf_counts c2)] else []) @ cf_saved c"
  proof (cases "vd_done v = []")
    case True
    then have "c2 = (if \<exists>n sig. first_failure env (cf_batch c) = Some (WorkflowPaused n sig) then save env ?c1 else ?c1)"
      using c2 verdict(2) by (auto split: option.splits pyexc.splits)
    moreover have "\<not> (\<exists>s \<in> set (cf_batch c). sl_phase s = Ended None)" using True verdict(1) by blast
    ultimately show ?thesis by (simp add: save_def)
  next
    case False
    then have "settle_done env sp (vd_done v) ?c1 = Inr c2" using c2 by simp
    from settle_done_saved [OF this] show ?thesis using False verdict(1) by simp
  qed
  show "cf_saved c' =
      (if xv_saving env \<and> ((\<exists>s \<in> set (cf_batch c). sl_phase s = Ended None) \<or>
           (\<exists>n sig. first_failure env (cf_batch c) = Some (WorkflowPaused n sig)))
       then [snapshot_of (cf_x c') (cf_counts c')] else []) @ cf_saved c"
    unfolding fields using saved by blast
  show "cf_status c' = (case over_budget env (cf_x c') of
        Some e \<Rightarrow> Raised e
      | None \<Rightarrow> (case first_failure env (cf_batch c) of Some e \<Rightarrow> Raised e | None \<Rightarrow> Running))"
    unfolding c' verdict(2) using saved run by (auto split: option.splits)
qed

text \<open>Every checkpoint is the state of the run between two batches.\<close>

definition boundary :: "exec_env \<Rightarrow> frontier_spec \<Rightarrow> conf \<Rightarrow> snapshot \<Rightarrow> bool" where
  "boundary env sp c0 sn \<longleftrightarrow>
     (\<exists>es c. trace (exec_step env sp) c0 es c \<and> cf_batch c = [] \<and> sn = snapshot_of (cf_x c) (cf_counts c))"

lemma saved_step:
  assumes "exec_step env sp c e c'"
  shows "cf_saved c' = cf_saved c \<or> (cf_saved c' = snapshot_of (cf_x c') (cf_counts c') # cf_saved c \<and> cf_batch c' = [])"
  using assms
proof (cases rule: exec_step_cases)
  case settles
  have "cf_batch c' = []" using settle_settled [OF settles(5)] by (simp add: settled_def)
  then show ?thesis using settle_order(1) [OF settles(5,2)] by (simp split: if_splits)
qed simp_all

lemma saved_boundary:
  assumes "trace (exec_step env sp) c0 es c" and "cf_saved c0 = []" and "sn \<in> set (cf_saved c)"
  shows "boundary env sp c0 sn"
  using assms
proof (induction rule: trace.induct)
  case (trace_snoc es c1 e c2)
  from saved_step [OF trace_snoc.hyps(2)] show ?case
  proof
    assume "cf_saved c2 = snapshot_of (cf_x c2) (cf_counts c2) # cf_saved c1 \<and> cf_batch c2 = []"
    then show ?thesis
      using trace_snoc trace.trace_snoc [OF trace_snoc.hyps] unfolding boundary_def by auto
  qed (use trace_snoc in simp)
qed simp

text \<open>Between two batches a run that goes on is within its token budget.\<close>

definition in_budget :: "exec_env \<Rightarrow> conf \<Rightarrow> bool" where
  "in_budget env c \<longleftrightarrow> cf_status c = Running \<and> cf_batch c = [] \<longrightarrow> over_budget env (cf_x c) = None"

lemma in_budget_step:
  assumes "exec_step env sp c e c'"
  shows "in_budget env c'"
  using assms
proof (cases rule: exec_step_cases)
  case (leased acts f)
  then show ?thesis by (simp add: in_budget_def make_slots_def enumerate_eq_zip)
next
  case (moves k r)
  then show ?thesis by (auto simp: in_budget_def moved_def)
next
  case settles
  then show ?thesis using settle_order(2) [OF settles(5,2)] by (auto simp: in_budget_def split: option.splits)
qed (simp_all add: in_budget_def)

section \<open>Isolation\<close>

lemma note_failure_isolates:
  assumes "note_failure env i e v = Inr v'" and "exec_node env i = Some n" and "nd_on_error n = on_error_mode.Isolate"
  shows "insert i (transitive_successors (xv_wf env) i) \<subseteq> fr_isolated_nodes (vd_front v')"
  using assms by (auto simp: note_failure_def isolate_nodes_def Let_def split: option.splits if_splits)

lemma isolate_grows: "isolate_nodes ns st = Some st' \<Longrightarrow> fr_isolated_nodes st \<subseteq> fr_isolated_nodes st'"
  by (auto simp: isolate_nodes_def Let_def split: if_splits)

lemma classify_slot_grows:
  "classify_slot env out s v = Inr v' \<Longrightarrow> fr_isolated_nodes (vd_front v) \<subseteq> fr_isolated_nodes (vd_front v')"
  by (auto simp: classify_slot_def note_failure_def raise_bind_Inr_iff dest: isolate_grows [THEN subsetD]
      split: phase.splits option.splits if_splits)

lemma classify_isolates:
  assumes "classify env out ss v = Inr v'"
  shows "fr_isolated_nodes (vd_front v) \<subseteq> fr_isolated_nodes (vd_front v')"
    and "s \<in> set ss \<Longrightarrow> sl_phase s = Ended (Some e) \<Longrightarrow> \<not> stops_run e \<Longrightarrow> exec_node env (sl_node s) = Some n \<Longrightarrow>
      nd_on_error n = on_error_mode.Isolate \<Longrightarrow>
      insert (sl_node s) (transitive_successors (xv_wf env) (sl_node s)) \<subseteq> fr_isolated_nodes (vd_front v')"
proof -
  have "fr_isolated_nodes (vd_front v) \<subseteq> fr_isolated_nodes (vd_front v') \<and>
      (s \<in> set ss \<and> sl_phase s = Ended (Some e) \<and> \<not> stops_run e \<and> exec_node env (sl_node s) = Some n \<and>
        nd_on_error n = on_error_mode.Isolate \<longrightarrow>
        insert (sl_node s) (transitive_successors (xv_wf env) (sl_node s)) \<subseteq> fr_isolated_nodes (vd_front v'))"
    using assms
  proof (induction ss arbitrary: v)
    case (Cons t ss)
    obtain v1 where v1: "classify_slot env out t v = Inr v1" "classify env out ss v1 = Inr v'"
      using Cons.prems by (auto simp: raise_bind_Inr_iff)
    have IH: "fr_isolated_nodes (vd_front v1) \<subseteq> fr_isolated_nodes (vd_front v')" using Cons.IH [OF v1(2)] by blast
    have "insert (sl_node t) (transitive_successors (xv_wf env) (sl_node t)) \<subseteq> fr_isolated_nodes (vd_front v1)"
      if "sl_phase t = Ended (Some e)" "\<not> stops_run e" "exec_node env (sl_node t) = Some n" "nd_on_error n = on_error_mode.Isolate"
      using v1(1) that note_failure_isolates by (simp add: classify_slot_def)
    then show ?case using IH classify_slot_grows [OF v1(1)] Cons.IH [OF v1(2)] by auto
  qed simp
  then show "fr_isolated_nodes (vd_front v) \<subseteq> fr_isolated_nodes (vd_front v')"
    and "s \<in> set ss \<Longrightarrow> sl_phase s = Ended (Some e) \<Longrightarrow> \<not> stops_run e \<Longrightarrow> exec_node env (sl_node s) = Some n \<Longrightarrow>
      nd_on_error n = on_error_mode.Isolate \<Longrightarrow>
      insert (sl_node s) (transitive_successors (xv_wf env) (sl_node s)) \<subseteq> fr_isolated_nodes (vd_front v')" by blast+
qed

lemma settle_front:
  assumes eq: "settle env sp c = Inr c'"
  obtains v where "classify env (xs_outputs (cf_x c)) (cf_batch c)
      \<lparr>vd_front = cf_front c, vd_failed = cf_failed c, vd_done = [], vd_deferred = None\<rparr> = Inr v"
    and "cf_front c' = vd_front v \<or>
      (\<exists>lc'. complete_batch sp (vd_done v) (vd_front v) (cf_counts c) = Some (None, cf_front c', lc'))"
proof -
  let ?v0 = "\<lparr>vd_front = cf_front c, vd_failed = cf_failed c, vd_done = [], vd_deferred = None\<rparr>"
  obtain v where v: "classify env (xs_outputs (cf_x c)) (cf_batch c) ?v0 = Inr v"
    using eq by (auto simp: settle_def raise_bind_Inr_iff)
  let ?c1 = "c\<lparr>cf_front := vd_front v, cf_failed := vd_failed v, cf_batch := []\<rparr>"
  obtain c2 where c2: "(if vd_done v \<noteq> [] then settle_done env sp (vd_done v) ?c1
      else (case vd_deferred v of Some (WorkflowPaused n s) \<Rightarrow> Inr (save env ?c1) | _ \<Rightarrow> Inr ?c1)) = Inr c2"
    and c': "cf_front c' = cf_front c2"
    using eq v by (fastforce simp: settle_def Let_def raise_bind_Inr_iff split: option.splits)
  have "cf_front c2 = vd_front v \<or>
      (\<exists>lc'. complete_batch sp (vd_done v) (vd_front v) (cf_counts c) = Some (None, cf_front c2, lc'))"
    using c2 by (auto simp: settle_done_def split: if_splits option.splits pyexc.splits)
  then show ?thesis using that [OF v] c' by simp
qed

lemma settle_isolates:
  assumes wf: "wf_spec sp" and inv: "state_inv sp (cf_front c)" and eq: "settle env sp c = Inr c'" and s: "s \<in> set (cf_batch c)"
    and e: "sl_phase s = Ended (Some e)" "\<not> stops_run e"
    and n: "exec_node env (sl_node s) = Some n" "nd_on_error n = on_error_mode.Isolate"
  shows "insert (sl_node s) (transitive_successors (xv_wf env) (sl_node s)) \<subseteq> fr_isolated_nodes (cf_front c')"
proof -
  obtain v where v: "classify env (xs_outputs (cf_x c)) (cf_batch c)
      \<lparr>vd_front = cf_front c, vd_failed = cf_failed c, vd_done = [], vd_deferred = None\<rparr> = Inr v"
    "cf_front c' = vd_front v \<or>
      (\<exists>lc'. complete_batch sp (vd_done v) (vd_front v) (cf_counts c) = Some (None, cf_front c', lc'))"
    using settle_front [OF eq] by blast
  obtain es where es: "trace (sched_step sp) (cf_front c, cf_counts c) es (vd_front v, cf_counts c)"
    using classify_step [OF v(1), of sp "cf_counts c"] by auto
  have inv1: "state_inv sp (vd_front v)" using sched.trace_inv [OF es] wf inv by simp
  have "fr_isolated_nodes (vd_front v) \<subseteq> fr_isolated_nodes (cf_front c')"
    using v(2)
  proof
    assume "\<exists>lc'. complete_batch sp (vd_done v) (vd_front v) (cf_counts c) = Some (None, cf_front c', lc')"
    then obtain lc' where "sched_step sp (vd_front v, cf_counts c) (Commit (vd_done v) None) (cf_front c', lc')"
      using sched_commit by blast
    from step_counts(4) [OF wf _ this] show ?thesis using inv1 by simp
  qed simp
  then show ?thesis using classify_isolates(2) [OF v(1) s e n] by blast
qed

end
