(* ===== verification/Frontier_Effects.thy ===== *)
theory Frontier_Effects
  imports Frontier_Run
begin

text \<open>
  What single transitions do: the delivery of a true forward verdict, the effect of firing a
  loop group on every node, the decision table of a group, and the reconstruction of the
  scheduler's state from a checkpoint (\<open>replay_completed\<close>, \<open>restore_loop_activations\<close>).
\<close>

section \<open>Delivery of tokens\<close>

lemma complete_batch_delivers:
  assumes wf: "wf_spec sp" and inv: "state_inv sp st"
    and run: "complete_batch sp cs st lc = Some (res, st', lc')"
    and c: "(n, g, results) \<in> set cs" and g: "fr_generations st n = Some g"
    and out: "map_of (fs_outgoing sp) n = Some ids" "i \<in> set ids"
    and e: "map_of (fs_edges sp) i = Some e" "\<not> fe_loop e" and verdict: "results i = Some True"
    and same: "fr_generations st' (fe_dst e) = fr_generations st (fe_dst e)"
  shows "enabled_edge sp i st'"
proof -
  have known: "known_batch sp cs" by (rule complete_batch_known [OF inv run])
  let ?vs = "fresh_completions st cs"
  have vs: "known_batch sp ?vs" using known by (auto simp: known_batch_def fresh_completions_def)
  obtain st0 where st0: "commit_completions cs st = Some (?vs, st0)" "state_inv sp st0"
    "fr_generations st0 = fr_generations st"
    using commit_total [OF inv known] by blast
  obtain st1 where st1: "forward_batch sp ?vs st0 = Some st1" "state_inv sp st1" "token_step st0 st1"
    and del: "\<forall>(n, epoch, results) \<in> set ?vs. \<forall>ids. map_of (fs_outgoing sp) n = Some ids \<longrightarrow>
      (\<forall>i \<in> set ids. edge_with sp (\<lambda>fe. \<not> fe_loop fe) i \<and> results i = Some True \<longrightarrow> enabled_edge sp i st1)"
    using forward_batch_total [OF wf st0(2) vs] by blast
  obtain st2 where st2: "loop_batch sp ?vs st1 = Some st2" "state_inv sp st2" "token_step st1 st2"
    using loop_batch_total [OF wf st1(2) vs] by blast
  have "(n, g, results) \<in> set ?vs" using c g by (simp add: fresh_completions_def)
  moreover have "edge_with sp (\<lambda>fe. \<not> fe_loop fe) i" using e by (simp add: edge_with_def)
  ultimately have "enabled_edge sp i st1" using del out verdict by blast
  then have en2: "enabled_edge sp i st2" by (rule enabled_edge_mono [OF st2(3)])
  have "evaluate_groups sp (fs_groups sp) st2 lc = Some (res, st', lc')"
    using run st0(1) st1(1) st2(1) by (simp add: complete_batch_def)
  then have step: "eval_step sp st2 lc st' lc'"
    using evaluate_groups_step [OF st2(2) wf_groups [OF wf], of lc] by auto
  have gens: "fr_generations st2 = fr_generations st"
    using st0(3) token_step_fields(1) [OF st1(3)] token_step_fields(1) [OF st2(3)] by simp
  obtain h where h: "fr_generations st2 (fe_dst e) = Some h" "(fe_dst e, h) \<in> fr_reached st2"
    "i \<in> set (get_or [] (fr_enabled st2 (fe_dst e, h)))"
    using en2 e(1) by (auto simp: enabled_edge_def split: option.splits)
  have "fr_generations st' (fe_dst e) = Some h" using same h(1) gens by simp
  then show ?thesis
    using eval_step_same [OF step h(1)] h e(1) by (auto simp: enabled_edge_def)
qed

lemma count_loops_counts:
  assumes "group_ok sp (d, ms)"
  shows "loop_count (count_loops ms lc) m = loop_count lc m + (if m \<in> set ms then 1 else 0)"
  by (rule count_loops_count [OF group_okD(3) [OF assms]])

lemma fire_effect:
  assumes inv: "state_inv sp st" and ok: "group_ok sp (d, ms)" and g: "fr_generations st d = Some g"
    and region: "map_of (fs_regions sp) d = Some region"
    and fire: "fire_loop sp d ms st = Some st'"
  shows "fr_generations st' = (\<lambda>n. if n \<in> set region then map_option Suc (fr_generations st n) else fr_generations st n)"
    and "fr_completed st' = (\<lambda>n. if n \<in> set region then None else fr_completed st n)"
    and "fr_running st' = {k \<in> fr_running st. fst k \<notin> set region}"
    and "(d, Suc g) \<in> fr_reached st'" and "set ms \<subseteq> set (get_or [] (fr_enabled st' (d, Suc g)))"
    and "i \<in> set (get_or [] (map_of (fs_boundary sp) d)) \<Longrightarrow> map_of (fs_edges sp) i = Some e \<Longrightarrow>
      get_or Map.empty (fr_decisions st (fe_src e)) i = Some True \<Longrightarrow> enabled_edge sp i st'"
proof -
  obtain r boundary st2 where f: "map_of (fs_regions sp) d = Some r" "map_of (fs_boundary sp) d = Some boundary"
    "fire_loop sp d ms st = Some st2" "token_step (fired_state r d ms st) st2"
    "\<forall>i \<in> set boundary. \<forall>e. map_of (fs_edges sp) i = Some e \<and>
        get_or Map.empty (fr_decisions st (fe_src e)) i = Some True \<longrightarrow> enabled_edge sp i st2"
    using fire_total [OF inv ok] .
  have eq: "r = region" "st2 = st'" using f(1,3) region fire by simp_all
  note same = token_step_fields [OF f(4)]
  have d: "d \<in> set region" using ok region by (auto simp: group_ok_def split: option.splits)
  show "fr_generations st' = (\<lambda>n. if n \<in> set region then map_option Suc (fr_generations st n) else fr_generations st n)"
    and "fr_completed st' = (\<lambda>n. if n \<in> set region then None else fr_completed st n)"
    and "fr_running st' = {k \<in> fr_running st. fst k \<notin> set region}"
    using same eq by (simp_all add: fired_state_fields)
  show "(d, Suc g) \<in> fr_reached st'" "set ms \<subseteq> set (get_or [] (fr_enabled st' (d, Suc g)))"
    using token_step_mono(1) [OF f(4), of "(d, Suc g)"] token_step_mono(2) [OF f(4), where k = "(d, Suc g)"]
      fired_state_dest [OF g d, of ms] eq by auto
  show "i \<in> set (get_or [] (map_of (fs_boundary sp) d)) \<Longrightarrow> map_of (fs_edges sp) i = Some e \<Longrightarrow>
      get_or Map.empty (fr_decisions st (fe_src e)) i = Some True \<Longrightarrow> enabled_edge sp i st'"
    using f(2,5) eq by simp
qed

section \<open>Restoring\<close>

lemma replay_edges_delivers:
  assumes "state_inv sp st" and "edges_from sp n ids"
    and "replay_edges sp results ids st = Some st'" and "i \<in> set ids"
    and "edge_with sp (\<lambda>fe. \<not> fe_loop fe) i" and "results i = Some True"
  shows "enabled_edge sp i st'"
  using assms(1-4)
proof (induction ids arbitrary: st)
  case (Cons j ids)
  obtain e where e: "map_of (fs_edges sp) j = Some e" "fe_dst e \<in> set (fs_nodes sp)"
    using Cons.prems(2) by (auto simp: edges_from_def elim: edge_withD)
  have rest: "edges_from sp n ids" using Cons.prems(2) by (simp add: edges_from_def)
  let ?v = "get_or False (results j)"
  let ?first = "if fe_loop e then record_arrival (fe_dst e) j ?v st
                 else if ?v then enable_edge sp j st else Some st"
  obtain st1 where st1: "?first = Some st1" "state_inv sp st1"
    "\<not> fe_loop e \<Longrightarrow> ?v \<Longrightarrow> enabled_edge sp j st1"
  proof (cases "\<not> fe_loop e \<and> ?v")
    case True
    show ?thesis by (rule enable_total [OF Cons.prems(1) e]) (use True that in simp)
  next
    case False
    then show ?thesis
      using that record_total [OF Cons.prems(1) e(2), of j ?v] Cons.prems(1) by (metis (full_types))
  qed
  have run: "replay_edges sp results ids st1 = Some st'"
    using Cons.prems(3) e(1) st1(1) by (simp add: Let_def split: if_splits)
  have step: "token_step st1 st'" using replay_edges_total [OF st1(2) rest, of results] run by auto
  show ?case
  proof (cases "i = j")
    case True
    then have "\<not> fe_loop e" "?v" using assms(5,6) e(1) by (simp_all add: edge_with_def)
    then show ?thesis using True st1(3) enabled_edge_mono [OF step] by blast
  next
    case False
    then show ?thesis using Cons.IH [OF st1(2) rest run] Cons.prems(4) by simp
  qed
qed simp

lemma replay_total:
  assumes wf: "wf_spec sp" and inv: "state_inv sp st" and n: "n \<in> set (fs_nodes sp)"
    and idle: "n \<notin> fst ` fr_running st"
  shows "\<exists>st'. replay_completed sp n results st = Some st' \<and> state_inv sp st' \<and>
    fr_generations st' = fr_generations st \<and> fr_running st' = fr_running st \<and>
    fr_completed st' = (fr_completed st)(n := fr_generations st n) \<and>
    (\<forall>ids i. map_of (fs_outgoing sp) n = Some ids \<and> i \<in> set ids \<and> edge_with sp (\<lambda>fe. \<not> fe_loop fe) i \<and>
      results i = Some True \<longrightarrow> enabled_edge sp i st')"
proof -
  obtain g where g: "fr_generations st n = Some g" using generation_known [OF inv n] .
  obtain ids where ids: "map_of (fs_outgoing sp) n = Some ids" "edges_from sp n ids" using outgoing_known [OF wf n] .
  have "fr_running st - {(n, g)} = fr_running st" using idle by force
  then have inv1: "state_inv sp (mark_completed n g results st)" using state_inv_mark [OF inv g, of results] by simp
  obtain st' where st': "replay_edges sp results ids (mark_completed n g results st) = Some st'" "state_inv sp st'"
    "token_step (mark_completed n g results st) st'"
    using replay_edges_total [OF inv1 ids(2)] by blast
  have "replay_completed sp n results st = Some st'"
    using g ids(1) st'(1) by (simp add: replay_completed_def generation_def)
  moreover have "fr_completed st' = (fr_completed st)(n := fr_generations st n)"
    using token_step_fields(3) [OF st'(3)] g by (simp add: mark_completed_def)
  moreover have "fr_generations st' = fr_generations st" "fr_running st' = fr_running st"
    using token_step_fields(1,2) [OF st'(3)] by simp_all
  ultimately show ?thesis
    using st'(2) replay_edges_delivers [OF inv1 ids(2) st'(1)] ids(1) by auto
qed

lemma restore_total:
  assumes inv: "state_inv sp st" and gs: "\<forall>(d, ms) \<in> set gs. group_ok sp (d, ms)"
  shows "\<exists>st'. restore_loop_activations gs lc st = Some st' \<and> state_inv sp st' \<and>
    fr_generations st' = fr_generations st \<and> fr_completed st' = fr_completed st \<and> fr_running st' = fr_running st"
  using assms
proof (induction gs arbitrary: st)
  case (Cons x gs)
  obtain d ms where x: "x = (d, ms)" by (cases x)
  have ok: "group_ok sp (d, ms)" using Cons.prems(2) x by simp
  obtain g where g: "fr_generations st d = Some g" using generation_known [OF Cons.prems(1) group_okD(1) [OF ok]] .
  let ?st = "st\<lparr>fr_reached := insert (d, g) (fr_reached st), fr_enabled := (fr_enabled st)((d, g) \<mapsto> ms)\<rparr>"
  have dst: "\<forall>m \<in> set ms. edge_with sp (\<lambda>fe. fe_dst fe = d) m"
    using ok by (auto simp: group_ok_def edge_with_def split: option.splits)
  have inv1: "state_inv sp ?st"
  proof (rule state_invI)
    show "live ?st k \<and> distinct ids \<and> (\<forall>i \<in> set ids. edge_with sp (\<lambda>fe. fe_dst fe = fst k) i)"
      if "fr_enabled ?st k = Some ids" for k ids
      using that g dst group_okD(3) [OF ok] state_invD(6) [OF Cons.prems(1), of k ids]
      by (auto simp: live_def split: if_splits)
    show "k \<in> fr_reached ?st \<and> fst k \<notin> fr_isolated_nodes ?st \<and> fr_completed ?st (fst k) = None"
      if "k \<in> fr_running ?st" for k
      using that state_invD(2,9) [OF Cons.prems(1), of k] by simp
    show "live ?st k" if "k \<in> fr_reached ?st" for k
      using that g state_invD(3) [OF Cons.prems(1), of k] by (auto simp: live_def)
  qed (use state_invD(1,4,5,7,8,10,11) [OF Cons.prems(1)] in \<open>simp_all add: live_def\<close>)
  have gs': "\<forall>(d, ms) \<in> set gs. group_ok sp (d, ms)" using Cons.prems(2) by simp
  show ?case
    using Cons.IH [OF Cons.prems(1) gs'] Cons.IH [OF inv1 gs'] g by (auto simp: x generation_def)
qed simp

section \<open>Properties of the transitions\<close>

text \<open>The demo workflow after one round: both nodes complete, the back-edge has reported true.\<close>

definition demo_round :: fstate where
  "demo_round = demo_state\<lparr>fr_reached := {(''a'', 0), (''b'', 0)},
     fr_completed := [''a'' \<mapsto> 0, ''b'' \<mapsto> 0], fr_arrivals := [(''a'', 0) \<mapsto> [''e1'' \<mapsto> True]]\<rparr>"

lemma demo_round_inv: "state_inv demo_spec demo_round"
  by (rule state_invI)
    (auto simp: demo_round_def demo_state_def new_frontier_state_def Let_def demo_spec_def live_def split: if_splits)

lemma demo_state_inv: "state_inv demo_spec demo_state"
  unfolding demo_state_def by (rule state_inv_new [OF wf_demo])

lemma demo_group: "(''a'', [''e1'']) \<in> set (fs_groups demo_spec)" "map_of (fs_regions demo_spec) ''a'' = Some [''a'', ''b'']"
  by (simp_all add: demo_spec_def)

lemma wf_groupD: "wf_spec sp \<Longrightarrow> (d, ms) \<in> set (fs_groups sp) \<Longrightarrow> group_ok sp (d, ms)"
  using wf_groups by fastforce

text \<open>C14. Firing a loop group: when every back-edge of the group has reported true and none has
  reached its limit, exactly the nodes of the invalidation region advance one epoch and lose
  completion and lease, the others keep theirs, the destination is reached in its new epoch
  with all the group's edges, every true verdict of an edge that enters the region from outside
  is supplied again, and exactly the group's counters grow by one.\<close>

theorem loop_fire_effect:
  assumes "wf_spec sp" and "state_inv sp st" and "(d, ms) \<in> set (fs_groups sp)"
    and "fr_generations st d = Some g" and "(d, g) \<notin> fr_closed st"
    and "\<forall>m \<in> set ms. group_arrived st d m = Some True" and "\<forall>m \<in> set ms. \<not> over_limit sp lc m"
    and "map_of (fs_regions sp) d = Some region"
  shows "\<exists>st'. evaluate_group sp d ms st lc = Some (None, st', count_loops ms lc) \<and>
    fr_generations st' = (\<lambda>n. if n \<in> set region then map_option Suc (fr_generations st n) else fr_generations st n) \<and>
    fr_completed st' = (\<lambda>n. if n \<in> set region then None else fr_completed st n) \<and>
    fr_running st' = {k \<in> fr_running st. fst k \<notin> set region} \<and>
    (d, Suc g) \<in> fr_reached st' \<and> set ms \<subseteq> set (get_or [] (fr_enabled st' (d, Suc g))) \<and>
    (\<forall>i \<in> set (get_or [] (map_of (fs_boundary sp) d)). \<forall>e. map_of (fs_edges sp) i = Some e \<and>
       get_or Map.empty (fr_decisions st (fe_src e)) i = Some True \<longrightarrow> enabled_edge sp i st') \<and>
    (\<forall>m. loop_count (count_loops ms lc) m = loop_count lc m + (if m \<in> set ms then 1 else 0))"
proof -
  have ok: "group_ok sp (d, ms)" using assms(1,3) by (rule wf_groupD)
  obtain st' where f: "fire_loop sp d ms st = Some st'" using fire_total [OF assms(2) ok] .
  have "evaluate_group sp d ms st lc = Some (None, st', count_loops ms lc)"
    using evaluate_group_exact [OF assms(2) ok assms(4), of lc] assms(4-7) f
    by (auto simp: group_pending_def group_open_def)
  then show ?thesis
    using fire_effect [OF assms(2) ok assms(4,8) f] count_loops_counts [OF ok] by (intro exI [of _ st']) auto
qed

lemma loop_fire_effect_witness:
  "\<exists>st'. evaluate_group demo_spec ''a'' [''e1''] demo_round Map.empty = Some (None, st', count_loops [''e1''] Map.empty)
     \<and> (''a'', Suc 0) \<in> fr_reached st'"
proof -
  have "\<forall>m \<in> set [''e1'']. group_arrived demo_round ''a'' m = Some True"
    by (simp add: group_arrived_def demo_round_def demo_state_def new_frontier_state_def Let_def demo_spec_def)
  moreover have "\<forall>m \<in> set [''e1'']. \<not> over_limit demo_spec Map.empty m"
    by (simp add: over_limit_def edge_limit_def demo_spec_def demo_edge_def loop_count_def)
  moreover have "fr_generations demo_round ''a'' = Some 0" "(''a'', 0) \<notin> fr_closed demo_round"
    by (simp_all add: demo_round_def demo_state_def new_frontier_state_def Let_def demo_spec_def)
  ultimately show ?thesis
    using loop_fire_effect [OF wf_demo demo_round_inv demo_group(1), of 0 Map.empty "[''a'', ''b'']"] demo_group(2)
    by blast
qed

text \<open>The decision table of a loop group, in the code's order: closed, or some back-edge has not
  reported, nothing happens; some verdict is false, the group is closed for this epoch; a strict
  edge has spent its limit, the first such edge is returned as the error; otherwise a spent edge
  closes the group and is recorded as exhausted; otherwise the loop fires.\<close>

theorem group_decision:
  assumes "wf_spec sp" and "state_inv sp st" and "(d, ms) \<in> set (fs_groups sp)" and "fr_generations st d = Some g"
  shows "evaluate_group sp d ms st lc =
    (if group_pending st d ms then Some (None, st, lc)
     else if \<exists>m \<in> set ms. group_arrived st d m \<noteq> Some True
     then Some (None, st\<lparr>fr_closed := insert (d, g) (fr_closed st)\<rparr>, lc)
     else if \<exists>m \<in> set ms. edge_strict sp m \<and> over_limit sp lc m
     then Some (Some (hd (filter (\<lambda>m. edge_strict sp m \<and> over_limit sp lc m) ms)), st, lc)
     else if \<exists>m \<in> set ms. over_limit sp lc m
     then Some (None, st\<lparr>fr_exhausted := note_exhausted (fr_exhausted st) (filter (over_limit sp lc) ms),
                        fr_closed := insert (d, g) (fr_closed st)\<rparr>, lc)
     else Some (None, the (fire_loop sp d ms st), count_loops ms lc))"
  by (rule evaluate_group_exact [OF assms(2) wf_groupD [OF assms(1,3)] assms(4)])

lemma group_decision_witness:
  "evaluate_group demo_spec ''a'' [''e1''] demo_state Map.empty = Some (None, demo_state, Map.empty)"
proof -
  have "fr_generations demo_state ''a'' = Some 0" "group_pending demo_state ''a'' [''e1'']"
    by (simp_all add: demo_state_def new_frontier_state_def Let_def demo_spec_def group_pending_def group_arrived_def)
  then show ?thesis using group_decision [OF wf_demo demo_state_inv demo_group(1), of 0 Map.empty] by simp
qed

text \<open>A true verdict is never lost: after a batch in which a current activation completes, every
  forward edge it takes has its target reached, with that edge enabled, in the target's current
  epoch, unless a loop fired by the same batch has moved the target to a new epoch.\<close>

theorem forward_delivery:
  assumes "wf_spec sp" and "state_inv sp st" and "complete_batch sp cs st lc = Some (res, st', lc')"
    and "(n, g, results) \<in> set cs" and "fr_generations st n = Some g"
    and "map_of (fs_outgoing sp) n = Some ids" and "i \<in> set ids" and "map_of (fs_edges sp) i = Some e"
    and "\<not> fe_loop e" and "results i = Some True"
    and "fr_generations st' (fe_dst e) = fr_generations st (fe_dst e)"
  shows "enabled_edge sp i st'"
  by (rule complete_batch_delivers [OF assms])

lemma forward_delivery_witness:
  "\<exists>st'. complete_batch demo_spec [(''a'', 0, [''e0'' \<mapsto> True])] demo_state Map.empty = Some (None, st', Map.empty)
     \<and> enabled_edge demo_spec ''e0'' st'"
proof -
  let ?cs = "[(''a'', 0, [''e0'' \<mapsto> True])]"
  obtain st' where st': "complete_batch demo_spec ?cs demo_state Map.empty = Some (None, st', Map.empty)"
    "fr_generations st' ''b'' = Some 0"
    by (simp add: complete_batch_def demo_spec_def demo_state_def new_frontier_state_def Let_def generation_def
        mark_completed_def demo_edge_def enable_edge_def evaluate_group_def get_or_def)
  have facts: "fr_generations demo_state ''a'' = Some 0" "fr_generations demo_state ''b'' = Some 0"
    "map_of (fs_outgoing demo_spec) ''a'' = Some [''e0'']"
    "map_of (fs_edges demo_spec) ''e0'' = Some (demo_edge ''e0'' 0 ''a'' ''b'' None)"
    by (simp_all add: demo_state_def new_frontier_state_def Let_def demo_spec_def)
  have "enabled_edge demo_spec ''e0'' st'"
    by (rule forward_delivery [OF wf_demo demo_state_inv st'(1), where n = "''a''" and g = 0
          and results = "[''e0'' \<mapsto> True]" and ids = "[''e0'']" and e = "demo_edge ''e0'' 0 ''a'' ''b'' None"])
      (use facts st'(2) in \<open>simp_all add: demo_edge_def\<close>)
  then show ?thesis using st'(1) by blast
qed

text \<open>Isolation is permanent: once a node is isolated no later lease of the run is of it,
  whatever completes and whatever loop fires.\<close>

theorem isolation_permanent:
  assumes "wf_spec sp" and "state_inv sp st" and "isolate_nodes ns st = Some st1" and "n \<in> ns"
    and "trace (sched_step sp) (st1, lc) es s"
  shows "n \<notin> fst ` set (concat (map leased_keys es))"
proof -
  have "state_inv sp st1 \<and> fr_isolated_nodes st1 = fr_isolated_nodes st \<union> ns"
    using isolate_total [OF assms(2) isolate_known [OF assms(2,3)]] assms(3) by auto
  then show ?thesis using isolated_not_leased [OF assms(1,5)] assms(4) by simp
qed

lemma isolation_permanent_witness: "''a'' \<notin> fst ` set (concat (map leased_keys []))"
proof -
  obtain st1 where "isolate_nodes {''a''} demo_state = Some st1"
    by (simp add: isolate_nodes_def generation_def demo_state_def new_frontier_state_def Let_def demo_spec_def)
  then show ?thesis
    using isolation_permanent [OF wf_demo demo_state_inv _ _ trace_nil, of "{''a''}" st1 "''a''"] by simp
qed

text \<open>Restoring a completed node from a checkpoint always succeeds: it is complete in its
  current epoch, its saved true verdicts are delivered again, no epoch moves, no lease changes,
  and the other nodes' completions stand.\<close>

theorem replay_restores:
  assumes "wf_spec sp" and "state_inv sp st" and "n \<in> set (fs_nodes sp)" and "n \<notin> fst ` fr_running st"
  shows "\<exists>st'. replay_completed sp n results st = Some st' \<and> state_inv sp st' \<and>
    fr_generations st' = fr_generations st \<and> fr_running st' = fr_running st \<and>
    fr_completed st' = (fr_completed st)(n := fr_generations st n) \<and>
    (\<forall>ids i. map_of (fs_outgoing sp) n = Some ids \<and> i \<in> set ids \<and> edge_with sp (\<lambda>fe. \<not> fe_loop fe) i \<and>
      results i = Some True \<longrightarrow> enabled_edge sp i st')"
  by (rule replay_total [OF assms])

lemma replay_restores_witness:
  "\<exists>st'. replay_completed demo_spec ''a'' [''e0'' \<mapsto> True] demo_state = Some st' \<and> state_inv demo_spec st'"
proof -
  have "''a'' \<in> set (fs_nodes demo_spec)" "''a'' \<notin> fst ` fr_running demo_state"
    by (simp_all add: demo_spec_def demo_state_def new_frontier_state_def Let_def)
  then show ?thesis using replay_restores [OF wf_demo demo_state_inv] by blast
qed

text \<open>Rebinding the committed loop inputs never raises and keeps the invariant; it moves no
  epoch, completion or lease.\<close>

theorem restore_loops_safe:
  assumes "wf_spec sp" and "state_inv sp st"
  shows "\<exists>st'. restore_loop_activations (fs_groups sp) lc st = Some st' \<and> state_inv sp st' \<and>
    fr_generations st' = fr_generations st \<and> fr_completed st' = fr_completed st \<and> fr_running st' = fr_running st"
  using restore_total [OF assms(2)] wf_groups [OF assms(1)] by fastforce

lemma restore_loops_safe_witness:
  "\<exists>st'. restore_loop_activations (fs_groups demo_spec) [''e1'' \<mapsto> 1] demo_state = Some st' \<and> state_inv demo_spec st'"
  using restore_loops_safe [OF wf_demo demo_state_inv] by blast

end
