(* ===== verification/Exec_Resume.thy ===== *)
theory Exec_Resume
  imports Exec_Settle Frontier_Effects
begin

text \<open>
  A run resumed from a checkpoint starts in a state that satisfies the invariants of a run.
\<close>

section \<open>Resuming\<close>

lemma replay_nodes_state:
  assumes wf: "wf_spec sp" and "state_inv sp f" and "set is \<subseteq> set (fs_nodes sp)" and "fr_running f = {}"
    and "\<forall>n \<in> set (fs_nodes sp). fr_generations f n = Some 0"
    and "replay_nodes env sp sn is f = Inr f'"
  shows "state_inv sp f' \<and> fr_running f' = {} \<and> fr_generations f' = fr_generations f \<and>
    (\<forall>n. fr_completed f' n = (if n \<in> set is \<inter> sn_completed sn then Some 0 else fr_completed f n))"
  using assms(2-6)
proof (induction "is" arbitrary: f)
  case (Cons i "is")
  have is': "set is \<subseteq> set (fs_nodes sp)" and i: "i \<in> set (fs_nodes sp)" using Cons.prems(2) by simp_all
  show ?case
  proof (cases "i \<in> sn_completed sn")
    case False
    then have "replay_nodes env sp sn is f = Inr f'" using Cons.prems(5) by simp
    from Cons.IH [OF Cons.prems(1) is' Cons.prems(3,4) this] show ?thesis using False by auto
  next
    case True
    obtain m f1 where f1: "replay_completed sp i m f = Some f1" "replay_nodes env sp sn is f1 = Inr f'"
      using Cons.prems(5) True by (auto simp: raise_bind_Inr_iff split: option.splits)
    have step: "state_inv sp f1" "fr_generations f1 = fr_generations f" "fr_running f1 = {}"
      "fr_completed f1 = (fr_completed f)(i := fr_generations f i)"
      using replay_total [OF wf Cons.prems(1) i, of m] f1(1) Cons.prems(3) by auto
    have "\<forall>n \<in> set (fs_nodes sp). fr_generations f1 n = Some 0" using step(2) Cons.prems(4) by simp
    from Cons.IH [OF step(1) is' step(3) this f1(2)] show ?thesis
      using step True Cons.prems(4) i by auto
  qed
qed simp

text \<open>What a successful resume puts in place: the saved data, the saved completions and no lease.\<close>

lemma resume_state:
  assumes wf: "wf_spec sp" and nodes: "map nd_id (wf_nodes (xv_wf env)) = fs_nodes sp"
    and sub: "sn_completed sn \<subseteq> set (fs_nodes sp)" and eq: "resume_conf env sp sn = Inr c"
  shows "state_inv sp (cf_front c)" and "fr_running (cf_front c) = {}"
    and "\<forall>n \<in> set (fs_nodes sp). fr_generations (cf_front c) n = Some 0"
    and "fr_completed (cf_front c) = (\<lambda>n. if n \<in> sn_completed sn then Some 0 else None)"
    and "cf_counts c = restored_counts env (sn_counts sn)" and "cf_batch c = []" and "cf_saved c = []" and "cf_status c = Running"
    and "cf_x c = \<lparr>xs_outputs = sn_outputs sn, xs_sessions = sn_sessions sn, xs_stack = sn_stack sn,
       xs_live = sn_live sn, xs_memo = sn_memo sn, xs_tokens = sn_tokens sn,
       xs_step = length (sn_stack sn), xs_completed = sn_completed sn\<rparr>"
proof -
  let ?f0 = "new_frontier_state sp (sn_completed sn)"
  let ?ns = "map nd_id (wf_nodes (xv_wf env))"
  obtain f where f: "(if sn_completed sn = {} then Inr ?f0
      else raise_bind (replay_nodes env sp sn ?ns ?f0)
        (\<lambda>f. case restore_loop_activations (fs_groups sp) (restored_counts env (sn_counts sn)) f of
           None \<Rightarrow> Inl KeyError | Some f' \<Rightarrow> Inr f')) = (Inr f :: pyexc + fstate)"
    and c: "c = \<lparr>cf_front = f, cf_counts = restored_counts env (sn_counts sn),
       cf_x = \<lparr>xs_outputs = sn_outputs sn, xs_sessions = sn_sessions sn, xs_stack = sn_stack sn,
               xs_live = sn_live sn, xs_memo = sn_memo sn, xs_tokens = sn_tokens sn,
               xs_step = length (sn_stack sn), xs_completed = sn_completed sn\<rparr>,
       cf_batch = [], cf_failed = [], cf_saved = [], cf_status = Running\<rparr>"
    using eq unfolding resume_conf_def by (auto simp only: raise_bind_Inr_iff sum.inject split: option.splits)
  have f0: "state_inv sp ?f0" "fr_running ?f0 = {}" "\<forall>n \<in> set (fs_nodes sp). fr_generations ?f0 n = Some 0"
    "fr_completed ?f0 = (\<lambda>n. if n \<in> sn_completed sn then Some 0 else None)"
    using state_inv_new [OF wf] sub by (auto simp: new_frontier_state_def Let_def fun_eq_iff)
  have "state_inv sp f \<and> fr_running f = {} \<and> fr_generations f = fr_generations ?f0 \<and> fr_completed f = fr_completed ?f0"
  proof (cases "sn_completed sn = {}")
    case True
    then show ?thesis using f f0 by simp
  next
    case False
    obtain f1 where f1: "replay_nodes env sp sn ?ns ?f0 = Inr f1"
      "restore_loop_activations (fs_groups sp) (restored_counts env (sn_counts sn)) f1 = Some f"
      using f False by (auto simp: raise_bind_Inr_iff split: option.splits)
    have s1: "state_inv sp f1" "fr_running f1 = {}" "fr_generations f1 = fr_generations ?f0"
      "\<forall>n. fr_completed f1 n = (if n \<in> set ?ns \<inter> sn_completed sn then Some 0 else fr_completed ?f0 n)"
      using replay_nodes_state [OF wf f0(1) _ f0(2,3) f1(1)] nodes by simp_all
    have "fr_completed f1 = fr_completed ?f0" using s1(4) f0(4) by (auto simp: fun_eq_iff)
    moreover have "\<forall>(d, ms) \<in> set (fs_groups sp). group_ok sp (d, ms)" using wf_groups [OF wf] by blast
    ultimately show ?thesis
      using restore_total [OF s1(1), of "fs_groups sp" "restored_counts env (sn_counts sn)"] f1(2) s1(2,3) by auto
  qed
  then show "state_inv sp (cf_front c)" and "fr_running (cf_front c) = {}"
    and "\<forall>n \<in> set (fs_nodes sp). fr_generations (cf_front c) n = Some 0"
    and "fr_completed (cf_front c) = (\<lambda>n. if n \<in> sn_completed sn then Some 0 else None)"
    and "cf_counts c = restored_counts env (sn_counts sn)" and "cf_batch c = []" and "cf_saved c = []" and "cf_status c = Running"
    and "cf_x c = \<lparr>xs_outputs = sn_outputs sn, xs_sessions = sn_sessions sn, xs_stack = sn_stack sn,
       xs_live = sn_live sn, xs_memo = sn_memo sn, xs_tokens = sn_tokens sn,
       xs_step = length (sn_stack sn), xs_completed = sn_completed sn\<rparr>"
    using f0 unfolding c by simp_all
qed

lemma resume_ok:
  assumes wf: "wf_spec sp" and nodes: "map nd_id (wf_nodes (xv_wf env)) = fs_nodes sp"
    and sub: "sn_completed sn \<subseteq> set (fs_nodes sp)" and eq: "resume_conf env sp sn = Inr c"
  shows "exec_inv env sp (budget sp (cf_counts c)) c" and "mirrored sp c"
proof -
  note st = resume_state [OF assms]
  have "fr_generations (cf_front c) n = Some g \<Longrightarrow> g = 0" for n g
    using st(3) state_invD(1) [OF st(1), of n] by auto
  then show "exec_inv env sp (budget sp (cf_counts c)) c"
    using wf st(1,6) by (auto simp: exec_inv_def epochs_below_def flying_def)
  show "mirrored sp c" using wf st(1,4,6,9) by (auto simp: mirrored_def split: if_splits)
qed

lemma trace_budget:
  assumes "trace (exec_step env sp) c es c'" and "es \<noteq> []"
  shows "in_budget env c'"
  using assms by (cases rule: trace.cases) (auto intro: in_budget_step)

lemma isolated_slots:
  assumes wf: "wf_spec sp" and inv: "state_inv sp (cf_front c)" and n: "n \<in> fr_isolated_nodes (cf_front c)"
    and run: "trace (exec_step env sp) c es c'" and b: "cf_batch c = []"
  shows "n \<notin> sl_node ` set (cf_batch c')"
proof -
  have "n \<in> fr_isolated_nodes (cf_front c') \<and> n \<notin> sl_node ` set (cf_batch c') \<and> state_inv sp (cf_front c')"
    using run
  proof (induction rule: trace.induct)
    case trace_nil
    then show ?case using n b inv by simp
  next
    case (trace_snoc es c1 e c2)
    have inv1: "state_inv sp (cf_front c1)" and n1: "n \<in> fr_isolated_nodes (cf_front c1)" "n \<notin> sl_node ` set (cf_batch c1)"
      using trace_snoc.IH by blast+
    obtain ses where ses: "trace (sched_step sp) (cf_front c1, cf_counts c1) ses (cf_front c2, cf_counts c2)"
      using exec_sched [OF trace_snoc.hyps(2)] by blast
    have inv2: "state_inv sp (cf_front c2)" using sched.trace_inv [OF ses] wf inv1 by simp
    have n2: "n \<in> fr_isolated_nodes (cf_front c2)" using trace_counts(4) [OF wf ses] inv1 n1(1) by auto
    have "n \<notin> sl_node ` set (cf_batch c2)"
      using trace_snoc.hyps(2)
    proof (cases rule: exec_step_cases)
      case (leased acts f)
      have "set (map act_key acts) = {k. ready_key sp (cf_front c1) k}" by (rule leased_ready [OF inv1 wf leased(4)])
      moreover have "(\<lambda>s. (sl_node s, sl_epoch s)) ` set (cf_batch c2) = set (map act_key acts)"
        using arg_cong [OF key_make_slots [of "xs_step (cf_x c1)" acts], of set] leased by simp
      ultimately have "\<forall>s \<in> set (cf_batch c2). ready_key sp (cf_front c1) (sl_node s, sl_epoch s)" by blast
      then show ?thesis using n1(1) by (auto simp: ready_key_def)
    next
      case (moves k r)
      have "k < length (cf_batch c1)" using moves by (simp add: moved_def)
      then have "sl_node ` set (cf_batch c2) \<subseteq> sl_node ` set (cf_batch c1)"
        using set_update_subset_insert [of "cf_batch c1" k] nth_mem moves(2) by fastforce
      then show ?thesis using n1(2) by blast
    next
      case settles
      then show ?thesis using settle_settled [OF settles(5)] by (simp add: settled_def)
    qed (use n1 in simp_all)
    then show ?case using n2 inv2 by blast
  qed
  then show ?thesis by blast
qed

end
