(* ===== verification/Exec_Props.thy ===== *)
theory Exec_Props
  imports Exec_Resume
begin

text \<open>
  The properties of a run of the executor, with a concrete run to apply them to.
\<close>

section \<open>A concrete run\<close>

definition demo_world :: world where
  "demo_world = \<lparr>wd_agent = (\<lambda>c. Inl ExecutionError), wd_resolve = (\<lambda>n step k. None),
     wd_script = (\<lambda>c. Inr (VStr ''done'')), wd_stub_script = (\<lambda>n ps step i. Inr None),
     wd_stub_child = (\<lambda>n ps step. Inr None), wd_child = (\<lambda>c. Inl ExecutionError)\<rparr>"

text \<open>The workflow of \<open>Valid_Demo\<close> under the handwritten specification of \<open>Frontier_Run\<close>.\<close>

definition demo_exec :: exec_env where
  "demo_exec = \<lparr>xv_wf = demo_flow, xv_ids = [''i0'', ''e0'', ''e1'', ''o0''],
     xv_jp = (\<lambda>d t. Inr [VStr ''in'']), xv_loads = (\<lambda>s. Inl ValueError), xv_sha = (\<lambda>s. s),
     xv_signals = {}, xv_max_tokens = Some 100, xv_run_id = Some ''r'', xv_saving = True, xv_cap = 1, xv_world = demo_world\<rparr>"

definition demo_start :: conf where
  "demo_start = start_conf demo_exec demo_spec []"

definition demo_taken :: conf where
  "demo_taken = demo_start\<lparr>cf_front := demo_state\<lparr>fr_running := {(''a'', 0)}\<rparr>,
     cf_batch := [\<lparr>sl_node = ''a'', sl_epoch = 0, sl_enabled = [], sl_step = 0, sl_phase = Waiting\<rparr>],
     cf_x := (cf_x demo_start)\<lparr>xs_step := 1\<rparr>\<rparr>"

lemma demo_take: "exec_step demo_exec demo_spec demo_start Take demo_taken"
  using demo_lease
  by (simp add: exec_step_def demo_start_def demo_taken_def start_conf_def make_slots_def demo_state_def)

lemma demo_exec_run: "trace (exec_step demo_exec demo_spec) (start_conf demo_exec demo_spec []) [Take] demo_taken"
  using trace_one [of "exec_step demo_exec demo_spec", OF demo_take] by (simp add: demo_start_def)

lemma demo_exec_nodes: "map nd_id (wf_nodes (xv_wf demo_exec)) = fs_nodes demo_spec"
  by (simp add: demo_exec_def demo_flow_def demo_script_def demo_spec_def)

lemma demo_exec_node: "exec_node demo_exec ''a'' = Some (demo_script ''a'')"
  by (simp add: exec_node_def node_by_id_def demo_exec_def demo_flow_def demo_script_def dict_of_def)

text \<open>The same graph with a person at its first node: the run pauses there and saves.\<close>

definition demo_person :: node_def where
  "demo_person = NodeDef ''a'' Human ''go'' None '''' '''' [] [] None [default_port ''x''] [default_port ''y'']
     None False None None Fail False None None [] [] None"

definition demo_pause :: exec_env where
  "demo_pause = demo_exec\<lparr>xv_wf := WorkflowDef ''demo'' '''' '''' [demo_person, demo_script ''b''] (wf_edges demo_flow)
     '''' [(''x'', VStr ''1'')] [] [] 0 0 None\<rparr>"

definition demo_waiting :: conf where
  "demo_waiting = (start_conf demo_pause demo_spec [])\<lparr>cf_front := demo_state\<lparr>fr_running := {(''a'', 0)}\<rparr>,
     cf_batch := [\<lparr>sl_node = ''a'', sl_epoch = 0, sl_enabled = [], sl_step = 0,
                    sl_phase = Ended (Some (WorkflowPaused ''a'' ''go''))\<rparr>],
     cf_x := (cf_x (start_conf demo_pause demo_spec []))\<lparr>xs_step := 1\<rparr>\<rparr>"

definition demo_paused :: conf where
  "demo_paused = (save demo_pause (demo_waiting\<lparr>cf_batch := []\<rparr>))\<lparr>cf_status := Raised (WorkflowPaused ''a'' ''go'')\<rparr>"

lemma demo_pause_simps:
  "xv_saving demo_pause" "xv_jp demo_pause = xv_jp demo_exec" "xv_ids demo_pause = [''i0'', ''e0'', ''e1'', ''o0'']"
  "xv_signals demo_pause = {}" "xv_cap demo_pause = 1" "xv_max_tokens demo_pause = Some 100"
  by (simp_all add: demo_pause_def demo_exec_def)

lemma demo_waiting_facts:
  "cf_status demo_waiting = Running" "cf_saved demo_waiting = []" "xv_saving demo_pause"
  "first_failure demo_pause (cf_batch demo_waiting) = Some (WorkflowPaused ''a'' ''go'')"
  by (simp_all add: demo_waiting_def start_conf_def demo_pause_simps first_failure_def raises_def map_filter_simps)

lemma demo_settle: "settle demo_pause demo_spec demo_waiting = Inr demo_paused"
  by (simp add: settle_def demo_paused_def demo_waiting_def start_conf_def classify_slot_def Let_def save_def
      demo_pause_simps over_budget_def)

lemma demo_begin:
  assumes "xs_completed x = {}"
  shows "begin_slot demo_pause \<lparr>sl_node = ''a'', sl_epoch = 0, sl_enabled = [], sl_step = 0, sl_phase = Waiting\<rparr> x =
    (x, Ended (Some (WorkflowPaused ''a'' ''go'')))"
proof -
  have node: "exec_node demo_pause ''a'' = Some demo_person"
    by (simp add: exec_node_def node_by_id_def demo_pause_def demo_exec_def demo_person_def demo_script_def dict_of_def)
  obtain ins where ins: "build_inputs (xv_jp demo_pause) (xv_wf demo_pause) (xv_ids demo_pause) (xs_outputs x) ''a'' [] = Inr ins"
    by (simp add: build_inputs_def demo_pause_simps demo_exec_def demo_pause_def demo_flow_def edge_default_def IN_NODE_ID_def jsonpath_get_def)
  have "incoming_fan_out_edge (xv_wf demo_pause) ''a'' = None"
    by (simp add: incoming_fan_out_edge_def demo_pause_def demo_flow_def edge_default_def)
  moreover have "begin_single demo_pause demo_person ins 0 x = (x, Ended (Some (WorkflowPaused ''a'' ''go'')))"
    by (simp add: begin_single_def demo_person_def demo_pause_simps)
  ultimately show ?thesis using assms node ins by (simp add: begin_slot_def)
qed

lemma demo_pause_run:
  "trace (exec_step demo_pause demo_spec) (start_conf demo_pause demo_spec []) [Take, Call 0, Settle] demo_paused"
proof -
  let ?st = "exec_step demo_pause demo_spec"
  let ?c0 = "start_conf demo_pause demo_spec []"
  let ?c1 = "demo_waiting\<lparr>cf_batch := [(cf_batch demo_waiting ! 0)\<lparr>sl_phase := Waiting\<rparr>]\<rparr>"
  have 1: "?st ?c0 Take ?c1"
    using demo_lease by (simp add: exec_step_def demo_waiting_def start_conf_def make_slots_def demo_state_def)
  have "xs_completed (cf_x ?c1) = {}" by (simp add: demo_waiting_def start_conf_def)
  from demo_begin [OF this] have 2: "?st ?c1 (Call 0) demo_waiting"
    by (simp add: exec_step_def call_slot_def admitted_def flying_def in_flight_def demo_pause_simps put_slot_def
        demo_waiting_facts(1)) (simp add: demo_waiting_def)
  have ended: "is_ended (sl_phase s)" if "s \<in> set (cf_batch demo_waiting)" for s
    using that by (simp add: demo_waiting_def is_ended_def)
  have "cf_batch demo_waiting \<noteq> []" by (simp add: demo_waiting_def)
  then have 3: "?st demo_waiting Settle demo_paused"
    using ended demo_settle by (auto simp: exec_step_def demo_waiting_facts(1))
  have "trace ?st ?c0 ([Take] @ [Call 0]) demo_waiting" by (rule trace.trace_snoc [OF trace_one [of ?st, OF 1] 2])
  from trace.trace_snoc [OF this 3] show ?thesis by simp
qed

section \<open>Properties of a run\<close>

text \<open>C4. A run of the executor is a run of the scheduler: however the activations of a batch
  interleave, the scheduler state is one its own lease, commit and isolate operations reach, and
  the step counter counts exactly the leases.\<close>

theorem exec_refines_scheduler:
  assumes "trace (exec_step env sp) (start_conf env sp inputs) es c"
  shows "\<exists>ses. trace (sched_step sp) (new_frontier_state sp {}, Map.empty) ses (cf_front c, cf_counts c) \<and>
    xs_step (cf_x c) = length (concat (map leased_keys ses))"
  using exec_trace_sched [OF assms] by (auto simp: start_conf_def)

lemma exec_refines_scheduler_witness:
  "\<exists>ses. trace (sched_step demo_spec) (new_frontier_state demo_spec {}, Map.empty) ses (cf_front demo_taken, cf_counts demo_taken) \<and>
    length (concat (map leased_keys ses)) = 1"
  using exec_refines_scheduler [OF demo_exec_run] by (auto simp: demo_taken_def)

text \<open>C3. Every run ends: whatever the agents, scripts, retries and loops do, the number of steps is
  bounded by the activations the loop budget allows times the most attempts a node has, and a
  run that is not over always has a next step, so no schedule deadlocks, under any cap.\<close>

theorem exec_terminates:
  assumes "wf_spec sp" and "trace (exec_step env sp) (start_conf env sp inputs) es c"
  shows "length es \<le> length (fs_nodes sp) * (budget sp Map.empty + 1) * (2 * attempts_max env + 4) + 1 \<and>
    ((\<exists>e c'. exec_step env sp c e c') \<longleftrightarrow> cf_status c = Running)"
proof -
  have "length es \<le> exec_work env sp (budget sp Map.empty) (start_conf env sp inputs)"
    using trace_length [OF assms(2) start_ok(1) [OF assms(1)]] by simp
  then show ?thesis
    using exec_step_running exec_work_start [of env sp "budget sp Map.empty" inputs] exec_progress [OF run_ok(1) [OF assms]]
    by (meson order_trans)
qed

lemma exec_terminates_witness: "\<exists>e c'. exec_step demo_exec demo_spec demo_taken e c'"
  using exec_terminates [OF wf_demo demo_exec_run] by (simp add: demo_taken_def demo_start_def start_conf_def)

text \<open>C20. The concurrency cap holds: when it is positive, at most that many activations are between
  their start and their end, the waits before a retry included.\<close>

theorem concurrency_capped:
  assumes "wf_spec sp" and "trace (exec_step env sp) (start_conf env sp inputs) es c" and "0 < xv_cap env"
  shows "int (length (filter (\<lambda>s. in_flight (sl_phase s)) (cf_batch c))) \<le> xv_cap env"
  using run_ok(1) [OF assms(1,2)] assms(3) by (simp add: exec_inv_def flying_def)

lemma concurrency_capped_witness: "int (length (filter (\<lambda>s. in_flight (sl_phase s)) (cf_batch demo_taken))) \<le> 1"
  using concurrency_capped [OF wf_demo demo_exec_run] by (simp add: demo_exec_def)

text \<open>C17. The trace of a fresh run is coherent: no step number is recorded twice, each is one that
  was reserved, a frame carries the node its step was reserved for, which has then ended, and
  the run reserves at most nodes times (loop budget + 1) steps.\<close>

theorem trace_frames_coherent:
  assumes "wf_spec sp" and "trace (exec_step env sp) (start_conf env sp inputs) es c"
  shows "distinct (map tf_step (xs_stack (cf_x c))) \<and> (\<forall>f \<in> set (xs_stack (cf_x c)). tf_step f < xs_step (cf_x c)) \<and>
    (\<forall>f \<in> set (xs_stack (cf_x c)). \<forall>s \<in> set (cf_batch c). sl_step s = tf_step f \<longrightarrow> is_ended (sl_phase s) \<and> sl_node s = tf_node f) \<and>
    xs_step (cf_x c) \<le> length (fs_nodes sp) * (budget sp Map.empty + 1)"
proof -
  obtain ses where ses: "trace (sched_step sp) (new_frontier_state sp {}, Map.empty) ses (cf_front c, cf_counts c)"
    "xs_step (cf_x c) = length (concat (map leased_keys ses))"
    using exec_trace_sched [OF assms(2)] by (auto simp: start_conf_def)
  then have "xs_step (cf_x c) \<le> length (fs_nodes sp) * (budget sp Map.empty + 1)"
    using trace_leases_bound [OF assms(1) ses(1)] by simp
  then show ?thesis using run_ok(2) [OF assms] unfolding stack_ok_def by blast
qed

lemma trace_frames_coherent_witness: "xs_step (cf_x demo_taken) \<le> 6"
  using trace_frames_coherent [OF wf_demo demo_exec_run] by (simp add: demo_members) (simp add: demo_spec_def)

text \<open>What the run calls completed is what the scheduler committed, at every moment, and an
  activation that was leased is never skipped as completed.\<close>

theorem completed_mirrors_commits:
  assumes "wf_spec sp" and "trace (exec_step env sp) (start_conf env sp inputs) es c"
  shows "xs_completed (cf_x c) = dom (fr_completed (cf_front c)) \<and>
    (\<forall>s \<in> set (cf_batch c). sl_node s \<notin> xs_completed (cf_x c))"
  using run_ok(3) [OF assms] leased_not_completed [of sp c] unfolding mirrored_def by blast

lemma completed_mirrors_commits_witness: "''a'' \<notin> xs_completed (cf_x demo_taken)"
  using completed_mirrors_commits [OF wf_demo demo_exec_run, THEN conjunct2] by (simp add: demo_taken_def)

text \<open>Finished work is saved before a failure is raised: settling commits what finished, saves
  one checkpoint of the result if anything finished or the run pauses for a person, and only
  then stops the run, with the budget error if the budget is exceeded, else with the first
  failure of the batch that is not isolated.\<close>

theorem settle_saves_then_raises:
  assumes "settle env sp c = Inr c'" and "cf_status c = Running"
  shows "cf_saved c' =
      (if xv_saving env \<and> ((\<exists>s \<in> set (cf_batch c). sl_phase s = Ended None) \<or>
           (\<exists>n sig. first_failure env (cf_batch c) = Some (WorkflowPaused n sig)))
       then [snapshot_of (cf_x c') (cf_counts c')] else []) @ cf_saved c \<and>
    cf_status c' = (case over_budget env (cf_x c') of
        Some e \<Rightarrow> Raised e
      | None \<Rightarrow> (case first_failure env (cf_batch c) of Some e \<Rightarrow> Raised e | None \<Rightarrow> Running))"
  using settle_order [OF assms] by blast

lemma settle_saves_then_raises_witness:
  "\<exists>c'. settle demo_pause demo_spec demo_waiting = Inr c' \<and> cf_saved c' = [snapshot_of (cf_x c') (cf_counts c')]"
  using settle_saves_then_raises [OF demo_settle demo_waiting_facts(1)] demo_settle by (simp add: demo_waiting_facts)

text \<open>C16. Every checkpoint a run saves is the complete state the run had between two batches: no
  half-finished activation is ever in one, and its completed nodes are the scheduler's.\<close>

theorem checkpoints_between_batches:
  assumes "wf_spec sp" and "trace (exec_step env sp) (start_conf env sp inputs) es c" and "sn \<in> set (cf_saved c)"
  shows "\<exists>es1 c1. trace (exec_step env sp) (start_conf env sp inputs) es1 c1 \<and> cf_batch c1 = [] \<and>
    sn = snapshot_of (cf_x c1) (cf_counts c1) \<and> sn_completed sn = dom (fr_completed (cf_front c1))"
proof -
  have "boundary env sp (start_conf env sp inputs) sn"
    by (rule saved_boundary [OF assms(2) _ assms(3)]) (simp add: start_conf_def)
  then obtain es1 c1 where c1: "trace (exec_step env sp) (start_conf env sp inputs) es1 c1" "cf_batch c1 = []"
    "sn = snapshot_of (cf_x c1) (cf_counts c1)" unfolding boundary_def by blast
  have "mirrored sp c1" by (rule run_ok(3) [OF assms(1) c1(1)])
  then have "sn_completed sn = dom (fr_completed (cf_front c1))" by (simp add: c1(3) snapshot_of_def mirrored_def)
  then show ?thesis using c1 by blast
qed

lemma checkpoints_between_batches_witness:
  "\<exists>es1 c1. trace (exec_step demo_pause demo_spec) (start_conf demo_pause demo_spec []) es1 c1 \<and> cf_batch c1 = [] \<and>
     snapshot_of (cf_x demo_paused) (cf_counts demo_paused) = snapshot_of (cf_x c1) (cf_counts c1)"
proof -
  have "snapshot_of (cf_x demo_paused) (cf_counts demo_paused) \<in> set (cf_saved demo_paused)"
    by (simp add: demo_paused_def save_def demo_pause_simps)
  from checkpoints_between_batches [OF wf_demo demo_pause_run this] show ?thesis by blast
qed

text \<open>The token budget is enforced between batches: a run that goes on past a batch has not
  spent more than a positive ceiling.\<close>

theorem budget_enforced:
  assumes "trace (exec_step env sp) (start_conf env sp inputs) es c" and "cf_status c = Running" and "cf_batch c = []"
    and "xv_max_tokens env = Some m" and "0 < m"
  shows "xs_tokens (cf_x c) \<le> m"
proof (cases "es = []")
  case True
  then have "c = start_conf env sp inputs" using assms(1) by (auto elim: trace.cases)
  then show ?thesis using assms(5) by (simp add: start_conf_def)
next
  case False
  then show ?thesis using trace_budget [OF assms(1) False] assms(2-5) by (simp add: in_budget_def over_budget_def split: if_splits)
qed

lemma budget_enforced_witness: "xs_tokens (cf_x demo_start) \<le> 100"
proof -
  have "trace (exec_step demo_exec demo_spec) (start_conf demo_exec demo_spec []) [] demo_start"
    by (simp add: demo_start_def trace_nil)
  then show ?thesis by (rule budget_enforced) (simp_all add: demo_start_def start_conf_def demo_exec_def)
qed

end
