(* ===== verification/Exec_Effects.thy ===== *)
theory Exec_Effects
  imports Exec_Props
begin

text \<open>
  The properties of failures, of inputs and outputs, and of resuming.
\<close>

section \<open>Failures, inputs, outputs\<close>

text \<open>C24. The scope of an isolated failure is exact: the nodes reachable from the failed one by one or
  more edges that are neither bounded loops nor lead into \<open>$output\<close>, cycles included.\<close>

theorem isolation_scope_exact:
  "transitive_successors w n =
     {(s, d). \<exists>e \<in> set (wf_edges w). s = src e \<and> d = dst e \<and> loop_max e = None \<and> dst e \<noteq> OUT_NODE_ID}\<^sup>+ `` {n}"
proof -
  have "scope_rel w = {(s, d). \<exists>e \<in> set (wf_edges w). s = src e \<and> d = dst e \<and> loop_max e = None \<and> dst e \<noteq> OUT_NODE_ID}"
    by (auto simp: scope_rel_def)
  then show ?thesis using transitive_successors_closure [of w n] by simp
qed

text \<open>C15. An isolated failure contains its damage: once the batch in which a node declared
  \<open>on_error: isolate\<close> failed has settled, neither that node nor any node of its scope is in a
  batch again for the rest of the run.\<close>

theorem isolated_scope_never_runs:
  assumes "wf_spec sp" and "trace (exec_step env sp) (start_conf env sp inputs) es c"
    and "settle env sp c = Inr c'" and "s \<in> set (cf_batch c)" and "sl_phase s = Ended (Some e)" and "\<not> stops_run e"
    and "exec_node env (sl_node s) = Some n" and "nd_on_error n = on_error_mode.Isolate"
    and "trace (exec_step env sp) c' es' c''" and "m \<in> insert (sl_node s) (transitive_successors (xv_wf env) (sl_node s))"
  shows "m \<notin> sl_node ` set (cf_batch c'')"
proof -
  have inv: "state_inv sp (cf_front c)" using run_ok(1) [OF assms(1,2)] by (simp add: exec_inv_def)
  have m: "m \<in> fr_isolated_nodes (cf_front c')"
    using settle_isolates [OF assms(1) inv assms(3-8)] assms(10) by blast
  obtain ses where ses: "trace (sched_step sp) (cf_front c, cf_counts c) ses (cf_front c', cf_counts c')" "cf_batch c' = []"
    using settle_settled [OF assms(3)] unfolding settled_def by blast
  have "state_inv sp (cf_front c')" using sched.trace_inv [OF ses(1)] assms(1) inv by simp
  then show ?thesis by (rule isolated_slots [OF assms(1) _ m assms(9) ses(2)])
qed








text \<open>C25. A script's result is typed: when coercion accepts what a script returned, every declared
  output port has a value, and it has the port's type.\<close>

theorem script_outputs_typed:
  assumes "coerce_script_output loads n v = Inr out" and "distinct (output_names n)" and "p \<in> set (nd_output_ports n)"
  shows "\<exists>x. map_of out (port_name p) = Some x \<and> has_type x (port_type p)"
  by (rule coerce_script_output_typed [OF assms])

lemma script_outputs_typed_witness: "\<exists>x. map_of [(''y'', VStr ''7'')] ''y'' = Some x \<and> has_type x ''string''"
proof -
  have "coerce_script_output (\<lambda>s. Inl ValueError) (demo_script ''a'') (VStr ''7'') = Inr [(''y'', VStr ''7'')]"
    by (simp add: coerce_script_output_def demo_script_def default_port_def to_state_def port_type_def string_schema_def
        schema_type_def port_str_def)
  from script_outputs_typed [OF this, of "default_port ''y''"] show ?thesis
    by (simp add: demo_script_def output_names_def default_port_def port_type_def string_schema_def schema_type_def)
qed

section \<open>Resuming\<close>

text \<open>Resuming a checkpoint gives back the run it was taken from: outputs, sessions, trace, live
  output, memo and tokens are those saved, the scheduler has exactly the saved nodes complete
  and nothing leased, and the loop counters are those of the workflow's own edges.\<close>

theorem resume_restores:
  assumes "wf_spec sp" and "map nd_id (wf_nodes (xv_wf env)) = fs_nodes sp"
    and "xs_completed x \<subseteq> set (fs_nodes sp)" and "resume_conf env sp (snapshot_of x lc) = Inr c"
  shows "cf_x c = x\<lparr>xs_step := length (xs_stack x)\<rparr> \<and> cf_counts c = lc |` set (xv_ids env) \<and>
    dom (fr_completed (cf_front c)) = xs_completed x \<and> fr_running (cf_front c) = {} \<and> cf_batch c = []"
proof -
  note st = resume_state [OF assms(1,2) _ assms(4)]
  have sub: "sn_completed (snapshot_of x lc) \<subseteq> set (fs_nodes sp)" using assms(3) by (simp add: snapshot_of_def)
  show ?thesis
    using st(2,4,5,6,9) [OF sub] by (auto simp: snapshot_of_def restored_counts_def split: if_splits)
qed

lemma demo_paused_facts:
  "cf_counts demo_paused = Map.empty" "xs_completed (cf_x demo_paused) = {}"
  by (simp_all add: demo_paused_def demo_waiting_def start_conf_def save_def)

lemma demo_resume:
  "\<exists>c. resume_conf demo_pause demo_spec (snapshot_of (cf_x demo_paused) (cf_counts demo_paused)) = Inr c"
proof -
  let ?sn = "snapshot_of (cf_x demo_paused) (cf_counts demo_paused)"
  have "sn_counts ?sn = Map.empty" "sn_completed ?sn = {}" by (simp_all add: snapshot_of_def demo_paused_facts)
  moreover from this have "still_looping demo_pause ?sn = (\<lambda>x. None)" by (simp add: still_looping_def fun_eq_iff)
  then have none: "first_err (map (still_looping demo_pause ?sn) es) = None" for es by (induction es) simp_all
  ultimately show ?thesis unfolding resume_conf_def none by simp
qed

lemma resume_restores_witness:
  "\<exists>c. resume_conf demo_pause demo_spec (snapshot_of (cf_x demo_paused) (cf_counts demo_paused)) = Inr c \<and>
     xs_outputs (cf_x c) = xs_outputs (cf_x demo_paused)"
proof -
  obtain c where c: "resume_conf demo_pause demo_spec (snapshot_of (cf_x demo_paused) (cf_counts demo_paused)) = Inr c"
    using demo_resume by blast
  have nodes: "map nd_id (wf_nodes (xv_wf demo_pause)) = fs_nodes demo_spec"
    by (simp add: demo_pause_def demo_person_def demo_script_def demo_spec_def)
  have "xs_completed (cf_x demo_paused) \<subseteq> set (fs_nodes demo_spec)"
    by (simp add: demo_paused_facts)
  from resume_restores [OF wf_demo nodes this c] c show ?thesis by auto
qed

text \<open>C21. A resumed run ends too, under the bound the remaining loop budget gives, never deadlocks,
  and what it calls completed stays what the scheduler committed.\<close>

theorem resumed_run_terminates:
  assumes "wf_spec sp" and "map nd_id (wf_nodes (xv_wf env)) = fs_nodes sp"
    and "sn_completed sn \<subseteq> set (fs_nodes sp)" and "resume_conf env sp sn = Inr c0"
    and "trace (exec_step env sp) c0 es c"
  shows "length es \<le> exec_work env sp (budget sp (cf_counts c0)) c0 \<and>
    ((\<exists>e c'. exec_step env sp c e c') \<longleftrightarrow> cf_status c = Running) \<and>
    xs_completed (cf_x c) = dom (fr_completed (cf_front c))"
proof -
  note ok = resume_ok [OF assms(1-4)]
  have "exec_inv env sp (budget sp (cf_counts c0)) c" by (rule exec.trace_inv [OF assms(5) ok(1)])
  moreover have "mirrored sp c" by (rule trace_keeps [where P = "mirrored sp", OF assms(5) ok(2)]) (rule mirrored_step)
  ultimately show ?thesis
    using trace_length [OF assms(5) ok(1)] exec_progress exec_step_running by (fastforce simp: mirrored_def)
qed

lemma resumed_run_terminates_witness:
  "\<exists>c. resume_conf demo_pause demo_spec (snapshot_of (cf_x demo_paused) (cf_counts demo_paused)) = Inr c \<and>
     (\<exists>e c'. exec_step demo_pause demo_spec c e c')"
proof -
  let ?sn = "snapshot_of (cf_x demo_paused) (cf_counts demo_paused)"
  obtain c where c: "resume_conf demo_pause demo_spec ?sn = Inr c" using demo_resume by blast
  have nodes: "map nd_id (wf_nodes (xv_wf demo_pause)) = fs_nodes demo_spec"
    by (simp add: demo_pause_def demo_person_def demo_script_def demo_spec_def)
  have sub: "sn_completed ?sn \<subseteq> set (fs_nodes demo_spec)"
    by (simp add: snapshot_of_def demo_paused_facts)
  have "cf_status c = Running" by (rule resume_state(8) [OF wf_demo nodes sub c])
  then show ?thesis using resumed_run_terminates [OF wf_demo nodes sub c trace_nil] c by blast
qed

end
