(* ===== verification/Checkpoint.thy ===== *)
theory Checkpoint
  imports Exec_Effects "HOL-Library.Sublist"
begin

text \<open>
  Checkpoints: \<open>flow/checkpoint.py\<close> and the restoring part of \<open>execute\<close>. A snapshot is a JSON
  document; the definition it belongs to is pinned by a contract of digests, checked before
  anything is restored. The store writes a document to a temporary file and renames it. A file
  holds a document or a part of one: that JSON text reads back as the document it was written
  from is the library's part. A file name is what the code writes, not what a file system may
  make of it.
\<close>

section \<open>The contract\<close>

definition contract_hash :: "(string \<Rightarrow> string) \<Rightarrow> pyval \<Rightarrow> pyexc + string" where
  "contract_hash sha v = (if has_nan v then Inl ValueError else Inr (sha (json_dumps False '','' '':'' v)))"

definition item_of :: "string \<Rightarrow> pyval \<Rightarrow> pyexc + pyval" where
  "item_of k v =
     (case v of VDict d \<Rightarrow> (case map_of d k of None \<Rightarrow> Inl KeyError | Some x \<Rightarrow> Inr x) | _ \<Rightarrow> Inl TypeError)"

definition node_shape :: "pyval \<Rightarrow> pyexc + pyval" where
  "node_shape n =
     raise_bind (raise_map (\<lambda>k. raise_bind (item_of k n) (\<lambda>x. Inr (k, x))) [''id'', ''type'', ''input_ports'', ''output_ports''])
       (\<lambda>d. Inr (VDict d))"

definition node_version :: "(string \<Rightarrow> string) \<Rightarrow> pyval \<Rightarrow> pyexc + string \<times> pyval" where
  "node_version sha n =
     raise_bind (item_of ''id'' n) (\<lambda>i. case i of
         VStr s \<Rightarrow> raise_bind (contract_hash sha n) (\<lambda>h. Inr (s, VStr h))
       | _ \<Rightarrow> Inl TypeError)"

definition checkpoint_contract :: "(string \<Rightarrow> string) \<Rightarrow> pyval \<Rightarrow> pyexc + ports" where
  "checkpoint_contract sha definition =
     raise_bind (item_of ''nodes'' definition) (\<lambda>ns.
       (case (definition, ns) of
          (VDict d, VList nodes) \<Rightarrow>
            raise_bind (raise_map node_shape nodes) (\<lambda>shapes.
            raise_bind (contract_hash sha (VDict (filter (\<lambda>(k, v). k \<noteq> ''nodes'') d @ [(''nodes'', VList shapes)]))) (\<lambda>graph.
            raise_bind (raise_map (node_version sha) nodes) (\<lambda>versions.
              Inr [(''format'', VStr ''xdog.flow.checkpoint.v1''), (''graph'', VStr graph),
                   (''nodes'', VDict (dict_of versions))])))
        | _ \<Rightarrow> Inl TypeError))"

text \<open>The nodes whose computation the checkpoint carries: completed, with outputs, or in the trace.\<close>

definition computed_nodes :: "pyval list \<Rightarrow> ports \<Rightarrow> pyval list \<Rightarrow> pyval list" where
  "computed_nodes completed outputs frames =
     completed @ map VStr (filter (\<lambda>k. k \<noteq> IN_NODE_ID) (map fst outputs)) @
     concat (map (\<lambda>f. case f of VDict d \<Rightarrow> [case map_of d ''node'' of None \<Rightarrow> VNone | Some v \<Rightarrow> v] | _ \<Rightarrow> []) frames)"

definition node_changed :: "ports \<Rightarrow> ports \<Rightarrow> pyval \<Rightarrow> bool" where
  "node_changed actual versions v =
     (case v of VStr s \<Rightarrow> map_of versions s = None \<or> map_of actual s \<noteq> map_of versions s | _ \<Rightarrow> True)"

definition validate_checkpoint_contract :: "ports \<Rightarrow> ports \<Rightarrow> pyexc option" where
  "validate_checkpoint_contract snap expected =
     (case map_of snap ''contract'' of
        Some (VDict actual) \<Rightarrow>
          if map_of actual ''format'' \<noteq> map_of expected ''format'' \<or> map_of actual ''graph'' \<noteq> map_of expected ''graph''
          then Some ValueError
          else (case (map_of actual ''nodes'', map_of snap ''completed'', map_of expected ''nodes'',
                      map_of snap ''outputs'', map_of snap ''stack'') of
                  (Some (VDict pinned), Some (VList completed), Some (VDict versions), Some (VDict outputs), Some (VList frames)) \<Rightarrow>
                    raise_if (\<exists>v \<in> set (computed_nodes completed outputs frames). node_changed pinned versions v) ValueError
                | _ \<Rightarrow> Some ValueError)
      | _ \<Rightarrow> Some ValueError)"

section \<open>Writing a snapshot down\<close>

definition frame_dict :: "frame \<Rightarrow> ports" where
  "frame_dict f = [(''step'', VInt (int (tf_step f))), (''node'', VStr (tf_node f)), (''in'', VDict (tf_in f)), (''out'', VDict (tf_out f))]"

definition nested :: "(string \<times> ports) list \<Rightarrow> pyval" where
  "nested d = VDict (map (\<lambda>(k, v). (k, VDict v)) d)"

text \<open>\<open>order\<close> is the order in which the set of completed nodes is listed.\<close>

definition snapshot_dict :: "ports \<Rightarrow> edge_id list \<Rightarrow> node_id list \<Rightarrow> snapshot \<Rightarrow> ports" where
  "snapshot_dict contract ids order sn =
     [(''contract'', VDict contract), (''outputs'', nested (sn_outputs sn)), (''sessions'', nested (sn_sessions sn)),
      (''completed'', VList (map VStr order)),
      (''loop_counters'', VDict (concat (map (\<lambda>i. case sn_counts sn i of None \<Rightarrow> [] | Some k \<Rightarrow> [(i, VInt k)]) ids))),
      (''stack'', VList (map (\<lambda>f. VDict (frame_dict f)) (sn_stack sn))), (''out_live'', VDict (sn_live sn)),
      (''memo'', nested (sn_memo sn)), (''tokens_used'', VInt (sn_tokens sn))]"

section \<open>Restoring one\<close>

text \<open>What the run continues with; the frames stay the raw dicts they were saved as.\<close>

record restored =
  rs_outputs :: store
  rs_sessions :: "(node_id \<times> ports) list"
  rs_completed :: "node_id set"
  rs_counts :: counters
  rs_stack :: "ports list"
  rs_live :: ports
  rs_memo :: "(string \<times> ports) list"
  rs_tokens :: int

definition snapshot_keys :: "string list" where
  "snapshot_keys = [''contract'', ''outputs'', ''completed'', ''loop_counters'', ''stack'', ''out_live'', ''memo'',
     ''tokens_used'', ''sessions'']"

definition dict_values :: "ports \<Rightarrow> (string \<times> ports) list" where
  "dict_values d = concat (map (\<lambda>(k, v). case v of VDict e \<Rightarrow> [(k, e)] | _ \<Rightarrow> []) d)"

text \<open>\<open>isinstance(count, int)\<close> holds of a bool too.\<close>

definition int_value :: "pyval \<Rightarrow> int option" where
  "int_value v = (case v of VInt k \<Rightarrow> Some k | VBool b \<Rightarrow> Some (if b then 1 else 0) | _ \<Rightarrow> None)"

definition counts_of :: "edge_id list \<Rightarrow> ports \<Rightarrow> counters" where
  "counts_of ids d = (\<lambda>i. if i \<in> set ids then (case map_of d i of None \<Rightarrow> None | Some v \<Rightarrow> int_value v) else None)"

definition node_names :: "pyval list \<Rightarrow> node_id list" where
  "node_names vs = concat (map (\<lambda>v. case v of VStr s \<Rightarrow> [s] | _ \<Rightarrow> []) vs)"

definition restore_fields :: "edge_id list \<Rightarrow> ports \<Rightarrow> pyexc + restored" where
  "restore_fields ids snap =
     (case (map_of snap ''outputs'', map_of snap ''sessions'', map_of snap ''completed'', map_of snap ''loop_counters'',
            map_of snap ''stack'', map_of snap ''out_live'', map_of snap ''memo'', map_of snap ''tokens_used'') of
        (Some (VDict out), Some (VDict ses), Some (VList done_nodes), Some (VDict lc), Some (VList frames), Some (VDict shown),
         Some (VDict mem), Some tok) \<Rightarrow>
          (case int_value tok of None \<Rightarrow> Inl ExecutionError
           | Some t \<Rightarrow>
              Inr \<lparr>rs_outputs = dict_values out, rs_sessions = dict_values ses, rs_completed = set (node_names done_nodes),
                   rs_counts = counts_of ids lc,
                   rs_stack = concat (map (\<lambda>f. case f of VDict d \<Rightarrow> [d] | _ \<Rightarrow> []) frames),
                   rs_live = shown, rs_memo = dict_values mem, rs_tokens = t\<rparr>)
      | _ \<Rightarrow> Inl ExecutionError)"

text \<open>The checks in their order; the contract's \<open>ValueError\<close> is re-raised as a run error.\<close>

definition restore_checkpoint :: "edge_id list \<Rightarrow> bool \<Rightarrow> ports \<Rightarrow> ports \<Rightarrow> ports \<Rightarrow> pyexc + restored" where
  "restore_checkpoint ids given seed contract snap =
     (if set (map fst snap) \<noteq> set snapshot_keys then Inl ExecutionError
      else (case map_of snap ''outputs'' of
              Some (VDict out) \<Rightarrow>
                if given \<and> \<not> (case map_of out IN_NODE_ID of None \<Rightarrow> False | Some v \<Rightarrow> py_eq v (VDict seed))
                then Inl ExecutionError
                else (case validate_checkpoint_contract snap contract of
                        Some e \<Rightarrow> Inl ExecutionError
                      | None \<Rightarrow> restore_fields ids snap)
            | _ \<Rightarrow> Inl ExecutionError))"

section \<open>The file store\<close>

datatype document = Whole pyval | Part nat

type_synonym files = "string \<rightharpoonup> document"

definition checkpoint_file :: "string \<Rightarrow> string" where
  "checkpoint_file run_id = run_id @ ''.json''"

definition load_checkpoint :: "files \<Rightarrow> string \<Rightarrow> pyexc + pyval option" where
  "load_checkpoint fs run_id =
     (case fs (checkpoint_file run_id) of
        None \<Rightarrow> Inr None
      | Some (Whole v) \<Rightarrow> Inr (Some v)
      | Some (Part k) \<Rightarrow> Inl ValueError)"

text \<open>\<open>save\<close>, one file-system operation at a time, so that a crash can fall between any two.
  The temporary name is new and does not end in \<open>.json\<close>, as \<open>mkstemp\<close> with suffix \<open>.tmp\<close> gives it.
  A write or rename that raises removes the temporary file, or leaves it when the removal raises too.\<close>

datatype save_phase = Opening | Writing string | Replaced | Cleaned | Stranded string

datatype save_event = Open string | Write nat | Finish | Rename | Abort | Strand

inductive save_step :: "string \<Rightarrow> pyval \<Rightarrow> files \<times> save_phase \<Rightarrow> save_event \<Rightarrow> files \<times> save_phase \<Rightarrow> bool"
  for run_id :: string and v :: pyval where
  save_open: "tmp \<notin> dom fs \<Longrightarrow> suffix ''.tmp'' tmp \<Longrightarrow>
    save_step run_id v (fs, Opening) (Open tmp) (fs(tmp \<mapsto> Part 0), Writing tmp)"
| save_write: "save_step run_id v (fs, Writing tmp) (Write k) (fs(tmp \<mapsto> Part k), Writing tmp)"
| save_finish: "save_step run_id v (fs, Writing tmp) Finish (fs(tmp \<mapsto> Whole v), Writing tmp)"
| save_rename: "fs tmp = Some (Whole v) \<Longrightarrow>
    save_step run_id v (fs, Writing tmp) Rename ((fs(checkpoint_file run_id \<mapsto> Whole v))(tmp := None), Replaced)"
| save_abort: "save_step run_id v (fs, Writing tmp) Abort (fs(tmp := None), Cleaned)"
| save_strand: "save_step run_id v (fs, Writing tmp) Strand (fs, Stranded tmp)"

text \<open>The whole of a save that is not interrupted.\<close>

definition save_checkpoint :: "string \<Rightarrow> pyval \<Rightarrow> files \<Rightarrow> files" where
  "save_checkpoint run_id v fs = fs(checkpoint_file run_id \<mapsto> Whole v)"

section \<open>The store protocol\<close>

locale checkpoint_store =
  fixes save :: "string \<Rightarrow> pyval \<Rightarrow> 's \<Rightarrow> 's"
    and load :: "'s \<Rightarrow> string \<Rightarrow> pyexc + pyval option"
  assumes load_saved: "load (save r v s) r = Inr (Some v)"
    and load_other: "r \<noteq> r' \<Longrightarrow> load (save r v s) r' = load s r'"
begin

lemma load_last:
  "load (fold (\<lambda>(r, v). save r v) ops s) r =
     (case map_of (rev ops) r of None \<Rightarrow> load s r | Some v \<Rightarrow> Inr (Some v))"
proof (induction ops arbitrary: s)
  case (Cons op ops)
  obtain r' v where op: "op = (r', v)" by (cases op)
  show ?case
    using load_saved [of r v s] load_other [of r' r v s] by (cases "r' = r") (auto simp: op Cons.IH map_add_def split: option.splits)
qed simp

end

lemma checkpoint_file_inj: "checkpoint_file r = checkpoint_file r' \<longleftrightarrow> r = r'"
  by (simp add: checkpoint_file_def)

interpretation files: checkpoint_store save_checkpoint load_checkpoint
  by unfold_locales (auto simp: save_checkpoint_def load_checkpoint_def checkpoint_file_inj)

end
