(* ===== verification/Checkpoint_Facts.thy ===== *)
theory Checkpoint_Facts
  imports Checkpoint
begin

text \<open>
  The contract of an unchanged definition is accepted, a snapshot written down and restored is the
  same snapshot, and an interrupted save leaves a whole document.
\<close>

section \<open>Contracts\<close>

definition contract_nodes :: "ports \<Rightarrow> node_id set" where
  "contract_nodes c = (case map_of c ''nodes'' of Some (VDict vs) \<Rightarrow> fst ` set vs | _ \<Rightarrow> {})"

lemma checkpoint_contractE:
  assumes "checkpoint_contract sha d = Inr c"
  obtains graph vs nodes where
    "c = [(''format'', VStr ''xdog.flow.checkpoint.v1''), (''graph'', VStr graph), (''nodes'', VDict (dict_of vs))]"
    and "item_of ''nodes'' d = Inr (VList nodes)" and "raise_map (node_version sha) nodes = Inr vs"
proof -
  obtain ns where ns: "item_of ''nodes'' d = Inr ns"
    "(case (d, ns) of
        (VDict d', VList nodes) \<Rightarrow>
          raise_bind (raise_map node_shape nodes) (\<lambda>shapes.
          raise_bind (contract_hash sha (VDict (filter (\<lambda>(k, v). k \<noteq> ''nodes'') d' @ [(''nodes'', VList shapes)]))) (\<lambda>graph.
          raise_bind (raise_map (node_version sha) nodes) (\<lambda>versions.
            Inr [(''format'', VStr ''xdog.flow.checkpoint.v1''), (''graph'', VStr graph),
                 (''nodes'', VDict (dict_of versions))])))
      | _ \<Rightarrow> Inl TypeError) = Inr c"
    using assms unfolding checkpoint_contract_def raise_bind_Inr_iff by blast
  obtain d' where d': "d = VDict d'" using ns(2) by (cases d) simp_all
  obtain nodes where nodes: "ns = VList nodes" using ns(2) d' by (cases ns) simp_all
  show ?thesis using ns that unfolding d' nodes by (auto simp: raise_bind_Inr_iff)
qed

definition computed_in :: "snapshot \<Rightarrow> node_id set" where
  "computed_in sn = sn_completed sn \<union> (fst ` set (sn_outputs sn) - {IN_NODE_ID}) \<union> tf_node ` set (sn_stack sn)"

lemma nested_names [simp]: "map fst (map (\<lambda>(k, v). (k, VDict v)) d) = map fst d"
  by (induction d) auto

lemma computed_nodes_snapshot:
  "set (computed_nodes (map VStr order) (map (\<lambda>(k, v). (k, VDict v)) out) (map (\<lambda>f. VDict (frame_dict f)) st)) =
     VStr ` (set order \<union> (fst ` set out - {IN_NODE_ID}) \<union> tf_node ` set st)"
proof -
  have frames: "concat (map (\<lambda>f. case f of VDict d \<Rightarrow> [case map_of d ''node'' of None \<Rightarrow> VNone | Some v \<Rightarrow> v] | _ \<Rightarrow> [])
      (map (\<lambda>f. VDict (frame_dict f)) st)) = map (\<lambda>f. VStr (tf_node f)) st"
    by (induction st) (simp_all add: frame_dict_def)
  show ?thesis unfolding computed_nodes_def frames nested_names by auto
qed

lemma snapshot_dict_items:
  "map_of (snapshot_dict c ids order sn) ''contract'' = Some (VDict c)"
  "map_of (snapshot_dict c ids order sn) ''outputs'' = Some (nested (sn_outputs sn))"
  "map_of (snapshot_dict c ids order sn) ''sessions'' = Some (nested (sn_sessions sn))"
  "map_of (snapshot_dict c ids order sn) ''completed'' = Some (VList (map VStr order))"
  "map_of (snapshot_dict c ids order sn) ''loop_counters'' =
     Some (VDict (concat (map (\<lambda>i. case sn_counts sn i of None \<Rightarrow> [] | Some k \<Rightarrow> [(i, VInt k)]) ids)))"
  "map_of (snapshot_dict c ids order sn) ''stack'' = Some (VList (map (\<lambda>f. VDict (frame_dict f)) (sn_stack sn)))"
  "map_of (snapshot_dict c ids order sn) ''out_live'' = Some (VDict (sn_live sn))"
  "map_of (snapshot_dict c ids order sn) ''memo'' = Some (nested (sn_memo sn))"
  "map_of (snapshot_dict c ids order sn) ''tokens_used'' = Some (VInt (sn_tokens sn))"
  "set (map fst (snapshot_dict c ids order sn)) = set snapshot_keys"
  by (simp_all add: snapshot_dict_def snapshot_keys_def) auto

lemma own_contract_accepted:
  assumes "checkpoint_contract sha d = Inr c" and "set order = sn_completed sn" and "computed_in sn \<subseteq> contract_nodes c"
  shows "validate_checkpoint_contract (snapshot_dict c ids order sn) c = None"
proof -
  obtain graph vs nodes where c: "c = [(''format'', VStr ''xdog.flow.checkpoint.v1''), (''graph'', VStr graph), (''nodes'', VDict (dict_of vs))]"
    using checkpoint_contractE [OF assms(1)] by blast
  have names: "contract_nodes c = fst ` set (dict_of vs)" by (simp add: contract_nodes_def c)
  have "\<not> node_changed (dict_of vs) (dict_of vs) (VStr s)" if "s \<in> computed_in sn" for s
  proof -
    have "s \<in> fst ` set (dict_of vs)" using assms(3) that names by blast
    then show ?thesis by (simp add: node_changed_def map_of_eq_None_iff)
  qed
  then have "\<not> (\<exists>v \<in> set (computed_nodes (map VStr order) (map (\<lambda>(k, v). (k, VDict v)) (sn_outputs sn))
      (map (\<lambda>f. VDict (frame_dict f)) (sn_stack sn))). node_changed (dict_of vs) (dict_of vs) v)"
    unfolding computed_nodes_snapshot assms(2) computed_in_def by blast
  then show ?thesis
    unfolding validate_checkpoint_contract_def snapshot_dict_items nested_def by (simp add: c)
qed

section \<open>The round trip\<close>

lemma dict_values_nested [simp]: "dict_values (map (\<lambda>(k, v). (k, VDict v)) d) = d"
  unfolding dict_values_def by (induction d) auto

lemma node_names_VStr [simp]: "node_names (map VStr ns) = ns"
  unfolding node_names_def by (induction ns) auto

lemma raw_frames:
  "concat (map (\<lambda>f. case f of VDict d \<Rightarrow> [d] | _ \<Rightarrow> []) (map (\<lambda>f. VDict (frame_dict f)) st)) = map frame_dict st"
  by (induction st) auto

lemma map_of_counts:
  "map_of (concat (map (\<lambda>i. case lc i of None \<Rightarrow> [] | Some k \<Rightarrow> [(i, VInt k)]) ids)) j =
     (if j \<in> set ids then map_option VInt (lc j) else None)"
  by (induction ids) (auto split: option.splits)

lemma counts_of_counts:
  assumes "dom lc \<subseteq> set ids"
  shows "counts_of ids (concat (map (\<lambda>i. case lc i of None \<Rightarrow> [] | Some k \<Rightarrow> [(i, VInt k)]) ids)) = lc"
proof
  fix j
  show "counts_of ids (concat (map (\<lambda>i. case lc i of None \<Rightarrow> [] | Some k \<Rightarrow> [(i, VInt k)]) ids)) j = lc j"
    using assms by (cases "lc j") (auto simp: counts_of_def map_of_counts int_value_def)
qed

definition restored_of :: "snapshot \<Rightarrow> restored" where
  "restored_of sn =
     \<lparr>rs_outputs = sn_outputs sn, rs_sessions = sn_sessions sn, rs_completed = sn_completed sn, rs_counts = sn_counts sn,
      rs_stack = map frame_dict (sn_stack sn), rs_live = sn_live sn, rs_memo = sn_memo sn, rs_tokens = sn_tokens sn\<rparr>"

lemma restore_snapshot:
  assumes c: "checkpoint_contract sha d = Inr c" and order: "set order = sn_completed sn" and nodes: "computed_in sn \<subseteq> contract_nodes c"
    and counts: "dom (sn_counts sn) \<subseteq> set ids"
    and seed: "given \<longrightarrow> (\<exists>p. map_of (sn_outputs sn) IN_NODE_ID = Some p \<and> py_eq (VDict p) (VDict seed))"
  shows "restore_checkpoint ids given seed c (snapshot_dict c ids order sn) = Inr (restored_of sn)"
proof -
  have "map_of (map (\<lambda>(k, v). (k, VDict v)) (sn_outputs sn)) IN_NODE_ID = map_option VDict (map_of (sn_outputs sn) IN_NODE_ID)"
    by (simp add: map_of_map)
  then have seeded: "\<not> (given \<and> \<not> (case map_of (map (\<lambda>(k, v). (k, VDict v)) (sn_outputs sn)) IN_NODE_ID of
      None \<Rightarrow> False | Some v \<Rightarrow> py_eq v (VDict seed)))" using seed by auto
  have fields: "restore_fields ids (snapshot_dict c ids order sn) = Inr (restored_of sn)"
    unfolding restore_fields_def snapshot_dict_items nested_def option.case pyval.case prod.case raw_frames
    by (simp add: restored_of_def int_value_def counts_of_counts [OF counts] order)
  show ?thesis
    unfolding restore_checkpoint_def snapshot_dict_items own_contract_accepted [OF c order nodes] fields nested_def
    using seeded by simp
qed

text \<open>Nothing is lost: two snapshots restored alike are the same snapshot.\<close>

lemma frame_dict_inj: "frame_dict f = frame_dict g \<Longrightarrow> f = g"
  by (intro frame.equality) (simp_all add: frame_dict_def)

lemma restored_of_inj:
  assumes "restored_of a = restored_of b"
  shows "a = b"
proof -
  have "inj frame_dict" by (rule injI) (rule frame_dict_inj)
  moreover have "map frame_dict (sn_stack a) = map frame_dict (sn_stack b)" using assms by (simp add: restored_of_def)
  ultimately have "sn_stack a = sn_stack b" by (simp only: inj_map_eq_map)
  then show ?thesis using assms by (intro snapshot.equality) (simp_all add: restored_of_def)
qed

section \<open>A save that is interrupted\<close>

lemma tmp_not_json: "suffix ''.tmp'' tmp \<Longrightarrow> tmp \<noteq> checkpoint_file r"
  by (auto simp: suffix_def checkpoint_file_def)

definition save_inv :: "string \<Rightarrow> pyval \<Rightarrow> files \<Rightarrow> files \<times> save_phase \<Rightarrow> bool" where
  "save_inv r v fs s \<longleftrightarrow>
     (case snd s of
        Opening \<Rightarrow> fst s = fs
      | Writing tmp \<Rightarrow> tmp \<notin> dom fs \<and> suffix ''.tmp'' tmp \<and> (\<exists>x. fst s = fs(tmp \<mapsto> x))
      | Replaced \<Rightarrow> fst s = save_checkpoint r v fs
      | Cleaned \<Rightarrow> fst s = fs
      | Stranded tmp \<Rightarrow> tmp \<notin> dom fs \<and> suffix ''.tmp'' tmp \<and> (\<exists>x. fst s = fs(tmp \<mapsto> x)))"

inductive_cases save_stepE: "save_step r v (fs, ph) e s'"

lemma save_inv_step: "save_step r v s e s' \<Longrightarrow> save_inv r v fs s \<Longrightarrow> save_inv r v fs s'"
proof (induction rule: save_step.induct)
  case (save_rename fs1 tmp)
  then have "tmp \<notin> dom fs" "suffix ''.tmp'' tmp" "\<exists>x. fs1 = fs(tmp \<mapsto> x)" by (auto simp: save_inv_def)
  then show ?case using tmp_not_json [of tmp r] by (auto simp: save_inv_def save_checkpoint_def fun_eq_iff domIff)
qed (auto simp: save_inv_def fun_eq_iff domIff)

lemma save_atomic:
  assumes "trace (save_step r v) (fs, Opening) es (fs', ph)"
  shows "(load_checkpoint fs' r = load_checkpoint fs r \<or> load_checkpoint fs' r = Inr (Some v)) \<and>
    (\<forall>r'. r' \<noteq> r \<longrightarrow> load_checkpoint fs' r' = load_checkpoint fs r') \<and>
    (ph = Replaced \<longrightarrow> fs' = save_checkpoint r v fs) \<and> (ph = Cleaned \<longrightarrow> fs' = fs) \<and>
    (\<forall>tmp. ph = Stranded tmp \<longrightarrow> fs'(tmp := None) = fs)"
proof -
  have inv: "save_inv r v fs (fs', ph)"
    by (rule trace_keeps [where P = "save_inv r v fs", OF assms _ save_inv_step]) (simp_all add: save_inv_def)
  show ?thesis
  proof (cases ph)
    case (Writing tmp)
    then obtain x where "fs' = fs(tmp \<mapsto> x)" "suffix ''.tmp'' tmp" using inv by (auto simp: save_inv_def)
    then show ?thesis using Writing tmp_not_json [of tmp, symmetric] by (simp add: load_checkpoint_def)
  next
    case (Stranded tmp)
    then obtain x where x: "fs' = fs(tmp \<mapsto> x)" "suffix ''.tmp'' tmp" "tmp \<notin> dom fs" using inv by (auto simp: save_inv_def)
    then have "fs'(tmp := None) = fs" by (auto simp: fun_eq_iff domIff)
    then show ?thesis using Stranded x(1,2) tmp_not_json [of tmp, symmetric] by (simp add: load_checkpoint_def)
  qed (use inv files.load_saved files.load_other in \<open>simp_all add: save_inv_def\<close>)
qed

section \<open>What a contract pins\<close>

lemma node_versionE:
  assumes "raise_map (node_version sha) nodes = Inr vs" and "map_of (dict_of vs) s = Some h"
  shows "\<exists>n \<in> set nodes. item_of ''id'' n = Inr (VStr s) \<and> (\<exists>t. contract_hash sha n = Inr t \<and> h = VStr t)"
proof -
  have "(s, h) \<in> set (dict_of vs)" using assms(2) by (rule map_of_SomeD)
  moreover have "set (fold (\<lambda>(k, v) d. AList.update k v d) ps d) \<subseteq> set ps \<union> set d" for ps and d :: ports
  proof (induction ps arbitrary: d)
    case (Cons p ps)
    obtain k v where p: "p = (k, v)" by (cases p)
    have "set (AList.update k v d) \<subseteq> insert (k, v) (set d)" by (induction d) auto
    then show ?case using Cons.IH [of "AList.update k v d"] by (auto simp: p)
  qed simp
  ultimately have "(s, h) \<in> set vs" unfolding dict_of_def by fastforce
  then obtain n where "n \<in> set nodes" "node_version sha n = Inr (s, h)" using raise_map_Inr_set [OF assms(1)] by blast
  then obtain i where i: "n \<in> set nodes" "item_of ''id'' n = Inr i"
    "(case i of VStr s \<Rightarrow> raise_bind (contract_hash sha n) (\<lambda>h. Inr (s, VStr h)) | _ \<Rightarrow> Inl TypeError) = Inr (s, h)"
    unfolding node_version_def raise_bind_Inr_iff by blast
  obtain t where t: "i = VStr t" using i(3) by (cases i) simp_all
  show ?thesis using i unfolding t by (auto simp: raise_bind_Inr_iff)
qed

lemma accepted_contract:
  assumes old: "checkpoint_contract sha d = Inr c" and new: "checkpoint_contract sha d' = Inr c'"
    and ok: "validate_checkpoint_contract (snapshot_dict c ids order sn) c' = None" and order: "set order = sn_completed sn"
  shows "map_of c ''graph'' = map_of c' ''graph''"
    and "s \<in> computed_in sn \<Longrightarrow> \<exists>nodes nodes' n n' h. item_of ''nodes'' d = Inr (VList nodes) \<and> item_of ''nodes'' d' = Inr (VList nodes') \<and>
      n \<in> set nodes \<and> n' \<in> set nodes' \<and> item_of ''id'' n = Inr (VStr s) \<and> item_of ''id'' n' = Inr (VStr s) \<and>
      contract_hash sha n = Inr h \<and> contract_hash sha n' = Inr h"
proof -
  obtain graph vs nodes where c: "c = [(''format'', VStr ''xdog.flow.checkpoint.v1''), (''graph'', VStr graph), (''nodes'', VDict (dict_of vs))]"
    "item_of ''nodes'' d = Inr (VList nodes)" "raise_map (node_version sha) nodes = Inr vs"
    using checkpoint_contractE [OF old] by blast
  obtain graph' vs' nodes' where c': "c' = [(''format'', VStr ''xdog.flow.checkpoint.v1''), (''graph'', VStr graph'), (''nodes'', VDict (dict_of vs'))]"
    "item_of ''nodes'' d' = Inr (VList nodes')" "raise_map (node_version sha) nodes' = Inr vs'"
    using checkpoint_contractE [OF new] by blast
  have eq: "graph = graph' \<and> (\<forall>v \<in> VStr ` computed_in sn. \<not> node_changed (dict_of vs) (dict_of vs') v)"
    using ok unfolding validate_checkpoint_contract_def snapshot_dict_items nested_def c(1) c'(1)
    by (simp add: computed_nodes_snapshot order computed_in_def split: if_splits) 
  show "map_of c ''graph'' = map_of c' ''graph''" using eq by (simp add: c(1) c'(1))
  assume "s \<in> computed_in sn"
  then have "\<not> node_changed (dict_of vs) (dict_of vs') (VStr s)" using eq by blast
  then obtain h where h: "map_of (dict_of vs) s = Some h" "map_of (dict_of vs') s = Some h"
    by (auto simp: node_changed_def)
  show "\<exists>nodes nodes' n n' h. item_of ''nodes'' d = Inr (VList nodes) \<and> item_of ''nodes'' d' = Inr (VList nodes') \<and>
      n \<in> set nodes \<and> n' \<in> set nodes' \<and> item_of ''id'' n = Inr (VStr s) \<and> item_of ''id'' n' = Inr (VStr s) \<and>
      contract_hash sha n = Inr h \<and> contract_hash sha n' = Inr h"
    using node_versionE [OF c(3) h(1)] node_versionE [OF c'(3) h(2)] c(2) c'(2) by fastforce
qed

end
