(* ===== verification/Exec_Own.thy ===== *)
theory Exec_Own
  imports Exec_Effects
begin

text \<open>
  Activations of a batch interleave and share one store; each writes its own node's ports and
  session only, so what another activation reads of a finished node does not depend on the
  schedule.
\<close>

section \<open>Own ports only\<close>

definition own :: "node_id \<Rightarrow> xstate \<Rightarrow> xstate \<Rightarrow> bool" where
  "own i x x' \<longleftrightarrow>
     (\<forall>j. j \<noteq> i \<longrightarrow> map_of (xs_outputs x') j = map_of (xs_outputs x) j \<and> map_of (xs_sessions x') j = map_of (xs_sessions x) j)"

definition own_ports :: "node_id \<Rightarrow> store \<Rightarrow> store \<Rightarrow> bool" where
  "own_ports i out out' \<longleftrightarrow> (\<forall>j. j \<noteq> i \<longrightarrow> map_of out' j = map_of out j)"

lemma own_refl [simp]: "own i x x" "own_ports i out out"
  by (simp_all add: own_def own_ports_def)

lemma own_trans: "own i x y \<Longrightarrow> own i y z \<Longrightarrow> own i x z"
  by (simp add: own_def)

lemma own_ports_trans: "own_ports i a b \<Longrightarrow> own_ports i b c \<Longrightarrow> own_ports i a c"
  by (simp add: own_ports_def)

lemma own_updates [simp]:
  "own_ports i (xs_outputs x) out \<Longrightarrow> own i x (x\<lparr>xs_outputs := out\<rparr>)"
  "own i x (x\<lparr>xs_tokens := t\<rparr>)" "own i x (memoize env n ins x)" "own i x (capture_session i s x)"
  by (auto simp: own_def own_ports_def memoize_def capture_session_def split: option.splits)

lemma own_ports_update [simp]: "own_ports i out (AList.update i ps out)" "own_ports i out (set_port i k v out)"
  by (simp_all add: own_ports_def set_port_def)

lemma own_store_fields: "store_fields loads i ps d out = (out', e) \<Longrightarrow> own_ports i out out'"
proof (induction loads i ps d out rule: store_fields.induct)
  case (2 loads i p ps d out)
  show ?case
  proof (cases "map_of d (port_name p)")
    case (Some v)
    show ?thesis
    proof (cases "to_state loads v (port_type p)")
      case (Inr x)
      then have "store_fields loads i ps d (set_port i (port_name p) x out) = (out', e)" using "2.prems" Some by simp
      from "2.IH" [OF Some Inr this] show ?thesis by (rule own_ports_trans [OF own_ports_update(2)])
    qed (use "2.prems" Some in simp)
  qed (use "2.prems" in simp)
qed simp

lemma own_store_agent:
  assumes "store_agent_output loads n v out = (out', e)"
  shows "own_ports (nd_id n) out out'"
proof (cases "nd_output_ports n = [] \<or> \<not> agent_submits_object n \<or> (\<nexists>d. v = VDict d)")
  case True
  then show ?thesis using assms by (auto simp: store_agent_output_def split: list.splits pyval.splits if_splits)
next
  case False
  then obtain d where "store_fields loads (nd_id n) (nd_output_ports n) d out = (out', e)"
    using assms by (auto simp: store_agent_output_def simp del: store_fields.simps split: list.splits)
  then show ?thesis by (rule own_store_fields)
qed

lemma own_store_script: "own_ports i out (store_script_output i ps out)"
  by (simp add: store_script_output_def)

lemma own_record: "record_frame env i ins step x = (x', e) \<Longrightarrow> own j x x'"
  by (auto simp: record_frame_def own_def Let_def split: prod.splits)

lemma own_end_with_ports: "end_with_ports env i ins step ps t x = (x', e) \<Longrightarrow> own i x x'"
proof -
  assume eq: "end_with_ports env i ins step ps t x = (x', e)"
  obtain y err where y: "record_frame env i ins step (x\<lparr>xs_outputs := AList.update i ps (xs_outputs x)\<rparr>) = (y, err)" by force
  have xy: "own i x y" by (rule own_trans [OF own_updates(1) own_record [OF y]]) simp
  show ?thesis using eq y xy own_trans [OF xy own_updates(2)] by (cases err) (auto simp: end_with_ports_def)
qed

lemma own_end_script: "end_script env n ins step ps x = (x', e) \<Longrightarrow> own (nd_id n) x x'"
proof -
  assume eq: "end_script env n ins step ps x = (x', e)"
  obtain y err where y: "record_frame env (nd_id n) ins step
      (x\<lparr>xs_outputs := store_script_output (nd_id n) ps (xs_outputs x)\<rparr>) = (y, err)" by force
  have "own (nd_id n) x y"
    by (rule own_trans [OF own_updates(1) own_record [OF y]]) (rule own_store_script)
  then show ?thesis
    using eq y own_updates(3) own_trans by (cases err) (auto simp: end_script_def)
qed

lemma own_end_agent: "end_agent env n ins step v t x = (x', e) \<Longrightarrow> own (nd_id n) x x'"
proof -
  assume eq: "end_agent env n ins step v t x = (x', e)"
  obtain out err where out: "store_agent_output (xv_loads env) n v (xs_outputs x) = (out, err)" by force
  note stored = own_store_agent [OF out]
  obtain y err' where y: "record_frame env (nd_id n) ins step (x\<lparr>xs_outputs := out\<rparr>) = (y, err')" by force
  have xy: "own (nd_id n) x y" by (rule own_trans [OF own_updates(1) [OF stored] own_record [OF y]])
  show ?thesis
  proof (cases err)
    case (Some a)
    then show ?thesis using eq out stored by (auto simp: end_agent_def)
  next
    case None
    have "own (nd_id n) y (memoize env n ins (y\<lparr>xs_tokens := xs_tokens y + t\<rparr>))"
      by (rule own_trans [OF own_updates(2) own_updates(3)])
    then show ?thesis using eq out y None xy own_trans [OF xy] by (cases err') (auto simp: end_agent_def)
  qed
qed

lemma own_approve: "approve env n ins step x = (x', e) \<Longrightarrow> own (nd_id n) x x'"
proof -
  assume eq: "approve env n ins step x = (x', e)"
  let ?out = "AList.update (nd_id n) (source_ports (xs_outputs x) (nd_id n)) (xs_outputs x)"
  let ?out' = "case nd_output_ports n of [] \<Rightarrow> ?out | p # _ \<Rightarrow> set_port (nd_id n) (port_name p) (VStr ''approved'') ?out"
  have "own_ports (nd_id n) (xs_outputs x) ?out'"
    using own_ports_trans [OF own_ports_update(1) own_ports_update(2)] by (simp split: list.split)
  then have "own (nd_id n) x (x\<lparr>xs_outputs := ?out'\<rparr>)" by simp
  moreover have "record_frame env (nd_id n) ins step (x\<lparr>xs_outputs := ?out'\<rparr>) = (x', e)"
    using eq by (simp add: approve_def Let_def)
  ultimately show ?thesis using own_trans own_record by blast
qed

lemma own_fan_answers: "fan_answers env n rs x = (x', r) \<Longrightarrow> own (nd_id n) x x'"
proof (induction rs arbitrary: x x' r)
  case (Cons q rs)
  show ?case
  proof (cases "answer_of env n q")
    case (Inl e)
    then show ?thesis using Cons.prems by simp
  next
    case (Inr a)
    show ?thesis
    proof (cases a)
      case (ScriptPorts ps)
      then show ?thesis using Cons Inr by (auto split: prod.splits)
    next
      case (AgentValue v tokens session)
      obtain y rest where y: "fan_answers env n rs (capture_session (nd_id n) session x) = (y, rest)" by force
      have xy: "own (nd_id n) x y" by (rule own_trans [OF own_updates(4) Cons.IH [OF y]])
      show ?thesis
        using Cons.prems Inr AgentValue y xy by (cases "project_agent (xv_loads env) n v") (auto simp: Let_def)
    qed
  qed
qed simp

lemma own_end_fan: "end_fan env n items worker step rs x = (x', e) \<Longrightarrow> own (nd_id n) x x'"
proof -
  assume eq: "end_fan env n items worker step rs x = (x', e)"
  obtain y r where y: "fan_answers env n rs x = (y, r)" by force
  note xy = own_fan_answers [OF y]
  show ?thesis
    using eq y xy own_trans [OF xy own_end_with_ports] by (cases r) (auto simp: end_fan_def)
qed

lemma own_begin_single: "own (nd_id n) x (fst (begin_single env n ins step x))"
proof -
  have ports: "own (nd_id n) x (fst (end_with_ports env (nd_id n) ins step ps t x))" for ps t
    by (metis own_end_with_ports prod.collapse)
  have app: "own (nd_id n) x (fst (approve env n ins step x))" by (metis own_approve prod.collapse)
  have sc: "own (nd_id n) x (fst (end_script env n ins step qs x))" for qs by (metis own_end_script prod.collapse)
  have ag: "own (nd_id n) x (fst (end_agent env n ins step v t x))" for v t by (metis own_end_agent prod.collapse)
  show ?thesis
    by (simp add: begin_single_def begin_child_def begin_attempts_def ended_def ports app sc ag
        split: option.split node_type.split sum.split)
qed

lemma own_call:
  assumes "call_slot env s x = Some r"
  shows "own (sl_node s) x (fst r)"
proof (cases "sl_phase s")
  case Waiting
  have "own (sl_node s) x (fst (begin_slot env s x))"
  proof (cases "exec_node env (sl_node s)")
    case (Some n)
    have "nd_id n = sl_node s" using exec_node_id [OF Some] by simp
    then show ?thesis using own_begin_single [of n x env] Some
      by (simp add: begin_slot_def begin_fan_def split: sum.split option.split)
  qed (simp add: begin_slot_def)
  then show ?thesis using assms Waiting by (simp add: call_slot_def)
qed (use assms in \<open>auto simp: call_slot_def split: option.splits\<close>)

lemma own_answer:
  assumes "answer_slot env s x = Some r"
  shows "own (sl_node s) x (fst r)"
proof -
  obtain n where n: "exec_node env (sl_node s) = Some n" using assms by (auto simp: answer_slot_def split: option.splits)
  have id: "nd_id n = sl_node s" using exec_node_id [OF n] by simp
  show ?thesis
  proof (cases "sl_phase s")
    case (Asking ins k q)
    have r: "r = end_attempt env n ins (sl_step s) k q x" using assms n Asking by (simp add: answer_slot_def)
    have "own (nd_id n) x (fst (end_agent env n ins (sl_step s) v t (capture_session (nd_id n) session x)))" for v t session
      by (rule own_trans [OF own_updates(4) [of _ _ session]]) (metis own_end_agent prod.collapse)
    moreover have "own (nd_id n) x (fst (end_script env n ins (sl_step s) ps x))" for ps
      by (metis own_end_script prod.collapse)
    ultimately show ?thesis unfolding r id [symmetric]
      by (simp add: end_attempt_def ended_def split: sum.split answer.split)
  next
    case (AskingChild ins c)
    have "own (nd_id n) x (fst (end_with_ports env (nd_id n) ins (sl_step s) ps t x))" for ps t
      by (metis own_end_with_ports prod.collapse)
    then have "own (nd_id n) x (fst (end_child env n ins (sl_step s) c x))"
      by (simp add: end_child_def split: sum.split prod.split)
    then show ?thesis using assms n AskingChild id by (auto simp: answer_slot_def ended_def)
  next
    case (AskingFan items worker rs)
    have "own (nd_id n) x (fst (end_fan env n items worker (sl_step s) rs x))" by (metis own_end_fan prod.collapse)
    then show ?thesis using assms n AskingFan id by (auto simp: answer_slot_def ended_def)
  qed (use assms n in \<open>simp_all add: answer_slot_def\<close>)
qed

lemma exec_own:
  assumes "exec_step env sp c e c'"
    and "map_of (xs_outputs (cf_x c')) i \<noteq> map_of (xs_outputs (cf_x c)) i \<or>
      map_of (xs_sessions (cf_x c')) i \<noteq> map_of (xs_sessions (cf_x c)) i"
  shows "\<exists>k < length (cf_batch c). (e = Call k \<or> e = Return k) \<and> sl_node (cf_batch c ! k) = i"
proof (cases e)
  case Take
  then have "exec_event env sp Take c = Some c'" using assms(1) by (simp add: exec_step_def)
  then have "xs_outputs (cf_x c') = xs_outputs (cf_x c) \<and> xs_sessions (cf_x c') = xs_sessions (cf_x c)"
    by (cases rule: exec_event_takeE) simp_all
  then show ?thesis using assms(2) by simp
next
  case (Call k)
  obtain r where r: "k < length (cf_batch c)" "call_slot env (cf_batch c ! k) (cf_x c) = Some r" "c' = put_slot k r c"
    using assms(1) Call exec_event_callE unfolding exec_step_def by metis
  have "sl_node (cf_batch c ! k) = i" using own_call [OF r(2)] assms(2) unfolding own_def r(3) put_slot_simps by metis
  then show ?thesis using r(1) Call by blast
next
  case (Return k)
  obtain r where r: "k < length (cf_batch c)" "answer_slot env (cf_batch c ! k) (cf_x c) = Some r" "c' = put_slot k r c"
    using assms(1) Return exec_event_returnE unfolding exec_step_def by metis
  have "sl_node (cf_batch c ! k) = i" using own_answer [OF r(2)] assms(2) unfolding own_def r(3) put_slot_simps by metis
  then show ?thesis using r(1) Return by blast
next
  case Settle
  then have "exec_event env sp Settle c = Some c'" using assms(1) by (simp add: exec_step_def)
  then have "xs_outputs (cf_x c') = xs_outputs (cf_x c) \<and> xs_sessions (cf_x c') = xs_sessions (cf_x c)"
  proof (cases rule: exec_event_settleE)
    case returns
    then show ?thesis using settle_settled [OF returns(4)] by (auto simp: settled_def)
  qed simp
  then show ?thesis using assms(2) by simp
qed

end
