(* ===== verification/Checkpoint_Props.thy ===== *)
theory Checkpoint_Props
  imports Checkpoint_Facts Exec_Own
begin

text \<open>
  What a run puts into a checkpoint names only the workflow's own nodes and edges, so the same
  workflow accepts every checkpoint its runs save, and restores it without loss.
\<close>

section \<open>Loop counters\<close>

lemma count_loops_dom: "dom (count_loops ms lc) = dom lc \<union> set ms"
  by (induction ms arbitrary: lc) auto

lemma evaluate_group_dom:
  assumes "evaluate_group sp d ms st lc = Some (r, st', lc')"
  shows "dom lc' \<subseteq> dom lc \<union> set ms"
  using assms unfolding evaluate_group_def
  using count_loops_dom [of ms lc] by (auto simp: Let_def bind_eq_Some_conv split: if_splits)

lemma evaluate_groups_dom:
  assumes "evaluate_groups sp gs st lc = Some (r, st', lc')"
  shows "dom lc' \<subseteq> dom lc \<union> set (concat (map snd gs))"
  using assms
proof (induction gs arbitrary: st lc)
  case (Cons x gs)
  obtain d ms where x: "x = (d, ms)" by (cases x)
  obtain r1 st1 lc1 where g: "evaluate_group sp d ms st lc = Some (r1, st1, lc1)"
    "(case r1 of Some e \<Rightarrow> Some (Some e, st1, lc1) | None \<Rightarrow> evaluate_groups sp gs st1 lc1) = Some (r, st', lc')"
    using Cons.prems by (auto simp: x bind_eq_Some_conv split: option.splits)
  have "dom lc' \<subseteq> dom lc1 \<union> set (concat (map snd gs))"
    using g(2) Cons.IH by (cases r1) auto
  then show ?case using evaluate_group_dom [OF g(1)] by (auto simp: x)
qed simp

lemma complete_batch_dom:
  assumes "complete_batch sp cs st lc = Some (r, st', lc')"
  shows "dom lc' \<subseteq> dom lc \<union> loop_members sp"
proof -
  obtain st2 where "evaluate_groups sp (fs_groups sp) st2 lc = Some (r, st', lc')"
    using assms by (auto simp: complete_batch_def bind_eq_Some_conv)
  from evaluate_groups_dom [OF this] show ?thesis by (simp only: loop_members_def)
qed

lemma settle_counts:
  assumes "settle env sp c = Inr c'"
  shows "dom (cf_counts c') \<subseteq> dom (cf_counts c) \<union> loop_members sp"
proof -
  obtain es where es: "trace (sched_step sp) (cf_front c, cf_counts c) es (cf_front c', cf_counts c')"
    using settle_settled [OF assms] unfolding settled_def by blast
  have "dom (snd s') \<subseteq> dom (snd s) \<union> loop_members sp" if "trace (sched_step sp) s es s'" for s s' es
    using that
  proof (induction rule: trace.induct)
    case (trace_snoc es s1 e s2)
    have "dom (snd s2) \<subseteq> dom (snd s1) \<union> loop_members sp"
      using trace_snoc.hyps(2) by cases (use complete_batch_dom in auto)
    then show ?case using trace_snoc.IH by blast
  qed simp
  from this [OF es] show ?thesis by simp
qed

lemma loop_members_edges:
  assumes "wf_spec sp"
  shows "loop_members sp \<subseteq> fst ` set (fs_edges sp)"
proof
  fix m assume "m \<in> loop_members sp"
  then obtain d ms where "(d, ms) \<in> set (fs_groups sp)" "m \<in> set ms" by (auto simp: loop_members_def)
  then have "edge_with sp (\<lambda>fe. fe_loop fe \<and> fe_max fe \<noteq> None \<and> fe_dst fe = d) m"
    using wf_groupD [OF assms, of d ms] by (simp add: group_ok_def)
  then obtain fe where "map_of (fs_edges sp) m = Some fe" by (rule edge_withD)
  then show "m \<in> fst ` set (fs_edges sp)" by (auto dest: map_of_SomeD intro: rev_image_eqI)
qed

section \<open>Names\<close>

text \<open>The data of a run of a workflow with nodes \<open>ns\<close> and edges \<open>ids\<close>, started from \<open>seed\<close>.\<close>

definition known_names :: "node_id set \<Rightarrow> edge_id set \<Rightarrow> ports \<Rightarrow> conf \<Rightarrow> bool" where
  "known_names ns ids seed c \<longleftrightarrow>
     (\<forall>i. map_of (xs_outputs (cf_x c)) i \<noteq> None \<longrightarrow> i = IN_NODE_ID \<or> i \<in> ns) \<and>
     tf_node ` set (xs_stack (cf_x c)) \<subseteq> ns \<and> dom (cf_counts c) \<subseteq> ids \<and>
     map_of (xs_outputs (cf_x c)) IN_NODE_ID = Some seed"

lemma slots_known:
  assumes "mirrored sp c" and "s \<in> set (cf_batch c)"
  shows "sl_node s \<in> set (fs_nodes sp)"
proof -
  have run: "(sl_node s, sl_epoch s) \<in> fr_running (cf_front c)" and inv: "state_inv sp (cf_front c)"
    using assms unfolding mirrored_def by blast+
  then have "live (cf_front c) (sl_node s, sl_epoch s)" using state_invD(2,3) [OF inv] by blast
  then show ?thesis using state_invD(1) [OF inv, of "sl_node s"] by (simp add: live_def)
qed

lemma exec_counts:
  assumes "exec_step env sp c e c'"
  shows "dom (cf_counts c') \<subseteq> dom (cf_counts c) \<union> loop_members sp"
  using assms
proof (cases rule: exec_step_cases)
  case settles
  show ?thesis by (rule settle_counts [OF settles(5)])
qed simp_all

lemma exec_frames:
  assumes "exec_step env sp c e c'"
  shows "tf_node ` set (xs_stack (cf_x c')) \<subseteq> tf_node ` set (xs_stack (cf_x c)) \<union> sl_node ` set (cf_batch c)"
  using assms
proof (cases rule: exec_step_cases)
  case (moves k r)
  then have "framed (sl_node (cf_batch c ! k)) (sl_step (cf_batch c ! k)) (cf_x c) (fst r)" "k < length (cf_batch c)"
    by (simp_all add: moved_def blocked_def)
  then show ?thesis using nth_mem [of k "cf_batch c"] moves(2) by (auto simp: framed_def)
next
  case settles
  then show ?thesis using settle_settled [OF settles(5)] by (auto simp: settled_def)
qed simp_all

lemma known_step:
  assumes wf: "wf_spec sp" and step: "exec_step env sp c e c'" and m: "mirrored sp c"
    and known: "known_names (set (fs_nodes sp)) (fst ` set (fs_edges sp)) seed c" and fresh: "IN_NODE_ID \<notin> set (fs_nodes sp)"
  shows "known_names (set (fs_nodes sp)) (fst ` set (fs_edges sp)) seed c'"
proof -
  have slots: "sl_node ` set (cf_batch c) \<subseteq> set (fs_nodes sp)" using slots_known [OF m] by blast
  have same: "map_of (xs_outputs (cf_x c')) i = map_of (xs_outputs (cf_x c)) i" if "i \<notin> set (fs_nodes sp)" for i
  proof (rule ccontr)
    assume "map_of (xs_outputs (cf_x c')) i \<noteq> map_of (xs_outputs (cf_x c)) i"
    then obtain k where "k < length (cf_batch c)" "sl_node (cf_batch c ! k) = i" using exec_own [OF step] by blast
    then have "i \<in> sl_node ` set (cf_batch c)" by force
    then show False using slots that by blast
  qed
  have "i = IN_NODE_ID \<or> i \<in> set (fs_nodes sp)" if "map_of (xs_outputs (cf_x c')) i \<noteq> None" for i
    using same [of i] that known unfolding known_names_def by metis
  moreover have "map_of (xs_outputs (cf_x c')) IN_NODE_ID = Some seed"
    using same [OF fresh] known by (simp add: known_names_def)
  moreover have "tf_node ` set (xs_stack (cf_x c)) \<subseteq> set (fs_nodes sp)" "dom (cf_counts c) \<subseteq> fst ` set (fs_edges sp)"
    using known by (simp_all add: known_names_def)
  then have "tf_node ` set (xs_stack (cf_x c')) \<subseteq> set (fs_nodes sp)" "dom (cf_counts c') \<subseteq> fst ` set (fs_edges sp)"
    using exec_frames [OF step] exec_counts [OF step] slots loop_members_edges [OF wf] by (meson Un_least subset_trans)+
  ultimately show ?thesis unfolding known_names_def by blast
qed

lemma run_known:
  assumes wf: "wf_spec sp" and run: "trace (exec_step env sp) (start_conf env sp inputs) es c"
    and fresh: "IN_NODE_ID \<notin> set (fs_nodes sp)"
  shows "known_names (set (fs_nodes sp)) (fst ` set (fs_edges sp)) (dict_of (wf_initial_state (xv_wf env) @ inputs)) c"
proof -
  let ?P = "\<lambda>c. mirrored sp c \<and>
    known_names (set (fs_nodes sp)) (fst ` set (fs_edges sp)) (dict_of (wf_initial_state (xv_wf env) @ inputs)) c"
  have "?P (start_conf env sp inputs)"
    using start_ok(3) [OF wf] by (simp add: known_names_def) (simp add: start_conf_def)
  then have "?P c"
    by (rule trace_keeps [where P = ?P, OF run]) (use mirrored_step known_step [OF wf _ _ _ fresh] in blast)
  then show ?thesis by blast
qed

section \<open>Concrete instances\<close>

definition demo_node_dict :: "node_id \<Rightarrow> pyval" where
  "demo_node_dict i = VDict [(''id'', VStr i), (''type'', VStr ''script''), (''input_ports'', VList []), (''output_ports'', VList [])]"

definition demo_definition :: pyval where
  "demo_definition = VDict [(''name'', VStr ''demo''), (''nodes'', VList [demo_node_dict ''a'', demo_node_dict ''b''])]"

lemma demo_contract:
  "\<exists>c. checkpoint_contract demo_sha demo_definition = Inr c \<and> contract_nodes c = set (fs_nodes demo_spec)"
  by (simp add: checkpoint_contract_def demo_definition_def demo_node_dict_def item_of_def node_shape_def node_version_def
      contract_hash_def contract_nodes_def demo_spec_def dict_of_keys)

definition demo_saved :: snapshot where
  "demo_saved = snapshot_of (cf_x demo_paused) (cf_counts demo_paused)"

lemma demo_saved_facts:
  "demo_saved \<in> set (cf_saved demo_paused)" "sn_completed demo_saved = {}" "computed_in demo_saved = {}"
  by (simp_all add: demo_saved_def computed_in_def snapshot_of_def demo_paused_facts)
    (simp_all add: demo_paused_def save_def demo_pause_simps demo_waiting_def start_conf_def snapshot_of_def)

section \<open>Properties\<close>

text \<open>C22. A save is atomic: whenever it is interrupted, loading the run gives the previous checkpoint
  or the new one, whole, and every other run's checkpoint stands; a save that returns has
  written the new one and left no temporary file, one that raises has changed nothing, or left
  its temporary file and nothing else when removing that raised too.\<close>

theorem checkpoint_save_atomic:
  assumes "trace (save_step r v) (fs, Opening) es (fs', ph)"
  shows "(load_checkpoint fs' r = load_checkpoint fs r \<or> load_checkpoint fs' r = Inr (Some v)) \<and>
    (\<forall>r'. r' \<noteq> r \<longrightarrow> load_checkpoint fs' r' = load_checkpoint fs r') \<and>
    (ph = Replaced \<longrightarrow> fs' = save_checkpoint r v fs) \<and> (ph = Cleaned \<longrightarrow> fs' = fs) \<and>
    (\<forall>tmp. ph = Stranded tmp \<longrightarrow> fs'(tmp := None) = fs)"
  by (rule save_atomic [OF assms])

lemma checkpoint_save_atomic_witness:
  "load_checkpoint (Map.empty(''x.tmp'' \<mapsto> Part 0)) ''r'' = Inr None \<or>
   load_checkpoint (Map.empty(''x.tmp'' \<mapsto> Part 0)) ''r'' = Inr (Some VNone)"
proof -
  have "save_step ''r'' VNone (Map.empty, Opening) (Open ''x.tmp'') (Map.empty(''x.tmp'' \<mapsto> Part 0), Writing ''x.tmp'')"
    by (rule save_open) (simp_all add: suffix_def)
  from checkpoint_save_atomic [OF trace_one [of "save_step ''r'' VNone", OF this]] show ?thesis
    by (simp add: load_checkpoint_def)
qed

text \<open>Each run sees its own last checkpoint, whatever other runs, child workflows among them, save
  in between.\<close>

theorem last_checkpoint_loaded:
  "load_checkpoint (fold (\<lambda>(r, v). save_checkpoint r v) saves fs) r =
     (case map_of (rev saves) r of None \<Rightarrow> load_checkpoint fs r | Some v \<Rightarrow> Inr (Some v))"
  by (rule files.load_last)

text \<open>C5. The round trip: for an unchanged workflow, every checkpoint any of its runs saves passes the
  contract and the schema checks and is restored without loss, whatever order the completed
  nodes are listed in, also when the run's inputs are given again.\<close>

theorem saved_checkpoint_restores:
  assumes "wf_spec sp" and "trace (exec_step env sp) (start_conf env sp inputs) es c" and "sn \<in> set (cf_saved c)"
    and "IN_NODE_ID \<notin> set (fs_nodes sp)" and "fst ` set (fs_edges sp) \<subseteq> set (xv_ids env)"
    and "checkpoint_contract sha d = Inr contract" and "contract_nodes contract = set (fs_nodes sp)"
    and "set order = sn_completed sn"
    and "given \<longrightarrow> py_eq (VDict (dict_of (wf_initial_state (xv_wf env) @ inputs))) (VDict seed)"
  shows "restore_checkpoint (xv_ids env) given seed contract (snapshot_dict contract (xv_ids env) order sn) =
    Inr \<lparr>rs_outputs = sn_outputs sn, rs_sessions = sn_sessions sn, rs_completed = sn_completed sn, rs_counts = sn_counts sn,
      rs_stack = map frame_dict (sn_stack sn), rs_live = sn_live sn, rs_memo = sn_memo sn, rs_tokens = sn_tokens sn\<rparr>"
proof -
  have "boundary env sp (start_conf env sp inputs) sn"
    by (rule saved_boundary [OF assms(2) _ assms(3)]) (simp add: start_conf_def)
  then obtain es1 c1 where c1: "trace (exec_step env sp) (start_conf env sp inputs) es1 c1"
    "sn = snapshot_of (cf_x c1) (cf_counts c1)" unfolding boundary_def by blast
  have known: "known_names (set (fs_nodes sp)) (fst ` set (fs_edges sp)) (dict_of (wf_initial_state (xv_wf env) @ inputs)) c1"
    by (rule run_known [OF assms(1) c1(1) assms(4)])
  have m: "mirrored sp c1" by (rule run_ok(3) [OF assms(1) c1(1)])
  have comp: "sn_completed sn \<subseteq> set (fs_nodes sp)"
  proof
    fix n assume "n \<in> sn_completed sn"
    then obtain g where "fr_completed (cf_front c1) n = Some g" using m by (auto simp: c1(2) snapshot_of_def mirrored_def)
    then show "n \<in> set (fs_nodes sp)"
      using m state_invD(1,8) [of sp "cf_front c1" n] by (auto simp: mirrored_def)
  qed
  have "computed_in sn \<subseteq> contract_nodes contract"
    using known comp assms(7) unfolding known_names_def computed_in_def
    by (auto simp: c1(2) snapshot_of_def map_of_eq_None_iff)
  moreover have "dom (sn_counts sn) \<subseteq> set (xv_ids env)"
    using known assms(5) unfolding known_names_def by (simp add: c1(2) snapshot_of_def) blast
  moreover have "map_of (sn_outputs sn) IN_NODE_ID = Some (dict_of (wf_initial_state (xv_wf env) @ inputs))"
    using known by (simp add: known_names_def c1(2) snapshot_of_def)
  ultimately have "restore_checkpoint (xv_ids env) given seed contract (snapshot_dict contract (xv_ids env) order sn) =
      Inr (restored_of sn)"
    using restore_snapshot [OF assms(6,8)] assms(9) by blast
  then show ?thesis by (simp only: restored_of_def)
qed

lemma saved_checkpoint_restores_witness:
  "\<exists>c r. checkpoint_contract demo_sha demo_definition = Inr c \<and>
     restore_checkpoint (xv_ids demo_pause) False [] c (snapshot_dict c (xv_ids demo_pause) [] demo_saved) = Inr r \<and>
     rs_tokens r = sn_tokens demo_saved"
proof -
  obtain c where c: "checkpoint_contract demo_sha demo_definition = Inr c" "contract_nodes c = set (fs_nodes demo_spec)"
    using demo_contract by blast
  have fresh: "IN_NODE_ID \<notin> set (fs_nodes demo_spec)" "fst ` set (fs_edges demo_spec) \<subseteq> set (xv_ids demo_pause)"
    by (simp_all add: demo_spec_def IN_NODE_ID_def demo_pause_simps)
  have order: "set [] = sn_completed demo_saved" by (simp add: demo_saved_facts)
  from saved_checkpoint_restores [OF wf_demo demo_pause_run demo_saved_facts(1) fresh c order, of False "[]"] show ?thesis
    using c(1) by auto
qed

text \<open>C23. A changed workflow is caught: a checkpoint of one definition is accepted under another only
  if their graphs have the same digest and every node that completed, has outputs or is in the
  trace has a definition with the same digest in both.\<close>

theorem contract_pins_computed_nodes:
  assumes "checkpoint_contract sha d = Inr c" and "checkpoint_contract sha d' = Inr c'"
    and "set order = sn_completed sn" and "validate_checkpoint_contract (snapshot_dict c ids order sn) c' = None"
  shows "map_of c ''graph'' = map_of c' ''graph'' \<and>
    (\<forall>s \<in> sn_completed sn \<union> (fst ` set (sn_outputs sn) - {IN_NODE_ID}) \<union> tf_node ` set (sn_stack sn).
       \<exists>nodes nodes' n n' h. item_of ''nodes'' d = Inr (VList nodes) \<and> item_of ''nodes'' d' = Inr (VList nodes') \<and>
         n \<in> set nodes \<and> n' \<in> set nodes' \<and> item_of ''id'' n = Inr (VStr s) \<and> item_of ''id'' n' = Inr (VStr s) \<and>
         contract_hash sha n = Inr h \<and> contract_hash sha n' = Inr h)"
  using accepted_contract [OF assms(1,2,4,3)] unfolding computed_in_def by blast

lemma contract_pins_computed_nodes_witness:
  "\<exists>c. checkpoint_contract demo_sha demo_definition = Inr c \<and> map_of c ''graph'' = map_of c ''graph''"
proof -
  obtain c where c: "checkpoint_contract demo_sha demo_definition = Inr c" using demo_contract by blast
  have order: "set [] = sn_completed demo_saved" by (simp add: demo_saved_facts)
  have "validate_checkpoint_contract (snapshot_dict c [] [] demo_saved) c = None"
    by (rule own_contract_accepted [OF c order]) (simp add: demo_saved_facts)
  from contract_pins_computed_nodes [OF c c order this] c show ?thesis by blast
qed

end
