(* ===== verification/Exec_Why.thy ===== *)
theory Exec_Why
  imports Exec_Effects Checkpoint_Props
begin

text \<open>
  Why a run is given up: what the settling of a batch raises, and that the scheduler raises
  nothing in a run of a compiled workflow.
\<close>

section \<open>Reasons\<close>

text \<open>A failure that is not isolated: a pause, an exhausted budget, or one of a node that fails the run.\<close>

definition ends_run :: "exec_env \<Rightarrow> node_id \<Rightarrow> pyexc \<Rightarrow> bool" where
  "ends_run env i e \<longleftrightarrow> stops_run e \<or> (\<exists>n. exec_node env i = Some n \<and> nd_on_error n \<noteq> on_error_mode.Isolate)"

text \<open>The batch's strict loops: committing its completions finds one with its bound used up.\<close>

definition strict_spent :: "exec_env \<Rightarrow> frontier_spec \<Rightarrow> conf \<Rightarrow> bool" where
  "strict_spent env sp c \<longleftrightarrow> (\<exists>v m f lc. classify env (xs_outputs (cf_x c)) (cf_batch c)
       \<lparr>vd_front = cf_front c, vd_failed = cf_failed c, vd_done = [], vd_deferred = None\<rparr> = Inr v \<and>
     complete_batch sp (vd_done v) (vd_front v) (cf_counts c) = Some (Some m, f, lc) \<and> edge_strict sp m \<and> over_limit sp lc m)"

inductive given_up :: "exec_env \<Rightarrow> frontier_spec \<Rightarrow> conf \<Rightarrow> pyexc \<Rightarrow> bool" for env sp c where
  by_node: "s \<in> set (cf_batch c) \<Longrightarrow> sl_phase s = Ended (Some e) \<Longrightarrow> ends_run env (sl_node s) e \<Longrightarrow> given_up env sp c e"
| by_condition: "s \<in> set (cf_batch c) \<Longrightarrow> sl_phase s = Ended None \<Longrightarrow>
    resolve_outgoing (xv_jp env) (xv_wf env) (xv_ids env) (xs_outputs (cf_x c)) (sl_node s) = Inl e \<Longrightarrow> given_up env sp c e"
| by_strict_loop: "strict_spent env sp c \<Longrightarrow> given_up env sp c ExecutionError"
| by_budget: "xv_max_tokens env = Some m \<Longrightarrow> 0 < m \<Longrightarrow> m < xs_tokens (cf_x c) \<Longrightarrow>
    given_up env sp c (BudgetExceeded (xs_tokens (cf_x c)) m)"

section \<open>Classifying a batch\<close>

lemma scope_known:
  assumes "graph_ok w" and "i \<in> nd_id ` set (wf_nodes w)"
  shows "insert i (transitive_successors w i) \<subseteq> nd_id ` set (wf_nodes w)"
proof -
  have "m \<in> nd_id ` set (wf_nodes w)" if "(i, m) \<in> (scope_rel w)\<^sup>+" for m
  proof -
    have "m \<in> Range ((scope_rel w)\<^sup>+)" using that by blast
    then have "m \<in> Range (scope_rel w)" by (simp only: trancl_range)
    then show ?thesis using assms(1) by (auto simp: scope_rel_def graph_ok_def edge_named_def Let_def)
  qed
  then show ?thesis using assms(2) by (auto simp: transitive_successors_closure)
qed

lemma classify_slot_raises:
  assumes "classify_slot env out s v = Inl e" and "exec_node env (sl_node s) \<noteq> None"
    and "isolate_nodes (insert (sl_node s) (transitive_successors (xv_wf env) (sl_node s))) (vd_front v) \<noteq> None"
  shows "sl_phase s = Ended None \<and> resolve_outgoing (xv_jp env) (xv_wf env) (xv_ids env) out (sl_node s) = Inl e"
proof (cases "sl_phase s")
  case (Ended r)
  show ?thesis
  proof (cases r)
    case None
    then show ?thesis using assms(1) Ended by (auto simp: classify_slot_def raise_bind_def split: sum.splits)
  next
    case (Some x)
    obtain n where "exec_node env (sl_node s) = Some n" using assms(2) by blast
    then have False using assms(1,3) Ended Some by (auto simp: classify_slot_def note_failure_def split: if_splits)
    then show ?thesis ..
  qed
qed (use assms(1) in \<open>simp_all add: classify_slot_def\<close>)

text \<open>What one activation adds to the verdict.\<close>

lemma classify_slot_adds:
  assumes "classify_slot env out s v = Inr v'" and "exec_node env (sl_node s) \<noteq> None"
  shows "vd_deferred v' = vd_deferred v \<or> (\<exists>e. vd_deferred v' = Some e \<and> sl_phase s = Ended (Some e) \<and> ends_run env (sl_node s) e)"
    and "fst ` set (vd_done v') \<subseteq> insert (sl_node s) (fst ` set (vd_done v))"
proof -
  obtain n where n: "exec_node env (sl_node s) = Some n" using assms(2) by blast
  have "(vd_deferred v' = vd_deferred v \<or> (\<exists>e. vd_deferred v' = Some e \<and> sl_phase s = Ended (Some e) \<and> ends_run env (sl_node s) e)) \<and>
      fst ` set (vd_done v') \<subseteq> insert (sl_node s) (fst ` set (vd_done v))"
  proof (cases "sl_phase s")
    case (Ended r)
    show ?thesis
    proof (cases r)
      case None
      then show ?thesis using assms(1) Ended by (auto simp: classify_slot_def raise_bind_def split: sum.splits)
    next
      case (Some x)
      then show ?thesis using assms(1) Ended n
        by (auto simp: classify_slot_def note_failure_def ends_run_def split: if_splits option.splits)
    qed
  qed (use assms(1) in \<open>auto simp: classify_slot_def\<close>)
  then show "vd_deferred v' = vd_deferred v \<or> (\<exists>e. vd_deferred v' = Some e \<and> sl_phase s = Ended (Some e) \<and> ends_run env (sl_node s) e)"
    "fst ` set (vd_done v') \<subseteq> insert (sl_node s) (fst ` set (vd_done v))" by blast+
qed

lemma classify_raises:
  assumes "classify env out ss v = Inl e" and "wf_spec sp" and "state_inv sp (vd_front v)"
    and "\<And>s. s \<in> set ss \<Longrightarrow> exec_node env (sl_node s) \<noteq> None \<and>
      insert (sl_node s) (transitive_successors (xv_wf env) (sl_node s)) \<subseteq> set (fs_nodes sp)"
  shows "\<exists>s \<in> set ss. sl_phase s = Ended None \<and> resolve_outgoing (xv_jp env) (xv_wf env) (xv_ids env) out (sl_node s) = Inl e"
  using assms
proof (induction ss arbitrary: v)
  case (Cons s ss)
  show ?case
  proof (cases "classify_slot env out s v")
    case (Inl x)
    then have "classify_slot env out s v = Inl e" using Cons.prems(1) by (simp add: raise_bind_def)
    moreover have "isolate_nodes (insert (sl_node s) (transitive_successors (xv_wf env) (sl_node s))) (vd_front v) \<noteq> None"
    proof -
      have "insert (sl_node s) (transitive_successors (xv_wf env) (sl_node s)) \<subseteq> set (fs_nodes sp)" using Cons.prems(4) [of s] by simp
      then show ?thesis using isolate_total [OF Cons.prems(3)] by (metis option.distinct(1))
    qed
    ultimately show ?thesis using classify_slot_raises [of env out s v e] Cons.prems(4) [of s] by auto
  next
    case (Inr v1)
    obtain es where "trace (sched_step sp) (vd_front v, Map.empty) es (vd_front v1, Map.empty)"
      using classify_slot_step [OF Inr] by blast
    then have "state_inv sp (vd_front v1)" using sched.trace_inv Cons.prems(2,3) by fastforce
    then show ?thesis using Cons.IH [of v1] Cons.prems Inr by (auto simp: raise_bind_def)
  qed
qed simp

lemma classify_deferred:
  assumes "classify env out ss v = Inr v'" and "vd_deferred v' = Some e" and "vd_deferred v \<noteq> Some e"
    and "\<And>s. s \<in> set ss \<Longrightarrow> exec_node env (sl_node s) \<noteq> None"
  shows "\<exists>s \<in> set ss. sl_phase s = Ended (Some e) \<and> ends_run env (sl_node s) e"
  using assms
proof (induction ss arbitrary: v)
  case (Cons s ss)
  obtain v1 where v1: "classify_slot env out s v = Inr v1" "classify env out ss v1 = Inr v'"
    using Cons.prems(1) by (auto split: sum.splits)
  show ?case
  proof (cases "vd_deferred v1 = Some e")
    case True
    then have "sl_phase s = Ended (Some e) \<and> ends_run env (sl_node s) e"
      using classify_slot_adds(1) [OF v1(1)] Cons.prems(3,4) by fastforce
    then show ?thesis by auto
  next
    case False
    then show ?thesis using Cons.IH [OF v1(2) Cons.prems(2)] Cons.prems(4) by auto
  qed
qed simp

lemma classify_done_known:
  assumes "classify env out ss v = Inr v'" and "fst ` set (vd_done v) \<subseteq> ns"
    and "\<And>s. s \<in> set ss \<Longrightarrow> sl_node s \<in> ns \<and> exec_node env (sl_node s) \<noteq> None"
  shows "fst ` set (vd_done v') \<subseteq> ns"
  using assms
proof (induction ss arbitrary: v)
  case (Cons s ss)
  obtain v1 where v1: "classify_slot env out s v = Inr v1" "classify env out ss v1 = Inr v'"
    using Cons.prems(1) by (auto split: sum.splits)
  have known: "sl_node s \<in> ns" "exec_node env (sl_node s) \<noteq> None" using Cons.prems(3) [of s] by simp_all
  have "fst ` set (vd_done v1) \<subseteq> ns"
    by (rule order.trans [OF classify_slot_adds(2) [OF v1(1) known(2)]]) (simp only: insert_subset known(1) Cons.prems(2))
  then show ?case
  proof (rule Cons.IH [OF v1(2)])
    show "sl_node t \<in> ns \<and> exec_node env (sl_node t) \<noteq> None" if "t \<in> set ss" for t
      by (rule Cons.prems(3)) (simp add: that)
  qed
qed simp

section \<open>Settling\<close>

lemma settle_done_why:
  assumes inv: "wf_spec sp" "state_inv sp (cf_front c)" and known: "known_batch sp cs"
  shows "(\<exists>f lc. complete_batch sp cs (cf_front c) (cf_counts c) = Some (None, f, lc) \<and>
      settle_done env sp cs c = Inr (save env (c\<lparr>cf_front := f, cf_counts := lc,
        cf_x := (cf_x c)\<lparr>xs_completed := dom (fr_completed f)\<rparr>\<rparr>))) \<or>
    (\<exists>m f lc. complete_batch sp cs (cf_front c) (cf_counts c) = Some (Some m, f, lc) \<and> settle_done env sp cs c = Inl ExecutionError \<and>
      edge_strict sp m \<and> over_limit sp lc m)"
proof -
  obtain res f lc where c: "complete_batch sp cs (cf_front c) (cf_counts c) = Some (res, f, lc)"
      "\<forall>m. res = Some m \<longrightarrow> edge_strict sp m \<and> over_limit sp lc m"
    using complete_batch_step [OF inv known, of "cf_counts c"] by blast
  then show ?thesis by (cases res) (auto simp: settle_done_def)
qed

lemma settle_why:
  assumes inv: "wf_spec sp" "state_inv sp (cf_front c)" and run: "cf_status c = Running"
    and nodes: "\<And>s. s \<in> set (cf_batch c) \<Longrightarrow> exec_node env (sl_node s) \<noteq> None \<and>
      insert (sl_node s) (transitive_successors (xv_wf env) (sl_node s)) \<subseteq> set (fs_nodes sp)"
    and raised: "settle env sp c = Inl e \<or> (\<exists>c'. settle env sp c = Inr c' \<and> cf_status c' = Raised e)"
  shows "given_up env sp c e"
proof -
  let ?v = "\<lparr>vd_front = cf_front c, vd_failed = cf_failed c, vd_done = [], vd_deferred = None\<rparr>"
  let ?out = "xs_outputs (cf_x c)"
  show ?thesis
  proof (cases "classify env ?out (cf_batch c) ?v")
    case (Inl x)
    then have "x = e" using raised by (simp add: settle_def raise_bind_def)
    then show ?thesis using classify_raises [OF Inl inv(1) _ nodes] inv(2) by_condition by fastforce
  next
    case (Inr v)
    obtain es where "trace (sched_step sp) (vd_front ?v, Map.empty) es (vd_front v, Map.empty)" using classify_step [OF Inr] by blast
    then have front: "state_inv sp (vd_front v)" using sched.trace_inv inv by fastforce
    have "fst ` set (vd_done v) \<subseteq> set (fs_nodes sp)"
      by (rule classify_done_known [OF Inr]) (use nodes in \<open>auto\<close>)
    then have known: "known_batch sp (vd_done v)" by (auto simp: known_batch_def)
    define d where "d = c\<lparr>cf_front := vd_front v, cf_failed := vd_failed v, cf_batch := []\<rparr>"
    define k where "k = (if vd_done v \<noteq> [] then settle_done env sp (vd_done v) d
        else (case vd_deferred v of Some (WorkflowPaused n s) \<Rightarrow> Inr (save env d) | _ \<Rightarrow> Inr d))"
    have settle: "settle env sp c = raise_bind k (\<lambda>c. Inr (case over_budget env (cf_x c) of
            Some e \<Rightarrow> c\<lparr>cf_status := Raised e\<rparr>
          | None \<Rightarrow> (case vd_deferred v of Some e \<Rightarrow> c\<lparr>cf_status := Raised e\<rparr> | None \<Rightarrow> c)))"
      unfolding settle_def k_def d_def Let_def Inr by (simp add: raise_bind_def)
    have d: "cf_front d = vd_front v" "cf_counts d = cf_counts c" "cf_x d = cf_x c" "cf_status d = Running"
      by (simp_all add: d_def run)
    note strict = settle_done_why [of sp d "vd_done v" env, unfolded d, OF inv(1) front known]
    show ?thesis
    proof (cases k)
      case (Inl x)
      then have "settle_done env sp (vd_done v) d = Inl x" "x = e"
        using raised by (auto simp: k_def settle raise_bind_def split: if_splits option.splits pyexc.splits)
      then have "strict_spent env sp c" "e = ExecutionError" using strict Inr unfolding strict_spent_def by fastforce+
      then show ?thesis using by_strict_loop by simp
    next
      case (Inr c1)
      have tokens: "xs_tokens (cf_x c1) = xs_tokens (cf_x c)" and status: "cf_status c1 = Running"
        using Inr strict d unfolding k_def by (auto split: if_splits option.splits pyexc.splits)
      show ?thesis
      proof (cases "over_budget env (cf_x c1)")
        case None
        then have "vd_deferred v = Some e" using raised Inr status by (auto simp: settle raise_bind_def split: option.splits)
        then have "\<exists>s \<in> set (cf_batch c). sl_phase s = Ended (Some e) \<and> ends_run env (sl_node s) e"
          by (intro classify_deferred [OF \<open>classify env ?out (cf_batch c) ?v = Inr v\<close>]) (use nodes in auto)
        then show ?thesis using by_node by blast
      next
        case (Some x)
        then have "x = e" using raised Inr by (simp add: settle raise_bind_def)
        then show ?thesis using Some tokens by (auto simp: over_budget_def intro: by_budget split: option.splits if_splits)
      qed
    qed
  qed
qed

text \<open>The end of a run that does not end quiescent.\<close>

lemma step_why:
  assumes inv: "wf_spec sp" "state_inv sp (cf_front c)" and step: "exec_step env sp c ev c'" and raised: "cf_status c' = Raised e"
    and nodes: "\<And>s. s \<in> set (cf_batch c) \<Longrightarrow> exec_node env (sl_node s) \<noteq> None \<and>
      insert (sl_node s) (transitive_successors (xv_wf env) (sl_node s)) \<subseteq> set (fs_nodes sp)"
  shows "given_up env sp c e"
proof -
  have run: "cf_status c = Running" using step exec_step_running by blast
  show ?thesis
  proof (cases ev)
    case Take
    obtain as f where "take_ready sp (cf_front c) = Some (as, f)" using take_ready_total [OF inv(2,1)] by blast
    then have "cf_status c' \<noteq> Raised e" using step Take run by (cases as) (auto simp: exec_step_def split: if_splits)
    then show ?thesis using raised by blast
  next
    case Settle
    then have "settle env sp c = Inl e \<or> (\<exists>c'. settle env sp c = Inr c' \<and> cf_status c' = Raised e)"
      using step raised by (auto simp: exec_step_def split: if_splits sum.splits)
    then show ?thesis using settle_why [OF inv run nodes] by blast
  qed (use step raised run in \<open>auto simp: exec_step_def put_slot_def split: if_splits\<close>)
qed

end
