(* ===== verification/Checkpoint_Steps.thy ===== *)
theory Checkpoint_Steps
  imports Checkpoint_Props
begin

text \<open>
  A run that isolates a failure resumes with a step counter that can be too small: the failed
  activation reserved a step and left no frame, and the counter restarts at the number of
  frames. The run here is a concrete one of two independent nodes.
\<close>

definition twin_spec :: frontier_spec where
  "twin_spec = \<lparr>fs_nodes = [''a'', ''b''], fs_entries = [''a'', ''b''], fs_node_order = [(''a'', 0), (''b'', 1)],
     fs_edges = [], fs_outgoing = [(''a'', []), (''b'', [])], fs_preds = [(''a'', []), (''b'', [])],
     fs_groups = [], fs_regions = [], fs_boundary = []\<rparr>"

text \<open>\<open>a\<close> is fed by a path that raises and isolates its failures; \<open>b\<close> waits for a signal it has.\<close>

definition twin_flow :: workflow_def where
  "twin_flow = WorkflowDef ''twin'' '''' ''''
     [NodeDef ''a'' Script '''' None '''' '''' [] [] None [default_port ''x''] [default_port ''y'']
        (Some ''def f(ctx, x): ...'') False None None on_error_mode.Isolate False None None [] [] None,
      NodeDef ''b'' Human ''go'' None '''' '''' [] [] None [] [] None False None None Fail False None None [] [] None]
     [(edge_default IN_NODE_ID ''a'')\<lparr>mapping := [(''$.x'', ''x'')]\<rparr>] '''' [(''x'', VStr ''1'')] [] [] 0 0 None"

definition twin_env :: exec_env where
  "twin_env = demo_exec\<lparr>xv_wf := twin_flow, xv_ids := [''i0''], xv_jp := (\<lambda>d t. Inl ValueError), xv_signals := {''go''},
     xv_cap := 0, xv_max_tokens := None\<rparr>"

definition twin_slot :: "node_id \<Rightarrow> nat \<Rightarrow> phase \<Rightarrow> slot" where
  "twin_slot i k p = \<lparr>sl_node = i, sl_epoch = 0, sl_enabled = [], sl_step = k, sl_phase = p\<rparr>"

abbreviation twin_start :: conf where
  "twin_start \<equiv> start_conf twin_env twin_spec []"

definition twin_batch :: "phase \<Rightarrow> phase \<Rightarrow> xstate \<Rightarrow> conf" where
  "twin_batch p q x = twin_start\<lparr>cf_front := (new_frontier_state twin_spec {})\<lparr>fr_running := {(''a'', 0), (''b'', 0)}\<rparr>,
     cf_batch := [twin_slot ''a'' 0 p, twin_slot ''b'' 1 q], cf_x := x\<rparr>"

definition twin_frame :: frame where
  "twin_frame = \<lparr>tf_step = 1, tf_node = ''b'', tf_in = [], tf_out = []\<rparr>"

definition twin_x :: xstate where
  "twin_x = (cf_x twin_start)\<lparr>xs_step := 2\<rparr>"

definition twin_done :: xstate where
  "twin_done = twin_x\<lparr>xs_outputs := AList.update ''b'' [] (xs_outputs twin_x), xs_stack := [twin_frame]\<rparr>"

lemma wf_twin: "wf_spec twin_spec"
  by (simp add: wf_spec_def twin_spec_def)

lemma twin_env_simps:
  "xv_ids twin_env = [''i0'']" "xv_jp twin_env = (\<lambda>d t. Inl ValueError)" "xv_signals twin_env = {''go''}" "xv_cap twin_env = 0"
  "xv_saving twin_env" "xv_max_tokens twin_env = None" "xv_wf twin_env = twin_flow"
  by (simp_all add: twin_env_def demo_exec_def)

lemma twin_nodes:
  "exec_node twin_env ''a'' = Some (wf_nodes twin_flow ! 0)" "exec_node twin_env ''b'' = Some (wf_nodes twin_flow ! 1)"
  by (simp_all add: exec_node_def node_by_id_def twin_env_simps twin_flow_def dict_of_def)

lemma twin_take:
  "take_ready twin_spec (new_frontier_state twin_spec {}) =
     Some ([(''a'', 0, []), (''b'', 0, [])], (new_frontier_state twin_spec {})\<lparr>fr_running := {(''a'', 0), (''b'', 0)}\<rparr>)"
  by (simp add: twin_spec_def take_ready_def ready_def ready_node_def new_frontier_state_def generation_def Let_def act_key_def)

lemma twin_step1: "exec_step twin_env twin_spec twin_start Take (twin_batch Waiting Waiting twin_x)"
  using twin_take
  by (simp add: exec_step_def twin_batch_def twin_x_def twin_slot_def start_conf_def make_slots_def)

lemma twin_step2:
  "exec_step twin_env twin_spec (twin_batch Waiting Waiting twin_x) (Call 0) (twin_batch (Ended (Some ValueError)) Waiting twin_x)"
proof -
  have "build_inputs (xv_jp twin_env) (xv_wf twin_env) (xv_ids twin_env) out ''a'' [] = Inl ValueError" for out
    by (simp add: build_inputs_def twin_env_simps twin_flow_def edge_default_def jsonpath_get_def)
  then have "begin_slot twin_env (twin_slot ''a'' 0 Waiting) twin_x = (twin_x, Ended (Some ValueError))"
    by (simp add: begin_slot_def twin_slot_def twin_nodes twin_x_def start_conf_def)
  then show ?thesis
    by (simp add: exec_step_def twin_batch_def call_slot_def admitted_def twin_env_simps put_slot_def start_conf_def)
      (simp add: twin_slot_def)
qed

lemma twin_step3:
  "exec_step twin_env twin_spec (twin_batch (Ended (Some ValueError)) Waiting twin_x) (Call 1)
     (twin_batch (Ended (Some ValueError)) (Ended None) twin_done)"
proof -
  have ins: "build_inputs (xv_jp twin_env) (xv_wf twin_env) (xv_ids twin_env) out ''b'' [] = Inr []" for out
    by (simp add: build_inputs_def twin_env_simps twin_flow_def edge_default_def)
  have fan: "incoming_fan_out_edge (xv_wf twin_env) ''b'' = None"
    by (simp add: incoming_fan_out_edge_def twin_env_simps twin_flow_def edge_default_def)
  have "node_out_edges (xv_wf twin_env) ''b'' = []"
    by (simp add: node_out_edges_def twin_env_simps twin_flow_def edge_default_def IN_NODE_ID_def)
  then have "begin_single twin_env (wf_nodes twin_flow ! 1) [] 1 twin_x = (twin_done, Ended None)"
    by (simp add: begin_single_def twin_flow_def twin_env_simps approve_def record_frame_def Let_def ended_def twin_done_def
        twin_frame_def source_ports_def twin_x_def start_conf_def IN_NODE_ID_def)
  then have "begin_slot twin_env (twin_slot ''b'' 1 Waiting) twin_x = (twin_done, Ended None)"
    using ins fan by (simp add: begin_slot_def twin_slot_def twin_nodes) (simp add: twin_x_def start_conf_def)
  then show ?thesis
    by (simp add: exec_step_def twin_batch_def call_slot_def admitted_def twin_env_simps put_slot_def start_conf_def)
      (simp add: twin_slot_def)
qed

definition twin_end :: fstate where
  "twin_end = mark_completed ''b'' 0 Map.empty ((new_frontier_state twin_spec {})\<lparr>fr_isolated_nodes := {''a''},
     fr_isolated := {(''a'', 0)}, fr_reached := {(''b'', 0)}, fr_running := {}\<rparr>)"

definition twin_settled :: conf where
  "twin_settled = save twin_env (twin_start\<lparr>cf_front := twin_end, cf_x := twin_done\<lparr>xs_completed := {''b''}\<rparr>,
     cf_failed := [(''a'', ValueError)]\<rparr>)"

lemma twin_scope: "transitive_successors twin_flow ''a'' = {}"
  by (simp add: transitive_successors_def successors_from.simps(2) runnable_succs_def twin_flow_def edge_default_def
      IN_NODE_ID_def Let_def)

lemma twin_outgoing: "resolve_outgoing jp twin_flow [''i0''] out ''b'' = Inr Map.empty"
  by (simp add: resolve_outgoing_def twin_flow_def edge_default_def IN_NODE_ID_def)

lemma twin_isolate:
  "isolate_nodes {''a''} ((new_frontier_state twin_spec {})\<lparr>fr_running := {(''a'', 0), (''b'', 0)}\<rparr>) =
     Some ((new_frontier_state twin_spec {})\<lparr>fr_isolated_nodes := {''a''}, fr_isolated := {(''a'', 0)},
       fr_reached := {(''b'', 0)}, fr_running := {(''b'', 0)}\<rparr>)"
  by (simp add: isolate_nodes_def generation_def new_frontier_state_def twin_spec_def Let_def)

lemma twin_commit:
  "complete_batch twin_spec [(''b'', 0, Map.empty)] ((new_frontier_state twin_spec {})\<lparr>fr_isolated_nodes := {''a''},
       fr_isolated := {(''a'', 0)}, fr_reached := {(''b'', 0)}, fr_running := {(''b'', 0)}\<rparr>) Map.empty =
     Some (None, twin_end, Map.empty)"
  by (simp add: complete_batch_def twin_end_def mark_completed_def generation_def new_frontier_state_def twin_spec_def Let_def)

lemma twin_settle: "settle twin_env twin_spec (twin_batch (Ended (Some ValueError)) (Ended None) twin_done) = Inr twin_settled"
proof -
  have iso: "nd_on_error (wf_nodes twin_flow ! 0) = on_error_mode.Isolate" by (simp add: twin_flow_def)
  have "dom (fr_completed twin_end) = {''b''}"
    by (auto simp: twin_end_def mark_completed_def new_frontier_state_def twin_spec_def Let_def split: if_splits)
  then show ?thesis
    by (simp add: settle_def twin_batch_def twin_slot_def classify_slot_def note_failure_def twin_nodes iso twin_env_simps
        twin_scope twin_isolate twin_outgoing settle_done_def twin_commit over_budget_def twin_settled_def start_conf_def
        save_def Let_def)
qed

lemma twin_prefix:
  "trace (exec_step twin_env twin_spec) twin_start [Take, Call 0, Call 1] (twin_batch (Ended (Some ValueError)) (Ended None) twin_done)"
proof -
  let ?st = "exec_step twin_env twin_spec"
  have "trace ?st twin_start ([Take] @ [Call 0]) (twin_batch (Ended (Some ValueError)) Waiting twin_x)"
    by (rule trace.trace_snoc [OF trace_one [of ?st, OF twin_step1] twin_step2])
  from trace.trace_snoc [OF this twin_step3] show ?thesis by simp
qed

lemma twin_run:
  "trace (exec_step twin_env twin_spec) twin_start [Take, Call 0, Call 1, Settle] twin_settled"
proof -
  let ?st = "exec_step twin_env twin_spec"
  have "is_ended (sl_phase s)" if "s \<in> set (cf_batch (twin_batch (Ended (Some ValueError)) (Ended None) twin_done))" for s
    using that by (auto simp: twin_batch_def twin_slot_def is_ended_def)
  moreover have "cf_batch (twin_batch p q x) \<noteq> []" "cf_status (twin_batch p q x) = Running" for p q x
    by (simp_all add: twin_batch_def start_conf_def)
  ultimately have 4: "?st (twin_batch (Ended (Some ValueError)) (Ended None) twin_done) Settle twin_settled"
    using twin_settle by (auto simp: exec_step_def)
  from trace.trace_snoc [OF twin_prefix 4] show ?thesis by simp
qed

abbreviation twin_saved :: snapshot where
  "twin_saved \<equiv> snapshot_of (twin_done\<lparr>xs_completed := {''b''}\<rparr>) Map.empty"

lemma twin_resume:
  "\<exists>c. resume_conf twin_env twin_spec twin_saved = Inr c \<and> xs_step (cf_x c) = 1 \<and>
     take_ready twin_spec (cf_front c) \<noteq> None \<and> map fst (fst (the (take_ready twin_spec (cf_front c)))) = [''a'']"
proof -
  have saved: "sn_completed twin_saved = {''b''}" "sn_counts twin_saved = Map.empty" "sn_stack twin_saved = [twin_frame]"
    by (simp_all add: snapshot_of_def twin_done_def)
  have nodes: "map nd_id (wf_nodes twin_flow) = [''a'', ''b'']" by (simp add: twin_flow_def)
  let ?f0 = "new_frontier_state twin_spec {''b''}"
  have replay: "replay_completed twin_spec ''b'' Map.empty ?f0 = Some (mark_completed ''b'' 0 Map.empty ?f0)"
    by (simp add: replay_completed_def generation_def new_frontier_state_def twin_spec_def Let_def)
  have replays: "replay_nodes twin_env twin_spec twin_saved [''a'', ''b''] ?f0 = Inr (mark_completed ''b'' 0 Map.empty ?f0)"
    by (simp add: saved twin_env_simps twin_outgoing replay)
  have loops: "restore_loop_activations (fs_groups twin_spec) lc f = Some f" for lc f by (simp add: twin_spec_def)
  have none: "first_err (map (still_looping twin_env twin_saved) es) = None" for es
    by (induction es) (simp_all add: still_looping_def saved split: prod.splits)
  have ready: "take_ready twin_spec (mark_completed ''b'' 0 Map.empty ?f0) =
      Some ([(''a'', 0, [])], (mark_completed ''b'' 0 Map.empty ?f0)\<lparr>fr_running := {(''a'', 0)}\<rparr>)"
    by (simp add: take_ready_def ready_def ready_node_def new_frontier_state_def generation_def Let_def act_key_def
        mark_completed_def twin_spec_def)
  show ?thesis
    unfolding resume_conf_def none saved(1) twin_env_simps(7) nodes replays by (simp add: loops ready saved)
qed

lemma isolated_scope_never_runs_witness: "''a'' \<notin> sl_node ` set (cf_batch twin_settled)"
proof -
  have s: "twin_slot ''a'' 0 (Ended (Some ValueError)) \<in> set (cf_batch (twin_batch (Ended (Some ValueError)) (Ended None) twin_done))"
    by (simp add: twin_batch_def)
  have p: "sl_phase (twin_slot ''a'' 0 (Ended (Some ValueError))) = Ended (Some ValueError)" "\<not> stops_run ValueError"
    by (simp_all add: twin_slot_def)
  have n: "exec_node twin_env (sl_node (twin_slot ''a'' 0 (Ended (Some ValueError)))) = Some (wf_nodes twin_flow ! 0)"
    "nd_on_error (wf_nodes twin_flow ! 0) = on_error_mode.Isolate"
    by (simp_all add: twin_slot_def twin_nodes) (simp add: twin_flow_def)
  show ?thesis
    by (rule isolated_scope_never_runs [OF wf_twin twin_prefix twin_settle s p n trace_nil]) (simp add: twin_slot_def)
qed

text \<open>After an isolated failure a resumed run reserves a step number its trace already holds: this run
  isolates the failure of \<open>a\<close>, saves a checkpoint with the frame of \<open>b\<close>, and the first activation
  leased on resuming it, of \<open>a\<close> again, gets the step of that frame.\<close>

lemma resumed_step_repeats:
  "trace (exec_step twin_env twin_spec) twin_start [Take, Call 0, Call 1, Settle] twin_settled \<and> twin_saved \<in> set (cf_saved twin_settled) \<and>
   (\<exists>c0 c1 s. resume_conf twin_env twin_spec twin_saved = Inr c0 \<and> exec_step twin_env twin_spec c0 Take c1 \<and> s \<in> set (cf_batch c1) \<and>
     twin_frame \<in> set (xs_stack (cf_x c1)) \<and> sl_step s = tf_step twin_frame \<and> sl_node s \<noteq> tf_node twin_frame)"
proof -
  have mem: "twin_saved \<in> set (cf_saved twin_settled)"
    by (simp add: twin_settled_def save_def twin_env_simps start_conf_def)
  obtain c0 where c0: "resume_conf twin_env twin_spec twin_saved = Inr c0" "xs_step (cf_x c0) = 1"
    "take_ready twin_spec (cf_front c0) \<noteq> None" "map fst (fst (the (take_ready twin_spec (cf_front c0)))) = [''a'']"
    using twin_resume by (elim exE conjE) (rule that)
  obtain g ids f where take: "take_ready twin_spec (cf_front c0) = Some ([(''a'', g, ids)], f)"
    using c0(3,4) by (cases "take_ready twin_spec (cf_front c0)") auto
  have sub: "map nd_id (wf_nodes (xv_wf twin_env)) = fs_nodes twin_spec" "sn_completed twin_saved \<subseteq> set (fs_nodes twin_spec)"
    by (simp_all add: twin_env_simps twin_flow_def twin_spec_def snapshot_of_def)
  note st = resume_state [OF wf_twin sub c0(1)]
  have stack: "xs_stack (cf_x c0) = [twin_frame]" using st(9) by (simp add: snapshot_of_def twin_done_def)
  let ?c1 = "c0\<lparr>cf_front := f, cf_batch := make_slots 1 [(''a'', g, ids)], cf_x := (cf_x c0)\<lparr>xs_step := 2\<rparr>\<rparr>"
  let ?s = "\<lparr>sl_node = ''a'', sl_epoch = g, sl_enabled = ids, sl_step = 1, sl_phase = Waiting\<rparr>"
  have step: "exec_step twin_env twin_spec c0 Take ?c1"
    using take st(6,8) c0(2) by (simp add: exec_step_def)
  have slot: "?s \<in> set (cf_batch ?c1)" by (simp add: make_slots_def)
  have frame: "twin_frame \<in> set (xs_stack (cf_x ?c1))" using stack by simp
  have same: "sl_step ?s = tf_step twin_frame" "sl_node ?s \<noteq> tf_node twin_frame" by (simp_all add: twin_frame_def)
  show ?thesis using twin_run mem c0(1) step slot frame same by blast
qed

end
