(* ===== verification/Serialize.thy ===== *)
theory Serialize
  imports Loader_Parse
begin

text \<open>
  \<open>flow/builder/serialize.py\<close>: a workflow written back as the JSON document it parses from.
  A dict the code fills by successive assignments to new keys is a list of entries, some of
  them conditional. \<open>cond.children[0]\<close> of a \<open>not\<close> without children is the one access that can
  raise. That the text \<open>json.dumps\<close> writes reads back as the same value is the library's part.
\<close>

section \<open>Entries that are there or not\<close>

definition emit :: "bool \<Rightarrow> string \<Rightarrow> pyval \<Rightarrow> (string \<times> pyval) list" where
  "emit b k v = (if b then [(k, v)] else [])"

definition emit_opt :: "string \<Rightarrow> ('a \<Rightarrow> pyval) \<Rightarrow> 'a option \<Rightarrow> (string \<times> pyval) list" where
  "emit_opt k f x = (case x of None \<Rightarrow> [] | Some y \<Rightarrow> [(k, f y)])"

section \<open>Conditions, ports, edges, schedules\<close>

fun condition_to_dict :: "condition \<Rightarrow> pyexc + pyval" where
  "condition_to_dict (Condition op v t cs) =
     (if op \<in> {Equals, Contains, Gt, Gte, Lt, Lte}
      then Inr (VDict [(op_name op, VDict [(''value'', opt_val VStr v), (''text'', opt_val VStr t)])])
      else if op = NotC
      then (case cs of [] \<Rightarrow> Inl IndexError
            | c # _ \<Rightarrow> raise_bind (condition_to_dict c) (\<lambda>x. Inr (VDict [(''not'', x)])))
      else raise_bind (raise_map condition_to_dict cs) (\<lambda>xs. Inr (VDict [(op_name op, VList xs)])))"

definition port_to_json :: "port \<Rightarrow> pyval" where
  "port_to_json p =
     (if py_eq (VDict (port_schema p)) (VDict string_schema) \<and> port_required p then VStr (port_name p)
      else VDict [(''name'', VStr (port_name p)), (''schema'', VDict (port_schema p)),
                  (''required'', VBool (port_required p))])"

definition ports_to_json :: "port list \<Rightarrow> pyval" where
  "ports_to_json ps = VList (map port_to_json ps)"

definition strings :: "string list \<Rightarrow> pyval" where
  "strings xs = VList (map VStr xs)"

definition edge_to_dict :: "edge_def \<Rightarrow> pyexc + pyval" where
  "edge_to_dict e =
     raise_bind (case edge_when e of None \<Rightarrow> Inr None
                 | Some c \<Rightarrow> raise_bind (condition_to_dict c) (\<lambda>x. Inr (Some x))) (\<lambda>when.
       Inr (VDict
         ([(''from'', VStr (src e)), (''to'', VStr (dst e))]
          @ emit (mapping e \<noteq> []) ''map'' (VDict (dict_of (map (\<lambda>(s, d). (s, VStr d)) (mapping e))))
          @ (if loop_strict e
             then [(''while'', VDict [(''cond'', case when of None \<Rightarrow> VDict [] | Some x \<Rightarrow> x),
                                      (''max'', opt_val VInt (loop_max e))])]
             else emit_opt ''when'' (\<lambda>x. x) when
                  @ emit_opt ''loop'' (\<lambda>m. VDict [(''max'', VInt m)]) (loop_max e))
          @ emit_opt ''fan_out'' VStr (fan_out e)
          @ emit_opt ''fan_in'' (\<lambda>m. VStr (fan_in_name m)) (fan_in e))))"

fun mode_name :: "sched_mode \<Rightarrow> string" where
  "mode_name Timer = ''timer''"
| "mode_name Hook = ''hook''"

definition schedule_to_dict :: "schedule_def \<Rightarrow> pyval" where
  "schedule_to_dict s = VDict
     ([(''mode'', VStr (mode_name (sch_mode s)))]
      @ emit_opt ''every'' VStr (sch_every s)
      @ emit_opt ''cron'' VStr (sch_cron s)
      @ emit (sch_inputs s \<noteq> []) ''inputs'' (VDict (dict_of (sch_inputs s)))
      @ emit_opt ''signal'' VStr (sch_signal s)
      @ emit_opt ''listen'' VDict (sch_listen s)
      @ emit_opt ''timeout'' VStr (sch_timeout s)
      @ emit_opt ''jitter'' VStr (sch_jitter s))"

section \<open>Nodes and workflows\<close>

fun type_label :: "node_type \<Rightarrow> string" where
  "type_label Agent = ''agent''"
| "type_label Script = ''script''"
| "type_label Human = ''human''"
| "type_label Subflow = ''subflow''"

text \<open>The entries every kind of node writes, and those a subflow node does not.\<close>

definition common_entries :: "node_def \<Rightarrow> (string \<times> pyval) list" where
  "common_entries n =
     [(''id'', VStr (nd_id n)), (''type'', VStr (type_label (nd_type n)))]
     @ emit (nd_signal n \<noteq> []) ''signal'' (VStr (nd_signal n))
     @ emit_opt ''model'' VStr (nd_model n)
     @ emit (nd_system_prompt n \<noteq> []) ''system_prompt'' (VStr (nd_system_prompt n))
     @ emit (nd_prompt n \<noteq> []) ''prompt'' (VStr (nd_prompt n))
     @ emit (nd_tools n \<noteq> []) ''tools'' (strings (nd_tools n))
     @ emit (nd_skills n \<noteq> []) ''skills'' (strings (nd_skills n))
     @ emit_opt ''run'' VStr (nd_run n)
     @ emit_opt ''code'' VStr (nd_code n)
     @ emit_opt ''retry'' (\<lambda>r. VDict [(''max'', VInt (retry_max r)), (''backoff'', VFloat (retry_backoff r))]) (nd_retry n)
     @ emit (nd_on_error n \<noteq> Fail) ''on_error'' (VStr ''isolate'')
     @ emit (nd_deterministic n) ''deterministic'' (VBool True)"

definition own_entries :: "node_def \<Rightarrow> (string \<times> pyval) list" where
  "own_entries n =
     emit (nd_input_ports n \<noteq> []) ''inputs'' (ports_to_json (nd_input_ports n))
     @ emit (nd_output_ports n \<noteq> []) ''outputs'' (ports_to_json (nd_output_ports n))
     @ emit (nd_web_search n) ''web_search'' (VBool True)
     @ emit_opt ''web_search_model'' VStr (nd_web_search_model n)
     @ emit_opt ''backend'' VStr (nd_backend n)
     @ emit (nd_allowed_tools n \<noteq> []) ''allowed_tools'' (strings (nd_allowed_tools n))
     @ emit (nd_mcp_servers n \<noteq> []) ''mcp_servers'' (VDict (dict_of (map (\<lambda>(k, spec). (k, VDict spec)) (nd_mcp_servers n))))
     @ emit_opt ''inherit'' (\<lambda>s. VDict [(''from'', VStr (from_node s))]) (nd_inherit n)"

definition workflow_entries :: "workflow_def \<Rightarrow> (string \<times> pyval) list" where
  "workflow_entries w =
     [(''name'', VStr (wf_name w)), (''provider'', VStr (wf_provider w))]
     @ emit (wf_default_model w \<noteq> []) ''defaults'' (VDict [(''model'', VStr (wf_default_model w))])
     @ emit (wf_entry w \<noteq> []) ''entry'' (VStr (wf_entry w))
     @ emit (wf_tool_refs w \<noteq> []) ''tools'' (VDict (dict_of (map (\<lambda>(k, ref). (k, VStr ref)) (wf_tool_refs w))))
     @ emit (wf_initial_state w \<noteq> []) ''state'' (VDict (dict_of (wf_initial_state w)))
     @ emit (wf_in_schema w \<noteq> []) ''in_schema'' (VDict (dict_of (map (\<lambda>(k, s). (k, VDict s)) (wf_in_schema w))))
     @ emit (wf_max_concurrency w \<noteq> 0) ''max_concurrency'' (VInt (wf_max_concurrency w))
     @ emit (wf_fan_max_concurrency w \<noteq> 0) ''fan_max_concurrency'' (VInt (wf_fan_max_concurrency w))
     @ emit_opt ''schedule'' schedule_to_dict (wf_schedule w)"

lemma size_child [termination_simp]: "nd_child n = Some c \<Longrightarrow> size c < size n"
  by (cases n) simp

lemma size_node [termination_simp]: "n \<in> set (wf_nodes w) \<Longrightarrow> size n < size w"
proof (cases w)
  case (WorkflowDef a b c ns)
  assume "n \<in> set (wf_nodes w)"
  then have "size n < Suc (size_list size ns)"
    using WorkflowDef size_list_estimation' [of n ns "size n" size] by (simp add: less_Suc_eq_le)
  then show ?thesis using WorkflowDef by simp
qed

fun node_to_dict :: "node_def \<Rightarrow> pyexc + pyval"
and workflow_to_dict :: "workflow_def \<Rightarrow> pyexc + pyval" where
  "node_to_dict n =
     (if nd_type n \<noteq> Subflow then Inr (VDict (common_entries n @ own_entries n))
      else (case nd_child n of None \<Rightarrow> Inr (VDict (common_entries n))
            | Some c \<Rightarrow> raise_bind (workflow_to_dict c) (\<lambda>x. Inr (VDict (common_entries n @ [(''subflow'', x)])))))"
| "workflow_to_dict w =
     raise_bind (raise_map node_to_dict (wf_nodes w)) (\<lambda>nodes.
     raise_bind (raise_map edge_to_dict (wf_edges w)) (\<lambda>edges.
       Inr (VDict (workflow_entries w @ [(''nodes'', VList nodes), (''edges'', VList edges)]))))"

end
