(* ===== verification/Serialize_Trip.thy ===== *)
theory Serialize_Trip
  imports Serialize
begin

text \<open>
  The round-trip law of \<open>serialize.py\<close>: what a workflow is written as parses back to it.
\<close>

section \<open>Looking an entry up\<close>

lemma map_of_emit [simp]:
  "map_of (emit b k v) k' = (if b \<and> k' = k then Some v else None)"
  "(m ++ map_of (emit b k v)) k' = (if b \<and> k' = k then Some v else m k')"
  by (simp_all add: emit_def map_add_def)

lemma map_of_emit_opt [simp]:
  "map_of (emit_opt k f x) k' = (if k' = k then map_option f x else None)"
  "(m ++ map_of (emit_opt k f x)) k' = (if k' = k \<and> x \<noteq> None then map_option f x else m k')"
  by (simp_all add: emit_opt_def map_add_def split: option.split)

lemma keys_emit: "fst ` set (emit b k v) = (if b then {k} else {})" "fst ` set (emit_opt k f x) = (if x \<noteq> None then {k} else {})"
  by (simp add: emit_def, cases x) (simp_all add: emit_opt_def)

lemma raise_map_trip:
  assumes "\<And>y. y \<in> set ys \<Longrightarrow> \<exists>x. f y = Inr x \<and> (\<forall>a. g a x = Inr y)"
  shows "\<exists>xs. raise_map f ys = Inr xs \<and> (\<forall>a. raise_map (g a) xs = Inr ys)"
  using assms
proof (induction ys)
  case (Cons y ys)
  obtain x where "f y = Inr x" "\<forall>a. g a x = Inr y" using Cons.prems [of y] by auto
  moreover obtain xs where "raise_map f ys = Inr xs" "\<forall>a. raise_map (g a) xs = Inr ys"
    using Cons.IH Cons.prems by auto
  ultimately show ?case by auto
qed simp

section \<open>The parts of a document\<close>

fun condition_ok :: "condition \<Rightarrow> bool" where
  "condition_ok (Condition op v t cs) =
     (if op \<in> {Equals, Contains, Gt, Gte, Lt, Lte} then v \<noteq> None \<and> t \<noteq> None \<and> cs = []
      else v = None \<and> t = None \<and> (op = NotC \<longrightarrow> length cs = 1) \<and> (\<forall>c \<in> set cs. condition_ok c))"

lemma leaf_op_name:
  "op \<in> {Equals, Contains, Gt, Gte, Lt, Lte} \<Longrightarrow> leaf_op [(op_name op, x)] = Some (op, x)"
  by (cases op) (simp_all add: leaf_op_def)

lemma condition_trip:
  "condition_ok c \<Longrightarrow> \<exists>x. condition_to_dict c = Inr x \<and> parse_condition x = Inr c"
proof (induction c)
  case (Condition op v t cs)
  show ?case
  proof (cases "op \<in> {Equals, Contains, Gt, Gte, Lt, Lte}")
    case True
    then obtain a b where "v = Some a" "t = Some b" "cs = []" using Condition.prems by auto
    moreover have "operand_pair op (VDict [(''value'', VStr a), (''text'', VStr b)]) = Inr (Condition op (Some a) (Some b) [])"
      by (simp add: operand_pair_def py_index_def)
    ultimately show ?thesis using True leaf_op_name [OF True] by (simp add: parse_condition.simps opt_val_def)
  next
    case False
    then have vt: "v = None" "t = None" "\<forall>c \<in> set cs. condition_ok c" "op = NotC \<longrightarrow> length cs = 1"
      using Condition.prems by auto
    then obtain xs where xs: "raise_map condition_to_dict cs = Inr xs" "raise_map parse_condition xs = Inr cs"
      using Condition.IH raise_map_trip [of cs condition_to_dict "\<lambda>_ :: unit. parse_condition"] by blast
    consider "op = NotC" | "op = AndC" | "op = OrC" using False by (cases op) auto
    then show ?thesis
    proof cases
      case 1
      then obtain c where cs: "cs = [c]" using vt(4) by (cases cs) auto
      then obtain x where "condition_to_dict c = Inr x" "parse_condition x = Inr c"
        using xs by (auto simp: raise_bind_Inr_iff)
      then show ?thesis using 1 cs vt by (simp add: parse_condition.simps leaf_op_def)
    next
      case 2
      then show ?thesis using xs vt by (simp add: parse_condition.simps leaf_op_def cond_elems_def)
    next
      case 3
      then show ?thesis using xs vt by (simp add: parse_condition.simps leaf_op_def cond_elems_def)
    qed
  qed
qed

lemma string_schema_eq:
  assumes "py_eq (VDict s) (VDict string_schema)"
  shows "s = string_schema"
proof -
  have "length s = 1" and d: "py_eq_dict s string_schema" using assms by (simp_all add: string_schema_def)
  then obtain k v where s: "s = [(k, v)]" by (cases s) auto
  then have "k = ''type''" and "py_eq v (VStr ''string'')"
    using d by (auto simp: string_schema_def split: if_splits)
  then show ?thesis using s by (cases v) (auto simp: string_schema_def)
qed

lemma port_trip: "parse_port (port_to_json p) = Inr p"
proof (cases "py_eq (VDict (port_schema p)) (VDict string_schema) \<and> port_required p")
  case True
  then have "port_schema p = string_schema" by (blast dest: string_schema_eq)
  then show ?thesis using True by (cases p) (simp add: parse_port_def port_to_json_def default_port_def)
next
  case False
  show ?thesis using False
    by (cases p) (simp only: parse_port_def port_to_json_def if_False, simp add: port_from_obj_def or_else_def)
qed

lemma ports_trip: "parse_ports (ports_to_json ps) = Inr ps"
  by (simp add: parse_ports_def ports_to_json_def py_iter_def raise_map_map port_trip raise_map_all_Inr [where g = "\<lambda>x. x", simplified])

lemma strings_trip: "str_list (strings xs) = Inr xs"
  by (auto simp: str_list_def strings_def py_iter_def o_def)


text \<open>A dict of strings, as \<open>{k: v for k, v in pairs}\<close> writes it and \<open>str(v)\<close> reads it back.\<close>

lemma dict_map_id [simp]: "distinct (map fst ps) \<Longrightarrow> dict_of (map (\<lambda>(k, v). (k, f v)) ps) = map (\<lambda>(k, v). (k, f v)) ps"
  by (rule dict_of_id) (simp add: case_prod_beta comp_def)

lemma str_pairs_trip [simp]: "map ((\<lambda>(k, x). (k, py_str x)) \<circ> (\<lambda>(k, v). (k, VStr v))) ps = ps"
  by (induction ps) auto

definition edge_writable :: "edge_def \<Rightarrow> bool" where
  "edge_writable e \<longleftrightarrow> edge_parsed e \<and> distinct (map fst (mapping e)) \<and> (\<forall>c. edge_when e = Some c \<longrightarrow> condition_ok c)"

text \<open>The guard of an edge and its dict: there are as many of both, and one reads as the other.\<close>

lemma guard_trip:
  assumes "edge_writable e"
  obtains x where "(case edge_when e of None \<Rightarrow> Inr None
      | Some c \<Rightarrow> raise_bind (condition_to_dict c) (\<lambda>x. Inr (Some x))) = (Inr x :: pyexc + pyval option)"
    and "x = None \<longleftrightarrow> edge_when e = None"
    and "\<And>c y. edge_when e = Some c \<Longrightarrow> x = Some y \<Longrightarrow> parse_condition y = Inr c"
proof (cases "edge_when e")
  case None
  then show ?thesis by (intro that [of None]) auto
next
  case (Some c)
  then obtain y where "condition_to_dict c = Inr y" "parse_condition y = Inr c"
    using assms condition_trip by (auto simp: edge_writable_def)
  then show ?thesis using Some by (intro that [of "Some y"]) auto
qed

lemma loop_trip:
  assumes "edge_parsed e" and x: "x = None \<longleftrightarrow> edge_when e = None"
    and c: "\<And>c y. edge_when e = Some c \<Longrightarrow> x = Some y \<Longrightarrow> parse_condition y = Inr c"
    and d: "map_of d ''when'' = (if loop_strict e then None else x)"
      "map_of d ''while'' = (if loop_strict e then Some (VDict [(''cond'', case x of None \<Rightarrow> VDict [] | Some y \<Rightarrow> y), (''max'', opt_val VInt (loop_max e))]) else None)"
      "map_of d ''loop'' = (if loop_strict e then None else map_option (\<lambda>m. VDict [(''max'', VInt m)]) (loop_max e))"
  shows "parse_loop (VDict d) = Inr (edge_when e, loop_max e, loop_strict e)"
proof (cases "loop_strict e")
  case True
  then obtain m g y where e: "loop_max e = Some m" "edge_when e = Some g" "x = Some y" "1 \<le> m"
    using assms(1) x by (auto simp: edge_parsed_def)
  then have "parse_condition y = Inr g" using c by blast
  then show ?thesis using True e d
    by (simp add: parse_loop_def py_in_def py_index_def py_get_def parse_while_def positive_bound_def py_int_def opt_val_def)
next
  case False
  have pos: "positive_bound (VInt m) = Inr m" if "loop_max e = Some m" for m
    using assms(1) that by (auto simp: edge_parsed_def positive_bound_def py_int_def)
  show ?thesis
  proof (cases "edge_when e")
    case None
    then show ?thesis using False d x pos
      by (cases "loop_max e") (simp_all add: parse_loop_def py_in_def py_index_def py_get_def)
  next
    case (Some g)
    then obtain y where y: "x = Some y" "parse_condition y = Inr g" using x c by (cases x) auto
    then show ?thesis using False d Some pos
      by (cases "loop_max e") (simp_all add: parse_loop_def py_in_def py_index_def py_get_def)
  qed
qed

lemma fan_in_trip: "parse_fan_in (map_option (\<lambda>m. VStr (fan_in_name m)) f) = Inr f"
  by (cases f; cases "the f") (simp_all add: parse_fan_in_def get_opt_def)

lemma edge_trip:
  assumes "edge_writable e"
  shows "\<exists>x. edge_to_dict e = Inr x \<and> parse_edge x = Inr e"
proof -
  obtain x where x: "(case edge_when e of None \<Rightarrow> Inr None
      | Some c \<Rightarrow> raise_bind (condition_to_dict c) (\<lambda>x. Inr (Some x))) = (Inr x :: pyexc + pyval option)"
    "x = None \<longleftrightarrow> edge_when e = None"
    and c: "\<And>c y. edge_when e = Some c \<Longrightarrow> x = Some y \<Longrightarrow> parse_condition y = Inr c"
    using guard_trip [OF assms] by blast
  define d where "d = [(''from'', VStr (src e)), (''to'', VStr (dst e))]
          @ emit (mapping e \<noteq> []) ''map'' (VDict (dict_of (map (\<lambda>(s, d). (s, VStr d)) (mapping e))))
          @ (if loop_strict e
             then [(''while'', VDict [(''cond'', case x of None \<Rightarrow> VDict [] | Some x \<Rightarrow> x),
                                      (''max'', opt_val VInt (loop_max e))])]
             else emit_opt ''when'' (\<lambda>x. x) x
                  @ emit_opt ''loop'' (\<lambda>m. VDict [(''max'', VInt m)]) (loop_max e))
          @ emit_opt ''fan_out'' VStr (fan_out e)
          @ emit_opt ''fan_in'' (\<lambda>m. VStr (fan_in_name m)) (fan_in e)"
  have out: "edge_to_dict e = Inr (VDict d)" by (simp add: edge_to_dict_def x(1) d_def)
  have keys: "map_of d ''from'' = Some (VStr (src e))" "map_of d ''to'' = Some (VStr (dst e))"
    "map_of d ''map'' = (if mapping e \<noteq> [] then Some (VDict (map (\<lambda>(s, d). (s, VStr d)) (mapping e))) else None)"
    "map_of d ''fan_out'' = map_option VStr (fan_out e)"
    "map_of d ''fan_in'' = map_option (\<lambda>m. VStr (fan_in_name m)) (fan_in e)"
    using assms by (simp_all add: d_def edge_writable_def)
  have "parse_loop (VDict d) = Inr (edge_when e, loop_max e, loop_strict e)"
  proof (rule loop_trip [OF _ x(2) c])
    show "edge_parsed e" using assms by (simp add: edge_writable_def)
    show "map_of d ''when'' = (if loop_strict e then None else x)" by (cases x) (simp_all add: d_def)
    show "map_of d ''while'' = (if loop_strict e then Some (VDict [(''cond'', case x of None \<Rightarrow> VDict [] | Some y \<Rightarrow> y), (''max'', opt_val VInt (loop_max e))]) else None)"
      by (simp add: d_def)
    show "map_of d ''loop'' = (if loop_strict e then None else map_option (\<lambda>m. VDict [(''max'', VInt m)]) (loop_max e))"
      by (cases "loop_max e") (simp_all add: d_def)
  qed
  moreover have "map (\<lambda>(k, x). (k, py_str x)) (dict_items (or_else (VDict []) (map_of d ''map''))) = mapping e"
    by (simp add: keys dict_items_def or_else_def del: list.map)
  moreover have "map_option py_str (get_opt (map_of d ''fan_out'')) = fan_out e"
    by (cases "fan_out e") (simp_all add: keys get_opt_def)
  ultimately have "parse_edge (VDict d) = Inr e"
    by (simp add: parse_edge_def py_get_def py_index_def keys fan_in_trip)
  then show ?thesis using out by blast
qed


section \<open>Schedules\<close>

definition listens :: "(string \<times> pyval) list \<Rightarrow> bool" where
  "listens l \<longleftrightarrow> or_else VNone (map_of l ''type'') \<in> {VStr ''http'', VStr ''file'', VStr ''socket''}"

definition schedule_ok :: "schedule_def \<Rightarrow> bool" where
  "schedule_ok s \<longleftrightarrow> schedule_parsed s \<and> distinct (map fst (sch_inputs s)) \<and>
     (sch_mode s = Hook \<longrightarrow> sch_jitter s = None \<and> (\<forall>l. sch_listen s = Some l \<longrightarrow> listens l))"

lemma schedule_keys:
  assumes "distinct (map fst (sch_inputs s))" and "schedule_to_dict s = VDict d"
  shows "map_of d ''mode'' = Some (VStr (mode_name (sch_mode s)))"
    "map_of d ''every'' = map_option VStr (sch_every s)" "map_of d ''cron'' = map_option VStr (sch_cron s)"
    "map_of d ''inputs'' = (if sch_inputs s \<noteq> [] then Some (VDict (sch_inputs s)) else None)"
    "map_of d ''signal'' = map_option VStr (sch_signal s)" "map_of d ''listen'' = map_option VDict (sch_listen s)"
    "map_of d ''timeout'' = map_option VStr (sch_timeout s)" "map_of d ''jitter'' = map_option VStr (sch_jitter s)"
  using assms by (auto simp: schedule_to_dict_def dict_of_id)

lemma opt_str_trip [simp]: "map_option py_str (get_opt (map_option VStr x)) = x"
  by (cases x) (simp_all add: get_opt_def)

lemma duration_trip: "duration_ok x \<Longrightarrow> duration (map_option VStr x) = Inr x"
  by (cases x) (simp_all add: duration_ok_def duration_def get_opt_def)

lemma schedule_trip:
  assumes "schedule_ok s"
  shows "parse_schedule (Some (schedule_to_dict s)) = Inr (Some s)"
proof -
  obtain d where d: "schedule_to_dict s = VDict d" by (simp add: schedule_to_dict_def)
  have dis: "distinct (map fst (sch_inputs s))" using assms by (simp add: schedule_ok_def)
  note keys = schedule_keys [OF dis d]
  have ins: "schedule_inputs (map_of d ''inputs'') = Inr (sch_inputs s)"
    by (simp add: keys schedule_inputs_def or_else_def)
  have dur: "duration (map_option VStr (sch_timeout s)) = Inr (sch_timeout s)"
    "duration (map_option VStr (sch_jitter s)) = Inr (sch_jitter s)"
    using assms by (simp_all add: duration_trip schedule_ok_def schedule_parsed_def)
  show ?thesis
  proof (cases "sch_mode s")
    case Timer
    then have ok: "(sch_every s = None) \<noteq> (sch_cron s = None)" "duration_ok (sch_every s)"
      "\<And>c. sch_cron s = Some c \<Longrightarrow> length (split_ws c) = 5" "sch_signal s = None" "sch_listen s = None"
      using assms by (simp_all add: schedule_ok_def schedule_parsed_def)
    then have "parse_timer d (sch_inputs s) = Inr s"
      using Timer dur by (cases s; cases "sch_every s"; cases "sch_cron s")
        (simp_all add: parse_timer_def keys duration_ok_def get_opt_def Let_def)
    then show ?thesis using Timer by (simp add: parse_schedule_def d get_opt_def keys(1) ins or_else_def)
  next
    case Hook
    then obtain g l where ok: "sch_every s = None" "sch_cron s = None" "sch_signal s = Some g" "g \<noteq> []"
      "sch_listen s = Some l" "listens l" "sch_jitter s = None"
      using assms by (auto simp: schedule_ok_def schedule_parsed_def)
    then have "parse_hook d (sch_inputs s) = Inr s"
      using Hook dur by (cases s) (simp add: parse_hook_def keys listens_def)
    then show ?thesis using Hook by (simp add: parse_schedule_def d get_opt_def keys(1) ins or_else_def)
  qed
qed

section \<open>Nodes\<close>

definition retry_ok :: "retry_policy option \<Rightarrow> bool" where
  "retry_ok x \<longleftrightarrow> (\<forall>r. x = Some r \<longrightarrow> 0 \<le> retry_max r \<and> \<not> pf_less (retry_backoff r) (PFin 0))"

lemma retry_trip:
  "retry_ok x \<Longrightarrow> parse_retry (map_option (\<lambda>r. VDict [(''max'', VInt (retry_max r)), (''backoff'', VFloat (retry_backoff r))]) x) = Inr x"
  by (cases x) (auto simp: retry_ok_def parse_retry_def get_opt_def or_else_def is_int_def is_number_def num_negative_def
      py_int_def py_float_def)

lemma mcp_trip:
  "parse_mcp (if ps \<noteq> [] then Some (VDict (map (\<lambda>(k, spec). (k, VDict spec)) ps)) else None) = Inr ps"
  by (induction ps) (auto simp: parse_mcp_def or_else_def dict_items_def split: if_splits)

lemma inherit_trip:
  "(\<And>s. x = Some s \<Longrightarrow> from_node s \<noteq> []) \<Longrightarrow>
    parse_inherit i (map_option (\<lambda>s. VDict [(''from'', VStr (from_node s))]) x) = Inr x"
  by (cases x) (simp_all add: parse_inherit_def get_opt_def)

lemma type_trip: "parse_type (Some (VStr (type_label t))) = Inr t"
  by (cases t) (simp_all add: parse_type_def or_else_def)

lemma on_error_trip: "parse_on_error (if m \<noteq> Fail then Some (VStr ''isolate'') else None) = Inr m"
  by (cases m) (simp_all add: parse_on_error_def or_else_def)

lemma strings_opt_trip: "str_list (or_else (VList []) (if xs \<noteq> [] then Some (strings xs) else None)) = Inr xs"
  by (cases "xs = []") (simp_all add: or_else_def strings_trip, simp add: str_list_def)

lemma ports_opt_trip: "parse_ports (or_else (VList []) (if ps \<noteq> [] then Some (ports_to_json ps) else None)) = Inr ps"
  by (cases "ps = []") (simp_all add: or_else_def ports_trip, simp add: parse_ports_def)


text \<open>What a subflow node can carry and is not written: the fields of the other kinds.\<close>

definition bare :: "node_def \<Rightarrow> bool" where
  "bare n \<longleftrightarrow> \<not> nd_web_search n \<and> nd_web_search_model n = None \<and> nd_backend n = None \<and> nd_allowed_tools n = [] \<and>
     nd_mcp_servers n = [] \<and> nd_inherit n = None"

text \<open>The parts of a node that are read from its common entries, whatever follows them.\<close>

definition tail_keys :: "string set" where
  "tail_keys = {''subflow'', ''inputs'', ''outputs'', ''web_search'', ''web_search_model'', ''backend'',
     ''allowed_tools'', ''mcp_servers'', ''inherit''}"

definition carries :: "node_def \<Rightarrow> (string \<times> pyval) list \<Rightarrow> bool" where
  "carries n d \<longleftrightarrow>
     map_of d ''id'' = Some (VStr (nd_id n)) \<and> map_of d ''type'' = Some (VStr (type_label (nd_type n))) \<and>
     map_of d ''signal'' = (if nd_signal n \<noteq> [] then Some (VStr (nd_signal n)) else None) \<and>
     map_of d ''model'' = map_option VStr (nd_model n) \<and>
     map_of d ''system_prompt'' = (if nd_system_prompt n \<noteq> [] then Some (VStr (nd_system_prompt n)) else None) \<and>
     map_of d ''prompt'' = (if nd_prompt n \<noteq> [] then Some (VStr (nd_prompt n)) else None) \<and>
     map_of d ''tools'' = (if nd_tools n \<noteq> [] then Some (strings (nd_tools n)) else None) \<and>
     map_of d ''skills'' = (if nd_skills n \<noteq> [] then Some (strings (nd_skills n)) else None) \<and>
     map_of d ''run'' = map_option VStr (nd_run n) \<and> map_of d ''code'' = map_option VStr (nd_code n) \<and>
     map_of d ''retry'' = map_option (\<lambda>r. VDict [(''max'', VInt (retry_max r)), (''backoff'', VFloat (retry_backoff r))]) (nd_retry n) \<and>
     map_of d ''on_error'' = (if nd_on_error n \<noteq> Fail then Some (VStr ''isolate'') else None) \<and>
     map_of d ''deterministic'' = (if nd_deterministic n then Some (VBool True) else None)"

lemma carries_common:
  assumes "fst ` set rest \<subseteq> tail_keys"
  shows "carries n (common_entries n @ rest)"
proof -
  have none: "map_of rest k = None" if "k \<notin> tail_keys" for k
    using that assms(1) by (auto simp: map_of_eq_None_iff)
  show ?thesis unfolding carries_def
    by (intro conjI; simp add: common_entries_def none tail_keys_def)
qed

lemma opt_str_field_trip [simp]: "opt_str_field (map_option VStr x) = Inr x"
  by (cases x) (simp_all add: opt_str_field_def)

lemma str_field_trip [simp]: "str_field (if s \<noteq> [] then Some (VStr s) else None) = Inr s"
  by (simp add: str_field_def)

lemma flag_trip: "truthy (or_else (VBool False) (if b then Some (VBool True) else None)) = b"
  by (simp add: or_else_def)

lemma head_trip:
  assumes "carries n d" and "retry_ok (nd_retry n)"
    and "parse_ports (or_else (VList []) (map_of d ''inputs'')) = Inr ins"
    and "parse_ports (or_else (VList []) (map_of d ''outputs'')) = Inr outs"
  shows "parse_node_head (VDict d) = Inr \<lparr>nh_tools = nd_tools n, nh_skills = nd_skills n, nh_id = nd_id n,
    nh_retry = nd_retry n, nh_on_error = nd_on_error n, nh_type = nd_type n, nh_signal = nd_signal n,
    nh_inputs = ins, nh_outputs = outs\<rparr>"
  using assms(1) unfolding carries_def
  by (simp only: parse_node_head_def pyval.case raise_bind_simps strings_opt_trip type_trip on_error_trip retry_trip [OF assms(2)]
      py_index_def option.case assms(3,4) py_str.simps) (simp add: or_else_def)

lemma build_trip:
  assumes "carries n d" and h: "nh_tools h = nd_tools n" "nh_skills h = nd_skills n" "nh_id h = nd_id n"
    "nh_retry h = nd_retry n" "nh_on_error h = nd_on_error n" "nh_type h = nd_type n" "nh_signal h = nd_signal n"
    and "str_list (or_else (VList []) (map_of d ''allowed_tools'')) = Inr (nd_allowed_tools n)"
    and "parse_mcp (map_of d ''mcp_servers'') = Inr (nd_mcp_servers n)"
    and "parse_inherit (nd_id n) (map_of d ''inherit'') = Inr (nd_inherit n)"
    and "map_of d ''web_search'' = (if nd_web_search n then Some (VBool True) else None)"
    and "map_of d ''web_search_model'' = map_option VStr (nd_web_search_model n)"
    and "map_of d ''backend'' = map_option VStr (nd_backend n)"
  shows "build_node d h (nd_child n) (nd_input_ports n) (nd_output_ports n) = Inr n"
  using assms(1) unfolding carries_def
  by (simp only: build_node_def assms(2-) raise_bind_simps opt_str_field_trip str_field_trip opt_str_trip flag_trip
      node_def.collapse)


lemma own_keys: "fst ` set (own_entries n) \<subseteq> tail_keys"
  by (simp add: own_entries_def image_Un keys_emit tail_keys_def)

lemma map_of_common_none: "k \<in> tail_keys \<Longrightarrow> map_of (common_entries n) k = None"
  unfolding tail_keys_def by (elim insertE emptyE) (simp_all add: common_entries_def)

lemma tail_lookup: "k \<in> tail_keys \<Longrightarrow> map_of (common_entries n @ rest) k = map_of rest k"
  by (simp add: map_of_common_none map_add_def split: option.split)

lemma plain_node_trip:
  assumes ok: "node_parsed n" "retry_ok (nd_retry n)" "distinct (map fst (nd_mcp_servers n))" and t: "nd_type n \<noteq> Subflow"
  shows "parse_node env base seen (VDict (common_entries n @ own_entries n)) = Inr n"
proof -
  define d where "d = common_entries n @ own_entries n"
  have c: "carries n d" unfolding d_def by (rule carries_common [OF own_keys])
  have keys: "map_of d ''inputs'' = (if nd_input_ports n \<noteq> [] then Some (ports_to_json (nd_input_ports n)) else None)"
    "map_of d ''outputs'' = (if nd_output_ports n \<noteq> [] then Some (ports_to_json (nd_output_ports n)) else None)"
    "map_of d ''web_search'' = (if nd_web_search n then Some (VBool True) else None)"
    "map_of d ''web_search_model'' = map_option VStr (nd_web_search_model n)"
    "map_of d ''backend'' = map_option VStr (nd_backend n)"
    "map_of d ''allowed_tools'' = (if nd_allowed_tools n \<noteq> [] then Some (strings (nd_allowed_tools n)) else None)"
    "map_of d ''mcp_servers'' = (if nd_mcp_servers n \<noteq> [] then Some (VDict (map (\<lambda>(k, spec). (k, VDict spec)) (nd_mcp_servers n))) else None)"
    "map_of d ''inherit'' = map_option (\<lambda>s. VDict [(''from'', VStr (from_node s))]) (nd_inherit n)"
    unfolding d_def using ok(3) by (simp_all add: tail_lookup tail_keys_def del: map_of_append) (simp_all add: own_entries_def)
  have child: "nd_child n = None" and inh: "\<And>s. nd_inherit n = Some s \<Longrightarrow> from_node s \<noteq> []"
    using ok(1) t by (simp_all add: node_parsed_def)
  let ?h = "\<lparr>nh_tools = nd_tools n, nh_skills = nd_skills n, nh_id = nd_id n, nh_retry = nd_retry n,
    nh_on_error = nd_on_error n, nh_type = nd_type n, nh_signal = nd_signal n,
    nh_inputs = nd_input_ports n, nh_outputs = nd_output_ports n\<rparr>"
  have h: "parse_node_head (VDict d) = Inr ?h"
    by (rule head_trip [OF c ok(2)]) (simp_all only: keys ports_opt_trip)
  have "build_node d ?h (nd_child n) (nd_input_ports n) (nd_output_ports n) = Inr n"
    by (rule build_trip [OF c]) (simp_all only: keys strings_opt_trip mcp_trip inherit_trip [OF inh] node_head.simps)
  then have "parse_node env base seen (VDict d) = Inr n"
    using h t child by (simp add: parse_node.simps dict_items_def)
  then show ?thesis by (simp add: d_def)
qed

lemma subflow_node_trip:
  assumes ok: "node_parsed n" "retry_ok (nd_retry n)" "bare n" and t: "nd_type n = Subflow" and c: "nd_child n = Some w"
    and x: "parse_workflow env base seen (VDict x) = Inr w"
  shows "parse_node env base seen (VDict (common_entries n @ [(''subflow'', VDict x)])) = Inr n"
proof -
  define d where "d = common_entries n @ [(''subflow'', VDict x)]"
  have car: "carries n d" unfolding d_def by (rule carries_common) (simp add: tail_keys_def)
  have keys: "map_of d ''inputs'' = None" "map_of d ''outputs'' = None" "map_of d ''web_search'' = None"
    "map_of d ''web_search_model'' = None" "map_of d ''backend'' = None" "map_of d ''allowed_tools'' = None"
    "map_of d ''mcp_servers'' = None" "map_of d ''inherit'' = None" "map_of d ''subflow'' = Some (VDict x)"
    unfolding d_def by (simp_all add: tail_lookup tail_keys_def del: map_of_append)
  have ports: "nd_input_ports n = derived_ports (input_properties w)" "nd_output_ports n = derived_ports (output_properties w)"
    using ok(1) c by (simp_all add: node_parsed_def)
  let ?h = "\<lparr>nh_tools = nd_tools n, nh_skills = nd_skills n, nh_id = nd_id n, nh_retry = nd_retry n,
    nh_on_error = nd_on_error n, nh_type = nd_type n, nh_signal = nd_signal n, nh_inputs = [], nh_outputs = []\<rparr>"
  have h: "parse_node_head (VDict d) = Inr ?h"
    by (rule head_trip [OF car ok(2)]) (simp_all add: keys or_else_def parse_ports_def)
  have "build_node d ?h (nd_child n) (nd_input_ports n) (nd_output_ports n) = Inr n"
    using ok(3) by (intro build_trip [OF car]) (simp_all add: keys bare_def or_else_def str_list_def parse_mcp_def dict_items_def
        parse_inherit_def get_opt_def)
  then have "parse_node env base seen (VDict d) = Inr n"
    using h t c x ports keys by (simp add: parse_node.simps dict_items_def or_else_def)
  then show ?thesis by (simp add: d_def)
qed

section \<open>Workflows\<close>

fun node_ok :: "node_def \<Rightarrow> bool"
and workflow_ok :: "workflow_def \<Rightarrow> bool" where
  "node_ok n \<longleftrightarrow> node_parsed n \<and> retry_ok (nd_retry n) \<and> distinct (map fst (nd_mcp_servers n)) \<and>
     (nd_type n = Subflow \<longrightarrow> bare n) \<and> (case nd_child n of None \<Rightarrow> True | Some c \<Rightarrow> workflow_ok c)"
| "workflow_ok w \<longleftrightarrow> (\<forall>n \<in> set (wf_nodes w). node_ok n) \<and> (\<forall>e \<in> set (wf_edges w). edge_writable e) \<and>
     0 \<le> wf_max_concurrency w \<and> 0 \<le> wf_fan_max_concurrency w \<and>
     distinct (map fst (wf_tool_refs w)) \<and> distinct (map fst (wf_initial_state w)) \<and> distinct (map fst (wf_in_schema w)) \<and>
     (\<forall>s. wf_schedule w = Some s \<longrightarrow> schedule_ok s)"

declare node_ok.simps [simp del] workflow_ok.simps [simp del]

lemma limit_trip: "0 \<le> i \<Longrightarrow> parse_limit (if i \<noteq> 0 then Some (VInt i) else None) = Inr i"
  by (simp add: parse_limit_def or_else_def is_int_def num_negative_def py_int_def)

lemma schema_trip:
  "parse_in_schema (if ps \<noteq> [] then Some (VDict (map (\<lambda>(k, s). (k, VDict s)) ps)) else None) = Inr ps"
  by (induction ps) (auto simp: parse_in_schema_def or_else_def dict_items_def split: if_splits)

lemma workflow_trip_parts:
  assumes ok: "0 \<le> wf_max_concurrency w" "0 \<le> wf_fan_max_concurrency w"
    "distinct (map fst (wf_tool_refs w))" "distinct (map fst (wf_initial_state w))" "distinct (map fst (wf_in_schema w))"
    "\<And>s. wf_schedule w = Some s \<Longrightarrow> schedule_ok s"
    and n: "raise_map (parse_node env base seen) nodes = Inr (wf_nodes w)" and e: "raise_map parse_edge edges = Inr (wf_edges w)"
  shows "parse_workflow env base seen (VDict (workflow_entries w @ [(''nodes'', VList nodes), (''edges'', VList edges)])) = Inr w"
proof -
  define d where "d = workflow_entries w @ [(''nodes'', VList nodes), (''edges'', VList edges)]"
  have keys: "map_of d ''name'' = Some (VStr (wf_name w))" "map_of d ''provider'' = Some (VStr (wf_provider w))"
    "map_of d ''defaults'' = (if wf_default_model w \<noteq> [] then Some (VDict [(''model'', VStr (wf_default_model w))]) else None)"
    "map_of d ''entry'' = (if wf_entry w \<noteq> [] then Some (VStr (wf_entry w)) else None)"
    "map_of d ''tools'' = (if wf_tool_refs w \<noteq> [] then Some (VDict (map (\<lambda>(k, ref). (k, VStr ref)) (wf_tool_refs w))) else None)"
    "map_of d ''state'' = (if wf_initial_state w \<noteq> [] then Some (VDict (wf_initial_state w)) else None)"
    "map_of d ''in_schema'' = (if wf_in_schema w \<noteq> [] then Some (VDict (map (\<lambda>(k, s). (k, VDict s)) (wf_in_schema w))) else None)"
    "map_of d ''max_concurrency'' = (if wf_max_concurrency w \<noteq> 0 then Some (VInt (wf_max_concurrency w)) else None)"
    "map_of d ''fan_max_concurrency'' = (if wf_fan_max_concurrency w \<noteq> 0 then Some (VInt (wf_fan_max_concurrency w)) else None)"
    "map_of d ''schedule'' = map_option schedule_to_dict (wf_schedule w)"
    "map_of d ''nodes'' = Some (VList nodes)" "map_of d ''edges'' = Some (VList edges)"
    unfolding d_def using ok(3-5) by (simp_all add: workflow_entries_def dict_of_id)
  have sched: "parse_schedule (map_option schedule_to_dict (wf_schedule w)) = Inr (wf_schedule w)"
    using ok(6) schedule_trip by (cases "wf_schedule w") (simp_all add: parse_schedule_def get_opt_def)
  have strs: "py_str (or_else (VStr []) (if s \<noteq> [] then Some (VStr s) else None)) = s"
    "py_str (or_else (VStr []) (Some (VStr s))) = s" for s by (simp_all add: or_else_def)
  have model: "py_get (or_else (VDict []) (if s \<noteq> [] then Some (VDict [(''model'', VStr s)]) else None)) ''model''
      = Inr (if s \<noteq> [] then Some (VStr s) else None)" for s by (simp add: or_else_def py_get_def)
  have state: "dict_items (or_else (VDict []) (if ps \<noteq> [] then Some (VDict ps) else None)) = ps" for ps
    by (simp add: or_else_def dict_items_def)
  have tools: "map (\<lambda>(k, x). (k, py_str x)) (dict_items (or_else (VDict []) (if ps \<noteq> [] then Some (VDict (map (\<lambda>(k, ref). (k, VStr ref)) ps)) else None))) = ps" for ps
    by (simp add: or_else_def dict_items_def)
  have lists: "node_elems (or_else (VList []) (Some (VList xs))) = Inr xs" "py_iter (or_else (VList []) (Some (VList xs))) = Inr xs" for xs
    by (simp_all add: or_else_def node_elems_def py_iter_def)
  have "parse_workflow env base seen (VDict d) = Inr w"
    unfolding parse_workflow.simps Let_def
    by (simp only: keys strs model state tools lists sched limit_trip [OF ok(1)] limit_trip [OF ok(2)] schema_trip n e
        raise_bind_simps workflow_def.collapse)
  then show ?thesis by (simp add: d_def)
qed


lemma document_trip:
  "node_ok n \<Longrightarrow> \<exists>x. node_to_dict n = Inr x \<and> (\<forall>env base seen. parse_node env base seen x = Inr n)"
  "workflow_ok w \<Longrightarrow> \<exists>d. workflow_to_dict w = Inr (VDict d) \<and> (\<forall>env base seen. parse_workflow env base seen (VDict d) = Inr w)"
proof (induction n and w rule: node_to_dict_workflow_to_dict.induct)
  case (1 n)
  then have ok: "node_parsed n" "retry_ok (nd_retry n)" "distinct (map fst (nd_mcp_servers n))"
    by (simp_all add: node_ok.simps)
  show ?case
  proof (cases "nd_type n = Subflow")
    case False
    then show ?thesis using plain_node_trip [OF ok False] by simp
  next
    case True
    then obtain c where c: "nd_child n = Some c" using ok(1) by (auto simp: node_parsed_def)
    then have "workflow_ok c" "bare n" using "1.prems" True by (simp_all add: node_ok.simps)
    then obtain d where d: "workflow_to_dict c = Inr (VDict d)"
      "\<And>env base seen. parse_workflow env base seen (VDict d) = Inr c"
      using "1.IH" [of c] True c by auto
    then show ?thesis using subflow_node_trip [OF ok(1,2) \<open>bare n\<close> True c d(2)] True c by simp
  qed
next
  case (2 w)
  then have ok: "\<forall>n \<in> set (wf_nodes w). node_ok n" "\<forall>e \<in> set (wf_edges w). edge_writable e"
    by (simp_all add: workflow_ok.simps)
  obtain nodes where n: "raise_map node_to_dict (wf_nodes w) = Inr nodes"
    "\<And>env base seen. raise_map (parse_node env base seen) nodes = Inr (wf_nodes w)"
    using raise_map_trip [of "wf_nodes w" node_to_dict "\<lambda>(env, base, seen). parse_node env base seen"] "2.IH" ok(1)
    by (fastforce simp: split_paired_all)
  obtain edges where e: "raise_map edge_to_dict (wf_edges w) = Inr edges" "raise_map parse_edge edges = Inr (wf_edges w)"
    using raise_map_trip [of "wf_edges w" edge_to_dict "\<lambda>_ :: unit. parse_edge"] edge_trip ok(2) by blast
  have "parse_workflow env base seen (VDict (workflow_entries w @ [(''nodes'', VList nodes), (''edges'', VList edges)])) = Inr w"
    for env base seen
    using "2.prems" by (intro workflow_trip_parts n(2) e(2)) (simp_all add: workflow_ok.simps)
  then show ?case using n(1) e(1) by simp
qed

end
