(* ===== verification/Serialize_Parsed.thy ===== *)
theory Serialize_Parsed
  imports Serialize_Trip
begin

text \<open>
  Every parsed workflow can be written and read back, except for fields of a subflow node that
  the writer leaves out; the properties of \<open>serialize.py\<close>.
\<close>

section \<open>What parsing yields can be written\<close>

lemma parsed_condition_ok: "parse_condition v = Inr c \<Longrightarrow> condition_ok c"
proof (induction v arbitrary: c rule: parse_condition.induct)
  case (1 v)
  obtain d where v: "v = VDict d" using "1.prems" by (cases v) (simp_all add: parse_condition.simps)
  show ?case
  proof (cases "leaf_op d")
    case (Some p)
    obtain op inner where p: "p = (op, inner)" by (cases p)
    have "op \<in> {Equals, Contains, Gt, Gte, Lt, Lte}"
      using Some p by (auto simp: leaf_op_def split: option.splits)
    moreover have "operand_pair op inner = Inr c" using "1.prems" v Some p by (simp add: parse_condition.simps)
    ultimately show ?thesis by (auto simp: operand_pair_def raise_bind_Inr_iff)
  next
    case None
    note IH = "1.IH" [OF v None] and v [simp] None [simp]
    show ?thesis
    proof (cases "map_of d ''not''")
      case (Some x)
      then obtain y where "parse_condition x = Inr y" "c = Condition NotC None None [y]"
        using "1.prems" by (auto simp: parse_condition.simps [of "VDict d"] raise_bind_Inr_iff)
      then show ?thesis using IH(3) [OF Some] by simp
    next
      case None
      note n = this
      show ?thesis
      proof (cases "map_of d ''and''")
        case (Some x)
        then obtain xs ys where "cond_elems x = Inr xs" "raise_map parse_condition xs = Inr ys" "c = Condition AndC None None ys"
          using "1.prems" n by (auto simp: parse_condition.simps raise_bind_Inr_iff split: sum.splits)
        then show ?thesis using IH(2) [OF n Some] by (auto dest!: raise_map_Inr_set)
      next
        case None
        then obtain x xs ys where "map_of d ''or'' = Some x" "cond_elems x = Inr xs" "raise_map parse_condition xs = Inr ys"
          "c = Condition OrC None None ys"
          using "1.prems" n by (auto simp: parse_condition.simps raise_bind_Inr_iff split: sum.splits option.splits)
        then show ?thesis using IH(1) [OF n None] by (auto dest!: raise_map_Inr_set)
      qed
    qed
  qed
qed

lemma value_keys: "keys_distinct (VDict d) \<Longrightarrow> map_of d k = Some x \<Longrightarrow> keys_distinct x"
  by (auto dest!: map_of_SomeD)

lemma items_keys: "keys_distinct (VDict d) \<Longrightarrow> distinct (map fst (dict_items (or_else (VDict []) (map_of d k))))"
  using value_keys [of d k] by (auto simp: dict_items_def or_else_def split: option.splits pyval.splits)

lemma raise_map_keys:
  assumes "raise_map f ps = Inr qs" and "\<And>p q. f p = Inr q \<Longrightarrow> fst q = fst p"
  shows "map fst qs = map fst ps"
  using assms(1) by (induction ps arbitrary: qs) (auto simp: raise_bind_Inr_iff dest: assms(2))

lemma fst_pairs: "map (fst \<circ> (\<lambda>(k, x). (k, f x))) ps = map fst ps"
  by auto

lemma parsed_while_ok: "parse_while raw = Inr (c, m) \<Longrightarrow> condition_ok c"
  by (auto simp: parse_while_def raise_bind_Inr_iff split: pyval.splits if_splits option.splits dest: parsed_condition_ok)

lemma parsed_loop_ok:
  assumes "parse_loop v = Inr (Some c, bound, strict)"
  shows "condition_ok c"
  using assms unfolding parse_loop_def
proof (elim raise_bind_InrE)
  fix has_when g has_while has_loop
  assume g: "(if has_when then raise_bind (py_index v ''when'') (\<lambda>c. raise_bind (parse_condition c) (\<lambda>x. Inr (Some x)))
       else Inr None) = Inr g"
  and eq: "(if has_while
       then if has_loop then raise_bind (py_get v ''from'') (\<lambda>_. Inl (invalid INVALID_LOOP))
            else if has_when then raise_bind (py_get v ''from'') (\<lambda>_. Inl (invalid INVALID_LOOP))
            else raise_bind (py_index v ''while'') (\<lambda>raw. raise_bind (parse_while raw) (\<lambda>(c, m). Inr (Some c, Some m, True)))
       else if has_loop
       then raise_bind (py_index v ''loop'') (\<lambda>l.
              case l of
                VDict d \<Rightarrow> (case map_of d ''max'' of
                    None \<Rightarrow> Inl (invalid INVALID_LOOP)
                  | Some m \<Rightarrow> raise_bind (positive_bound m) (\<lambda>i. Inr (g, Some i, False)))
              | _ \<Rightarrow> Inr (g, None, False))
       else Inr (g, None, False)) = Inr (Some c, bound, strict)"
  show ?thesis
  proof (cases has_while)
    case True
    then obtain raw m where "parse_while raw = Inr (c, m)" using eq by (auto simp: raise_bind_Inr_iff split: if_splits)
    then show ?thesis by (rule parsed_while_ok)
  next
    case False
    have "g = Some c"
    proof (cases has_loop)
      case True
      then obtain l where "(case l of
                VDict d \<Rightarrow> (case map_of d ''max'' of
                    None \<Rightarrow> Inl (invalid INVALID_LOOP)
                  | Some m \<Rightarrow> raise_bind (positive_bound m) (\<lambda>i. Inr (g, Some i, False)))
              | _ \<Rightarrow> Inr (g, None, False)) = Inr (Some c, bound, strict)"
        using eq False by (auto simp: raise_bind_Inr_iff)
      then show ?thesis by (cases l) (auto simp: raise_bind_Inr_iff split: option.splits)
    qed (use eq False in auto)
    then show ?thesis using g by (auto simp: raise_bind_Inr_iff split: if_splits dest: parsed_condition_ok)
  qed
qed

lemma parsed_edge_writable:
  assumes "parse_edge v = Inr e" and "keys_distinct v"
  shows "edge_writable e"
proof -
  obtain g bound strict raw where l: "parse_loop v = Inr (g, bound, strict)" and m: "py_get v ''map'' = Inr raw"
    and e: "edge_when e = g" "mapping e = map (\<lambda>(k, x). (k, py_str x)) (dict_items (or_else (VDict []) raw))"
    using assms(1) by (auto simp: parse_edge_def raise_bind_Inr_iff)
  obtain d where v: "v = VDict d" "raw = map_of d ''map''"
    using m by (cases v) (simp_all add: py_get_def)
  have "condition_ok c" if "g = Some c" for c
    using l that parsed_loop_ok by blast
  moreover have "distinct (map fst (mapping e))" using items_keys [of d "''map''"] assms(2) v e(2) by (simp add: fst_pairs)
  ultimately show ?thesis using parse_edge_ok [OF assms(1)] e(1) by (simp add: edge_writable_def)
qed

lemma parsed_schedule_ok:
  assumes "parse_schedule (map_of d k) = Inr (Some s)" and "keys_distinct (VDict d)"
  shows "schedule_ok s"
proof -
  obtain x where x: "map_of d k = Some (VDict x)"
    using assms(1) by (auto simp: parse_schedule_def get_opt_def split: option.splits pyval.splits)
  then have kx: "keys_distinct (VDict x)" using value_keys assms(2) by blast
  obtain ins where ins: "schedule_inputs (map_of x ''inputs'') = Inr ins"
    and s: "(if or_else VNone (map_of x ''mode'') = VStr ''timer'' then parse_timer x ins else parse_hook x ins) = Inr s"
    using assms(1) x by (auto simp: parse_schedule_def get_opt_def raise_bind_Inr_iff Let_def split: if_splits)
  have "distinct (map fst ins)"
    using ins value_keys [OF kx, of "''inputs''"]
    by (cases "map_of x ''inputs''") (auto simp: schedule_inputs_def or_else_def split: pyval.splits if_splits)
  moreover have "sch_inputs s = ins \<and> (sch_mode s = Hook \<longrightarrow> sch_jitter s = None \<and> (\<forall>l. sch_listen s = Some l \<longrightarrow> listens l))"
    using s by (auto simp: parse_timer_def parse_hook_def Let_def listens_def raise_bind_Inr_iff split: if_splits option.splits pyval.splits)
  ultimately show ?thesis using parse_schedule_ok [OF assms(1)] by (simp add: schedule_ok_def)
qed

lemma round_half_even_nonneg: "0 \<le> r \<Longrightarrow> 0 \<le> round_half_even r"
  by (simp add: round_half_even_def Let_def)

lemma pow2_pos: "0 < pow2 k"
  by (simp add: pow2_def)

lemma round_double_nonneg:
  assumes "0 \<le> r" and "round_double r = PFin q"
  shows "0 \<le> q"
proof (cases "r = 0")
  case False
  define e where "e = max (floor_log2 \<bar>r\<bar> - 52) (- 1074)"
  have "q = of_int (round_half_even (\<bar>r\<bar> / pow2 e)) * pow2 e"
    using assms False by (auto simp: round_double_def Let_def e_def split: if_splits)
  moreover have "0 \<le> round_half_even (\<bar>r\<bar> / pow2 e)"
    using pow2_pos [of e] by (intro round_half_even_nonneg) simp
  ultimately show ?thesis using pow2_pos [of e] by simp
qed (use assms in \<open>simp add: round_double_def\<close>)

lemma py_float_nonneg:
  assumes "is_number b" and "\<not> num_negative b" and "py_float b = Inr f"
  shows "\<not> pf_less f (PFin 0)"
proof (cases b)
  case (VInt i)
  then obtain q where "round_double (of_int i) = PFin q" "f = PFin q"
    using assms(3) by (auto simp: py_float_def float_of_int_def split: pyfloat.splits)
  then show ?thesis using VInt assms(2) round_double_nonneg [of "of_int i" q] by (simp add: num_negative_def)
qed (use assms in \<open>auto simp: is_number_def is_int_def num_negative_def py_float_def split: if_splits\<close>)

lemma parsed_retry_ok: "parse_retry raw = Inr x \<Longrightarrow> retry_ok x"
  by (auto simp: parse_retry_def retry_ok_def Let_def raise_bind_Inr_iff
      split: option.splits pyval.splits if_splits dest: is_int_py_int py_float_nonneg)


text \<open>No subflow node, at any depth, carries a field the writer leaves out.\<close>

fun bare_node :: "node_def \<Rightarrow> bool"
and bare_children :: "workflow_def \<Rightarrow> bool" where
  "bare_node n \<longleftrightarrow> (nd_type n = Subflow \<longrightarrow> bare n) \<and> (case nd_child n of None \<Rightarrow> True | Some c \<Rightarrow> bare_children c)"
| "bare_children w \<longleftrightarrow> (\<forall>n \<in> set (wf_nodes w). bare_node n)"

declare bare_node.simps [simp del] bare_children.simps [simp del]

definition files_distinct :: "file_env \<Rightarrow> bool" where
  "files_distinct env \<longleftrightarrow> (\<forall>(p, c) \<in> set (env_files env). \<forall>v. c = Some v \<longrightarrow> keys_distinct v)"

lemma parsed_mcp_ok:
  assumes "parse_mcp (map_of d k) = Inr qs" and "keys_distinct (VDict d)"
  shows "distinct (map fst qs)"
proof -
  have "map fst qs = map fst (dict_items (or_else (VDict []) (map_of d k)))"
    using assms(1) unfolding parse_mcp_def by (rule raise_map_keys) (auto split: pyval.splits)
  then show ?thesis using items_keys [OF assms(2), of k] by simp
qed

lemma parsed_schema_ok:
  assumes "parse_in_schema (map_of d k) = Inr qs" and "keys_distinct (VDict d)"
  shows "distinct (map fst qs)"
proof -
  have "map fst qs = map fst (dict_items (or_else (VDict []) (map_of d k)))"
    using assms(1) unfolding parse_in_schema_def by (rule raise_map_keys) (auto split: pyval.splits)
  then show ?thesis using items_keys [OF assms(2), of k] by simp
qed

lemma built_node_ok:
  assumes "parse_node_head v = Inr h" and "build_node (dict_items v) h child ins outs = Inr n" and "keys_distinct v"
  shows "retry_ok (nd_retry n) \<and> distinct (map fst (nd_mcp_servers n)) \<and> nd_child n = child"
proof -
  obtain d where d: "v = VDict d" using head_dict [OF assms(1)] ..
  have "nd_retry n = nh_retry h" "parse_mcp (map_of d ''mcp_servers'') = Inr (nd_mcp_servers n)" "nd_child n = child"
    using assms(2) by (auto simp: build_node_def d dict_items_def raise_bind_Inr_iff)
  moreover have "retry_ok (nh_retry h)"
    using assms(1) by (auto simp: parse_node_head_def d raise_bind_Inr_iff dest: parsed_retry_ok)
  ultimately show ?thesis using parsed_mcp_ok assms(3) d by simp
qed

lemma elems_keys:
  assumes "keys_distinct (VDict d)" and "node_elems (or_else (VList []) (map_of d k)) = Inr xs" and "x \<in> set xs"
  shows "keys_distinct x"
  using assms value_keys [OF assms(1), of k]
  by (cases "map_of d k") (auto simp: or_else_def node_elems_def split: pyval.splits if_splits)

lemma iter_keys:
  assumes "keys_distinct (VDict d)" and "py_iter (or_else (VList []) (map_of d k)) = Inr xs" and "x \<in> set xs"
  shows "keys_distinct x"
  using assms value_keys [OF assms(1), of k]
  by (cases "map_of d k") (auto simp: or_else_def py_iter_def split: pyval.splits if_splits)

lemma parsed_workflow_parts:
  assumes p: "parse_workflow env base seen (VDict d) = Inr w" and k: "keys_distinct (VDict d)"
    and n: "\<And>raw nodes. node_elems (or_else (VList []) (map_of d ''nodes'')) = Inr raw \<Longrightarrow>
      raise_map (parse_node env base seen) raw = Inr nodes \<Longrightarrow> nodes = wf_nodes w \<Longrightarrow> \<forall>n \<in> set nodes. node_ok n"
  shows "workflow_ok w"
proof -
  obtain model in_schema cap fan_cap schedule raw_nodes nodes raw_edges edges where
    f: "parse_in_schema (map_of d ''in_schema'') = Inr in_schema" "parse_limit (map_of d ''max_concurrency'') = Inr cap"
    "parse_limit (map_of d ''fan_max_concurrency'') = Inr fan_cap" "parse_schedule (map_of d ''schedule'') = Inr schedule"
    "node_elems (or_else (VList []) (map_of d ''nodes'')) = Inr raw_nodes" "raise_map (parse_node env base seen) raw_nodes = Inr nodes"
    "py_iter (or_else (VList []) (map_of d ''edges'')) = Inr raw_edges" "raise_map parse_edge raw_edges = Inr edges"
    and w: "w = WorkflowDef (py_str (or_else (VStr []) (map_of d ''name''))) (py_str (or_else (VStr []) (map_of d ''provider'')))
      (py_str (or_else (VStr []) (map_of d ''entry''))) nodes edges (py_str (or_else (VStr []) model))
      (dict_items (or_else (VDict []) (map_of d ''state''))) in_schema
      (map (\<lambda>(k, x). (k, py_str x)) (dict_items (or_else (VDict []) (map_of d ''tools'')))) cap fan_cap schedule"
    using p by (auto simp: parse_workflow.simps Let_def raise_bind_Inr_iff)
  have "\<forall>n \<in> set nodes. node_ok n" by (rule n [OF f(5,6)]) (simp add: w)
  moreover have "edge_writable e" if "e \<in> set edges" for e
  proof -
    obtain x where x: "x \<in> set raw_edges" "parse_edge x = Inr e" using raise_map_Inr_set [OF f(8) \<open>e \<in> set edges\<close>] by blast
    show ?thesis by (rule parsed_edge_writable [OF x(2) iter_keys [OF k f(7) x(1)]])
  qed
  moreover have "distinct (map fst in_schema)" by (rule parsed_schema_ok [OF f(1) k])
  moreover have "schedule_ok s" if "schedule = Some s" for s
    using parsed_schedule_ok [OF _ k] f(4) that by simp
  ultimately show ?thesis
    using parse_limit_ok [OF f(2)] parse_limit_ok [OF f(3)] items_keys [OF k] by (simp add: workflow_ok.simps w fst_pairs)
qed

lemma parsed_ok:
  "files_distinct env \<Longrightarrow> keys_distinct v \<Longrightarrow> parse_node env base seen v = Inr n \<Longrightarrow> bare_node n \<Longrightarrow> node_ok n"
  "files_distinct env \<Longrightarrow> keys_distinct v \<Longrightarrow> parse_child env base seen v = Inr w \<Longrightarrow> bare_children w \<Longrightarrow> workflow_ok w"
  "files_distinct env \<Longrightarrow> keys_distinct v \<Longrightarrow> parse_workflow env base seen v = Inr w \<Longrightarrow> bare_children w \<Longrightarrow> workflow_ok w"
proof (induction env base seen v and env base seen v and env base seen v arbitrary: n and w and w rule: parse_node_parse_child_parse_workflow.induct)
  case (1 env base seen v)
  obtain h where h: "parse_node_head v = Inr h" using "1.prems"(3) by (auto simp: parse_node.simps raise_bind_Inr_iff)
  obtain d where d: "v = VDict d" using head_dict [OF h] ..
  have bare: "nd_type n = Subflow \<longrightarrow> bare n" "\<And>c. nd_child n = Some c \<Longrightarrow> bare_children c"
    using "1.prems"(4) by (simp_all add: bare_node.simps)
  have parsed: "node_parsed n" by (rule parse_node_ok [OF "1.prems"(3)])
  show ?case
  proof (cases "nh_type h = Subflow")
    case False
    then have "build_node (dict_items v) h None (nh_inputs h) (nh_outputs h) = Inr n"
      using "1.prems"(3) h by (simp add: parse_node.simps)
    then show ?thesis using built_node_ok [OF h _ "1.prems"(2)] bare parsed by (fastforce simp: node_ok.simps)
  next
    case True
    then obtain raw c where c: "map_of (dict_items v) ''subflow'' = Some raw" "parse_child env base seen raw = Inr c"
      "build_node (dict_items v) h (Some c) (derived_ports (input_properties c)) (derived_ports (output_properties c)) = Inr n"
      "\<not> (truthy (or_else VNone (map_of (dict_items v) ''inputs'')) \<or> truthy (or_else VNone (map_of (dict_items v) ''outputs'')))"
      using "1.prems"(3) h by (auto simp: parse_node.simps raise_bind_Inr_iff split: if_splits option.splits)
    have n: "retry_ok (nd_retry n) \<and> distinct (map fst (nd_mcp_servers n)) \<and> nd_child n = Some c"
      by (rule built_node_ok [OF h c(3) "1.prems"(2)])
    have "keys_distinct raw" using value_keys [of d] "1.prems"(2) c(1) d by (simp add: dict_items_def)
    then have "workflow_ok c" using "1.IH" [OF h _ c(4) c(1) "1.prems"(1) _ c(2)] True bare n by simp
    then show ?thesis using n bare parsed by (simp add: node_ok.simps)
  qed
next
  case (2 env base seen path)
  then obtain b p content where b: "base = Some b" "p = env_join env b path" "p \<notin> set seen"
    "map_of (env_files env) p = Some (Some content)" "parse_workflow env (Some (env_parent env p)) (seen @ [p]) content = Inr w"
    by (auto simp: Let_def split: option.splits if_splits)
  then have "keys_distinct content" using "2.prems"(1) by (auto simp: files_distinct_def dest!: map_of_SomeD)
  then show ?case using "2.IH" [OF b(1-4) refl "2.prems"(1) _ b(5) "2.prems"(4)] by blast
next
  case (3 env base seen d)
  then show ?case by simp
next
  case (5 env base seen d)
  obtain model in_schema cap fan_cap schedule where
    f: "py_get (or_else (VDict []) (map_of d ''defaults'')) ''model'' = Inr model"
    "parse_in_schema (map_of d ''in_schema'') = Inr in_schema" "parse_limit (map_of d ''max_concurrency'') = Inr cap"
    "parse_limit (map_of d ''fan_max_concurrency'') = Inr fan_cap" "parse_schedule (map_of d ''schedule'') = Inr schedule"
    using "5.prems"(3) by (auto simp: parse_workflow.simps Let_def raise_bind_Inr_iff)
  show ?case
  proof (rule parsed_workflow_parts [OF "5.prems"(3,2)])
    fix raw nodes
    assume raw: "node_elems (or_else (VList []) (map_of d ''nodes'')) = Inr raw"
      and nodes: "raise_map (parse_node env base seen) raw = Inr nodes" "nodes = wf_nodes w"
    show "\<forall>n \<in> set nodes. node_ok n"
    proof
      fix n assume n: "n \<in> set nodes"
      then obtain x where x: "x \<in> set raw" "parse_node env base seen x = Inr n"
        using raise_map_Inr_set [OF nodes(1)] by blast
      have "bare_node n" using "5.prems"(4) n nodes(2) by (simp add: bare_children.simps)
      moreover have "keys_distinct x" by (rule elems_keys [OF "5.prems"(2) raw x(1)])
      ultimately show "node_ok n" using "5.IH" [OF refl f raw x(1) "5.prems"(1) _ x(2)] by blast
    qed
  qed
qed (auto simp: parse_workflow.simps)

section \<open>Properties\<close>

text \<open>C6. The round-trip law of \<open>serialize.py\<close>, for parsed workflows: a workflow parsed from a document
  whose dicts have distinct keys, as JSON dicts do, is written as a document that parses back to
  the same workflow wherever it is read, in any directory and with any subflow files, provided
  its subflow nodes carry none of the six fields the writer leaves out.\<close>

theorem serialize_roundtrip:
  assumes "parse_workflow env base seen v = Inr w" and "keys_distinct v" and "files_distinct env" and "bare_children w"
  shows "\<exists>d. workflow_to_dict w = Inr (VDict d) \<and>
    (\<forall>env' base' seen'. parse_workflow env' base' seen' (VDict d) = Inr w)"
  using document_trip(2) parsed_ok(3) assms by blast

definition nested_child :: pyval where
  "nested_child = VDict [(''name'', VStr ''child''), (''nodes'', VList [VDict [(''id'', VStr ''c''), (''type'', VStr ''script'')]])]"

definition nested_json :: "(string \<times> pyval) list \<Rightarrow> pyval" where
  "nested_json extra = VDict [(''name'', VStr ''parent''), (''nodes'', VList [VDict
     ([(''id'', VStr ''s''), (''type'', VStr ''subflow''), (''subflow'', nested_child)] @ extra)]),
     (''edges'', VList [demo_edge_json])]"

definition nested_edge :: edge_def where
  "nested_edge = \<lparr>src = ''b'', dst = ''a'', mapping = [],
     edge_when = Some (Condition NotC None None [Condition Equals (Some ''{{ $.ok }}'') (Some ''yes'') []]),
     loop_max = Some 100, fan_out = None, fan_in = None, loop_strict = True\<rparr>"

definition nested_flow :: "string option \<Rightarrow> workflow_def" where
  "nested_flow backend = workflow_default ''parent'' [] []
     [NodeDef ''s'' Subflow [] None [] [] [] [] None [] [] None False None None Fail False
        (Some (workflow_default ''child'' [] [] [node_default ''c'' Script] [])) backend [] [] None] [nested_edge]"

lemma nested_child_parses: "parse_workflow demo_env None [] nested_child = Inr (workflow_default ''child'' [] [] [node_default ''c'' Script] [])"
  by code_simp

lemma nested_parses:
  "parse_workflow demo_env None [] (nested_json []) = Inr (nested_flow None)"
  "parse_workflow demo_env None [] (nested_json [(''backend'', VStr ''claude'')]) = Inr (nested_flow (Some ''claude''))"
  by code_simp+

lemma nested_distinct: "keys_distinct (nested_json [])" "files_distinct demo_env"
  by (simp_all add: nested_json_def nested_child_def demo_edge_json_def files_distinct_def demo_env_def)

lemma nested_bare: "bare_children (nested_flow None)"
  by (simp add: nested_flow_def workflow_default_def node_default_def bare_children.simps bare_node.simps bare_def)

lemma serialize_roundtrip_witness:
  "\<exists>d. workflow_to_dict (nested_flow None) = Inr (VDict d) \<and> parse_workflow demo_env None [] (VDict d) = Inr (nested_flow None)"
  using serialize_roundtrip [OF nested_parses(1) nested_distinct nested_bare] by blast

text \<open>The law does not hold for every workflow, as the module's header has it: a subflow node that
  sets \<open>backend\<close>, which parsing accepts, is written without it and reads back as another
  workflow.\<close>

lemma subflow_backend_lost:
  "nested_flow None \<noteq> nested_flow (Some ''claude'')"
  "workflow_to_dict (nested_flow (Some ''claude'')) = workflow_to_dict (nested_flow None)"
  by (simp_all add: nested_flow_def workflow_default_def common_entries_def workflow_entries_def)

end
