(* ===== verification/Builder.thy ===== *)
theory Builder
  imports Loader_Valid
begin

text \<open>
  The headless workflow editor: \<open>flow/builder/model.py\<close> and \<open>flow/builder/actions.py\<close>. The state
  is the workflow being edited, the selection, the dirty flag and the last validation error, of
  which the machine-readable part is kept. Every action builds a new workflow with
  \<open>dataclasses.replace\<close> and installs it with \<open>with_wf\<close>, which validates it; only a
  \<open>WorkflowValidationError\<close> is caught there, so any other exception leaves the action.
\<close>

section \<open>The model\<close>

record builder_model =
  bm_wf :: workflow_def
  bm_selected :: "node_id option"
  bm_dirty :: bool
  bm_error :: "validation_error option"

definition node_ids :: "builder_model \<Rightarrow> node_id list" where
  "node_ids m = map nd_id (wf_nodes (bm_wf m))"

definition validation_error_of :: "load_env \<Rightarrow> workflow_def \<Rightarrow> pyexc + validation_error option" where
  "validation_error_of env w =
     (case validate_workflow env None w of
        None \<Rightarrow> Inr None
      | Some (ValidationError v) \<Rightarrow> Inr (Some v)
      | Some x \<Rightarrow> Inl x)"

definition first_id :: "workflow_def \<Rightarrow> node_id option" where
  "first_id w = (case wf_nodes w of [] \<Rightarrow> None | n # _ \<Rightarrow> Some (nd_id n))"

definition keep_selection :: "node_id option \<Rightarrow> workflow_def \<Rightarrow> node_id option" where
  "keep_selection s w = (if s \<in> Some ` set (map nd_id (wf_nodes w)) then s else first_id w)"

definition with_wf :: "load_env \<Rightarrow> builder_model \<Rightarrow> workflow_def \<Rightarrow> pyexc + builder_model" where
  "with_wf env m w =
     raise_bind (validation_error_of env w) (\<lambda>err.
       Inr (m\<lparr>bm_wf := w, bm_selected := keep_selection (bm_selected m) w, bm_dirty := True, bm_error := err\<rparr>))"

definition model_from_workflow :: "load_env \<Rightarrow> workflow_def \<Rightarrow> pyexc + builder_model" where
  "model_from_workflow env w =
     raise_bind (validation_error_of env w) (\<lambda>err.
       Inr \<lparr>bm_wf = w, bm_selected = first_id w, bm_dirty = False, bm_error = err\<rparr>)"

definition empty_model :: "load_env \<Rightarrow> string \<Rightarrow> string \<Rightarrow> pyexc + builder_model" where
  "empty_model env name provider =
     (let w = workflow_default name provider [] [] []
      in raise_bind (validation_error_of env w) (\<lambda>err.
           Inr \<lparr>bm_wf = w, bm_selected = None, bm_dirty = False, bm_error = err\<rparr>))"

section \<open>Replacing fields\<close>

definition replace_graph :: "workflow_def \<Rightarrow> node_def list \<Rightarrow> edge_def list \<Rightarrow> node_id \<Rightarrow> workflow_def" where
  "replace_graph w nodes edges entry =
     WorkflowDef (wf_name w) (wf_provider w) entry nodes edges (wf_default_model w) (wf_initial_state w)
       (wf_in_schema w) (wf_tool_refs w) (wf_max_concurrency w) (wf_fan_max_concurrency w) (wf_schedule w)"

definition replace_meta :: "workflow_def \<Rightarrow> string \<Rightarrow> string \<Rightarrow> (string \<times> pyval) list \<Rightarrow> workflow_def" where
  "replace_meta w provider model state =
     WorkflowDef (wf_name w) provider (wf_entry w) (wf_nodes w) (wf_edges w) model state
       (wf_in_schema w) (wf_tool_refs w) (wf_max_concurrency w) (wf_fan_max_concurrency w) (wf_schedule w)"

definition with_id :: "node_id \<Rightarrow> node_def \<Rightarrow> node_def" where
  "with_id i n = (case n of NodeDef a b c d e f g h k l m p q r s t u v w x y z \<Rightarrow>
     NodeDef i b c d e f g h k l m p q r s t u v w x y z)"

definition with_type :: "node_type \<Rightarrow> node_def \<Rightarrow> node_def" where
  "with_type ty n = (case n of NodeDef a b c d e f g h k l m p q r s t u v w x y z \<Rightarrow>
     NodeDef a ty c d e f g h k l m p q r s t u v w x y z)"

definition with_texts :: "string option \<Rightarrow> string \<Rightarrow> string \<Rightarrow> string option \<Rightarrow> node_def \<Rightarrow> node_def" where
  "with_texts model system prompt run n = (case n of NodeDef a b c d e f g h k l m p q r s t u v w x y z \<Rightarrow>
     NodeDef a b c model system prompt g h run l m p q r s t u v w x y z)"

definition with_lists :: "string list \<Rightarrow> port list \<Rightarrow> port list \<Rightarrow> node_def \<Rightarrow> node_def" where
  "with_lists tools ins outs n = (case n of NodeDef a b c d e f g h k l m p q r s t u v w x y z \<Rightarrow>
     NodeDef a b c d e f tools h k ins outs p q r s t u v w x y z)"

section \<open>Actions\<close>

definition node_id_set :: "workflow_def \<Rightarrow> node_id set" where
  "node_id_set w = set (map nd_id (wf_nodes w))"

text \<open>\<open>i = 2; while f"{base}{i}" in existing: i += 1\<close>.\<close>

lemma finite_suffixes: "finite {j. i \<le> j \<and> base @ show_nat j \<in> set used}"
proof -
  have "inj_on (\<lambda>j. base @ show_nat j) {j. i \<le> j \<and> base @ show_nat j \<in> set used}" by (rule inj_onI) simp
  moreover have "(\<lambda>j. base @ show_nat j) ` {j. i \<le> j \<and> base @ show_nat j \<in> set used} \<subseteq> set used" by auto
  ultimately show ?thesis using finite_imageD finite_subset by blast
qed

function next_suffix :: "string list \<Rightarrow> string \<Rightarrow> nat \<Rightarrow> nat" where
  "next_suffix used base i = (if base @ show_nat i \<in> set used then next_suffix used base (i + 1) else i)"
  by pat_completeness auto
termination
proof (relation "measure (\<lambda>(used, base, i). card {j. i \<le> j \<and> base @ show_nat j \<in> set used})", simp, clarsimp)
  fix used :: "string list" and base :: string and i :: nat
  let ?later = "\<lambda>i. {j. i \<le> j \<and> base @ show_nat j \<in> set used}"
  assume "base @ show_nat i \<in> set used"
  then have "i \<in> ?later i - ?later (Suc i)" and "?later (Suc i) \<subseteq> ?later i" by auto
  then have "?later (Suc i) \<subset> ?later i" by blast
  then show "card (?later (Suc i)) < card (?later i)" by (rule psubset_card_mono [OF finite_suffixes])
qed

declare next_suffix.simps [simp del]

definition unique_node_id :: "workflow_def \<Rightarrow> string \<Rightarrow> node_id" where
  "unique_node_id w base =
     (let used = map nd_id (wf_nodes w)
      in if base \<notin> set used then base else base @ show_nat (next_suffix used base 2))"

definition literal_type :: "string \<Rightarrow> node_type" where
  "literal_type t = (if t = ''script'' then Script else Agent)"

definition add_node :: "load_env \<Rightarrow> builder_model \<Rightarrow> string \<Rightarrow> pyexc + builder_model" where
  "add_node env m t =
     (let w = bm_wf m; ty = literal_type t; i = unique_node_id w (if ty = Script then ''script'' else ''agent'');
          w' = replace_graph w (wf_nodes w @ [node_default i ty]) (wf_edges w) (if wf_nodes w = [] then i else wf_entry w)
      in raise_bind (with_wf env m w') (\<lambda>m'. Inr (m'\<lparr>bm_selected := Some i\<rparr>)))"

definition remove_node :: "load_env \<Rightarrow> builder_model \<Rightarrow> node_id \<Rightarrow> pyexc + builder_model" where
  "remove_node env m i =
     (let w = bm_wf m; nodes = filter (\<lambda>n. nd_id n \<noteq> i) (wf_nodes w);
          edges = filter (\<lambda>e. src e \<noteq> i \<and> dst e \<noteq> i) (wf_edges w);
          entry = (if wf_entry w = i then (case nodes of [] \<Rightarrow> [] | n # _ \<Rightarrow> nd_id n) else wf_entry w)
      in with_wf env m (replace_graph w nodes edges entry))"

definition map_node :: "workflow_def \<Rightarrow> node_id \<Rightarrow> (node_def \<Rightarrow> node_def) \<Rightarrow> workflow_def" where
  "map_node w i f = replace_graph w (map (\<lambda>n. if nd_id n = i then f n else n) (wf_nodes w)) (wf_edges w) (wf_entry w)"

definition renamed :: "node_id \<Rightarrow> node_id \<Rightarrow> node_id \<Rightarrow> node_id" where
  "renamed i j k = (if k = i then j else k)"

definition rename_graph :: "workflow_def \<Rightarrow> node_id \<Rightarrow> node_id \<Rightarrow> workflow_def" where
  "rename_graph w i j =
     replace_graph w (map (\<lambda>n. if nd_id n = i then with_id j n else n) (wf_nodes w))
       (map (\<lambda>e. e\<lparr>src := renamed i j (src e), dst := renamed i j (dst e)\<rparr>) (wf_edges w)) (renamed i j (wf_entry w))"

definition rename_node :: "load_env \<Rightarrow> builder_model \<Rightarrow> node_id \<Rightarrow> node_id \<Rightarrow> pyexc + builder_model" where
  "rename_node env m i j =
     (if j = [] \<or> j = i then Inr m
      else raise_bind (with_wf env m (rename_graph (bm_wf m) i j)) (\<lambda>m'.
             Inr (m'\<lparr>bm_selected := (if bm_selected m = Some i then Some j else bm_selected m')\<rparr>)))"

definition set_field :: "load_env \<Rightarrow> builder_model \<Rightarrow> node_id \<Rightarrow> string \<Rightarrow> string \<Rightarrow> pyexc + builder_model" where
  "set_field env m i field val =
     (if field \<notin> {''model'', ''system_prompt'', ''prompt'', ''run''} then Inl ValueError
      else let stored = (if (field = ''model'' \<or> field = ''run'') \<and> val = [] then None else Some val)
           in with_wf env m (map_node (bm_wf m) i (\<lambda>n.
                if field = ''model'' then with_texts stored (nd_system_prompt n) (nd_prompt n) (nd_run n) n
                else if field = ''system_prompt'' then with_texts (nd_model n) val (nd_prompt n) (nd_run n) n
                else if field = ''prompt'' then with_texts (nd_model n) (nd_system_prompt n) val (nd_run n) n
                else with_texts (nd_model n) (nd_system_prompt n) (nd_prompt n) stored n)))"

definition set_tools :: "load_env \<Rightarrow> builder_model \<Rightarrow> node_id \<Rightarrow> string list \<Rightarrow> pyexc + builder_model" where
  "set_tools env m i tools =
     with_wf env m (map_node (bm_wf m) i (\<lambda>n. with_lists tools (nd_input_ports n) (nd_output_ports n) n))"

definition set_input_ports :: "load_env \<Rightarrow> builder_model \<Rightarrow> node_id \<Rightarrow> port list \<Rightarrow> pyexc + builder_model" where
  "set_input_ports env m i ports =
     with_wf env m (map_node (bm_wf m) i (\<lambda>n. with_lists (nd_tools n) ports (nd_output_ports n) n))"

definition set_output_ports :: "load_env \<Rightarrow> builder_model \<Rightarrow> node_id \<Rightarrow> port list \<Rightarrow> pyexc + builder_model" where
  "set_output_ports env m i ports =
     with_wf env m (map_node (bm_wf m) i (\<lambda>n. with_lists (nd_tools n) (nd_input_ports n) ports n))"

definition set_node_type :: "load_env \<Rightarrow> builder_model \<Rightarrow> node_id \<Rightarrow> string \<Rightarrow> pyexc + builder_model" where
  "set_node_type env m i t =
     (if t \<notin> {''agent'', ''script''} then Inl ValueError
      else with_wf env m (map_node (bm_wf m) i (with_type (literal_type t))))"

definition set_entry :: "load_env \<Rightarrow> builder_model \<Rightarrow> node_id \<Rightarrow> pyexc + builder_model" where
  "set_entry env m i = with_wf env m (replace_graph (bm_wf m) (wf_nodes (bm_wf m)) (wf_edges (bm_wf m)) i)"

definition add_edge ::
  "load_env \<Rightarrow> builder_model \<Rightarrow> node_id \<Rightarrow> node_id \<Rightarrow> condition option \<Rightarrow> int option \<Rightarrow> pyexc + builder_model" where
  "add_edge env m s d when bound =
     (let e = (edge_default s d)\<lparr>edge_when := when, loop_max := bound\<rparr>
      in with_wf env m (replace_graph (bm_wf m) (wf_nodes (bm_wf m)) (wf_edges (bm_wf m) @ [e]) (wf_entry (bm_wf m))))"

definition remove_edge :: "load_env \<Rightarrow> builder_model \<Rightarrow> int \<Rightarrow> pyexc + builder_model" where
  "remove_edge env m k =
     (let es = wf_edges (bm_wf m)
      in if \<not> (0 \<le> k \<and> k < int (length es)) then Inr m
         else with_wf env m (replace_graph (bm_wf m) (wf_nodes (bm_wf m)) (take (nat k) es @ drop (nat k + 1) es)
                (wf_entry (bm_wf m))))"

definition set_provider :: "load_env \<Rightarrow> builder_model \<Rightarrow> string \<Rightarrow> pyexc + builder_model" where
  "set_provider env m p = with_wf env m (replace_meta (bm_wf m) p (wf_default_model (bm_wf m)) (wf_initial_state (bm_wf m)))"

definition set_default_model :: "load_env \<Rightarrow> builder_model \<Rightarrow> string \<Rightarrow> pyexc + builder_model" where
  "set_default_model env m x = with_wf env m (replace_meta (bm_wf m) (wf_provider (bm_wf m)) x (wf_initial_state (bm_wf m)))"

definition set_initial_state :: "load_env \<Rightarrow> builder_model \<Rightarrow> (string \<times> string) list \<Rightarrow> pyexc + builder_model" where
  "set_initial_state env m st =
     with_wf env m (replace_meta (bm_wf m) (wf_provider (bm_wf m)) (wf_default_model (bm_wf m)) (map (\<lambda>(k, v). (k, VStr v)) st))"

definition select :: "builder_model \<Rightarrow> node_id option \<Rightarrow> builder_model" where
  "select m i = m\<lparr>bm_selected := i\<rparr>"

end
