(* ===== verification/Builder_Props.thy ===== *)
theory Builder_Props
  imports Builder
begin

text \<open>
  The editor as a state machine: edits that name existing nodes never raise and keep the model
  consistent; what adding, removing and renaming a node do to the graph.
\<close>

section \<open>Edits\<close>

datatype edit =
    AddNode string
  | RemoveNode node_id
  | RenameNode node_id node_id
  | SetField node_id string string
  | SetTools node_id "string list"
  | SetInputs node_id "port list"
  | SetOutputs node_id "port list"
  | SetType node_id string
  | SetEntry node_id
  | AddEdge node_id node_id "condition option" "int option"
  | RemoveEdge int
  | SetProvider string
  | SetModel string
  | SetState "(string \<times> string) list"
  | Select node_id

fun apply_edit :: "load_env \<Rightarrow> builder_model \<Rightarrow> edit \<Rightarrow> pyexc + builder_model" where
  "apply_edit env m (AddNode t) = add_node env m t"
| "apply_edit env m (RemoveNode i) = remove_node env m i"
| "apply_edit env m (RenameNode i j) = rename_node env m i j"
| "apply_edit env m (SetField i f x) = set_field env m i f x"
| "apply_edit env m (SetTools i xs) = set_tools env m i xs"
| "apply_edit env m (SetInputs i ps) = set_input_ports env m i ps"
| "apply_edit env m (SetOutputs i ps) = set_output_ports env m i ps"
| "apply_edit env m (SetType i t) = set_node_type env m i t"
| "apply_edit env m (SetEntry i) = set_entry env m i"
| "apply_edit env m (AddEdge s d c b) = add_edge env m s d c b"
| "apply_edit env m (RemoveEdge k) = remove_edge env m k"
| "apply_edit env m (SetProvider p) = set_provider env m p"
| "apply_edit env m (SetModel x) = set_default_model env m x"
| "apply_edit env m (SetState st) = set_initial_state env m st"
| "apply_edit env m (Select i) = Inr (select m (Some i))"

text \<open>The edits the editor offers: edges join existing nodes, the fields and types exist, and what is
  renamed or selected is a node.\<close>

fun offered :: "builder_model \<Rightarrow> edit \<Rightarrow> bool" where
  "offered m (RenameNode i j) \<longleftrightarrow> i \<in> node_id_set (bm_wf m)"
| "offered m (SetField i f x) \<longleftrightarrow> f \<in> {''model'', ''system_prompt'', ''prompt'', ''run''}"
| "offered m (SetType i t) \<longleftrightarrow> t \<in> {''agent'', ''script''}"
| "offered m (AddEdge s d c b) \<longleftrightarrow> s \<in> insert IN_NODE_ID (node_id_set (bm_wf m)) \<and> d \<in> insert OUT_NODE_ID (node_id_set (bm_wf m))"
| "offered m (Select i) \<longleftrightarrow> i \<in> node_id_set (bm_wf m)"
| "offered m _ \<longleftrightarrow> True"

definition graph_named :: "workflow_def \<Rightarrow> bool" where
  "graph_named w \<longleftrightarrow> (\<forall>e \<in> set (wf_edges w). edge_named (node_id_set w) e)"

definition all_named :: "workflow_def \<Rightarrow> bool" where
  "all_named w \<longleftrightarrow> graph_named w \<and> (\<forall>n \<in> set (wf_nodes w). \<forall>c. nd_child n = Some c \<longrightarrow> graph_named c)"

definition consistent :: "load_env \<Rightarrow> builder_model \<Rightarrow> bool" where
  "consistent env m \<longleftrightarrow> all_named (bm_wf m) \<and> validation_error_of env (bm_wf m) = Inr (bm_error m) \<and>
     (case bm_selected m of None \<Rightarrow> wf_nodes (bm_wf m) = [] | Some i \<Rightarrow> i \<in> node_id_set (bm_wf m))"

inductive edits :: "load_env \<Rightarrow> builder_model \<Rightarrow> edit list \<Rightarrow> builder_model \<Rightarrow> bool" for env :: load_env where
  edits_nil: "edits env m [] m"
| edits_cons: "offered m ed \<Longrightarrow> apply_edit env m ed = Inr m' \<Longrightarrow> edits env m' eds m'' \<Longrightarrow> edits env m (ed # eds) m''"

section \<open>Replaced graphs\<close>

lemma replace_simps [simp]:
  "wf_nodes (replace_graph w ns es i) = ns" "wf_edges (replace_graph w ns es i) = es" "wf_entry (replace_graph w ns es i) = i"
  "wf_nodes (replace_meta w p x st) = wf_nodes w" "wf_edges (replace_meta w p x st) = wf_edges w"
  by (simp_all add: replace_graph_def replace_meta_def)

lemma with_simps [simp]:
  "nd_id (with_id i n) = i" "nd_child (with_id i n) = nd_child n"
  "nd_id (with_type t n) = nd_id n" "nd_child (with_type t n) = nd_child n"
  "nd_id (with_texts x s p r n) = nd_id n" "nd_child (with_texts x s p r n) = nd_child n"
  "nd_id (with_lists ts is os n) = nd_id n" "nd_child (with_lists ts is os n) = nd_child n"
  by (cases n; simp add: with_id_def with_type_def with_texts_def with_lists_def)+

lemma node_default_simps [simp]: "nd_id (node_default i t) = i" "nd_child (node_default i t) = None"
  by (simp_all add: node_default_def)

lemma map_ids:
  "(\<And>n. nd_id (f n) = nd_id n) \<Longrightarrow> map nd_id (map (\<lambda>n. if nd_id n = i then f n else n) ns) = map nd_id ns"
  "map nd_id (map (\<lambda>n. if nd_id n = i then with_id j n else n) ns) = map (renamed i j) (map nd_id ns)"
  by (induction ns) (simp_all add: renamed_def)

lemma ids_map_node [simp]: "(\<And>n. nd_id (f n) = nd_id n) \<Longrightarrow> node_id_set (map_node w i f) = node_id_set w"
  unfolding node_id_set_def map_node_def replace_simps by (rule arg_cong [OF map_ids(1)])

lemma named_map_node:
  assumes "\<And>n. nd_id (f n) = nd_id n" and "\<And>n. nd_child (f n) = nd_child n" and "all_named w"
  shows "all_named (map_node w i f)"
proof -
  have "graph_named (map_node w i f)"
    using assms(3) ids_map_node [of f w i, OF assms(1)] by (simp add: all_named_def graph_named_def) (simp add: map_node_def)
  moreover have "graph_named c" if "n \<in> set (wf_nodes (map_node w i f))" "nd_child n = Some c" for n c
    using that assms(2,3) by (auto simp: map_node_def all_named_def split: if_splits)
  ultimately show ?thesis by (simp add: all_named_def)
qed

lemma named_replace:
  assumes "all_named w" and "\<forall>e \<in> set es. edge_named (nd_id ` set ns) e"
    and "\<And>n c. n \<in> set ns \<Longrightarrow> nd_child n = Some c \<Longrightarrow> \<exists>n' \<in> set (wf_nodes w). nd_child n' = Some c"
  shows "all_named (replace_graph w ns es i)"
  using assms unfolding all_named_def graph_named_def by (fastforce simp: node_id_set_def)


text \<open>Installing a workflow whose edges name their nodes always succeeds, and leaves a consistent model.\<close>

lemma validation_error_returns:
  assumes "\<forall>s. 5 \<le> length (le_sha env s)" and "all_named w"
  shows "\<exists>err. validation_error_of env w = Inr err"
proof -
  obtain errs where "validation_errors env None w = Inr errs"
    using validation_total [OF assms(1), of w None] assms(2)
    by (auto simp: all_named_def graph_named_def node_id_set_def)
  then show ?thesis by (simp add: validation_error_of_def validate_workflow_def first_error_def split: list.split)
qed

lemma kept_selection:
  "case keep_selection s w of None \<Rightarrow> wf_nodes w = [] | Some i \<Rightarrow> i \<in> node_id_set w"
  by (auto simp: keep_selection_def first_id_def node_id_set_def split: list.splits option.splits)

lemma with_wf_consistent:
  assumes "\<forall>s. 5 \<le> length (le_sha env s)" and "all_named w"
  shows "\<exists>m'. with_wf env m w = Inr m' \<and> consistent env m' \<and> bm_wf m' = w"
proof -
  obtain err where "validation_error_of env w = Inr err" using validation_error_returns [OF assms] ..
  then show ?thesis using kept_selection [of w "bm_selected m"] assms(2)
    by (auto simp: with_wf_def consistent_def split: option.splits)
qed

lemma reselect: "consistent env m \<Longrightarrow> i \<in> node_id_set (bm_wf m) \<Longrightarrow> consistent env (m\<lparr>bm_selected := Some i\<rparr>)"
  by (simp add: consistent_def)

lemma named_edges: "all_named w \<Longrightarrow> e \<in> set (wf_edges w) \<Longrightarrow> edge_named (nd_id ` set (wf_nodes w)) e"
  by (simp add: all_named_def graph_named_def node_id_set_def)

lemma edge_named_mono: "edge_named N e \<Longrightarrow> N \<subseteq> M \<Longrightarrow> edge_named M e"
  by (auto simp: edge_named_def)

lemma named_add_node: "all_named w \<Longrightarrow> all_named (replace_graph w (wf_nodes w @ [node_default i t]) (wf_edges w) j)"
  by (rule named_replace) (auto dest!: named_edges elim!: edge_named_mono)

lemma named_remove_node:
  "all_named w \<Longrightarrow> all_named (replace_graph w (filter (\<lambda>n. nd_id n \<noteq> i) (wf_nodes w))
     (filter (\<lambda>e. src e \<noteq> i \<and> dst e \<noteq> i) (wf_edges w)) j)"
  by (rule named_replace) (auto simp: edge_named_def dest!: named_edges)

lemma named_same_nodes:
  "all_named w \<Longrightarrow> \<forall>e \<in> set es. edge_named (node_id_set w) e \<Longrightarrow> all_named (replace_graph w (wf_nodes w) es j)"
  by (rule named_replace) (auto simp: node_id_set_def)

lemma named_meta: "all_named w \<Longrightarrow> all_named (replace_meta w p x st)"
  by (simp add: all_named_def graph_named_def node_id_set_def)

lemma renamed_ids: "node_id_set (rename_graph w i j) = renamed i j ` node_id_set w"
  unfolding node_id_set_def rename_graph_def replace_simps map_ids(2) by (simp add: image_image)

lemma named_rename:
  assumes "all_named w" and "i \<in> node_id_set w"
  shows "all_named (rename_graph w i j)"
proof -
  have "edge_named (renamed i j ` node_id_set w) (e\<lparr>src := renamed i j (src e), dst := renamed i j (dst e)\<rparr>)"
    if "e \<in> set (wf_edges w)" for e
    using named_edges [OF assms(1) that] assms(2) by (auto simp: edge_named_def renamed_def node_id_set_def)
  then have "graph_named (rename_graph w i j)"
    unfolding graph_named_def renamed_ids by (auto simp: rename_graph_def)
  moreover have "graph_named c" if "n \<in> set (wf_nodes (rename_graph w i j))" "nd_child n = Some c" for n c
    using that assms(1) by (auto simp: rename_graph_def all_named_def split: if_splits)
  ultimately show ?thesis by (simp add: all_named_def)
qed

lemma edit_step:
  assumes sha: "\<forall>s. 5 \<le> length (le_sha env s)" and m: "consistent env m" and o: "offered m ed"
  shows "\<exists>m'. apply_edit env m ed = Inr m' \<and> consistent env m'"
proof -
  have named: "all_named (bm_wf m)" using m by (simp add: consistent_def)
  have install: "\<exists>m'. with_wf env m w = Inr m' \<and> consistent env m'" if "all_named w" for w
    using with_wf_consistent [OF sha that] by blast
  show ?thesis
  proof (cases ed)
    case (AddNode t)
    define i where "i = unique_node_id (bm_wf m) (if literal_type t = Script then ''script'' else ''agent'')"
    define w where "w = replace_graph (bm_wf m) (wf_nodes (bm_wf m) @ [node_default i (literal_type t)]) (wf_edges (bm_wf m))
      (if wf_nodes (bm_wf m) = [] then i else wf_entry (bm_wf m))"
    obtain m' where m': "with_wf env m w = Inr m'" "consistent env m'" "bm_wf m' = w"
      using with_wf_consistent [OF sha, of w] named_add_node [OF named] w_def by blast
    have "i \<in> node_id_set w" by (simp add: w_def node_id_set_def)
    then have "consistent env (m'\<lparr>bm_selected := Some i\<rparr>)" using reselect m'(2,3) by blast
    moreover have "add_node env m t = Inr (m'\<lparr>bm_selected := Some i\<rparr>)"
      unfolding add_node_def Let_def i_def [symmetric] w_def [symmetric] m'(1) by simp
    ultimately show ?thesis using AddNode by simp
  next
    case (RemoveNode i)
    then show ?thesis using install [OF named_remove_node [OF named]] by (simp add: remove_node_def Let_def)
  next
    case (RenameNode i j)
    then have i: "i \<in> node_id_set (bm_wf m)" using o by simp
    then obtain m' where m': "with_wf env m (rename_graph (bm_wf m) i j) = Inr m'" "consistent env m'"
      "bm_wf m' = rename_graph (bm_wf m) i j"
      using with_wf_consistent [OF sha named_rename [OF named i]] by blast
    have "j \<in> node_id_set (bm_wf m')" using i unfolding m'(3) renamed_ids by (force simp: renamed_def)
    then show ?thesis using m' m reselect [OF m'(2), of j] RenameNode
      by (cases "bm_selected m = Some i") (auto simp: rename_node_def)
  next
    case (SetField i f x)
    then show ?thesis using o install [OF named_map_node] named by (simp add: set_field_def Let_def)
  next
    case (AddEdge s d c b)
    then show ?thesis using o install [OF named_same_nodes [OF named]] named_edges [OF named]
      by (simp add: add_edge_def edge_default_def edge_named_def node_id_set_def)
  next
    case (RemoveEdge k)
    have "all_named (replace_graph (bm_wf m) (wf_nodes (bm_wf m)) (take n es @ drop n' es) (wf_entry (bm_wf m)))"
      if "es = wf_edges (bm_wf m)" for n n' es
      using named_edges [OF named] that
      by (intro named_same_nodes [OF named]) (auto simp: node_id_set_def dest!: in_set_takeD in_set_dropD)
    then show ?thesis using RemoveEdge install m by (simp add: remove_edge_def Let_def)
  next
    case (SetEntry i)
    then show ?thesis using install [OF named_same_nodes [OF named]] named_edges [OF named]
      by (simp add: set_entry_def node_id_set_def)
  next
    case (Select i)
    then show ?thesis using o m by (simp add: select_def reselect)
  qed (use install [OF named_map_node] install [OF named_meta] named o in
    \<open>simp_all add: set_tools_def set_input_ports_def set_output_ports_def set_node_type_def set_provider_def
       set_default_model_def set_initial_state_def\<close>)
qed


section \<open>Properties\<close>

text \<open>C27. Editing never leaves the editor broken: from a consistent model, through any sequence of
  edits that name existing nodes, every further such edit returns (validation never raises out
  of \<open>with_wf\<close>), the stored error is the verdict of validation on the current workflow, edges
  join existing nodes and the selection is a node unless there is none.\<close>

theorem editor_consistent:
  assumes "\<forall>s. 5 \<le> length (le_sha env s)" and "consistent env m" and "edits env m eds m'"
  shows "consistent env m' \<and> (\<forall>ed. offered m' ed \<longrightarrow> (\<exists>m''. apply_edit env m' ed = Inr m'' \<and> consistent env m''))"
proof -
  have "consistent env m'"
    using assms(3,2)
  proof (induction rule: edits.induct)
    case (edits_cons m ed m1 eds m2)
    then show ?case using edit_step [OF assms(1), of m ed] by simp
  qed
  then show ?thesis using edit_step [OF assms(1)] by blast
qed

lemma empty_consistent:
  assumes "\<forall>s. 5 \<le> length (le_sha env s)"
  shows "\<exists>m. empty_model env name provider = Inr m \<and> consistent env m"
proof -
  have named: "all_named (workflow_default name provider [] [] [])"
    by (simp add: all_named_def graph_named_def workflow_default_def)
  then obtain err where "validation_error_of env (workflow_default name provider [] [] []) = Inr err"
    using validation_error_returns [OF assms] by blast
  then show ?thesis using named by (simp add: empty_model_def consistent_def workflow_default_def)
qed

lemma editor_consistent_witness:
  "\<exists>m m'. empty_model demo_load ''w'' ''p'' = Inr m \<and> edits demo_load m [AddNode ''agent''] m' \<and> consistent demo_load m'"
proof -
  have sha: "\<forall>s. 5 \<le> length (le_sha demo_load s)" by (simp add: demo_load_def demo_sha_def)
  obtain m where m: "empty_model demo_load ''w'' ''p'' = Inr m" "consistent demo_load m" using empty_consistent [OF sha] by blast
  obtain m' where m': "apply_edit demo_load m (AddNode ''agent'') = Inr m'" using edit_step [OF sha m(2), of "AddNode ''agent''"] by auto
  have e: "edits demo_load m [AddNode ''agent''] m'" by (rule edits_cons [OF _ m' edits_nil]) simp
  then show ?thesis using editor_consistent [OF sha m(2) e] m(1) by blast
qed

lemma next_suffix_least:
  "base @ show_nat (next_suffix used base i) \<notin> set used \<and> i \<le> next_suffix used base i \<and>
    (\<forall>j. i \<le> j \<and> j < next_suffix used base i \<longrightarrow> base @ show_nat j \<in> set used)"
proof (induction used base i rule: next_suffix.induct)
  case (1 used base i)
  show ?case
  proof (cases "base @ show_nat i \<in> set used")
    case True
    then have eq: "next_suffix used base i = next_suffix used base (i + 1)" by (subst next_suffix.simps) simp
    note IH = "1.IH" [OF True]
    have "base @ show_nat j \<in> set used" if "i \<le> j" "j < next_suffix used base (i + 1)" for j
      using IH True that by (cases "j = i") simp_all
    then show ?thesis unfolding eq using IH by simp
  next
    case False
    then have "next_suffix used base i = i" by (subst next_suffix.simps) simp
    then show ?thesis using False by auto
  qed
qed

text \<open>A new node gets a fresh name: the base name if it is free, else the base with the least
  number from 2 on that is; so node ids stay distinct when a node is added.\<close>

theorem unique_node_id_fresh:
  "unique_node_id w base \<notin> node_id_set w \<and>
   (base \<notin> node_id_set w \<longrightarrow> unique_node_id w base = base) \<and>
   (base \<in> node_id_set w \<longrightarrow> (\<exists>k \<ge> 2. unique_node_id w base = base @ show_nat k \<and>
      (\<forall>j. 2 \<le> j \<and> j < k \<longrightarrow> base @ show_nat j \<in> node_id_set w)))"
  using next_suffix_least [of base "map nd_id (wf_nodes w)" 2]
  unfolding unique_node_id_def node_id_set_def Let_def by auto

lemma unique_node_id_fresh_witness: "unique_node_id demo_flow ''a'' \<notin> {''a'', ''b''}"
  using unique_node_id_fresh [of demo_flow "''a''"] by (auto simp: node_id_set_def demo_flow_def demo_script_def)

lemma with_id_twice: "nd_id n = i \<Longrightarrow> with_id i (with_id j n) = n"
  by (cases n) (simp add: with_id_def)

lemma renamed_twice: "k \<noteq> j \<Longrightarrow> renamed j i (renamed i j k) = k"
  by (simp add: renamed_def)

text \<open>Renaming can be undone: a node renamed to a name nothing uses and renamed back gives the
  workflow it was, its edges and its entry included.\<close>

theorem rename_roundtrip:
  assumes "all_named w" and "j \<notin> node_id_set w" and "j \<noteq> IN_NODE_ID" and "j \<noteq> OUT_NODE_ID" and "wf_entry w \<noteq> j"
  shows "rename_graph (rename_graph w i j) j i = w"
proof -
  have nodes: "map (\<lambda>n. if nd_id n = j then with_id i n else n) (map (\<lambda>n. if nd_id n = i then with_id j n else n) (wf_nodes w)) = wf_nodes w"
    unfolding map_map using assms(2) by (intro map_idI) (auto simp: with_id_twice node_id_set_def)
  have edges: "map (\<lambda>e. e\<lparr>src := renamed j i (src e), dst := renamed j i (dst e)\<rparr>)
      (map (\<lambda>e. e\<lparr>src := renamed i j (src e), dst := renamed i j (dst e)\<rparr>) (wf_edges w)) = wf_edges w"
    unfolding map_map
  proof (rule map_idI)
    fix e assume "e \<in> set (wf_edges w)"
    then have "src e \<noteq> j" "dst e \<noteq> j" using named_edges [OF assms(1)] assms(2-4) by (auto simp: edge_named_def node_id_set_def)
    then show "((\<lambda>e. e\<lparr>src := renamed j i (src e), dst := renamed j i (dst e)\<rparr>) \<circ>
        (\<lambda>e. e\<lparr>src := renamed i j (src e), dst := renamed i j (dst e)\<rparr>)) e = e"
      by (simp add: renamed_twice)
  qed
  have "rename_graph (rename_graph w i j) j i = replace_graph w (wf_nodes w) (wf_edges w) (wf_entry w)"
    unfolding rename_graph_def replace_simps nodes edges renamed_twice [OF assms(5)] by (simp add: replace_graph_def)
  then show ?thesis by (simp add: replace_graph_def)
qed

lemma demo_flow_named: "all_named demo_flow"
  by (auto simp: all_named_def graph_named_def node_id_set_def edge_named_def demo_flow_def demo_script_def edge_default_def)

lemma rename_roundtrip_witness: "rename_graph (rename_graph demo_flow ''a'' ''z'') ''z'' ''a'' = demo_flow"
  by (rule rename_roundtrip [OF demo_flow_named])
    (simp_all add: node_id_set_def demo_flow_def demo_script_def IN_NODE_ID_def OUT_NODE_ID_def)

text \<open>The editor can be crashed through an edge that names no node: drawing a bounded loop next to
  it makes the action raise \<open>KeyError\<close>, which \<open>_validation_error\<close> does not catch.\<close>

theorem editor_edge_raises:
  "\<exists>m. bm_wf m = workflow_default ''d'' '''' '''' [demo_script ''a''] [edge_default ''a'' ''ghost''] \<and>
    add_edge \<lparr>le_sha = sha, le_skill = skill, le_script = (\<lambda>code. Some [[''ctx'', ''x'']]), le_tools = tools\<rparr>
      m ''a'' ''a'' None (Some 2) = Inl KeyError"
proof -
  define m where "m = \<lparr>bm_wf = workflow_default ''d'' '''' '''' [demo_script ''a''] [edge_default ''a'' ''ghost''],
    bm_selected = None, bm_dirty = False, bm_error = None\<rparr>"
  have e: "(edge_default ''a'' ''a'')\<lparr>edge_when := None, loop_max := Some 2\<rparr> = (edge_default ''a'' ''a'')\<lparr>loop_max := Some 2\<rparr>"
    by (simp add: edge_default_def)
  have "replace_graph (bm_wf m) (wf_nodes (bm_wf m)) (wf_edges (bm_wf m) @ [(edge_default ''a'' ''a'')\<lparr>loop_max := Some 2\<rparr>])
      (wf_entry (bm_wf m)) = dangling_flow"
    by (simp add: m_def dangling_flow_def workflow_default_def replace_graph_def)
  then have "add_edge \<lparr>le_sha = sha, le_skill = skill, le_script = (\<lambda>code. Some [[''ctx'', ''x'']]), le_tools = tools\<rparr>
      m ''a'' ''a'' None (Some 2) = Inl KeyError"
    unfolding add_edge_def Let_def e
    by (simp add: with_wf_def validation_error_of_def validate_workflow_def first_error_def dangling_key_error)
  moreover have "bm_wf m = workflow_default ''d'' '''' '''' [demo_script ''a''] [edge_default ''a'' ''ghost'']"
    by (simp add: m_def)
  ultimately show ?thesis by blast
qed

end
