(* ===== verification/Stub_Match.thy ===== *)
theory Stub_Match
  imports Models
begin

text \<open>
  \<open>flow/testing/match.py\<close>: the deep-subset rule of the test kit. \<open>diff\<close> is \<open>_diff\<close>, which reports
  the path of the first mismatch with both values; \<open>fits\<close> states the rule, and the search finds a
  difference exactly when the rule fails. Only a top-level value can be something other than a
  JSON value, and it never is, so \<open>_MISSING\<close> is the \<open>None\<close> of a lookup.
\<close>

section \<open>The search for a difference\<close>

definition is_bool :: "pyval \<Rightarrow> bool" where
  "is_bool v = (case v of VBool _ \<Rightarrow> True | _ \<Rightarrow> False)"

type_synonym difference = "string \<times> pyval \<times> pyval"

definition key_path :: "string \<Rightarrow> string \<Rightarrow> string" where
  "key_path path k = (if path \<noteq> [] then path @ ''.'' @ k else k)"

definition index_path :: "string \<Rightarrow> nat \<Rightarrow> string" where
  "index_path path i = path @ ''['' @ show_nat i @ '']''"

fun diff :: "pyval \<Rightarrow> pyval \<Rightarrow> string \<Rightarrow> difference option"
and diff_items :: "(string \<times> pyval) list \<Rightarrow> (string \<times> pyval) list \<Rightarrow> string \<Rightarrow> difference option"
and diff_elems :: "nat \<Rightarrow> pyval list \<Rightarrow> pyval list \<Rightarrow> string \<Rightarrow> difference option" where
  "diff (VDict d) actual path =
     (case actual of VDict a \<Rightarrow> diff_items d a path | _ \<Rightarrow> Some (path, VDict d, actual))"
| "diff (VList xs) actual path =
     (case actual of
        VList ys \<Rightarrow> if length xs \<noteq> length ys then Some (path, VList xs, actual) else diff_elems 0 xs ys path
      | _ \<Rightarrow> Some (path, VList xs, actual))"
| "diff expected actual path =
     (if is_bool expected \<noteq> is_bool actual then Some (path, expected, actual)
      else if py_eq expected actual then None
      else Some (path, expected, actual))"
| "diff_items [] a path = None"
| "diff_items ((k, want) # d) a path =
     (case map_of a k of
        None \<Rightarrow> Some (key_path path k, want, VNone)
      | Some got \<Rightarrow> (case diff want got (key_path path k) of Some x \<Rightarrow> Some x | None \<Rightarrow> diff_items d a path))"
| "diff_elems i (want # xs) (got # ys) path =
     (case diff want got (index_path path i) of Some x \<Rightarrow> Some x | None \<Rightarrow> diff_elems (i + 1) xs ys path)"
| "diff_elems i xs ys path = None"

definition matches :: "pyval \<Rightarrow> pyval \<Rightarrow> bool" where
  "matches expected actual = (diff expected actual [] = None)"

definition first_difference :: "pyval \<Rightarrow> pyval \<Rightarrow> string \<Rightarrow> difference option" where
  "first_difference expected actual base = diff expected actual base"

section \<open>The rule\<close>

text \<open>Every key of an expected dict is there and fits, extra keys are ignored; lists agree in length and
  element by element; anything else is equal, and a bool is only ever equal to a bool.\<close>

function (sequential) fits :: "pyval \<Rightarrow> pyval \<Rightarrow> bool" where
  "fits (VDict d) v \<longleftrightarrow> (case v of
     VDict a \<Rightarrow> (\<forall>(k, want) \<in> set d. case map_of a k of None \<Rightarrow> False | Some got \<Rightarrow> fits want got) | _ \<Rightarrow> False)"
| "fits (VList xs) v \<longleftrightarrow> (case v of VList ys \<Rightarrow> length xs = length ys \<and> (\<forall>(x, y) \<in> set (zip xs ys). fits x y) | _ \<Rightarrow> False)"
| "fits e v \<longleftrightarrow> is_bool e = is_bool v \<and> py_eq e v"
  by pat_completeness auto
termination
  by (relation "measure (\<lambda>(e, v). size e)")
    (auto simp: less_Suc_eq_le dest!: set_zip_leftD intro: size_list_estimation')

lemma diff_iff:
  "diff e v p = None \<longleftrightarrow> fits e v"
  "diff_items d a p = None \<longleftrightarrow> (\<forall>(k, want) \<in> set d. case map_of a k of None \<Rightarrow> False | Some got \<Rightarrow> fits want got)"
  "length xs = length ys \<Longrightarrow> diff_elems i xs ys p = None \<longleftrightarrow> (\<forall>(x, y) \<in> set (zip xs ys). fits x y)"
proof (induction e v p and d a p and i xs ys p rule: diff_diff_items_diff_elems.induct)
  case (1 d actual path)
  then show ?case by (cases actual) simp_all
next
  case (2 xs actual path)
  then show ?case by (cases actual) simp_all
next
  case (5 k want d a path)
  then show ?case by (cases "map_of a k") (auto split: option.splits)
next
  case (6 i want xs got ys path)
  then show ?case by (auto split: option.splits)
qed auto

section \<open>What the rule is\<close>

lemma fits_refl: "nan_free v \<Longrightarrow> keys_distinct v \<Longrightarrow> fits v v"
proof (induction v)
  case (VList xs)
  then have "fits x x" if "x \<in> set xs" for x using that by simp
  then show ?case by (auto simp: zip_same)
next
  case (VDict d)
  have "map_of d k = Some x \<and> fits x x" if "(k, x) \<in> set d" for k x
  proof -
    have "map_of d k = Some x" using VDict.prems(2) that by simp
    moreover have "nan_free x" "keys_distinct x" using VDict.prems that by auto
    then have "fits x x" using VDict.IH [OF that, of x] by (simp add: snds.simps)
    ultimately show ?thesis ..
  qed
  then show ?case by (auto split: option.split)
qed (auto simp: is_bool_def)

lemma pf_eq_trans: "pf_eq a b \<Longrightarrow> pf_eq b c \<Longrightarrow> pf_eq a c"
  by (cases a; cases b; cases c) simp_all

lemma py_eq_num: "py_num p = Some a \<Longrightarrow> py_eq p q \<longleftrightarrow> (\<exists>b. py_num q = Some b \<and> pf_eq a b)"
  by (cases p) (auto split: option.splits)

definition is_scalar :: "pyval \<Rightarrow> bool" where
  "is_scalar v = (case v of VDict _ \<Rightarrow> False | VList _ \<Rightarrow> False | _ \<Rightarrow> True)"

lemma is_scalars [simp]: "is_scalar VNone" "is_scalar (VBool b)" "is_scalar (VInt i)" "is_scalar (VFloat f)" "is_scalar (VStr s)"
  by (simp_all add: is_scalar_def)

lemma fits_scalar:
  assumes "is_scalar p"
  shows "fits p q \<longleftrightarrow> is_bool p = is_bool q \<and> py_eq p q"
  using assms by (cases p) (simp_all add: is_scalar_def)

lemma scalar_eq:
  assumes "is_scalar p" and "py_eq p q"
  shows "p = q \<or> (\<exists>a b. py_num p = Some a \<and> py_num q = Some b \<and> pf_eq a b)"
  using assms by (cases p) (auto simp: is_scalar_def split: option.splits)

lemma scalar_trans:
  assumes p: "is_scalar p" and "fits p q" and "fits q v"
  shows "fits p v"
proof -
  have pq: "is_bool p = is_bool q" "py_eq p q" using assms(2) fits_scalar [OF p] by blast+
  consider "p = q" | a b where "py_num p = Some a" "py_num q = Some b" "pf_eq a b"
    using scalar_eq [OF p pq(2)] by blast
  then show ?thesis
  proof cases
    case 2
    then have q: "is_scalar q" by (cases q; simp add: is_scalar_def)
    have "is_bool q = is_bool v" "py_eq q v" using assms(3) fits_scalar [OF q] by blast+
    then show ?thesis using 2 pq pf_eq_trans [OF 2(3)] fits_scalar [OF p] py_eq_num [OF 2(1)] py_eq_num [OF 2(2)] by auto
  qed (use assms(3) in simp)
qed

lemma fits_trans: "fits p q \<Longrightarrow> fits q v \<Longrightarrow> fits p v"
proof (induction p q arbitrary: v rule: fits.induct)
  case (1 d q)
  obtain a where q: "q = VDict a" using "1.prems"(1) by (cases q) simp_all
  obtain b where v: "v = VDict b" using "1.prems"(2) q by (cases v) simp_all
  have "\<exists>got. map_of b k = Some got \<and> fits want got" if kw: "(k, want) \<in> set d" for k want
  proof -
    obtain mid where mid: "map_of a k = Some mid" "fits want mid"
      using "1.prems"(1) q kw by (fastforce split: option.splits)
    then obtain got where got: "map_of b k = Some got" "fits mid got"
      using "1.prems"(2) q v map_of_SomeD [OF mid(1)] by (fastforce split: option.splits)
    show ?thesis using "1.IH" [OF q kw refl mid(1) mid(2) got(2)] got(1) by blast
  qed
  then show ?case using v by (fastforce split: option.splits)
next
  case (2 xs q)
  obtain ys where q: "q = VList ys" "length xs = length ys" using "2.prems"(1) by (cases q) simp_all
  obtain zs where v: "v = VList zs" "length ys = length zs" using "2.prems"(2) q by (cases v) simp_all
  have "fits (xs ! i) (zs ! i)" if i: "i < length xs" for i
  proof -
    have mem: "(xs ! i, ys ! i) \<in> set (zip xs ys)" "(ys ! i, zs ! i) \<in> set (zip ys zs)"
      using i q(2) v(2) by (auto simp: set_zip)
    then have "fits (xs ! i) (ys ! i)" "fits (ys ! i) (zs ! i)" using "2.prems" q v by fastforce+
    then show ?thesis by (rule "2.IH" [OF q(1) mem(1) refl])
  qed
  then show ?case using q v by (auto simp: set_zip)
qed (erule scalar_trans [OF is_scalars(1)] scalar_trans [OF is_scalars(2)] scalar_trans [OF is_scalars(3)]
    scalar_trans [OF is_scalars(4)] scalar_trans [OF is_scalars(5)], assumption)+

end
