(* ===== verification/Stubs.thy ===== *)
theory Stubs
  imports Stub_Match Errors
begin

text \<open>
  \<open>flow/testing/models.py\<close> and \<open>flow/testing/stubs.py\<close>: a test case's stubs in the shape the executor
  consults. \<open>CaseStubs\<close> keeps the calls it answered, the steps each node was asked at, and how
  often each rule fired; every method returns the new state with its answer. \<open>StubMiss\<close> is a
  \<open>WorkflowExecutionError\<close>.
\<close>

section \<open>Suites\<close>

record stub_rule =
  sr_then :: "(string \<times> pyval) list"
  sr_when :: "(string \<times> pyval) list option"
  sr_index :: "int option"
  sr_round :: "int option"
  sr_tokens :: int

definition is_default :: "stub_rule \<Rightarrow> bool" where
  "is_default r \<longleftrightarrow> sr_when r = None \<and> sr_index r = None \<and> sr_round r = None"

definition describe :: "stub_rule \<Rightarrow> string" where
  "describe r =
     (let parts = (case sr_when r of None \<Rightarrow> [] | Some d \<Rightarrow> [''when '' @ py_str (VDict d)])
          @ (case sr_index r of None \<Rightarrow> [] | Some i \<Rightarrow> [''index '' @ show_int i])
          @ (case sr_round r of None \<Rightarrow> [] | Some i \<Rightarrow> [''round '' @ show_int i])
      in if parts \<noteq> [] then join '' + '' parts else ''(default)'')"

record node_stub =
  ns_node :: node_id
  ns_rules :: "stub_rule list"

datatype outcome = Success | Error | Paused

record expectation =
  ex_outcome :: outcome
  ex_error :: "string option"
  ex_paused :: "node_id option"
  ex_output :: "(string \<times> pyval) list"
  ex_calls :: "(node_id \<times> int) list"

record test_case =
  tc_name :: string
  tc_inputs :: "(string \<times> pyval) list"
  tc_signals :: "string set"
  tc_max_tokens :: "int option"
  tc_agents :: "(node_id \<times> node_stub) list"
  tc_subflows :: "(node_id \<times> node_stub) list"
  tc_scripts :: "(node_id \<times> node_stub) list"
  tc_expect :: expectation

section \<open>The state of a case's stubs\<close>

record stub_call =
  ca_node :: node_id
  ca_round :: int
  ca_fan_index :: "int option"
  ca_inputs :: "(string \<times> pyval) list"
  ca_rule :: "nat option"

record stubs =
  st_calls :: "stub_call list"
  st_rounds :: "(node_id \<times> int list) list"
  st_fired :: "((node_id \<times> nat) \<times> int) list"

definition new_stubs :: stubs where
  "new_stubs = \<lparr>st_calls = [], st_rounds = [], st_fired = []\<rparr>"

fun position :: "'a \<Rightarrow> 'a list \<Rightarrow> nat" where
  "position x [] = 0"
| "position x (y # ys) = (if x = y then 0 else Suc (position x ys))"

text \<open>\<open>_round\<close>: the steps a node was asked at, in the order of the first question of each.\<close>

definition seen_steps :: "(node_id \<times> int list) list \<Rightarrow> node_id \<Rightarrow> int list" where
  "seen_steps rounds n = (case map_of rounds n of None \<Rightarrow> [] | Some xs \<Rightarrow> xs)"

definition note_step :: "int \<Rightarrow> int list \<Rightarrow> int list" where
  "note_step step seen = (if step \<in> set seen then seen else seen @ [step])"

definition round_of :: "stubs \<Rightarrow> node_id \<Rightarrow> int \<Rightarrow> stubs \<times> int" where
  "round_of st n step =
     (let seen = note_step step (seen_steps (st_rounds st) n)
      in (st\<lparr>st_rounds := AList.update n seen (st_rounds st)\<rparr>, int (position step seen) + 1))"

definition rule_fits :: "stub_rule \<Rightarrow> (string \<times> pyval) list \<Rightarrow> int \<Rightarrow> int option \<Rightarrow> bool" where
  "rule_fits r inputs rnd fan_index =
     (if sr_round r \<noteq> None \<and> sr_round r \<noteq> Some rnd then False
      else if sr_index r \<noteq> None \<and> sr_index r \<noteq> fan_index then False
      else (case sr_when r of None \<Rightarrow> True | Some d \<Rightarrow> matches (VDict d) (VDict inputs)))"

fun first_fit :: "nat \<Rightarrow> stub_rule list \<Rightarrow> (string \<times> pyval) list \<Rightarrow> int \<Rightarrow> int option \<Rightarrow> (nat \<times> stub_rule) option" where
  "first_fit i [] inputs rnd fan_index = None"
| "first_fit i (r # rs) inputs rnd fan_index =
     (if rule_fits r inputs rnd fan_index then Some (i, r) else first_fit (Suc i) rs inputs rnd fan_index)"

definition fired_count :: "((node_id \<times> nat) \<times> int) list \<Rightarrow> node_id \<times> nat \<Rightarrow> int" where
  "fired_count fired k = (case map_of fired k of None \<Rightarrow> 0 | Some c \<Rightarrow> c)"

definition select_rule ::
  "stubs \<Rightarrow> node_stub \<Rightarrow> (string \<times> pyval) list \<Rightarrow> int \<Rightarrow> int option \<Rightarrow> stubs \<times> (pyexc + stub_rule)" where
  "select_rule st stub inputs step fan_index =
     (let (st1, rnd) = round_of st (ns_node stub) step;
          call = \<lparr>ca_node = ns_node stub, ca_round = rnd, ca_fan_index = fan_index, ca_inputs = inputs, ca_rule = None\<rparr>
      in case first_fit 0 (ns_rules stub) inputs rnd fan_index of
           None \<Rightarrow> (st1\<lparr>st_calls := st_calls st1 @ [call]\<rparr>, Inl ExecutionError)
         | Some (i, r) \<Rightarrow>
             (st1\<lparr>st_calls := st_calls st1 @ [call\<lparr>ca_rule := Some i\<rparr>],
                st_fired := AList.update (ns_node stub, i) (fired_count (st_fired st1) (ns_node stub, i) + 1) (st_fired st1)\<rparr>,
              Inr r))"

definition agent_value :: "node_def \<Rightarrow> (string \<times> pyval) list \<Rightarrow> pyval" where
  "agent_value n ports =
     (if agent_submits_object n then VDict ports
      else (case output_names n of
              [] \<Rightarrow> VNone
            | p # _ \<Rightarrow> (case map_of ports p of None \<Rightarrow> VNone | Some v \<Rightarrow> v)))"

definition stub_agent ::
  "test_case \<Rightarrow> stubs \<Rightarrow> node_def \<Rightarrow> (string \<times> pyval) list \<Rightarrow> int \<Rightarrow> int option \<Rightarrow> stubs \<times> (pyexc + pyval \<times> int)" where
  "stub_agent c st n inputs step fan_index =
     (case map_of (tc_agents c) (nd_id n) of
        None \<Rightarrow> (st, Inl ExecutionError)
      | Some stub \<Rightarrow>
          (let (st', r) = select_rule st stub inputs step fan_index
           in (st', raise_bind r (\<lambda>rule. Inr (agent_value n (sr_then rule), sr_tokens rule)))))"

definition stub_subflow ::
  "test_case \<Rightarrow> stubs \<Rightarrow> node_def \<Rightarrow> (string \<times> pyval) list \<Rightarrow> int \<Rightarrow> stubs \<times> (pyexc + (string \<times> pyval) list option)" where
  "stub_subflow c st n inputs step =
     (case map_of (tc_subflows c) (nd_id n) of
        None \<Rightarrow> (st, Inr None)
      | Some stub \<Rightarrow>
          (let (st', r) = select_rule st stub inputs step None
           in (st', raise_bind r (\<lambda>rule. Inr (Some (sr_then rule))))))"

definition stub_script ::
  "test_case \<Rightarrow> stubs \<Rightarrow> node_def \<Rightarrow> (string \<times> pyval) list \<Rightarrow> int \<Rightarrow> int option \<Rightarrow> stubs \<times> (pyexc + (string \<times> pyval) list option)" where
  "stub_script c st n inputs step fan_index =
     (case map_of (tc_scripts c) (nd_id n) of
        None \<Rightarrow> (st, Inr None)
      | Some stub \<Rightarrow>
          (let (st', r) = select_rule st stub inputs step fan_index
           in (st', raise_bind r (\<lambda>rule. Inr (Some (sr_then rule))))))"

section \<open>Reporting\<close>

definition stale_of :: "stubs \<Rightarrow> node_id \<times> node_stub \<Rightarrow> (node_id \<times> nat \<times> stub_rule) list" where
  "stale_of st p =
     (let (n, stub) = p
      in if \<not> (\<exists>c \<in> set (st_calls st). ca_node c = n) then []
         else map (\<lambda>(i, r). (n, i, r))
           (filter (\<lambda>(i, r). \<not> is_default r \<and> map_of (st_fired st) (n, i) = None) (List.enumerate 0 (ns_rules stub))))"

definition unused_rules :: "test_case \<Rightarrow> stubs \<Rightarrow> (node_id \<times> nat \<times> stub_rule) list" where
  "unused_rules c st = concat (map (stale_of st) (tc_agents c @ tc_subflows c @ tc_scripts c))"

definition stubbed_nodes :: "test_case \<Rightarrow> node_id set" where
  "stubbed_nodes c = fst ` set (tc_agents c) \<union> fst ` set (tc_subflows c) \<union> fst ` set (tc_scripts c)"

end
