(* ===== verification/Stub_Props.thy ===== *)
theory Stub_Props
  imports Stubs "HOL-Library.Multiset"
begin

text \<open>
  What a case's stubs answer: the first rule that fits, whatever order concurrent activations ask
  in, and which rules are reported as never used.
\<close>

section \<open>Sequences of questions\<close>

text \<open>A question is one call of \<open>_select\<close>.\<close>

record question =
  qu_stub :: node_stub
  qu_inputs :: "(string \<times> pyval) list"
  qu_step :: int
  qu_fan_index :: "int option"

abbreviation qu_node :: "question \<Rightarrow> node_id" where
  "qu_node q \<equiv> ns_node (qu_stub q)"

definition ask :: "stubs \<Rightarrow> question \<Rightarrow> stubs \<times> (pyexc + stub_rule)" where
  "ask st q = select_rule st (qu_stub q) (qu_inputs q) (qu_step q) (qu_fan_index q)"

fun ask_with :: "('s \<Rightarrow> question \<Rightarrow> 's \<times> 'r) \<Rightarrow> 's \<Rightarrow> question list \<Rightarrow> 's \<times> (question \<times> 'r) list" where
  "ask_with f st [] = (st, [])"
| "ask_with f st (q # qs) =
     (let (st1, r) = f st q; (st2, rs) = ask_with f st1 qs in (st2, (q, r) # rs))"

abbreviation ask_all :: "stubs \<Rightarrow> question list \<Rightarrow> stubs \<times> (question \<times> (pyexc + stub_rule)) list" where
  "ask_all \<equiv> ask_with ask"

definition answer :: "question \<Rightarrow> int \<Rightarrow> pyexc + stub_rule" where
  "answer q rnd = (case first_fit 0 (ns_rules (qu_stub q)) (qu_inputs q) rnd (qu_fan_index q) of
     None \<Rightarrow> Inl ExecutionError | Some (i, r) \<Rightarrow> Inr r)"

text \<open>The questions of one node come in the order of its steps.\<close>

definition in_step_order :: "question list \<Rightarrow> bool" where
  "in_step_order qs \<longleftrightarrow> sorted_wrt (\<lambda>p q. qu_node p = qu_node q \<longrightarrow> qu_step p \<le> qu_step q) qs"

definition earlier_steps :: "question set \<Rightarrow> question \<Rightarrow> int set" where
  "earlier_steps Q q = {qu_step p | p. p \<in> Q \<and> qu_node p = qu_node q \<and> qu_step p < qu_step q}"

section \<open>The contract of an ordered client\<close>

text \<open>What the executor relies on when it consults a \<open>NodeStubs\<close>: as long as the questions of a node come in
  the order of its steps, the answer to a question is settled by the node's earlier steps alone.\<close>

locale ordered_oracle =
  fixes consult :: "'s \<Rightarrow> question \<Rightarrow> 's \<times> 'r"
    and told :: "'s \<Rightarrow> question list \<Rightarrow> bool"
    and reply :: "question \<Rightarrow> int set \<Rightarrow> 'r"
  assumes told_next: "told st ps \<Longrightarrow> (\<And>p. p \<in> set ps \<Longrightarrow> qu_node p = qu_node q \<Longrightarrow> qu_step p \<le> qu_step q) \<Longrightarrow>
      told (fst (consult st q)) (ps @ [q])"
    and replies: "told st ps \<Longrightarrow> (\<And>p. p \<in> set ps \<Longrightarrow> qu_node p = qu_node q \<Longrightarrow> qu_step p \<le> qu_step q) \<Longrightarrow>
      snd (consult st q) = reply q (earlier_steps (set ps) q)"
begin

lemma ask_with_answers:
  assumes "told st ps" and "in_step_order (ps @ qs)"
  shows "snd (ask_with consult st qs) = map (\<lambda>q. (q, reply q (earlier_steps (set (ps @ qs)) q))) qs"
  using assms
proof (induction qs arbitrary: st ps)
  case (Cons q qs)
  have le: "qu_step p \<le> qu_step q" if "p \<in> set ps" "qu_node p = qu_node q" for p
    using Cons.prems(2) that by (auto simp: in_step_order_def sorted_wrt_append)
  have later: "earlier_steps (set ps) q = earlier_steps (set (ps @ q # qs)) q"
    using Cons.prems(2) by (force simp: earlier_steps_def in_step_order_def sorted_wrt_append)
  have "snd (ask_with consult (fst (consult st q)) qs) =
      map (\<lambda>r. (r, reply r (earlier_steps (set ((ps @ [q]) @ qs)) r))) qs"
    using Cons.IH [OF told_next [OF Cons.prems(1) le]] Cons.prems(2) by simp
  then show ?case using replies [OF Cons.prems(1) le] later by (simp add: split_beta)
qed simp

end

section \<open>A case's stubs meet it\<close>

lemma ask_parts:
  "snd (ask st q) = answer q (snd (round_of st (qu_node q) (qu_step q)))"
  "st_rounds (fst (ask st q)) = st_rounds (fst (round_of st (qu_node q) (qu_step q)))"
  by (simp_all add: ask_def select_rule_def answer_def Let_def split_beta split: option.split)

lemma seen_round_of:
  "seen_steps (st_rounds (fst (round_of st n step))) m =
     (if m = n then note_step step (seen_steps (st_rounds st) n) else seen_steps (st_rounds st) m)"
  by (simp add: round_of_def seen_steps_def Let_def)

lemma position_sorted:
  "sorted_wrt (<) xs \<Longrightarrow> (x :: int) \<in> set xs \<Longrightarrow> position x xs = card {y \<in> set xs. y < x}"
proof (induction xs)
  case (Cons y ys)
  show ?case
  proof (cases "x = y")
    case True
    then have "{z \<in> set (y # ys). z < x} = {}" using Cons.prems(1) by auto
    then show ?thesis using True by simp
  next
    case False
    then have x: "x \<in> set ys" "y < x" using Cons.prems by auto
    have "y \<notin> set ys" using Cons.prems(1) by auto
    then have "card {z \<in> set (y # ys). z < x} = Suc (card {z \<in> set ys. z < x})"
      using x(2) by (simp add: Collect_disj_eq conj_disj_distribR insert_compr [symmetric] Collect_conj_eq)
    then show ?thesis using False Cons.IH x Cons.prems(1) by (simp add: False)
  qed
qed simp

text \<open>What is known of the state after the questions of \<open>ps\<close>.\<close>

definition knows :: "stubs \<Rightarrow> question list \<Rightarrow> bool" where
  "knows st ps \<longleftrightarrow> (\<forall>n. sorted_wrt (<) (seen_steps (st_rounds st) n) \<and>
     set (seen_steps (st_rounds st) n) = qu_step ` {p \<in> set ps. qu_node p = n})"

lemma note_step_sorted:
  "sorted_wrt (<) xs \<Longrightarrow> (\<And>y. y \<in> set xs \<Longrightarrow> y \<le> (x :: int)) \<Longrightarrow> sorted_wrt (<) (note_step x xs)"
  by (auto simp: note_step_def sorted_wrt_append order_le_less)

lemma set_note_step: "set (note_step x xs) = insert x (set xs)"
  by (auto simp: note_step_def)

lemma ask_knows:
  assumes k: "knows st ps" and le: "\<And>p. p \<in> set ps \<Longrightarrow> qu_node p = qu_node q \<Longrightarrow> qu_step p \<le> qu_step q"
  shows "knows (fst (ask st q)) (ps @ [q])"
    and "snd (ask st q) = answer q (int (card (earlier_steps (set ps) q)) + 1)"
proof -
  let ?seen = "note_step (qu_step q) (seen_steps (st_rounds st) (qu_node q))"
  have sorted: "sorted_wrt (<) ?seen"
    using k le by (intro note_step_sorted) (auto simp: knows_def)
  have elems: "set ?seen = insert (qu_step q) (qu_step ` {p \<in> set ps. qu_node p = qu_node q})"
    using k by (simp add: set_note_step knows_def)
  show "knows (fst (ask st q)) (ps @ [q])"
    using k sorted elems by (auto simp: knows_def ask_parts seen_round_of)
  have "position (qu_step q) ?seen = card {y \<in> set ?seen. y < qu_step q}"
    by (rule position_sorted [OF sorted]) (simp add: elems)
  also have "{y \<in> set ?seen. y < qu_step q} = earlier_steps (set ps) q"
    by (auto simp: elems earlier_steps_def)
  finally show "snd (ask st q) = answer q (int (card (earlier_steps (set ps) q)) + 1)"
    by (simp add: ask_parts round_of_def Let_def)
qed

interpretation case_stubs: ordered_oracle ask knows "\<lambda>q steps. answer q (int (card steps) + 1)"
  by unfold_locales (rule ask_knows, assumption+)+

lemma ask_all_answers:
  assumes "in_step_order qs"
  shows "snd (ask_all new_stubs qs) = map (\<lambda>q. (q, answer q (int (card (earlier_steps (set qs) q)) + 1))) qs"
proof -
  have "knows new_stubs []" by (simp add: knows_def new_stubs_def seen_steps_def)
  then show ?thesis using case_stubs.ask_with_answers [of new_stubs "[]" qs] assms by simp
qed

text \<open>C29. Stub selection does not depend on completion order: two runs that put the same questions to
  a case's stubs, in any two interleavings that keep each node's questions in the order of its
  steps, get the same answer to every question, the rule chosen with the round that counts the
  node's distinct earlier steps.\<close>

theorem stubs_order_independent:
  assumes "mset qs = mset ps" and "in_step_order qs" and "in_step_order ps"
  shows "mset (snd (ask_all new_stubs qs)) = mset (snd (ask_all new_stubs ps)) \<and>
    (\<forall>q r. (q, r) \<in> set (snd (ask_all new_stubs qs)) \<longrightarrow> r = answer q (int (card (earlier_steps (set qs) q)) + 1))"
  unfolding ask_all_answers [OF assms(2)] ask_all_answers [OF assms(3)]
  using assms(1) mset_eq_setD [OF assms(1)] by auto

text \<open>A node asked in two loop iterations, the second of them a fan of two.\<close>

definition demo_stub :: node_stub where
  "demo_stub = \<lparr>ns_node = ''n'', ns_rules =
     [\<lparr>sr_then = [(''o'', VInt 1)], sr_when = None, sr_index = None, sr_round = Some 1, sr_tokens = 0\<rparr>,
      \<lparr>sr_then = [(''o'', VInt 2)], sr_when = None, sr_index = Some 1, sr_round = None, sr_tokens = 0\<rparr>,
      \<lparr>sr_then = [(''o'', VInt 3)], sr_when = None, sr_index = None, sr_round = None, sr_tokens = 0\<rparr>]\<rparr>"

definition demo_question :: "int \<Rightarrow> int option \<Rightarrow> question" where
  "demo_question step i = \<lparr>qu_stub = demo_stub, qu_inputs = [], qu_step = step, qu_fan_index = i\<rparr>"

lemma stubs_order_independent_witness:
  "mset (snd (ask_all new_stubs [demo_question 0 None, demo_question 4 (Some 0), demo_question 4 (Some 1)])) =
   mset (snd (ask_all new_stubs [demo_question 0 None, demo_question 4 (Some 1), demo_question 4 (Some 0)]))"
  by (rule stubs_order_independent [THEN conjunct1]) (simp_all add: demo_question_def in_step_order_def)

section \<open>The first rule that fits\<close>

lemma first_fit_least:
  "first_fit k rs inputs rnd fi = Some (i, r) \<longleftrightarrow>
     k \<le> i \<and> i < k + length rs \<and> r = rs ! (i - k) \<and> rule_fits r inputs rnd fi \<and>
     (\<forall>j < i - k. \<not> rule_fits (rs ! j) inputs rnd fi)"
proof (induction rs arbitrary: k)
  case (Cons x xs)
  show ?case
  proof (cases "rule_fits x inputs rnd fi")
    case True
    have "\<exists>j < i - k. rule_fits ((x # xs) ! j) inputs rnd fi" if "k \<le> i" "i \<noteq> k"
      using True that by (intro exI [of _ 0]) simp
    then show ?thesis using True by (cases "i = k") auto
  next
    case False
    then have "first_fit k (x # xs) inputs rnd fi = first_fit (Suc k) xs inputs rnd fi" by simp
    also have "\<dots> = Some (i, r) \<longleftrightarrow> Suc k \<le> i \<and> i < Suc k + length xs \<and> r = xs ! (i - Suc k) \<and> rule_fits r inputs rnd fi \<and>
        (\<forall>j < i - Suc k. \<not> rule_fits (xs ! j) inputs rnd fi)" by (rule Cons.IH)
    also have "\<dots> \<longleftrightarrow> k \<le> i \<and> i < k + length (x # xs) \<and> r = (x # xs) ! (i - k) \<and> rule_fits r inputs rnd fi \<and>
        (\<forall>j < i - k. \<not> rule_fits ((x # xs) ! j) inputs rnd fi)"
    proof (cases "Suc k \<le> i")
      case True
      then obtain m where "i = Suc k + m" using le_Suc_ex by blast
      then show ?thesis using False by (auto simp: less_Suc_eq_0_disj nth_Cons')
    next
      case k: False
      then show ?thesis using False by (cases "i = k") auto
    qed
    finally show ?thesis .
  qed
qed simp

lemma first_fit_None: "first_fit k rs inputs rnd fi = None \<longleftrightarrow> (\<forall>r \<in> set rs. \<not> rule_fits r inputs rnd fi)"
  by (induction rs arbitrary: k) auto

section \<open>Which rules are stale\<close>

definition used :: "stub_call list \<Rightarrow> node_id \<Rightarrow> nat \<Rightarrow> bool" where
  "used calls n i \<longleftrightarrow> (\<exists>c \<in> set calls. ca_node c = n \<and> ca_rule c = Some i)"

definition fired_tracks :: "stubs \<Rightarrow> bool" where
  "fired_tracks st \<longleftrightarrow> (\<forall>n i. map_of (st_fired st) (n, i) \<noteq> None \<longleftrightarrow> used (st_calls st) n i)"

lemma ask_fired: "fired_tracks st \<Longrightarrow> fired_tracks (fst (ask st q))"
  by (auto simp: fired_tracks_def used_def ask_def select_rule_def round_of_def Let_def split: option.split)

lemma ask_all_fired: "fired_tracks st \<Longrightarrow> fired_tracks (fst (ask_all st qs))"
  by (induction qs arbitrary: st) (simp_all add: split_beta ask_fired)

lemma ask_calls: "map ca_node (st_calls (fst (ask st q))) = map ca_node (st_calls st) @ [qu_node q]"
  by (simp add: ask_def select_rule_def round_of_def Let_def split: option.split)

lemma ask_all_calls: "map ca_node (st_calls (fst (ask_all st qs))) = map ca_node (st_calls st) @ map qu_node qs"
  by (induction qs arbitrary: st) (simp_all add: split_beta ask_calls)

text \<open>The report of stale rules is exact: after any questions, a rule is reported for a node exactly
  when the node was asked, the rule is one of the node's stub and has a selector, and no call
  chose it; a stub of a node that never ran reports nothing.\<close>

theorem unused_rules_exact:
  "(n, i, r) \<in> set (unused_rules c (fst (ask_all new_stubs qs))) \<longleftrightarrow>
     n \<in> qu_node ` set qs \<and> \<not> is_default r \<and> \<not> used (st_calls (fst (ask_all new_stubs qs))) n i \<and>
     (\<exists>stub. (n, stub) \<in> set (tc_agents c @ tc_subflows c @ tc_scripts c) \<and> i < length (ns_rules stub) \<and> r = ns_rules stub ! i)"
proof -
  let ?st = "fst (ask_all new_stubs qs)"
  have "fired_tracks ?st"
    by (rule ask_all_fired) (simp add: fired_tracks_def new_stubs_def used_def)
  then have fired: "map_of (st_fired ?st) (n, i) = None \<longleftrightarrow> \<not> used (st_calls ?st) n i" for n i
    unfolding fired_tracks_def by blast
  have "(\<exists>c \<in> set (st_calls ?st). ca_node c = n) \<longleftrightarrow> n \<in> set (map ca_node (st_calls ?st))" for n by auto
  then have asked: "(\<exists>c \<in> set (st_calls ?st). ca_node c = n) \<longleftrightarrow> n \<in> qu_node ` set qs" for n
    by (simp only: ask_all_calls) (simp add: new_stubs_def)
  have one: "(n, i, r) \<in> set (stale_of ?st (m, stub)) \<longleftrightarrow>
      m = n \<and> n \<in> qu_node ` set qs \<and> \<not> is_default r \<and> \<not> used (st_calls ?st) n i \<and>
      i < length (ns_rules stub) \<and> r = ns_rules stub ! i" for m stub
    by (auto simp: stale_of_def asked fired in_set_enumerate_eq)
  have "(n, i, r) \<in> set (unused_rules c ?st) \<longleftrightarrow>
      (\<exists>(m, stub) \<in> set (tc_agents c @ tc_subflows c @ tc_scripts c). (n, i, r) \<in> set (stale_of ?st (m, stub)))"
    by (auto simp: unused_rules_def)
  then show ?thesis unfolding one by blast
qed

end
