(* ===== verification/Stub_Exec.thy ===== *)
theory Stub_Exec
  imports Stub_Props Exec_Props
begin

text \<open>
  The executor as the client of a case's stubs. An activation consults them in its own blocks, with
  its own step number, so the order of the blocks of a run is the order of the questions; it keeps
  the questions of each node in the order of its steps, which is what selection asks for.
\<close>

section \<open>Who asks along a run\<close>

definition block_of :: "xevent \<Rightarrow> nat option" where
  "block_of e = (case e of Call k \<Rightarrow> Some k | Return k \<Rightarrow> Some k | _ \<Rightarrow> None)"

definition asker :: "conf \<Rightarrow> nat \<Rightarrow> node_id \<times> nat" where
  "asker c k = (sl_node (cf_batch c ! k), sl_step (cf_batch c ! k))"

inductive asked :: "exec_env \<Rightarrow> frontier_spec \<Rightarrow> conf \<Rightarrow> (node_id \<times> nat) list \<Rightarrow> conf \<Rightarrow> bool"
  for env sp c where
  asked_start: "asked env sp c [] c"
| asked_block: "asked env sp c ks c1 \<Longrightarrow> exec_step env sp c1 e c2 \<Longrightarrow> block_of e = Some k \<Longrightarrow>
    asked env sp c (ks @ [asker c1 k]) c2"
| asked_quiet: "asked env sp c ks c1 \<Longrightarrow> exec_step env sp c1 e c2 \<Longrightarrow> block_of e = None \<Longrightarrow> asked env sp c ks c2"

lemma asked_trace: "asked env sp c ks c' \<Longrightarrow> \<exists>es. trace (exec_step env sp) c es c'"
  by (induction rule: asked.induct) (blast intro: trace.intros)+

section \<open>The batch of a run\<close>

text \<open>A node is leased once in a batch.\<close>

definition one_slot :: "frontier_spec \<Rightarrow> conf \<Rightarrow> bool" where
  "one_slot sp c \<longleftrightarrow> mirrored sp c \<and> distinct (map sl_node (cf_batch c))"

lemma node_make_slots: "map sl_node (make_slots k acts) = map fst acts"
  using arg_cong [OF key_make_slots [of k acts], of "map fst"] by (simp add: act_key_def comp_def)

lemma one_slot_step:
  assumes step: "exec_step env sp c e c'" and ok: "one_slot sp c"
  shows "one_slot sp c'"
proof -
  have m: "mirrored sp c" and d: "distinct (map sl_node (cf_batch c))" using ok by (simp_all add: one_slot_def)
  have "distinct (map sl_node (cf_batch c'))"
    using step
  proof (cases rule: exec_step_cases)
    case (leased acts f)
    then show ?thesis
      using distinct_nodes_leased [of sp "cf_front c" acts f] m by (simp add: mirrored_def node_make_slots)
  next
    case (moves k r)
    have "map sl_node (cf_batch c') = map sl_node (cf_batch c)"
      using moves list_update_id [of "map sl_node (cf_batch c)" k] by (simp add: map_update put_slot_def moved_def)
    then show ?thesis using d by simp
  next
    case settles
    then show ?thesis using settle_settled [OF settles(5)] by (simp add: settled_def)
  qed (use d in simp_all)
  then show ?thesis using mirrored_step [OF step m] by (simp add: one_slot_def)
qed

section \<open>Questions come in the order of the steps\<close>

text \<open>No block of a node can come for an earlier step than one that was asked.\<close>

definition settled_step :: "conf \<Rightarrow> node_id \<times> nat \<Rightarrow> bool" where
  "settled_step c p \<longleftrightarrow> snd p < xs_step (cf_x c) \<and> (\<forall>s \<in> set (cf_batch c). sl_node s = fst p \<longrightarrow> snd p \<le> sl_step s)"

lemma settled_step_keeps:
  assumes step: "exec_step env sp c e c'" and p: "settled_step c p"
  shows "settled_step c' p"
  using step
proof (cases rule: exec_step_cases)
  case (leased acts f)
  have "xs_step (cf_x c) \<le> sl_step s" if "s \<in> set (make_slots (xs_step (cf_x c)) acts)" for s
    using that step_make_slots [of "xs_step (cf_x c)" acts] by (metis atLeastLessThan_iff imageI list.set_map set_upt)
  then show ?thesis using p leased by (fastforce simp: settled_step_def)
next
  case (moves k r)
  have "xs_step (fst r) = xs_step (cf_x c)" and k: "k < length (cf_batch c)"
    using moves by (simp_all add: moved_def blocked_def framed_def)
  moreover have "\<exists>t \<in> set (cf_batch c). sl_node t = sl_node s \<and> sl_step t = sl_step s" if "s \<in> set (cf_batch c')" for s
  proof -
    have "s = (cf_batch c ! k)\<lparr>sl_phase := snd r\<rparr> \<or> s \<in> set (cf_batch c)"
      using that set_update_subset_insert [of "cf_batch c" k] moves(2) by (auto simp: put_slot_def)
    then show ?thesis using nth_mem [OF k] by auto
  qed
  ultimately show ?thesis using p moves(2) by (fastforce simp: settled_step_def put_slot_def)
next
  case settles
  then show ?thesis using settle_settled [OF settles(5)] p by (auto simp: settled_def settled_step_def)
qed (use p in \<open>simp_all add: settled_step_def\<close>)

lemma asker_settles:
  assumes "one_slot sp c" and "stack_ok c" and k: "k < length (cf_batch c)"
  shows "settled_step c (asker c k)"
proof -
  have "sl_step (cf_batch c ! k) \<in> set (map sl_step (cf_batch c))" using k by simp
  then have "sl_step (cf_batch c ! k) < xs_step (cf_x c)"
    using assms(2) unfolding stack_ok_def by (metis atLeastLessThan_iff set_upt)
  moreover have "s = cf_batch c ! k" if "s \<in> set (cf_batch c)" "sl_node s = sl_node (cf_batch c ! k)" for s
    using assms(1) that nth_mem [OF k] by (auto simp: one_slot_def distinct_map dest: inj_onD)
  ultimately show ?thesis by (auto simp: settled_step_def asker_def)
qed

lemma block_in_batch:
  assumes "exec_step env sp c e c'" and "block_of e = Some k"
  shows "k < length (cf_batch c)"
  using assms by (cases e) (auto simp: exec_step_def block_of_def split: if_splits)

lemma asked_settled:
  assumes wf: "wf_spec sp" and run: "asked env sp (start_conf env sp inputs) ks c"
  shows "one_slot sp c \<and> (\<forall>p \<in> set ks. settled_step c p) \<and> sorted_wrt (\<lambda>p q. fst p = fst q \<longrightarrow> snd p \<le> snd q) ks"
  using run
proof (induction rule: asked.induct)
  case asked_start
  show ?case using start_ok(3) [OF wf] by (simp add: one_slot_def start_conf_def)
next
  case (asked_block ks c1 e c2 k)
  have "stack_ok c1" using asked_trace [OF asked_block.hyps(1)] run_ok(2) [OF wf] by blast
  have k: "k < length (cf_batch c1)" by (rule block_in_batch [OF asked_block.hyps(2,3)])
  then have new: "settled_step c1 (asker c1 k)" using asker_settles \<open>stack_ok c1\<close> asked_block.IH by blast
  have "snd p \<le> snd (asker c1 k)" if "p \<in> set ks" "fst p = fst (asker c1 k)" for p
    using asked_block.IH that nth_mem [OF k] by (auto simp: settled_step_def asker_def)
  then show ?case
    using asked_block.IH new settled_step_keeps [OF asked_block.hyps(2)] one_slot_step [OF asked_block.hyps(2)]
    by (auto simp: sorted_wrt_append)
next
  case (asked_quiet ks c1 e c2)
  then show ?case using settled_step_keeps one_slot_step by blast
qed

text \<open>The executor is a lawful client of a case's stubs: along every run the blocks of one node
  come in the order of its steps, in any interleaving; so if each block puts any number of
  questions for its own node and step, the questions of the whole run keep every node's steps in
  order, and each is answered by the rule of the node's n-th distinct step. The condition is one
  on the run, not a law: a child workflow whose node is not stubbed runs with the same stubs and
  counts its own steps from 0, so a node of a child that shares its id with a stubbed node breaks
  it.\<close>

lemma run_asks_in_step_order:
  assumes wf: "wf_spec sp" and run: "asked env sp (start_conf env sp inputs) ks c"
    and qs: "list_all2 (\<lambda>p part. \<forall>q \<in> set part. qu_node q = fst p \<and> qu_step q = int (snd p)) ks parts"
  shows "in_step_order (concat parts) \<and>
    snd (ask_all new_stubs (concat parts)) =
      map (\<lambda>q. (q, answer q (int (card (earlier_steps (set (concat parts)) q)) + 1))) (concat parts)"
proof -
  have "sorted_wrt (\<lambda>p q. fst p = fst q \<longrightarrow> snd p \<le> snd q) ks" using asked_settled [OF wf run] by blast
  with qs have order: "in_step_order (concat parts)"
  proof (induction rule: list_all2_induct)
    case (Cons p ks part parts)
    have "qu_step a \<le> qu_step b" if "a \<in> set part" "b \<in> set (concat parts)" "qu_node a = qu_node b" for a b
    proof -
      obtain part' where part': "part' \<in> set parts" "b \<in> set part'" using \<open>b \<in> set (concat parts)\<close> by auto
      then obtain i where i: "i < length parts" "parts ! i = part'" by (auto simp: in_set_conv_nth)
      then have "i < length ks" "qu_node b = fst (ks ! i) \<and> qu_step b = int (snd (ks ! i))"
        using Cons.hyps(2) part'(2) by (auto simp: list_all2_conv_all_nth)
      then show ?thesis using Cons.prems Cons.hyps(1) that by fastforce
    qed
    moreover have "sorted_wrt (\<lambda>a b. qu_node a = qu_node b \<longrightarrow> qu_step a \<le> qu_step b) part"
      using Cons.hyps(1) by (simp add: sorted_wrt_iff_nth_less)
    ultimately show ?case using Cons by (auto simp: in_step_order_def sorted_wrt_append)
  qed (simp add: in_step_order_def)
  then show ?thesis using ask_all_answers by blast
qed

end
