(* ===== verification/Suite.thy ===== *)
theory Suite
  imports Stubs Loader_Parse
begin

text \<open>
  \<open>flow/testing/loader.py\<close>: from the JSON value of a \<open>*.test.json\<close> file to the cases, checked against
  the workflow. Every authoring error is a \<open>WorkflowValidationError\<close> without a code; the prose
  is not modelled. Finding, reading and decoding the two files is the parameter \<open>open_flow\<close> and the
  decoded value \<open>raw\<close>.
\<close>

section \<open>Fields\<close>

abbreviation bad_suite :: pyexc where
  "bad_suite \<equiv> invalid ''''"

definition STUB_KINDS :: "(string \<times> node_type) list" where
  "STUB_KINDS = [(''agents'', Agent), (''subflows'', Subflow), (''scripts'', Script)]"

definition RULE_KEYS :: "string list" where
  "RULE_KEYS = [''when'', ''index'', ''round'', ''then'', ''tokens'']"

definition CASE_KEYS :: "string list" where
  "CASE_KEYS = [''name'', ''inputs'', ''signals'', ''max_tokens'', ''agents'', ''subflows'', ''scripts'', ''expect'']"

definition EXPECT_KEYS :: "string list" where
  "EXPECT_KEYS = [''success'', ''error'', ''paused'', ''output'', ''calls'']"

definition as_object :: "pyval \<Rightarrow> pyexc + (string \<times> pyval) list" where
  "as_object raw = (case raw of VDict d \<Rightarrow> Inr d | _ \<Rightarrow> Inl bad_suite)"

definition positive_int :: "pyval option \<Rightarrow> int \<Rightarrow> pyexc + int option" where
  "positive_int raw minimum =
     (case raw of
        None \<Rightarrow> Inr None
      | Some VNone \<Rightarrow> Inr None
      | Some (VInt i) \<Rightarrow> if i < minimum then Inl bad_suite else Inr (Some i)
      | Some _ \<Rightarrow> Inl bad_suite)"

definition reject_unknown :: "(string \<times> pyval) list \<Rightarrow> string list \<Rightarrow> pyexc + unit" where
  "reject_unknown d allowed = (if \<exists>k \<in> fst ` set d. k \<notin> set allowed then Inl bad_suite else Inr ())"

section \<open>Stubs\<close>

definition stub_ports :: "pyval \<Rightarrow> node_def \<Rightarrow> pyexc + (string \<times> pyval) list" where
  "stub_ports raw n =
     raise_bind (as_object raw) (\<lambda>ports.
       let declared = set (output_names n)
       in if \<exists>k \<in> fst ` set ports. k \<notin> declared then Inl bad_suite
          else if nd_type n = Agent \<and> card declared = 1 \<and> ports = [] then Inl bad_suite
          else Inr ports)"

definition when_field :: "pyval option \<Rightarrow> pyexc + (string \<times> pyval) list option" where
  "when_field raw =
     (case raw of
        None \<Rightarrow> Inr None
      | Some VNone \<Rightarrow> Inr None
      | Some (VDict d) \<Rightarrow> Inr (Some d)
      | Some _ \<Rightarrow> Inl bad_suite)"

definition parse_rule :: "pyval \<Rightarrow> node_def \<Rightarrow> pyexc + stub_rule" where
  "parse_rule raw n =
     raise_bind (as_object raw) (\<lambda>d.
     raise_bind (reject_unknown d RULE_KEYS) (\<lambda>_.
     (case map_of d ''then'' of
        None \<Rightarrow> Inl bad_suite
      | Some body \<Rightarrow>
          raise_bind (when_field (map_of d ''when'')) (\<lambda>w.
          raise_bind (positive_int (map_of d ''index'') 0) (\<lambda>i.
          raise_bind (positive_int (map_of d ''round'') 1) (\<lambda>r.
          raise_bind (positive_int (map_of d ''tokens'') 0) (\<lambda>t.
          raise_bind (stub_ports body n) (\<lambda>ports.
            Inr \<lparr>sr_then = ports, sr_when = w, sr_index = i, sr_round = r,
                 sr_tokens = (case t of None \<Rightarrow> 0 | Some k \<Rightarrow> k)\<rparr>))))))))"

definition parse_stub :: "node_id \<Rightarrow> pyval \<Rightarrow> (node_id \<times> node_def) list \<Rightarrow> node_type \<Rightarrow> pyexc + node_stub" where
  "parse_stub i raw nodes ty =
     (case map_of nodes i of
        None \<Rightarrow> Inl bad_suite
      | Some n \<Rightarrow>
          if nd_type n \<noteq> ty then Inl bad_suite
          else (case raw of
              VDict d \<Rightarrow> raise_bind (stub_ports raw n) (\<lambda>ports.
                Inr \<lparr>ns_node = i, ns_rules =
                  [\<lparr>sr_then = ports, sr_when = None, sr_index = None, sr_round = None, sr_tokens = 0\<rparr>]\<rparr>)
            | VList xs \<Rightarrow>
                if xs = [] then Inl bad_suite
                else raise_bind (raise_map (\<lambda>x. parse_rule x n) xs) (\<lambda>rules.
                  if \<exists>r \<in> set (butlast rules). is_default r then Inl bad_suite
                  else Inr \<lparr>ns_node = i, ns_rules = rules\<rparr>)
            | _ \<Rightarrow> Inl bad_suite))"

section \<open>Expectations\<close>

definition parse_outcome ::
  "(string \<times> pyval) list \<Rightarrow> (node_id \<times> node_def) list \<Rightarrow> pyexc + outcome \<times> string option \<times> node_id option" where
  "parse_outcome body nodes =
     (case map_of body ''error'' of
        Some v \<Rightarrow> (case v of
            VStr s \<Rightarrow> if s = [] then Inl bad_suite else Inr (Error, Some s, None)
          | _ \<Rightarrow> Inl bad_suite)
      | None \<Rightarrow>
     (case map_of body ''paused'' of
        Some v \<Rightarrow> (case v of
            VStr i \<Rightarrow> (case map_of nodes i of
                None \<Rightarrow> Inl bad_suite
              | Some n \<Rightarrow> if nd_type n \<noteq> Human then Inl bad_suite else Inr (Paused, None, Some i))
          | _ \<Rightarrow> Inl bad_suite)
      | None \<Rightarrow>
     (case map_of body ''success'' of
        Some v \<Rightarrow> (case v of
            VBool b \<Rightarrow> if b then Inr (Success, None, None) else Inl bad_suite
          | _ \<Rightarrow> Inl bad_suite)
      | None \<Rightarrow> Inr (Success, None, None))))"

definition parse_call :: "(node_id \<times> node_def) list \<Rightarrow> string \<times> pyval \<Rightarrow> pyexc + node_id \<times> int" where
  "parse_call nodes = (\<lambda>(i, v).
     (case map_of nodes i of
        None \<Rightarrow> Inl bad_suite
      | Some _ \<Rightarrow> (case v of VInt k \<Rightarrow> if k < 0 then Inl bad_suite else Inr (i, k) | _ \<Rightarrow> Inl bad_suite)))"

definition parse_expect :: "pyval \<Rightarrow> (node_id \<times> node_def) list \<Rightarrow> pyexc + expectation" where
  "parse_expect raw nodes =
     raise_bind (as_object raw) (\<lambda>body.
     raise_bind (reject_unknown body EXPECT_KEYS) (\<lambda>_.
     if 1 < length (filter (\<lambda>k. map_of body k \<noteq> None) [''success'', ''error'', ''paused'']) then Inl bad_suite
     else raise_bind (parse_outcome body nodes) (\<lambda>(o', e, p).
     raise_bind (as_object (or_else (VDict []) (map_of body ''calls''))) (\<lambda>calls.
     raise_bind (raise_map (parse_call nodes) calls) (\<lambda>counts.
     raise_bind (as_object (or_else (VDict []) (map_of body ''output''))) (\<lambda>out.
       Inr \<lparr>ex_outcome = o', ex_error = e, ex_paused = p, ex_output = out, ex_calls = counts\<rparr>))))))"

section \<open>Cases\<close>

definition case_name :: "pyval option \<Rightarrow> pyexc + string" where
  "case_name raw = (case raw of Some (VStr s) \<Rightarrow> if strip s = [] then Inl bad_suite else Inr s | _ \<Rightarrow> Inl bad_suite)"

definition signal_name :: "pyval \<Rightarrow> pyexc + string" where
  "signal_name v = (case v of VStr s \<Rightarrow> Inr s | _ \<Rightarrow> Inl bad_suite)"

definition case_signals :: "pyval \<Rightarrow> pyexc + string list" where
  "case_signals raw = (case raw of VList xs \<Rightarrow> raise_map signal_name xs | _ \<Rightarrow> Inl bad_suite)"

definition token_limit :: "pyval option \<Rightarrow> pyexc + int option" where
  "token_limit raw =
     (case raw of
        None \<Rightarrow> Inr None
      | Some VNone \<Rightarrow> Inr None
      | Some (VInt i) \<Rightarrow> Inr (Some i)
      | Some _ \<Rightarrow> Inl bad_suite)"

definition parse_group ::
  "(string \<times> pyval) list \<Rightarrow> (node_id \<times> node_def) list \<Rightarrow> bool \<Rightarrow> string \<times> node_type \<Rightarrow> pyexc + (node_id \<times> node_stub) list" where
  "parse_group d nodes allow = (\<lambda>(key, ty).
     raise_bind (as_object (or_else (VDict []) (map_of d key))) (\<lambda>raw.
       if key = ''scripts'' \<and> raw \<noteq> [] \<and> \<not> allow then Inl bad_suite
       else raise_map (\<lambda>(i, v). raise_bind (parse_stub i v nodes ty) (\<lambda>s. Inr (i, s))) raw))"

definition parse_case :: "pyval \<Rightarrow> (node_id \<times> node_def) list \<Rightarrow> bool \<Rightarrow> pyexc + test_case" where
  "parse_case raw nodes allow =
     raise_bind (as_object raw) (\<lambda>d.
     raise_bind (reject_unknown d CASE_KEYS) (\<lambda>_.
     raise_bind (case_name (map_of d ''name'')) (\<lambda>name.
     raise_bind (as_object (or_else (VDict []) (map_of d ''inputs''))) (\<lambda>inputs.
     raise_bind (case_signals (or_else (VList []) (map_of d ''signals''))) (\<lambda>signals.
     raise_bind (token_limit (map_of d ''max_tokens'')) (\<lambda>limit.
     raise_bind (raise_map (parse_group d nodes allow) STUB_KINDS) (\<lambda>groups.
     raise_bind (parse_expect (or_else (VDict []) (map_of d ''expect'')) nodes) (\<lambda>e.
       Inr \<lparr>tc_name = name, tc_inputs = inputs, tc_signals = set signals, tc_max_tokens = limit,
            tc_agents = groups ! 0, tc_subflows = groups ! 1, tc_scripts = groups ! 2, tc_expect = e\<rparr>))))))))"

section \<open>Suites\<close>

definition workflow_path :: "(string \<times> pyval) list \<Rightarrow> pyexc + string option" where
  "workflow_path d =
     (case map_of d ''workflow'' of
        None \<Rightarrow> Inr None
      | Some VNone \<Rightarrow> Inr None
      | Some (VStr s) \<Rightarrow> Inr (if s = [] then None else Some s)
      | Some _ \<Rightarrow> Inl bad_suite)"

definition case_elems :: "pyval option \<Rightarrow> pyexc + pyval list" where
  "case_elems raw = (case raw of Some (VList xs) \<Rightarrow> if xs = [] then Inl bad_suite else Inr xs | _ \<Rightarrow> Inl bad_suite)"

definition nodes_by_id :: "workflow_def \<Rightarrow> (node_id \<times> node_def) list" where
  "nodes_by_id w = dict_of (map (\<lambda>n. (nd_id n, n)) (wf_nodes w))"

fun parse_cases :: "(node_id \<times> node_def) list \<Rightarrow> bool \<Rightarrow> string set \<Rightarrow> pyval list \<Rightarrow> pyexc + test_case list" where
  "parse_cases nodes allow seen [] = Inr []"
| "parse_cases nodes allow seen (x # xs) =
     raise_bind (parse_case x nodes allow) (\<lambda>c.
       if tc_name c \<in> seen then Inl bad_suite
       else raise_bind (parse_cases nodes allow (insert (tc_name c) seen) xs) (\<lambda>cs. Inr (c # cs)))"

text \<open>\<open>open_flow\<close> resolves the path a suite names, or its own name when it names none, checks that the
  file exists and loads and validates the workflow.\<close>

definition load_suite ::
  "(string option \<Rightarrow> pyexc + workflow_def) \<Rightarrow> pyval \<Rightarrow> bool \<Rightarrow> pyexc + test_case list \<times> workflow_def" where
  "load_suite open_flow raw allow =
     raise_bind (as_object raw) (\<lambda>d.
     raise_bind (workflow_path d) (\<lambda>path.
     raise_bind (open_flow path) (\<lambda>w.
     raise_bind (case_elems (map_of d ''cases'')) (\<lambda>xs.
     raise_bind (parse_cases (nodes_by_id w) allow {} xs) (\<lambda>cs.
       Inr (cs, w))))))"

end
