(* ===== verification/Suite_Props.thy ===== *)
theory Suite_Props
  imports Suite Stub_Props Valid_Demo
begin

text \<open>What loading a suite establishes, for the run of its cases.\<close>

section \<open>Sound cases\<close>

definition rule_ok :: "node_def \<Rightarrow> stub_rule \<Rightarrow> bool" where
  "rule_ok n r \<longleftrightarrow>
     fst ` set (sr_then r) \<subseteq> set (output_names n) \<and>
     (nd_type n = Agent \<and> card (set (output_names n)) = 1 \<longrightarrow> sr_then r \<noteq> []) \<and>
     (\<forall>i. sr_index r = Some i \<longrightarrow> 0 \<le> i) \<and> (\<forall>i. sr_round r = Some i \<longrightarrow> 1 \<le> i) \<and> 0 \<le> sr_tokens r"

definition stub_ok :: "workflow_def \<Rightarrow> node_type \<Rightarrow> node_id \<times> node_stub \<Rightarrow> bool" where
  "stub_ok w ty = (\<lambda>(i, s). ns_node s = i \<and> ns_rules s \<noteq> [] \<and>
     (\<exists>n \<in> set (wf_nodes w). nd_id n = i \<and> nd_type n = ty \<and> (\<forall>r \<in> set (ns_rules s). rule_ok n r)) \<and>
     (\<forall>r \<in> set (butlast (ns_rules s)). \<not> is_default r))"

definition evidence_ok :: "workflow_def \<Rightarrow> outcome \<Rightarrow> string option \<Rightarrow> node_id option \<Rightarrow> bool" where
  "evidence_ok w o' e p \<longleftrightarrow>
     (case o' of
        Success \<Rightarrow> e = None \<and> p = None
      | Error \<Rightarrow> (\<exists>s. e = Some s \<and> s \<noteq> []) \<and> p = None
      | Paused \<Rightarrow> e = None \<and> (\<exists>n \<in> set (wf_nodes w). nd_type n = Human \<and> p = Some (nd_id n)))"

definition expect_ok :: "workflow_def \<Rightarrow> expectation \<Rightarrow> bool" where
  "expect_ok w e \<longleftrightarrow>
     evidence_ok w (ex_outcome e) (ex_error e) (ex_paused e) \<and>
     (\<forall>(i, k) \<in> set (ex_calls e). i \<in> nd_id ` set (wf_nodes w) \<and> 0 \<le> k)"

definition case_ok :: "workflow_def \<Rightarrow> bool \<Rightarrow> test_case \<Rightarrow> bool" where
  "case_ok w allow c \<longleftrightarrow>
     strip (tc_name c) \<noteq> [] \<and>
     (\<forall>p \<in> set (tc_agents c). stub_ok w Agent p) \<and>
     (\<forall>p \<in> set (tc_subflows c). stub_ok w Subflow p) \<and>
     (\<forall>p \<in> set (tc_scripts c). stub_ok w Script p) \<and>
     (tc_scripts c \<noteq> [] \<longrightarrow> allow) \<and> expect_ok w (tc_expect c)"

section \<open>Parsing establishes them\<close>

lemma dict_of_mem: "p \<in> set (dict_of ps) \<Longrightarrow> p \<in> set ps"
proof (induction ps rule: rev_induct)
  case (snoc q ps)
  obtain k v where q: "q = (k, v)" by (cases q)
  have "set (AList.update k v d) \<subseteq> insert (k, v) (set d)" for d by (induction d) auto
  then show ?case using snoc unfolding q by (auto simp: dict_of_def)
qed (simp add: dict_of_def)

lemma node_known: "map_of (nodes_by_id w) i = Some n \<Longrightarrow> n \<in> set (wf_nodes w) \<and> nd_id n = i"
  unfolding nodes_by_id_def
  by (auto dest!: map_of_SomeD dict_of_mem)

lemma positive_int_ok: "positive_int raw m = Inr (Some i) \<Longrightarrow> m \<le> i"
  by (auto simp: raise_simps positive_int_def split: option.splits pyval.splits if_splits)

lemma stub_ports_ok:
  assumes "stub_ports raw n = Inr p"
  shows "fst ` set p \<subseteq> set (output_names n)"
    and "nd_type n = Agent \<Longrightarrow> card (set (output_names n)) = 1 \<Longrightarrow> p \<noteq> []"
  using assms by (auto simp: raise_simps stub_ports_def Let_def split: if_splits)

lemma parse_rule_ok:
  assumes "parse_rule raw n = Inr r"
  shows "rule_ok n r"
proof -
  obtain d body t where parts: "stub_ports body n = Inr (sr_then r)"
      "positive_int (map_of d ''index'') 0 = Inr (sr_index r)" "positive_int (map_of d ''round'') 1 = Inr (sr_round r)"
      "positive_int (map_of d ''tokens'') 0 = Inr t" "sr_tokens r = (case t of None \<Rightarrow> 0 | Some k \<Rightarrow> k)"
    using assms unfolding parse_rule_def raise_bind_Inr_iff by (fastforce simp: raise_bind_Inr_iff split: option.splits)
  have "0 \<le> sr_tokens r" using parts(4,5) positive_int_ok [of "map_of d ''tokens''" 0] by (cases t) simp_all
  then show ?thesis
    unfolding rule_ok_def using stub_ports_ok [OF parts(1)] positive_int_ok parts(2,3) by metis
qed

lemma parse_stub_ok:
  assumes "parse_stub i raw (nodes_by_id w) ty = Inr s"
  shows "stub_ok w ty (i, s)"
proof -
  obtain n where n: "map_of (nodes_by_id w) i = Some n" "nd_type n = ty"
    using assms by (auto simp: raise_simps parse_stub_def split: option.splits if_splits)
  note known = node_known [OF n(1)]
  show ?thesis
  proof (cases raw)
    case (VDict d)
    then obtain ports where ports: "stub_ports raw n = Inr ports" "s = \<lparr>ns_node = i, ns_rules =
        [\<lparr>sr_then = ports, sr_when = None, sr_index = None, sr_round = None, sr_tokens = 0\<rparr>]\<rparr>"
      using assms n by (auto simp: raise_simps parse_stub_def)
    then show ?thesis using n(2) known stub_ports_ok [OF ports(1)] by (simp add: stub_ok_def rule_ok_def) blast
  next
    case (VList xs)
    then obtain rules where rules: "xs \<noteq> []" "raise_map (\<lambda>x. parse_rule x n) xs = Inr rules"
        "\<not> (\<exists>r \<in> set (butlast rules). is_default r)" "s = \<lparr>ns_node = i, ns_rules = rules\<rparr>"
      using assms n by (auto simp: raise_simps parse_stub_def split: if_splits)
    then have "rules \<noteq> []" using raise_map_Inr_length by fastforce
    moreover have "rule_ok n r" if "r \<in> set rules" for r
      using raise_map_Inr_set [OF rules(2) that] parse_rule_ok by blast
    ultimately show ?thesis using rules n(2) known by (auto simp: stub_ok_def)
  qed (use assms n in \<open>auto simp: raise_simps parse_stub_def\<close>)
qed

lemma parse_group_ok:
  assumes "parse_group d (nodes_by_id w) allow (key, ty) = Inr g"
  shows "\<forall>p \<in> set g. stub_ok w ty p" and "key = ''scripts'' \<Longrightarrow> g \<noteq> [] \<Longrightarrow> allow"
proof -
  obtain raw where raw: "key = ''scripts'' \<Longrightarrow> raw \<noteq> [] \<Longrightarrow> allow"
      "raise_map (\<lambda>(i, v). raise_bind (parse_stub i v (nodes_by_id w) ty) (\<lambda>s. Inr (i, s))) raw = Inr g"
    using assms by (auto simp: raise_simps parse_group_def split: if_splits)
  show "\<forall>p \<in> set g. stub_ok w ty p"
    using raise_map_Inr_set [OF raw(2)] parse_stub_ok by fastforce
  show "allow" if "key = ''scripts''" "g \<noteq> []"
    using raw(1) [OF that(1)] raise_map_Inr_length [OF raw(2)] that(2) by (metis length_0_conv)
qed

lemma parse_outcome_ok:
  assumes "parse_outcome body (nodes_by_id w) = Inr (o', e, p)"
  shows "evidence_ok w o' e p"
  using assms node_known
  by (fastforce simp: parse_outcome_def evidence_ok_def split: option.splits pyval.splits if_splits)

lemma parse_call_ok: "parse_call (nodes_by_id w) p = Inr (i, k) \<Longrightarrow> i \<in> nd_id ` set (wf_nodes w) \<and> 0 \<le> k"
  by (auto simp: raise_simps parse_call_def dest!: node_known split: option.splits pyval.splits if_splits prod.splits)

lemma parse_expect_ok:
  assumes "parse_expect raw (nodes_by_id w) = Inr e"
  shows "expect_ok w e"
proof -
  obtain body o' err p calls counts out where
    parts: "parse_outcome body (nodes_by_id w) = Inr (o', err, p)" "raise_map (parse_call (nodes_by_id w)) calls = Inr counts"
      "e = \<lparr>ex_outcome = o', ex_error = err, ex_paused = p, ex_output = out, ex_calls = counts\<rparr>"
    using assms by (auto simp: raise_simps parse_expect_def split: if_splits)
  have "i \<in> nd_id ` set (wf_nodes w) \<and> 0 \<le> k" if "(i, k) \<in> set counts" for i k
    using raise_map_Inr_set [OF parts(2) that] parse_call_ok by blast
  then show ?thesis using parse_outcome_ok [OF parts(1)] parts(3) by (auto simp: expect_ok_def)
qed

lemma parse_case_ok:
  assumes "parse_case raw (nodes_by_id w) allow = Inr c"
  shows "case_ok w allow c"
proof -
  obtain d groups e where
    c: "case_name (map_of d ''name'') = Inr (tc_name c)"
      "raise_map (parse_group d (nodes_by_id w) allow) STUB_KINDS = Inr groups"
      "parse_expect e (nodes_by_id w) = Inr (tc_expect c)"
      "tc_agents c = groups ! 0" "tc_subflows c = groups ! 1" "tc_scripts c = groups ! 2"
    using assms unfolding parse_case_def raise_bind_Inr_iff by force
  have "strip (tc_name c) \<noteq> []" using c(1) by (auto simp: raise_simps case_name_def split: option.splits pyval.splits if_splits)
  moreover obtain g0 g1 g2 where "parse_group d (nodes_by_id w) allow (''agents'', Agent) = Inr g0"
      "parse_group d (nodes_by_id w) allow (''subflows'', Subflow) = Inr g1"
      "parse_group d (nodes_by_id w) allow (''scripts'', Script) = Inr g2" "groups = [g0, g1, g2]"
    using c(2) by (auto simp: raise_simps STUB_KINDS_def)
  ultimately show ?thesis
    using c parse_group_ok(1) parse_group_ok(2) [where key = "''scripts''"] parse_expect_ok [OF c(3)]
    unfolding case_ok_def by fastforce
qed

lemma parse_cases_ok:
  "parse_cases (nodes_by_id w) allow seen xs = Inr cs \<Longrightarrow>
     length cs = length xs \<and> distinct (map tc_name cs) \<and> tc_name ` set cs \<inter> seen = {} \<and> (\<forall>c \<in> set cs. case_ok w allow c)"
proof (induction xs arbitrary: seen cs)
  case (Cons x xs)
  then obtain c cs' where c: "parse_case x (nodes_by_id w) allow = Inr c" "tc_name c \<notin> seen"
      "parse_cases (nodes_by_id w) allow (insert (tc_name c) seen) xs = Inr cs'" "cs = c # cs'"
    by (auto simp: raise_simps split: if_splits)
  then show ?case using Cons.IH [OF c(3)] parse_case_ok [OF c(1)] by auto
qed simp

text \<open>C30. A suite that loads is sound for the workflow it names: it has cases, their names are
  pairwise different, and in each case every stub stands for a declared node of the right kind, gives
  only output ports the node declares, keeps a rule without selectors for last, and has
  selectors in range; no node is stubbed in two groups, script stubs need the opt-in, and the
  expectation carries exactly the evidence its outcome needs, about declared nodes.\<close>

theorem suite_sound:
  assumes load: "load_suite open_flow raw allow = Inr (cs, w)" and ids: "distinct (map nd_id (wf_nodes w))"
  shows "cs \<noteq> [] \<and> distinct (map tc_name cs) \<and>
    (\<forall>c \<in> set cs. case_ok w allow c \<and>
       fst ` set (tc_agents c) \<inter> fst ` set (tc_subflows c) = {} \<and>
       fst ` set (tc_agents c) \<inter> fst ` set (tc_scripts c) = {} \<and>
       fst ` set (tc_subflows c) \<inter> fst ` set (tc_scripts c) = {})"
proof -
  obtain d xs where "case_elems (map_of d ''cases'') = Inr xs" and cases: "parse_cases (nodes_by_id w) allow {} xs = Inr cs"
    using load unfolding load_suite_def raise_bind_Inr_iff by blast
  then have "xs \<noteq> []" by (simp add: case_elems_def split: option.splits pyval.splits if_splits)
  note ok = parse_cases_ok [OF cases]
  have one: "ty = ty'" if both: "stub_ok w ty (i, s)" "stub_ok w ty' (i, s')" for ty ty' i s s'
  proof -
    obtain n n' where "n \<in> set (wf_nodes w)" "nd_id n = i" "nd_type n = ty" "n' \<in> set (wf_nodes w)" "nd_id n' = i" "nd_type n' = ty'"
      using both unfolding stub_ok_def prod.case by blast
    then show ?thesis using inj_onD [OF ids [unfolded distinct_map, THEN conjunct2], of n n'] by simp
  qed
  have apart: "fst ` set g \<inter> fst ` set g' = {}"
    if "\<forall>p \<in> set g. stub_ok w ty p" "\<forall>p \<in> set g'. stub_ok w ty' p" "ty \<noteq> ty'" for g g' ty ty'
    using that one by fastforce
  have "cs \<noteq> []" using ok \<open>xs \<noteq> []\<close> by auto
  moreover have "fst ` set (tc_agents c) \<inter> fst ` set (tc_subflows c) = {} \<and>
      fst ` set (tc_agents c) \<inter> fst ` set (tc_scripts c) = {} \<and>
      fst ` set (tc_subflows c) \<inter> fst ` set (tc_scripts c) = {}" if "c \<in> set cs" for c
  proof -
    have a: "\<forall>p \<in> set (tc_agents c). stub_ok w Agent p" and s: "\<forall>p \<in> set (tc_subflows c). stub_ok w Subflow p"
        and k: "\<forall>p \<in> set (tc_scripts c). stub_ok w Script p"
      using ok that unfolding case_ok_def by blast+
    show ?thesis using apart [OF a s] apart [OF a k] apart [OF s k] by simp
  qed
  ultimately show ?thesis using ok by (intro conjI ballI) simp_all
qed

text \<open>A suite of one case for the workflow of \<open>Valid_Demo\<close>, whose script \<open>a\<close> is stubbed.\<close>

definition demo_suite :: pyval where
  "demo_suite = VDict [(''cases'', VList [VDict [(''name'', VStr ''one''),
     (''scripts'', VDict [(''a'', VList [
        VDict [(''round'', VInt 2), (''then'', VDict [(''y'', VStr ''later'')])],
        VDict [(''then'', VDict [(''y'', VStr ''first'')])]])]),
     (''expect'', VDict [(''error'', VStr ''boom''), (''calls'', VDict [(''a'', VInt 2)])])]])]"

lemmas suite_defs = load_suite_def as_object_def workflow_path_def case_elems_def parse_case_def reject_unknown_def
  CASE_KEYS_def RULE_KEYS_def EXPECT_KEYS_def STUB_KINDS_def case_name_def or_else_def case_signals_def token_limit_def
  parse_group_def parse_stub_def parse_rule_def stub_ports_def when_field_def positive_int_def is_default_def
  parse_expect_def parse_outcome_def parse_call_def nodes_by_id_def

lemma demo_suite_loads:
  "\<exists>c. load_suite (\<lambda>_. Inr demo_flow) demo_suite True = Inr ([c], demo_flow) \<and> tc_scripts c \<noteq> []"
  by (simp add: suite_defs demo_suite_def demo_flow_def demo_script_def output_names_def default_port_def dict_of_def is_space_def strip_def)

lemma suite_sound_witness:
  "\<exists>c. load_suite (\<lambda>_. Inr demo_flow) demo_suite True = Inr ([c], demo_flow) \<and> case_ok demo_flow True c \<and> tc_scripts c \<noteq> []"
proof -
  obtain c where c: "load_suite (\<lambda>_. Inr demo_flow) demo_suite True = Inr ([c], demo_flow)" "tc_scripts c \<noteq> []"
    using demo_suite_loads by blast
  have "distinct (map nd_id (wf_nodes demo_flow))" by (simp add: demo_flow_def demo_script_def)
  from suite_sound [OF c(1) this] show ?thesis using c by auto
qed

text \<open>A stub whose rules end in a default one answers every question.\<close>

theorem default_answers:
  assumes "ns_rules s \<noteq> []" and "is_default (last (ns_rules s))"
  shows "\<exists>r. snd (select_rule st s ins step fi) = Inr r \<and> r \<in> set (ns_rules s)"
proof -
  let ?rnd = "snd (round_of st (ns_node s) step)"
  have "rule_fits (last (ns_rules s)) ins ?rnd fi" using assms(2) by (simp add: is_default_def rule_fits_def)
  then have "first_fit 0 (ns_rules s) ins ?rnd fi \<noteq> None"
    using assms(1) last_in_set by (auto simp: first_fit_None)
  then obtain i r where "first_fit 0 (ns_rules s) ins ?rnd fi = Some (i, r)" by auto
  moreover from this have "r \<in> set (ns_rules s)" by (auto simp: first_fit_least)
  ultimately show ?thesis by (simp add: select_rule_def split_beta)
qed

end
