(* ===== verification/Judge.thy ===== *)
theory Judge
  imports Stub_Props
begin

text \<open>
  \<open>flow/testing/case.py\<close>: what a case makes of a finished run. How the run ended, with the message
  of its exception, and the \<open>NodeFinished\<close> events it emitted are the input.
\<close>

section \<open>Results\<close>

record failure =
  fl_where :: string
  fl_expected :: string
  fl_actual :: string

record finished =
  fi_node :: node_id
  fi_instances :: int

datatype ending =
    Completed "(string \<times> pyval) list"
  | Stopped string node_id
  | Failed string

record case_result =
  cr_case :: test_case
  cr_failures :: "failure list"
  cr_calls :: "(node_id \<times> int) list"
  cr_rounds :: "(node_id \<times> int) list"
  cr_output :: "(string \<times> pyval) list"
  cr_outcome :: outcome
  cr_error :: string
  cr_paused :: node_id
  cr_stubbed :: "node_id set"
  cr_order :: "node_id list"

definition ok :: "case_result \<Rightarrow> bool" where
  "ok r \<longleftrightarrow> cr_failures r = []"

definition new_result :: "test_case \<Rightarrow> case_result" where
  "new_result c =
     \<lparr>cr_case = c, cr_failures = [], cr_calls = [], cr_rounds = [], cr_output = [], cr_outcome = Success,
      cr_error = [], cr_paused = [], cr_stubbed = stubbed_nodes c, cr_order = []\<rparr>"

definition note_ending :: "ending \<Rightarrow> case_result \<Rightarrow> case_result" where
  "note_ending e r =
     (case e of
        Completed out \<Rightarrow> r\<lparr>cr_output := out\<rparr>
      | Stopped msg node \<Rightarrow> r\<lparr>cr_outcome := Paused, cr_error := msg, cr_paused := node\<rparr>
      | Failed msg \<Rightarrow> r\<lparr>cr_outcome := Error, cr_error := msg\<rparr>)"

definition count_of :: "(node_id \<times> int) list \<Rightarrow> node_id \<Rightarrow> int" where
  "count_of d i = (case map_of d i of None \<Rightarrow> 0 | Some k \<Rightarrow> k)"

definition tally_one :: "finished \<Rightarrow> case_result \<Rightarrow> case_result" where
  "tally_one f r =
     r\<lparr>cr_calls := AList.update (fi_node f) (count_of (cr_calls r) (fi_node f) + fi_instances f) (cr_calls r),
       cr_rounds := AList.update (fi_node f) (count_of (cr_rounds r) (fi_node f) + 1) (cr_rounds r),
       cr_order := cr_order r @ [fi_node f]\<rparr>"

definition tally :: "case_result \<Rightarrow> finished list \<Rightarrow> case_result" where
  "tally r events = fold tally_one events r"

section \<open>Checks\<close>

definition add_failures :: "failure list \<Rightarrow> case_result \<Rightarrow> case_result" where
  "add_failures fs r = r\<lparr>cr_failures := cr_failures r @ fs\<rparr>"

text \<open>\<open>repr\<close> and \<open>str\<close> of an optional string.\<close>

definition opt_repr :: "string option \<Rightarrow> string" where
  "opt_repr s = (case s of None \<Rightarrow> ''None'' | Some t \<Rightarrow> repr_str t)"

definition opt_str :: "string option \<Rightarrow> string" where
  "opt_str s = (case s of None \<Rightarrow> ''None'' | Some t \<Rightarrow> t)"

definition describe_result :: "case_result \<Rightarrow> string" where
  "describe_result r =
     (case cr_outcome r of
        Success \<Rightarrow> ''the run completed''
      | Paused \<Rightarrow> ''paused: '' @ cr_error r
      | Error \<Rightarrow> cr_error r)"

definition fail_of :: "string \<Rightarrow> string \<Rightarrow> string \<Rightarrow> failure" where
  "fail_of w e a = \<lparr>fl_where = w, fl_expected = e, fl_actual = a\<rparr>"

definition check_outcome :: "case_result \<Rightarrow> case_result" where
  "check_outcome r =
     (let e = tc_expect (cr_case r)
      in case ex_outcome e of
           Success \<Rightarrow>
             if cr_outcome r \<noteq> Success
             then add_failures [fail_of ''expect.success'' ''the run completes'' (cr_error r)] r else r
         | Error \<Rightarrow>
             if cr_outcome r \<noteq> Error
             then add_failures [fail_of ''expect.error'' (''a failure containing '' @ opt_repr (ex_error e)) (describe_result r)] r
             else (case ex_error e of
                 None \<Rightarrow> r
               | Some s \<Rightarrow>
                   if s \<noteq> [] \<and> \<not> contains_sub s (cr_error r)
                   then add_failures [fail_of ''expect.error'' (''message containing '' @ repr_str s) (cr_error r)] r else r)
         | Paused \<Rightarrow>
             if cr_outcome r \<noteq> Paused
             then add_failures [fail_of ''expect.paused'' (''a pause at '' @ opt_repr (ex_paused e)) (describe_result r)] r
             else if ex_paused e \<noteq> Some (cr_paused r)
             then add_failures [fail_of ''expect.paused'' (opt_str (ex_paused e)) (cr_paused r)] r else r)"

definition check_output :: "case_result \<Rightarrow> case_result" where
  "check_output r =
     (let e = ex_output (tc_expect (cr_case r))
      in if e = [] then r
         else (case first_difference (VDict e) (VDict (cr_output r)) ''expect.output'' of
             None \<Rightarrow> r
           | Some (w, want, got) \<Rightarrow> add_failures [fail_of w (py_repr want) (py_repr got)] r))"

definition check_call :: "node_id \<times> int \<Rightarrow> case_result \<Rightarrow> case_result" where
  "check_call p r =
     (let (i, want) = p; got = count_of (cr_calls r) i
      in if got \<noteq> want then add_failures [fail_of (''expect.calls.'' @ i) (show_int want) (show_int got)] r else r)"

definition check_calls :: "case_result \<Rightarrow> case_result" where
  "check_calls r = fold check_call (ex_calls (tc_expect (cr_case r))) r"

definition check_stale_rules :: "stubs \<Rightarrow> case_result \<Rightarrow> case_result" where
  "check_stale_rules st r =
     add_failures (map (\<lambda>(n, i, rule). fail_of (''stubs.'' @ n @ ''['' @ show_nat i @ '']'')
         (''rule '' @ describe rule @ '' fires'') ''never matched'') (unused_rules (cr_case r) st)) r"

text \<open>\<open>run_case_async\<close> from the end of the run on.\<close>

definition judge :: "test_case \<Rightarrow> stubs \<Rightarrow> finished list \<Rightarrow> ending \<Rightarrow> case_result" where
  "judge c st events e =
     check_stale_rules st (check_calls (check_output (check_outcome (tally (note_ending e (new_result c)) events))))"

section \<open>When a case passes\<close>

definition instances :: "finished list \<Rightarrow> node_id \<Rightarrow> int" where
  "instances events i = sum_list (map fi_instances (filter (\<lambda>f. fi_node f = i) events))"

definition ended_as :: "expectation \<Rightarrow> ending \<Rightarrow> bool" where
  "ended_as x e =
     (case (ex_outcome x, e) of
        (Success, Completed _) \<Rightarrow> True
      | (Error, Failed msg) \<Rightarrow> (\<forall>s. ex_error x = Some s \<longrightarrow> (\<exists>us vs. msg = us @ s @ vs))
      | (Paused, Stopped _ i) \<Rightarrow> ex_paused x = Some i
      | _ \<Rightarrow> False)"

definition output_of :: "ending \<Rightarrow> (string \<times> pyval) list" where
  "output_of e = (case e of Completed out \<Rightarrow> out | _ \<Rightarrow> [])"

definition met :: "test_case \<Rightarrow> stubs \<Rightarrow> finished list \<Rightarrow> ending \<Rightarrow> bool" where
  "met c st events e \<longleftrightarrow>
     ended_as (tc_expect c) e \<and>
     fits (VDict (ex_output (tc_expect c))) (VDict (output_of e)) \<and>
     (\<forall>(i, k) \<in> set (ex_calls (tc_expect c)). instances events i = k) \<and>
     unused_rules c st = []"

lemma add_failures_simps [simp]:
  "cr_failures (add_failures fs r) = cr_failures r @ fs" "cr_case (add_failures fs r) = cr_case r"
  "cr_calls (add_failures fs r) = cr_calls r" "cr_output (add_failures fs r) = cr_output r"
  "cr_outcome (add_failures fs r) = cr_outcome r" "cr_error (add_failures fs r) = cr_error r"
  "cr_paused (add_failures fs r) = cr_paused r"
  by (simp_all add: add_failures_def)

text \<open>A check changes nothing but the failures.\<close>

definition keeps :: "case_result \<Rightarrow> case_result \<Rightarrow> bool" where
  "keeps r r' \<longleftrightarrow> cr_case r' = cr_case r \<and> cr_calls r' = cr_calls r \<and> cr_output r' = cr_output r"

lemma check_outcome_keeps: "keeps r (check_outcome r)"
  by (simp add: keeps_def check_outcome_def Let_def split: outcome.split option.split)

lemma check_output_keeps: "keeps r (check_output r)"
  by (simp add: keeps_def check_output_def Let_def split: option.split)

lemma check_calls_fold:
  "keeps r (fold check_call ps r) \<and>
     (cr_failures (fold check_call ps r) = [] \<longleftrightarrow> cr_failures r = [] \<and> (\<forall>(i, k) \<in> set ps. count_of (cr_calls r) i = k))"
proof (induction ps arbitrary: r)
  case (Cons p ps)
  have "keeps r (check_call p r)"
    and "cr_failures (check_call p r) = [] \<longleftrightarrow> cr_failures r = [] \<and> count_of (cr_calls r) (fst p) = snd p"
    by (simp_all add: keeps_def check_call_def Let_def split_beta)
  then show ?case using Cons.IH [of "check_call p r"] by (auto simp: keeps_def split_beta)
qed (simp add: keeps_def)

lemma check_output_ok:
  "cr_failures (check_output r) = [] \<longleftrightarrow>
     cr_failures r = [] \<and> fits (VDict (ex_output (tc_expect (cr_case r)))) (VDict (cr_output r))"
proof (cases "ex_output (tc_expect (cr_case r)) = []")
  case False
  let ?e = "VDict (ex_output (tc_expect (cr_case r)))" and ?a = "VDict (cr_output r)"
  show ?thesis
    using False diff_iff(1) [of ?e ?a "''expect.output''"]
    by (cases "diff ?e ?a ''expect.output''") (simp_all add: check_output_def first_difference_def split_beta del: fits.simps diff.simps)
qed (simp add: check_output_def)

lemma count_of_simps: "count_of [] i = 0" "count_of (AList.update k v d) i = (if i = k then v else count_of d i)"
  by (simp_all add: count_of_def)

lemma tally_facts:
  "count_of (cr_calls (tally r events)) i = count_of (cr_calls r) i + instances events i"
  "cr_case (tally r events) = cr_case r" "cr_failures (tally r events) = cr_failures r"
  "cr_output (tally r events) = cr_output r" "cr_outcome (tally r events) = cr_outcome r"
  "cr_error (tally r events) = cr_error r" "cr_paused (tally r events) = cr_paused r"
  unfolding tally_def
  by (induction events arbitrary: r) (simp_all add: tally_one_def count_of_simps instances_def)

lemma check_outcome_ok:
  assumes "cr_failures r = []"
    and "cr_outcome r = cr_outcome (note_ending e (new_result c))" "cr_error r = cr_error (note_ending e (new_result c))"
      "cr_paused r = cr_paused (note_ending e (new_result c))" "cr_case r = c"
  shows "cr_failures (check_outcome r) = [] \<longleftrightarrow> ended_as (tc_expect c) e"
  using assms
  by (cases e; cases "ex_outcome (tc_expect c)"; cases "ex_error (tc_expect c)")
    (auto simp: check_outcome_def ended_as_def note_ending_def new_result_def Let_def contains_sub_iff)

text \<open>C31. The verdict of a case is exact: it reports no failure exactly when the run ended the way the
  case expects (with the message or at the node it names), the output fits the expected one, every
  counted node ran the expected number of instances over the whole run, and no rule of a stub
  that was asked is stale.\<close>

theorem verdict_exact: "ok (judge c st events e) \<longleftrightarrow> met c st events e"
proof -
  let ?r = "tally (note_ending e (new_result c)) events"
  have c: "cr_case (note_ending e (new_result c)) = c" "cr_failures (note_ending e (new_result c)) = []"
      "cr_calls (note_ending e (new_result c)) = []" "cr_output (note_ending e (new_result c)) = output_of e"
    by (simp_all add: note_ending_def new_result_def output_of_def split: ending.split)
  note k1 = check_outcome_keeps [of ?r] and k2 = check_output_keeps [of "check_outcome ?r"]
  have outcome: "cr_failures (check_outcome ?r) = [] \<longleftrightarrow> ended_as (tc_expect c) e"
    by (rule check_outcome_ok) (simp_all add: tally_facts c)
  have "cr_failures (check_calls (check_output (check_outcome ?r))) = [] \<longleftrightarrow>
      ended_as (tc_expect c) e \<and> fits (VDict (ex_output (tc_expect c))) (VDict (output_of e)) \<and>
      (\<forall>(i, k) \<in> set (ex_calls (tc_expect c)). instances events i = k)"
    using k1 k2 check_calls_fold [of "check_output (check_outcome ?r)"] outcome
    by (simp add: check_calls_def check_output_ok keeps_def tally_facts c count_of_simps del: fits.simps)
  moreover have "cr_case (check_calls (check_output (check_outcome ?r))) = c"
    using k1 k2 check_calls_fold [of "check_output (check_outcome ?r)"] by (simp add: check_calls_def keeps_def tally_facts c)
  ultimately show ?thesis by (simp add: ok_def judge_def check_stale_rules_def met_def conj_assoc)
qed

end
