(* ===== verification/Goal_Model.thy ===== *)
theory Goal_Model
  imports Coerce
begin

text \<open>
  The data of the goal package, \<open>packages/skills/src/xdog/skills/goal\<close>: the records of \<open>models.py\<close>
  with the checks of \<open>__post_init__\<close>, the formats of \<open>codec.py\<close>, the invocation context of
  \<open>host.py\<close> and the lifecycle provenance of \<open>transitions.py\<close>. A saved payload is a JSON text; it
  is kept as the document it stands for, and its text is computed where the code uses it, for a
  digest, a comparison or a size limit. Texts that are not JSON do not arise.
\<close>

section \<open>Exceptions and texts\<close>

text \<open>\<open>OwnerRetired\<close> is a \<open>ValueError\<close> of its own; \<open>Constraint\<close> is SQLite's \<open>IntegrityError\<close>.\<close>

datatype goal_exc = BadValue | BadType | TooLarge | Retired | Constraint

definition byte_length :: "string \<Rightarrow> nat" where
  "byte_length s = sum_list (map (\<lambda>c. if (of_char c :: nat) < 128 then 1 else 2) s)"

definition bounded_text :: "bool \<Rightarrow> nat \<Rightarrow> string \<Rightarrow> bool" where
  "bounded_text empty_ok maximum s \<longleftrightarrow>
     char_of (0 :: nat) \<notin> set s \<and> byte_length s \<le> maximum \<and> (empty_ok \<or> strip s \<noteq> [])"

definition text_check :: "bool \<Rightarrow> nat \<Rightarrow> pyval \<Rightarrow> goal_exc + string" where
  "text_check empty_ok maximum v =
     (case v of VStr s \<Rightarrow> if bounded_text empty_ok maximum s then Inr s else Inl BadValue | _ \<Rightarrow> Inl BadValue)"

definition is_alnum :: "char \<Rightarrow> bool" where
  "is_alnum c \<longleftrightarrow> (let n = (of_char c :: nat) in 48 \<le> n \<and> n \<le> 57 \<or> 65 \<le> n \<and> n \<le> 90 \<or> 97 \<le> n \<and> n \<le> 122)"

definition is_identity :: "string \<Rightarrow> bool" where
  "is_identity s \<longleftrightarrow>
     (case s of [] \<Rightarrow> False
      | c # cs \<Rightarrow> is_alnum c \<and> length cs \<le> 127 \<and> (\<forall>d \<in> set cs. is_alnum d \<or> d = CHR ''_'' \<or> d = CHR ''-''))"

definition identity_check :: "pyval \<Rightarrow> goal_exc + string" where
  "identity_check v = (case v of VStr s \<Rightarrow> if is_identity s then Inr s else Inl BadValue | _ \<Rightarrow> Inl BadValue)"

definition is_revision :: "int \<Rightarrow> bool" where
  "is_revision i \<longleftrightarrow> 1 \<le> i \<and> i < 2 ^ 53"

definition number_check :: "pyval \<Rightarrow> goal_exc + int" where
  "number_check v = (case v of VInt i \<Rightarrow> if is_revision i then Inr i else Inl BadValue | _ \<Rightarrow> Inl BadValue)"

definition strings_check :: "pyval list \<Rightarrow> goal_exc + string list" where
  "strings_check vs = raise_map (text_check False 65536) vs"

section \<open>Goals\<close>

datatype goal_status = Active | Waiting | Halted | Finished | Cleared

datatype goal_wait = NoWait | ForUser | ForTasks

definition status_name :: "goal_status \<Rightarrow> string" where
  "status_name s = (case s of Active \<Rightarrow> ''active'' | Waiting \<Rightarrow> ''waiting'' | Halted \<Rightarrow> ''paused''
     | Finished \<Rightarrow> ''completed'' | Cleared \<Rightarrow> ''cleared'')"

definition GOAL_STATES :: "(string \<times> goal_status) list" where
  "GOAL_STATES = map (\<lambda>s. (status_name s, s)) [Active, Waiting, Halted, Finished, Cleared]"

definition wait_name :: "goal_wait \<Rightarrow> string" where
  "wait_name w = (case w of NoWait \<Rightarrow> '''' | ForUser \<Rightarrow> ''user'' | ForTasks \<Rightarrow> ''tasks'')"

definition WAITS :: "(string \<times> goal_wait) list" where
  "WAITS = map (\<lambda>w. (wait_name w, w)) [NoWait, ForUser, ForTasks]"

text \<open>A timestamp is an int or a float.\<close>

record goal =
  go_id :: string
  go_title :: string
  go_outcome :: string
  go_criteria :: "string list"
  go_status :: goal_status
  go_version :: int
  go_reason :: string
  go_summary :: string
  go_wait :: goal_wait
  go_created :: pyval
  go_updated :: pyval
  go_question :: string
  go_impact :: string
  go_resume :: string

text \<open>\<open>value not in {...}\<close> with a list or dict raises \<open>TypeError\<close>.\<close>

definition member_check :: "(string \<times> 'a) list \<Rightarrow> pyval \<Rightarrow> goal_exc + 'a" where
  "member_check table v =
     (case v of
        VStr s \<Rightarrow> (case map_of table s of None \<Rightarrow> Inl BadValue | Some x \<Rightarrow> Inr x)
      | VList _ \<Rightarrow> Inl BadType
      | VDict _ \<Rightarrow> Inl BadType
      | _ \<Rightarrow> Inl BadValue)"

definition time_check :: "pyval \<Rightarrow> goal_exc + pyval" where
  "time_check v =
     (case v of
        VInt i \<Rightarrow> (case round_double (of_int i) of
            PFin _ \<Rightarrow> if i < 0 then Inl BadValue else Inr v
          | _ \<Rightarrow> Inl TooLarge)
      | VFloat (PFin r) \<Rightarrow> if r < 0 then Inl BadValue else Inr v
      | _ \<Rightarrow> Inl BadValue)"

definition question_texts :: "goal \<Rightarrow> string list" where
  "question_texts g = [go_question g, go_impact g, go_resume g]"

text \<open>\<open>Goal.__post_init__\<close> of fields of the declared types.\<close>

definition post_init :: "goal \<Rightarrow> goal_exc + goal" where
  "post_init g =
     (if \<not> is_identity (go_id g) \<or> \<not> bounded_text False 1024 (go_title g) \<or> \<not> bounded_text False 65536 (go_outcome g)
         \<or> (\<exists>s \<in> set (go_criteria g). \<not> bounded_text False 65536 s) \<or> \<not> is_revision (go_version g)
         \<or> (go_status g \<noteq> Waiting \<and> go_wait g \<noteq> NoWait)
         \<or> \<not> bounded_text True 65536 (go_reason g) \<or> \<not> bounded_text True 65536 (go_summary g)
         \<or> (\<exists>s \<in> set (question_texts g). \<not> bounded_text True 65536 s)
         \<or> ((\<exists>s \<in> set (question_texts g). s \<noteq> []) \<and>
            (go_status g \<noteq> Waiting \<or> go_wait g \<noteq> ForUser \<or> (\<exists>s \<in> set (question_texts g). \<not> bounded_text False 65536 s)))
      then Inl BadValue
      else raise_bind (time_check (go_created g)) (\<lambda>_. raise_bind (time_check (go_updated g)) (\<lambda>_. Inr g)))"

section \<open>Formats\<close>

definition json_size :: "pyval \<Rightarrow> goal_exc + nat" where
  "json_size v = (if has_nan v then Inl BadValue else Inr (length (json_dumps True '', '' '': '' v)))"

abbreviation json_text :: "pyval \<Rightarrow> string" where
  "json_text v \<equiv> json_dumps True '', '' '': '' v"

text \<open>What \<open>json_text\<close> raises; the text itself is \<open>json_text v\<close>.\<close>

definition json_check :: "pyval \<Rightarrow> goal_exc + pyval" where
  "json_check v = raise_bind (json_size v) (\<lambda>n. if 262144 < n then Inl BadValue else Inr v)"

definition goal_fields :: "goal \<Rightarrow> (string \<times> pyval) list" where
  "goal_fields g =
     [(''id'', VStr (go_id g)), (''title'', VStr (go_title g)), (''outcome'', VStr (go_outcome g)),
      (''criteria'', VList (map VStr (go_criteria g))), (''status'', VStr (status_name (go_status g))),
      (''version'', VInt (go_version g)), (''reason'', VStr (go_reason g)), (''summary'', VStr (go_summary g)),
      (''wait_for'', VStr (wait_name (go_wait g))), (''created_at'', go_created g), (''updated_at'', go_updated g),
      (''question'', VStr (go_question g)), (''impact'', VStr (go_impact g)), (''resume_when'', VStr (go_resume g))]"

definition encode_goal :: "goal \<Rightarrow> goal_exc + pyval" where
  "encode_goal g = json_check (VDict ((''format'', VStr ''xdog.goal.v2'') # goal_fields g))"

definition REQUIRED_FIELDS :: "string list" where
  "REQUIRED_FIELDS = [''id'', ''title'', ''outcome'', ''criteria'', ''status'', ''version'', ''reason'', ''summary'',
     ''wait_for'', ''created_at'', ''updated_at'']"

definition OPTIONAL_FIELDS :: "string list" where
  "OPTIONAL_FIELDS = [''question'', ''impact'', ''resume_when'']"

definition field_of :: "(string \<times> pyval) list \<Rightarrow> string \<Rightarrow> pyval" where
  "field_of d k = (case map_of d k of None \<Rightarrow> VStr '''' | Some v \<Rightarrow> v)"

text \<open>\<open>Goal(**data)\<close> of values a document can hold.\<close>

definition goal_of :: "(string \<times> pyval) list \<Rightarrow> string list \<Rightarrow> goal_exc + goal" where
  "goal_of d criteria =
     raise_bind (identity_check (field_of d ''id'')) (\<lambda>i.
     raise_bind (text_check False 1024 (field_of d ''title'')) (\<lambda>title.
     raise_bind (text_check False 65536 (field_of d ''outcome'')) (\<lambda>outcome.
     raise_bind (member_check GOAL_STATES (field_of d ''status'')) (\<lambda>status.
     raise_bind (number_check (field_of d ''version'')) (\<lambda>version.
     raise_bind (member_check WAITS (field_of d ''wait_for'')) (\<lambda>wait.
     raise_bind (text_check True 65536 (field_of d ''reason'')) (\<lambda>reason.
     raise_bind (text_check True 65536 (field_of d ''summary'')) (\<lambda>summary.
     raise_bind (text_check True 65536 (field_of d ''question'')) (\<lambda>question.
     raise_bind (text_check True 65536 (field_of d ''impact'')) (\<lambda>impact.
     raise_bind (text_check True 65536 (field_of d ''resume_when'')) (\<lambda>resume.
       post_init \<lparr>go_id = i, go_title = title, go_outcome = outcome, go_criteria = criteria, go_status = status,
         go_version = version, go_reason = reason, go_summary = summary, go_wait = wait,
         go_created = field_of d ''created_at'', go_updated = field_of d ''updated_at'',
         go_question = question, go_impact = impact, go_resume = resume\<rparr>)))))))))))"

definition decode_goal :: "pyval \<Rightarrow> goal_exc + goal" where
  "decode_goal payload =
     (case payload of
        VDict d \<Rightarrow>
          let data = AList.delete ''format'' d; keys = map fst data
          in if map_of d ''format'' \<noteq> Some (VStr ''xdog.goal.v2'') \<or> (\<exists>k \<in> set REQUIRED_FIELDS. k \<notin> set keys)
                \<or> (\<exists>k \<in> set keys. k \<notin> set (REQUIRED_FIELDS @ OPTIONAL_FIELDS)) then Inl BadValue
             else (case field_of data ''criteria'' of
                 VList xs \<Rightarrow> raise_bind (strings_check xs) (goal_of data)
               | _ \<Rightarrow> Inl BadValue)
      | _ \<Rightarrow> Inl BadValue)"

section \<open>Invocations\<close>

datatype origin = Service | NativeCommand | ModelTool | Runtime

record op_context =
  ctx_user :: bool
  ctx_origin :: origin

definition require_user :: "op_context \<Rightarrow> goal_exc + unit" where
  "require_user ctx = (if ctx_user ctx then Inr () else Inl BadValue)"

section \<open>Lifecycle provenance\<close>

datatype lifecycle = Create | Pause | Activate | Resume | Await | Complete | Clear

definition action_name :: "lifecycle \<Rightarrow> string" where
  "action_name a = (case a of Create \<Rightarrow> ''create'' | Pause \<Rightarrow> ''pause'' | Activate \<Rightarrow> ''activate'' | Resume \<Rightarrow> ''resume''
     | Await \<Rightarrow> ''wait'' | Complete \<Rightarrow> ''complete'' | Clear \<Rightarrow> ''clear'')"

definition ACTIONS :: "(string \<times> lifecycle) list" where
  "ACTIONS = map (\<lambda>a. (action_name a, a)) [Create, Pause, Activate, Resume, Await, Complete, Clear]"

definition target :: "lifecycle \<Rightarrow> goal_status" where
  "target a = (case a of Create \<Rightarrow> Active | Pause \<Rightarrow> Halted | Resume \<Rightarrow> Active | Activate \<Rightarrow> Active | Await \<Rightarrow> Waiting
     | Complete \<Rightarrow> Finished | Clear \<Rightarrow> Cleared)"

definition origin_name :: "origin \<Rightarrow> string" where
  "origin_name r = (case r of Service \<Rightarrow> ''service'' | NativeCommand \<Rightarrow> ''native_command'' | ModelTool \<Rightarrow> ''model_tool''
     | Runtime \<Rightarrow> ''runtime'')"

definition ORIGINS :: "(string \<times> origin) list" where
  "ORIGINS = map (\<lambda>r. (origin_name r, r)) [Service, NativeCommand, ModelTool, Runtime]"

definition actor :: "op_context \<Rightarrow> string" where
  "actor ctx = (case ctx_origin ctx of NativeCommand \<Rightarrow> ''user'' | ModelTool \<Rightarrow> ''agent'' | Runtime \<Rightarrow> ''host''
     | Service \<Rightarrow> if ctx_user ctx then ''user'' else ''unknown'')"

definition state_doc :: "goal \<Rightarrow> pyval" where
  "state_doc g = VDict [(''status'', VStr (status_name (go_status g))), (''wait_for'', VStr (wait_name (go_wait g)))]"

definition transition_data :: "lifecycle \<Rightarrow> op_context \<Rightarrow> goal option \<Rightarrow> goal \<Rightarrow> goal_exc + pyval" where
  "transition_data a ctx before after =
     (if (before = None) \<noteq> (a = Create) \<or> go_status after \<noteq> target a
         \<or> (case before of None \<Rightarrow> False | Some b \<Rightarrow> go_id b \<noteq> go_id after \<or> go_version b + 1 \<noteq> go_version after)
      then Inl BadValue
      else if ctx_origin ctx = NativeCommand \<and> \<not> ctx_user ctx then Inl BadValue
      else Inr (VDict
        [(''format'', VStr ''xdog.goal_transition.v1''), (''goal_id'', VStr (go_id after)),
         (''version'', VInt (go_version after)), (''action'', VStr (action_name a)),
         (''origin'', VStr (origin_name (ctx_origin ctx))), (''actor'', VStr (actor ctx)),
         (''user_authorized'', VBool (ctx_user ctx)),
         (''command'', VStr (if ctx_origin ctx = NativeCommand then ''/goal '' @ action_name a else '''')),
         (''from'', case before of None \<Rightarrow> VNone | Some b \<Rightarrow> state_doc b), (''to'', state_doc after)]))"

section \<open>A saved goal reads back\<close>

lemma member_names [simp]:
  "member_check GOAL_STATES (VStr (status_name s)) = Inr s" "member_check WAITS (VStr (wait_name w)) = Inr w"
  "map_of ACTIONS (action_name a) = Some a" "map_of ORIGINS (origin_name r) = Some r"
  subgoal by (cases s) (simp_all add: member_check_def GOAL_STATES_def status_name_def)
  subgoal by (cases w) (simp_all add: member_check_def WAITS_def wait_name_def)
  subgoal by (cases a) (simp_all add: ACTIONS_def action_name_def)
  subgoal by (cases r) (simp_all add: ORIGINS_def origin_name_def)
  done

lemma strings_check_VStr: "(\<And>s. s \<in> set xs \<Longrightarrow> bounded_text False 65536 s) \<Longrightarrow> strings_check (map VStr xs) = Inr xs"
  unfolding strings_check_def by (induction xs) (simp_all add: text_check_def)

lemma post_init_same: "post_init g = Inr h \<Longrightarrow> h = g"
  by (auto simp: post_init_def raise_simps split: if_splits)

theorem goal_roundtrip:
  assumes ok: "post_init g = Inr g" and enc: "encode_goal g = Inr payload"
  shows "decode_goal payload = Inr g"
proof -
  have payload: "payload = VDict ((''format'', VStr ''xdog.goal.v2'') # goal_fields g)"
    using enc by (auto simp: encode_goal_def json_check_def raise_simps split: if_splits)
  have fields: "is_identity (go_id g)" "bounded_text False 1024 (go_title g)" "bounded_text False 65536 (go_outcome g)"
      "\<forall>s \<in> set (go_criteria g). bounded_text False 65536 s" "is_revision (go_version g)"
      "bounded_text True 65536 (go_reason g)" "bounded_text True 65536 (go_summary g)"
      "bounded_text True 65536 (go_question g)" "bounded_text True 65536 (go_impact g)" "bounded_text True 65536 (go_resume g)"
    using ok by (auto simp: post_init_def question_texts_def split: if_splits)
  have data: "AList.delete ''format'' ((''format'', VStr ''xdog.goal.v2'') # goal_fields g) = goal_fields g"
    by (simp add: goal_fields_def)
  have goal: "goal_of (goal_fields g) (go_criteria g) = Inr g"
    using fields ok by (cases g) (simp add: goal_of_def field_of_def goal_fields_def identity_check_def text_check_def number_check_def)
  show ?thesis
    unfolding payload decode_goal_def pyval.case Let_def data
    using fields(4) goal
    by (simp add: goal_fields_def REQUIRED_FIELDS_def OPTIONAL_FIELDS_def field_of_def strings_check_VStr)
qed

end
