(* ===== verification/Goal_Store.thy ===== *)
theory Goal_Store
  imports Goal_Model
begin

text \<open>
  \<open>store.py\<close>: the registry of one owner's goals, one definition per operation. A table is an
  association list from its primary key in the order of its rows; an operation runs inside one
  SQLite transaction, so it returns the new registry with its result or raises and leaves the
  registry as it was (\<open>transact\<close>). Primary keys and foreign keys are SQLite's to enforce.
\<close>

section \<open>The tables\<close>

datatype reminder_status = Pending | Sending | Accepted | Unknown | Cancelled | Unavailable

datatype fault_source = Execution | Delivery

datatype fault_status = Broke | Interrupted | CancelledRun | CanceledRun | PreparationFailed | UnknownEffect

record goal_row =
  gr_version :: int
  gr_payload :: pyval
  gr_digest :: string

record saved_row =
  sv_payload :: pyval
  sv_digest :: string

record reminder_row =
  rm_goal :: string
  rm_payload :: pyval
  rm_digest :: string
  rm_status :: reminder_status
  rm_error :: string

record fault_row =
  ft_version :: int
  ft_status :: fault_status
  ft_error :: string

record fault_state =
  fs_through :: int
  fs_recovery :: string

type_synonym fault_key = "string \<times> fault_source \<times> string"

record registry =
  rg_owner :: "string \<times> string"
  rg_goals :: "(string \<times> goal_row) list"
  rg_revisions :: "((string \<times> int) \<times> saved_row) list"
  rg_current :: "string option"
  rg_reminders :: "(string \<times> reminder_row) list"
  rg_signals :: "(int \<times> string \<times> string) list"
  rg_transitions :: "((string \<times> int) \<times> saved_row) list"
  rg_faults :: "(fault_key \<times> fault_row) list"
  rg_fault_states :: "(fault_key \<times> fault_state) list"

definition new_registry :: "string \<times> string \<Rightarrow> registry" where
  "new_registry owner =
     \<lparr>rg_owner = owner, rg_goals = [], rg_revisions = [], rg_current = None, rg_reminders = [], rg_signals = [],
      rg_transitions = [], rg_faults = [], rg_fault_states = []\<rparr>"

definition transact :: "(registry \<Rightarrow> goal_exc + registry \<times> 'a) \<Rightarrow> registry \<Rightarrow> registry \<times> (goal_exc + 'a)" where
  "transact f r = (case f r of Inl e \<Rightarrow> (r, Inl e) | Inr (r', x) \<Rightarrow> (r', Inr x))"

section \<open>Rows\<close>

type_synonym sha = "string \<Rightarrow> string"

definition digest :: "sha \<Rightarrow> pyval \<Rightarrow> string" where
  "digest sha payload = sha (json_text payload)"

definition row_goal :: "sha \<Rightarrow> string \<Rightarrow> goal_row \<Rightarrow> goal_exc + goal" where
  "row_goal sha i row =
     raise_bind (decode_goal (gr_payload row)) (\<lambda>g.
       if go_id g \<noteq> i \<or> go_version g \<noteq> gr_version row \<or> digest sha (gr_payload row) \<noteq> gr_digest row
       then Inl BadValue else Inr g)"

text \<open>\<open>==\<close> of two goals: their fields, a timestamp compared as a number.\<close>

definition goal_eq :: "goal \<Rightarrow> goal \<Rightarrow> bool" where
  "goal_eq a b \<longleftrightarrow>
     a\<lparr>go_created := VNone, go_updated := VNone\<rparr> = b\<lparr>go_created := VNone, go_updated := VNone\<rparr> \<and>
     py_eq (go_created a) (go_created b) \<and> py_eq (go_updated a) (go_updated b)"

definition remindable :: "goal \<Rightarrow> bool" where
  "remindable g \<longleftrightarrow> go_status g = Active \<or> go_status g = Waiting \<and> go_wait g = ForTasks"

definition current_row :: "registry \<Rightarrow> (string \<times> goal_row) option" where
  "current_row r =
     (case rg_current r of None \<Rightarrow> None
      | Some i \<Rightarrow> (case map_of (rg_goals r) i of None \<Rightarrow> None | Some row \<Rightarrow> Some (i, row)))"

definition current_goal :: "sha \<Rightarrow> registry \<Rightarrow> goal_exc + goal option" where
  "current_goal sha r =
     (case current_row r of None \<Rightarrow> Inr None
      | Some (i, row) \<Rightarrow> raise_bind (row_goal sha i row) (\<lambda>g. Inr (Some g)))"

definition get_goal :: "sha \<Rightarrow> string \<Rightarrow> registry \<Rightarrow> goal_exc + goal" where
  "get_goal sha i r = (case map_of (rg_goals r) i of None \<Rightarrow> Inl BadValue | Some row \<Rightarrow> row_goal sha i row)"

definition list_goals :: "sha \<Rightarrow> registry \<Rightarrow> goal_exc + goal list" where
  "list_goals sha r = raise_map (\<lambda>(i, row). row_goal sha i row) (rev (rg_goals r))"

definition revisions_of :: "registry \<Rightarrow> string \<Rightarrow> (int \<times> saved_row) list" where
  "revisions_of r i =
     sort_key fst (map (\<lambda>((_, v), row). (v, row)) (filter (\<lambda>((j, _), _). j = i) (rg_revisions r)))"

definition goal_history :: "string \<Rightarrow> registry \<Rightarrow> goal_exc + goal list" where
  "goal_history i r = raise_map (\<lambda>(_, row). decode_goal (sv_payload row)) (revisions_of r i)"

section \<open>Wake signals and epochs\<close>

definition next_sequence :: "(int \<times> string \<times> string) list \<Rightarrow> int" where
  "next_sequence ws = fold max (map fst ws) 0 + 1"

text \<open>\<open>INSERT OR IGNORE\<close> under \<open>UNIQUE(goal_id, trigger)\<close>.\<close>

definition add_signal :: "string \<Rightarrow> string \<Rightarrow> (int \<times> string \<times> string) list \<Rightarrow> (int \<times> string \<times> string) list" where
  "add_signal i trigger ws =
     (if (i, trigger) \<in> snd ` set ws then ws else ws @ [(next_sequence ws, i, trigger)])"

definition last_sequence :: "registry \<Rightarrow> string \<Rightarrow> int" where
  "last_sequence r i = fold max (map fst (filter (\<lambda>(_, j, _). j = i) (rg_signals r))) 0"

definition state_trigger :: "int \<Rightarrow> string" where
  "state_trigger version = ''goal-state:'' @ show_int version"

definition state_starts :: "registry \<Rightarrow> string \<Rightarrow> string list" where
  "state_starts r i =
     map (\<lambda>(_, _, t). t) (filter (\<lambda>(_, j, t). j = i \<and> starts_with ''goal-state:'' t) (rg_signals r))"

definition starts_epoch :: "string list \<Rightarrow> goal \<Rightarrow> goal \<Rightarrow> bool" where
  "starts_epoch starts before after \<longleftrightarrow>
     go_status after = Active \<and>
     (state_trigger (go_version after) \<in> set starts \<or> go_status before = Halted \<or>
      go_status before = Waiting \<and> go_wait before = ForUser)"

fun last_epoch :: "string list \<Rightarrow> int \<times> pyval \<Rightarrow> goal list \<Rightarrow> int \<times> pyval" where
  "last_epoch starts e (before # after # gs) =
     last_epoch starts (if starts_epoch starts before after then (go_version after, go_updated after) else e) (after # gs)"
| "last_epoch starts e _ = e"

definition goal_epoch :: "registry \<Rightarrow> string \<Rightarrow> goal_exc + int \<times> pyval" where
  "goal_epoch r i =
     raise_bind (goal_history i r) (\<lambda>history.
       Inr (last_epoch (state_starts r i) (1, case history of [] \<Rightarrow> VInt 0 | g # _ \<Rightarrow> go_created g) history))"

section \<open>Goal revisions\<close>

text \<open>Whether the revision may be written over what is there, and the goal it replaces.\<close>

definition admit_revision :: "sha \<Rightarrow> goal \<Rightarrow> int \<Rightarrow> lifecycle option \<Rightarrow> registry \<Rightarrow> goal_exc + goal option" where
  "admit_revision sha g expected action r =
     (case map_of (rg_goals r) (go_id g) of
        None \<Rightarrow>
          if expected \<noteq> 0 then Inl BadValue
          else raise_bind
            (case rg_current r of None \<Rightarrow> Inr ()
             | Some b \<Rightarrow> (case map_of (rg_goals r) b of None \<Rightarrow> Inl BadValue
                 | Some row \<Rightarrow> raise_bind (row_goal sha b row) (\<lambda>old. if go_status old \<noteq> Finished then Inl BadValue else Inr ())))
            (\<lambda>_. if go_status g \<noteq> Active then Inl BadValue else Inr None)
      | Some row \<Rightarrow>
          if gr_version row \<noteq> expected then Inl BadValue
          else if rg_current r \<noteq> Some (go_id g) then Inl BadValue
          else raise_bind (row_goal sha (go_id g) row) (\<lambda>prior.
            if go_status prior = Finished \<and> (go_status g \<noteq> Cleared \<or> action \<noteq> Some Clear) then Inl BadValue
            else Inr (Some prior)))"

definition add_transition ::
  "sha \<Rightarrow> lifecycle option \<Rightarrow> op_context \<Rightarrow> goal option \<Rightarrow> goal \<Rightarrow> registry \<Rightarrow> goal_exc + registry" where
  "add_transition sha action ctx prior g r =
     (case action of
        None \<Rightarrow> Inr r
      | Some a \<Rightarrow>
          raise_bind (transition_data a ctx prior g) (\<lambda>data.
          raise_bind (json_check data) (\<lambda>doc.
            if (go_id g, go_version g) \<in> fst ` set (rg_transitions r) then Inl Constraint
            else Inr (r\<lparr>rg_transitions := rg_transitions r @
                   [((go_id g, go_version g), \<lparr>sv_payload = doc, sv_digest = digest sha doc\<rparr>)]\<rparr>))))"

definition cancel_row :: "reminder_row \<Rightarrow> reminder_row" where
  "cancel_row row = (if rm_status row \<in> {Pending, Unavailable} then row\<lparr>rm_status := Cancelled\<rparr> else row)"

definition cancel_of :: "string \<Rightarrow> (string \<times> reminder_row) list \<Rightarrow> (string \<times> reminder_row) list" where
  "cancel_of i rows = map (\<lambda>(m, row). (m, if rm_goal row = i then cancel_row row else row)) rows"

definition write_revision ::
  "sha \<Rightarrow> goal \<Rightarrow> int \<Rightarrow> pyval \<Rightarrow> bool \<Rightarrow> lifecycle option \<Rightarrow> op_context \<Rightarrow> registry \<Rightarrow> goal_exc + registry \<times> goal" where
  "write_revision sha g expected payload wake action ctx r =
     raise_bind (admit_revision sha g expected action r) (\<lambda>prior.
       let d = digest sha payload; k = (go_id g, go_version g)
       in if k \<in> fst ` set (rg_revisions r) then Inl Constraint
          else raise_bind (add_transition sha action ctx prior g
              (r\<lparr>rg_goals := AList.update (go_id g) \<lparr>gr_version = go_version g, gr_payload = payload, gr_digest = d\<rparr> (rg_goals r),
                 rg_revisions := rg_revisions r @ [(k, \<lparr>sv_payload = payload, sv_digest = d\<rparr>)]\<rparr>)) (\<lambda>r.
            let woken = go_status g = Active \<and> action \<noteq> Some Activate \<and>
                  (wake \<or> (case prior of None \<Rightarrow> True | Some p \<Rightarrow> go_status p \<noteq> Active));
                r = (if woken then r\<lparr>rg_signals := add_signal (go_id g) (state_trigger (go_version g)) (rg_signals r)\<rparr> else r);
                r = r\<lparr>rg_current := (if go_status g = Cleared then None else Some (go_id g))\<rparr>;
                r = (if remindable g then r else r\<lparr>rg_reminders := cancel_of (go_id g) (rg_reminders r)\<rparr>)
            in Inr (r, g)))"

text \<open>\<open>alive\<close> is whether the invocation's \<open>check\<close> passes inside the transaction.\<close>

definition put_goal ::
  "sha \<Rightarrow> goal \<Rightarrow> int \<Rightarrow> bool \<Rightarrow> bool \<Rightarrow> lifecycle option \<Rightarrow> op_context \<Rightarrow> registry \<Rightarrow> registry \<times> (goal_exc + goal)" where
  "put_goal sha g expected wake alive action ctx r =
     (if expected < 0 \<or> go_version g \<noteq> expected + 1 then (r, Inl BadValue)
      else if wake \<and> go_status g \<noteq> Active then (r, Inl BadValue)
      else case encode_goal g of
          Inl e \<Rightarrow> (r, Inl e)
        | Inr payload \<Rightarrow> transact (\<lambda>r. if \<not> alive then Inl Retired
            else write_revision sha g expected payload wake action ctx r) r)"

section \<open>The reminder outbox\<close>

text \<open>The host's messages carry a text id; another id does not come up.\<close>

definition message_id :: "(string \<times> pyval) list \<Rightarrow> goal_exc + string" where
  "message_id d = (case map_of d ''id'' of Some (VStr s) \<Rightarrow> Inr s | _ \<Rightarrow> Inl BadType)"

definition write_reminder ::
  "sha \<Rightarrow> goal \<Rightarrow> (string \<times> pyval) list \<Rightarrow> pyval \<Rightarrow> registry \<Rightarrow> goal_exc + registry \<times> reminder_row" where
  "write_reminder sha g message payload r =
     (case map_of (rg_goals r) (go_id g) of
        None \<Rightarrow> Inl BadValue
      | Some row \<Rightarrow>
          raise_bind (row_goal sha (go_id g) row) (\<lambda>live.
          if \<not> goal_eq live g \<or> \<not> remindable g then Inl BadValue
          else raise_bind (message_id message) (\<lambda>m.
            case map_of (rg_reminders r) m of
              Some old \<Rightarrow> if json_text (rm_payload old) \<noteq> json_text payload then Inl BadValue else Inr (r, old)
            | None \<Rightarrow>
                let new = \<lparr>rm_goal = go_id g, rm_payload = payload, rm_digest = digest sha payload,
                           rm_status = Pending, rm_error = ''''\<rparr>
                in Inr (r\<lparr>rg_reminders := rg_reminders r @ [(m, new)]\<rparr>, new))))"

definition add_reminder ::
  "sha \<Rightarrow> goal \<Rightarrow> (string \<times> pyval) list \<Rightarrow> registry \<Rightarrow> registry \<times> (goal_exc + reminder_row)" where
  "add_reminder sha g message r =
     (case json_check (VDict message) of
        Inl e \<Rightarrow> (r, Inl e)
      | Inr payload \<Rightarrow> transact (write_reminder sha g message payload) r)"

definition dict_get :: "pyval \<Rightarrow> string \<Rightarrow> pyval" where
  "dict_get v k = (case v of VDict d \<Rightarrow> (case map_of d k of None \<Rightarrow> VNone | Some x \<Rightarrow> x) | _ \<Rightarrow> VNone)"

text \<open>A reminder that says which revision it is for is for this one.\<close>

definition provenance_fits :: "pyval \<Rightarrow> goal \<Rightarrow> bool" where
  "provenance_fits payload g =
     (case dict_get payload ''provenance'' of
        VDict p \<Rightarrow>
          if map_of p ''goal_id'' \<noteq> None \<or> map_of p ''goal_version'' \<noteq> None
          then map_of p ''goal_id'' = Some (VStr (go_id g)) \<and> map_of p ''goal_version'' = Some (VInt (go_version g))
          else True
      | _ \<Rightarrow> True)"

definition claim_row :: "sha \<Rightarrow> string \<Rightarrow> goal \<Rightarrow> registry \<Rightarrow> goal_exc + registry \<times> bool" where
  "claim_row sha m g r =
     (case (if rg_current r = Some (go_id g) then map_of (rg_goals r) (go_id g) else None) of
        None \<Rightarrow> Inr (r, False)
      | Some row \<Rightarrow>
          if \<not> remindable g then Inr (r, False)
          else raise_bind (row_goal sha (go_id g) row) (\<lambda>live.
            if \<not> goal_eq live g then Inr (r, False)
            else (case map_of (rg_reminders r) m of
                None \<Rightarrow> Inr (r, False)
              | Some rm \<Rightarrow>
                  if rm_goal rm \<noteq> go_id g \<or> rm_status rm \<notin> {Pending, Unavailable} then Inr (r, False)
                  else if dict_get (rm_payload rm) ''id'' \<noteq> VStr m \<or> digest sha (rm_payload rm) \<noteq> rm_digest rm then Inl BadValue
                  else if \<not> provenance_fits (rm_payload rm) g then Inr (r, False)
                  else Inr (r\<lparr>rg_reminders := AList.update m (rm\<lparr>rm_status := Sending, rm_error := ''''\<rparr>) (rg_reminders r)\<rparr>, True))))"

definition claim_reminder :: "sha \<Rightarrow> string \<Rightarrow> goal \<Rightarrow> registry \<Rightarrow> registry \<times> (goal_exc + bool)" where
  "claim_reminder sha m g r = transact (claim_row sha m g) r"

definition settle_reminder :: "string \<Rightarrow> reminder_status \<Rightarrow> string \<Rightarrow> registry \<Rightarrow> registry \<times> (goal_exc + unit)" where
  "settle_reminder m status err r =
     (if status \<notin> {Accepted, Unknown, Unavailable} then (r, Inl BadValue)
      else transact (\<lambda>r.
        case map_of (rg_reminders r) m of
          None \<Rightarrow> Inl BadValue
        | Some rm \<Rightarrow>
            if rm_status rm \<noteq> Sending then Inl BadValue
            else Inr (r\<lparr>rg_reminders := AList.update m (rm\<lparr>rm_status := status, rm_error := take 4096 err\<rparr>) (rg_reminders r)\<rparr>, ())) r)"

definition cancel_pending :: "string \<Rightarrow> registry \<Rightarrow> registry" where
  "cancel_pending m r =
     r\<lparr>rg_reminders := map (\<lambda>(n, row). (n, if n = m then cancel_row row else row)) (rg_reminders r)\<rparr>"

definition interrupt_row :: "reminder_row \<Rightarrow> reminder_row" where
  "interrupt_row row =
     (if rm_status row = Sending
      then row\<lparr>rm_status := Unknown, rm_error := ''Interrupted delivery; inspect receipt''\<rparr> else row)"

text \<open>Opening the registry after its owner is gone.\<close>

definition recover_registry :: "registry \<Rightarrow> registry" where
  "recover_registry r = r\<lparr>rg_reminders := map (\<lambda>(m, row). (m, interrupt_row row)) (rg_reminders r)\<rparr>"

section \<open>Causes and faults\<close>

definition live_current :: "sha \<Rightarrow> goal \<Rightarrow> registry \<Rightarrow> goal_exc + bool" where
  "live_current sha g r =
     (case current_row r of
        None \<Rightarrow> Inr False
      | Some (i, row) \<Rightarrow> raise_bind (row_goal sha i row) (\<lambda>live. Inr (go_id live = go_id g \<and> remindable live)))"

definition wake_signal :: "sha \<Rightarrow> goal \<Rightarrow> string \<Rightarrow> registry \<Rightarrow> registry \<times> (goal_exc + bool)" where
  "wake_signal sha g trigger r =
     (if trigger = [] \<or> 1024 < byte_length trigger then (r, Inl BadValue)
      else transact (\<lambda>r. raise_bind (live_current sha g r) (\<lambda>live.
        Inr (if live then r\<lparr>rg_signals := add_signal (go_id g) trigger (rg_signals r)\<rparr> else r, live))) r)"

definition fault_allowed :: "fault_source \<Rightarrow> fault_status \<Rightarrow> bool" where
  "fault_allowed source status \<longleftrightarrow> \<not> (source = Delivery \<and> status \<noteq> UnknownEffect)"

definition validate_fault :: "fault_source \<Rightarrow> string \<Rightarrow> fault_status \<Rightarrow> string \<Rightarrow> bool" where
  "validate_fault source i status err \<longleftrightarrow>
     fault_allowed source status \<and> bounded_text False 1024 i \<and> bounded_text True 65536 err"

text \<open>The fact is about a recorded revision that no explicit recovery has left behind.\<close>

definition recorded_now :: "goal \<Rightarrow> registry \<Rightarrow> goal_exc + bool" where
  "recorded_now g r =
     (case map_of (rg_revisions r) (go_id g, go_version g) of
        None \<Rightarrow> Inr False
      | Some row \<Rightarrow>
          raise_bind (decode_goal (sv_payload row)) (\<lambda>saved.
          if \<not> goal_eq saved g then Inr False
          else raise_bind (goal_epoch r (go_id g)) (\<lambda>(epoch, _). Inr (epoch \<le> go_version g))))"

definition insert_absent :: "'k \<Rightarrow> 'v \<Rightarrow> ('k \<times> 'v) list \<Rightarrow> ('k \<times> 'v) list" where
  "insert_absent k v d = (if map_of d k = None then d @ [(k, v)] else d)"

definition record_fault ::
  "sha \<Rightarrow> goal \<Rightarrow> fault_source \<Rightarrow> string \<Rightarrow> fault_status \<Rightarrow> string \<Rightarrow> registry \<Rightarrow> registry \<times> (goal_exc + bool)" where
  "record_fault sha g source i status err r =
     (if \<not> validate_fault source i status err then (r, Inl BadValue)
      else transact (\<lambda>r. raise_bind (live_current sha g r) (\<lambda>live.
        if \<not> live then Inr (r, False)
        else raise_bind (recorded_now g r) (\<lambda>now.
          if \<not> now then Inr (r, False)
          else let k = (go_id g, source, i) in
            Inr (r\<lparr>rg_faults := insert_absent k \<lparr>ft_version = go_version g, ft_status = status, ft_error = take 4096 err\<rparr> (rg_faults r),
                   rg_fault_states := insert_absent k \<lparr>fs_through = last_sequence r (go_id g), fs_recovery = ''''\<rparr> (rg_fault_states r)\<rparr>,
                 True)))) r)"

text \<open>A fault as \<open>wake_state\<close> reported it to the caller.\<close>

record fault_fact =
  ff_goal :: string
  ff_source :: fault_source
  ff_identity :: string
  ff_version :: int
  ff_status :: fault_status

definition eligible :: "string \<Rightarrow> fault_fact \<Rightarrow> bool" where
  "eligible i f \<longleftrightarrow> ff_source f = Execution \<and> ff_status f \<in> {Broke, CancelledRun, CanceledRun} \<and> ff_identity f \<noteq> i"

definition release_fault :: "string \<Rightarrow> registry \<Rightarrow> fault_fact \<Rightarrow> (fault_key \<times> fault_state) list \<Rightarrow> (fault_key \<times> fault_state) list" where
  "release_fault i r f states =
     (let k = (ff_goal f, ff_source f, ff_identity f)
      in map (\<lambda>(k', s). (k', if k' = k \<and> fs_recovery s = '''' \<and>
              (\<exists>row. map_of (rg_faults r) k = Some row \<and> ft_version row = ff_version f \<and> ft_status row = ff_status f)
            then s\<lparr>fs_recovery := i\<rparr> else s)) states)"

definition recover_execution ::
  "sha \<Rightarrow> goal \<Rightarrow> string \<Rightarrow> fault_fact list \<Rightarrow> registry \<Rightarrow> registry \<times> (goal_exc + bool)" where
  "recover_execution sha g i faults r =
     (if \<not> bounded_text False 1024 i then (r, Inl BadValue)
      else transact (\<lambda>r. raise_bind (live_current sha g r) (\<lambda>live.
        if \<not> live then Inr (r, False)
        else raise_bind (recorded_now g r) (\<lambda>now.
          if \<not> now then Inr (r, False)
          else let fs = filter (eligible i) faults in
            if \<exists>f \<in> set fs. ff_goal f \<noteq> go_id g then Inl BadValue
            else Inr (r\<lparr>rg_fault_states := fold (release_fault i r) fs (rg_fault_states r)\<rparr>, True)))) r)"

section \<open>The check on opening\<close>

definition check_that :: "bool \<Rightarrow> goal_exc + unit" where
  "check_that b = (if b then Inr () else Inl BadValue)"

definition check_all :: "('a \<Rightarrow> goal_exc + unit) \<Rightarrow> 'a list \<Rightarrow> goal_exc + unit" where
  "check_all f xs = raise_bind (raise_map f xs) (\<lambda>_. Inr ())"

text \<open>\<open>PRAGMA foreign_key_check\<close>.\<close>

definition foreign_keys :: "registry \<Rightarrow> bool" where
  "foreign_keys r \<longleftrightarrow>
     (let goals = fst ` set (rg_goals r); revisions = fst ` set (rg_revisions r)
      in (\<forall>(i, _) \<in> revisions. i \<in> goals) \<and>
         (\<forall>i. rg_current r = Some i \<longrightarrow> i \<in> goals) \<and>
         (\<forall>(_, row) \<in> set (rg_reminders r). rm_goal row \<in> goals) \<and>
         (\<forall>(_, i, _) \<in> set (rg_signals r). i \<in> goals) \<and>
         fst ` set (rg_transitions r) \<subseteq> revisions \<and>
         (\<forall>((i, _), row) \<in> set (rg_faults r). i \<in> goals \<and> (i, ft_version row) \<in> revisions) \<and>
         fst ` set (rg_fault_states r) \<subseteq> fst ` set (rg_faults r))"

definition check_revision :: "sha \<Rightarrow> string \<Rightarrow> int \<times> saved_row \<Rightarrow> goal_exc + unit" where
  "check_revision sha i = (\<lambda>(v, row).
     raise_bind (decode_goal (sv_payload row)) (\<lambda>saved.
       check_that (go_id saved = i \<and> go_version saved = v \<and> digest sha (sv_payload row) = sv_digest row)))"

definition check_goal :: "sha \<Rightarrow> registry \<Rightarrow> string \<times> goal_row \<Rightarrow> goal_exc + (string \<times> goal_status)" where
  "check_goal sha r = (\<lambda>(i, row).
     raise_bind (row_goal sha i row) (\<lambda>g.
     let history = revisions_of r i in
     raise_bind (check_that (map fst history = [1..go_version g])) (\<lambda>_.
     raise_bind (check_all (check_revision sha i) history) (\<lambda>_.
     raise_bind (check_that (history \<noteq> [] \<and> json_text (sv_payload (snd (last history))) = json_text (gr_payload row))) (\<lambda>_.
       Inr (i, go_status g))))))"

definition check_binding :: "sha \<Rightarrow> registry \<Rightarrow> (string \<times> goal_status) list \<Rightarrow> goal_exc + unit" where
  "check_binding sha r found =
     (let active = map fst (filter (\<lambda>(_, s). s \<notin> {Finished, Cleared}) found)
      in if active \<noteq> [] then check_that (map Some active = [rg_current r])
         else (case rg_current r of None \<Rightarrow> Inr ()
             | Some b \<Rightarrow> (case map_of (rg_goals r) b of None \<Rightarrow> Inl BadValue
                 | Some row \<Rightarrow> raise_bind (row_goal sha b row) (\<lambda>g. check_that (go_status g = Finished)))))"

definition context_of :: "(string \<times> pyval) list \<Rightarrow> op_context option" where
  "context_of d =
     (case (map_of d ''user_authorized'', map_of d ''origin'') of
        (Some (VBool u), Some (VStr s)) \<Rightarrow> map_option (\<lambda>o'. \<lparr>ctx_user = u, ctx_origin = o'\<rparr>) (map_of ORIGINS s)
      | _ \<Rightarrow> None)"

type_synonym revision_table = "((string \<times> int) \<times> saved_row) list"

definition revision_goal :: "revision_table \<Rightarrow> string \<times> int \<Rightarrow> goal_exc + goal option" where
  "revision_goal revisions k =
     (case map_of revisions k of None \<Rightarrow> Inr None
      | Some row \<Rightarrow> raise_bind (decode_goal (sv_payload row)) (\<lambda>g. Inr (Some g)))"

text \<open>\<open>except (KeyError, TypeError)\<close> around the reading of the provenance.\<close>

definition provenance_error :: "goal_exc \<Rightarrow> goal_exc" where
  "provenance_error e = (if e = BadType then BadValue else e)"

definition check_transition :: "sha \<Rightarrow> revision_table \<Rightarrow> (string \<times> int) \<times> saved_row \<Rightarrow> goal_exc + unit" where
  "check_transition sha revisions = (\<lambda>((i, v), row).
     (case sv_payload row of
        VDict d \<Rightarrow>
          if map_of revisions (i, v) = None \<or> digest sha (sv_payload row) \<noteq> sv_digest row then Inl BadValue
          else (case (map_of d ''action'', context_of d) of
              (Some (VStr a), Some ctx) \<Rightarrow>
                (case map_of ACTIONS a of None \<Rightarrow> Inl BadValue
                 | Some action \<Rightarrow>
                     raise_bind (map_sum provenance_error id
                       (raise_bind (revision_goal revisions (i, v - 1)) (\<lambda>before.
                        raise_bind (revision_goal revisions (i, v)) (\<lambda>after.
                          (case after of None \<Rightarrow> Inl BadValue | Some g \<Rightarrow> transition_data action ctx before g))))) (\<lambda>expected.
                     raise_bind (json_check expected) (\<lambda>_.
                       check_that (json_text (sv_payload row) = json_text expected))))
            | _ \<Rightarrow> Inl BadValue)
      | _ \<Rightarrow> Inl BadValue))"

definition check_fault :: "fault_key \<times> fault_row \<Rightarrow> goal_exc + unit" where
  "check_fault = (\<lambda>((_, source, i), row).
     check_that (validate_fault source i (ft_status row) (ft_error row) \<and> is_revision (ft_version row)))"

definition check_fault_state :: "(fault_key \<times> fault_row) list \<Rightarrow> fault_key \<times> fault_state \<Rightarrow> goal_exc + unit" where
  "check_fault_state faults = (\<lambda>((i, source, j), s).
     raise_bind (check_that (0 \<le> fs_through s \<and> bounded_text True 1024 (fs_recovery s))) (\<lambda>_.
     if fs_recovery s = '''' then Inr ()
     else (case map_of faults (i, source, j) of
         None \<Rightarrow> Inl BadType
       | Some row \<Rightarrow> check_that (source = Execution \<and> ft_status row \<in> {Broke, CancelledRun, CanceledRun}))))"

definition check_reminder :: "sha \<Rightarrow> string \<times> reminder_row \<Rightarrow> goal_exc + unit" where
  "check_reminder sha = (\<lambda>(m, row).
     (case rm_payload row of
        VDict d \<Rightarrow> check_that (map_of d ''id'' = Some (VStr m) \<and> digest sha (rm_payload row) = rm_digest row)
      | _ \<Rightarrow> Inl BadValue))"

definition validate_registry :: "sha \<Rightarrow> string \<times> string \<Rightarrow> registry \<Rightarrow> goal_exc + unit" where
  "validate_registry sha owner r =
     raise_bind (check_that (rg_owner r = owner)) (\<lambda>_.
     raise_bind (check_that (foreign_keys r)) (\<lambda>_.
     raise_bind (raise_map (check_goal sha r) (rg_goals r)) (\<lambda>found.
     raise_bind (check_binding sha r found) (\<lambda>_.
     raise_bind (check_all (check_transition sha (rg_revisions r)) (rg_transitions r)) (\<lambda>_.
     raise_bind (check_all check_fault (rg_faults r)) (\<lambda>_.
     raise_bind (check_all (check_fault_state (rg_faults r)) (rg_fault_states r)) (\<lambda>_.
       check_all (check_reminder sha) (rg_reminders r))))))))"

text \<open>Opening: the file is checked as it is, then interrupted sends are settled as unknown.\<close>

definition open_registry :: "sha \<Rightarrow> string \<times> string \<Rightarrow> registry \<Rightarrow> goal_exc + registry" where
  "open_registry sha owner r = raise_bind (validate_registry sha owner r) (\<lambda>_. Inr (recover_registry r))"

end
