(* ===== verification/Goal_Inv.thy ===== *)
theory Goal_Inv
  imports Goal_Store
begin

text \<open>
  The invariant of the goal registry: what the check on opening demands, read declaratively, and
  the keys SQLite enforces. Every operation keeps it.
\<close>

section \<open>The check, read declaratively\<close>

lemma check_that_iff [simp]: "check_that b = Inr x \<longleftrightarrow> b"
  by (cases x) (simp add: check_that_def)

lemma raise_map_unit: "raise_map f xs = Inr (ys :: unit list) \<longleftrightarrow> length ys = length xs \<and> (\<forall>x \<in> set xs. f x = Inr ())"
proof (induction xs arbitrary: ys)
  case (Cons x xs)
  then show ?case by (cases ys) (auto simp: raise_simps)
qed auto

lemma check_all_iff [simp]: "check_all f xs = Inr u \<longleftrightarrow> (\<forall>x \<in> set xs. f x = Inr ())"
proof -
  have "(\<exists>ys. raise_map f xs = Inr ys) \<longleftrightarrow> (\<forall>x \<in> set xs. f x = Inr ())"
    using Ex_list_of_length [of "length xs"] by (auto simp: raise_map_unit)
  then show ?thesis by (cases u) (simp add: check_all_def raise_simps)
qed

lemma raise_map_Inr_iff: "raise_map f xs = Inr ys \<longleftrightarrow> list_all2 (\<lambda>x y. f x = Inr y) xs ys"
proof (induction xs arbitrary: ys)
  case (Cons x xs)
  then show ?case by (cases ys) (auto simp: raise_simps)
qed (auto simp: list_all2_Nil)

definition goal_saved :: "sha \<Rightarrow> registry \<Rightarrow> string \<Rightarrow> goal_row \<Rightarrow> goal \<Rightarrow> bool" where
  "goal_saved sha r i row g \<longleftrightarrow>
     row_goal sha i row = Inr g \<and>
     map fst (revisions_of r i) = [1..go_version g] \<and>
     (\<forall>h \<in> set (revisions_of r i). check_revision sha i h = Inr ()) \<and>
     revisions_of r i \<noteq> [] \<and> sv_payload (snd (last (revisions_of r i))) = gr_payload row"

definition bound_goal :: "sha \<Rightarrow> registry \<Rightarrow> bool" where
  "bound_goal sha r \<longleftrightarrow>
     (\<forall>(i, row) \<in> set (rg_goals r). \<forall>g. row_goal sha i row = Inr g \<and> go_status g \<notin> {Finished, Cleared} \<longrightarrow> rg_current r = Some i) \<and>
     (\<forall>i. rg_current r = Some i \<longrightarrow> (\<exists>row g. map_of (rg_goals r) i = Some row \<and> row_goal sha i row = Inr g \<and> go_status g \<noteq> Cleared))"

definition keyed :: "registry \<Rightarrow> bool" where
  "keyed r \<longleftrightarrow> distinct (map fst (rg_goals r)) \<and> distinct (map fst (rg_revisions r)) \<and> distinct (map fst (rg_reminders r)) \<and>
     distinct (map fst (rg_transitions r)) \<and> distinct (map fst (rg_faults r)) \<and> distinct (map fst (rg_fault_states r))"

definition registry_ok :: "sha \<Rightarrow> registry \<Rightarrow> bool" where
  "registry_ok sha r \<longleftrightarrow>
     keyed r \<and> foreign_keys r \<and> (\<forall>(i, row) \<in> set (rg_goals r). \<exists>g. goal_saved sha r i row g) \<and> bound_goal sha r \<and>
     (\<forall>t \<in> set (rg_transitions r). check_transition sha (rg_revisions r) t = Inr ()) \<and>
     (\<forall>f \<in> set (rg_faults r). check_fault f = Inr ()) \<and>
     (\<forall>s \<in> set (rg_fault_states r). check_fault_state (rg_faults r) s = Inr ()) \<and>
     (\<forall>m \<in> set (rg_reminders r). check_reminder sha m = Inr ())"

lemma goal_saved_check:
  assumes "goal_saved sha r i row g"
  shows "check_goal sha r (i, row) = Inr (i, go_status g)"
proof -
  have "check_all (check_revision sha i) (revisions_of r i) = Inr ()" using assms by (simp add: goal_saved_def)
  then show ?thesis using assms by (simp add: goal_saved_def check_goal_def check_that_def del: check_all_iff)
qed

lemma binding_checks:
  assumes k: "keyed r" and saved: "\<forall>(i, row) \<in> set (rg_goals r). goal_saved sha r i row (the_goal i)"
    and b: "bound_goal sha r"
  shows "check_binding sha r (map (\<lambda>(i, row). (i, go_status (the_goal i))) (rg_goals r)) = Inr ()"
proof -
  let ?open = "\<lambda>p. go_status (the_goal (fst p)) \<notin> {Finished, Cleared}"
  let ?active = "map fst (filter ?open (rg_goals r))"
  have active: "map fst (filter (\<lambda>(_, s). s \<notin> {Finished, Cleared}) (map (\<lambda>(i, row). (i, go_status (the_goal i))) (rg_goals r))) = ?active"
    by (simp add: filter_map comp_def split_beta)
  have current: "rg_current r = Some i" if "i \<in> set ?active" for i
    using that b saved by (fastforce simp: bound_goal_def goal_saved_def)
  show ?thesis
  proof (cases "?active = []")
    case False
    then obtain i rest where i: "?active = i # rest" by (meson neq_Nil_conv)
    have first: "rg_current r = Some i" by (rule current) (simp only: i list.set_intros)
    have "distinct ?active" using k by (simp add: keyed_def distinct_map_filter)
    moreover have "j = i" if "j \<in> set ?active" for j using current [OF that] first by simp
    ultimately have "?active = [i]" unfolding i by (cases rest) auto
    then show ?thesis unfolding check_binding_def active Let_def using first by (simp only:) (simp add: check_that_def)
  next
    case True
    have "go_status g = Finished" if "rg_current r = Some i" "map_of (rg_goals r) i = Some row" "row_goal sha i row = Inr g"
        "go_status g \<noteq> Cleared" for i row g
    proof (rule ccontr)
      assume "go_status g \<noteq> Finished"
      have mem: "(i, row) \<in> set (rg_goals r)" using that(2) by (rule map_of_SomeD)
      then have "g = the_goal i" using saved that(3) by (fastforce simp: goal_saved_def)
      then have "i \<in> set ?active" using mem that(4) \<open>go_status g \<noteq> Finished\<close> by force
      then show False by (simp only: True list.set empty_iff)
    qed
    then show ?thesis unfolding check_binding_def active Let_def using True b
      by (auto simp: bound_goal_def check_that_def split: option.split)
  qed
qed

lemma ok_validates:
  assumes "registry_ok sha r"
  shows "validate_registry sha (rg_owner r) r = Inr ()"
proof -
  have ex: "\<forall>(i, row) \<in> set (rg_goals r). \<exists>g. goal_saved sha r i row g" and k: "keyed r"
    using assms by (simp_all add: registry_ok_def)
  define f where "f i = projr (row_goal sha i (the (map_of (rg_goals r) i)))" for i
  have "goal_saved sha r i row (f i)" if ir: "(i, row) \<in> set (rg_goals r)" for i row
  proof -
    obtain g where g: "goal_saved sha r i row g" using ex ir by blast
    have "map_of (rg_goals r) i = Some row" using ir k by (simp add: keyed_def)
    moreover have "row_goal sha i row = Inr g" using g by (simp add: goal_saved_def)
    ultimately show ?thesis using g by (simp add: f_def)
  qed
  then have saved: "\<forall>(i, row) \<in> set (rg_goals r). goal_saved sha r i row (f i)" by blast
  have "raise_map (check_goal sha r) (rg_goals r) = Inr (map (\<lambda>(i, row). (i, go_status (f i))) (rg_goals r))"
    by (rule raise_map_all_Inr) (use saved goal_saved_check in fastforce)
  moreover have "check_binding sha r (map (\<lambda>(i, row). (i, go_status (f i))) (rg_goals r)) = Inr ()"
    by (rule binding_checks [OF k saved]) (use assms in \<open>simp add: registry_ok_def\<close>)
  moreover have "check_that (foreign_keys r) = Inr ()" "check_all (check_transition sha (rg_revisions r)) (rg_transitions r) = Inr ()"
      "check_all check_fault (rg_faults r) = Inr ()" "check_all (check_fault_state (rg_faults r)) (rg_fault_states r) = Inr ()"
      "check_all (check_reminder sha) (rg_reminders r) = Inr ()"
    using assms unfolding registry_ok_def check_that_iff check_all_iff by blast+
  ultimately show ?thesis
    by (simp only: validate_registry_def raise_bind_simps check_that_def simp_thms if_True)
qed

section \<open>Frames\<close>

text \<open>What an operation leaves alone stays as it was.\<close>

lemma frame_simps [simp]:
  "revisions_of (r\<lparr>rg_reminders := ms\<rparr>) i = revisions_of r i" "revisions_of (r\<lparr>rg_signals := ws\<rparr>) i = revisions_of r i"
  "revisions_of (r\<lparr>rg_fault_states := fs\<rparr>) i = revisions_of r i" "revisions_of (r\<lparr>rg_faults := ft\<rparr>) i = revisions_of r i"
  by (simp_all add: revisions_of_def)

definition mail_ok :: "sha \<Rightarrow> string set \<Rightarrow> (string \<times> reminder_row) list \<Rightarrow> bool" where
  "mail_ok sha goals rows \<longleftrightarrow> distinct (map fst rows) \<and>
     (\<forall>(m, row) \<in> set rows. rm_goal row \<in> goals \<and> check_reminder sha (m, row) = Inr ())"

definition signals_ok :: "string set \<Rightarrow> (int \<times> string \<times> string) list \<Rightarrow> bool" where
  "signals_ok goals ws \<longleftrightarrow> (\<forall>(_, i, _) \<in> set ws. i \<in> goals)"

definition faults_ok :: "registry \<Rightarrow> (fault_key \<times> fault_row) list \<Rightarrow> (fault_key \<times> fault_state) list \<Rightarrow> bool" where
  "faults_ok r fs ss \<longleftrightarrow> distinct (map fst fs) \<and> distinct (map fst ss) \<and> fst ` set ss \<subseteq> fst ` set fs \<and>
     (\<forall>((i, s, j), row) \<in> set fs. i \<in> fst ` set (rg_goals r) \<and> (i, ft_version row) \<in> fst ` set (rg_revisions r) \<and>
        check_fault ((i, s, j), row) = Inr ()) \<and>
     (\<forall>x \<in> set ss. check_fault_state fs x = Inr ())"

text \<open>The part of the invariant about goals, revisions and transitions.\<close>

definition core_ok :: "sha \<Rightarrow> registry \<Rightarrow> bool" where
  "core_ok sha r \<longleftrightarrow>
     distinct (map fst (rg_goals r)) \<and> distinct (map fst (rg_revisions r)) \<and> distinct (map fst (rg_transitions r)) \<and>
     fst ` fst ` set (rg_revisions r) \<subseteq> fst ` set (rg_goals r) \<and>
     (\<forall>i. rg_current r = Some i \<longrightarrow> i \<in> fst ` set (rg_goals r)) \<and>
     fst ` set (rg_transitions r) \<subseteq> fst ` set (rg_revisions r) \<and>
     (\<forall>(i, row) \<in> set (rg_goals r). \<exists>g. goal_saved sha r i row g) \<and> bound_goal sha r \<and>
     (\<forall>t \<in> set (rg_transitions r). check_transition sha (rg_revisions r) t = Inr ())"

lemma registry_parts:
  "registry_ok sha r \<longleftrightarrow>
     core_ok sha r \<and> mail_ok sha (fst ` set (rg_goals r)) (rg_reminders r) \<and>
     signals_ok (fst ` set (rg_goals r)) (rg_signals r) \<and> faults_ok r (rg_faults r) (rg_fault_states r)"
  unfolding registry_ok_def core_ok_def mail_ok_def signals_ok_def faults_ok_def keyed_def foreign_keys_def Let_def
  by (auto 4 3 simp: split_beta image_subset_iff)

lemma core_frames [simp]:
  "core_ok sha (r\<lparr>rg_reminders := ms\<rparr>) = core_ok sha r" "core_ok sha (r\<lparr>rg_signals := ws\<rparr>) = core_ok sha r"
  "core_ok sha (r\<lparr>rg_faults := fs\<rparr>) = core_ok sha r" "core_ok sha (r\<lparr>rg_fault_states := ss\<rparr>) = core_ok sha r"
  by (simp_all add: core_ok_def goal_saved_def bound_goal_def)

lemma faults_frames [simp]:
  "faults_ok (r\<lparr>rg_reminders := ms\<rparr>) = faults_ok r" "faults_ok (r\<lparr>rg_signals := ws\<rparr>) = faults_ok r"
  "faults_ok (r\<lparr>rg_faults := x\<rparr>) = faults_ok r" "faults_ok (r\<lparr>rg_fault_states := y\<rparr>) = faults_ok r"
  by (intro ext; simp add: faults_ok_def)+

lemma ok_mailD: "registry_ok sha r \<Longrightarrow> mail_ok sha (fst ` set (rg_goals r)) (rg_reminders r)"
  by (simp add: registry_parts)

lemma ok_with_mail:
  "registry_ok sha r \<Longrightarrow> mail_ok sha (fst ` set (rg_goals r)) ms \<Longrightarrow> registry_ok sha (r\<lparr>rg_reminders := ms\<rparr>)"
  by (simp add: registry_parts)

section \<open>Reminders\<close>

text \<open>A change that keeps the goal, the payload and the digest of a row.\<close>

definition same_mail :: "reminder_row \<Rightarrow> reminder_row \<Rightarrow> bool" where
  "same_mail a b \<longleftrightarrow> rm_goal a = rm_goal b \<and> rm_payload a = rm_payload b \<and> rm_digest a = rm_digest b"

lemma same_mail_check: "same_mail a b \<Longrightarrow> check_reminder sha (m, a) = check_reminder sha (m, b)"
  by (cases "rm_payload b") (simp_all add: same_mail_def check_reminder_def)

lemma same_mail_rows [simp]:
  "same_mail (cancel_row row) row" "same_mail (interrupt_row row) row" "same_mail (row\<lparr>rm_status := s, rm_error := e\<rparr>) row"
  "same_mail row row" "same_mail (if b then cancel_row row else row) row"
  by (simp_all add: same_mail_def cancel_row_def interrupt_row_def)

lemma mail_map:
  assumes "mail_ok sha goals rows" and "\<And>m row. same_mail (f m row) row"
  shows "mail_ok sha goals (map (\<lambda>(m, row). (m, f m row)) rows)"
proof -
  have "map fst (map (\<lambda>(m, row). (m, f m row)) rows) = map fst rows" by (simp add: comp_def split_beta)
  then show ?thesis
    using assms(1) same_mail_check [OF assms(2)] assms(2)
    unfolding mail_ok_def by (auto simp: same_mail_def simp del: map_map)
qed

lemma mail_update:
  assumes "mail_ok sha goals rows" and "map_of rows m = Some row" and "same_mail row' row"
  shows "mail_ok sha goals (AList.update m row' rows)"
proof -
  have "set (AList.update m row' rows) \<subseteq> insert (m, row') (set rows)" for rows :: "(string \<times> reminder_row) list"
    by (induction rows) auto
  moreover have "(m, row) \<in> set rows" using assms(2) by (rule map_of_SomeD)
  ultimately show ?thesis
    using assms(1) same_mail_check [OF assms(3)] assms(3)
    unfolding mail_ok_def by (fastforce simp: same_mail_def)
qed

lemma recover_ok: "registry_ok sha r \<Longrightarrow> registry_ok sha (recover_registry r)"
  unfolding recover_registry_def by (intro ok_with_mail mail_map ok_mailD) simp_all

lemma cancel_ok: "registry_ok sha r \<Longrightarrow> registry_ok sha (cancel_pending m r)"
  unfolding cancel_pending_def by (intro ok_with_mail mail_map ok_mailD) simp_all

lemma transact_cases:
  obtains (kept) e where "transact f r = (r, Inl e)" "f r = Inl e"
    | (changed) r' x where "transact f r = (r', Inr x)" "f r = Inr (r', x)"
  by (cases "f r") (auto simp: transact_def split: prod.splits)

lemma settle_ok:
  assumes ok: "registry_ok sha r"
  shows "registry_ok sha (fst (settle_reminder m status err r))"
proof (cases "snd (settle_reminder m status err r)")
  case (Inl e)
  then show ?thesis using ok by (auto simp: settle_reminder_def transact_def split: if_splits option.splits)
next
  case (Inr u)
  then obtain row where row: "map_of (rg_reminders r) m = Some row"
    "fst (settle_reminder m status err r) = r\<lparr>rg_reminders := AList.update m (row\<lparr>rm_status := status, rm_error := take 4096 err\<rparr>) (rg_reminders r)\<rparr>"
    by (auto simp: settle_reminder_def transact_def split: if_splits option.splits)
  show ?thesis unfolding row(2) by (intro ok_with_mail [OF ok] mail_update [OF ok_mailD [OF ok] row(1)]) simp
qed

definition live_goal :: "sha \<Rightarrow> registry \<Rightarrow> goal \<Rightarrow> bool" where
  "live_goal sha r g \<longleftrightarrow> (\<exists>live. get_goal sha (go_id g) r = Inr live \<and> goal_eq live g)"

lemma goal_eq_fields:
  assumes "goal_eq a b"
  shows "go_id a = go_id b" "go_version a = go_version b" "go_status a = go_status b" "go_wait a = go_wait b"
proof -
  have "a\<lparr>go_created := VNone, go_updated := VNone\<rparr> = b\<lparr>go_created := VNone, go_updated := VNone\<rparr>"
    using assms by (simp add: goal_eq_def)
  then show "go_id a = go_id b" "go_version a = go_version b" "go_status a = go_status b" "go_wait a = go_wait b"
    by (cases a; cases b; simp)+
qed

lemma claim_changes:
  assumes "claim_row sha m g r = Inr (r', b)"
  shows "if b then rg_current r = Some (go_id g) \<and> live_goal sha r g \<and> remindable g \<and>
      (\<exists>row. map_of (rg_reminders r) m = Some row \<and> rm_goal row = go_id g \<and> rm_status row \<in> {Pending, Unavailable} \<and>
        provenance_fits (rm_payload row) g \<and>
        r' = r\<lparr>rg_reminders := AList.update m (row\<lparr>rm_status := Sending, rm_error := ''''\<rparr>) (rg_reminders r)\<rparr>)
    else r' = r"
  using assms
  by (auto simp: claim_row_def get_goal_def live_goal_def raise_simps split: if_splits option.splits)

lemma claim_ok:
  assumes ok: "registry_ok sha r"
  shows "registry_ok sha (fst (claim_reminder sha m g r))"
proof (cases rule: transact_cases [of "claim_row sha m g" r])
  case (changed r' b)
  note c = claim_changes [OF changed(2)]
  show ?thesis
  proof (cases b)
    case True
    then obtain row where row: "map_of (rg_reminders r) m = Some row"
      "r' = r\<lparr>rg_reminders := AList.update m (row\<lparr>rm_status := Sending, rm_error := ''''\<rparr>) (rg_reminders r)\<rparr>"
      using c by auto
    have "registry_ok sha r'"
      unfolding row(2) by (intro ok_with_mail [OF ok] mail_update [OF ok_mailD [OF ok] row(1)]) simp
    then show ?thesis using changed by (simp add: claim_reminder_def)
  qed (use c ok changed in \<open>simp add: claim_reminder_def\<close>)
qed (use ok in \<open>simp add: claim_reminder_def\<close>)

lemma json_check_same: "json_check v = Inr w \<Longrightarrow> w = v"
  by (auto simp: json_check_def raise_simps split: if_splits)

definition reminder_added :: "sha \<Rightarrow> goal \<Rightarrow> (string \<times> pyval) list \<Rightarrow> registry \<Rightarrow> registry \<Rightarrow> bool" where
  "reminder_added sha g message r r' \<longleftrightarrow>
     (\<exists>m. message_id message = Inr m \<and> map_of (rg_reminders r) m = None \<and> live_goal sha r g \<and> remindable g \<and>
        r' = r\<lparr>rg_reminders := rg_reminders r @ [(m, \<lparr>rm_goal = go_id g, rm_payload = VDict message,
          rm_digest = digest sha (VDict message), rm_status = Pending, rm_error = ''''\<rparr>)]\<rparr>)"

lemma write_reminder_changes:
  assumes "write_reminder sha g message (VDict message) r = Inr (r', x)"
  shows "r' = r \<or> reminder_added sha g message r r'"
proof -
  obtain row live m where row: "map_of (rg_goals r) (go_id g) = Some row" "row_goal sha (go_id g) row = Inr live" "goal_eq live g" "remindable g"
    and m: "message_id message = Inr m"
    using assms by (auto simp: write_reminder_def raise_simps split: option.splits if_splits)
  show ?thesis
  proof (cases "map_of (rg_reminders r) m")
    case None
    then show ?thesis using assms row m by (auto simp: write_reminder_def reminder_added_def live_goal_def get_goal_def Let_def)
  next
    case (Some old)
    then show ?thesis using assms row m by (simp add: write_reminder_def split: if_splits)
  qed
qed

lemma add_reminder_changes:
  "fst (add_reminder sha g message r) = r \<or> reminder_added sha g message r (fst (add_reminder sha g message r))"
proof (cases "json_check (VDict message)")
  case (Inr v)
  then have at: "add_reminder sha g message r = transact (write_reminder sha g message (VDict message)) r"
    using json_check_same [OF Inr] by (simp add: add_reminder_def)
  show ?thesis
  proof (cases rule: transact_cases [of "write_reminder sha g message (VDict message)" r])
    case (changed r' x)
    then show ?thesis using write_reminder_changes [OF changed(2)] by (simp add: at)
  qed (simp add: at)
qed (simp add: add_reminder_def)

lemma add_reminder_ok:
  assumes ok: "registry_ok sha r"
  shows "registry_ok sha (fst (add_reminder sha g message r))"
  using add_reminder_changes [of sha g message r]
proof
  assume "reminder_added sha g message r (fst (add_reminder sha g message r))"
  then obtain m row where m: "message_id message = Inr m" and new: "map_of (rg_reminders r) m = None"
    and live: "live_goal sha r g"
    and row: "row = \<lparr>rm_goal = go_id g, rm_payload = VDict message, rm_digest = digest sha (VDict message), rm_status = Pending, rm_error = ''''\<rparr>"
    and r': "fst (add_reminder sha g message r) = r\<lparr>rg_reminders := rg_reminders r @ [(m, row)]\<rparr>"
    unfolding reminder_added_def by blast
  have "go_id g \<in> fst ` set (rg_goals r)"
    using live by (auto simp: live_goal_def get_goal_def split: option.splits dest!: map_of_SomeD) force
  moreover have "check_reminder sha (m, row) = Inr ()"
    using m by (auto simp: check_reminder_def row message_id_def split: option.splits pyval.splits)
  moreover have "m \<notin> fst ` set (rg_reminders r)" using new by (simp add: map_of_eq_None_iff)
  ultimately have "mail_ok sha (fst ` set (rg_goals r)) (rg_reminders r @ [(m, row)])"
    using ok_mailD [OF ok] by (auto simp: mail_ok_def row)
  then show ?thesis unfolding r' by (rule ok_with_mail [OF ok])
qed (use ok in simp)

section \<open>Signals and faults\<close>

lemma live_current_known:
  assumes "live_current sha g r = Inr True"
  shows "rg_current r = Some (go_id g) \<and> go_id g \<in> fst ` set (rg_goals r)"
  using assms
  by (auto simp: live_current_def current_row_def row_goal_def raise_simps split: option.splits if_splits dest!: map_of_SomeD) force

lemma signals_add: "signals_ok goals ws \<Longrightarrow> i \<in> goals \<Longrightarrow> signals_ok goals (add_signal i t ws)"
  by (auto simp: signals_ok_def add_signal_def)

lemma signal_ok:
  assumes ok: "registry_ok sha r"
  shows "registry_ok sha (fst (wake_signal sha g trigger r))"
proof (cases "live_current sha g r")
  case (Inr live)
  have "registry_ok sha (r\<lparr>rg_signals := add_signal (go_id g) trigger (rg_signals r)\<rparr>)" if live
    using ok live_current_known [of sha g r] Inr that signals_add by (simp add: registry_parts)
  then show ?thesis using Inr ok by (simp add: wake_signal_def transact_def)
qed (use ok in \<open>simp add: wake_signal_def transact_def\<close>)

lemma take_text: "bounded_text True n s \<Longrightarrow> bounded_text True n (take k s)"
proof -
  have "byte_length (take k s) \<le> byte_length s"
    using append_take_drop_id [of k s] unfolding byte_length_def
    by (metis le_add1 map_append sum_list_append)
  then show "bounded_text True n s \<Longrightarrow> bounded_text True n (take k s)"
    by (auto simp: bounded_text_def dest: in_set_takeD)
qed

lemma insert_absent_set: "set (insert_absent k v d) \<subseteq> insert (k, v) (set d)"
  and insert_absent_distinct: "distinct (map fst d) \<Longrightarrow> distinct (map fst (insert_absent k v d))"
  and insert_absent_keys: "fst ` set (insert_absent k v d) = insert k (fst ` set d)"
  by (auto simp: insert_absent_def map_of_eq_None_iff image_iff)

lemma insert_absent_lookup: "map_of (insert_absent k v d) k' = (if k' = k \<and> map_of d k = None then Some v else map_of d k')"
  by (auto simp: insert_absent_def map_add_def split: option.split)

lemma decode_made: "decode_goal payload = Inr g \<Longrightarrow> post_init g = Inr g"
proof -
  assume "decode_goal payload = Inr g"
  then obtain d criteria where "goal_of d criteria = Inr g"
    by (cases payload) (auto simp: decode_goal_def Let_def raise_simps split: if_splits pyval.splits)
  then show "post_init g = Inr g"
    unfolding goal_of_def raise_bind_Inr_iff using post_init_same by blast
qed

lemma made_version: "post_init g = Inr g \<Longrightarrow> is_revision (go_version g)"
  by (auto simp: post_init_def split: if_splits)

lemma recorded_known:
  assumes "recorded_now g r = Inr True"
  shows "(go_id g, go_version g) \<in> fst ` set (rg_revisions r) \<and> is_revision (go_version g)"
proof -
  obtain row saved where "map_of (rg_revisions r) (go_id g, go_version g) = Some row" "decode_goal (sv_payload row) = Inr saved" "goal_eq saved g"
    using assms by (auto simp: recorded_now_def raise_simps split: option.splits if_splits)
  then show ?thesis using made_version [OF decode_made] goal_eq_fields(2) [of saved g] by (force dest: map_of_SomeD)
qed

lemma fold_max_nonneg: "0 \<le> k \<Longrightarrow> 0 \<le> fold max xs (k :: int)"
  by (induction xs arbitrary: k) (simp_all add: max.coboundedI2)

lemma no_text [simp]: "bounded_text True n ''''"
  by (simp add: bounded_text_def byte_length_def)

lemma faults_insert:
  assumes ok: "faults_ok r fs ss" and goal: "i \<in> fst ` set (rg_goals r)" and rev: "(i, ft_version row) \<in> fst ` set (rg_revisions r)"
    and row: "check_fault ((i, source, j), row) = Inr ()" and s: "0 \<le> fs_through s" "fs_recovery s = ''''"
  shows "faults_ok r (insert_absent (i, source, j) row fs) (insert_absent (i, source, j) s ss)"
proof -
  let ?k = "(i, source, j)"
  have keys: "fst ` set ss \<subseteq> fst ` set fs" using ok by (simp add: faults_ok_def)
  have "map_of (insert_absent ?k row fs) k' = map_of fs k'" if "k' \<in> fst ` set ss" for k'
  proof -
    have "map_of fs k' \<noteq> None" using keys that unfolding map_of_eq_None_iff by blast
    then show ?thesis by (auto simp: insert_absent_lookup)
  qed
  then have "check_fault_state (insert_absent ?k row fs) x = check_fault_state fs x" if "x \<in> set ss" for x
    using that by (cases x) (force simp: check_fault_state_def)
  moreover have "check_fault_state f (?k, s) = Inr ()" for f using s by (simp add: check_fault_state_def check_that_def)
  ultimately have states: "\<forall>x \<in> set (insert_absent ?k s ss). check_fault_state (insert_absent ?k row fs) x = Inr ()"
  proof -
    assume same: "\<And>x. x \<in> set ss \<Longrightarrow> check_fault_state (insert_absent ?k row fs) x = check_fault_state fs x"
      and new: "\<And>f. check_fault_state f (?k, s) = Inr ()"
    have "\<forall>x \<in> set ss. check_fault_state fs x = Inr ()" using ok unfolding faults_ok_def by (elim conjE)
    then show ?thesis using same new insert_absent_set [of ?k s ss] by auto
  qed
  let ?P = "\<lambda>((i, s, j), row). i \<in> fst ` set (rg_goals r) \<and> (i, ft_version row) \<in> fst ` set (rg_revisions r) \<and>
      check_fault ((i, s, j), row) = Inr ()"
  have "\<forall>x \<in> set fs. ?P x" using ok unfolding faults_ok_def by (elim conjE)
  moreover have "?P (?k, row)" using goal rev row by simp
  ultimately have "\<forall>x \<in> set (insert_absent ?k row fs). ?P x" using insert_absent_set [of ?k row fs] by blast
  moreover have "distinct (map fst fs)" "distinct (map fst ss)" using ok unfolding faults_ok_def by blast+
  ultimately show ?thesis
    unfolding faults_ok_def using states keys
    by (intro conjI insert_absent_distinct) (simp_all add: insert_absent_keys subset_insertI2 insert_mono)
qed

lemma fault_ok:
  assumes ok: "registry_ok sha r"
  shows "registry_ok sha (fst (record_fault sha g source i status err r))"
proof (cases "validate_fault source i status err \<and> live_current sha g r = Inr True \<and> recorded_now g r = Inr True")
  case True
  let ?row = "\<lparr>ft_version = go_version g, ft_status = status, ft_error = take 4096 err\<rparr>"
  have known: "go_id g \<in> fst ` set (rg_goals r)" "(go_id g, go_version g) \<in> fst ` set (rg_revisions r)" "is_revision (go_version g)"
    using True live_current_known recorded_known by blast+
  have "check_fault ((go_id g, source, i), ?row) = Inr ()"
    using True known(3) take_text by (simp add: check_fault_def validate_fault_def check_that_def)
  moreover have "0 \<le> last_sequence r (go_id g)" by (simp add: last_sequence_def fold_max_nonneg)
  ultimately have "faults_ok r (insert_absent (go_id g, source, i) ?row (rg_faults r))
      (insert_absent (go_id g, source, i) \<lparr>fs_through = last_sequence r (go_id g), fs_recovery = ''''\<rparr> (rg_fault_states r))"
    using ok known by (intro faults_insert) (simp_all add: registry_parts)
  then show ?thesis using True ok by (simp add: record_fault_def transact_def registry_parts Let_def)
next
  case False
  then have "fst (record_fault sha g source i status err r) = r"
    by (auto simp: record_fault_def transact_def raise_bind_def split: sum.splits)
  then show ?thesis using ok by simp
qed

lemma release_ok:
  assumes "faults_ok r (rg_faults r) ss" and "bounded_text True 1024 i" and "eligible i f"
  shows "faults_ok r (rg_faults r) (release_fault i r f ss)"
proof -
  have keys: "map fst (release_fault i r f ss) = map fst ss"
    by (simp add: release_fault_def Let_def comp_def split_beta)
  then have "fst ` set (release_fault i r f ss) = fst ` set ss" by (metis list.set_map)
  moreover have "check_fault_state (rg_faults r) x = Inr ()" if x: "x \<in> set (release_fault i r f ss)" for x
  proof -
    obtain k s where k: "(k, s) \<in> set ss" and c: "x = (k, s) \<or> (x = (k, s\<lparr>fs_recovery := i\<rparr>) \<and>
        k = (ff_goal f, ff_source f, ff_identity f) \<and>
        (\<exists>row. map_of (rg_faults r) k = Some row \<and> ft_status row = ff_status f))"
      using x by (auto simp: release_fault_def Let_def split: if_splits)
    have "check_fault_state (rg_faults r) (k, s) = Inr ()" using assms(1) k unfolding faults_ok_def by blast
    then show ?thesis using c assms(2,3) by (auto simp: check_fault_state_def eligible_def raise_simps split: if_splits)
  qed
  ultimately show ?thesis using assms(1) keys unfolding faults_ok_def by simp
qed

lemma recover_execution_ok:
  assumes ok: "registry_ok sha r"
  shows "registry_ok sha (fst (recover_execution sha g i faults r))"
proof (cases "bounded_text False 1024 i \<and> live_current sha g r = Inr True \<and> recorded_now g r = Inr True")
  case True
  then have bt: "bounded_text True 1024 i" by (simp add: bounded_text_def)
  have "faults_ok r (rg_faults r) ss \<Longrightarrow> (\<forall>f \<in> set fs. eligible i f) \<Longrightarrow> faults_ok r (rg_faults r) (fold (release_fault i r) fs ss)"
    for fs ss by (induction fs arbitrary: ss) (simp_all add: release_ok bt)
  then have "faults_ok r (rg_faults r) (fold (release_fault i r) (filter (eligible i) faults) (rg_fault_states r))"
    using ok by (simp add: registry_parts)
  then show ?thesis using True ok by (simp add: recover_execution_def transact_def registry_parts Let_def)
next
  case False
  then have "fst (recover_execution sha g i faults r) = r"
    by (auto simp: recover_execution_def transact_def raise_bind_def split: sum.splits)
  then show ?thesis using ok by simp
qed

end
