(* ===== verification/Goal_Put.thy ===== *)
theory Goal_Put
  imports Goal_Inv
begin

text \<open>
  Writing a revision: what the transaction of \<open>put\<close> changes, and that the registry stays one the
  check on opening accepts.
\<close>

section \<open>What a write changes\<close>

definition revision_row :: "sha \<Rightarrow> pyval \<Rightarrow> saved_row" where
  "revision_row sha payload = \<lparr>sv_payload = payload, sv_digest = digest sha payload\<rparr>"

definition current_row_of :: "sha \<Rightarrow> goal \<Rightarrow> pyval \<Rightarrow> goal_row" where
  "current_row_of sha g payload = \<lparr>gr_version = go_version g, gr_payload = payload, gr_digest = digest sha payload\<rparr>"

definition transition_added ::
  "sha \<Rightarrow> lifecycle option \<Rightarrow> op_context \<Rightarrow> goal option \<Rightarrow> goal \<Rightarrow> revision_table \<Rightarrow> revision_table \<Rightarrow> bool" where
  "transition_added sha action ctx prior g ts ts' \<longleftrightarrow>
     (case action of
        None \<Rightarrow> ts' = ts
      | Some a \<Rightarrow> \<exists>doc. transition_data a ctx prior g = Inr doc \<and> json_check doc = Inr doc \<and>
          (go_id g, go_version g) \<notin> fst ` set ts \<and> ts' = ts @ [((go_id g, go_version g), revision_row sha doc)])"

definition goal_written ::
  "sha \<Rightarrow> goal \<Rightarrow> pyval \<Rightarrow> lifecycle option \<Rightarrow> op_context \<Rightarrow> goal option \<Rightarrow> registry \<Rightarrow> registry \<Rightarrow> bool" where
  "goal_written sha g payload action ctx prior r r' \<longleftrightarrow>
     (go_id g, go_version g) \<notin> fst ` set (rg_revisions r) \<and>
     rg_goals r' = AList.update (go_id g) (current_row_of sha g payload) (rg_goals r) \<and>
     rg_revisions r' = rg_revisions r @ [((go_id g, go_version g), revision_row sha payload)] \<and>
     rg_current r' = (if go_status g = Cleared then None else Some (go_id g)) \<and>
     rg_reminders r' = (if remindable g then rg_reminders r else cancel_of (go_id g) (rg_reminders r)) \<and>
     rg_signals r' \<in> {rg_signals r, add_signal (go_id g) (state_trigger (go_version g)) (rg_signals r)} \<and>
     rg_faults r' = rg_faults r \<and> rg_fault_states r' = rg_fault_states r \<and> rg_owner r' = rg_owner r \<and>
     transition_added sha action ctx prior g (rg_transitions r) (rg_transitions r')"

lemma add_transition_changes:
  assumes "add_transition sha action ctx prior g r = Inr r1"
  shows "\<exists>ts. r1 = r\<lparr>rg_transitions := ts\<rparr> \<and> transition_added sha action ctx prior g (rg_transitions r) ts"
proof (cases action)
  case None
  then show ?thesis using assms by (simp add: add_transition_def transition_added_def)
next
  case (Some a)
  then obtain data doc where "transition_data a ctx prior g = Inr data" "json_check data = Inr doc"
      "(go_id g, go_version g) \<notin> fst ` set (rg_transitions r)"
      "r1 = r\<lparr>rg_transitions := rg_transitions r @ [((go_id g, go_version g), revision_row sha doc)]\<rparr>"
    using assms by (auto simp: add_transition_def revision_row_def raise_simps split: if_splits)
  then show ?thesis using Some json_check_same by (auto simp: transition_added_def)
qed

lemma write_changes:
  assumes "write_revision sha g expected payload wake action ctx r = Inr (r', g')"
  shows "g' = g \<and> (\<exists>prior. admit_revision sha g expected action r = Inr prior \<and> goal_written sha g payload action ctx prior r r')"
proof -
  let ?mid = "r\<lparr>rg_goals := AList.update (go_id g) (current_row_of sha g payload) (rg_goals r),
      rg_revisions := rg_revisions r @ [((go_id g, go_version g), revision_row sha payload)]\<rparr>"
  obtain prior r1 where p: "admit_revision sha g expected action r = Inr prior" "(go_id g, go_version g) \<notin> fst ` set (rg_revisions r)"
      "add_transition sha action ctx prior g ?mid = Inr r1"
    using assms by (auto simp: write_revision_def Let_def revision_row_def current_row_of_def raise_simps split: if_splits)
  obtain ts where r1: "r1 = ?mid\<lparr>rg_transitions := ts\<rparr>" and ts: "transition_added sha action ctx prior g (rg_transitions r) ts"
    using add_transition_changes [OF p(3)] by auto
  have "goal_written sha g payload action ctx prior r r'" and "g' = g"
    using assms p r1 ts
    by (auto simp: write_revision_def goal_written_def Let_def revision_row_def current_row_of_def split: if_splits)
  then show ?thesis using p(1) by blast
qed

section \<open>Revisions\<close>

lemma sort_key_snoc:
  assumes "\<And>y. y \<in> set xs \<Longrightarrow> f y \<le> f x"
  shows "sort_key f (xs @ [x]) = sort_key f xs @ [x]"
proof (rule properties_for_sort_key)
  show "sorted (map f (sort_key f xs @ [x]))" using assms by (auto simp: sorted_append)
next
  have "filter (\<lambda>y. f k = f y) (sort_key f xs) = filter (\<lambda>y. f k = f y) xs" for k
    using sort_key_stable [of f "f k" xs] by (simp only: eq_commute [of "f k"])
  then show "filter (\<lambda>y. f k = f y) (sort_key f xs @ [x]) = filter (\<lambda>y. f k = f y) (xs @ [x])" for k by simp
qed simp

lemma revisions_snoc:
  assumes "rg_revisions r' = rg_revisions r @ [((i, v), row)]" and "\<forall>u \<in> fst ` set (revisions_of r i). u \<le> v"
  shows "revisions_of r' j = (if j = i then revisions_of r i @ [(v, row)] else revisions_of r j)"
proof (cases "j = i")
  case True
  let ?xs = "map (\<lambda>((_, v), row). (v, row)) (filter (\<lambda>((k, _), _). k = i) (rg_revisions r))"
  have "sort_key fst (?xs @ [(v, row)]) = sort_key fst ?xs @ [(v, row)]"
    using assms(2) by (intro sort_key_snoc) (force simp: revisions_of_def)
  then show ?thesis using True assms(1) by (simp add: revisions_of_def)
qed (simp add: revisions_of_def assms(1))

lemma core_okD:
  assumes "core_ok sha r"
  shows "distinct (map fst (rg_goals r))" and "distinct (map fst (rg_revisions r))" and "distinct (map fst (rg_transitions r))"
    and "((i, v), srow) \<in> set (rg_revisions r) \<Longrightarrow> i \<in> fst ` set (rg_goals r)"
    and "rg_current r = Some i \<Longrightarrow> i \<in> fst ` set (rg_goals r)"
    and "fst ` set (rg_transitions r) \<subseteq> fst ` set (rg_revisions r)"
    and "(i, row) \<in> set (rg_goals r) \<Longrightarrow> \<exists>g. goal_saved sha r i row g" and "bound_goal sha r"
    and "t \<in> set (rg_transitions r) \<Longrightarrow> check_transition sha (rg_revisions r) t = Inr ()"
proof -
  note all = assms [unfolded core_ok_def]
  from all have saved: "\<forall>(i, row) \<in> set (rg_goals r). \<exists>g. goal_saved sha r i row g" by (elim conjE)
  from all have k: "fst ` fst ` set (rg_revisions r) \<subseteq> fst ` set (rg_goals r)" by (elim conjE)
  from all have t: "\<forall>t \<in> set (rg_transitions r). check_transition sha (rg_revisions r) t = Inr ()" by (elim conjE)
  from all have c: "\<forall>i. rg_current r = Some i \<longrightarrow> i \<in> fst ` set (rg_goals r)" by (elim conjE)
  from all show "distinct (map fst (rg_goals r))" by (elim conjE)
  from all show "distinct (map fst (rg_revisions r))" by (elim conjE)
  from all show "distinct (map fst (rg_transitions r))" by (elim conjE)
  from all show "fst ` set (rg_transitions r) \<subseteq> fst ` set (rg_revisions r)" by (elim conjE)
  from all show "bound_goal sha r" by (elim conjE)
  show "\<exists>g. goal_saved sha r i row g" if "(i, row) \<in> set (rg_goals r)" using bspec [OF saved that] by simp
  show "i \<in> fst ` set (rg_goals r)" if "((i, v), srow) \<in> set (rg_revisions r)"
    using k imageI [OF imageI [OF that, of fst], of fst] by auto
  show "i \<in> fst ` set (rg_goals r)" if "rg_current r = Some i" using c that by blast
  show "check_transition sha (rg_revisions r) t = Inr ()" if "t \<in> set (rg_transitions r)" by (rule bspec [OF t that])
qed

text \<open>What the revision replaces.\<close>

lemma admitted_prior:
  assumes ok: "core_ok sha r" and admit: "admit_revision sha g expected action r = Inr prior" and v: "go_version g = expected + 1"
  shows "map fst (revisions_of r (go_id g)) = [1..expected]"
    and "(case prior of
        None \<Rightarrow> go_id g \<notin> fst ` set (rg_goals r) \<and> expected = 0 \<and> go_status g = Active \<and>
          (\<forall>b. rg_current r = Some b \<longrightarrow> (\<exists>row old. map_of (rg_goals r) b = Some row \<and> row_goal sha b row = Inr old \<and> go_status old = Finished))
      | Some p \<Rightarrow> rg_current r = Some (go_id g) \<and> revision_goal (rg_revisions r) (go_id g, expected) = Inr (Some p) \<and>
          go_id p = go_id g \<and> go_version p = expected \<and> 1 \<le> expected)"
proof -
  have hist: "map fst (revisions_of r (go_id g)) = [1..expected] \<and>
      (\<exists>p. prior = Some p \<and> rg_current r = Some (go_id g) \<and> revision_goal (rg_revisions r) (go_id g, expected) = Inr (Some p) \<and>
         go_id p = go_id g \<and> go_version p = expected \<and> 1 \<le> expected)"
    if row: "map_of (rg_goals r) (go_id g) = Some row" for row
  proof -
    obtain p where p: "prior = Some p" "gr_version row = expected" "rg_current r = Some (go_id g)" "row_goal sha (go_id g) row = Inr p"
      using admit row by (auto simp: admit_revision_def raise_simps split: if_splits)
    have "(go_id g, row) \<in> set (rg_goals r)" using row by (rule map_of_SomeD)
    then obtain p' where "goal_saved sha r (go_id g) row p'" using core_okD(7) [OF ok] by blast
    then have saved: "goal_saved sha r (go_id g) row p" using p(4) by (simp add: goal_saved_def)
    have same: "decode_goal (gr_payload row) = Inr p" "go_id p = go_id g" "go_version p = expected"
      using p(2,4) by (auto simp: row_goal_def raise_simps split: if_splits)
    let ?h = "revisions_of r (go_id g)"
    have h: "map fst ?h = [1..expected]" "?h \<noteq> []" "sv_payload (snd (last ?h)) = gr_payload row"
      using saved same by (simp_all add: goal_saved_def)
    then have "expected \<ge> 1" by (metis map_is_Nil_conv upto_Nil2 not_le)
    moreover have "fst (last ?h) = expected"
      using h(1,2) upto_rec2 [OF \<open>expected \<ge> 1\<close>] by (metis last_map last_snoc)
    then have "(expected, snd (last ?h)) \<in> set ?h" using last_in_set [OF h(2)] by (metis prod.collapse)
    then have "((go_id g, expected), snd (last ?h)) \<in> set (rg_revisions r)" by (force simp: revisions_of_def)
    then have "map_of (rg_revisions r) (go_id g, expected) = Some (snd (last ?h))" using core_okD(2) [OF ok] by simp
    then have "revision_goal (rg_revisions r) (go_id g, expected) = Inr (Some p)"
      using same(1) h(3) by (simp add: revision_goal_def)
    ultimately show ?thesis using h(1) p same by simp
  qed
  have none: "map fst (revisions_of r (go_id g)) = [] \<and> prior = None \<and> expected = 0" if new: "map_of (rg_goals r) (go_id g) = None"
  proof -
    have "go_id g \<notin> fst ` fst ` set (rg_revisions r)" using core_okD(4) [OF ok] new unfolding map_of_eq_None_iff by force
    then have "filter (\<lambda>((j, _), _). j = go_id g) (rg_revisions r) = []" by (force simp: filter_empty_conv)
    moreover have "prior = None \<and> expected = 0" using admit new by (auto simp: admit_revision_def raise_simps split: if_splits)
    ultimately show ?thesis by (simp add: revisions_of_def)
  qed
  show "map fst (revisions_of r (go_id g)) = [1..expected]"
    using hist none by (cases "map_of (rg_goals r) (go_id g)") auto
  show "(case prior of
        None \<Rightarrow> go_id g \<notin> fst ` set (rg_goals r) \<and> expected = 0 \<and> go_status g = Active \<and>
          (\<forall>b. rg_current r = Some b \<longrightarrow> (\<exists>row old. map_of (rg_goals r) b = Some row \<and> row_goal sha b row = Inr old \<and> go_status old = Finished))
      | Some p \<Rightarrow> rg_current r = Some (go_id g) \<and> revision_goal (rg_revisions r) (go_id g, expected) = Inr (Some p) \<and>
          go_id p = go_id g \<and> go_version p = expected \<and> 1 \<le> expected)"
  proof (cases "map_of (rg_goals r) (go_id g)")
    case None
    have "go_status g = Active" and "rg_current r = Some b \<Longrightarrow>
        \<exists>row old. map_of (rg_goals r) b = Some row \<and> row_goal sha b row = Inr old \<and> go_status old = Finished" for b
      using admit None by (auto simp: admit_revision_def raise_simps split: option.splits if_splits)
    then show ?thesis using none [OF None] None by (simp add: map_of_eq_None_iff)
  qed (use hist in auto)
qed

section \<open>The invariant\<close>

lemma in_update:
  assumes "distinct (map fst d)"
  shows "(j, y) \<in> set (AList.update k v d) \<longleftrightarrow> (if j = k then y = v else (j, y) \<in> set d)"
proof -
  have "distinct (map fst (AList.update k v d))" using assms by (rule distinct_update)
  then have "(j, y) \<in> set (AList.update k v d) \<longleftrightarrow> map_of (AList.update k v d) j = Some y"
    by (simp only: map_of_eq_Some_iff)
  also have "\<dots> \<longleftrightarrow> (if j = k then y = v else map_of d j = Some y)"
    by (simp only: update_conv') auto
  finally show ?thesis using assms by simp
qed

lemma update_keys: "fst ` set (AList.update k v d) = insert k (fst ` set d)"
proof -
  have "dom (map_of (AList.update k v d)) = insert k (dom (map_of d))" by (simp only: update_conv' dom_fun_upd) simp
  then show ?thesis by (simp only: dom_map_of_conv_image_fst)
qed

lemma revision_goal_snoc:
  "k \<noteq> n \<or> map_of revs k \<noteq> None \<Longrightarrow> revision_goal (revs @ [(n, row)]) k = revision_goal revs k"
  by (cases "map_of revs k") (auto simp: revision_goal_def map_add_def)

lemma check_transition_snoc:
  assumes "check_transition sha revs ((j, u), t) = Inr ()" and "(j, u - 1) \<noteq> n"
  shows "check_transition sha (revs @ [(n, row)]) ((j, u), t) = Inr ()"
proof (cases "sv_payload t")
  case (VDict d)
  then have "map_of revs (j, u) \<noteq> None" using assms(1) by (auto simp: check_transition_def split: if_splits)
  then have "revision_goal (revs @ [(n, row)]) (j, u) = revision_goal revs (j, u)"
      "revision_goal (revs @ [(n, row)]) (j, u - 1) = revision_goal revs (j, u - 1)"
      "map_of (revs @ [(n, row)]) (j, u) \<noteq> None"
    using assms(2) by (auto simp: revision_goal_snoc map_add_def split: option.split)
  then show ?thesis using assms(1) \<open>map_of revs (j, u) \<noteq> None\<close> VDict unfolding check_transition_def by (simp only: prod.case)
qed (use assms in \<open>simp_all add: check_transition_def\<close>)

lemma check_transition_new:
  assumes data: "transition_data a ctx prior g = Inr doc" and small: "json_check doc = Inr doc"
    and before: "revision_goal revs (go_id g, go_version g - 1) = Inr prior"
    and after: "revision_goal revs (go_id g, go_version g) = Inr (Some g)"
  shows "check_transition sha revs ((go_id g, go_version g), revision_row sha doc) = Inr ()"
proof -
  obtain d where doc: "doc = VDict d" and a: "map_of d ''action'' = Some (VStr (action_name a))" and c: "context_of d = Some ctx"
    using data by (cases ctx) (auto simp: transition_data_def context_of_def split: if_splits)
  have "map_of revs (go_id g, go_version g) \<noteq> None" using after by (auto simp: revision_goal_def split: option.splits)
  then show ?thesis
    using data small before after a c
    unfolding check_transition_def revision_row_def doc by (simp add: check_that_def)
qed

text \<open>The situation of a write that went through.\<close>

lemma write_history:
  assumes ok: "core_ok sha r" and admit: "admit_revision sha g expected action r = Inr prior"
    and w: "goal_written sha g payload action ctx prior r r'" and v: "go_version g = expected + 1"
    and made: "is_revision (go_version g)" and dec: "decode_goal payload = Inr g"
  shows "revisions_of r' j = (if j = go_id g then revisions_of r j @ [(go_version g, revision_row sha payload)] else revisions_of r j)"
    and "goal_saved sha r' (go_id g) (current_row_of sha g payload) g"
proof -
  have hist: "map fst (revisions_of r (go_id g)) = [1..expected]" by (rule admitted_prior(1) [OF ok admit v])
  have revs: "rg_revisions r' = rg_revisions r @ [((go_id g, go_version g), revision_row sha payload)]" using w by (simp add: goal_written_def)
  have "fst ` set (revisions_of r (go_id g)) = {1..expected}" by (metis hist list.set_map set_upto)
  then have "\<forall>u \<in> fst ` set (revisions_of r (go_id g)). u \<le> go_version g" using v by auto
  note new = revisions_snoc [OF revs this]
  show "revisions_of r' j = (if j = go_id g then revisions_of r j @ [(go_version g, revision_row sha payload)] else revisions_of r j)"
    by (rule new [THEN trans]) simp
  have old: "check_revision sha (go_id g) h = Inr ()" if h: "h \<in> set (revisions_of r (go_id g))" for h
  proof -
    obtain u x where "((go_id g, u), x) \<in> set (rg_revisions r)" using h by (auto simp: revisions_of_def)
    then have "go_id g \<in> fst ` set (rg_goals r)" by (rule core_okD(4) [OF ok])
    then obtain row where "(go_id g, row) \<in> set (rg_goals r)" by force
    then obtain q where "goal_saved sha r (go_id g) row q" using core_okD(7) [OF ok] by blast
    then show ?thesis using h by (simp add: goal_saved_def)
  qed
  have "[1..go_version g] = [1..expected] @ [go_version g]" using made v by (simp add: is_revision_def upto_rec2)
  then show "goal_saved sha r' (go_id g) (current_row_of sha g payload) g"
    using old hist new dec
    by (auto simp: goal_saved_def row_goal_def current_row_of_def revision_row_def check_revision_def check_that_def)
qed

lemma write_bound:
  assumes ok: "core_ok sha r" and admit: "admit_revision sha g expected action r = Inr prior"
    and w: "goal_written sha g payload action ctx prior r r'" and v: "go_version g = expected + 1"
    and row: "row_goal sha (go_id g) (current_row_of sha g payload) = Inr g"
  shows "bound_goal sha r'"
proof -
  have goals: "rg_goals r' = AList.update (go_id g) (current_row_of sha g payload) (rg_goals r)"
    and cur: "rg_current r' = (if go_status g = Cleared then None else Some (go_id g))" using w by (simp_all add: goal_written_def)
  have d: "distinct (map fst (rg_goals r))" by (rule core_okD(1) [OF ok])
  have other: False if j: "j \<noteq> go_id g" "(j, x) \<in> set (rg_goals r)" "row_goal sha j x = Inr h" "go_status h \<notin> {Finished, Cleared}" for j x h
  proof -
    have at: "rg_current r = Some j" using core_okD(8) [OF ok] j(2-4) unfolding bound_goal_def by blast
    have "map_of (rg_goals r) j = Some x" using j(2) d by simp
    then show False using admitted_prior(2) [OF ok admit v] at j by (auto split: option.splits)
  qed
  have "rg_current r' = Some j" if "(j, x) \<in> set (rg_goals r')" "row_goal sha j x = Inr h" "go_status h \<notin> {Finished, Cleared}" for j x h
  proof (cases "j = go_id g")
    case True
    then show ?thesis using that row cur in_update [OF d] by (auto simp: goals)
  next
    case False
    then have "(j, x) \<in> set (rg_goals r)" using that(1) by (simp add: goals in_update [OF d])
    then show ?thesis using other [OF False _ that(2,3)] by blast
  qed
  moreover have "map_of (rg_goals r') (go_id g) = Some (current_row_of sha g payload)" by (simp add: goals update_conv')
  ultimately show ?thesis using row cur unfolding bound_goal_def by (auto split: if_splits)
qed

lemma write_transitions:
  assumes ok: "core_ok sha r" and admit: "admit_revision sha g expected action r = Inr prior"
    and w: "goal_written sha g payload action ctx prior r r'" and v: "go_version g = expected + 1"
    and dec: "decode_goal payload = Inr g" and t: "t \<in> set (rg_transitions r')"
  shows "check_transition sha (rg_revisions r') t = Inr () \<and> fst t \<in> fst ` set (rg_revisions r')"
proof -
  let ?n = "(go_id g, go_version g)"
  have revs: "rg_revisions r' = rg_revisions r @ [(?n, revision_row sha payload)]" and new: "?n \<notin> fst ` set (rg_revisions r)"
    and tr: "transition_added sha action ctx prior g (rg_transitions r) (rg_transitions r')" using w by (simp_all add: goal_written_def)
  have no_later: "(go_id g, go_version g + 1) \<notin> fst ` set (rg_revisions r)"
  proof
    assume "(go_id g, go_version g + 1) \<in> fst ` set (rg_revisions r)"
    then have "go_version g + 1 \<in> fst ` set (revisions_of r (go_id g))" by (force simp: revisions_of_def)
    moreover have "fst ` set (revisions_of r (go_id g)) = {1..expected}"
      by (metis admitted_prior(1) [OF ok admit v] list.set_map set_upto)
    ultimately show False using v by simp
  qed
  show ?thesis
  proof (cases "t \<in> set (rg_transitions r)")
    case True
    obtain j u x where x: "t = ((j, u), x)" by (metis surj_pair)
    have "(j, u) \<in> fst ` set (rg_revisions r)" using core_okD(6) [OF ok] True x by force
    then have "(j, u - 1) \<noteq> ?n" using no_later by (metis diff_add_cancel prod.inject)
    then have "check_transition sha (rg_revisions r') t = Inr ()"
      using check_transition_snoc core_okD(9) [OF ok True] unfolding x revs by blast
    then show ?thesis using \<open>(j, u) \<in> fst ` set (rg_revisions r)\<close> by (simp add: x revs)
  next
    case False
    then obtain a doc where a: "transition_data a ctx prior g = Inr doc" "json_check doc = Inr doc" "t = (?n, revision_row sha doc)"
      using tr t by (auto simp: transition_added_def split: option.splits)
    have "map_of (rg_revisions r) ?n = None" using new by (simp add: map_of_eq_None_iff)
    then have after: "revision_goal (rg_revisions r') ?n = Inr (Some g)"
      using dec by (simp add: revs revision_goal_def revision_row_def map_add_def)
    have "revision_goal (rg_revisions r) (go_id g, expected) = Inr prior"
    proof (cases prior)
      case None
      then have "go_id g \<notin> fst ` set (rg_goals r)" using admitted_prior(2) [OF ok admit v] by simp
      then have "(go_id g, expected) \<notin> fst ` set (rg_revisions r)" using core_okD(4) [OF ok] by force
      then have "map_of (rg_revisions r) (go_id g, expected) = None" by (simp add: map_of_eq_None_iff)
      then show ?thesis using None by (simp add: revision_goal_def)
    qed (use admitted_prior(2) [OF ok admit v] in simp)
    then have "revision_goal (rg_revisions r') (go_id g, go_version g - 1) = Inr prior"
      using v by (simp add: revs revision_goal_snoc)
    then show ?thesis using check_transition_new [OF a(1,2) _ after] a(3) by (simp add: revs)
  qed
qed

lemma core_okI:
  assumes "distinct (map fst (rg_goals r))" "distinct (map fst (rg_revisions r))" "distinct (map fst (rg_transitions r))"
    and "fst ` fst ` set (rg_revisions r) \<subseteq> fst ` set (rg_goals r)"
    and "\<And>i. rg_current r = Some i \<Longrightarrow> i \<in> fst ` set (rg_goals r)"
    and "\<And>t. t \<in> set (rg_transitions r) \<Longrightarrow> check_transition sha (rg_revisions r) t = Inr () \<and> fst t \<in> fst ` set (rg_revisions r)"
    and "\<And>i row. (i, row) \<in> set (rg_goals r) \<Longrightarrow> \<exists>g. goal_saved sha r i row g" and "bound_goal sha r"
  shows "core_ok sha r"
proof -
  have "fst ` set (rg_transitions r) \<subseteq> fst ` set (rg_revisions r)" using assms(6) by blast
  moreover have "\<forall>(i, row) \<in> set (rg_goals r). \<exists>g. goal_saved sha r i row g" using assms(7) by (simp add: split_beta)
  ultimately show ?thesis unfolding core_ok_def using assms(1-6,8) by (intro conjI allI ballI impI) simp_all
qed

lemma write_core_ok:
  assumes ok: "core_ok sha r" and admit: "admit_revision sha g expected action r = Inr prior"
    and w: "goal_written sha g payload action ctx prior r r'" and v: "go_version g = expected + 1"
    and made: "is_revision (go_version g)" and dec: "decode_goal payload = Inr g"
  shows "core_ok sha r'"
proof -
  have goals: "rg_goals r' = AList.update (go_id g) (current_row_of sha g payload) (rg_goals r)"
    and revs: "rg_revisions r' = rg_revisions r @ [((go_id g, go_version g), revision_row sha payload)]"
    and new: "(go_id g, go_version g) \<notin> fst ` set (rg_revisions r)"
    and cur: "rg_current r' = (if go_status g = Cleared then None else Some (go_id g))"
    and tr: "transition_added sha action ctx prior g (rg_transitions r) (rg_transitions r')" using w by (simp_all add: goal_written_def)
  note d = core_okD(1-3) [OF ok]
  have keys: "fst ` set (rg_goals r') = insert (go_id g) (fst ` set (rg_goals r))"
    by (simp only: goals update_keys)
  note saved = write_history [OF ok admit w v made dec]
  show ?thesis
  proof (rule core_okI)
    show "distinct (map fst (rg_goals r'))" unfolding goals by (rule distinct_update [OF d(1)])
    show "distinct (map fst (rg_revisions r'))" using d(2) new by (simp add: revs)
    show "distinct (map fst (rg_transitions r'))"
      using d(3) tr by (auto simp: transition_added_def split: option.splits)
    show "fst ` fst ` set (rg_revisions r') \<subseteq> fst ` set (rg_goals r')"
      using core_okD(4) [OF ok] unfolding keys by (force simp: revs)
    show "rg_current r' = Some i \<Longrightarrow> i \<in> fst ` set (rg_goals r')" for i by (simp add: keys cur split: if_splits)
    show "t \<in> set (rg_transitions r') \<Longrightarrow> check_transition sha (rg_revisions r') t = Inr () \<and> fst t \<in> fst ` set (rg_revisions r')" for t
      by (rule write_transitions [OF ok admit w v dec])
    show "\<exists>h. goal_saved sha r' i row h" if mem: "(i, row) \<in> set (rg_goals r')" for i row
    proof (cases "i = go_id g")
      case True
      then show ?thesis using saved(2) mem by (auto simp: goals in_update [OF d(1)])
    next
      case False
      then have "(i, row) \<in> set (rg_goals r)" using mem by (simp add: goals in_update [OF d(1)])
      then obtain h where "goal_saved sha r i row h" using core_okD(7) [OF ok] by blast
      then show ?thesis using saved(1) [of i] False by (auto simp: goal_saved_def)
    qed
    have "row_goal sha (go_id g) (current_row_of sha g payload) = Inr g" using saved(2) by (simp add: goal_saved_def)
    then show "bound_goal sha r'" by (rule write_bound [OF ok admit w v])
  qed
qed

lemma faults_mono:
  assumes "faults_ok r fs ss" and "fst ` set (rg_goals r) \<subseteq> fst ` set (rg_goals r')"
    and "fst ` set (rg_revisions r) \<subseteq> fst ` set (rg_revisions r')"
  shows "faults_ok r' fs ss"
proof -
  let ?P = "\<lambda>r ((i, s, j), row). i \<in> fst ` set (rg_goals r) \<and> (i, ft_version row) \<in> fst ` set (rg_revisions r) \<and>
      check_fault ((i, s, j), row) = Inr ()"
  note all = assms(1) [unfolded faults_ok_def]
  from all have "\<forall>x \<in> set fs. ?P r x" by (elim conjE)
  moreover have "?P r' x" if "?P r x" for x
  proof -
    obtain i s j row where "x = ((i, s, j), row)" by (metis surj_pair)
    then show ?thesis using that subsetD [OF assms(2)] subsetD [OF assms(3)] by simp
  qed
  ultimately have "\<forall>x \<in> set fs. ?P r' x" by blast
  then show ?thesis using all unfolding faults_ok_def by (elim conjE) (intro conjI)
qed

section \<open>A write that went through\<close>

definition wrote_goal :: "sha \<Rightarrow> goal \<Rightarrow> lifecycle option \<Rightarrow> op_context \<Rightarrow> registry \<Rightarrow> registry \<Rightarrow> bool" where
  "wrote_goal sha g action ctx r r' \<longleftrightarrow>
     post_init g = Inr g \<and>
     (\<exists>payload prior. encode_goal g = Inr payload \<and> admit_revision sha g (go_version g - 1) action r = Inr prior \<and>
        goal_written sha g payload action ctx prior r r')"

lemma put_cases [consumes 1, case_names kept wrote]:
  assumes made: "post_init g = Inr g"
  obtains (kept) e where "put_goal sha g expected wake alive action ctx r = (r, Inl e)"
    | (wrote) r' where "put_goal sha g expected wake alive action ctx r = (r', Inr g)" "wrote_goal sha g action ctx r r'"
proof (cases "put_goal sha g expected wake alive action ctx r")
  case (Pair r' x)
  show thesis
  proof (cases x)
    case (Inl e)
    then have "r' = r" using Pair by (auto simp: put_goal_def transact_def split: sum.splits prod.splits if_splits)
    then show thesis using Pair Inl kept by simp
  next
    case (Inr g')
    then obtain payload where p: "encode_goal g = Inr payload" "go_version g - 1 = expected"
        "write_revision sha g expected payload wake action ctx r = Inr (r', g')"
      using Pair by (auto simp: put_goal_def transact_def split: sum.splits prod.splits if_splits)
    have "g' = g" and "wrote_goal sha g action ctx r r'"
      using write_changes [OF p(3)] p(1,2) made unfolding wrote_goal_def by blast+
    then show thesis using wrote Pair Inr by simp
  qed
qed

lemma wrote_ok:
  assumes ok: "registry_ok sha r" and wrote: "wrote_goal sha g action ctx r r'"
  shows "registry_ok sha r'"
proof -
  obtain payload prior where made: "post_init g = Inr g" and enc: "encode_goal g = Inr payload"
    and admit: "admit_revision sha g (go_version g - 1) action r = Inr prior"
    and w: "goal_written sha g payload action ctx prior r r'" using wrote unfolding wrote_goal_def by blast
  have parts: "core_ok sha r" "mail_ok sha (fst ` set (rg_goals r)) (rg_reminders r)" "signals_ok (fst ` set (rg_goals r)) (rg_signals r)"
    "faults_ok r (rg_faults r) (rg_fault_states r)" using ok by (simp_all add: registry_parts)
  have core: "core_ok sha r'"
    by (rule write_core_ok [OF parts(1) admit w _ made_version [OF made] goal_roundtrip [OF made enc]]) simp
  have keys: "fst ` set (rg_goals r') = insert (go_id g) (fst ` set (rg_goals r))"
    using w by (simp only: goal_written_def update_keys)
  have "mail_ok sha (fst ` set (rg_goals r)) (rg_reminders r')"
    using w parts(2) mail_map [OF parts(2), of "\<lambda>_ row. if rm_goal row = go_id g then cancel_row row else row"]
    by (simp add: goal_written_def cancel_of_def)
  then have mail: "mail_ok sha (fst ` set (rg_goals r')) (rg_reminders r')" by (auto simp: mail_ok_def keys)
  have "signals_ok (fst ` set (rg_goals r')) (rg_signals r)" using parts(3) by (auto simp: signals_ok_def keys)
  then have signals: "signals_ok (fst ` set (rg_goals r')) (rg_signals r')"
    using w signals_add by (auto simp: goal_written_def keys)
  have "faults_ok r' (rg_faults r) (rg_fault_states r)"
    by (rule faults_mono [OF parts(4)]) (use w keys in \<open>auto simp: goal_written_def\<close>)
  then have "faults_ok r' (rg_faults r') (rg_fault_states r')" using w by (simp add: goal_written_def)
  then show ?thesis using core mail signals by (simp add: registry_parts)
qed

text \<open>The goal written is the current one, unless it was cleared.\<close>

lemma wrote_current:
  assumes "wrote_goal sha g action ctx r r'"
  shows "current_goal sha r' = Inr (if go_status g = Cleared then None else Some g)"
proof -
  obtain payload prior where made: "post_init g = Inr g" and enc: "encode_goal g = Inr payload"
    and w: "goal_written sha g payload action ctx prior r r'" using assms unfolding wrote_goal_def by blast
  have "decode_goal payload = Inr g" by (rule goal_roundtrip [OF made enc])
  then have "row_goal sha (go_id g) (current_row_of sha g payload) = Inr g" by (simp add: row_goal_def current_row_of_def)
  then show ?thesis using w by (simp add: goal_written_def current_goal_def current_row_def update_conv')
qed

end
