(* ===== verification/Goal_Service.thy ===== *)
theory Goal_Service
  imports Goal_Put
begin

text \<open>
  \<open>service.py\<close>: the operations by which the main agent and the user change the current goal. Each
  holds the service lock, so it is one step over the registry. \<open>alive n\<close> is what the n-th check of
  the call's owner and invocation says, \<open>io\<close> what the write to the goal's workspace raises, and
  \<open>now\<close> the clock.
\<close>

section \<open>The current goal\<close>

definition current_checked :: "sha \<Rightarrow> (nat \<Rightarrow> bool) \<Rightarrow> nat \<Rightarrow> registry \<Rightarrow> goal_exc + goal option" where
  "current_checked sha alive n r =
     (if \<not> alive n then Inl Retired
      else raise_bind (current_goal sha r) (\<lambda>g. if \<not> alive (n + 1) then Inl Retired else Inr g))"

definition selected_goal :: "sha \<Rightarrow> (nat \<Rightarrow> bool) \<Rightarrow> string \<Rightarrow> registry \<Rightarrow> goal_exc + goal" where
  "selected_goal sha alive i r =
     raise_bind (current_checked sha alive 0 r) (\<lambda>c.
       case c of None \<Rightarrow> Inl BadValue
       | Some g \<Rightarrow> if i \<noteq> '''' \<and> go_id g \<noteq> i then Inl BadValue else Inr g)"

text \<open>\<open>_io\<close>: a check before, in and after the worker's work.\<close>

definition checked_io :: "(nat \<Rightarrow> bool) \<Rightarrow> nat \<Rightarrow> goal_exc + unit \<Rightarrow> goal_exc + unit" where
  "checked_io alive n io =
     (if \<not> alive n \<or> \<not> alive (n + 1) then Inl Retired
      else raise_bind io (\<lambda>_. if \<not> alive (n + 2) then Inl Retired else Inr ()))"

section \<open>Creating\<close>

definition new_goal :: "string \<Rightarrow> string \<Rightarrow> string \<Rightarrow> string list \<Rightarrow> pyval \<Rightarrow> goal" where
  "new_goal hex title outcome criteria now =
     \<lparr>go_id = ''goal-'' @ hex, go_title = title, go_outcome = outcome, go_criteria = criteria, go_status = Active,
      go_version = 1, go_reason = '''', go_summary = '''', go_wait = NoWait, go_created = now, go_updated = now,
      go_question = '''', go_impact = '''', go_resume = ''''\<rparr>"

definition admit_create ::
  "sha \<Rightarrow> (nat \<Rightarrow> bool) \<Rightarrow> op_context \<Rightarrow> goal \<Rightarrow> goal_exc + unit \<Rightarrow> registry \<Rightarrow> goal_exc + goal" where
  "admit_create sha alive ctx g io r =
     raise_bind (require_user ctx) (\<lambda>_.
     if \<not> alive 0 then Inl Retired
     else raise_bind (current_checked sha alive 1 r) (\<lambda>c.
       if (case c of None \<Rightarrow> False | Some h \<Rightarrow> go_status h \<noteq> Finished) then Inl BadValue
       else raise_bind (post_init g) (\<lambda>g. raise_bind (checked_io alive 3 io) (\<lambda>_. if \<not> alive 6 then Inl Retired else Inr g))))"

definition create_goal ::
  "sha \<Rightarrow> (nat \<Rightarrow> bool) \<Rightarrow> op_context \<Rightarrow> string \<Rightarrow> string \<Rightarrow> string \<Rightarrow> string list \<Rightarrow> pyval \<Rightarrow> goal_exc + unit \<Rightarrow> registry \<Rightarrow>
     registry \<times> (goal_exc + goal)" where
  "create_goal sha alive ctx hex title outcome criteria now io r =
     (case admit_create sha alive ctx (new_goal hex title outcome criteria now) io r of
        Inl e \<Rightarrow> (r, Inl e)
      | Inr g \<Rightarrow> put_goal sha g 0 False (alive 7) (Some Create) ctx r)"

section \<open>Changing\<close>

text \<open>The keyword arguments of a call; a tuple is a list.\<close>

type_synonym kwargs = "(string \<times> pyval) list"

definition given :: "string \<Rightarrow> pyval \<Rightarrow> kwargs \<Rightarrow> pyval" where
  "given k otherwise values = (case map_of values k of None \<Rightarrow> otherwise | Some v \<Rightarrow> v)"

definition UNTIL :: "(string \<times> goal_wait) list" where
  "UNTIL = [(''user'', ForUser), (''tasks'', ForTasks)]"

definition QUESTION_FIELDS :: "string list" where
  "QUESTION_FIELDS = [''question'', ''impact'', ''resume_when'']"

definition until_user :: "kwargs \<Rightarrow> bool" where
  "until_user values \<longleftrightarrow> given ''until'' (VStr ''user'') values = VStr ''user''"

definition user_wait :: "goal \<Rightarrow> bool" where
  "user_wait g \<longleftrightarrow> go_status g = Waiting \<and> go_wait g = ForUser"

text \<open>\<open>activate\<close> asks for the observed version and a reason; an active goal is returned as it is.\<close>

definition admit_activate :: "pyval \<Rightarrow> kwargs \<Rightarrow> goal \<Rightarrow> goal_exc + bool" where
  "admit_activate version values g =
     (if (case version of VInt n \<Rightarrow> n < 1 | _ \<Rightarrow> True) then Inl BadValue
      else if set (map fst values) \<noteq> {''reason''} \<or> (case given ''reason'' VNone values of VStr s \<Rightarrow> strip s = [] | _ \<Rightarrow> True)
      then Inl BadValue
      else if go_status g = Active then Inr False
      else if go_status g \<noteq> Waiting then Inl BadValue else Inr True)"

definition same_question :: "string \<Rightarrow> kwargs \<Rightarrow> goal \<Rightarrow> bool" where
  "same_question action values g \<longleftrightarrow>
     action = ''wait'' \<and> user_wait g \<and> go_question g \<noteq> '''' \<and> until_user values \<and>
     set (map fst values) \<subseteq> {''until'', ''reason'', ''question'', ''impact'', ''resume_when''} \<and>
     (\<forall>n \<in> set QUESTION_FIELDS. map_of values n = map_of (goal_fields g) n)"

definition needs_user :: "string \<Rightarrow> goal \<Rightarrow> bool" where
  "needs_user action g \<longleftrightarrow>
     action = ''resume'' \<or>
     user_wait g \<and> action \<in> {''wait'', ''activate'', ''complete'', ''pause''} \<or>
     action \<in> {''clear'', ''update''} \<or>
     go_status g = Halted \<and> action \<notin> {''resume'', ''clear'', ''update''}"

text \<open>Whether a call goes on to a revision; \<open>False\<close> when it returns the goal as it is.\<close>

definition admit_change :: "string \<Rightarrow> pyval \<Rightarrow> kwargs \<Rightarrow> op_context \<Rightarrow> goal \<Rightarrow> goal_exc + bool" where
  "admit_change action version values ctx g =
     raise_bind (if action = ''wait'' then raise_bind (member_check UNTIL (given ''until'' (VStr ''user'') values)) (\<lambda>_. Inr ()) else Inr ()) (\<lambda>_.
     if go_status g \<in> {Finished, Cleared} \<and> action \<noteq> ''clear'' then Inl BadValue
     else raise_bind (if action = ''activate'' then admit_activate version values g else Inr True) (\<lambda>go.
     if \<not> go then Inr False
     else if version \<noteq> VNone \<and> version \<noteq> VInt (go_version g) then Inl BadValue
     else raise_bind (if same_question action values g
         then raise_bind (text_check True 65536 (given ''reason'' (VStr (go_reason g)) values)) (\<lambda>s. Inr (s \<noteq> go_reason g))
         else Inr True) (\<lambda>go.
     if \<not> go then Inr False
     else if action = ''resume'' \<and> go_status g \<noteq> Halted then Inl BadValue
     else raise_bind (if needs_user action g then require_user ctx else Inr ()) (\<lambda>_. Inr True))))"

definition CHANGE_ACTIONS :: "(string \<times> lifecycle) list" where
  "CHANGE_ACTIONS = map (\<lambda>a. (action_name a, a)) [Pause, Await, Activate, Resume, Complete, Clear]"

definition allowed :: "lifecycle \<Rightarrow> string set" where
  "allowed a = (case a of Pause \<Rightarrow> {''reason''} | Await \<Rightarrow> {''reason'', ''until'', ''question'', ''impact'', ''resume_when''}
     | Activate \<Rightarrow> {''reason''} | Complete \<Rightarrow> {''summary''} | Clear \<Rightarrow> {''reason''} | _ \<Rightarrow> {})"

definition is_text :: "bool \<Rightarrow> pyval \<Rightarrow> bool" where
  "is_text empty_ok v = (case text_check empty_ok 65536 v of Inr _ \<Rightarrow> True | Inl _ \<Rightarrow> False)"

definition lifecycle_fields :: "lifecycle \<Rightarrow> kwargs \<Rightarrow> goal \<Rightarrow> kwargs" where
  "lifecycle_fields a values g =
     map (\<lambda>n. (n, if a = Await \<and> until_user values then given n (VStr '''') values else VStr '''')) QUESTION_FIELDS @
     [(''status'', VStr (status_name (target a))), (''reason'', given ''reason'' (VStr '''') values),
      (''summary'', given ''summary'' (VStr (go_summary g)) values),
      (''wait_for'', if a = Await then given ''until'' (VStr ''user'') values else VStr '''')]"

definition change_fields :: "string \<Rightarrow> kwargs \<Rightarrow> goal \<Rightarrow> goal_exc + kwargs" where
  "change_fields action values g =
     (if action = ''update'' then
        (if values = [] \<or> \<not> set (map fst values) \<subseteq> {''title'', ''outcome'', ''criteria''} then Inl BadValue else Inr values)
      else (case map_of CHANGE_ACTIONS action of
          None \<Rightarrow> Inl BadValue
        | Some a \<Rightarrow>
            if \<not> set (map fst values) \<subseteq> allowed a then Inl BadValue
            else if a = Await \<and> until_user values \<and>
                (\<exists>n \<in> set QUESTION_FIELDS. case map_of values n of None \<Rightarrow> True | Some v \<Rightarrow> \<not> is_text False v) then Inl BadValue
            else if \<not> (a = Await \<and> until_user values) \<and> set (map fst values) \<inter> set QUESTION_FIELDS \<noteq> {} then Inl BadValue
            else if a = Complete \<and> \<not> is_text False (given ''summary'' (VStr '''') values) then Inl BadValue
            else Inr (lifecycle_fields a values g)))"

text \<open>\<open>dataclasses.replace\<close>: the changes shadow the fields, and the checks run again.\<close>

definition replace_goal :: "goal \<Rightarrow> kwargs \<Rightarrow> goal_exc + goal" where
  "replace_goal g changes =
     (let d = changes @ goal_fields g
      in case field_of d ''criteria'' of VList xs \<Rightarrow> raise_bind (strings_check xs) (goal_of d) | _ \<Rightarrow> Inl BadValue)"

definition revised_goal :: "goal \<Rightarrow> pyval \<Rightarrow> kwargs \<Rightarrow> goal_exc + goal" where
  "revised_goal g now changes = replace_goal g ([(''version'', VInt (go_version g + 1)), (''updated_at'', now)] @ changes)"

definition change_goal ::
  "sha \<Rightarrow> (nat \<Rightarrow> bool) \<Rightarrow> string \<Rightarrow> string \<Rightarrow> op_context \<Rightarrow> pyval \<Rightarrow> kwargs \<Rightarrow> pyval \<Rightarrow> registry \<Rightarrow> registry \<times> (goal_exc + goal)" where
  "change_goal sha alive action i ctx version values now r =
     (case selected_goal sha alive i r of
        Inl e \<Rightarrow> (r, Inl e)
      | Inr g \<Rightarrow> (case admit_change action version values ctx g of
          Inl e \<Rightarrow> (r, Inl e)
        | Inr go \<Rightarrow>
            if \<not> go then (r, Inr g)
            else (case raise_bind (change_fields action values g) (revised_goal g now) of
                Inl e \<Rightarrow> (r, Inl e)
              | Inr g' \<Rightarrow>
                  if \<not> alive 2 then (r, Inl Retired)
                  else put_goal sha g' (go_version g) (action = ''resume'') (alive 3)
                    (if same_question action values g then None else map_of CHANGE_ACTIONS action) ctx r)))"

section \<open>Planning\<close>

definition admit_plan :: "sha \<Rightarrow> (nat \<Rightarrow> bool) \<Rightarrow> string \<Rightarrow> string \<Rightarrow> pyval \<Rightarrow> goal_exc + unit \<Rightarrow> registry \<Rightarrow> goal_exc + goal \<times> goal" where
  "admit_plan sha alive content i now io r =
     raise_bind (selected_goal sha alive i r) (\<lambda>g.
     if go_status g \<in> {Finished, Cleared, Halted} then Inl BadValue
     else raise_bind (checked_io alive 2 (if bounded_text True 65536 content then io else Inl BadValue)) (\<lambda>_.
     if \<not> alive 5 then Inl Retired
     else raise_bind (revised_goal g now []) (\<lambda>g'. Inr (g, g'))))"

definition plan_goal ::
  "sha \<Rightarrow> (nat \<Rightarrow> bool) \<Rightarrow> string \<Rightarrow> string \<Rightarrow> pyval \<Rightarrow> goal_exc + unit \<Rightarrow> registry \<Rightarrow> registry \<times> (goal_exc + goal)" where
  "plan_goal sha alive content i now io r =
     (case admit_plan sha alive content i now io r of
        Inl e \<Rightarrow> (r, Inl e)
      | Inr (g, g') \<Rightarrow> put_goal sha g' (go_version g) False (alive 6) None \<lparr>ctx_user = False, ctx_origin = Service\<rparr> r)"

end
