(* ===== verification/Goal_Life.thy ===== *)
theory Goal_Life
  imports Goal_Service
begin

text \<open>
  What a call of the service does to the current goal: the revision it writes, and the lifecycle
  the goal follows, as an abstract automaton.
\<close>

section \<open>Revised goals\<close>

lemma goal_of_fields:
  assumes "goal_of d criteria = Inr g"
  shows "post_init g = Inr g" and "identity_check (field_of d ''id'') = Inr (go_id g)"
    and "number_check (field_of d ''version'') = Inr (go_version g)"
    and "member_check GOAL_STATES (field_of d ''status'') = Inr (go_status g)"
    and "member_check WAITS (field_of d ''wait_for'') = Inr (go_wait g)"
proof -
  have "post_init g = Inr g \<and> identity_check (field_of d ''id'') = Inr (go_id g) \<and>
      number_check (field_of d ''version'') = Inr (go_version g) \<and>
      member_check GOAL_STATES (field_of d ''status'') = Inr (go_status g) \<and>
      member_check WAITS (field_of d ''wait_for'') = Inr (go_wait g)"
    using assms unfolding goal_of_def raise_bind_Inr_iff by (auto dest: post_init_same)
  then show "post_init g = Inr g" "identity_check (field_of d ''id'') = Inr (go_id g)"
    "number_check (field_of d ''version'') = Inr (go_version g)"
    "member_check GOAL_STATES (field_of d ''status'') = Inr (go_status g)"
    "member_check WAITS (field_of d ''wait_for'') = Inr (go_wait g)" by blast+
qed

lemma replace_goal_of:
  assumes "replace_goal g changes = Inr g'"
  obtains criteria where "goal_of (changes @ goal_fields g) criteria = Inr g'"
  using assms by (auto simp: replace_goal_def Let_def raise_simps split: pyval.splits)

lemma field_of_append: "field_of (a @ b) k = (if map_of a k = None then field_of b k else field_of a k)"
  by (auto simp: field_of_def map_add_def split: option.splits)

lemma number_check_iff [simp]: "number_check (VInt i) = Inr n \<longleftrightarrow> n = i \<and> is_revision i"
  by (auto simp: number_check_def)

lemma revised_fields:
  assumes rev: "revised_goal g now changes = Inr g'" and keys: "''id'' \<notin> fst ` set changes" "''version'' \<notin> fst ` set changes"
  shows "post_init g' = Inr g'" and "go_id g' = go_id g" and "go_version g' = go_version g + 1"
    and "''status'' \<notin> fst ` set changes \<Longrightarrow> ''wait_for'' \<notin> fst ` set changes \<Longrightarrow> go_status g' = go_status g \<and> go_wait g' = go_wait g"
    and "map_of changes ''status'' = Some (VStr (status_name s)) \<Longrightarrow> go_status g' = s"
    and "map_of changes ''wait_for'' = Some v \<Longrightarrow> member_check WAITS v = Inr (go_wait g')"
proof -
  let ?d = "[(''version'', VInt (go_version g + 1)), (''updated_at'', now)] @ changes @ goal_fields g"
  obtain criteria where d: "goal_of ?d criteria = Inr g'" using rev replace_goal_of by (force simp: revised_goal_def)
  note f = goal_of_fields [OF d]
  show "post_init g' = Inr g'" by (rule f(1))
  have "map_of changes ''id'' = None" using keys(1) by (simp add: map_of_eq_None_iff)
  then have "field_of ?d ''id'' = VStr (go_id g)" by (simp add: field_of_def goal_fields_def map_add_def)
  then show "go_id g' = go_id g" using f(2) by (simp add: identity_check_def split: if_splits)
  show "go_version g' = go_version g + 1" using f(3) by (simp add: field_of_def)
  show "go_status g' = go_status g \<and> go_wait g' = go_wait g" if "''status'' \<notin> fst ` set changes" "''wait_for'' \<notin> fst ` set changes"
  proof -
    have "map_of changes ''status'' = None" "map_of changes ''wait_for'' = None" using that by (simp_all add: map_of_eq_None_iff)
    then have "field_of ?d ''status'' = VStr (status_name (go_status g))" "field_of ?d ''wait_for'' = VStr (wait_name (go_wait g))"
      by (simp_all add: field_of_def goal_fields_def map_add_def)
    then show ?thesis using f(4,5) by simp
  qed
  show "go_status g' = s" if "map_of changes ''status'' = Some (VStr (status_name s))"
  proof -
    have "field_of ?d ''status'' = VStr (status_name s)" using that by (simp add: field_of_def map_add_def)
    then show ?thesis using f(4) by simp
  qed
  show "member_check WAITS v = Inr (go_wait g')" if "map_of changes ''wait_for'' = Some v"
  proof -
    have "field_of ?d ''wait_for'' = v" using that by (simp add: field_of_def map_add_def)
    then show ?thesis using f(5) by simp
  qed
qed

section \<open>The current goal\<close>

lemma current_made:
  assumes "current_goal sha r = Inr (Some g)"
  shows "post_init g = Inr g" and "rg_current r = Some (go_id g)"
proof -
  obtain i row where "rg_current r = Some i" "row_goal sha i row = Inr g"
    using assms by (auto simp: current_goal_def current_row_def raise_simps split: option.splits)
  then show "post_init g = Inr g" "rg_current r = Some (go_id g)"
    using decode_made by (auto simp: row_goal_def raise_simps split: if_splits)
qed

lemma selected_current: "selected_goal sha alive i r = Inr g \<Longrightarrow> current_goal sha r = Inr (Some g)"
  by (auto simp: selected_goal_def current_checked_def raise_simps split: if_splits option.splits)

lemma revised_made: "revised_goal g now changes = Inr g' \<Longrightarrow> post_init g' = Inr g'"
  unfolding revised_goal_def by (erule replace_goal_of) (rule goal_of_fields(1))

section \<open>The lifecycle\<close>

type_synonym life = "(goal_status \<times> goal_wait) option"

definition life_of :: "sha \<Rightarrow> registry \<Rightarrow> life" where
  "life_of sha r = (case current_goal sha r of Inr (Some g) \<Rightarrow> Some (go_status g, go_wait g) | _ \<Rightarrow> None)"

text \<open>A goal the user stopped, or that waits for the user, moves only with the user's authority.\<close>

definition held :: "goal_status \<times> goal_wait \<Rightarrow> bool" where
  "held l \<longleftrightarrow> l \<in> {(Waiting, ForUser)} \<or> fst l = Halted"

inductive life_step :: "bool \<Rightarrow> life \<Rightarrow> lifecycle \<Rightarrow> life \<Rightarrow> bool" where
  life_create: "l = None \<or> l = Some (Finished, NoWait) \<Longrightarrow> life_step True l Create (Some (Active, NoWait))"
| life_clear: "life_step True (Some l) Clear None"
| life_resume: "life_step True (Some (Halted, NoWait)) Resume (Some (Active, NoWait))"
| life_pause: "fst l \<noteq> Finished \<Longrightarrow> (held l \<Longrightarrow> user) \<Longrightarrow> life_step user (Some l) Pause (Some (Halted, NoWait))"
| life_wait: "fst l \<noteq> Finished \<Longrightarrow> (held l \<Longrightarrow> user) \<Longrightarrow> w \<noteq> NoWait \<Longrightarrow> life_step user (Some l) Await (Some (Waiting, w))"
| life_activate: "fst l = Waiting \<Longrightarrow> (held l \<Longrightarrow> user) \<Longrightarrow> life_step user (Some l) Activate (Some (Active, NoWait))"
| life_complete: "fst l \<noteq> Finished \<Longrightarrow> (held l \<Longrightarrow> user) \<Longrightarrow> life_step user (Some l) Complete (Some (Finished, NoWait))"

inductive_simps life_step_iff: "life_step user l a l'"

lemma made_wait: "post_init g = Inr g \<Longrightarrow> go_status g \<noteq> Waiting \<Longrightarrow> go_wait g = NoWait"
  by (auto simp: post_init_def split: if_splits)

lemma change_actions: "map_of CHANGE_ACTIONS action = Some a \<Longrightarrow> action = action_name a \<and> a \<noteq> Create"
  by (auto simp: CHANGE_ACTIONS_def action_name_def split: if_splits)

lemma change_fields_cases:
  assumes "change_fields action values g = Inr cs"
  obtains (update) "action = ''update''" "cs = values" "set (map fst values) \<subseteq> {''title'', ''outcome'', ''criteria''}"
    | (lifecycle) a where "map_of CHANGE_ACTIONS action = Some a" "action \<noteq> ''update''" "cs = lifecycle_fields a values g"
  using assms by (auto simp: change_fields_def split: if_splits option.splits)

lemma lifecycle_lookup:
  "map_of (lifecycle_fields a values g) ''status'' = Some (VStr (status_name (target a)))"
  "map_of (lifecycle_fields a values g) ''wait_for'' = Some (if a = Await then given ''until'' (VStr ''user'') values else VStr '''')"
  "''id'' \<notin> fst ` set (lifecycle_fields a values g)" "''version'' \<notin> fst ` set (lifecycle_fields a values g)"
  by (simp_all add: lifecycle_fields_def QUESTION_FIELDS_def)

lemma change_keys:
  assumes "change_fields action values g = Inr cs"
  shows "''id'' \<notin> fst ` set cs" "''version'' \<notin> fst ` set cs"
proof -
  have "''id'' \<notin> fst ` set cs \<and> ''version'' \<notin> fst ` set cs"
    using assms by (rule change_fields_cases) (auto simp only: set_map lifecycle_lookup)
  then show "''id'' \<notin> fst ` set cs" "''version'' \<notin> fst ` set cs" by blast+
qed

lemma until_waits: "member_check UNTIL v = Inr w \<Longrightarrow> member_check WAITS v = Inr w' \<Longrightarrow> w' \<noteq> NoWait"
  by (cases v) (auto simp: member_check_def UNTIL_def WAITS_def wait_name_def split: if_splits)

text \<open>An admitted lifecycle operation takes the step of its name.\<close>

lemma admitted_step:
  assumes made: "post_init g = Inr g" and go: "admit_change action version values ctx g = Inr True"
    and a: "map_of CHANGE_ACTIONS action = Some a" and rev: "revised_goal g now (lifecycle_fields a values g) = Inr g'"
  shows "life_step (ctx_user ctx) (Some (go_status g, go_wait g)) a
    (if go_status g' = Cleared then None else Some (go_status g', go_wait g'))" and "go_status g' = target a"
proof -
  note f = revised_fields [OF rev lifecycle_lookup(3,4)]
  note name = change_actions [OF a]
  show status: "go_status g' = target a" by (rule f(5)) (rule lifecycle_lookup(1))
  have wait: "member_check WAITS (if a = Await then given ''until'' (VStr ''user'') values else VStr '''') = Inr (go_wait g')"
    by (rule f(6)) (rule lifecycle_lookup(2))
  then have quiet: "go_wait g' = NoWait" if "a \<noteq> Await" using that by (simp add: member_check_def WAITS_def wait_name_def)
  have live: "go_status g \<notin> {Finished, Cleared} \<or> a = Clear"
    using go name by (auto simp: admit_change_def raise_simps action_name_def split: if_splits lifecycle.splits)
  have user: "needs_user action g \<Longrightarrow> ctx_user ctx"
    using go by (auto simp: admit_change_def raise_simps require_user_def split: if_splits)
  have held: "held (go_status g, go_wait g) \<Longrightarrow> ctx_user ctx" if "a \<notin> {Clear, Resume}"
    using user that name by (auto simp: held_def needs_user_def user_wait_def action_name_def split: lifecycle.splits)
  show "life_step (ctx_user ctx) (Some (go_status g, go_wait g)) a
    (if go_status g' = Cleared then None else Some (go_status g', go_wait g'))"
  proof (cases a)
    case Clear
    then have "ctx_user ctx" using user name by (simp add: needs_user_def action_name_def)
    then show ?thesis using Clear status by (simp add: target_def life_step_iff)
  next
    case Resume
    then have "ctx_user ctx" "go_status g = Halted"
      using user go name by (auto simp: needs_user_def action_name_def admit_change_def raise_simps split: if_splits)
    then show ?thesis using Resume status quiet made_wait [OF made] by (simp add: target_def life_step_iff)
  next
    case Await
    then have "member_check UNTIL (given ''until'' (VStr ''user'') values) = Inr w \<Longrightarrow> go_wait g' \<noteq> NoWait" for w
      using wait until_waits by simp
    moreover have "\<exists>w. member_check UNTIL (given ''until'' (VStr ''user'') values) = Inr w"
      using go name Await by (auto simp: admit_change_def raise_simps action_name_def split: if_splits)
    ultimately show ?thesis using Await status live held by (auto simp: target_def life_step_iff)
  next
    case Activate
    then have "go_status g = Waiting"
      using go name by (auto simp: admit_change_def admit_activate_def raise_simps action_name_def split: if_splits)
    then show ?thesis using Activate status quiet held by (simp add: target_def life_step_iff)
  qed (use status quiet live held name in \<open>auto simp: target_def life_step_iff\<close>)
qed

section \<open>What a call does\<close>

lemma change_cases:
  obtains (kept) "fst (change_goal sha alive action i ctx version values now r) = r"
    | (wrote) g cs g' r' where "current_goal sha r = Inr (Some g)" "admit_change action version values ctx g = Inr True"
      "change_fields action values g = Inr cs" "revised_goal g now cs = Inr g'"
      "change_goal sha alive action i ctx version values now r = (r', Inr g')"
      "wrote_goal sha g' (if same_question action values g then None else map_of CHANGE_ACTIONS action) ctx r r'"
proof (cases "selected_goal sha alive i r")
  case (Inl e)
  then show thesis using kept by (simp add: change_goal_def)
next
  case (Inr g)
  then have cur: "current_goal sha r = Inr (Some g)" by (rule selected_current)
  show thesis
  proof (cases "admit_change action version values ctx g = Inr True \<and> alive 2 \<and>
      (\<exists>cs g'. change_fields action values g = Inr cs \<and> revised_goal g now cs = Inr g')")
    case False
    then have "fst (change_goal sha alive action i ctx version values now r) = r"
      using Inr by (auto simp: change_goal_def raise_bind_def split: sum.splits)
    then show thesis by (rule kept)
  next
    case True
    then obtain cs g' where c: "admit_change action version values ctx g = Inr True" "alive 2"
        "change_fields action values g = Inr cs" "revised_goal g now cs = Inr g'" by blast
    let ?act = "if same_question action values g then None else map_of CHANGE_ACTIONS action"
    have put: "change_goal sha alive action i ctx version values now r =
        put_goal sha g' (go_version g) (action = ''resume'') (alive 3) ?act ctx r"
      using Inr c by (simp add: change_goal_def)
    from revised_made [OF c(4)] show thesis
    proof (cases rule: put_cases [of g' sha "go_version g" "action = ''resume''" "alive 3" ?act ctx r])
      case (kept e)
      then show thesis using put that(1) by simp
    next
      case (wrote r')
      show thesis by (rule that(2) [OF cur c(1,3,4)]) (use wrote put in simp_all)
    qed
  qed
qed

lemma plan_cases:
  obtains (kept) e where "plan_goal sha alive content i now io r = (r, Inl e)"
    | (wrote) g g' r' ctx where "current_goal sha r = Inr (Some g)" "go_status g \<notin> {Finished, Cleared, Halted}"
      "revised_goal g now [] = Inr g'"
      "plan_goal sha alive content i now io r = (r', Inr g')"
      "wrote_goal sha g' None ctx r r'"
proof (cases "admit_plan sha alive content i now io r")
  case (Inl e)
  then show thesis using kept by (simp add: plan_goal_def)
next
  case (Inr p)
  then obtain g g' where p: "p = (g, g')" "selected_goal sha alive i r = Inr g" "go_status g \<notin> {Finished, Cleared, Halted}"
      "revised_goal g now [] = Inr g'"
    by (auto simp: admit_plan_def raise_simps split: if_splits)
  let ?ctx = "\<lparr>ctx_user = False, ctx_origin = Service\<rparr>"
  have put: "plan_goal sha alive content i now io r = put_goal sha g' (go_version g) False (alive 6) None ?ctx r"
    using Inr p(1) by (simp add: plan_goal_def)
  from revised_made [OF p(4)] show thesis
  proof (cases rule: put_cases [of g' sha "go_version g" False "alive 6" None ?ctx r])
    case (kept e)
    then show thesis using put that(1) by simp
  next
    case (wrote r')
    show thesis by (rule that(2) [OF selected_current [OF p(2)] p(3,4)]) (use wrote put in simp_all)
  qed
qed

lemma create_cases:
  obtains (kept) e where "create_goal sha alive ctx hex title outcome criteria now io r = (r, Inl e)"
    | (wrote) c r' where "ctx_user ctx" "current_goal sha r = Inr c"
      "c = None \<or> (\<exists>g. c = Some g \<and> go_status g = Finished)"
      "create_goal sha alive ctx hex title outcome criteria now io r = (r', Inr (new_goal hex title outcome criteria now))"
      "wrote_goal sha (new_goal hex title outcome criteria now) (Some Create) ctx r r'"
proof -
  let ?g = "new_goal hex title outcome criteria now"
  show thesis
  proof (cases "admit_create sha alive ctx ?g io r")
    case (Inl e)
    then show thesis using kept by (simp add: create_goal_def)
  next
    case (Inr g)
    then have made: "post_init ?g = Inr g" and user: "ctx_user ctx"
      and cur: "\<exists>c. current_goal sha r = Inr c \<and> (c = None \<or> (\<exists>g. c = Some g \<and> go_status g = Finished))"
      by (auto simp: admit_create_def current_checked_def require_user_def raise_simps split: if_splits option.splits)
    have g: "g = ?g" by (rule post_init_same [OF made])
    have put: "create_goal sha alive ctx hex title outcome criteria now io r = put_goal sha ?g 0 False (alive 7) (Some Create) ctx r"
      using Inr g by (simp add: create_goal_def)
    obtain c where c: "current_goal sha r = Inr c" "c = None \<or> (\<exists>g. c = Some g \<and> go_status g = Finished)" using cur by blast
    from made [unfolded g] show thesis
    proof (cases rule: put_cases [of ?g sha 0 False "alive 7" "Some Create" ctx r])
      case (kept e)
      then show thesis using put that(1) by simp
    next
      case (wrote r')
      show thesis by (rule that(2) [OF user c(1,2)]) (use wrote put made g in simp_all)
    qed
  qed
qed

lemma life_written:
  assumes "wrote_goal sha g action ctx r r'"
  shows "life_of sha r' = (if go_status g = Cleared then None else Some (go_status g, go_wait g))"
  using wrote_current [OF assms] by (simp add: life_of_def)

lemma life_now: "current_goal sha r = Inr (Some g) \<Longrightarrow> life_of sha r = Some (go_status g, go_wait g)"
  by (simp add: life_of_def)

lemma change_life:
  assumes "fst (change_goal sha alive action i ctx version values now r) = r'"
  shows "life_of sha r' = life_of sha r \<or>
    (\<exists>a. map_of CHANGE_ACTIONS action = Some a \<and> life_step (ctx_user ctx) (life_of sha r) a (life_of sha r'))"
proof (cases rule: change_cases [of sha alive action i ctx version "values" now r])
  case kept
  then show ?thesis using assms by simp
next
  case (wrote g cs g' s)
  have r': "r' = s" using assms wrote(5) by simp
  note before = life_now [OF wrote(1)]
  note rev = revised_fields [OF wrote(4) change_keys [OF wrote(3)]]
  note after = life_written [OF wrote(6)]
  from wrote(3) show ?thesis
  proof (cases rule: change_fields_cases)
    case update
    then have "''status'' \<notin> fst ` set cs" "''wait_for'' \<notin> fst ` set cs" by (auto simp only: set_map)
    then have same: "go_status g' = go_status g" "go_wait g' = go_wait g" using rev(4) by blast+
    have "go_status g \<noteq> Cleared"
      using wrote(2) update(1) by (auto simp: admit_change_def raise_simps split: if_splits)
    then show ?thesis using before after same r' by simp
  next
    case (lifecycle a)
    then show ?thesis
      using admitted_step(1) [OF current_made(1) [OF wrote(1)] wrote(2) lifecycle(1)] wrote(4) before after r' by auto
  qed
qed

lemma create_life:
  assumes "fst (create_goal sha alive ctx hex title outcome criteria now io r) = r'"
  shows "life_of sha r' = life_of sha r \<or> life_step (ctx_user ctx) (life_of sha r) Create (life_of sha r')"
proof (cases rule: create_cases [of sha alive ctx hex title outcome criteria now io r])
  case (wrote c s)
  have "life_of sha s = Some (Active, NoWait)"
    using life_written [OF wrote(5)] by (simp add: new_goal_def)
  moreover have "life_of sha r = None \<or> life_of sha r = Some (Finished, NoWait)"
    using wrote(2,3) made_wait [OF current_made(1)] by (auto simp: life_of_def)
  ultimately show ?thesis using wrote(1,4) assms by (auto simp: life_step_iff)
qed (use assms in simp)

lemma plan_life: "life_of sha (fst (plan_goal sha alive content i now io r)) = life_of sha r"
proof (cases rule: plan_cases [of sha alive content i now io r])
  case (wrote g g' s ctx)
  note rev = revised_fields [OF wrote(3)]
  have "go_status g' = go_status g" "go_wait g' = go_wait g" using rev(4) by simp_all
  then show ?thesis using life_written [OF wrote(5)] life_now [OF wrote(1)] wrote(2,4) by simp
qed simp

text \<open>Nobody but the user moves a goal the user holds.\<close>

lemma held_change:
  assumes cur: "current_goal sha r = Inr (Some g)" and held: "held (go_status g, go_wait g)" and user: "\<not> ctx_user ctx"
  shows "fst (change_goal sha alive action i ctx version values now r) = r"
proof (cases rule: change_cases [of sha alive action i ctx version "values" now r])
  case (wrote h cs g' s)
  have h: "h = g" using wrote(1) cur by simp
  have "needs_user action g \<Longrightarrow> ctx_user ctx"
    using wrote(2) by (auto simp: admit_change_def raise_simps require_user_def h split: if_splits)
  moreover have "needs_user action g"
    using wrote(3)
  proof (cases rule: change_fields_cases)
    case (lifecycle a)
    then have "action = action_name a" "a \<noteq> Create" using change_actions by blast+
    then show ?thesis using held by (cases a) (auto simp: held_def needs_user_def user_wait_def action_name_def)
  qed (simp add: needs_user_def)
  ultimately show ?thesis using user by blast
qed

section \<open>Revisions without changes\<close>

lemma text_check_str [simp]: "text_check b n (VStr s) = Inr t \<longleftrightarrow> t = s \<and> bounded_text b n s"
  by (auto simp: text_check_def)

lemma strings_check_strs: "strings_check (map VStr ss) = Inr ts \<Longrightarrow> ts = ss"
  unfolding strings_check_def by (induction ss arbitrary: ts) (auto simp: raise_simps)

lemma identity_check_str: "identity_check (VStr s) = Inr i \<Longrightarrow> i = s"
  by (simp add: identity_check_def split: if_splits)

lemma field_first: "field_of ((k, v) # d) k' = (if k = k' then v else field_of d k')"
  by (simp add: field_of_def)

lemma goal_field:
  "field_of (goal_fields g) ''id'' = VStr (go_id g)" "field_of (goal_fields g) ''title'' = VStr (go_title g)"
  "field_of (goal_fields g) ''outcome'' = VStr (go_outcome g)" "field_of (goal_fields g) ''status'' = VStr (status_name (go_status g))"
  "field_of (goal_fields g) ''wait_for'' = VStr (wait_name (go_wait g))" "field_of (goal_fields g) ''reason'' = VStr (go_reason g)"
  "field_of (goal_fields g) ''summary'' = VStr (go_summary g)" "field_of (goal_fields g) ''question'' = VStr (go_question g)"
  "field_of (goal_fields g) ''impact'' = VStr (go_impact g)" "field_of (goal_fields g) ''resume_when'' = VStr (go_resume g)"
  "field_of (goal_fields g) ''created_at'' = go_created g" "field_of (goal_fields g) ''criteria'' = VList (map VStr (go_criteria g))"
  by (simp_all add: field_of_def goal_fields_def)

text \<open>A revision without changes, which is what \<open>plan\<close> writes.\<close>

lemma revised_quiet:
  assumes "revised_goal g now [] = Inr g'"
  shows "g' = g\<lparr>go_version := go_version g + 1, go_updated := now\<rparr>"
proof -
  let ?d = "[(''version'', VInt (go_version g + 1)), (''updated_at'', now)] @ goal_fields g"
  have "\<exists>criteria. strings_check (map VStr (go_criteria g)) = Inr criteria \<and> goal_of ?d criteria = Inr g'"
    using assms by (auto simp: revised_goal_def replace_goal_def Let_def raise_simps field_first goal_field)
  then have "goal_of ?d (go_criteria g) = Inr g'" using strings_check_strs by blast
  then show ?thesis
    unfolding goal_of_def raise_bind_Inr_iff append.simps field_first goal_field
    by (auto simp: member_names dest!: post_init_same identity_check_str)
qed

section \<open>Calls that answer\<close>

lemma change_answers:
  assumes "change_goal sha alive action i ctx version values now r = (r', Inr h)"
  obtains (same) "r' = r" "current_goal sha r = Inr (Some h)" "admit_change action version values ctx h = Inr False"
    | (wrote) g cs where "current_goal sha r = Inr (Some g)" "admit_change action version values ctx g = Inr True"
      "change_fields action values g = Inr cs" "revised_goal g now cs = Inr h"
      "wrote_goal sha h (if same_question action values g then None else map_of CHANGE_ACTIONS action) ctx r r'"
proof (cases rule: change_cases [of sha alive action i ctx version "values" now r])
  case kept
  then have r': "r' = r" using assms by simp
  obtain g go where g: "selected_goal sha alive i r = Inr g" "admit_change action version values ctx g = Inr go"
    using assms by (auto simp: change_goal_def split: sum.splits)
  show thesis
  proof (cases go)
    case False
    then have "h = g" using assms g by (simp add: change_goal_def)
    then show thesis using same [OF r'] g False selected_current [OF g(1)] by simp
  next
    case True
    then obtain g' where rev: "raise_bind (change_fields action values g) (revised_goal g now) = Inr g'"
      and put: "put_goal sha g' (go_version g) (action = ''resume'') (alive 3)
        (if same_question action values g then None else map_of CHANGE_ACTIONS action) ctx r = (r', Inr h)"
      using assms g by (auto simp: change_goal_def split: sum.splits if_splits)
    obtain cs where cs: "change_fields action values g = Inr cs" "revised_goal g now cs = Inr g'"
      using rev by (auto simp: raise_simps)
    from revised_made [OF cs(2)] show thesis
    proof (cases rule: put_cases [of g' sha "go_version g" "action = ''resume''" "alive 3"
        "if same_question action values g then None else map_of CHANGE_ACTIONS action" ctx r])
      case (kept e)
      then show thesis using put by simp
    next
      case (wrote s)
      then have "s = r'" "g' = h" using put by simp_all
      show thesis by (rule that(2) [OF selected_current [OF g(1)]]) (use g(2) True cs wrote(2) \<open>s = r'\<close> \<open>g' = h\<close> in simp_all)
    qed
  qed
next
  case (wrote g cs g' s)
  then have "s = r'" "g' = h" using assms by simp_all
  then show thesis using that(2) wrote by blast
qed

text \<open>The two calls that answer with the goal as it is: a repeated activation and a repeated question.\<close>

lemma admitted_same:
  assumes "admit_change action version values ctx g = Inr False" and "map_of CHANGE_ACTIONS action = Some a"
  shows "a = Activate \<and> go_status g = Active \<or> a = Await \<and> go_status g = Waiting \<and> go_wait g = ForUser"
proof -
  have "action = action_name a" "a \<noteq> Create" using change_actions [OF assms(2)] by auto
  then show ?thesis using assms(1)
    by (auto simp: admit_change_def admit_activate_def raise_simps same_question_def user_wait_def action_name_def
        split: if_splits lifecycle.splits)
qed

lemma change_answered:
  assumes call: "change_goal sha alive action i ctx version values now r = (r', Inr h)" and a: "map_of CHANGE_ACTIONS action = Some a"
  shows "life_step (ctx_user ctx) (life_of sha r) a (life_of sha r') \<or>
    r' = r \<and> (a, life_of sha r) \<in> {(Activate, Some (Active, NoWait)), (Await, Some (Waiting, ForUser))}"
  using call
proof (cases rule: change_answers)
  case same
  then show ?thesis using admitted_same [OF same(3) a] made_wait [OF current_made(1) [OF same(2)]] life_now [OF same(2)] by auto
next
  case (wrote g cs)
  have "action \<noteq> ''update''" using change_actions [OF a] by (auto simp: action_name_def split: lifecycle.splits)
  then have cs: "cs = lifecycle_fields a values g" using change_fields_cases [OF wrote(3)] a by (metis option.inject)
  show ?thesis
    using admitted_step(1) [OF current_made(1) [OF wrote(1)] wrote(2) a wrote(4) [unfolded cs]] life_now [OF wrote(1)] life_written [OF wrote(5)]
    by simp
qed

lemma create_answered:
  assumes "create_goal sha alive ctx hex title outcome criteria now io r = (r', Inr h)"
  shows "life_step (ctx_user ctx) (life_of sha r) Create (life_of sha r')"
proof (cases rule: create_cases [of sha alive ctx hex title outcome criteria now io r])
  case (wrote c s)
  have "life_of sha s = Some (Active, NoWait)" using life_written [OF wrote(5)] by (simp add: new_goal_def)
  moreover have "life_of sha r = None \<or> life_of sha r = Some (Finished, NoWait)"
    using wrote(2,3) made_wait [OF current_made(1)] by (auto simp: life_of_def)
  ultimately show ?thesis using wrote(1,4) assms by (auto simp: life_step_iff)
qed (use assms in simp)

end
