(* ===== verification/Goal_Runs.thy ===== *)
theory Goal_Runs
  imports Goal_Life Machine
begin

text \<open>
  Runs of the goal registry: the calls of the service, the outbox and the runtime in any order, with
  the process dying between any two of them, and what every run keeps.
\<close>

section \<open>Calls\<close>

datatype goal_op =
    CreateGoal "nat \<Rightarrow> bool" op_context string string string "string list" pyval "goal_exc + unit"
  | ChangeGoal "nat \<Rightarrow> bool" string string op_context pyval kwargs pyval
  | PlanGoal "nat \<Rightarrow> bool" string string pyval "goal_exc + unit"
  | Remind goal kwargs
  | Claim string goal
  | Settle string reminder_status string
  | Withdraw string
  | Signal goal string
  | RecordFault goal fault_source string fault_status string
  | RecoverExecution goal string "fault_fact list"
  | Reopen

definition took :: "registry \<times> (goal_exc + 'a) \<Rightarrow> registry \<times> bool" where
  "took p = (fst p, case snd p of Inl _ \<Rightarrow> False | Inr _ \<Rightarrow> True)"

definition agreed :: "registry \<times> (goal_exc + bool) \<Rightarrow> registry \<times> bool" where
  "agreed p = (fst p, case snd p of Inl _ \<Rightarrow> False | Inr b \<Rightarrow> b)"

text \<open>The registry after a call, and whether the call raised nothing and answered yes.\<close>

fun run_op :: "sha \<Rightarrow> goal_op \<Rightarrow> registry \<Rightarrow> registry \<times> bool" where
  "run_op sha (CreateGoal alive ctx hex title outcome criteria now io) r =
     took (create_goal sha alive ctx hex title outcome criteria now io r)"
| "run_op sha (ChangeGoal alive action i ctx version vs now) r = took (change_goal sha alive action i ctx version vs now r)"
| "run_op sha (PlanGoal alive content i now io) r = took (plan_goal sha alive content i now io r)"
| "run_op sha (Remind g message) r = took (add_reminder sha g message r)"
| "run_op sha (Claim m g) r = agreed (claim_reminder sha m g r)"
| "run_op sha (Settle m status err) r = took (settle_reminder m status err r)"
| "run_op sha (Withdraw m) r = (cancel_pending m r, True)"
| "run_op sha (Signal g trigger) r = agreed (wake_signal sha g trigger r)"
| "run_op sha (RecordFault g source i status err) r = agreed (record_fault sha g source i status err r)"
| "run_op sha (RecoverExecution g i faults) r = agreed (recover_execution sha g i faults r)"
| "run_op sha Reopen r = (recover_registry r, True)"

definition registry_step :: "sha \<Rightarrow> registry \<Rightarrow> goal_op \<times> bool \<Rightarrow> registry \<Rightarrow> bool" where
  "registry_step sha r e r' \<longleftrightarrow> run_op sha (fst e) r = (r', snd e)"

lemma took_fst [simp]: "fst (took p) = fst p"
  by (simp add: took_def)

lemma agreed_fst [simp]: "fst (agreed p) = fst p"
  by (simp add: agreed_def)

section \<open>The invariant\<close>

lemma new_registry_ok: "registry_ok sha (new_registry owner)"
  by (simp add: registry_ok_def new_registry_def keyed_def foreign_keys_def bound_goal_def)

lemma create_ok:
  assumes ok: "registry_ok sha r"
  shows "registry_ok sha (fst (create_goal sha alive ctx hex title outcome criteria now io r))"
  by (cases rule: create_cases [of sha alive ctx hex title outcome criteria now io r])
    (use ok wrote_ok [OF ok] in simp_all)

lemma change_ok:
  assumes ok: "registry_ok sha r"
  shows "registry_ok sha (fst (change_goal sha alive action i ctx version vs now r))"
  by (cases rule: change_cases [of sha alive action i ctx version vs now r])
    (use ok wrote_ok [OF ok] in simp_all)

lemma plan_ok:
  assumes ok: "registry_ok sha r"
  shows "registry_ok sha (fst (plan_goal sha alive content i now io r))"
  by (cases rule: plan_cases [of sha alive content i now io r])
    (use ok wrote_ok [OF ok] in simp_all)

lemma run_op_ok:
  assumes "registry_ok sha r"
  shows "registry_ok sha (fst (run_op sha op r))"
  by (cases op) (simp_all add: assms create_ok change_ok plan_ok add_reminder_ok claim_ok settle_ok cancel_ok signal_ok fault_ok
    recover_execution_ok recover_ok)

lemma step_ok: "registry_step sha r e r' \<Longrightarrow> registry_ok sha r \<Longrightarrow> registry_ok sha r'"
  using run_op_ok [of sha r "fst e"] by (simp add: registry_step_def)

interpretation goals: bounded_machine "registry_step sha" "registry_ok sha" "\<lambda>_. 0" "\<lambda>_ _. False" for sha
  by unfold_locales (auto intro: step_ok)

lemma run_ok_registry: "trace (registry_step sha) (new_registry owner) es r \<Longrightarrow> registry_ok sha r"
  by (rule goals.trace_inv [OF _ new_registry_ok])

section \<open>The owner\<close>

lemma owner_kept: "rg_owner (fst (run_op sha op r)) = rg_owner r"
proof (cases op)
  case (CreateGoal alive ctx hex title outcome criteria now io)
  then show ?thesis
    by (cases rule: create_cases [of sha alive ctx hex title outcome criteria now io r]) (auto simp: wrote_goal_def goal_written_def)
next
  case (ChangeGoal alive action i ctx version vs now)
  then show ?thesis
    by (cases rule: change_cases [of sha alive action i ctx version vs now r]) (auto simp: wrote_goal_def goal_written_def)
next
  case (PlanGoal alive content i now io)
  then show ?thesis
    by (cases rule: plan_cases [of sha alive content i now io r]) (auto simp: wrote_goal_def goal_written_def)
next
  case (Remind g message)
  then show ?thesis using add_reminder_changes [of sha g message r] by (auto simp: reminder_added_def)
next
  case (Claim m g)
  then show ?thesis
    by (cases rule: transact_cases [of "claim_row sha m g" r])
      (use claim_changes [of sha m g r] in \<open>auto simp: claim_reminder_def split: if_splits\<close>)
next
  case (Settle m status err)
  then show ?thesis by (auto simp: settle_reminder_def transact_def split: option.splits)
next
  case (Signal g trigger)
  then show ?thesis by (auto simp: wake_signal_def transact_def raise_bind_def split: sum.splits)
next
  case (RecordFault g source i status err)
  then show ?thesis by (auto simp: record_fault_def transact_def raise_bind_def Let_def split: sum.splits)
next
  case (RecoverExecution g i faults)
  then show ?thesis by (auto simp: recover_execution_def transact_def raise_bind_def Let_def split: sum.splits)
qed (simp_all add: cancel_pending_def recover_registry_def)

section \<open>The lifecycle of the current goal\<close>

fun op_user :: "goal_op \<Rightarrow> bool" where
  "op_user (CreateGoal _ ctx _ _ _ _ _ _) = ctx_user ctx"
| "op_user (ChangeGoal _ _ _ ctx _ _ _) = ctx_user ctx"
| "op_user _ = False"

fun op_action :: "goal_op \<Rightarrow> lifecycle option" where
  "op_action (CreateGoal _ _ _ _ _ _ _ _) = Some Create"
| "op_action (ChangeGoal _ action _ _ _ _ _) = map_of CHANGE_ACTIONS action"
| "op_action _ = None"

definition same_goals :: "registry \<Rightarrow> registry \<Rightarrow> bool" where
  "same_goals r r' \<longleftrightarrow> rg_goals r' = rg_goals r \<and> rg_current r' = rg_current r"

lemma same_goals_life: "same_goals r r' \<Longrightarrow> life_of sha r' = life_of sha r"
  unfolding same_goals_def life_of_def current_goal_def current_row_def by (simp only:)

text \<open>The outbox, the signals and the faults leave the goals alone.\<close>

lemma other_goals:
  assumes "op_action op = None" and "\<And>alive action i ctx version vs now. op \<noteq> ChangeGoal alive action i ctx version vs now"
    and "\<And>alive content i now io. op \<noteq> PlanGoal alive content i now io"
  shows "same_goals r (fst (run_op sha op r))"
proof (cases op)
  case (Remind g message)
  then show ?thesis using add_reminder_changes [of sha g message r] by (auto simp: reminder_added_def same_goals_def)
next
  case (Claim m g)
  then show ?thesis
    by (cases rule: transact_cases [of "claim_row sha m g" r])
      (use claim_changes [of sha m g r] in \<open>auto simp: claim_reminder_def same_goals_def split: if_splits\<close>)
next
  case (Settle m status err)
  then show ?thesis by (auto simp: settle_reminder_def transact_def same_goals_def split: option.splits)
next
  case (Signal g trigger)
  then show ?thesis by (auto simp: wake_signal_def transact_def raise_bind_def same_goals_def split: sum.splits)
next
  case (RecordFault g source i status err)
  then show ?thesis by (auto simp: record_fault_def transact_def raise_bind_def Let_def same_goals_def split: sum.splits)
next
  case (RecoverExecution g i faults)
  then show ?thesis by (auto simp: recover_execution_def transact_def raise_bind_def Let_def same_goals_def split: sum.splits)
qed (use assms in \<open>auto simp: cancel_pending_def recover_registry_def same_goals_def\<close>)

lemma life_of_op:
  "life_of sha (fst (run_op sha op r)) = life_of sha r \<or>
    (\<exists>a. op_action op = Some a \<and> life_step (op_user op) (life_of sha r) a (life_of sha (fst (run_op sha op r))))"
proof (cases op)
  case (CreateGoal alive ctx hex title outcome criteria now io)
  then show ?thesis using create_life [OF refl, of sha alive ctx hex title outcome criteria now io r] by simp
next
  case (ChangeGoal alive action i ctx version vs now)
  then show ?thesis using change_life [OF refl, of sha alive action i ctx version vs now r] by simp
next
  case (PlanGoal alive content i now io)
  then show ?thesis by (simp add: plan_life)
qed (use same_goals_life [OF other_goals [of op r sha]] in auto)

lemma life_of_answer:
  assumes "op_action op = Some a" and "run_op sha op r = (r', True)"
  shows "life_step (op_user op) (life_of sha r) a (life_of sha r') \<or>
    r' = r \<and> (a, life_of sha r) \<in> {(Activate, Some (Active, NoWait)), (Await, Some (Waiting, ForUser))}"
proof (cases op)
  case (CreateGoal alive ctx hex title outcome criteria now io)
  then obtain h where "create_goal sha alive ctx hex title outcome criteria now io r = (r', Inr h)"
    using assms(2) by (cases "create_goal sha alive ctx hex title outcome criteria now io r") (auto simp: took_def split: sum.splits)
  then show ?thesis using create_answered assms(1) CreateGoal by auto
next
  case (ChangeGoal alive action i ctx version vs now)
  then obtain h where "change_goal sha alive action i ctx version vs now r = (r', Inr h)"
    using assms(2) by (cases "change_goal sha alive action i ctx version vs now r") (auto simp: took_def split: sum.splits)
  then show ?thesis using change_answered assms(1) ChangeGoal by simp
qed (use assms(1) in simp_all)

section \<open>Goals the user holds\<close>

fun is_plan :: "goal_op \<Rightarrow> bool" where
  "is_plan (PlanGoal _ _ _ _ _) = True"
| "is_plan _ = False"

text \<open>The goal with another revision number and another time, and nothing else changed.\<close>

definition rewritten :: "goal \<Rightarrow> nat \<Rightarrow> goal \<Rightarrow> bool" where
  "rewritten g n g' \<longleftrightarrow> g' = g\<lparr>go_version := go_version g + int n, go_updated := go_updated g'\<rparr> \<and> (n = 0 \<longrightarrow> g' = g)"

lemma same_goals_current: "same_goals r r' \<Longrightarrow> current_goal sha r' = current_goal sha r"
  unfolding same_goals_def current_goal_def current_row_def by (simp only:)

lemma held_step:
  assumes step: "registry_step sha r (op, b) r'" and cur: "current_goal sha r = Inr (Some g)"
    and held: "held (go_status g, go_wait g)" and user: "\<not> op_user op"
  shows "\<exists>g'. current_goal sha r' = Inr (Some g') \<and> rewritten g (if is_plan op \<and> b then 1 else 0) g' \<and>
    (is_plan op \<and> b \<longrightarrow> go_status g = Waiting)"
proof -
  have run: "run_op sha op r = (r', b)" using step by (simp add: registry_step_def)
  have kept: ?thesis if "same_goals r r'" "\<not> (is_plan op \<and> b)"
    using same_goals_current [OF that(1)] cur that(2) by (auto simp: rewritten_def)
  note other = other_goals [of op r sha, unfolded run fst_conv]
  show ?thesis
  proof (cases op)
    case (CreateGoal alive ctx hex title outcome criteria now io)
    have "r' = r"
    proof (cases rule: create_cases [of sha alive ctx hex title outcome criteria now io r])
      case kept
      then show ?thesis using run CreateGoal by (auto simp: took_def)
    next
      case (wrote c s)
      then show ?thesis using user CreateGoal by simp
    qed
    then show ?thesis using kept CreateGoal by (simp add: same_goals_def)
  next
    case (ChangeGoal alive action i ctx version vs now)
    then have "r' = r" using run held_change [OF cur held, of ctx alive action i version vs now] user by (auto simp: took_def)
    then show ?thesis using kept ChangeGoal by (simp add: same_goals_def)
  next
    case (PlanGoal alive content i now io)
    show ?thesis
    proof (cases rule: plan_cases [of sha alive content i now io r])
      case (kept e)
      then have "r' = r" "\<not> b" using run PlanGoal by (auto simp: took_def)
      then show ?thesis using cur by (simp add: rewritten_def)
    next
      case (wrote h g' s ctx)
      have eq: "h = g" "s = r'" "b" using wrote(1,4) cur run PlanGoal by (auto simp: took_def)
      have "g' = g\<lparr>go_version := go_version g + 1, go_updated := now\<rparr>" using revised_quiet [OF wrote(3)] eq by simp
      moreover have "current_goal sha r' = Inr (Some g')"
        using wrote_current [OF wrote(5)] wrote(2) revised_fields(4) [OF wrote(3)] eq by auto
      moreover have "go_status g = Waiting" using held wrote(2) eq by (auto simp: held_def)
      ultimately show ?thesis using eq PlanGoal by (simp add: rewritten_def)
    qed
  qed (use kept other in simp_all)
qed

lemma rewritten_trans: "rewritten g m g' \<Longrightarrow> rewritten g' n g'' \<Longrightarrow> rewritten g (m + n) g''"
  unfolding rewritten_def by (cases g; cases g'; cases g'') auto

lemma rewritten_held: "rewritten g n g' \<Longrightarrow> go_status g' = go_status g \<and> go_wait g' = go_wait g"
  unfolding rewritten_def by (cases g; cases g') auto

section \<open>The outbox\<close>

definition mail :: "registry \<Rightarrow> string \<Rightarrow> reminder_status option" where
  "mail r m = map_option rm_status (map_of (rg_reminders r) m)"

text \<open>What happens to a reminder that is neither claimed nor settled.\<close>

definition idle_move :: "reminder_status option \<Rightarrow> reminder_status option \<Rightarrow> bool" where
  "idle_move s s' \<longleftrightarrow> s' = s \<or> s = None \<and> s' = Some Pending \<or> s \<in> {Some Pending, Some Unavailable} \<and> s' = Some Cancelled \<or>
     s = Some Sending \<and> s' = Some Unknown"

fun claims :: "string \<Rightarrow> goal_op \<times> bool \<Rightarrow> bool" where
  "claims m (Claim n _, b) \<longleftrightarrow> n = m \<and> b"
| "claims m _ \<longleftrightarrow> False"

fun settles :: "string \<Rightarrow> goal_op \<times> bool \<Rightarrow> reminder_status option" where
  "settles m (Settle n s _, b) = (if n = m \<and> b then Some s else None)"
| "settles m _ = None"

lemma map_of_rows: "map_of (map (\<lambda>(m, row). (m, f m row)) rows) m = map_option (f m) (map_of rows m)"
  by (induction rows) auto

lemma cancel_status: "rm_status (cancel_row row) = (if rm_status row \<in> {Pending, Unavailable} then Cancelled else rm_status row)"
  by (simp add: cancel_row_def)

lemma wrote_mail:
  assumes "wrote_goal sha g action ctx r r'"
  shows "idle_move (mail r m) (mail r' m)"
proof -
  have "rg_reminders r' = rg_reminders r \<or> rg_reminders r' = cancel_of (go_id g) (rg_reminders r)"
    using assms by (auto simp: wrote_goal_def goal_written_def)
  then show ?thesis
    by (cases "map_of (rg_reminders r) m") (auto simp: mail_def cancel_of_def map_of_rows cancel_status idle_move_def split: if_splits)
qed

text \<open>One step of a reminder: claimed when it was waiting, settled when it was being sent, or idle.\<close>

lemma mail_step:
  assumes "registry_step sha r e r'"
  shows "if claims m e then mail r m \<in> {Some Pending, Some Unavailable} \<and> mail r' m = Some Sending
    else case settles m e of
        Some s \<Rightarrow> mail r m = Some Sending \<and> s \<in> {Accepted, Unknown, Unavailable} \<and> mail r' m = Some s
      | None \<Rightarrow> idle_move (mail r m) (mail r' m)"
proof -
  obtain op b where e: "e = (op, b)" by (cases e)
  have run: "run_op sha op r = (r', b)" using assms by (simp add: registry_step_def e)
  have idle: "idle_move s s" for s by (simp add: idle_move_def)
  show ?thesis
  proof (cases op)
    case (CreateGoal alive ctx hex title outcome criteria now io)
    then show ?thesis using run
      by (cases rule: create_cases [of sha alive ctx hex title outcome criteria now io r]) (auto simp: e took_def idle wrote_mail)
  next
    case (ChangeGoal alive action i ctx version vs now)
    then show ?thesis using run
      by (cases rule: change_cases [of sha alive action i ctx version vs now r]) (auto simp: e took_def idle wrote_mail)
  next
    case (PlanGoal alive content i now io)
    then show ?thesis using run
      by (cases rule: plan_cases [of sha alive content i now io r]) (auto simp: e took_def idle wrote_mail)
  next
    case (Remind g message)
    have "r' = fst (add_reminder sha g message r)" using run Remind by (auto simp: took_def)
    then show ?thesis using add_reminder_changes [of sha g message r] idle
      by (auto simp: e Remind reminder_added_def mail_def idle_move_def map_add_def split: option.splits if_splits)
  next
    case (Claim n g)
    show ?thesis
    proof (cases rule: transact_cases [of "claim_row sha n g" r])
      case (kept err)
      then show ?thesis using run by (auto simp: e Claim claim_reminder_def agreed_def idle)
    next
      case (changed s c)
      then have "r' = s" "b = c" using run by (auto simp: Claim claim_reminder_def agreed_def)
      then show ?thesis using claim_changes [OF changed(2)]
        by (auto simp: e Claim mail_def idle update_conv' split: if_splits)
    qed
  next
    case (Settle n s err)
    show ?thesis using run
      by (auto simp: e Settle took_def settle_reminder_def transact_def mail_def idle update_conv' split: if_splits option.splits)
  next
    case (Withdraw n)
    then show ?thesis using run
      by (cases "map_of (rg_reminders r) m")
        (auto simp: e cancel_pending_def mail_def map_of_rows cancel_status idle_move_def split: if_splits)
  next
    case (Signal g trigger)
    then show ?thesis using run
      by (auto simp: e agreed_def wake_signal_def transact_def raise_bind_def mail_def idle split: sum.splits if_splits)
  next
    case (RecordFault g source i status err)
    then show ?thesis using run
      by (auto simp: e agreed_def record_fault_def transact_def raise_bind_def Let_def mail_def idle split: sum.splits if_splits)
  next
    case (RecoverExecution g i faults)
    then show ?thesis using run
      by (auto simp: e agreed_def recover_execution_def transact_def raise_bind_def Let_def mail_def idle split: sum.splits if_splits)
  next
    case Reopen
    then show ?thesis using run
      by (cases "map_of (rg_reminders r) m")
        (auto simp: e recover_registry_def mail_def map_of_rows interrupt_row_def idle_move_def split: if_splits)
  qed
qed

text \<open>A reminder that was sent and did not come back as unavailable.\<close>

definition sent :: "registry \<Rightarrow> string \<Rightarrow> bool" where
  "sent r m \<longleftrightarrow> mail r m \<in> {Some Sending, Some Accepted, Some Unknown}"

definition finished_mail :: "registry \<Rightarrow> string \<Rightarrow> bool" where
  "finished_mail r m \<longleftrightarrow> mail r m \<in> {Some Accepted, Some Unknown, Some Cancelled}"

text \<open>The final outcomes a step recorded; each reminder gets one at most.\<close>

fun outcomes :: "goal_op \<times> bool \<Rightarrow> string list" where
  "outcomes (Settle m s _, b) = (if b \<and> s \<in> {Accepted, Unknown} then [m] else [])"
| "outcomes _ = []"

lemma outcomes_iff: "m \<in> set (outcomes e) \<longleftrightarrow> settles m e \<in> {Some Accepted, Some Unknown}"
  by (cases e rule: outcomes.cases) auto

lemma claims_settles: "claims m e \<Longrightarrow> settles m e = None"
  by (cases "(m, e)" rule: claims.cases) auto

lemma finished_kept:
  assumes "registry_step sha r e r'" and "finished_mail r m"
  shows "mail r' m = mail r m \<and> \<not> claims m e \<and> settles m e = None"
  using mail_step [OF assms(1), of m] assms(2)
  by (auto simp: finished_mail_def idle_move_def split: if_splits option.splits)

interpretation outbox: lease_machine "registry_step sha" "\<lambda>_. True" "\<lambda>_. 0" "\<lambda>_ _. False" outcomes finished_mail for sha
proof
  show "distinct (outcomes e)" for e by (cases e rule: outcomes.cases) auto
  show "\<not> finished_mail r m \<and> finished_mail r' m" if "registry_step sha r e r'" "m \<in> set (outcomes e)" for r e r' m
    using mail_step [OF that(1), of m] that(2) claims_settles [of m e]
    by (auto simp: outcomes_iff finished_mail_def split: if_splits option.splits)
  show "finished_mail r' m" if "registry_step sha r e r'" "finished_mail r m" for r e r' m
    using finished_kept [OF that] that(2) by (simp add: finished_mail_def)
qed simp_all

end
