(* ===== verification/Goal_Demo.thy ===== *)
theory Goal_Demo
  imports Goal_Runs
begin

text \<open>One short run of the registry, at which its properties are exercised.\<close>

definition demo_goal :: goal where
  "demo_goal = new_goal ''1'' ''Ship'' ''Ship it'' [''tests pass''] (VInt 0)"

definition demo_user :: op_context where
  "demo_user = \<lparr>ctx_user = True, ctx_origin = NativeCommand\<rparr>"

definition demo_digest :: sha where
  "demo_digest s = ''d''"

definition demo_doc :: pyval where
  "demo_doc = VDict ((''format'', VStr ''xdog.goal.v2'') # goal_fields demo_goal)"

definition demo_origin :: pyval where
  "demo_origin = projr (transition_data Create demo_user None demo_goal)"

definition demo_message :: kwargs where
  "demo_message = [(''id'', VStr ''m1'')]"

definition demo_create :: goal_op where
  "demo_create = CreateGoal (\<lambda>_. True) demo_user ''1'' ''Ship'' ''Ship it'' [''tests pass''] (VInt 0) (Inr ())"

definition demo_made :: registry where
  "demo_made = (new_registry (''o'', ''/w''))
     \<lparr>rg_goals := [(''goal-1'', \<lparr>gr_version = 1, gr_payload = demo_doc, gr_digest = ''d''\<rparr>)],
      rg_revisions := [((''goal-1'', 1), \<lparr>sv_payload = demo_doc, sv_digest = ''d''\<rparr>)],
      rg_current := Some ''goal-1'', rg_signals := [(1, ''goal-1'', ''goal-state:1'')],
      rg_transitions := [((''goal-1'', 1), \<lparr>sv_payload = demo_origin, sv_digest = ''d''\<rparr>)]\<rparr>"

definition demo_row :: reminder_row where
  "demo_row = \<lparr>rm_goal = ''goal-1'', rm_payload = VDict demo_message, rm_digest = ''d'', rm_status = Pending, rm_error = ''''\<rparr>"

definition demo_run :: "(goal_op \<times> bool) list" where
  "demo_run = [(demo_create, True), (Remind demo_goal demo_message, True), (Claim ''m1'' demo_goal, True)]"

lemma trace_two: "st s a s1 \<Longrightarrow> st s1 b s2 \<Longrightarrow> trace st s [a, b] s2"
  using trace_snoc [OF trace_one [of st s a s1], of b s2] by simp

lemma trace_three: "st s a s1 \<Longrightarrow> st s1 b s2 \<Longrightarrow> st s2 c s3 \<Longrightarrow> trace st s [a, b, c] s3"
  using trace_snoc [OF trace_two [of st s a s1 b s2], of c s3] by simp

lemma byte_length_le: "byte_length s \<le> 2 * length s"
  unfolding byte_length_def by (induction s) auto

lemma short_text: "strip s \<noteq> [] \<and> char_of (0 :: nat) \<notin> set s \<Longrightarrow> length s \<le> 500 \<Longrightarrow> 1000 \<le> n \<Longrightarrow> bounded_text e n s"
  using byte_length_le [of s] by (simp add: bounded_text_def)

lemma demo_texts:
  "1000 \<le> n \<Longrightarrow> bounded_text e n ''Ship''" "1000 \<le> n \<Longrightarrow> bounded_text e n ''Ship it''"
  "1000 \<le> n \<Longrightarrow> bounded_text e n ''tests pass''" "1000 \<le> n \<Longrightarrow> bounded_text e n ''later''"
  by (rule short_text; code_simp?; simp)+

lemma demo_identity: "is_identity ''goal-1''"
proof -
  have "is_alnum CHR ''g''" "\<forall>d \<in> set ''oal-1''. is_alnum d \<or> d = CHR ''_'' \<or> d = CHR ''-''" by code_simp+
  then show ?thesis by (simp add: is_identity_def)
qed

lemma demo_times: "time_check (VInt 0) = Inr (VInt 0)"
  by code_simp

lemma demo_made_goal: "post_init demo_goal = Inr demo_goal"
  by (simp add: post_init_def demo_goal_def new_goal_def is_revision_def question_texts_def demo_texts demo_times demo_identity)

lemma demo_encode: "encode_goal demo_goal = Inr demo_doc"
proof -
  have "length (json_text demo_doc) = 271" by code_simp
  moreover have "\<not> has_nan demo_doc" by code_simp
  ultimately show ?thesis unfolding encode_goal_def json_check_def json_size_def demo_doc_def by simp
qed

lemma demo_transition: "transition_data Create demo_user None demo_goal = Inr demo_origin" "json_check demo_origin = Inr demo_origin"
proof -
  show "transition_data Create demo_user None demo_goal = Inr demo_origin" by code_simp
  have "length (json_text demo_origin) \<le> 1000" by code_simp
  moreover have "\<not> has_nan demo_origin" by code_simp
  ultimately show "json_check demo_origin = Inr demo_origin" by (simp add: json_check_def json_size_def)
qed

lemma demo_message_json: "json_check (VDict demo_message) = Inr (VDict demo_message)"
proof -
  have "length (json_text (VDict demo_message)) \<le> 1000" by code_simp
  moreover have "\<not> has_nan (VDict demo_message)" by code_simp
  ultimately show ?thesis by (simp add: json_check_def json_size_def)
qed

lemma demo_fields: "go_id demo_goal = ''goal-1''" "go_version demo_goal = 1" "go_status demo_goal = Active" "go_wait demo_goal = NoWait"
  by (simp_all add: demo_goal_def new_goal_def)

lemma demo_created: "run_op demo_digest demo_create (new_registry (''o'', ''/w'')) = (demo_made, True)"
proof -
  let ?r = "new_registry (''o'', ''/w'')"
  have t: "state_trigger 1 = ''goal-state:1''" by code_simp
  have "admit_create demo_digest (\<lambda>_. True) demo_user demo_goal (Inr ()) ?r = Inr demo_goal"
    by (simp add: admit_create_def current_checked_def current_goal_def current_row_def new_registry_def demo_made_goal checked_io_def
        require_user_def demo_user_def)
  moreover have "put_goal demo_digest demo_goal 0 False True (Some Create) demo_user ?r = (demo_made, Inr demo_goal)"
    using demo_transition
    by (simp add: put_goal_def demo_fields demo_encode transact_def write_revision_def admit_revision_def add_transition_def
        new_registry_def digest_def demo_digest_def demo_made_def add_signal_def next_sequence_def remindable_def Let_def t)
  ultimately show ?thesis
    by (simp add: demo_create_def create_goal_def took_def flip: demo_goal_def)
qed

lemma demo_live: "row_goal demo_digest ''goal-1'' \<lparr>gr_version = 1, gr_payload = demo_doc, gr_digest = ''d''\<rparr> = Inr demo_goal"
  using goal_roundtrip [OF demo_made_goal demo_encode] by (simp add: row_goal_def demo_fields digest_def demo_digest_def)

lemma demo_trace: "trace (registry_step demo_digest) (new_registry (''o'', ''/w'')) demo_run
    (demo_made\<lparr>rg_reminders := [(''m1'', demo_row\<lparr>rm_status := Sending\<rparr>)]\<rparr>)"
proof -
  have eq: "goal_eq demo_goal demo_goal" by (simp add: goal_eq_def demo_goal_def new_goal_def)
  have rows: "map_of (rg_goals demo_made) ''goal-1'' = Some \<lparr>gr_version = 1, gr_payload = demo_doc, gr_digest = ''d''\<rparr>"
    "rg_current demo_made = Some ''goal-1''" "rg_reminders demo_made = []" by (simp_all add: demo_made_def new_registry_def)
  have live: "remindable demo_goal" by (simp add: remindable_def demo_fields)
  have "run_op demo_digest (Remind demo_goal demo_message) demo_made = (demo_made\<lparr>rg_reminders := [(''m1'', demo_row)]\<rparr>, True)"
    using rows eq live demo_live
    by (simp add: add_reminder_def demo_message_json [unfolded demo_message_def] transact_def write_reminder_def demo_fields message_id_def demo_message_def
        took_def demo_row_def digest_def demo_digest_def Let_def)
  moreover have "run_op demo_digest (Claim ''m1'' demo_goal) (demo_made\<lparr>rg_reminders := [(''m1'', demo_row)]\<rparr>) =
      (demo_made\<lparr>rg_reminders := [(''m1'', demo_row\<lparr>rm_status := Sending\<rparr>)]\<rparr>, True)"
    using rows eq live demo_live
    by (simp add: claim_reminder_def transact_def claim_row_def demo_fields agreed_def demo_row_def dict_get_def demo_message_def
        provenance_fits_def digest_def demo_digest_def)
  ultimately show ?thesis
    unfolding demo_run_def using demo_created by (intro trace_three) (simp_all add: registry_step_def)
qed

text \<open>The agent pauses the goal.\<close>

definition demo_agent :: op_context where
  "demo_agent = \<lparr>ctx_user = False, ctx_origin = ModelTool\<rparr>"

definition pause_call :: goal_op where
  "pause_call = ChangeGoal (\<lambda>_. True) ''pause'' '''' demo_agent VNone [(''reason'', VStr ''later'')] (VInt 0)"

definition held_demo :: goal where
  "held_demo = demo_goal\<lparr>go_status := Halted, go_version := 2, go_reason := ''later'', go_updated := VInt 0\<rparr>"

lemma pause_call_fields:
  "change_fields ''pause'' [(''reason'', VStr ''later'')] demo_goal = Inr (lifecycle_fields Pause [(''reason'', VStr ''later'')] demo_goal)"
  by code_simp

lemma demo_revised: "revised_goal demo_goal (VInt 0) (lifecycle_fields Pause [(''reason'', VStr ''later'')] demo_goal) = Inr held_demo"
proof -
  have "VStr ''paused'' = VStr (status_name Halted)" "VStr '''' = VStr (wait_name NoWait)" by code_simp+
  then have m: "member_check GOAL_STATES (VStr ''paused'') = Inr Halted" "member_check WAITS (VStr '''') = Inr NoWait" by (simp_all only: member_names)
  show ?thesis
    using m
    by (simp add: revised_goal_def replace_goal_def Let_def lifecycle_fields_def QUESTION_FIELDS_def given_def field_of_def goal_fields_def
        demo_goal_def new_goal_def strings_check_def text_check_def goal_of_def identity_check_def number_check_def target_def status_name_def
        post_init_def is_revision_def question_texts_def held_demo_def demo_texts demo_times demo_identity)
qed

lemma held_demo_step: "\<exists>r. registry_step demo_digest demo_made (pause_call, True) r \<and>
    life_of demo_digest r = Some (Halted, NoWait)"
proof -
  have rows: "map_of (rg_goals demo_made) ''goal-1'' = Some \<lparr>gr_version = 1, gr_payload = demo_doc, gr_digest = ''d''\<rparr>"
    "rg_current demo_made = Some ''goal-1''" "fst ` set (rg_revisions demo_made) = {(''goal-1'', 1)}"
    "fst ` set (rg_transitions demo_made) = {(''goal-1'', 1)}" by (simp_all add: demo_made_def new_registry_def)
  have f: "go_id held_demo = ''goal-1''" "go_version held_demo = 2" "go_status held_demo = Halted" "go_wait held_demo = NoWait"
    by (simp_all add: held_demo_def demo_fields)
  have sel: "selected_goal demo_digest (\<lambda>_. True) '''' demo_made = Inr demo_goal"
    using rows demo_live by (simp add: selected_goal_def current_checked_def current_goal_def current_row_def)
  have go: "admit_change ''pause'' VNone [(''reason'', VStr ''later'')] demo_agent demo_goal = Inr True" by code_simp
  define doc where "doc = projr (encode_goal held_demo)"
  have "length (json_text (VDict ((''format'', VStr ''xdog.goal.v2'') # goal_fields held_demo))) \<le> 1000"
    "\<not> has_nan (VDict ((''format'', VStr ''xdog.goal.v2'') # goal_fields held_demo))" by code_simp+
  then have enc: "encode_goal held_demo = Inr doc" by (simp add: doc_def encode_goal_def json_check_def json_size_def)
  define t where "t = projr (transition_data Pause demo_agent (Some demo_goal) held_demo)"
  have tr: "transition_data Pause demo_agent (Some demo_goal) held_demo = Inr t" unfolding t_def by code_simp
  have "length (json_text t) \<le> 1000" "\<not> has_nan t" unfolding t_def by code_simp+
  then have tj: "json_check t = Inr t" by (simp add: json_check_def json_size_def)
  have act: "map_of CHANGE_ACTIONS ''pause'' = Some Pause" "same_question ''pause'' [(''reason'', VStr ''later'')] demo_goal = False" by code_simp+
  let ?put = "put_goal demo_digest held_demo 1 False True (Some Pause) demo_agent demo_made"
  have "\<exists>r. ?put = (r, Inr held_demo)"
    using rows demo_live enc tr tj
    by (simp add: put_goal_def f demo_fields transact_def write_revision_def admit_revision_def add_transition_def Let_def)
  then obtain r where r: "?put = (r, Inr held_demo)" by blast
  have "change_goal demo_digest (\<lambda>_. True) ''pause'' '''' demo_agent VNone [(''reason'', VStr ''later'')] (VInt 0) demo_made = (r, Inr held_demo)"
    using sel go act r by (simp add: change_goal_def pause_call_fields demo_revised demo_fields)
  then have "run_op demo_digest pause_call demo_made = (r, True)" by (simp add: pause_call_def took_def)
  then have "registry_step demo_digest demo_made (pause_call, True) r" by (simp add: registry_step_def)
  moreover from revised_made [OF demo_revised] have "life_of demo_digest r = Some (Halted, NoWait)"
  proof (cases rule: put_cases [of held_demo demo_digest 1 False True "Some Pause" demo_agent demo_made])
    case (wrote r')
    then show ?thesis using r life_written [OF wrote(2)] f by simp
  qed (use r in simp)
  ultimately show ?thesis by blast
qed

end
