(* ===== verification/Goal_Props.thy ===== *)
theory Goal_Props
  imports Goal_Demo
begin

text \<open>
  What every run of the goal registry keeps: the file it leaves is one that opening accepts, the
  current goal follows its lifecycle under the authority of the calls, and every send of a
  reminder is accounted for.
\<close>

text \<open>C9. Whatever calls the service and the runtime make, in any order and with the process dying between
  any two of them, the registry file they leave is one that opening accepts, and opening it
  settles the interrupted sends as unknown and changes nothing else.\<close>

theorem registry_reopens:
  assumes "trace (registry_step sha) (new_registry owner) es r"
  shows "open_registry sha owner r = Inr (recover_registry r)"
proof -
  have "registry_ok sha r" using assms by (rule run_ok_registry)
  moreover have "rg_owner r = owner"
    using assms
  proof (rule trace_keeps)
    show "rg_owner (new_registry owner) = owner" by (simp add: new_registry_def)
    show "rg_owner r' = owner" if "registry_step sha r e r'" "rg_owner r = owner" for r e r'
      using that owner_kept [of sha "fst e" r] by (simp add: registry_step_def)
  qed
  ultimately show ?thesis using ok_validates [of sha r] by (simp add: open_registry_def)
qed

lemma registry_reopens_witness:
  "open_registry demo_digest (''o'', ''/w'') (demo_made\<lparr>rg_reminders := [(''m1'', demo_row\<lparr>rm_status := Sending\<rparr>)]\<rparr>) =
    Inr (demo_made\<lparr>rg_reminders := [(''m1'', demo_row\<lparr>rm_status := Unknown, rm_error := ''Interrupted delivery; inspect receipt''\<rparr>)]\<rparr>)"
  using registry_reopens [OF demo_trace] by (simp add: recover_registry_def interrupt_row_def)

text \<open>C10. The lifecycle of the current goal refines the abstract automaton, call by call: it starts without a
  goal; whatever any call does, it leaves the goal where the automaton has it or takes the
  automaton's step of that call with the call's own authority; and a lifecycle call that answers
  has taken its step, but for a repeated activation and a repeated question, which change
  nothing. So a goal is created, resumed and cleared only by the user, and one the user paused, or
  that waits for the user, moves only with the user's authority.\<close>

theorem goal_lifecycle_refined:
  assumes "registry_step sha r (op, b) r'"
  shows "life_of sha (new_registry owner) = None \<and>
    (life_of sha r' = life_of sha r \<or> (\<exists>a. op_action op = Some a \<and> life_step (op_user op) (life_of sha r) a (life_of sha r'))) \<and>
    (\<forall>a. op_action op = Some a \<and> b \<longrightarrow> life_step (op_user op) (life_of sha r) a (life_of sha r') \<or>
      r' = r \<and> (a, life_of sha r) \<in> {(Activate, Some (Active, NoWait)), (Await, Some (Waiting, ForUser))})"
proof (intro conjI allI impI)
  have run: "run_op sha op r = (r', b)" using assms by (simp add: registry_step_def)
  show "life_of sha (new_registry owner) = None" by (simp add: life_of_def current_goal_def current_row_def new_registry_def)
  show "life_of sha r' = life_of sha r \<or> (\<exists>a. op_action op = Some a \<and> life_step (op_user op) (life_of sha r) a (life_of sha r'))"
    using life_of_op [of sha op r] run by simp
  show "life_step (op_user op) (life_of sha r) a (life_of sha r') \<or>
      r' = r \<and> (a, life_of sha r) \<in> {(Activate, Some (Active, NoWait)), (Await, Some (Waiting, ForUser))}"
    if "op_action op = Some a \<and> b" for a
    using life_of_answer run that by simp
qed

lemma goal_lifecycle_refined_witness:
  "\<exists>r. registry_step demo_digest demo_made (pause_call, True) r \<and> life_step False (Some (Active, NoWait)) Pause (life_of demo_digest r)"
proof -
  obtain r where step: "registry_step demo_digest demo_made (pause_call, True) r" using held_demo_step by blast
  have "op_action pause_call = Some Pause" "\<not> op_user pause_call"
    by (simp_all add: pause_call_def demo_agent_def CHANGE_ACTIONS_def action_name_def)
  moreover have "life_of demo_digest demo_made = Some (Active, NoWait)"
    using demo_live by (simp add: life_of_def current_goal_def current_row_def demo_made_def new_registry_def demo_fields)
  ultimately show ?thesis using goal_lifecycle_refined [OF step] step by auto
qed

text \<open>C12. A goal the user paused, or that waits for the user, is held: whatever is called without the user's
  authority, in any order and with the process dying in between, it stays the current goal and
  every field of it stays, except that each plan written for a goal waiting for the user counts
  its revision up by one and sets its time. A goal the user paused is not planned either, so
  nothing of it changes.\<close>

theorem held_goal_needs_user:
  assumes "trace (registry_step sha) r es r'" and "current_goal sha r = Inr (Some g)" and "held (go_status g, go_wait g)"
    and "\<forall>(op, b) \<in> set es. \<not> op_user op"
  shows "\<exists>g'. current_goal sha r' = Inr (Some g') \<and> rewritten g (length (filter (\<lambda>(op, b). is_plan op \<and> b) es)) g' \<and>
    (go_status g = Halted \<longrightarrow> g' = g)"
proof -
  have "\<exists>g'. current_goal sha r' = Inr (Some g') \<and> rewritten g (length (filter (\<lambda>(op, b). is_plan op \<and> b) es)) g' \<and>
      (go_status g = Halted \<longrightarrow> filter (\<lambda>(op, b). is_plan op \<and> b) es = [])"
    using assms
  proof (induction rule: trace.induct)
    case trace_nil
    then show ?case by (simp add: rewritten_def)
  next
    case (trace_snoc es s e s')
    obtain op b where e: "e = (op, b)" by (cases e)
    obtain h where h: "current_goal sha s = Inr (Some h)" "rewritten g (length (filter (\<lambda>(op, b). is_plan op \<and> b) es)) h"
        "go_status g = Halted \<longrightarrow> filter (\<lambda>(op, b). is_plan op \<and> b) es = []" using trace_snoc by auto
    note same = rewritten_held [OF h(2)]
    have "held (go_status h, go_wait h)" "\<not> op_user op" using same trace_snoc.prems e by simp_all
    then obtain g' where g': "current_goal sha s' = Inr (Some g')" "rewritten h (if is_plan op \<and> b then 1 else 0) g'"
        "is_plan op \<and> b \<longrightarrow> go_status h = Waiting"
      using held_step [OF trace_snoc.hyps(2) [unfolded e] h(1)] by blast
    have "rewritten g (length (filter (\<lambda>(op, b). is_plan op \<and> b) (es @ [e]))) g'"
      using rewritten_trans [OF h(2) g'(2)] by (auto simp: e)
    then show ?case using g' h(3) same e by auto
  qed
  then show ?thesis by (auto simp: rewritten_def)
qed

lemma held_goal_needs_user_witness:
  "\<exists>r g. go_status g = Halted \<and> current_goal demo_digest r = Inr (Some g) \<and>
    current_goal demo_digest (fst (change_goal demo_digest (\<lambda>_. True) ''resume'' '''' demo_agent VNone [] (VInt 0) r)) = Inr (Some g)"
proof -
  obtain r where l: "life_of demo_digest r = Some (Halted, NoWait)" using held_demo_step by blast
  then obtain g where g: "current_goal demo_digest r = Inr (Some g)" "go_status g = Halted" "go_wait g = NoWait"
    by (auto simp: life_of_def split: sum.splits option.splits)
  define op where "op = ChangeGoal (\<lambda>_. True) ''resume'' '''' demo_agent VNone [] (VInt 0)"
  have "trace (registry_step demo_digest) r [(op, snd (run_op demo_digest op r))] (fst (run_op demo_digest op r))"
    by (rule trace_one) (simp add: registry_step_def)
  moreover have "held (go_status g, go_wait g)" using g(2) by (simp add: held_def)
  moreover have "\<not> op_user op" by (simp add: op_def demo_agent_def)
  ultimately have "current_goal demo_digest (fst (run_op demo_digest op r)) = Inr (Some g)"
    using held_goal_needs_user [of demo_digest r "[(op, snd (run_op demo_digest op r))]" _ g] g(1,2) by auto
  then show ?thesis using g by (auto simp: op_def)
qed

text \<open>C11. Every admission to the host is accounted for: over any run, crashes included, a reminder was claimed
  exactly once more often than the host answered that it is unavailable if it is being sent, was
  accepted or has an unknown outcome, and as often otherwise. So one that the host did not send
  back is sent at most once.\<close>

theorem reminder_sends_accounted:
  assumes "trace (registry_step sha) (new_registry owner) es r"
  shows "length (filter (claims m) es) =
    length (filter (\<lambda>e. settles m e = Some Unavailable) es) + (if sent r m then 1 else 0)"
  using assms
proof (induction rule: trace.induct)
  case trace_nil
  show ?case by (simp add: sent_def mail_def new_registry_def)
next
  case (trace_snoc es s e s')
  have "claims m e \<Longrightarrow> settles m e = None" by (cases "(m, e)" rule: claims.cases) auto
  then show ?case
    using trace_snoc.IH mail_step [OF trace_snoc.hyps(2), of m]
    by (auto simp: sent_def idle_move_def split: if_splits option.splits)
qed

lemma reminder_sends_accounted_witness:
  "length (filter (claims ''m1'') demo_run) = 1"
proof -
  have "filter (\<lambda>e. settles ''m1'' e = Some Unavailable) demo_run = []" by (simp add: demo_run_def demo_create_def)
  moreover have "sent (demo_made\<lparr>rg_reminders := [(''m1'', demo_row\<lparr>rm_status := Sending\<rparr>)]\<rparr>) ''m1''"
    by (simp add: sent_def mail_def)
  ultimately show ?thesis using reminder_sends_accounted [OF demo_trace, of "''m1''"] by simp
qed

text \<open>C13. An outcome is final and given once: over any run no reminder is settled twice as accepted or unknown,
  and one that was accepted, cancelled or whose outcome is unknown keeps that status and is never
  claimed or settled again.\<close>

theorem reminder_outcome_once:
  assumes "trace (registry_step sha) r es r'"
  shows "distinct (concat (map outcomes es)) \<and>
    (\<forall>m. finished_mail r m \<longrightarrow> mail r' m = mail r m \<and> (\<forall>e \<in> set es. \<not> claims m e \<and> settles m e = None))"
proof -
  have "mail r' m = mail r m \<and> (\<forall>e \<in> set es. \<not> claims m e \<and> settles m e = None)" if "finished_mail r m" for m
    using assms that
  proof (induction rule: trace.induct)
    case (trace_snoc es s e s')
    then have "finished_mail s m" by (simp add: finished_mail_def)
    then show ?case using trace_snoc finished_kept [OF trace_snoc.hyps(2)] by auto
  qed simp
  then show ?thesis using outbox.granted_once [OF assms] by simp
qed

lemma reminder_outcome_once_witness:
  "mail (cancel_pending ''m1'' (demo_made\<lparr>rg_reminders := [(''m1'', demo_row\<lparr>rm_status := Accepted\<rparr>)]\<rparr>)) ''m1'' = Some Accepted"
proof -
  let ?r = "demo_made\<lparr>rg_reminders := [(''m1'', demo_row\<lparr>rm_status := Accepted\<rparr>)]\<rparr>"
  have "trace (registry_step demo_digest) ?r [(Withdraw ''m1'', True)] (cancel_pending ''m1'' ?r)"
    by (rule trace_one) (simp add: registry_step_def)
  moreover have "mail ?r ''m1'' = Some Accepted" by (simp add: mail_def)
  ultimately show ?thesis using reminder_outcome_once by (fastforce simp: finished_mail_def)
qed

end
