(* ===== verification/Input_Model.thy ===== *)
theory Input_Model
  imports Goal_Model
begin

text \<open>
  The immutable input of the claw application: \<open>agent/session_input.py\<close> and
  \<open>claw/core/inputs/models.py\<close>, with the image check of \<open>ai/utils/image_files.py\<close>. An
  \<open>InputEnvelope\<close> severs every reference to the caller's JSON by writing it and reading it back,
  so it keeps documents with sorted keys (\<open>json_sorted\<close>); a text is kept as the document it stands
  for, as in \<open>Goal_Model\<close>, and a document with a repeated key stands for a text with one.
\<close>

section \<open>Documents\<close>

text \<open>\<open>json.loads(json.dumps(v, sort_keys=True))\<close>.\<close>

fun json_sorted :: "pyval \<Rightarrow> pyval" where
  "json_sorted (VList xs) = VList (map json_sorted xs)"
| "json_sorted (VDict d) = VDict (sort_key fst (map (\<lambda>kv. (fst kv, json_sorted (snd kv))) d))"
| "json_sorted v = v"

text \<open>\<open>_json\<close> of \<open>session_input.py\<close> and \<open>_context\<close> of \<open>models.py\<close>.\<close>

fun finite_json :: "int \<Rightarrow> pyval \<Rightarrow> bool" where
  "finite_json depth (VFloat f) = (depth \<le> 32 \<and> (case f of PFin r \<Rightarrow> True | _ \<Rightarrow> False))"
| "finite_json depth (VList xs) = (depth \<le> 32 \<and> (\<forall>x \<in> set xs. finite_json (depth + 1) x))"
| "finite_json depth (VDict d) = (depth \<le> 32 \<and> (\<forall>kv \<in> set d. finite_json (depth + 1) (snd kv)))"
| "finite_json depth v = (depth \<le> 32)"

text \<open>What \<open>object_pairs_hook=_unique\<close> accepts.\<close>

fun unique_fields :: "pyval \<Rightarrow> bool" where
  "unique_fields (VList xs) = (\<forall>x \<in> set xs. unique_fields x)"
| "unique_fields (VDict d) = (distinct (map fst d) \<and> (\<forall>kv \<in> set d. unique_fields (snd kv)))"
| "unique_fields v = True"

definition object_check :: "string list \<Rightarrow> pyval \<Rightarrow> goal_exc + (string \<times> pyval) list" where
  "object_check names v =
     (case v of VDict d \<Rightarrow> if set (map fst d) = set names then Inr d else Inl BadValue | _ \<Rightarrow> Inl BadValue)"

abbreviation text_field :: "(string \<times> pyval) list \<Rightarrow> string \<Rightarrow> nat \<Rightarrow> goal_exc + string" where
  "text_field d k maximum \<equiv> text_check False maximum (field_of d k)"

section \<open>Paths\<close>

text \<open>\<open>pathlib.Path\<close> of a text, on POSIX: empty and single-dot components are dropped.\<close>

record posix_path =
  pp_root :: string
  pp_parts :: "string list"

fun split_slash :: "string \<Rightarrow> string \<Rightarrow> string list" where
  "split_slash acc [] = [rev acc]"
| "split_slash acc (c # cs) = (if c = CHR ''/'' then rev acc # split_slash [] cs else split_slash (c # acc) cs)"

definition path_root :: "string \<Rightarrow> string" where
  "path_root s =
     (if starts_with ''//'' s \<and> \<not> starts_with ''///'' s then ''//'' else if starts_with ''/'' s then ''/'' else '''')"

definition path_of :: "string \<Rightarrow> posix_path" where
  "path_of s = \<lparr>pp_root = path_root s, pp_parts = filter (\<lambda>p. p \<noteq> '''' \<and> p \<noteq> ''.'') (split_slash [] s)\<rparr>"

definition path_str :: "posix_path \<Rightarrow> string" where
  "path_str p = (if pp_root p = '''' \<and> pp_parts p = [] then ''.'' else pp_root p @ join ''/'' (pp_parts p))"

section \<open>Session inputs\<close>

datatype input_origin = HumanInput | AcpInput | AutomaticInput

definition input_origin_name :: "input_origin \<Rightarrow> string" where
  "input_origin_name r = (case r of HumanInput \<Rightarrow> ''human'' | AcpInput \<Rightarrow> ''acp'' | AutomaticInput \<Rightarrow> ''automatic'')"

definition INPUT_ORIGINS :: "(string \<times> input_origin) list" where
  "INPUT_ORIGINS = map (\<lambda>r. (input_origin_name r, r)) [HumanInput, AcpInput, AutomaticInput]"

record session_input =
  si_id :: string
  si_origin :: input_origin
  si_source :: string
  si_instruction :: string
  si_evidence :: "pyval list"
  si_provenance :: "(string \<times> pyval) list"

definition MAX_INPUT_BYTES :: nat where
  "MAX_INPUT_BYTES = 1048576"

definition MAX_TRANSPORT_OVERHEAD :: nat where
  "MAX_TRANSPORT_OVERHEAD = 2048"

definition link_label :: "string \<times> pyval \<Rightarrow> bool" where
  "link_label kv = (case snd kv of VStr s \<Rightarrow> bounded_text (fst kv = ''branch_id'') 256 s | _ \<Rightarrow> False)"

definition submitted_payload :: "pyval \<Rightarrow> pyval option" where
  "submitted_payload v =
     (case v of
        VDict d \<Rightarrow>
          (if map_of d ''origin'' \<noteq> Some (VStr ''acp'') then None
           else (case map_of d ''provenance'' of
               Some (VDict p) \<Rightarrow>
                 (if set (map fst p) \<noteq> {''inbox'', ''submitted''} then None
                  else (case (map_of p ''inbox'', map_of p ''submitted'') of
                      (Some (VDict link), Some (VDict submitted)) \<Rightarrow>
                        (if set (map fst link) \<noteq> {''message_id'', ''attempt_id'', ''branch_id''} \<or> \<not> list_all link_label link then None
                         else Some (VDict (AList.update ''provenance'' (VDict submitted)
                                             (AList.update ''id'' (field_of link ''message_id'') d))))
                    | _ \<Rightarrow> None))
             | _ \<Rightarrow> None))
      | _ \<Rightarrow> None)"

definition INPUT_FIELDS :: "string list" where
  "INPUT_FIELDS = [''id'', ''origin'', ''source'', ''instruction'', ''evidence'', ''provenance'']"

definition origin_of :: "pyval \<Rightarrow> goal_exc + input_origin" where
  "origin_of v =
     (case v of VStr s \<Rightarrow> (case map_of INPUT_ORIGINS s of None \<Rightarrow> Inl BadValue | Some r \<Rightarrow> Inr r) | _ \<Rightarrow> Inl BadValue)"

definition instruction_check :: "pyval \<Rightarrow> goal_exc + string" where
  "instruction_check v =
     (case v of VStr s \<Rightarrow> if strip s = [] \<or> char_of (0 :: nat) \<in> set s then Inl BadValue else Inr s | _ \<Rightarrow> Inl BadValue)"

definition list_check :: "pyval \<Rightarrow> goal_exc + pyval list" where
  "list_check v = (case v of VList xs \<Rightarrow> Inr xs | _ \<Rightarrow> Inl BadValue)"

definition dict_check :: "pyval \<Rightarrow> goal_exc + (string \<times> pyval) list" where
  "dict_check v = (case v of VDict d \<Rightarrow> Inr d | _ \<Rightarrow> Inl BadValue)"

definition input_of :: "(string \<times> pyval) list \<Rightarrow> goal_exc + session_input" where
  "input_of d =
     raise_bind (text_field d ''id'' 256) (\<lambda>i.
     raise_bind (text_field d ''source'' 256) (\<lambda>source.
     raise_bind (instruction_check (field_of d ''instruction'')) (\<lambda>instruction.
     raise_bind (origin_of (field_of d ''origin'')) (\<lambda>origin.
     raise_bind (list_check (field_of d ''evidence'')) (\<lambda>xs.
     raise_bind (dict_check (field_of d ''provenance'')) (\<lambda>p.
       Inr \<lparr>si_id = i, si_origin = origin, si_source = source, si_instruction = instruction, si_evidence = xs,
            si_provenance = p\<rparr>))))))"

definition decode_input :: "bool \<Rightarrow> pyval \<Rightarrow> goal_exc + session_input" where
  "decode_input transport v =
     (let submitted = (if transport then submitted_payload v else None)
      in if \<not> finite_json (if submitted = None then 0 else - 1) v
            \<or> (case submitted of None \<Rightarrow> False
               | Some w \<Rightarrow> \<not> finite_json 0 w \<or> MAX_INPUT_BYTES < length (json_text w)) then Inl BadValue
         else raise_bind (object_check INPUT_FIELDS v) (\<lambda>d. raise_bind (input_of d) (\<lambda>m.
           if MAX_INPUT_BYTES + (if submitted = None then 0 else MAX_TRANSPORT_OVERHEAD) < length (json_text v)
           then Inl BadValue else Inr m)))"

definition input_doc :: "session_input \<Rightarrow> pyval" where
  "input_doc m = VDict
     [(''id'', VStr (si_id m)), (''origin'', VStr (input_origin_name (si_origin m))), (''source'', VStr (si_source m)),
      (''instruction'', VStr (si_instruction m)), (''evidence'', VList (si_evidence m)), (''provenance'', VDict (si_provenance m))]"

text \<open>\<open>input_data\<close>: the checked data of a message.\<close>

definition input_data :: "session_input \<Rightarrow> goal_exc + pyval" where
  "input_data m = raise_bind (decode_input True (input_doc m)) (\<lambda>c. Inr (input_doc c))"

section \<open>Images\<close>

text \<open>Bytes are characters. \<open>b64_value\<close> is the base64 alphabet.\<close>

definition b64_value :: "char \<Rightarrow> nat option" where
  "b64_value c =
     (let n = (of_char c :: nat)
      in if 65 \<le> n \<and> n \<le> 90 then Some (n - 65) else if 97 \<le> n \<and> n \<le> 122 then Some (n - 71)
         else if 48 \<le> n \<and> n \<le> 57 then Some (n + 4) else if n = 43 then Some 62 else if n = 47 then Some 63 else None)"

definition b64_triple :: "nat \<Rightarrow> nat \<Rightarrow> nat \<Rightarrow> nat \<Rightarrow> string" where
  "b64_triple a b c d =
     map char_of [a * 4 + b div 16, (b mod 16) * 16 + c div 4, (c mod 4) * 64 + d]"

text \<open>\<open>base64.b64decode(s, validate=True)\<close>: whole quads of the alphabet, only the last one padded.\<close>

fun b64_decode :: "string \<Rightarrow> string option" where
  "b64_decode [] = Some []"
| "b64_decode (a # b # c # d # s) =
     (case (b64_value a, b64_value b) of
        (Some a', Some b') \<Rightarrow>
          (if s = [] \<and> d = CHR ''='' then
             (if c = CHR ''='' then Some (take 1 (b64_triple a' b' 0 0))
              else (case b64_value c of None \<Rightarrow> None | Some c' \<Rightarrow> Some (take 2 (b64_triple a' b' c' 0))))
           else (case (b64_value c, b64_value d, b64_decode s) of
               (Some c', Some d', Some bs) \<Rightarrow> Some (b64_triple a' b' c' d' @ bs)
             | _ \<Rightarrow> None))
      | _ \<Rightarrow> None)"
| "b64_decode _ = None"

definition bytes :: "nat list \<Rightarrow> string" where
  "bytes ns = map char_of ns"

definition image_mime_type :: "string \<Rightarrow> string option" where
  "image_mime_type data =
     (if starts_with (bytes [137, 80, 78, 71, 13, 10, 26, 10]) data then Some ''image/png''
      else if starts_with (bytes [255, 216, 255]) data then Some ''image/jpeg''
      else if starts_with ''RIFF'' data \<and> take 4 (drop 8 data) = ''WEBP'' then Some ''image/webp''
      else None)"

definition MAX_REFERENCE_BYTES :: nat where
  "MAX_REFERENCE_BYTES = 10485760"

definition decode_image :: "nat \<Rightarrow> string \<Rightarrow> string \<Rightarrow> goal_exc + string" where
  "decode_image maximum data mime =
     (if (maximum + 2) div 3 * 4 < length data then Inl BadValue
      else (case b64_decode data of
          None \<Rightarrow> Inl BadValue
        | Some decoded \<Rightarrow>
            if maximum < length decoded \<or> image_mime_type decoded \<noteq> Some mime then Inl BadValue else Inr decoded))"

section \<open>Envelopes\<close>

record input_scope =
  sc_group :: string
  sc_workspace :: posix_path

definition make_scope :: "string \<Rightarrow> posix_path \<Rightarrow> goal_exc + input_scope" where
  "make_scope grp w =
     (if \<not> bounded_text False 256 grp \<or> \<not> bounded_text False 4096 (path_str w) \<or> pp_root w = '''' \<or> ''..'' \<in> set (pp_parts w)
      then Inl BadValue else Inr \<lparr>sc_group = grp, sc_workspace = w\<rparr>)"

record reply_target =
  rt_channel :: string
  rt_recipient :: string

definition make_reply :: "string \<Rightarrow> string \<Rightarrow> goal_exc + reply_target" where
  "make_reply channel recipient =
     (if \<not> bounded_text False 256 channel \<or> \<not> bounded_text False 1024 recipient then Inl BadValue
      else Inr \<lparr>rt_channel = channel, rt_recipient = recipient\<rparr>)"

record envelope =
  ev_scope :: input_scope
  ev_message :: pyval
  ev_context :: pyval
  ev_reply :: "reply_target option"
  ev_images :: "(string \<times> string) list"
  ev_human :: bool
  ev_key :: string

definition MAX_METADATA_BYTES :: nat where
  "MAX_METADATA_BYTES = 65536"

definition MAX_ENVELOPE_BYTES :: nat where
  "MAX_ENVELOPE_BYTES = MAX_INPUT_BYTES + MAX_METADATA_BYTES + 4 * ((MAX_REFERENCE_BYTES + 2) div 3 * 4)"

definition context_check :: "pyval \<Rightarrow> goal_exc + pyval" where
  "context_check v =
     (case v of
        VNone \<Rightarrow> Inr (VDict [])
      | VDict d \<Rightarrow> if finite_json 0 v \<and> length (json_text v) \<le> MAX_METADATA_BYTES then Inr (json_sorted v) else Inl BadValue
      | _ \<Rightarrow> Inl BadValue)"

definition image_check :: "pyval \<times> pyval \<Rightarrow> goal_exc + string \<times> string" where
  "image_check im =
     (case im of
        (VStr data, VStr mime) \<Rightarrow> raise_bind (decode_image MAX_REFERENCE_BYTES data mime) (\<lambda>_. Inr (data, mime))
      | _ \<Rightarrow> Inl BadValue)"

definition human_check :: "session_input \<Rightarrow> pyval \<Rightarrow> goal_exc + bool" where
  "human_check m v = (case v of VBool b \<Rightarrow> if b \<and> si_origin m \<noteq> HumanInput then Inl BadValue else Inr b | _ \<Rightarrow> Inl BadValue)"

text \<open>\<open>InputEnvelope(...)\<close>; the last four arguments may come from a document and are not typed yet.\<close>

definition make_envelope ::
  "input_scope \<Rightarrow> session_input \<Rightarrow> reply_target option \<Rightarrow> (pyval \<times> pyval) list \<Rightarrow> pyval \<Rightarrow> pyval \<Rightarrow> pyval \<Rightarrow> goal_exc + envelope" where
  "make_envelope sc m reply images human key context =
     raise_bind (human_check m human) (\<lambda>human.
     raise_bind (text_check True 256 key) (\<lambda>key.
     raise_bind (context_check context) (\<lambda>context.
     if 4 < length images then Inl BadValue
     else raise_bind (raise_map image_check images) (\<lambda>images.
     raise_bind (decode_input False (input_doc m)) (\<lambda>checked.
       Inr \<lparr>ev_scope = sc, ev_message = json_sorted (input_doc checked), ev_context = context, ev_reply = reply,
            ev_images = images, ev_human = human, ev_key = key\<rparr>)))))"

definition envelope_message :: "envelope \<Rightarrow> goal_exc + session_input" where
  "envelope_message e = decode_input False (ev_message e)"

definition scope_doc :: "input_scope \<Rightarrow> pyval" where
  "scope_doc sc = VDict [(''group_id'', VStr (sc_group sc)), (''workspace'', VStr (path_str (sc_workspace sc)))]"

definition reply_doc :: "reply_target option \<Rightarrow> pyval" where
  "reply_doc r =
     (case r of None \<Rightarrow> VNone
      | Some t \<Rightarrow> VDict [(''channel'', VStr (rt_channel t)), (''recipient'', VStr (rt_recipient t))])"

definition image_doc :: "string \<times> string \<Rightarrow> pyval" where
  "image_doc im = VDict [(''data'', VStr (fst im)), (''mime_type'', VStr (snd im))]"

definition metadata_fields :: "envelope \<Rightarrow> (string \<times> pyval) list" where
  "metadata_fields e =
     [(''format'', VStr ''xdog.claw.input.v2''), (''scope'', scope_doc (ev_scope e)), (''reply'', reply_doc (ev_reply e)),
      (''human_authorized'', VBool (ev_human e)), (''admission_key'', VStr (ev_key e)), (''context'', ev_context e)]"

definition envelope_doc :: "envelope \<Rightarrow> pyval" where
  "envelope_doc e = json_sorted
     (VDict (metadata_fields e @ [(''message'', ev_message e), (''images'', VList (map image_doc (ev_images e)))]))"

definition encode_envelope :: "envelope \<Rightarrow> goal_exc + pyval" where
  "encode_envelope e =
     (if MAX_METADATA_BYTES < length (json_text (VDict (metadata_fields e))) then Inl BadValue
      else if has_nan (envelope_doc e) \<or> MAX_ENVELOPE_BYTES < length (json_text (envelope_doc e)) then Inl BadValue
      else Inr (envelope_doc e))"

definition ENVELOPE_FIELDS :: "string list" where
  "ENVELOPE_FIELDS = [''format'', ''scope'', ''message'', ''reply'', ''images'', ''human_authorized'', ''admission_key'', ''context'']"

definition saved_scope :: "pyval \<Rightarrow> goal_exc + input_scope" where
  "saved_scope v =
     raise_bind (object_check [''group_id'', ''workspace''] v) (\<lambda>d.
     raise_bind (text_field d ''group_id'' 256) (\<lambda>grp.
     raise_bind (text_field d ''workspace'' 4096) (\<lambda>w. make_scope grp (path_of w))))"

definition saved_reply :: "pyval \<Rightarrow> goal_exc + reply_target option" where
  "saved_reply v =
     (if v = VNone then Inr None
      else raise_bind (object_check [''channel'', ''recipient''] v) (\<lambda>d.
           raise_bind (text_field d ''channel'' 256) (\<lambda>channel.
           raise_bind (text_field d ''recipient'' 1024) (\<lambda>recipient.
           raise_bind (make_reply channel recipient) (\<lambda>r. Inr (Some r))))))"

definition saved_image :: "pyval \<Rightarrow> goal_exc + pyval \<times> pyval" where
  "saved_image v =
     raise_bind (object_check [''data'', ''mime_type''] v) (\<lambda>d. Inr (field_of d ''data'', field_of d ''mime_type''))"

definition decode_envelope :: "pyval \<Rightarrow> goal_exc + envelope" where
  "decode_envelope payload =
     (if MAX_ENVELOPE_BYTES < length (json_text payload) \<or> \<not> unique_fields payload then Inl BadValue
      else raise_bind (object_check ENVELOPE_FIELDS payload) (\<lambda>d.
        if field_of d ''format'' \<noteq> VStr ''xdog.claw.input.v2'' then Inl BadValue
        else (case field_of d ''images'' of
            VList rows \<Rightarrow>
              if 4 < length rows then Inl BadValue
              else raise_bind (raise_map saved_image rows) (\<lambda>images.
                raise_bind (saved_scope (field_of d ''scope'')) (\<lambda>sc.
                raise_bind (decode_input False (field_of d ''message'')) (\<lambda>m.
                raise_bind (saved_reply (field_of d ''reply'')) (\<lambda>reply.
                raise_bind (make_envelope sc m reply images (field_of d ''human_authorized'')
                    (field_of d ''admission_key'') (field_of d ''context'')) (\<lambda>e.
                raise_bind (encode_envelope e) (\<lambda>_. Inr e))))))
          | _ \<Rightarrow> Inl BadValue)))"

end
