(* ===== verification/Input_Store.thy ===== *)
theory Input_Store
  imports Input_Model
begin

text \<open>
  \<open>claw/core/inputs/store.py\<close>: the inbox, the durable record of accepted inputs and of the attempts
  to execute them, one definition per operation. An operation runs inside one SQLite transaction,
  so it returns the new inbox with its result or raises and leaves the inbox as it was
  (\<open>atomically\<close>). \<open>hex\<close> is what \<open>uuid.uuid4().hex\<close> returns and \<open>now\<close> what \<open>time.time()\<close> returns;
  primary keys, \<open>UNIQUE\<close> and foreign keys are SQLite's to enforce.
\<close>

section \<open>The tables\<close>

text \<open>The statuses of the two tables: an input is never released, an attempt never pending.\<close>

datatype input_status =
  InPending | InClaimed | InRunning | InSucceeded | InFailed | InInterrupted | InCancelled | InReleased

record input_row =
  in_seq :: int
  in_scope :: "string \<times> string"
  in_message :: string
  in_payload :: pyval
  in_status :: input_status
  in_attempt :: string
  in_response :: string
  in_error :: string
  in_session :: string

record attempt_row =
  at_id :: string
  at_seq :: int
  at_status :: input_status
  at_response :: string
  at_error :: string
  at_session :: string
  at_started :: bool
  at_started_at :: "pyfloat option"
  at_settled_at :: "pyfloat option"

record inbox =
  ib_scopes :: "((string \<times> string) \<times> string) list"
  ib_inputs :: "input_row list"
  ib_attempts :: "attempt_row list"

definition new_inbox :: inbox where
  "new_inbox = \<lparr>ib_scopes = [], ib_inputs = [], ib_attempts = []\<rparr>"

record input_record =
  ir_envelope :: envelope
  ir_status :: input_status
  ir_attempt :: string
  ir_response :: string
  ir_error :: string
  ir_session :: string

definition atomically :: "('s \<Rightarrow> goal_exc + 's \<times> 'a) \<Rightarrow> 's \<Rightarrow> 's \<times> (goal_exc + 'a)" where
  "atomically f s = (case f s of Inl e \<Rightarrow> (s, Inl e) | Inr (s', x) \<Rightarrow> (s', Inr x))"

section \<open>Reading rows\<close>

definition scope_key :: "input_scope \<Rightarrow> string \<times> string" where
  "scope_key sc = (sc_group sc, path_str (sc_workspace sc))"

definition row_record :: "input_row \<Rightarrow> goal_exc + input_record" where
  "row_record row =
     (if in_status row = InReleased then Inl BadValue
      else raise_bind (decode_envelope (in_payload row)) (\<lambda>e. raise_bind (envelope_message e) (\<lambda>m.
        if scope_key (ev_scope e) \<noteq> in_scope row \<or> si_id m \<noteq> in_message row then Inl BadValue
        else Inr \<lparr>ir_envelope = e, ir_status = in_status row, ir_attempt = in_attempt row, ir_response = in_response row,
                  ir_error = in_error row, ir_session = in_session row\<rparr>)))"

definition find_row :: "string \<times> string \<Rightarrow> string \<Rightarrow> inbox \<Rightarrow> input_row option" where
  "find_row k i ib = find (\<lambda>row. in_scope row = k \<and> in_message row = i) (ib_inputs ib)"

definition select_row :: "string \<times> string \<Rightarrow> string \<Rightarrow> inbox \<Rightarrow> goal_exc + input_row" where
  "select_row k i ib = (case find_row k i ib of None \<Rightarrow> Inl BadValue | Some row \<Rightarrow> Inr row)"

definition attempts_on :: "inbox \<Rightarrow> int \<Rightarrow> attempt_row list" where
  "attempts_on ib q = filter (\<lambda>a. at_seq a = q) (ib_attempts ib)"

definition valid_time :: "pyfloat option \<Rightarrow> bool" where
  "valid_time t = (case t of None \<Rightarrow> True | Some (PFin r) \<Rightarrow> 0 < r | _ \<Rightarrow> False)"

definition execution_times :: "attempt_row \<Rightarrow> goal_exc + pyfloat option \<times> pyfloat option" where
  "execution_times a =
     (let st = at_started_at a; se = at_settled_at a
      in if \<not> valid_time st \<or> \<not> valid_time se \<or> (st \<noteq> None \<and> \<not> at_started a)
            \<or> (se \<noteq> None \<and> (st = None \<or> at_status a \<notin> {InSucceeded, InFailed, InInterrupted}))
            \<or> (st \<noteq> None \<and> at_status a \<noteq> InRunning \<and> se = None)
         then Inl BadValue else Inr (st, se))"

definition get_input :: "input_scope \<Rightarrow> string \<Rightarrow> inbox \<Rightarrow> goal_exc + input_record option" where
  "get_input sc i ib =
     (case find_row (scope_key sc) i ib of None \<Rightarrow> Inr None | Some row \<Rightarrow> raise_bind (row_record row) (\<lambda>r. Inr (Some r)))"

definition input_records :: "input_scope \<Rightarrow> inbox \<Rightarrow> goal_exc + input_record list" where
  "input_records sc ib = raise_map row_record (filter (\<lambda>row. in_scope row = scope_key sc) (ib_inputs ib))"

definition input_attempts :: "input_scope \<Rightarrow> string \<Rightarrow> inbox \<Rightarrow> goal_exc + attempt_row list" where
  "input_attempts sc i ib =
     raise_bind (select_row (scope_key sc) i ib) (\<lambda>row.
       raise_map (\<lambda>a. raise_bind (execution_times a) (\<lambda>_. Inr a)) (attempts_on ib (in_seq row)))"

text \<open>\<open>latest_execution\<close>: \<open>None\<close> for no started attempt, \<open>Inl\<close> for one whose times were not recorded.\<close>

definition latest_execution ::
  "input_scope \<Rightarrow> string \<Rightarrow> inbox \<Rightarrow> goal_exc + (unit + (attempt_row \<times> string)) option" where
  "latest_execution sc namespace ib =
     (if map_of (ib_scopes ib) (scope_key sc) \<noteq> Some namespace then Inl BadValue
      else (case find (\<lambda>(a, row). at_started a \<and> at_seq a = in_seq row \<and> in_scope row = scope_key sc)
                   (List.product (rev (ib_attempts ib)) (ib_inputs ib)) of
          None \<Rightarrow> Inr None
        | Some (a, row) \<Rightarrow>
            if at_status a \<notin> {InRunning, InSucceeded, InFailed, InInterrupted} then Inl BadValue
            else raise_bind (execution_times a) (\<lambda>(st, _).
              Inr (Some (if st = None then Inl () else Inr (a, in_message row))))))"

section \<open>Scopes and capacity\<close>

definition unfinished :: "input_status \<Rightarrow> bool" where
  "unfinished st \<longleftrightarrow> st \<in> {InPending, InClaimed, InRunning}"

definition active :: "input_status \<Rightarrow> bool" where
  "active st \<longleftrightarrow> st \<in> {InClaimed, InRunning}"

definition load_of :: "string \<times> string \<Rightarrow> inbox \<Rightarrow> nat" where
  "load_of k ib = length (filter (\<lambda>row. in_scope row = k \<and> unfinished (in_status row)) (ib_inputs ib))"

definition capacity_check :: "string \<times> string \<Rightarrow> int \<Rightarrow> inbox \<Rightarrow> goal_exc + unit" where
  "capacity_check k maximum ib = (if maximum \<le> int (load_of k ib) then Inl BadValue else Inr ())"

text \<open>\<open>INSERT OR IGNORE\<close> also ignores a clash of namespaces; the lookup after it then fails.\<close>

definition bind_scope :: "string \<times> string \<Rightarrow> string \<Rightarrow> inbox \<Rightarrow> goal_exc + inbox \<times> string" where
  "bind_scope k hex ib =
     (case map_of (ib_scopes ib) k of
        Some ns \<Rightarrow> Inr (ib, ns)
      | None \<Rightarrow> if hex \<in> snd ` set (ib_scopes ib) \<or> length hex \<noteq> 32 then Inl BadType
                else Inr (ib\<lparr>ib_scopes := ib_scopes ib @ [(k, hex)]\<rparr>, hex))"

definition bind_input :: "input_scope \<Rightarrow> string \<Rightarrow> inbox \<Rightarrow> inbox \<times> (goal_exc + string)" where
  "bind_input sc hex = atomically (bind_scope (scope_key sc) hex)"

definition namespace_of :: "input_scope \<Rightarrow> inbox \<Rightarrow> goal_exc + string" where
  "namespace_of sc ib = (case map_of (ib_scopes ib) (scope_key sc) of None \<Rightarrow> Inl BadValue | Some ns \<Rightarrow> Inr ns)"

section \<open>Accepting\<close>

definition next_row :: "inbox \<Rightarrow> int" where
  "next_row ib = fold max (map in_seq (ib_inputs ib)) 0 + 1"

definition valid_capacity :: "int \<Rightarrow> bool" where
  "valid_capacity n \<longleftrightarrow> 1 \<le> n \<and> n \<le> 4096"

definition enqueue_write :: "int \<Rightarrow> envelope \<Rightarrow> string \<Rightarrow> inbox \<Rightarrow> goal_exc + inbox \<times> input_record \<times> bool" where
  "enqueue_write maximum e hex ib =
     raise_bind (encode_envelope e) (\<lambda>payload. raise_bind (envelope_message e) (\<lambda>m.
       let k = scope_key (ev_scope e)
       in (case find_row k (si_id m) ib of
             Some row \<Rightarrow>
               if json_text (in_payload row) \<noteq> json_text payload then Inl BadValue
               else raise_bind (row_record row) (\<lambda>r. Inr (ib, r, True))
           | None \<Rightarrow>
               raise_bind (capacity_check k maximum ib) (\<lambda>_. raise_bind (bind_scope k hex ib) (\<lambda>(ib, _).
                 let ib = ib\<lparr>ib_inputs := ib_inputs ib @
                       [\<lparr>in_seq = next_row ib, in_scope = k, in_message = si_id m, in_payload = payload, in_status = InPending,
                         in_attempt = '''', in_response = '''', in_error = '''', in_session = ''''\<rparr>]\<rparr>
                 in raise_bind (select_row k (si_id m) ib) (\<lambda>row. raise_bind (row_record row) (\<lambda>r. Inr (ib, r, False))))))))"

definition enqueue :: "int \<Rightarrow> envelope \<Rightarrow> string \<Rightarrow> inbox \<Rightarrow> inbox \<times> (goal_exc + input_record \<times> bool)" where
  "enqueue maximum e hex ib =
     (if \<not> valid_capacity maximum then (ib, Inl BadValue) else atomically (enqueue_write maximum e hex) ib)"

section \<open>Executing\<close>

definition set_input :: "int \<Rightarrow> (input_row \<Rightarrow> input_row) \<Rightarrow> inbox \<Rightarrow> inbox" where
  "set_input q f ib = ib\<lparr>ib_inputs := map (\<lambda>row. if in_seq row = q then f row else row) (ib_inputs ib)\<rparr>"

definition set_attempt :: "string \<Rightarrow> (attempt_row \<Rightarrow> attempt_row) \<Rightarrow> inbox \<Rightarrow> inbox" where
  "set_attempt i f ib = ib\<lparr>ib_attempts := map (\<lambda>a. if at_id a = i then f a else a) (ib_attempts ib)\<rparr>"

definition reread :: "string \<times> string \<Rightarrow> string \<Rightarrow> inbox \<Rightarrow> goal_exc + inbox \<times> input_record" where
  "reread k i ib = raise_bind (select_row k i ib) (\<lambda>row. raise_bind (row_record row) (\<lambda>r. Inr (ib, r)))"

definition new_attempt :: "string \<Rightarrow> int \<Rightarrow> attempt_row" where
  "new_attempt hex q =
     \<lparr>at_id = hex, at_seq = q, at_status = InClaimed, at_response = '''', at_error = '''', at_session = '''',
      at_started = False, at_started_at = None, at_settled_at = None\<rparr>"

definition claim_write :: "input_scope \<Rightarrow> string \<Rightarrow> inbox \<Rightarrow> goal_exc + inbox \<times> input_record option" where
  "claim_write sc hex ib =
     (let k = scope_key sc
      in if \<exists>row \<in> set (ib_inputs ib). in_scope row = k \<and> active (in_status row) then Inr (ib, None)
         else (case find (\<lambda>row. in_scope row = k \<and> in_status row = InPending) (ib_inputs ib) of
             None \<Rightarrow> Inr (ib, None)
           | Some row \<Rightarrow>
               if hex \<in> at_id ` set (ib_attempts ib) then Inl Constraint
               else raise_bind (reread k (in_message row)
                   (set_input (in_seq row) (\<lambda>r. r\<lparr>in_status := InClaimed, in_attempt := hex\<rparr>)
                     (ib\<lparr>ib_attempts := ib_attempts ib @ [new_attempt hex (in_seq row)]\<rparr>)))
                 (\<lambda>(ib, r). Inr (ib, Some r))))"

definition claim_input :: "input_scope \<Rightarrow> string \<Rightarrow> inbox \<Rightarrow> inbox \<times> (goal_exc + input_record option)" where
  "claim_input sc hex = atomically (claim_write sc hex)"

text \<open>The row a record names: its scope and its message.\<close>

definition record_key :: "input_record \<Rightarrow> goal_exc + (string \<times> string) \<times> string" where
  "record_key r = raise_bind (envelope_message (ir_envelope r)) (\<lambda>m. Inr (scope_key (ev_scope (ir_envelope r)), si_id m))"

definition attempt_of :: "input_record \<Rightarrow> input_status \<Rightarrow> inbox \<Rightarrow> goal_exc + ((string \<times> string) \<times> string) \<times> input_row" where
  "attempt_of r st ib =
     raise_bind (record_key r) (\<lambda>k. raise_bind (select_row (fst k) (snd k) ib) (\<lambda>row.
       if ir_attempt r = '''' \<or> in_attempt row \<noteq> ir_attempt r \<or> in_status row \<noteq> st then Inl BadValue else Inr (k, row)))"

text \<open>The update of the current attempt of a record and of its row.\<close>

definition advance ::
  "input_record \<Rightarrow> input_status \<Rightarrow> (input_row \<Rightarrow> attempt_row \<Rightarrow> attempt_row) \<Rightarrow> (input_row \<Rightarrow> input_row) \<Rightarrow> inbox \<Rightarrow>
     goal_exc + inbox \<times> input_record" where
  "advance r st g f ib =
     raise_bind (attempt_of r st ib) (\<lambda>(k, row).
       reread (fst k) (snd k) (set_attempt (ir_attempt r) (g row) (set_input (in_seq row) f ib)))"

definition start_input :: "input_record \<Rightarrow> string \<Rightarrow> pyfloat \<Rightarrow> inbox \<Rightarrow> inbox \<times> (goal_exc + input_record)" where
  "start_input r session now =
     atomically (advance r InClaimed
       (\<lambda>_ a. a\<lparr>at_status := InRunning, at_started := True, at_session := session, at_started_at := Some now\<rparr>)
       (\<lambda>row. row\<lparr>in_status := InRunning, in_session := session\<rparr>))"

definition kept_session :: "string \<Rightarrow> input_row \<Rightarrow> string" where
  "kept_session session row = (if session \<noteq> '''' then session else in_session row)"

definition MAX_RECEIPT_BYTES :: nat where
  "MAX_RECEIPT_BYTES = 1048576"

definition finish_input ::
  "input_record \<Rightarrow> input_status \<Rightarrow> string \<Rightarrow> string \<Rightarrow> string \<Rightarrow> pyfloat \<Rightarrow> inbox \<Rightarrow> inbox \<times> (goal_exc + input_record)" where
  "finish_input r st response err session now ib =
     (if st \<notin> {InSucceeded, InFailed, InInterrupted} \<or> MAX_RECEIPT_BYTES < byte_length response + byte_length err
      then (ib, Inl BadValue)
      else atomically (advance r InRunning
        (\<lambda>row a. a\<lparr>at_status := st, at_response := response, at_error := err, at_session := kept_session session row,
                   at_settled_at := Some now\<rparr>)
        (\<lambda>row. row\<lparr>in_status := st, in_response := response, in_error := err, in_session := kept_session session row\<rparr>)) ib)"

definition release_input :: "input_record \<Rightarrow> inbox \<Rightarrow> inbox \<times> (goal_exc + input_record)" where
  "release_input r =
     atomically (advance r InClaimed (\<lambda>_ a. a\<lparr>at_status := InReleased\<rparr>)
       (\<lambda>row. row\<lparr>in_status := InPending, in_attempt := ''''\<rparr>))"

definition reject_input :: "input_record \<Rightarrow> string \<Rightarrow> inbox \<Rightarrow> inbox \<times> (goal_exc + input_record)" where
  "reject_input r err ib =
     (if strip err = [] \<or> MAX_RECEIPT_BYTES < byte_length err then (ib, Inl BadValue)
      else atomically (advance r InClaimed (\<lambda>_ a. a\<lparr>at_status := InFailed, at_error := err\<rparr>)
        (\<lambda>row. row\<lparr>in_status := InFailed, in_error := err\<rparr>)) ib)"

definition cancel_write :: "input_scope \<Rightarrow> string \<Rightarrow> inbox \<Rightarrow> goal_exc + inbox \<times> input_record" where
  "cancel_write sc i ib =
     raise_bind (select_row (scope_key sc) i ib) (\<lambda>row.
       if in_status row = InCancelled then raise_bind (row_record row) (\<lambda>r. Inr (ib, r))
       else if in_status row \<notin> {InPending, InClaimed} then Inl BadValue
       else let ib' = set_input (in_seq row) (\<lambda>r. r\<lparr>in_status := InCancelled\<rparr>) ib
            in reread (scope_key sc) i
                 (if in_attempt row \<noteq> '''' then set_attempt (in_attempt row) (\<lambda>a. a\<lparr>at_status := InCancelled\<rparr>) ib' else ib'))"

definition cancel_input :: "input_scope \<Rightarrow> string \<Rightarrow> inbox \<Rightarrow> inbox \<times> (goal_exc + input_record)" where
  "cancel_input sc i = atomically (cancel_write sc i)"

definition retry_write :: "int \<Rightarrow> input_scope \<Rightarrow> string \<Rightarrow> inbox \<Rightarrow> goal_exc + inbox \<times> input_record" where
  "retry_write maximum sc i ib =
     raise_bind (select_row (scope_key sc) i ib) (\<lambda>row.
       if in_status row \<notin> {InFailed, InInterrupted} then Inl BadValue
       else raise_bind (capacity_check (scope_key sc) maximum ib) (\<lambda>_.
         reread (scope_key sc) i
           (set_input (in_seq row)
             (\<lambda>r. r\<lparr>in_status := InPending, in_attempt := '''', in_response := '''', in_error := '''', in_session := ''''\<rparr>) ib)))"

definition retry_input :: "int \<Rightarrow> input_scope \<Rightarrow> string \<Rightarrow> inbox \<Rightarrow> inbox \<times> (goal_exc + input_record)" where
  "retry_input maximum sc i = atomically (retry_write maximum sc i)"

section \<open>Reading a page\<close>

definition status_page ::
  "input_scope \<Rightarrow> string option \<Rightarrow> int \<Rightarrow> int \<Rightarrow> inbox \<Rightarrow>
     goal_exc + (string \<times> input_status \<times> string \<times> string \<times> string) list \<times> int option" where
  "status_page sc selected cursor limit ib =
     (if cursor < 0 \<or> 2 ^ 53 \<le> cursor \<or> limit < 1 \<or> 128 < limit
         \<or> (case selected of None \<Rightarrow> False | Some i \<Rightarrow> \<not> bounded_text False 256 i \<or> cursor \<noteq> 0) then Inl BadValue
      else let rows = filter (\<lambda>row. in_scope row = scope_key sc \<and> (case selected of None \<Rightarrow> True | Some i \<Rightarrow> in_message row = i))
                        (ib_inputs ib);
               page = take (nat (limit + 1)) (drop (nat cursor) rows)
           in Inr (map (\<lambda>row. (in_message row, in_status row, in_attempt row, in_session row, take 1024 (in_error row)))
                     (take (nat limit) page),
                   if limit < int (length page) then Some (cursor + limit) else None))"

section \<open>Opening\<close>

text \<open>\<open>uuid.UUID(hex=s)\<close>: \<open>urn:\<close>, \<open>uuid:\<close>, braces and hyphens are dropped, then \<open>int(h, 16)\<close> reads 32 characters.\<close>

fun erase :: "string \<Rightarrow> nat \<Rightarrow> string \<Rightarrow> string" where
  "erase p n [] = []"
| "erase p (Suc n) (c # cs) = erase p n cs"
| "erase p 0 (c # cs) = (if starts_with p (c # cs) then erase p (length p - 1) cs else c # erase p 0 cs)"

definition is_hex :: "char \<Rightarrow> bool" where
  "is_hex c \<longleftrightarrow> (let n = (of_char c :: nat) in 48 \<le> n \<and> n \<le> 57 \<or> 65 \<le> n \<and> n \<le> 70 \<or> 97 \<le> n \<and> n \<le> 102)"

fun hex_digits :: "string \<Rightarrow> bool" where
  "hex_digits [] = False"
| "hex_digits (c # cs) =
     (is_hex c \<and> (case cs of [] \<Rightarrow> True | d # ds \<Rightarrow> if d = CHR ''_'' then hex_digits ds else hex_digits cs))"

definition hex_prefix :: "string \<Rightarrow> string" where
  "hex_prefix s =
     (if starts_with ''0x'' s \<or> starts_with ''0X'' s then (if starts_with ''_'' (drop 2 s) then drop 3 s else drop 2 s) else s)"

definition is_hex_int :: "string \<Rightarrow> bool" where
  "is_hex_int s =
     (let t = strip s; u = (if starts_with ''+'' t \<or> starts_with ''-'' t then drop 1 t else t) in hex_digits (hex_prefix u))"

definition is_brace :: "char \<Rightarrow> bool" where
  "is_brace c \<longleftrightarrow> c = CHR ''{'' \<or> c = CHR ''}''"

definition uuid_ok :: "string \<Rightarrow> bool" where
  "uuid_ok s =
     (let t = erase ''uuid:'' 0 (erase ''urn:'' 0 s);
          u = filter (\<lambda>c. c \<noteq> CHR ''-'') (rev (dropWhile is_brace (rev (dropWhile is_brace t))))
      in length u = 32 \<and> is_hex_int u)"

definition attempts_ok :: "input_row \<Rightarrow> attempt_row list \<Rightarrow> bool" where
  "attempts_ok row as \<longleftrightarrow>
     (\<forall>a \<in> set as. at_status a \<noteq> InPending) \<and>
     (\<forall>a \<in> set as. (at_status a \<in> {InClaimed, InReleased, InCancelled} \<longrightarrow> \<not> at_started a) \<and>
        (at_status a \<in> {InRunning, InSucceeded, InInterrupted} \<longrightarrow> at_started a)) \<and>
     (\<forall>a \<in> set as. at_id a \<noteq> in_attempt row \<longrightarrow> \<not> active (at_status a)) \<and>
     (if in_attempt row \<noteq> ''''
      then as \<noteq> [] \<and> (let a = last as in at_id a = in_attempt row \<and> at_status a = in_status row \<and>
             at_response a = in_response row \<and> at_error a = in_error row \<and> at_session a = in_session row)
      else in_status row \<in> {InPending, InCancelled}) \<and>
     (in_status row = InPending \<longrightarrow>
        in_attempt row = '''' \<and> in_response row = '''' \<and> in_error row = '''' \<and> in_session row = '''')"

definition one_active :: "inbox \<Rightarrow> bool" where
  "one_active ib \<longleftrightarrow>
     (\<forall>k \<in> in_scope ` set (ib_inputs ib). length (filter (\<lambda>row. in_scope row = k \<and> active (in_status row)) (ib_inputs ib)) \<le> 1)"

definition validate_scope :: "(string \<times> string) \<times> string \<Rightarrow> goal_exc + unit" where
  "validate_scope s =
     (case s of ((grp, w), ns) \<Rightarrow>
        raise_bind (make_scope grp (path_of w)) (\<lambda>_. if uuid_ok ns then Inr () else Inl BadValue))"

definition validate_input :: "inbox \<Rightarrow> input_row \<Rightarrow> goal_exc + unit" where
  "validate_input ib row =
     raise_bind (row_record row) (\<lambda>_.
     raise_bind (raise_map execution_times (attempts_on ib (in_seq row))) (\<lambda>_.
       if attempts_ok row (attempts_on ib (in_seq row)) then Inr () else Inl BadValue))"

definition bound_rows :: "inbox \<Rightarrow> bool" where
  "bound_rows ib \<longleftrightarrow> (\<forall>row \<in> set (ib_inputs ib). in_scope row \<in> fst ` set (ib_scopes ib)) \<and>
     (\<forall>a \<in> set (ib_attempts ib). at_seq a \<in> in_seq ` set (ib_inputs ib))"

definition validate_receipts :: "inbox \<Rightarrow> goal_exc + unit" where
  "validate_receipts ib =
     raise_bind (raise_map validate_scope (ib_scopes ib)) (\<lambda>_.
     if \<not> bound_rows ib then Inl BadValue
     else raise_bind (raise_map (validate_input ib) (ib_inputs ib)) (\<lambda>_.
       if one_active ib then Inr () else Inl BadValue))"

definition INTERRUPTED :: string where
  "INTERRUPTED = ''Execution interrupted; inspect prior effects before explicit retry''"

definition recover_input :: "input_row \<Rightarrow> input_row" where
  "recover_input row =
     (if in_status row = InClaimed then row\<lparr>in_status := InPending, in_attempt := ''''\<rparr>
      else if in_status row = InRunning then row\<lparr>in_status := InInterrupted, in_error := INTERRUPTED\<rparr>
      else row)"

definition recover_attempt :: "pyfloat \<Rightarrow> attempt_row \<Rightarrow> attempt_row" where
  "recover_attempt now a =
     (if at_status a = InClaimed then a\<lparr>at_status := InReleased\<rparr>
      else if at_status a = InRunning
      then a\<lparr>at_status := InInterrupted, at_error := INTERRUPTED,
             at_settled_at := (if at_started_at a \<noteq> None then Some now else at_settled_at a)\<rparr>
      else a)"

definition recover_inbox :: "pyfloat \<Rightarrow> inbox \<Rightarrow> inbox" where
  "recover_inbox now ib =
     ib\<lparr>ib_inputs := map recover_input (ib_inputs ib), ib_attempts := map (recover_attempt now) (ib_attempts ib)\<rparr>"

definition open_inbox :: "pyfloat \<Rightarrow> inbox \<Rightarrow> goal_exc + inbox" where
  "open_inbox now ib = raise_bind (validate_receipts ib) (\<lambda>_. Inr (recover_inbox now ib))"

end
