(* ===== verification/Input_Trip.thy ===== *)
theory Input_Trip
  imports Input_Model
begin

text \<open>A saved envelope reads back: sorting a document's keys changes none of what the checks see.\<close>

section \<open>Sorted documents\<close>

lemma map_of_insort [simp]: "map_of (insort_key fst x d) = map_of (x # d)"
  by (induction d) (auto simp: fun_eq_iff)

lemma map_of_sort [simp]: "map_of (sort_key fst d) = map_of d"
  by (induction d) (auto simp: fun_eq_iff)

lemma sort_map_snd:
  "sort_key fst (map (\<lambda>kv. (fst kv, g (snd kv))) d) = map (\<lambda>kv. (fst kv, g (snd kv))) (sort_key fst d)"
proof (induction d)
  case (Cons x d)
  have "insort_key fst (fst x, g (snd x)) (map (\<lambda>kv. (fst kv, g (snd kv))) e) =
      map (\<lambda>kv. (fst kv, g (snd kv))) (insort_key fst x e)" for e
    by (induction e) auto
  with Cons show ?case by simp
qed simp

lemma sort_twice [simp]: "sort_key f (sort_key f xs) = sort_key f xs"
  by (rule sort_key_id_if_sorted) simp

lemma json_sorted_idem [simp]: "json_sorted (json_sorted v) = json_sorted v"
  by (induction v rule: json_sorted.induct) 
    (simp_all add: sort_map_snd [of json_sorted] sort_map_snd [of "\<lambda>v. json_sorted (json_sorted v)"] comp_def)

lemma json_dumps_sorted [simp]: "json_dumps a s c (json_sorted v) = json_dumps a s c v"
proof (induction v rule: json_sorted.induct)
  case (1 xs)
  then have "map (json_dumps a s c) (map json_sorted xs) = map (json_dumps a s c) xs" by simp
  then show ?case by (simp only: json_sorted.simps json_dumps.simps)
next
  case (2 d)
  then have "map (\<lambda>kv. (fst kv, json_dumps a s c (json_sorted (snd kv)))) d = map (\<lambda>kv. (fst kv, json_dumps a s c (snd kv))) d" by simp
  then show ?case
    by (simp add: split_def sort_map_snd [of json_sorted] comp_def
        sort_map_snd [of "\<lambda>v. json_dumps a s c (json_sorted v)", symmetric] del: map_eq_conv)
qed simp_all

lemma finite_json_sorted [simp]: "finite_json n (json_sorted v) = finite_json n v"
  by (induction v arbitrary: n rule: json_sorted.induct) simp_all

lemma has_nan_sorted [simp]: "has_nan (json_sorted v) = has_nan v"
  by (induction v rule: json_sorted.induct) simp_all

lemma distinct_fst_sort [simp]: "distinct (map fst (sort_key fst d)) = distinct (map fst d)"
  by (metis mset_sort mset_map mset_eq_imp_distinct_iff)

lemma unique_fields_sorted [simp]: "unique_fields (json_sorted v) = unique_fields v"
  by (induction v rule: json_sorted.induct) (simp_all add: comp_def)

lemma finite_no_nan: "finite_json n v \<Longrightarrow> \<not> has_nan v"
  by (induction n v rule: finite_json.induct) (auto split: pyfloat.splits)

section \<open>Paths\<close>

definition path_parts :: "string list \<Rightarrow> bool" where
  "path_parts ps \<longleftrightarrow> (\<forall>p \<in> set ps. p \<noteq> [] \<and> p \<noteq> ''.'' \<and> CHR ''/'' \<notin> set p)"

lemma split_slash_word:
  "CHR ''/'' \<notin> set w \<Longrightarrow> split_slash acc (w @ CHR ''/'' # s) = (rev acc @ w) # split_slash [] s"
  by (induction w arbitrary: acc) auto

lemma split_slash_last: "CHR ''/'' \<notin> set w \<Longrightarrow> split_slash acc w = [rev acc @ w]"
  by (induction w arbitrary: acc) auto

lemma split_slash_join: "path_parts ps \<Longrightarrow> ps \<noteq> [] \<Longrightarrow> split_slash [] (join ''/'' ps) = ps"
  by (induction "''/''" ps rule: join.induct) (simp_all add: path_parts_def split_slash_word split_slash_last)

lemma split_slash_words: "CHR ''/'' \<notin> set acc \<Longrightarrow> \<forall>w \<in> set (split_slash acc s). CHR ''/'' \<notin> set w"
  by (induction acc s rule: split_slash.induct) auto

lemma path_of_parts: "path_parts (pp_parts (path_of s))"
  using split_slash_words [of "[]" s] by (auto simp: path_parts_def path_of_def)

lemma path_root_cases: "path_root s = '''' \<or> path_root s = ''/'' \<or> path_root s = ''//''"
  by (simp add: path_root_def)

lemma join_head: "path_parts ps \<Longrightarrow> ps \<noteq> [] \<Longrightarrow> \<exists>c cs. join ''/'' ps = c # cs \<and> c \<noteq> CHR ''/''"
  by (induction "''/''" ps rule: join.induct) (auto simp: path_parts_def neq_Nil_conv)

theorem path_roundtrip: "path_of (path_str (path_of s)) = path_of s"
proof -
  let ?ps = "pp_parts (path_of s)"
  have ps: "path_parts ?ps" by (rule path_of_parts)
  have keep: "filter (\<lambda>p. p \<noteq> '''' \<and> p \<noteq> ''.'') ?ps = ?ps" using ps by (simp add: path_parts_def filter_id_conv)
  have root: "pp_root (path_of s) = path_root s" by (simp add: path_of_def)
  have "path_of (path_str (path_of s)) = \<lparr>pp_root = path_root s, pp_parts = ?ps\<rparr>"
  proof (cases "?ps = []")
    case True
    with path_root_cases [of s] show ?thesis
      by (elim disjE) (simp_all add: path_str_def root path_of_def [of "_ # _"] path_root_def [of "_ # _"] starts_with_def)
  next
    case False
    then obtain c cs where j: "join ''/'' ?ps = c # cs" "c \<noteq> CHR ''/''" using join_head [OF ps] by blast
    have "filter (\<lambda>p. p \<noteq> '''' \<and> p \<noteq> ''.'') (split_slash [] (c # cs)) = ?ps"
      using split_slash_join [OF ps False] keep unfolding j by simp
    then show ?thesis using path_root_cases [of s] j
      by (elim disjE) (simp_all add: path_str_def root False path_of_def [of "_ # _"] path_root_def [of "_ # _"] starts_with_def)
  qed
  then show ?thesis by (simp add: path_of_def)
qed

section \<open>Messages\<close>

lemma input_origins [simp]: "map_of INPUT_ORIGINS (input_origin_name r) = Some r"
  by (cases r) (simp_all add: INPUT_ORIGINS_def input_origin_name_def)

lemma check_Inr [raise_simps]:
  "text_check e n v = Inr s \<longleftrightarrow> v = VStr s \<and> bounded_text e n s"
  "instruction_check v = Inr s \<longleftrightarrow> v = VStr s \<and> strip s \<noteq> [] \<and> char_of (0 :: nat) \<notin> set s"
  "list_check v = Inr xs \<longleftrightarrow> v = VList xs"
  "dict_check v = Inr d \<longleftrightarrow> v = VDict d"
  "object_check ks v = Inr d \<longleftrightarrow> v = VDict d \<and> set (map fst d) = set ks"
  by (auto simp: text_check_def instruction_check_def list_check_def dict_check_def object_check_def split: pyval.splits)

lemma origin_Inr [raise_simps]: "origin_of v = Inr r \<longleftrightarrow> v = VStr (input_origin_name r)"
  by (cases r) (auto simp: origin_of_def INPUT_ORIGINS_def input_origin_name_def split: pyval.splits)

lemma input_of_iff [raise_simps]:
  "input_of d = Inr m \<longleftrightarrow>
     field_of d ''id'' = VStr (si_id m) \<and> bounded_text False 256 (si_id m) \<and>
     field_of d ''source'' = VStr (si_source m) \<and> bounded_text False 256 (si_source m) \<and>
     field_of d ''instruction'' = VStr (si_instruction m) \<and> strip (si_instruction m) \<noteq> [] \<and>
     char_of (0 :: nat) \<notin> set (si_instruction m) \<and> field_of d ''origin'' = VStr (input_origin_name (si_origin m)) \<and>
     field_of d ''evidence'' = VList (si_evidence m) \<and> field_of d ''provenance'' = VDict (si_provenance m)"
  by (cases m) (auto simp: input_of_def raise_simps)

text \<open>The document of a message after sorting.\<close>

definition message_doc :: "session_input \<Rightarrow> pyval" where
  "message_doc m = VDict
     [(''evidence'', json_sorted (VList (si_evidence m))), (''id'', VStr (si_id m)), (''instruction'', VStr (si_instruction m)),
      (''origin'', VStr (input_origin_name (si_origin m))), (''provenance'', json_sorted (VDict (si_provenance m))),
      (''source'', VStr (si_source m))]"

lemma sorted_input_doc: "json_sorted (input_doc m) = message_doc m"
  by (simp add: input_doc_def message_doc_def)

definition sorted_input :: "session_input \<Rightarrow> session_input" where
  "sorted_input m = m\<lparr>si_evidence := map json_sorted (si_evidence m),
     si_provenance := sort_key fst (map (\<lambda>kv. (fst kv, json_sorted (snd kv))) (si_provenance m))\<rparr>"

lemma decode_input_iff:
  "decode_input False v = Inr m \<longleftrightarrow> finite_json 0 v \<and> length (json_text v) \<le> MAX_INPUT_BYTES \<and>
     (\<exists>d. v = VDict d \<and> set (map fst d) = set INPUT_FIELDS \<and> input_of d = Inr m)"
  unfolding decode_input_def Let_def by (auto simp: raise_bind_Inr_iff check_Inr)

lemma decode_input_doc:
  assumes "decode_input False (input_doc m) = Inr c"
  shows "c = m"
proof -
  have "field_of (case input_doc m of VDict d \<Rightarrow> d) k = field_of (case input_doc c of VDict d \<Rightarrow> d) k" if "k \<in> set INPUT_FIELDS" for k
    using assms that by (auto simp: decode_input_iff input_of_iff input_doc_def field_of_def INPUT_FIELDS_def)
  from this [of "''id''"] this [of "''origin''"] this [of "''source''"] this [of "''instruction''"] this [of "''evidence''"]
    this [of "''provenance''"]
  show ?thesis
    by (cases m; cases c; cases "si_origin m"; cases "si_origin c")
      (simp_all add: input_doc_def field_of_def INPUT_FIELDS_def input_origin_name_def)
qed

lemma json_sorted_fields [simp]:
  fixes d :: "(string \<times> pyval) list"
  shows "sort_key fst (map (\<lambda>kv. (fst kv, json_sorted (snd kv))) (sort_key fst (map (\<lambda>kv. (fst kv, json_sorted (snd kv))) d))) =
    sort_key fst (map (\<lambda>kv. (fst kv, json_sorted (snd kv))) d)"
  using json_sorted_idem [of "VDict d"] unfolding json_sorted.simps by (simp only: pyval.inject)

lemma message_doc_sorted: "message_doc (sorted_input m) = message_doc m"
  by (simp add: message_doc_def sorted_input_def)

lemma message_decodes:
  assumes ok: "decode_input False (input_doc m) = Inr m"
  shows "decode_input False (message_doc m) = Inr (sorted_input m)"
    and "decode_input False (input_doc (sorted_input m)) = Inr (sorted_input m)"
proof -
  have fin: "finite_json 0 (message_doc m)" and len: "length (json_text (message_doc m)) \<le> MAX_INPUT_BYTES"
    using ok unfolding sorted_input_doc [symmetric] by (simp_all add: decode_input_iff)
  show "decode_input False (message_doc m) = Inr (sorted_input m)"
    using fin len ok unfolding decode_input_iff message_doc_def
    by (auto simp: input_of_iff input_doc_def field_of_def sorted_input_def INPUT_FIELDS_def)
  have eq: "json_sorted (input_doc (sorted_input m)) = message_doc m"
    by (simp only: sorted_input_doc message_doc_sorted)
  have "finite_json 0 (input_doc (sorted_input m))" "length (json_text (input_doc (sorted_input m))) \<le> MAX_INPUT_BYTES"
    using fin len unfolding eq [symmetric] by (simp_all only: finite_json_sorted json_dumps_sorted)

  then show "decode_input False (input_doc (sorted_input m)) = Inr (sorted_input m)"
    using ok unfolding decode_input_iff input_doc_def
    by (auto simp: input_of_iff field_of_def sorted_input_def INPUT_FIELDS_def)
qed

section \<open>Envelopes\<close>

definition scope_ok :: "input_scope \<Rightarrow> bool" where
  "scope_ok sc \<longleftrightarrow> make_scope (sc_group sc) (sc_workspace sc) = Inr sc \<and>
     path_of (path_str (sc_workspace sc)) = sc_workspace sc"

definition reply_ok :: "reply_target option \<Rightarrow> bool" where
  "reply_ok r \<longleftrightarrow> (case r of None \<Rightarrow> True | Some t \<Rightarrow> make_reply (rt_channel t) (rt_recipient t) = Inr t)"

text \<open>What the constructor makes of typed arguments whose dicts have no key twice.\<close>

definition envelope_ok :: "envelope \<Rightarrow> bool" where
  "envelope_ok e \<longleftrightarrow>
     (\<exists>m. decode_input False (input_doc m) = Inr m \<and> unique_fields (input_doc m) \<and> ev_message e = message_doc m \<and>
        (ev_human e \<longrightarrow> si_origin m = HumanInput)) \<and>
     scope_ok (ev_scope e) \<and> reply_ok (ev_reply e) \<and> bounded_text True 256 (ev_key e) \<and>
     context_check (ev_context e) = Inr (ev_context e) \<and> unique_fields (ev_context e) \<and>
     length (ev_images e) \<le> 4 \<and> (\<forall>im \<in> set (ev_images e). image_check (VStr (fst im), VStr (snd im)) = Inr im)"

lemma context_sorted:
  assumes "context_check (VDict d) = Inr c"
  shows "context_check c = Inr c \<and> unique_fields c = unique_fields (VDict d)"
proof -
  have c: "c = json_sorted (VDict d)" and f: "finite_json 0 (VDict d)" and l: "length (json_text (VDict d)) \<le> MAX_METADATA_BYTES"
    using assms unfolding context_check_def pyval.case by (metis sum.inject(2) sum.distinct(1))+
  obtain d' where d': "c = VDict d'" using c by simp
  have "finite_json 0 c" "length (json_text c) \<le> MAX_METADATA_BYTES" "json_sorted c = c"
    using f l unfolding c by (simp_all only: finite_json_sorted json_dumps_sorted json_sorted_idem)
  then have "context_check c = Inr c" unfolding d' context_check_def pyval.case by (simp only: if_True simp_thms)
  moreover have "unique_fields c = unique_fields (VDict d)" unfolding c by (rule unique_fields_sorted)
  ultimately show ?thesis by blast
qed

lemma context_checked:
  assumes "context_check v = Inr c" and "unique_fields v"
  shows "context_check c = Inr c \<and> unique_fields c"
proof (cases v)
  case VNone
  with assms have c: "c = VDict []" by (simp add: context_check_def)
  have "context_check (VDict []) = Inr (VDict [])" by (simp add: context_check_def MAX_METADATA_BYTES_def)
  then show ?thesis by (simp add: c)
next
  case (VDict d)
  then show ?thesis using context_sorted [of d c] assms by simp
qed (use assms in \<open>simp_all add: context_check_def\<close>)

lemma image_checked: "image_check im = Inr x \<Longrightarrow> image_check (VStr (fst x), VStr (snd x)) = Inr x"
  by (auto simp: image_check_def raise_simps split: prod.splits pyval.splits)

lemma human_checked: "human_check m v = Inr b \<Longrightarrow> v = VBool b \<and> (b \<longrightarrow> si_origin m = HumanInput)"
  by (auto simp: human_check_def split: pyval.splits if_splits)

text \<open>Every envelope the constructor makes is one.\<close>

lemma made_envelope_ok:
  assumes made: "make_envelope sc m reply images human key context = Inr e"
    and typed: "scope_ok sc" "reply_ok reply" "unique_fields (input_doc m)" "unique_fields context"
  shows "envelope_ok e"
proof -
  obtain h k c xs m' where h: "human_check m human = Inr h" and k: "text_check True 256 key = Inr k"
    and c: "context_check context = Inr c" and len: "length images \<le> 4" and ims: "raise_map image_check images = Inr xs"
    and m': "decode_input False (input_doc m) = Inr m'"
    and e: "e = \<lparr>ev_scope = sc, ev_message = json_sorted (input_doc m'), ev_context = c, ev_reply = reply,
       ev_images = xs, ev_human = h, ev_key = k\<rparr>"
    using made unfolding make_envelope_def by (auto simp: raise_bind_Inr_iff split: if_splits)
  have "m' = m" using m' by (rule decode_input_doc)
  moreover have "length xs \<le> 4" using raise_map_Inr_length [OF ims] len by simp
  moreover have "image_check (VStr (fst im), VStr (snd im)) = Inr im" if "im \<in> set xs" for im
    using raise_map_Inr_set [OF ims that] image_checked by blast
  ultimately show ?thesis
    using h k c m' typed context_checked [OF c typed(4)] human_checked [OF h]
    by (auto simp: e envelope_ok_def sorted_input_doc check_Inr)
qed

text \<open>The saved document, its keys in order.\<close>

lemma envelope_doc_fields:
  assumes "envelope_ok e"
  shows "envelope_doc e = VDict
    [(''admission_key'', VStr (ev_key e)), (''context'', ev_context e), (''format'', VStr ''xdog.claw.input.v2''),
     (''human_authorized'', VBool (ev_human e)), (''images'', VList (map image_doc (ev_images e))),
     (''message'', ev_message e), (''reply'', reply_doc (ev_reply e)), (''scope'', scope_doc (ev_scope e))]"
proof -
  obtain m where m: "ev_message e = message_doc m" and c: "context_check (ev_context e) = Inr (ev_context e)"
    using assms by (auto simp: envelope_ok_def)
  have "json_sorted (ev_message e) = ev_message e"
    unfolding m sorted_input_doc [symmetric] by (rule json_sorted_idem)
  moreover have "json_sorted (ev_context e) = ev_context e"
    using c by (cases "ev_context e") (auto simp: context_check_def simp del: json_sorted.simps split: if_splits)
  moreover have "json_sorted (image_doc im) = image_doc im" for im by (simp add: image_doc_def)
  moreover have "json_sorted (reply_doc r) = reply_doc r" for r by (simp add: reply_doc_def split: option.split)
  moreover have "json_sorted (scope_doc s) = scope_doc s" for s by (simp add: scope_doc_def)
  ultimately show ?thesis by (simp add: envelope_doc_def metadata_fields_def)
qed

lemma saved_scope_doc: "scope_ok sc \<Longrightarrow> saved_scope (scope_doc sc) = Inr sc"
  by (auto simp: saved_scope_def scope_doc_def scope_ok_def object_check_def field_of_def text_check_def make_scope_def
      split: if_splits)

lemma saved_reply_doc: "reply_ok r \<Longrightarrow> saved_reply (reply_doc r) = Inr r"
  by (auto simp: saved_reply_def reply_doc_def reply_ok_def object_check_def field_of_def text_check_def make_reply_def
      split: option.splits if_splits)

lemma saved_image_doc: "saved_image (image_doc im) = Inr (VStr (fst im), VStr (snd im))"
  by (simp add: saved_image_def image_doc_def object_check_def field_of_def)

lemma saved_images: "raise_map saved_image (map image_doc ims) = Inr (map (\<lambda>im. (VStr (fst im), VStr (snd im))) ims)"
  by (induction ims) (simp_all add: saved_image_doc)

lemma checked_images:
  "\<forall>im \<in> set ims. image_check (VStr (fst im), VStr (snd im)) = Inr im \<Longrightarrow>
     raise_map image_check (map (\<lambda>im. (VStr (fst im), VStr (snd im))) ims) = Inr ims"
  by (induction ims) simp_all

lemma made_again:
  assumes ok: "envelope_ok e" and m: "decode_input False (input_doc m) = Inr m" "ev_message e = message_doc m"
    "ev_human e \<longrightarrow> si_origin m = HumanInput"
  shows "make_envelope (ev_scope e) (sorted_input m) (ev_reply e) (map (\<lambda>im. (VStr (fst im), VStr (snd im))) (ev_images e))
    (VBool (ev_human e)) (VStr (ev_key e)) (ev_context e) = Inr e"
proof -
  have "human_check (sorted_input m) (VBool (ev_human e)) = Inr (ev_human e)"
    using m(3) by (simp add: human_check_def sorted_input_def)
  moreover have "json_sorted (input_doc (sorted_input m)) = ev_message e"
    by (simp only: sorted_input_doc message_doc_sorted m(2))
  moreover have "raise_map image_check (map (\<lambda>im. (VStr (fst im), VStr (snd im))) (ev_images e)) = Inr (ev_images e)"
    using ok by (intro checked_images) (simp add: envelope_ok_def)
  ultimately show ?thesis
    using ok message_decodes(2) [OF m(1)] by (simp add: make_envelope_def envelope_ok_def text_check_def)
qed

theorem envelope_roundtrip:
  assumes ok: "envelope_ok e" and enc: "encode_envelope e = Inr p"
  shows "decode_envelope p = Inr e"
proof -
  obtain m where m: "decode_input False (input_doc m) = Inr m" "unique_fields (input_doc m)" "ev_message e = message_doc m"
    "ev_human e \<longrightarrow> si_origin m = HumanInput"
    using ok by (auto simp: envelope_ok_def)
  have p: "p = envelope_doc e" "length (json_text p) \<le> MAX_ENVELOPE_BYTES"
    using enc by (auto simp: encode_envelope_def split: if_splits)
  note doc = p(1) [unfolded envelope_doc_fields [OF ok]]
  have "unique_fields (ev_message e)" using m(2) unfolding m(3) sorted_input_doc [symmetric] by simp
  then have "unique_fields p"
    using ok by (auto simp: doc envelope_ok_def image_doc_def reply_doc_def scope_doc_def split: option.split)
  then have guard: "\<not> (MAX_ENVELOPE_BYTES < length (json_text p) \<or> \<not> unique_fields p)" using p(2) by simp
  have "decode_input False (ev_message e) = Inr (sorted_input m)"
    unfolding m(3) by (rule message_decodes(1) [OF m(1)])
  moreover have "scope_ok (ev_scope e)" "reply_ok (ev_reply e)" "length (ev_images e) \<le> 4" using ok by (simp_all add: envelope_ok_def)
  moreover have "object_check ENVELOPE_FIELDS p = Inr (case p of VDict d \<Rightarrow> d)"
    by (auto simp: doc object_check_def ENVELOPE_FIELDS_def)
  ultimately show ?thesis
    using enc made_again [OF ok m(1,3,4)] unfolding decode_envelope_def if_not_P [OF guard]
    by (simp add: doc field_of_def saved_scope_doc saved_reply_doc saved_images)
qed

lemma envelope_message_ok:
  assumes "envelope_ok e"
  shows "\<exists>m. envelope_message e = Inr m"
  using assms message_decodes(1) by (auto simp: envelope_ok_def envelope_message_def)

end
