(* ===== verification/Input_Inv.thy ===== *)
theory Input_Inv
  imports Input_Store Input_Trip
begin

text \<open>
  The invariant of the inbox, which is what opening it checks and what its keys enforce, and that
  every operation keeps it. An operation changes one row and the attempts of that row, so one
  lemma (\<open>change_row_ok\<close>) carries them all.
\<close>

section \<open>The invariant\<close>

definition saved_ok :: "input_row \<Rightarrow> bool" where
  "saved_ok row \<longleftrightarrow> (\<exists>e m. envelope_ok e \<and> encode_envelope e = Inr (in_payload row) \<and> envelope_message e = Inr m \<and>
     scope_key (ev_scope e) = in_scope row \<and> si_id m = in_message row)"

definition times_ok :: "attempt_row \<Rightarrow> bool" where
  "times_ok a \<longleftrightarrow> (\<exists>ts. execution_times a = Inr ts) \<and> (at_status a = InRunning \<longrightarrow> at_started_at a \<noteq> None)"

definition blank :: "input_row \<Rightarrow> bool" where
  "blank row \<longleftrightarrow> in_response row = '''' \<and> in_error row = '''' \<and> in_session row = ''''"

definition cell_ok :: "inbox \<Rightarrow> input_row \<Rightarrow> bool" where
  "cell_ok ib row \<longleftrightarrow> saved_ok row \<and> in_status row \<noteq> InReleased \<and> (in_status row = InClaimed \<longrightarrow> blank row) \<and>
     attempts_ok row (attempts_on ib (in_seq row))"

definition inbox_ok :: "inbox \<Rightarrow> bool" where
  "inbox_ok ib \<longleftrightarrow>
     distinct (map fst (ib_scopes ib)) \<and> distinct (map snd (ib_scopes ib)) \<and>
     (\<forall>s \<in> set (ib_scopes ib). validate_scope s = Inr ()) \<and> bound_rows ib \<and>
     distinct (map in_seq (ib_inputs ib)) \<and> distinct (map (\<lambda>row. (in_scope row, in_message row)) (ib_inputs ib)) \<and>
     distinct (map at_id (ib_attempts ib)) \<and> (\<forall>a \<in> set (ib_attempts ib). times_ok a \<and> at_id a \<noteq> '''') \<and>
     (\<forall>row \<in> set (ib_inputs ib). cell_ok ib row) \<and> one_active ib"

lemma saved_record:
  assumes "saved_ok row" and "in_status row \<noteq> InReleased"
  shows "\<exists>r. row_record row = Inr r \<and> ir_attempt r = in_attempt row \<and> ir_status r = in_status row \<and>
    record_key r = Inr (in_scope row, in_message row)"
proof -
  obtain e m where e: "envelope_ok e" "encode_envelope e = Inr (in_payload row)" "envelope_message e = Inr m"
      "scope_key (ev_scope e) = in_scope row" "si_id m = in_message row"
    using assms(1) by (auto simp: saved_ok_def)
  then show ?thesis using assms(2) envelope_roundtrip [OF e(1,2)] by (simp add: row_record_def record_key_def)
qed

text \<open>An invariant inbox is one that opening accepts.\<close>

lemma raise_map_units: "(\<And>x. x \<in> set xs \<Longrightarrow> \<exists>y. f x = Inr y) \<Longrightarrow> \<exists>ys. raise_map f xs = Inr ys"
proof (induction xs)
  case (Cons x xs)
  obtain y where "f x = Inr y" using Cons.prems [of x] by auto
  moreover obtain ys where "raise_map f xs = Inr ys" using Cons by auto
  ultimately show ?case by simp
qed simp

lemma inbox_ok_validates:
  assumes "inbox_ok ib"
  shows "validate_receipts ib = Inr ()"
proof -
  obtain us where us: "raise_map validate_scope (ib_scopes ib) = Inr us"
    using assms raise_map_units [of "ib_scopes ib" validate_scope] by (auto simp: inbox_ok_def)
  have "\<exists>y. validate_input ib row = Inr y" if row: "row \<in> set (ib_inputs ib)" for row
  proof -
    have cell: "cell_ok ib row" using assms row by (simp add: inbox_ok_def)
    obtain r where "row_record row = Inr r" using cell saved_record [of row] by (auto simp: cell_ok_def)
    moreover have "\<exists>ts. raise_map execution_times (attempts_on ib (in_seq row)) = Inr ts"
      using assms by (intro raise_map_units) (auto simp: attempts_on_def inbox_ok_def times_ok_def)
    ultimately show ?thesis using cell by (auto simp: validate_input_def cell_ok_def)
  qed
  then obtain vs where vs: "raise_map (validate_input ib) (ib_inputs ib) = Inr vs" using raise_map_units by metis
  show ?thesis using assms us vs by (simp add: validate_receipts_def inbox_ok_def)
qed

section \<open>Changing one row\<close>

lemma unique_row:
  assumes "inbox_ok ib" and "row \<in> set (ib_inputs ib)" and "row' \<in> set (ib_inputs ib)" and "in_seq row' = in_seq row"
  shows "row' = row"
  using assms inj_onD [of in_seq "set (ib_inputs ib)" row' row] by (simp add: inbox_ok_def distinct_map)

lemma filter_one: "distinct xs \<Longrightarrow> length (filter P xs) \<le> 1 \<longleftrightarrow> (\<forall>x \<in> set xs. \<forall>y \<in> set xs. P x \<longrightarrow> P y \<longrightarrow> x = y)"
proof (induction xs)
  case (Cons x xs)
  then have "\<not> P x \<or> length (filter P xs) = 0 \<longleftrightarrow> (P x \<longrightarrow> (\<forall>y \<in> set xs. \<not> P y))" by (simp add: filter_empty_conv)
  with Cons show ?case by (auto simp: filter_empty_conv)
qed simp

lemma one_active_iff:
  assumes "distinct (map in_seq (ib_inputs ib))"
  shows "one_active ib \<longleftrightarrow> (\<forall>x \<in> set (ib_inputs ib). \<forall>y \<in> set (ib_inputs ib).
    in_scope x = in_scope y \<longrightarrow> active (in_status x) \<longrightarrow> active (in_status y) \<longrightarrow> x = y)"
proof -
  have "distinct (ib_inputs ib)" using assms by (simp add: distinct_map)
  then have "one_active ib \<longleftrightarrow> (\<forall>k \<in> in_scope ` set (ib_inputs ib). \<forall>x \<in> set (ib_inputs ib). \<forall>y \<in> set (ib_inputs ib).
      in_scope x = k \<and> active (in_status x) \<longrightarrow> in_scope y = k \<and> active (in_status y) \<longrightarrow> x = y)"
    unfolding one_active_def by (simp only: filter_one)
  then show ?thesis by (simp only: ball_simps) metis
qed

lemma distinct_change:
  assumes "distinct (map key xs)" and "\<And>x. x \<in> set xs \<Longrightarrow> key (f x) = key x"
  shows "distinct (map key (map f xs))"
  using assms by (simp add: comp_def cong: map_cong)

lemma change_row_ok:
  assumes ok: "inbox_ok ib" and row: "row \<in> set (ib_inputs ib)"
    and keeps: "in_seq (f row) = in_seq row" "in_scope (f row) = in_scope row" "in_message (f row) = in_message row"
      "in_payload (f row) = in_payload row"
    and others: "\<And>q. q \<noteq> in_seq row \<Longrightarrow> filter (\<lambda>a. at_seq a = q) as = attempts_on ib q"
    and keys: "distinct (map at_id as)" "\<forall>a \<in> set as. times_ok a \<and> at_id a \<noteq> ''''"
    and cell: "in_status (f row) \<noteq> InReleased" "in_status (f row) = InClaimed \<Longrightarrow> blank (f row)"
      "attempts_ok (f row) (filter (\<lambda>a. at_seq a = in_seq row) as)"
    and act: "active (in_status (f row)) \<Longrightarrow> active (in_status row) \<or>
      (\<forall>r \<in> set (ib_inputs ib). in_scope r = in_scope row \<longrightarrow> \<not> active (in_status r))"
  shows "inbox_ok (set_input (in_seq row) f (ib\<lparr>ib_attempts := as\<rparr>))"
proof -
  let ?ib = "set_input (in_seq row) f (ib\<lparr>ib_attempts := as\<rparr>)"
  define F where "F = (\<lambda>r. if in_seq r = in_seq row then f r else r)"
  have f: "F r = (if r = row then f row else r)" if "r \<in> set (ib_inputs ib)" for r
    using unique_row [OF ok row that] by (auto simp: F_def)
  have inputs: "ib_inputs ?ib = map F (ib_inputs ib)" and rest: "ib_scopes ?ib = ib_scopes ib" "ib_attempts ?ib = as"
    by (simp_all add: set_input_def F_def)
  have same: "in_seq (F r) = in_seq r" "in_scope (F r) = in_scope r" "in_message (F r) = in_message r"
      "in_payload (F r) = in_payload r" if "r \<in> set (ib_inputs ib)" for r
    using f [OF that] keeps by auto
  have seqs: "distinct (map in_seq (ib_inputs ?ib))"
    and msgs: "distinct (map (\<lambda>r. (in_scope r, in_message r)) (ib_inputs ?ib))"
    unfolding inputs using ok same by (auto intro!: distinct_change simp: inbox_ok_def simp del: map_map)
  have image: "in_seq ` set (ib_inputs ?ib) = in_seq ` set (ib_inputs ib)"
    unfolding inputs set_map image_image using same by (intro image_cong) auto
  have "at_seq a \<in> in_seq ` set (ib_inputs ib)" if "a \<in> set as" for a
  proof (cases "at_seq a = in_seq row")
    case False
    have "a \<in> set (filter (\<lambda>b. at_seq b = at_seq a) as)" using that by simp
    then have "a \<in> set (attempts_on ib (at_seq a))" unfolding others [OF False] .
    then have "a \<in> set (ib_attempts ib)" by (simp add: attempts_on_def)
    then show ?thesis using ok by (simp add: inbox_ok_def bound_rows_def)
  qed (use row in simp)
  moreover have "in_scope r \<in> fst ` set (ib_scopes ib)" if "r \<in> set (ib_inputs ?ib)" for r
    using that ok same unfolding inputs by (auto simp: inbox_ok_def bound_rows_def)
  ultimately have bound: "bound_rows ?ib" unfolding bound_rows_def image rest by blast
  have cells: "cell_ok ?ib (F r)" if r: "r \<in> set (ib_inputs ib)" for r
  proof (cases "r = row")
    case True
    have "saved_ok (f row)" using ok row keeps by (auto simp: inbox_ok_def cell_ok_def saved_ok_def)
    then show ?thesis using True cell keeps(1) f [OF row] by (simp add: cell_ok_def attempts_on_def rest)
  next
    case False
    then have "in_seq r \<noteq> in_seq row" using unique_row [OF ok row r] by blast
    then have "attempts_on ?ib (in_seq r) = attempts_on ib (in_seq r)" using others by (simp add: attempts_on_def rest)
    then show ?thesis using False f [OF r] ok r by (simp add: cell_ok_def inbox_ok_def)
  qed
  have "one_active ib" using ok by (simp add: inbox_ok_def)
  then have one: "\<forall>x \<in> set (ib_inputs ib). \<forall>y \<in> set (ib_inputs ib).
      in_scope x = in_scope y \<longrightarrow> active (in_status x) \<longrightarrow> active (in_status y) \<longrightarrow> x = y"
    using ok by (subst (asm) one_active_iff) (simp_all add: inbox_ok_def)
  have clash: "r = row" if r: "r \<in> set (ib_inputs ib)" "in_scope r = in_scope row" "active (in_status r)" "active (in_status (f row))" for r
    using act [OF r(4)] one r row by blast
  have pair: "x = y" if xy: "x \<in> set (ib_inputs ib)" "y \<in> set (ib_inputs ib)" "in_scope (F x) = in_scope (F y)"
      "active (in_status (F x))" "active (in_status (F y))" for x y
  proof (cases "x = row \<or> y = row")
    case True
    then show ?thesis
    proof
      assume "x = row"
      then show ?thesis using clash [OF xy(2)] xy f [OF xy(1)] f [OF xy(2)] keeps(2) by (cases "y = row") simp_all
    next
      assume "y = row"
      then show ?thesis using clash [OF xy(1)] xy f [OF xy(1)] f [OF xy(2)] keeps(2) by (cases "x = row") simp_all
    qed
  next
    case False
    then show ?thesis using one xy f [OF xy(1)] f [OF xy(2)] by simp
  qed
  have "one_active ?ib"
    unfolding one_active_iff [OF seqs] inputs
  proof (intro ballI impI)
    fix x y
    assume "x \<in> set (map F (ib_inputs ib))" "y \<in> set (map F (ib_inputs ib))"
    then obtain x' y' where "x' \<in> set (ib_inputs ib)" "x = F x'" "y' \<in> set (ib_inputs ib)" "y = F y'" unfolding set_map by blast
    moreover assume "in_scope x = in_scope y" "active (in_status x)" "active (in_status y)"
    ultimately show "x = y" using pair [of x' y'] by metis
  qed
  moreover have "\<forall>r \<in> set (ib_inputs ?ib). cell_ok ?ib r" unfolding inputs set_map using cells by (simp only: ball_simps) blast
  ultimately show ?thesis using ok seqs msgs bound keys unfolding inbox_ok_def rest by blast
qed

section \<open>Changing the current attempt\<close>

definition fact_ok :: "attempt_row \<Rightarrow> bool" where
  "fact_ok a \<longleftrightarrow> at_status a \<noteq> InPending \<and> (at_status a \<in> {InClaimed, InReleased, InCancelled} \<longrightarrow> \<not> at_started a) \<and>
     (at_status a \<in> {InRunning, InSucceeded, InInterrupted} \<longrightarrow> at_started a)"

definition agrees :: "input_row \<Rightarrow> attempt_row \<Rightarrow> bool" where
  "agrees row a \<longleftrightarrow> at_id a = in_attempt row \<and> at_status a = in_status row \<and> at_response a = in_response row \<and>
     at_error a = in_error row \<and> at_session a = in_session row"

lemma attempts_ok_none:
  "in_attempt row = '''' \<Longrightarrow> attempts_ok row as \<longleftrightarrow>
     (\<forall>a \<in> set as. fact_ok a \<and> (at_id a \<noteq> '''' \<longrightarrow> \<not> active (at_status a))) \<and>
     in_status row \<in> {InPending, InCancelled} \<and> (in_status row = InPending \<longrightarrow> blank row)"
  by (auto simp: attempts_ok_def fact_ok_def blank_def)

lemma attempts_ok_snoc:
  "in_attempt row \<noteq> '''' \<Longrightarrow> attempts_ok row (bs @ [a]) \<longleftrightarrow>
     (\<forall>b \<in> set bs. fact_ok b \<and> (at_id b \<noteq> in_attempt row \<longrightarrow> \<not> active (at_status b))) \<and> fact_ok a \<and> agrees row a \<and>
     in_status row \<noteq> InPending"
  by (auto simp: attempts_ok_def fact_ok_def agrees_def Let_def)

lemma current_attempt:
  assumes ok: "inbox_ok ib" and row: "row \<in> set (ib_inputs ib)" and cur: "in_attempt row \<noteq> ''''"
  obtains bs a where "attempts_on ib (in_seq row) = bs @ [a]" "agrees row a" "fact_ok a" "times_ok a"
    "\<forall>b \<in> set bs. fact_ok b \<and> at_id b \<noteq> in_attempt row \<and> at_id b \<noteq> '''' \<and> \<not> active (at_status b)" "in_status row \<noteq> InPending"
    "a \<in> set (ib_attempts ib)" "at_seq a = in_seq row"
proof -
  have att: "attempts_ok row (attempts_on ib (in_seq row))" using ok row by (simp add: inbox_ok_def cell_ok_def)
  then have "attempts_on ib (in_seq row) \<noteq> []" using cur by (auto simp: attempts_ok_def)
  then obtain bs a where split: "attempts_on ib (in_seq row) = bs @ [a]" by (cases "attempts_on ib (in_seq row)" rule: rev_cases) auto
  have facts: "\<forall>b \<in> set bs. fact_ok b \<and> (at_id b \<noteq> in_attempt row \<longrightarrow> \<not> active (at_status b))" "fact_ok a" "agrees row a"
      "in_status row \<noteq> InPending"
    using att unfolding split attempts_ok_snoc [OF cur] by blast+
  have "distinct (map at_id (attempts_on ib (in_seq row)))" using ok by (simp add: inbox_ok_def attempts_on_def distinct_map_filter)
  then have "\<forall>b \<in> set bs. at_id b \<noteq> in_attempt row" using facts(3) by (auto simp: split agrees_def image_iff)
  moreover have mem: "a \<in> set (attempts_on ib (in_seq row))" "set bs \<subseteq> set (attempts_on ib (in_seq row))" by (auto simp: split)
  then have "a \<in> set (ib_attempts ib)" "at_seq a = in_seq row" "set bs \<subseteq> set (ib_attempts ib)" by (auto simp: attempts_on_def)
  moreover from this have "times_ok a" "\<forall>b \<in> set bs. at_id b \<noteq> ''''" using ok by (auto simp: inbox_ok_def)
  ultimately show ?thesis using that [OF split facts(3,2)] facts by blast
qed

lemma set_attempt_input:
  "set_attempt i g (set_input q f ib) = set_input q f (ib\<lparr>ib_attempts := map (\<lambda>a. if at_id a = i then g a else a) (ib_attempts ib)\<rparr>)"
  by (simp add: set_attempt_def set_input_def)

lemma change_current:
  assumes ok: "inbox_ok ib" and row: "row \<in> set (ib_inputs ib)" and cur: "in_attempt row \<noteq> ''''"
    and split: "attempts_on ib (in_seq row) = bs @ [a]" and id: "at_id a = in_attempt row"
    and keeps: "in_seq (f row) = in_seq row" "in_scope (f row) = in_scope row" "in_message (f row) = in_message row"
      "in_payload (f row) = in_payload row"
    and g: "at_id (g a) = at_id a" "at_seq (g a) = at_seq a" "times_ok (g a)"
    and cell: "in_status (f row) \<noteq> InReleased" "in_status (f row) = InClaimed \<Longrightarrow> blank (f row)" "attempts_ok (f row) (bs @ [g a])"
    and act: "active (in_status (f row)) \<Longrightarrow> active (in_status row)"
  shows "inbox_ok (set_attempt (in_attempt row) g (set_input (in_seq row) f ib))"
proof -
  define G where "G = (\<lambda>b. if at_id b = in_attempt row then g b else b)"
  have mem: "a \<in> set (ib_attempts ib)" "at_seq a = in_seq row"
    using arg_cong [OF split, of set] by (auto simp: attempts_on_def)
  have ids: "distinct (map at_id (ib_attempts ib))" using ok by (simp add: inbox_ok_def)
  have G: "G b = (if b = a then g a else b)" if "b \<in> set (ib_attempts ib)" for b
    using inj_onD [of at_id "set (ib_attempts ib)" b a] ids that mem(1) unfolding G_def id [symmetric] distinct_map by auto
  have all: "\<forall>b \<in> set (ib_attempts ib). times_ok b \<and> at_id b \<noteq> ''''" using ok by (simp add: inbox_ok_def)
  have same: "at_id (G b) = at_id b" "at_seq (G b) = at_seq b" "times_ok (G b) \<and> at_id (G b) \<noteq> ''''" if "b \<in> set (ib_attempts ib)" for b
    using G [OF that] g all [rule_format, OF that] by (cases "b = a"; simp)+
  have flt: "filter (\<lambda>b. at_seq b = q) (map G (ib_attempts ib)) = map G (attempts_on ib q)" for q
  proof -
    have "filter (\<lambda>b. at_seq (G b) = q) (ib_attempts ib) = attempts_on ib q"
      unfolding attempts_on_def using same(2) by (intro filter_cong) auto
    then show ?thesis by (simp add: filter_map comp_def)
  qed
  have sub: "set (attempts_on ib q) \<subseteq> {b \<in> set (ib_attempts ib). at_seq b = q}" for q by (auto simp: attempts_on_def)
  have "distinct (attempts_on ib (in_seq row))" using ids by (simp add: attempts_on_def distinct_map)
  then have "map G (attempts_on ib (in_seq row)) = bs @ [g a]"
    using G sub [of "in_seq row"] unfolding split by (auto intro!: map_idI)
  note here = trans [OF flt this]
  have "map G (attempts_on ib q) = attempts_on ib q" if "q \<noteq> in_seq row" for q
    using G sub [of q] mem(2) that by (intro map_idI) auto
  note others = trans [OF flt this]
  have "inbox_ok (set_input (in_seq row) f (ib\<lparr>ib_attempts := map G (ib_attempts ib)\<rparr>))"
  proof (rule change_row_ok [where f = f and row = row, OF ok row keeps])
    show "filter (\<lambda>a. at_seq a = q) (map G (ib_attempts ib)) = attempts_on ib q" if "q \<noteq> in_seq row" for q by (rule others [OF that])
    show "distinct (map at_id (map G (ib_attempts ib)))" using ids same(1) by (intro distinct_change) auto
    show "\<forall>b \<in> set (map G (ib_attempts ib)). times_ok b \<and> at_id b \<noteq> ''''" using same(3) by auto
    show "attempts_ok (f row) (filter (\<lambda>b. at_seq b = in_seq row) (map G (ib_attempts ib)))" unfolding here by (rule cell(3))
  qed (use cell act in simp_all)
  then show ?thesis unfolding set_attempt_input G_def .
qed

section \<open>Operations\<close>

lemma atomically_keeps:
  assumes "P s" and "\<And>s' x. w s = Inr (s', x) \<Longrightarrow> P s'"
  shows "P (fst (atomically w s))"
  using assms by (auto simp: atomically_def split: sum.split prod.split)

lemma found_row: "find_row k i ib = Some row \<Longrightarrow> row \<in> set (ib_inputs ib) \<and> in_scope row = k \<and> in_message row = i"
  by (auto simp: find_row_def find_Some_iff)

lemma selected_row: "select_row k i ib = Inr row \<Longrightarrow> row \<in> set (ib_inputs ib) \<and> in_scope row = k \<and> in_message row = i"
  using found_row by (auto simp: select_row_def split: option.splits)

lemma reread_Inr: "reread k i ib = Inr (ib', x) \<Longrightarrow> ib' = ib"
  by (auto simp: reread_def raise_bind_Inr_iff)

lemma attempt_of_Inr:
  "attempt_of r st ib = Inr (k, row) \<Longrightarrow> record_key r = Inr k \<and> row \<in> set (ib_inputs ib) \<and> in_scope row = fst k \<and>
     in_message row = snd k \<and> in_attempt row = ir_attempt r \<and> ir_attempt r \<noteq> '''' \<and> in_status row = st"
  using selected_row by (fastforce simp: attempt_of_def raise_bind_Inr_iff split: if_splits)

lemma advance_Inr:
  assumes "advance r st g f ib = Inr (ib', x)"
  obtains k row where "attempt_of r st ib = Inr (k, row)"
    "ib' = set_attempt (ir_attempt r) (g row) (set_input (in_seq row) f ib)"
  using assms by (auto simp: advance_def raise_bind_Inr_iff dest: reread_Inr)

lemma advance_ok:
  assumes ok: "inbox_ok ib" and adv: "advance r st g f ib = Inr (ib', x)"
    and f: "\<And>row. in_seq (f row) = in_seq row \<and> in_scope (f row) = in_scope row \<and> in_message (f row) = in_message row \<and>
      in_payload (f row) = in_payload row"
    and g: "\<And>row a. at_id (g row a) = at_id a \<and> at_seq (g row a) = at_seq a"
    and new: "\<And>row a. in_status row = st \<Longrightarrow> agrees row a \<Longrightarrow> fact_ok a \<Longrightarrow> times_ok a \<Longrightarrow> (st = InClaimed \<longrightarrow> blank row) \<Longrightarrow>
      times_ok (g row a) \<and> fact_ok (g row a) \<and> in_status (f row) \<notin> {InReleased, InClaimed} \<and>
      (active (in_status (f row)) \<longrightarrow> active st) \<and>
      (agrees (f row) (g row a) \<and> in_status (f row) \<noteq> InPending \<or>
       in_attempt (f row) = '''' \<and> \<not> active (at_status (g row a)) \<and> in_status (f row) = InPending \<and> blank (f row))"
  shows "inbox_ok ib'"
proof -
  obtain k row where k: "attempt_of r st ib = Inr (k, row)" and ib': "ib' = set_attempt (ir_attempt r) (g row) (set_input (in_seq row) f ib)"
    using adv by (rule advance_Inr)
  have row: "row \<in> set (ib_inputs ib)" "in_attempt row = ir_attempt r" "in_attempt row \<noteq> ''''" "in_status row = st"
    using attempt_of_Inr [OF k] by auto
  obtain bs a where cur: "attempts_on ib (in_seq row) = bs @ [a]" "agrees row a" "fact_ok a" "times_ok a"
      "\<forall>b \<in> set bs. fact_ok b \<and> at_id b \<noteq> in_attempt row \<and> at_id b \<noteq> '''' \<and> \<not> active (at_status b)"
    using current_attempt [OF ok row(1,3)] by metis
  have "st = InClaimed \<longrightarrow> blank row" using ok row(1,4) by (auto simp: inbox_ok_def cell_ok_def)
  note n = new [OF row(4) cur(2-4) this]
  have "attempts_ok (f row) (bs @ [g row a])"
  proof (cases "in_attempt (f row) = ''''")
    case True
    then show ?thesis using n cur(2,5) row(3) g [of row a] by (auto simp: attempts_ok_none agrees_def)
  next
    case False
    then show ?thesis using n cur(2,5) g [of row a] by (auto simp: attempts_ok_snoc agrees_def)
  qed
  then show ?thesis unfolding ib' row(2) [symmetric]
    using change_current [OF ok row(1,3) cur(1), of f "g row"] cur(2) f g n row(4) by (simp add: agrees_def)
qed

definition uuid_hex :: "string \<Rightarrow> bool" where
  "uuid_hex s \<longleftrightarrow> length s = 32 \<and> (\<forall>c \<in> set s. is_hex c)"

lemma erase_none: "(\<exists>c \<in> set p. c \<notin> set s) \<Longrightarrow> erase p 0 s = s"
proof (induction s)
  case (Cons c s)
  have "take (length p) (c # s) \<noteq> p" using Cons.prems by (metis in_set_takeD)
  then show ?case using Cons by (auto simp: starts_with_def)
qed simp

lemma hex_char:
  "is_hex c \<Longrightarrow> c \<noteq> CHR '':'' \<and> \<not> is_brace c \<and> c \<noteq> CHR ''-'' \<and> c \<noteq> CHR ''+'' \<and> c \<noteq> CHR ''x'' \<and> c \<noteq> CHR ''X'' \<and> c \<noteq> CHR ''_'' \<and>
     \<not> is_space c"
  by (auto simp: is_hex_def is_brace_def is_space_def Let_def)

lemma hex_digits_all: "s \<noteq> [] \<Longrightarrow> \<forall>c \<in> set s. is_hex c \<Longrightarrow> hex_digits s"
proof (induction s)
  case (Cons c s)
  then show ?case by (cases s) (auto dest: hex_char)
qed simp

lemma uuid_hex_ok:
  assumes "uuid_hex s"
  shows "uuid_ok s"
proof -
  have len: "length s = 32" and hex: "\<And>c. c \<in> set s \<Longrightarrow> is_hex c" using assms by (simp_all add: uuid_hex_def)
  have "CHR '':'' \<notin> set s" using hex hex_char by blast
  then have e: "erase ''uuid:'' 0 (erase ''urn:'' 0 s) = s" by (simp add: erase_none)
  have b: "\<forall>c \<in> set s. \<not> is_brace c" and m: "\<forall>c \<in> set s. c \<noteq> CHR ''-''" and sp: "\<forall>c \<in> set s. \<not> is_space c" using hex hex_char by blast+
  have f: "filter (\<lambda>c. c \<noteq> CHR ''-'') (rev (dropWhile is_brace (rev (dropWhile is_brace s)))) = s"
    using b m by (simp add: dropWhile_none filter_id_conv)
  obtain c d s' where s: "s = c # d # s'" using len by (metis Suc_length_conv numeral_eq_Suc pred_numeral_simps(2) numeral_One)
  have "\<not> starts_with ''+'' s" "\<not> starts_with ''-'' s" "hex_prefix s = s"
    using hex_char [OF hex, of c] hex_char [OF hex, of d] by (simp_all add: s starts_with_def hex_prefix_def)
  moreover have "hex_digits s" using hex s by (intro hex_digits_all) auto
  ultimately show ?thesis using len sp unfolding uuid_ok_def e f Let_def is_hex_int_def strip_id [OF sp] by simp
qed

lemma valid_time_None [simp]: "valid_time None"
  by (simp add: valid_time_def)

lemma times_ok_iff:
  "times_ok a \<longleftrightarrow> valid_time (at_started_at a) \<and> valid_time (at_settled_at a) \<and> (at_started_at a \<noteq> None \<longrightarrow> at_started a) \<and>
     (at_settled_at a \<noteq> None \<longrightarrow> at_started_at a \<noteq> None \<and> at_status a \<in> {InSucceeded, InFailed, InInterrupted}) \<and>
     (if at_status a = InRunning then at_started_at a \<noteq> None else at_started_at a \<noteq> None \<longrightarrow> at_settled_at a \<noteq> None)"
  by (auto simp: times_ok_def execution_times_def Let_def)

lemma one_active_all: "one_active ib \<Longrightarrow> length (filter (\<lambda>row. in_scope row = k \<and> active (in_status row)) (ib_inputs ib)) \<le> 1"
proof (cases "k \<in> in_scope ` set (ib_inputs ib)")
  case False
  then have "filter (\<lambda>row. in_scope row = k \<and> active (in_status row)) (ib_inputs ib) = []" by (auto simp: filter_empty_conv)
  then show ?thesis by simp
qed (auto simp: one_active_def)

lemma next_row_above: "row \<in> set (ib_inputs ib) \<Longrightarrow> in_seq row < next_row ib"
proof -
  have m: "x \<le> fold max xs k" if "x \<in> set xs \<or> x \<le> k" for x k :: int and xs
    using that by (induction xs arbitrary: k) (auto simp: le_max_iff_disj)
  then show "row \<in> set (ib_inputs ib) \<Longrightarrow> in_seq row < next_row ib"
    using m [of "in_seq row" "map in_seq (ib_inputs ib)" 0] by (simp add: next_row_def zle_add1_eq_le)
qed

lemma bind_keeps:
  assumes ok: "inbox_ok ib" and bind: "bind_scope (scope_key sc) hex ib = Inr (ib', ns)" and hex: "uuid_hex hex" and sc: "scope_ok sc"
  shows "inbox_ok ib' \<and> scope_key sc \<in> fst ` set (ib_scopes ib') \<and> ib_inputs ib' = ib_inputs ib \<and> ib_attempts ib' = ib_attempts ib"
proof (cases "map_of (ib_scopes ib) (scope_key sc)")
  case None
  then have ib': "ib' = ib\<lparr>ib_scopes := ib_scopes ib @ [(scope_key sc, hex)]\<rparr>" and new: "hex \<notin> snd ` set (ib_scopes ib)"
    using bind by (auto simp: bind_scope_def split: if_splits)
  have "scope_key sc \<notin> fst ` set (ib_scopes ib)" using None by (simp add: map_of_eq_None_iff)
  moreover have "validate_scope (scope_key sc, hex) = Inr ()"
    using sc uuid_hex_ok [OF hex] by (simp add: validate_scope_def scope_key_def scope_ok_def)
  moreover have "bound_rows ib'" "one_active ib'" "\<forall>row \<in> set (ib_inputs ib). cell_ok ib' row"
    using ok by (auto simp: ib' inbox_ok_def bound_rows_def one_active_def cell_ok_def attempts_on_def)
  ultimately show ?thesis using ok new by (simp add: inbox_ok_def ib')
next
  case (Some n)
  then show ?thesis using ok bind by (auto simp: bind_scope_def image_iff dest!: map_of_SomeD intro: rev_bexI)
qed

lemma saved_message: "envelope_ok e \<Longrightarrow> encode_envelope e = Inr p \<Longrightarrow> envelope_message e = Inr m \<Longrightarrow>
    in_payload row = p \<Longrightarrow> in_scope row = scope_key (ev_scope e) \<Longrightarrow> in_message row = si_id m \<Longrightarrow> saved_ok row"
  by (auto simp: saved_ok_def)

lemma add_row_ok:
  assumes ok: "inbox_ok ib" and row: "saved_ok row" "in_seq row = next_row ib" "in_status row = InPending" "in_attempt row = ''''" "blank row"
    and bound: "in_scope row \<in> fst ` set (ib_scopes ib)" and new: "find_row (in_scope row) (in_message row) ib = None"
  shows "inbox_ok (ib\<lparr>ib_inputs := ib_inputs ib @ [row]\<rparr>)"
proof -
  let ?ib = "ib\<lparr>ib_inputs := ib_inputs ib @ [row]\<rparr>"
  have same: "attempts_on ?ib q = attempts_on ib q" for q by (simp add: attempts_on_def)
  have above: "in_seq r < in_seq row" if "r \<in> set (ib_inputs ib)" for r using next_row_above [OF that] row(2) by simp
  have seqs: "distinct (map in_seq (ib_inputs ?ib))" using ok above by (force simp: inbox_ok_def)
  have msgs: "distinct (map (\<lambda>r. (in_scope r, in_message r)) (ib_inputs ?ib))"
    using ok new by (force simp: inbox_ok_def find_row_def find_None_iff)
  have "attempts_on ib (in_seq row) = []"
    using ok above by (fastforce simp: attempts_on_def inbox_ok_def bound_rows_def filter_empty_conv)
  then have cell: "cell_ok ?ib row" using row by (simp add: cell_ok_def same attempts_ok_none)
  have cells: "cell_ok ?ib r" if "r \<in> set (ib_inputs ib)" for r using ok that by (simp add: cell_ok_def same inbox_ok_def)
  have "\<not> active (in_status row)" using row(3) by (simp add: active_def)
  then have "one_active ?ib" using ok one_active_all [of ib] by (auto simp: inbox_ok_def one_active_def)
  moreover have "bound_rows ?ib" using ok bound by (auto simp: inbox_ok_def bound_rows_def)
  ultimately show ?thesis using ok seqs msgs cell cells unfolding inbox_ok_def by simp
qed

lemma enqueue_keeps:
  assumes ok: "inbox_ok ib" and e: "envelope_ok e" and hex: "uuid_hex hex"
  shows "inbox_ok (fst (enqueue maximum e hex ib))"
proof -
  have "inbox_ok ib'" if w: "enqueue_write maximum e hex ib = Inr (ib', x)" for ib' x
  proof -
    obtain p m where p: "encode_envelope e = Inr p" and m: "envelope_message e = Inr m"
      using w unfolding enqueue_write_def raise_bind_Inr_iff by blast
    let ?k = "scope_key (ev_scope e)"
    show ?thesis
    proof (cases "find_row ?k (si_id m) ib")
      case None
      obtain ib1 ns where b: "bind_scope ?k hex ib = Inr (ib1, ns)"
        and ib': "ib' = ib1\<lparr>ib_inputs := ib_inputs ib1 @
             [\<lparr>in_seq = next_row ib1, in_scope = ?k, in_message = si_id m, in_payload = p, in_status = InPending,
               in_attempt = '''', in_response = '''', in_error = '''', in_session = ''''\<rparr>]\<rparr>"
        using w None by (auto simp: enqueue_write_def p m raise_bind_Inr_iff Let_def)
      have sc: "scope_ok (ev_scope e)" using e by (simp add: envelope_ok_def)
      note b1 = bind_keeps [OF ok b hex sc]
      show ?thesis unfolding ib'
        by (rule add_row_ok) (use b1 None saved_message [OF e p m] in \<open>simp_all add: blank_def find_row_def\<close>)
    next
      case (Some row)
      then show ?thesis using w ok by (auto simp: enqueue_write_def p m raise_bind_Inr_iff Let_def split: if_splits)
    qed
  qed
  then show ?thesis using ok by (auto simp: enqueue_def intro: atomically_keeps)
qed

lemma claim_keeps:
  assumes ok: "inbox_ok ib" and hex: "hex \<noteq> ''''"
  shows "inbox_ok (fst (claim_input sc hex ib))"
  unfolding claim_input_def
proof (rule atomically_keeps [where P = inbox_ok, OF ok])
  fix ib' x
  assume w: "claim_write sc hex ib = Inr (ib', x)"
  show "inbox_ok ib'"
  proof (cases "ib' = ib")
    case False
    then obtain row where idle: "\<not> (\<exists>r \<in> set (ib_inputs ib). in_scope r = scope_key sc \<and> active (in_status r))"
      and row: "find (\<lambda>row. in_scope row = scope_key sc \<and> in_status row = InPending) (ib_inputs ib) = Some row"
      and new: "hex \<notin> at_id ` set (ib_attempts ib)"
      and ib': "ib' = set_input (in_seq row) (\<lambda>r. r\<lparr>in_status := InClaimed, in_attempt := hex\<rparr>)
                 (ib\<lparr>ib_attempts := ib_attempts ib @ [new_attempt hex (in_seq row)]\<rparr>)"
      using w by (auto simp: claim_write_def Let_def raise_bind_Inr_iff dest!: reread_Inr split: if_splits option.splits)
    have r: "row \<in> set (ib_inputs ib)" "in_scope row = scope_key sc" "in_status row = InPending"
      using row by (auto simp: find_Some_iff)
    have cell: "attempts_ok row (attempts_on ib (in_seq row))" using ok r(1) by (simp add: inbox_ok_def cell_ok_def)
    then have none: "in_attempt row = ''''" and bl: "blank row" using r(3) by (auto simp: attempts_ok_def blank_def)
    have past: "\<forall>a \<in> set (attempts_on ib (in_seq row)). fact_ok a \<and> \<not> active (at_status a)"
      using cell ok none by (auto simp: attempts_ok_none [OF none] attempts_on_def inbox_ok_def)
    show ?thesis unfolding ib'
    proof (rule change_row_ok [where row = row, OF ok r(1)])
      show "attempts_ok (row\<lparr>in_status := InClaimed, in_attempt := hex\<rparr>)
          (filter (\<lambda>a. at_seq a = in_seq row) (ib_attempts ib @ [new_attempt hex (in_seq row)]))"
        using past hex bl by (simp add: attempts_on_def [symmetric] new_attempt_def attempts_ok_snoc)
          (simp add: fact_ok_def agrees_def blank_def)
      show "\<forall>a \<in> set (ib_attempts ib @ [new_attempt hex (in_seq row)]). times_ok a \<and> at_id a \<noteq> ''''"
        using ok hex by (auto simp: inbox_ok_def new_attempt_def times_ok_iff)
    qed (use ok new idle r bl in \<open>auto simp: inbox_ok_def new_attempt_def attempts_on_def blank_def\<close>)
  qed (use ok in simp)
qed

lemma start_keeps:
  assumes ok: "inbox_ok ib" and now: "valid_time (Some now)"
  shows "inbox_ok (fst (start_input r session now ib))"
  unfolding start_input_def
proof (rule atomically_keeps [where P = inbox_ok, OF ok], erule advance_ok [OF ok], goal_cases)
  case (3 ib' x row a)
  then show ?case using now by (auto simp: agrees_def fact_ok_def times_ok_iff active_def blank_def)
qed simp_all

lemma finish_keeps:
  assumes ok: "inbox_ok ib" and now: "valid_time (Some now)"
  shows "inbox_ok (fst (finish_input r st response err session now ib))"
proof (cases "st \<notin> {InSucceeded, InFailed, InInterrupted} \<or> MAX_RECEIPT_BYTES < byte_length response + byte_length err")
  case False
  show ?thesis
    unfolding finish_input_def if_not_P [OF False]
  proof (rule atomically_keeps [where P = inbox_ok, OF ok], erule advance_ok [OF ok], goal_cases)
    case (3 ib' x row a)
    then show ?case using now False
      by (auto simp: agrees_def fact_ok_def times_ok_iff active_def kept_session_def)
  qed simp_all
qed (use ok in \<open>simp add: finish_input_def\<close>)

lemma release_keeps:
  assumes ok: "inbox_ok ib"
  shows "inbox_ok (fst (release_input r ib))"
  unfolding release_input_def
proof (rule atomically_keeps [where P = inbox_ok, OF ok], erule advance_ok [OF ok], goal_cases)
  case (3 ib' x row a)
  then show ?case by (auto simp: agrees_def fact_ok_def times_ok_iff active_def blank_def)
qed simp_all

lemma reject_keeps:
  assumes ok: "inbox_ok ib"
  shows "inbox_ok (fst (reject_input r err ib))"
proof (cases "strip err = [] \<or> MAX_RECEIPT_BYTES < byte_length err")
  case False
  show ?thesis
    unfolding reject_input_def if_not_P [OF False]
  proof (rule atomically_keeps [where P = inbox_ok, OF ok], erule advance_ok [OF ok], goal_cases)
    case (3 ib' x row a)
    then show ?case by (auto simp: agrees_def fact_ok_def times_ok_iff active_def)
  qed simp_all
qed (use ok in \<open>simp add: reject_input_def\<close>)


lemma cancel_keeps:
  assumes ok: "inbox_ok ib"
  shows "inbox_ok (fst (cancel_input sc i ib))"
  unfolding cancel_input_def
proof (rule atomically_keeps [where P = inbox_ok, OF ok])
  fix ib' x
  assume w: "cancel_write sc i ib = Inr (ib', x)"
  let ?f = "\<lambda>r. r\<lparr>in_status := InCancelled\<rparr> :: input_row" and ?g = "\<lambda>a. a\<lparr>at_status := InCancelled\<rparr> :: attempt_row"
  obtain row where sel: "select_row (scope_key sc) i ib = Inr row" using w by (auto simp: cancel_write_def raise_bind_Inr_iff)
  have row: "row \<in> set (ib_inputs ib)" using selected_row [OF sel] by simp
  have cell: "cell_ok ib row" using ok row by (simp add: inbox_ok_def)
  consider "ib' = ib"
    | "in_status row \<in> {InPending, InClaimed}" "in_attempt row \<noteq> ''''"
      "ib' = set_attempt (in_attempt row) ?g (set_input (in_seq row) ?f ib)"
    | "in_status row \<in> {InPending, InClaimed}" "in_attempt row = ''''" "ib' = set_input (in_seq row) ?f ib"
    using w by (auto simp: cancel_write_def sel Let_def raise_bind_Inr_iff dest!: reread_Inr split: if_splits)
  then show "inbox_ok ib'"
  proof cases
    case 1
    then show ?thesis using ok by simp
  next
    case 2
    obtain bs a where cur: "attempts_on ib (in_seq row) = bs @ [a]" "agrees row a" "fact_ok a" "times_ok a"
        "\<forall>b \<in> set bs. fact_ok b \<and> at_id b \<noteq> in_attempt row \<and> at_id b \<noteq> '''' \<and> \<not> active (at_status b)" "in_status row \<noteq> InPending"
      using current_attempt [OF ok row 2(2)] by metis
    have st: "in_status row = InClaimed" using 2(1) cur(6) by simp
    have "times_ok (?g a)" using cur(2-4) st by (auto simp: times_ok_iff agrees_def fact_ok_def)
    moreover have "attempts_ok (?f row) (bs @ [?g a])"
      using cur(2,3,5) 2(2) st by (simp add: attempts_ok_snoc) (simp add: fact_ok_def agrees_def)
    ultimately show ?thesis unfolding 2(3)
      using change_current [OF ok row 2(2) cur(1), of ?f ?g] cur(2) by (simp add: agrees_def active_def)
  next
    case 3
    have "attempts_ok (?f row) (attempts_on ib (in_seq row))"
      using cell 3(2) by (auto simp: cell_ok_def attempts_ok_none)
    then have "inbox_ok (set_input (in_seq row) ?f (ib\<lparr>ib_attempts := ib_attempts ib\<rparr>))"
      by (intro change_row_ok [OF ok row]) (use ok in \<open>auto simp: attempts_on_def [symmetric] inbox_ok_def active_def\<close>)
    then show ?thesis by (simp add: 3(3))
  qed
qed

lemma retry_keeps:
  assumes ok: "inbox_ok ib"
  shows "inbox_ok (fst (retry_input maximum sc i ib))"
  unfolding retry_input_def
proof (rule atomically_keeps [where P = inbox_ok, OF ok])
  fix ib' x
  assume w: "retry_write maximum sc i ib = Inr (ib', x)"
  let ?f = "\<lambda>r. r\<lparr>in_status := InPending, in_attempt := '''', in_response := '''', in_error := '''', in_session := ''''\<rparr> :: input_row"
  obtain row where sel: "select_row (scope_key sc) i ib = Inr row" and st: "in_status row \<in> {InFailed, InInterrupted}"
    and ib': "ib' = set_input (in_seq row) ?f ib"
    using w by (auto simp: retry_write_def raise_bind_Inr_iff dest!: reread_Inr split: if_splits)
  have row: "row \<in> set (ib_inputs ib)" using selected_row [OF sel] by simp
  have cur: "in_attempt row \<noteq> ''''" using ok row st by (auto simp: inbox_ok_def cell_ok_def attempts_ok_def)
  obtain bs a where "attempts_on ib (in_seq row) = bs @ [a]" "agrees row a" "fact_ok a"
      "\<forall>b \<in> set bs. fact_ok b \<and> \<not> active (at_status b)"
    using current_attempt [OF ok row cur] by metis
  then have "attempts_ok (?f row) (attempts_on ib (in_seq row))"
    using st by (auto simp: attempts_ok_none agrees_def active_def blank_def)
  then have "inbox_ok (set_input (in_seq row) ?f (ib\<lparr>ib_attempts := ib_attempts ib\<rparr>))"
    by (intro change_row_ok [OF ok row]) (use ok in \<open>auto simp: attempts_on_def [symmetric] inbox_ok_def active_def\<close>)
  then show "inbox_ok ib'" by (simp add: ib')
qed

section \<open>Recovery\<close>

lemma recover_input_keeps [simp]:
  "in_seq (recover_input row) = in_seq row" "in_scope (recover_input row) = in_scope row"
  "in_message (recover_input row) = in_message row" "in_payload (recover_input row) = in_payload row"
  "\<not> active (in_status (recover_input row))"
  by (simp_all add: recover_input_def active_def)

lemma recover_attempt_keeps [simp]:
  "at_id (recover_attempt now a) = at_id a" "at_seq (recover_attempt now a) = at_seq a"
  "\<not> active (at_status (recover_attempt now a))"
  by (simp_all add: recover_attempt_def active_def)

lemma recover_attempts_of: "attempts_on (recover_inbox now ib) q = map (recover_attempt now) (attempts_on ib q)"
  by (simp add: attempts_on_def recover_inbox_def filter_map comp_def)

lemma recover_facts:
  "fact_ok a \<Longrightarrow> fact_ok (recover_attempt now a)"
  "times_ok a \<Longrightarrow> fact_ok a \<Longrightarrow> valid_time (Some now) \<Longrightarrow> times_ok (recover_attempt now a)"
  by (auto simp: fact_ok_def recover_attempt_def times_ok_iff)

lemma recover_cell:
  assumes ok: "inbox_ok ib" and row: "row \<in> set (ib_inputs ib)"
  shows "cell_ok (recover_inbox now ib) (recover_input row)"
proof -
  have cell: "cell_ok ib row" using ok row by (simp add: inbox_ok_def)
  have "attempts_ok (recover_input row) (map (recover_attempt now) (attempts_on ib (in_seq row)))"
  proof (cases "in_attempt row = ''''")
    case True
    then have "in_status row \<in> {InPending, InCancelled}" "\<forall>a \<in> set (attempts_on ib (in_seq row)). fact_ok a"
        "in_status row = InPending \<longrightarrow> blank row"
      using cell by (simp_all add: cell_ok_def attempts_ok_none)
    then show ?thesis using True by (auto simp: recover_input_def attempts_ok_none recover_facts)
  next
    case False
    obtain bs a where cur: "attempts_on ib (in_seq row) = bs @ [a]" "agrees row a" "fact_ok a"
        "\<forall>b \<in> set bs. fact_ok b \<and> at_id b \<noteq> in_attempt row \<and> \<not> active (at_status b)" "in_status row \<noteq> InPending"
      using current_attempt [OF ok row False] by metis
    show ?thesis
    proof (cases "in_status row = InClaimed")
      case True
      then have "blank row" using cell by (simp add: cell_ok_def)
      then show ?thesis using True cur by (auto simp: recover_input_def attempts_ok_none recover_facts blank_def)
    next
      case no: False
      have "agrees (recover_input row) (recover_attempt now a)"
        using cur(2) no by (auto simp: agrees_def recover_input_def recover_attempt_def)
      then show ?thesis using False no cur by (auto simp: recover_input_def attempts_ok_snoc recover_facts)
    qed
  qed
  then show ?thesis using cell
    by (auto simp: cell_ok_def recover_attempts_of saved_ok_def recover_input_def split: if_splits)
qed

lemma recover_keeps:
  assumes ok: "inbox_ok ib" and now: "valid_time (Some now)"
  shows "inbox_ok (recover_inbox now ib)"
proof -
  have facts: "fact_ok a" if a: "a \<in> set (ib_attempts ib)" for a
  proof -
    obtain row where row: "row \<in> set (ib_inputs ib)" "at_seq a = in_seq row" using ok a by (auto simp: inbox_ok_def bound_rows_def)
    then have "a \<in> set (attempts_on ib (in_seq row))" "attempts_ok row (attempts_on ib (in_seq row))"
      using ok a by (auto simp: attempts_on_def inbox_ok_def cell_ok_def)
    then show ?thesis by (auto simp: attempts_ok_def fact_ok_def)
  qed
  have "distinct (map in_seq (ib_inputs (recover_inbox now ib)))"
      "distinct (map (\<lambda>row. (in_scope row, in_message row)) (ib_inputs (recover_inbox now ib)))"
      "distinct (map at_id (ib_attempts (recover_inbox now ib)))"
    using ok by (simp_all add: inbox_ok_def recover_inbox_def comp_def)
  moreover have "\<forall>a \<in> set (ib_attempts (recover_inbox now ib)). times_ok a \<and> at_id a \<noteq> ''''"
    using ok facts recover_facts(2) [OF _ _ now] by (auto simp: inbox_ok_def recover_inbox_def)
  moreover have "\<forall>row \<in> set (ib_inputs (recover_inbox now ib)). cell_ok (recover_inbox now ib) row"
    using recover_cell [OF ok] by (auto simp: recover_inbox_def)
  moreover have "one_active (recover_inbox now ib)"
    by (auto simp: one_active_def recover_inbox_def filter_map comp_def)
  moreover have "bound_rows (recover_inbox now ib)" using ok by (auto simp: inbox_ok_def bound_rows_def recover_inbox_def image_image)
  ultimately show ?thesis using ok unfolding inbox_ok_def by (simp add: recover_inbox_def)
qed

end
