(* ===== verification/Input_Runs.thy ===== *)
theory Input_Runs
  imports Input_Inv Machine
begin

text \<open>
  Runs of the inbox: the calls of the intake, the consumer and the operator in any order, with the
  process dying and the inbox being opened again between any two of them. \<open>stage\<close> is the status of
  one accepted message, and every call moves it along the automaton \<open>quiet_move\<close>, or starts or
  retries it.
\<close>

section \<open>Calls\<close>

datatype input_op =
    Accept int envelope string
  | BindScope input_scope string
  | ClaimNext input_scope string
  | StartInput input_record string pyfloat
  | FinishInput input_record input_status string string string pyfloat
  | ReleaseInput input_record
  | RejectInput input_record string
  | CancelInput input_scope string
  | RetryInput int input_scope string
  | RestartInbox pyfloat

definition succeeded :: "'s \<times> (goal_exc + 'a) \<Rightarrow> 's \<times> bool" where
  "succeeded p = (fst p, case snd p of Inl _ \<Rightarrow> False | Inr _ \<Rightarrow> True)"

text \<open>The inbox after a call, and whether the call raised nothing.\<close>

fun run_input :: "input_op \<Rightarrow> inbox \<Rightarrow> inbox \<times> bool" where
  "run_input (Accept maximum e hex) ib = succeeded (enqueue maximum e hex ib)"
| "run_input (BindScope sc hex) ib = succeeded (bind_input sc hex ib)"
| "run_input (ClaimNext sc hex) ib = succeeded (claim_input sc hex ib)"
| "run_input (StartInput r session now) ib = succeeded (start_input r session now ib)"
| "run_input (FinishInput r st response err session now) ib = succeeded (finish_input r st response err session now ib)"
| "run_input (ReleaseInput r) ib = succeeded (release_input r ib)"
| "run_input (RejectInput r err) ib = succeeded (reject_input r err ib)"
| "run_input (CancelInput sc i) ib = succeeded (cancel_input sc i ib)"
| "run_input (RetryInput maximum sc i) ib = succeeded (retry_input maximum sc i ib)"
| "run_input (RestartInbox now) ib = (recover_inbox now ib, True)"

text \<open>
  The arguments a call can have: envelopes and scopes their constructors made, what
  \<open>uuid4().hex\<close> returns, a clock that is finite and after 1970.
\<close>

fun typed_input :: "input_op \<Rightarrow> bool" where
  "typed_input (Accept maximum e hex) = (envelope_ok e \<and> uuid_hex hex)"
| "typed_input (BindScope sc hex) = (scope_ok sc \<and> uuid_hex hex)"
| "typed_input (ClaimNext sc hex) = uuid_hex hex"
| "typed_input (StartInput r session now) = valid_time (Some now)"
| "typed_input (FinishInput r st response err session now) = valid_time (Some now)"
| "typed_input (RestartInbox now) = valid_time (Some now)"
| "typed_input op = True"

definition inbox_step :: "inbox \<Rightarrow> input_op \<times> bool \<Rightarrow> inbox \<Rightarrow> bool" where
  "inbox_step ib e ib' \<longleftrightarrow> typed_input (fst e) \<and> run_input (fst e) ib = (ib', snd e)"

lemma succeeded_fst [simp]: "fst (succeeded p) = fst p"
  by (simp add: succeeded_def)

lemma new_inbox_ok: "inbox_ok new_inbox"
  by (simp add: inbox_ok_def new_inbox_def bound_rows_def one_active_def)

lemma bind_input_ok: "inbox_ok ib \<Longrightarrow> scope_ok sc \<Longrightarrow> uuid_hex hex \<Longrightarrow> inbox_ok (fst (bind_input sc hex ib))"
  unfolding bind_input_def using bind_keeps by (intro atomically_keeps [where P = inbox_ok]) blast+

lemma uuid_nonempty: "uuid_hex hex \<Longrightarrow> hex \<noteq> ''''"
  by (auto simp: uuid_hex_def)

lemma input_step_ok: "inbox_step ib e ib' \<Longrightarrow> inbox_ok ib \<Longrightarrow> inbox_ok ib'"
proof -
  assume s: "inbox_step ib e ib'" and ok: "inbox_ok ib"
  have "inbox_ok (fst (run_input op ib))" if "typed_input op" for op
    using that ok
    by (cases op) (simp_all add: enqueue_keeps bind_input_ok claim_keeps start_keeps finish_keeps release_keeps reject_keeps
      cancel_keeps retry_keeps recover_keeps uuid_nonempty)
  from this [of "fst e"] s show ?thesis by (simp add: inbox_step_def)
qed

interpretation inbox: bounded_machine inbox_step inbox_ok "\<lambda>_. 0" "\<lambda>_ _. False"
  by unfold_locales (auto intro: input_step_ok)

lemma run_inbox_ok: "trace inbox_step new_inbox es ib \<Longrightarrow> inbox_ok ib"
  by (rule inbox.trace_inv [OF _ new_inbox_ok])

section \<open>The stage of a message\<close>

type_synonym input_key = "(string \<times> string) \<times> string"

definition stage :: "inbox \<Rightarrow> input_key \<Rightarrow> input_status option" where
  "stage ib k = map_option in_status (find_row (fst k) (snd k) ib)"

fun starts :: "input_key \<Rightarrow> input_op \<times> bool \<Rightarrow> bool" where
  "starts k (StartInput r session now, won) \<longleftrightarrow> won \<and> record_key r = Inr k"
| "starts k _ \<longleftrightarrow> False"

fun retries :: "input_key \<Rightarrow> input_op \<times> bool \<Rightarrow> bool" where
  "retries k (RetryInput maximum sc i, won) \<longleftrightarrow> won \<and> (scope_key sc, i) = k"
| "retries k _ \<longleftrightarrow> False"

definition quiet_move :: "input_status option \<Rightarrow> input_status option \<Rightarrow> bool" where
  "quiet_move s s' \<longleftrightarrow> s' = s \<or>
     (s, s') \<in> {(None, Some InPending), (Some InPending, Some InClaimed), (Some InClaimed, Some InPending),
       (Some InClaimed, Some InFailed), (Some InPending, Some InCancelled), (Some InClaimed, Some InCancelled),
       (Some InRunning, Some InSucceeded), (Some InRunning, Some InFailed), (Some InRunning, Some InInterrupted)}"

lemma row_of_key:
  assumes "inbox_ok ib" and "row \<in> set (ib_inputs ib)"
  shows "find_row (in_scope row) (in_message row) ib = Some row"
proof -
  have d: "distinct (map (\<lambda>r. (in_scope r, in_message r)) (ib_inputs ib))" using assms(1) by (simp add: inbox_ok_def)
  obtain r where r: "find_row (in_scope row) (in_message row) ib = Some r"
    using assms(2) by (cases "find_row (in_scope row) (in_message row) ib") (auto simp: find_row_def find_None_iff)
  have "r = row"
    using d found_row [OF r] assms(2) inj_onD [of "\<lambda>r. (in_scope r, in_message r)" "set (ib_inputs ib)" r row]
    by (auto simp: distinct_map)
  with r show ?thesis by simp
qed

lemma find_map_keep:
  "(\<And>x. x \<in> set xs \<Longrightarrow> P (f x) = P x) \<Longrightarrow> find P (map f xs) = map_option f (find P xs)"
  by (induction xs) auto

lemma stage_set_input:
  assumes ok: "inbox_ok ib" and row: "row \<in> set (ib_inputs ib)"
    and keeps: "\<And>r. in_scope (f r) = in_scope r \<and> in_message (f r) = in_message r"
  shows "stage (set_input (in_seq row) f ib) k = (if k = (in_scope row, in_message row) then Some (in_status (f row)) else stage ib k)"
proof -
  have found: "find_row (fst k) (snd k) (set_input (in_seq row) f ib) =
      map_option (\<lambda>r. if in_seq r = in_seq row then f r else r) (find_row (fst k) (snd k) ib)"
    unfolding find_row_def set_input_def using keeps by (simp add: find_map_keep)
  have same: "in_seq r = in_seq row \<longleftrightarrow> k = (in_scope row, in_message row)" if r: "find_row (fst k) (snd k) ib = Some r" for r
  proof
    assume "in_seq r = in_seq row"
    then have "r = row" using unique_row [OF ok row] found_row [OF r] by blast
    then show "k = (in_scope row, in_message row)" using found_row [OF r] by (simp add: prod_eq_iff)
  next
    assume k: "k = (in_scope row, in_message row)"
    then show "in_seq r = in_seq row" using r row_of_key [OF ok row] by (simp only: fst_conv snd_conv option.inject)
  qed
  show ?thesis
  proof (cases "find_row (fst k) (snd k) ib")
    case None
    then have "k \<noteq> (in_scope row, in_message row)" using row_of_key [OF ok row] by (metis fst_conv snd_conv option.distinct(1))
    then show ?thesis using None found by (simp add: stage_def)
  next
    case (Some r)
    show ?thesis
    proof (cases "k = (in_scope row, in_message row)")
      case True
      then have "r = row" using Some row_of_key [OF ok row] by (simp only: fst_conv snd_conv option.inject)
      then show ?thesis using Some True found by (simp add: stage_def)
    next
      case False
      then have "in_seq r \<noteq> in_seq row" using same [OF Some] by blast
      then show ?thesis using Some False found by (simp add: stage_def)
    qed
  qed
qed

lemma stage_attempts [simp]: "stage (ib\<lparr>ib_attempts := as\<rparr>) k = stage ib k"
  by (simp add: stage_def find_row_def)

lemma stage_scopes [simp]: "stage (ib\<lparr>ib_scopes := ss\<rparr>) k = stage ib k"
  by (simp add: stage_def find_row_def)

lemma set_attempt_stage [simp]: "stage (set_attempt i g ib) k = stage ib k"
  by (simp add: set_attempt_def)

lemma atomic_run:
  "succeeded (atomically w ib) = (ib', won) \<longleftrightarrow> (if won then \<exists>x. w ib = Inr (ib', x) else ib' = ib \<and> (\<exists>e. w ib = Inl e))"
  by (cases "w ib") (auto simp: succeeded_def atomically_def split: prod.splits)

lemma stage_advance:
  assumes ok: "inbox_ok ib" and adv: "advance r st g f ib = Inr (ib', x)"
    and f: "\<And>row. in_scope (f row) = in_scope row \<and> in_message (f row) = in_message row \<and> in_status (f row) = st'"
  shows "\<exists>key. record_key r = Inr key \<and> stage ib key = Some st \<and> (\<forall>k. stage ib' k = (if k = key then Some st' else stage ib k))"
proof -
  obtain k row where k: "attempt_of r st ib = Inr (k, row)"
    and ib': "ib' = set_attempt (ir_attempt r) (g row) (set_input (in_seq row) f ib)"
    using adv by (rule advance_Inr)
  have row: "row \<in> set (ib_inputs ib)" "k = (in_scope row, in_message row)" "in_status row = st" "record_key r = Inr k"
    using attempt_of_Inr [OF k] by (auto simp: prod_eq_iff)
  have "stage ib k = Some st" using row_of_key [OF ok row(1)] row(2,3) by (simp add: stage_def)
  moreover have "stage ib' j = (if j = k then Some st' else stage ib j)" for j
    using stage_set_input [OF ok row(1), of f j] f row(2) by (simp add: ib')
  ultimately show ?thesis using row(4) by blast
qed

definition stage_moves :: "input_key \<Rightarrow> input_op \<times> bool \<Rightarrow> inbox \<Rightarrow> inbox \<Rightarrow> bool" where
  "stage_moves k e ib ib' \<longleftrightarrow>
     (if starts k e then stage ib k = Some InClaimed \<and> stage ib' k = Some InRunning
      else if retries k e then stage ib k \<in> {Some InFailed, Some InInterrupted} \<and> stage ib' k = Some InPending
      else quiet_move (stage ib k) (stage ib' k))"

lemma stage_same: "\<not> starts k e \<Longrightarrow> \<not> retries k e \<Longrightarrow> stage ib' k = stage ib k \<Longrightarrow> stage_moves k e ib ib'"
  by (simp add: stage_moves_def quiet_move_def)

lemma starts_only: "starts k (op, won) \<Longrightarrow> won \<and> (\<exists>r session now. op = StartInput r session now)"
  by (cases op) simp_all

lemma retries_only: "retries k (op, won) \<Longrightarrow> won \<and> (\<exists>maximum sc i. op = RetryInput maximum sc i)"
  by (cases op) simp_all

text \<open>A call that updates the current attempt of a record.\<close>

lemma stage_atomic:
  assumes ok: "inbox_ok ib" and run: "succeeded (atomically (advance r st g f) ib) = (ib', won)"
    and f: "\<And>row. in_scope (f row) = in_scope row \<and> in_message (f row) = in_message row \<and> in_status (f row) = st'"
    and kind: "\<not> retries k (op, won)"
      "(\<exists>session now. op = StartInput r session now) \<and> st = InClaimed \<and> st' = InRunning \<or>
       \<not> starts k (op, won) \<and> quiet_move (Some st) (Some st')"
  shows "stage_moves k (op, won) ib ib'"
proof (cases won)
  case True
  then obtain x where "advance r st g f ib = Inr (ib', x)" using run by (auto simp: atomic_run)
  then obtain key where "record_key r = Inr key" "stage ib key = Some st" "\<forall>k. stage ib' k = (if k = key then Some st' else stage ib k)"
    using stage_advance [OF ok _ f] by blast
  then have at: "stage ib key = Some st" "stage ib' k = (if k = key then Some st' else stage ib k)" and key: "record_key r = Inr key" by blast+
  have q: "quiet_move s s" for s by (simp add: quiet_move_def)
  from kind(2) show ?thesis
  proof
    assume "(\<exists>session now. op = StartInput r session now) \<and> st = InClaimed \<and> st' = InRunning"
    then show ?thesis using at key kind(1) True q by (auto simp: stage_moves_def)
  next
    assume "\<not> starts k (op, won) \<and> quiet_move (Some st) (Some st')"
    then show ?thesis using at kind(1) q by (cases "k = key") (simp_all add: stage_moves_def)
  qed
next
  case False
  then show ?thesis using run starts_only [of k op won] kind(1) by (intro stage_same) (auto simp: atomic_run)
qed

lemma find_append: "find P (xs @ ys) = (case find P xs of None \<Rightarrow> find P ys | Some x \<Rightarrow> Some x)"
  by (induction xs) auto

lemma enqueue_stage:
  assumes ok: "inbox_ok ib" and run: "enqueue maximum e hex ib = (ib', res)"
  shows "quiet_move (stage ib k) (stage ib' k)"
proof (cases "ib' = ib")
  case False
  then obtain y where w: "enqueue_write maximum e hex ib = Inr (ib', y)"
    using run by (auto simp: enqueue_def atomically_def split: if_splits sum.splits)
  obtain p m where p: "encode_envelope e = Inr p" and m: "envelope_message e = Inr m"
    using w unfolding enqueue_write_def raise_bind_Inr_iff by blast
  let ?k = "scope_key (ev_scope e)"
  have None: "find_row ?k (si_id m) ib = None"
    using w False by (auto simp: enqueue_write_def p m raise_bind_Inr_iff Let_def split: option.splits if_splits)
  obtain ib1 ns where b: "bind_scope ?k hex ib = Inr (ib1, ns)"
    and ib': "ib' = ib1\<lparr>ib_inputs := ib_inputs ib1 @
         [\<lparr>in_seq = next_row ib1, in_scope = ?k, in_message = si_id m, in_payload = p, in_status = InPending,
           in_attempt = '''', in_response = '''', in_error = '''', in_session = ''''\<rparr>]\<rparr>"
    using w None by (auto simp: enqueue_write_def p m raise_bind_Inr_iff Let_def)
  have "ib_inputs ib1 = ib_inputs ib" using b by (auto simp: bind_scope_def split: option.splits if_splits)
  then have "find_row (fst k) (snd k) ib' = (case find_row (fst k) (snd k) ib of
      None \<Rightarrow> if k = (?k, si_id m) then Some (last (ib_inputs ib')) else None | Some r \<Rightarrow> Some r)"
    by (auto simp: find_row_def ib' find_append prod_eq_iff split: option.split)
  then show ?thesis by (auto simp: stage_def quiet_move_def ib' split: option.splits)
qed (simp add: quiet_move_def)

lemma claim_stage:
  assumes ok: "inbox_ok ib" and run: "claim_input sc hex ib = (ib', res)"
  shows "quiet_move (stage ib k) (stage ib' k)"
proof (cases "ib' = ib")
  case False
  then obtain y where w: "claim_write sc hex ib = Inr (ib', y)"
    using run by (auto simp: claim_input_def atomically_def split: sum.splits)
  then obtain row where row: "find (\<lambda>row. in_scope row = scope_key sc \<and> in_status row = InPending) (ib_inputs ib) = Some row"
    and ib': "ib' = set_input (in_seq row) (\<lambda>r. r\<lparr>in_status := InClaimed, in_attempt := hex\<rparr>)
               (ib\<lparr>ib_attempts := ib_attempts ib @ [new_attempt hex (in_seq row)]\<rparr>)"
    using False by (auto simp: claim_write_def Let_def raise_bind_Inr_iff dest!: reread_Inr split: if_splits option.splits)
  have r: "row \<in> set (ib_inputs ib)" "in_status row = InPending" using row by (auto simp: find_Some_iff)
  have "ib' = (set_input (in_seq row) (\<lambda>r. r\<lparr>in_status := InClaimed, in_attempt := hex\<rparr>) ib)
      \<lparr>ib_attempts := ib_attempts ib @ [new_attempt hex (in_seq row)]\<rparr>"
    unfolding ib' by (simp add: set_input_def)
  then have "stage ib' k = (if k = (in_scope row, in_message row) then Some InClaimed else stage ib k)"
    using stage_set_input [OF ok r(1), of "\<lambda>r. r\<lparr>in_status := InClaimed, in_attempt := hex\<rparr>" k] by simp
  moreover have "stage ib (in_scope row, in_message row) = Some InPending"
    using row_of_key [OF ok r(1)] r(2) by (simp add: stage_def)
  ultimately show ?thesis by (auto simp: quiet_move_def)
qed (simp add: quiet_move_def)

lemma cancel_stage:
  assumes ok: "inbox_ok ib" and run: "cancel_input sc i ib = (ib', res)"
  shows "quiet_move (stage ib k) (stage ib' k)"
proof (cases "ib' = ib")
  case False
  let ?f = "\<lambda>r. r\<lparr>in_status := InCancelled\<rparr> :: input_row" and ?g = "\<lambda>a. a\<lparr>at_status := InCancelled\<rparr> :: attempt_row"
  obtain y where w: "cancel_write sc i ib = Inr (ib', y)"
    using run False by (auto simp: cancel_input_def atomically_def split: sum.splits)
  then obtain row where sel: "select_row (scope_key sc) i ib = Inr row" by (auto simp: cancel_write_def raise_bind_Inr_iff)
  have r: "row \<in> set (ib_inputs ib)" using selected_row [OF sel] by simp
  have c: "in_status row \<in> {InPending, InClaimed}"
      "ib' = set_attempt (in_attempt row) ?g (set_input (in_seq row) ?f ib) \<or> ib' = set_input (in_seq row) ?f ib"
    using w False by (auto simp: cancel_write_def sel Let_def raise_bind_Inr_iff dest!: reread_Inr split: if_splits)
  have "stage ib' k = (if k = (in_scope row, in_message row) then Some InCancelled else stage ib k)"
    using c(2) stage_set_input [OF ok r, of ?f k] by auto
  moreover have "stage ib (in_scope row, in_message row) = Some (in_status row)"
    using row_of_key [OF ok r] by (simp add: stage_def)
  ultimately show ?thesis using c(1) by (auto simp: quiet_move_def)
qed (simp add: quiet_move_def)

lemma retry_stage:
  assumes ok: "inbox_ok ib" and run: "retry_write maximum sc i ib = Inr (ib', x)"
  shows "stage ib (scope_key sc, i) \<in> {Some InFailed, Some InInterrupted} \<and>
    stage ib' k = (if k = (scope_key sc, i) then Some InPending else stage ib k)"
proof -
  let ?f = "\<lambda>r. r\<lparr>in_status := InPending, in_attempt := '''', in_response := '''', in_error := '''', in_session := ''''\<rparr> :: input_row"
  obtain row where sel: "select_row (scope_key sc) i ib = Inr row" and st: "in_status row \<in> {InFailed, InInterrupted}"
    and ib': "ib' = set_input (in_seq row) ?f ib"
    using run by (auto simp: retry_write_def raise_bind_Inr_iff dest!: reread_Inr split: if_splits)
  have r: "row \<in> set (ib_inputs ib)" "in_scope row = scope_key sc" "in_message row = i" using selected_row [OF sel] by auto
  show ?thesis
    using st row_of_key [OF ok r(1)] stage_set_input [OF ok r(1), of ?f k] r by (auto simp: ib' stage_def)
qed

lemma recover_stage: "quiet_move (stage ib k) (stage (recover_inbox now ib) k)"
proof -
  have "find_row (fst k) (snd k) (recover_inbox now ib) = map_option recover_input (find_row (fst k) (snd k) ib)"
    by (simp add: find_row_def recover_inbox_def find_map_keep)
  then show ?thesis by (cases "find_row (fst k) (snd k) ib") (auto simp: stage_def quiet_move_def recover_input_def)
qed

lemma stage_step:
  assumes step: "inbox_step ib (op, won) ib'" and ok: "inbox_ok ib"
  shows "stage_moves k (op, won) ib ib'"
proof -
  have run: "run_input op ib = (ib', won)" using step by (simp add: inbox_step_def)
  have quiet: "\<not> starts k (op, won) \<Longrightarrow> \<not> retries k (op, won) \<Longrightarrow> quiet_move (stage ib k) (stage ib' k) \<Longrightarrow> ?thesis"
    by (simp add: stage_moves_def)
  show ?thesis
  proof (cases op)
    case (Accept maximum e hex)
    then show ?thesis using run enqueue_stage [OF ok, of maximum e hex ib'] by (intro quiet) (auto simp: succeeded_def prod_eq_iff)
  next
    case (BindScope sc hex)
    then have "ib_inputs ib' = ib_inputs ib"
      using run by (cases won) (auto simp: bind_input_def atomic_run bind_scope_def split: option.splits if_splits)
    then show ?thesis using BindScope by (intro stage_same) (simp_all add: stage_def find_row_def)
  next
    case (ClaimNext sc hex)
    then show ?thesis using run claim_stage [OF ok, of sc hex ib'] by (intro quiet) (auto simp: succeeded_def prod_eq_iff)
  next
    case (StartInput r session now)
    from stage_atomic [OF ok run [unfolded StartInput run_input.simps start_input_def]] show ?thesis by (auto simp: StartInput)
  next
    case (FinishInput r st response err session now)
    show ?thesis
    proof (cases "st \<notin> {InSucceeded, InFailed, InInterrupted} \<or> MAX_RECEIPT_BYTES < byte_length response + byte_length err")
      case True
      then show ?thesis using run FinishInput by (intro stage_same) (auto simp: finish_input_def succeeded_def)
    next
      case False
      then have "quiet_move (Some InRunning) (Some st)" by (auto simp: quiet_move_def)
      note q = this
      note run [unfolded FinishInput run_input.simps finish_input_def if_not_P [OF False]]
      from stage_atomic [OF ok this] q show ?thesis by (auto simp: FinishInput)
    qed
  next
    case (ReleaseInput r)
    from stage_atomic [OF ok run [unfolded ReleaseInput run_input.simps release_input_def]] show ?thesis by (auto simp: ReleaseInput quiet_move_def)
  next
    case (RejectInput r err)
    show ?thesis
    proof (cases "strip err = [] \<or> MAX_RECEIPT_BYTES < byte_length err")
      case True
      then show ?thesis using run RejectInput by (intro stage_same) (auto simp: reject_input_def succeeded_def)
    next
      case False
      show ?thesis
        by (rule stage_atomic [OF ok run [unfolded RejectInput run_input.simps reject_input_def if_not_P [OF False]]])
          (auto simp: RejectInput quiet_move_def)
    qed
  next
    case (CancelInput sc i)
    then show ?thesis using run cancel_stage [OF ok, of sc i ib'] by (intro quiet) (auto simp: succeeded_def prod_eq_iff)
  next
    case (RetryInput maximum sc i)
    show ?thesis
    proof (cases won)
      case True
      then obtain x where "retry_write maximum sc i ib = Inr (ib', x)" using run RetryInput by (auto simp: retry_input_def atomic_run)
      then show ?thesis using retry_stage [OF ok, of maximum sc i ib' x k] True RetryInput by (auto simp: stage_moves_def quiet_move_def)
    next
      case False
      then show ?thesis using run RetryInput by (intro stage_same) (auto simp: retry_input_def atomic_run)
    qed
  next
    case (RestartInbox now)
    then show ?thesis using run recover_stage [of ib k now] by (intro quiet) auto
  qed
qed

section \<open>Attempts\<close>

text \<open>The attempts that a call starts, and those that were ever started.\<close>

fun begun :: "input_op \<times> bool \<Rightarrow> string list" where
  "begun (StartInput r session now, won) = (if won then [ir_attempt r] else [])"
| "begun _ = []"

definition started :: "inbox \<Rightarrow> string \<Rightarrow> bool" where
  "started ib i \<longleftrightarrow> (\<exists>a \<in> set (ib_attempts ib). at_id a = i \<and> at_started a)"

lemma started_set_input [simp]: "started (set_input q f ib) i = started ib i"
  by (simp add: started_def set_input_def)

lemma started_set_attempt:
  "(\<And>a. at_id (g a) = at_id a \<and> (at_started a \<longrightarrow> at_started (g a))) \<Longrightarrow> started ib i \<Longrightarrow> started (set_attempt j g ib) i"
  by (auto simp: started_def set_attempt_def)

lemma started_by:
  assumes "a \<in> set (ib_attempts ib)" and "at_id a = i" and "at_id (g a) = i" and "at_started (g a)"
  shows "started (set_attempt i g ib) i"
proof -
  have "g a \<in> (\<lambda>b. if at_id b = i then g b else b) ` set (ib_attempts ib)" by (rule image_eqI [of _ _ a]) (use assms in simp_all)
  then show ?thesis using assms(3,4) unfolding started_def set_attempt_def by auto
qed

lemma started_advance:
  assumes "advance r st g f ib = Inr (ib', x)" and "started ib i"
    and "\<And>row a. at_id (g row a) = at_id a \<and> (at_started a \<longrightarrow> at_started (g row a))"
  shows "started ib' i"
  using assms(1) by (rule advance_Inr) (simp add: started_set_attempt assms(2,3))

lemma started_atomic:
  assumes "succeeded (atomically (advance r st g f) ib) = (ib', won)" and "started ib i"
    and "\<And>row a. at_id (g row a) = at_id a \<and> (at_started a \<longrightarrow> at_started (g row a))"
  shows "started ib' i"
  using assms started_advance [OF _ assms(2,3)] by (cases won) (auto simp: atomic_run)

lemma started_more: "started ib i \<Longrightarrow> set (ib_attempts ib) \<subseteq> set (ib_attempts ib') \<Longrightarrow> started ib' i"
  by (auto simp: started_def)

lemma started_kept:
  assumes step: "inbox_step ib (op, won) ib'" and ok: "inbox_ok ib" and i: "started ib i"
  shows "started ib' i"
proof -
  have run: "run_input op ib = (ib', won)" using step by (simp add: inbox_step_def)
  show ?thesis
  proof (cases op)
    case (Accept maximum e hex)
    have "ib_attempts (fst (enqueue maximum e hex ib)) = ib_attempts ib"
      by (auto simp: enqueue_def atomically_def enqueue_write_def raise_bind_def Let_def bind_scope_def split: sum.splits option.splits)
    then show ?thesis using run Accept i by (intro started_more [OF i]) (auto simp: succeeded_def)
  next
    case (BindScope sc hex)
    then have "ib_attempts ib' = ib_attempts ib"
      using run by (cases won) (auto simp: bind_input_def atomic_run bind_scope_def split: option.splits if_splits)
    then show ?thesis by (intro started_more [OF i]) simp
  next
    case (ClaimNext sc hex)
    have "set (ib_attempts ib) \<subseteq> set (ib_attempts ib')"
    proof (cases "ib' = ib")
      case False
      then have "\<exists>y. claim_write sc hex ib = Inr (ib', y)" using run ClaimNext by (cases won) (auto simp: claim_input_def atomic_run)
      then show ?thesis using False
        by (auto simp: claim_write_def Let_def raise_bind_Inr_iff set_input_def dest!: reread_Inr split: if_splits option.splits)
    qed simp
    then show ?thesis by (rule started_more [OF i])
  next
    case (StartInput r session now)
    from started_atomic [OF run [unfolded StartInput run_input.simps start_input_def] i] show ?thesis by simp
  next
    case (FinishInput r st response err session now)
    show ?thesis
    proof (cases "st \<notin> {InSucceeded, InFailed, InInterrupted} \<or> MAX_RECEIPT_BYTES < byte_length response + byte_length err")
      case True
      then show ?thesis using run FinishInput i by (auto simp: finish_input_def succeeded_def)
    next
      case False
      from started_atomic [OF run [unfolded FinishInput run_input.simps finish_input_def if_not_P [OF False]] i] show ?thesis by simp
    qed
  next
    case (ReleaseInput r)
    from started_atomic [OF run [unfolded ReleaseInput run_input.simps release_input_def] i] show ?thesis by simp
  next
    case (RejectInput r err)
    show ?thesis
    proof (cases "strip err = [] \<or> MAX_RECEIPT_BYTES < byte_length err")
      case True
      then show ?thesis using run RejectInput i by (auto simp: reject_input_def succeeded_def)
    next
      case False
      from started_atomic [OF run [unfolded RejectInput run_input.simps reject_input_def if_not_P [OF False]] i] show ?thesis by simp
    qed
  next
    case (CancelInput sc j)
    show ?thesis
    proof (cases "ib' = ib")
      case False
      then have "\<exists>y. cancel_write sc j ib = Inr (ib', y)" using run CancelInput by (cases won) (auto simp: cancel_input_def atomic_run)
      then show ?thesis using False i
        by (auto simp: cancel_write_def Let_def raise_bind_Inr_iff intro!: started_set_attempt dest!: reread_Inr split: if_splits)
    qed (use i in simp)
  next
    case (RetryInput maximum sc j)
    then have "ib_attempts ib' = ib_attempts ib"
      using run by (cases won)
        (auto simp: retry_input_def atomic_run retry_write_def raise_bind_Inr_iff set_input_def dest!: reread_Inr split: if_splits)
    then show ?thesis by (intro started_more [OF i]) simp
  next
    case (RestartInbox now)
    have "at_started (recover_attempt now a) = at_started a" for a by (simp add: recover_attempt_def)
    then show ?thesis using run RestartInbox i by (auto simp: started_def recover_inbox_def)
  qed
qed

lemma started_new:
  assumes step: "inbox_step ib (op, won) ib'" and ok: "inbox_ok ib" and i: "i \<in> set (begun (op, won))"
  shows "\<not> started ib i \<and> started ib' i"
proof -
  obtain r session now where op: "op = StartInput r session now" and won: won and ir: "i = ir_attempt r"
    using i by (cases "(op, won)" rule: begun.cases) (auto split: if_splits)
  obtain x where adv: "advance r InClaimed
       (\<lambda>_ a. a\<lparr>at_status := InRunning, at_started := True, at_session := session, at_started_at := Some now\<rparr>)
       (\<lambda>row. row\<lparr>in_status := InRunning, in_session := session\<rparr>) ib = Inr (ib', x)"
    using step won by (auto simp: inbox_step_def op start_input_def atomic_run)
  then obtain k row where k: "attempt_of r InClaimed ib = Inr (k, row)"
    and ib': "ib' = set_attempt (ir_attempt r)
       (\<lambda>a. a\<lparr>at_status := InRunning, at_started := True, at_session := session, at_started_at := Some now\<rparr>)
       (set_input (in_seq row) (\<lambda>row. row\<lparr>in_status := InRunning, in_session := session\<rparr>) ib)"
    by (rule advance_Inr) blast
  have row: "row \<in> set (ib_inputs ib)" "in_attempt row = i" "i \<noteq> ''''" "in_status row = InClaimed"
    using attempt_of_Inr [OF k] ir by auto
  obtain a where a: "agrees row a" "fact_ok a" "a \<in> set (ib_attempts ib)"
    using current_attempt [OF ok row(1)] row(2,3) by metis
  have aid: "at_id a = i" "\<not> at_started a" using a row by (auto simp: agrees_def fact_ok_def)
  have "b = a" if "b \<in> set (ib_attempts ib)" "at_id b = i" for b
    using ok that a(3) aid(1) inj_onD [of at_id "set (ib_attempts ib)" b a] by (simp add: inbox_ok_def distinct_map)
  then have "\<not> started ib i" using aid(2) by (auto simp: started_def)
  moreover have "started ib' i" unfolding ib' ir by (rule started_by [of a]) (use a(3) aid(1) ir in \<open>simp_all add: set_input_def\<close>)
  ultimately show ?thesis ..
qed

interpretation attempts: lease_machine inbox_step inbox_ok "\<lambda>_. 0" "\<lambda>_ _. False" begun started
proof
  show "distinct (begun e)" for e by (cases e rule: begun.cases) auto
  show "\<not> started ib i \<and> started ib' i" if "inbox_step ib e ib'" "inbox_ok ib" "i \<in> set (begun e)" for ib e ib' i
    using started_new [of ib "fst e" "snd e"] that by simp
  show "started ib' i" if "inbox_step ib e ib'" "inbox_ok ib" "started ib i" for ib e ib' i
    using started_kept [of ib "fst e" "snd e"] that by simp
qed

section \<open>Capacity\<close>

fun capacity_of :: "int \<Rightarrow> input_op \<Rightarrow> bool" where
  "capacity_of n (Accept maximum e hex) = (maximum \<le> n)"
| "capacity_of n (RetryInput maximum sc i) = (maximum \<le> n)"
| "capacity_of n op = True"

text \<open>What never changes of a row.\<close>

definition row_frame :: "inbox \<Rightarrow> (int \<times> (string \<times> string) \<times> string \<times> pyval) list" where
  "row_frame ib = map (\<lambda>row. (in_seq row, in_scope row, in_message row, in_payload row)) (ib_inputs ib)"

lemma row_frame_attempts [simp]: "row_frame (ib\<lparr>ib_attempts := as\<rparr>) = row_frame ib"
  by (simp add: row_frame_def)

lemma row_frame_set_attempt [simp]: "row_frame (set_attempt i g ib) = row_frame ib"
  by (simp add: set_attempt_def)

lemma row_frame_set_input:
  "(\<And>r. in_seq (f r) = in_seq r \<and> in_scope (f r) = in_scope r \<and> in_message (f r) = in_message r \<and> in_payload (f r) = in_payload r) \<Longrightarrow>
     row_frame (set_input q f ib) = row_frame ib"
  by (simp add: row_frame_def set_input_def)

lemma row_frame_atomic:
  assumes "succeeded (atomically (advance r st g f) ib) = (ib', won)"
    and "\<And>r. in_seq (f r) = in_seq r \<and> in_scope (f r) = in_scope r \<and> in_message (f r) = in_message r \<and> in_payload (f r) = in_payload r"
  shows "row_frame ib' = row_frame ib"
proof (cases won)
  case True
  then obtain x where "advance r st g f ib = Inr (ib', x)" using assms(1) by (auto simp: atomic_run)
  then show ?thesis by (rule advance_Inr) (simp add: row_frame_set_input assms(2))
qed (use assms in \<open>auto simp: atomic_run\<close>)

lemma enqueue_row_frame:
  assumes run: "enqueue maximum e hex ib = (ib', res)"
  shows "ib_inputs ib' = ib_inputs ib \<or>
    (\<exists>row. ib_inputs ib' = ib_inputs ib @ [row] \<and> int (load_of (in_scope row) ib) < maximum)"
proof (cases "ib' = ib")
  case False
  then obtain y where w: "enqueue_write maximum e hex ib = Inr (ib', y)"
    using run by (auto simp: enqueue_def atomically_def split: if_splits sum.splits)
  obtain p m where p: "encode_envelope e = Inr p" and m: "envelope_message e = Inr m"
    using w unfolding enqueue_write_def raise_bind_Inr_iff by blast
  let ?k = "scope_key (ev_scope e)"
  have None: "find_row ?k (si_id m) ib = None"
    using w False by (auto simp: enqueue_write_def p m raise_bind_Inr_iff Let_def split: option.splits if_splits)
  obtain ib1 ns where b: "bind_scope ?k hex ib = Inr (ib1, ns)" and cap: "capacity_check ?k maximum ib = Inr ()"
    and ib': "ib' = ib1\<lparr>ib_inputs := ib_inputs ib1 @
         [\<lparr>in_seq = next_row ib1, in_scope = ?k, in_message = si_id m, in_payload = p, in_status = InPending,
           in_attempt = '''', in_response = '''', in_error = '''', in_session = ''''\<rparr>]\<rparr>"
    using w None by (auto simp: enqueue_write_def p m raise_bind_Inr_iff Let_def)
  have "ib_inputs ib1 = ib_inputs ib" using b by (auto simp: bind_scope_def split: option.splits if_splits)
  moreover have "int (load_of ?k ib) < maximum" using cap by (simp add: capacity_check_def split: if_splits)
  ultimately show ?thesis by (simp add: ib')
qed simp

lemma row_frame_step:
  assumes step: "inbox_step ib (op, won) ib'" and other: "\<And>maximum e hex. op \<noteq> Accept maximum e hex"
  shows "row_frame ib' = row_frame ib"
proof -
  have run: "run_input op ib = (ib', won)" using step by (simp add: inbox_step_def)
  show ?thesis
  proof (cases op)
    case (BindScope sc hex)
    then show ?thesis using run
      by (cases won) (auto simp: bind_input_def atomic_run bind_scope_def row_frame_def split: option.splits if_splits)
  next
    case (ClaimNext sc hex)
    show ?thesis
    proof (cases "ib' = ib")
      case False
      then have "\<exists>y. claim_write sc hex ib = Inr (ib', y)" using run ClaimNext by (cases won) (auto simp: claim_input_def atomic_run)
      then show ?thesis using False
        by (auto simp: claim_write_def Let_def raise_bind_Inr_iff row_frame_set_input dest!: reread_Inr split: if_splits option.splits)
    qed simp
  next
    case (StartInput r session now)
    from row_frame_atomic [OF run [unfolded StartInput run_input.simps start_input_def]] show ?thesis by simp
  next
    case (FinishInput r st response err session now)
    show ?thesis
    proof (cases "st \<notin> {InSucceeded, InFailed, InInterrupted} \<or> MAX_RECEIPT_BYTES < byte_length response + byte_length err")
      case True
      then show ?thesis using run FinishInput by (auto simp: finish_input_def succeeded_def)
    next
      case False
      from row_frame_atomic [OF run [unfolded FinishInput run_input.simps finish_input_def if_not_P [OF False]]] show ?thesis by simp
    qed
  next
    case (ReleaseInput r)
    from row_frame_atomic [OF run [unfolded ReleaseInput run_input.simps release_input_def]] show ?thesis by simp
  next
    case (RejectInput r err)
    show ?thesis
    proof (cases "strip err = [] \<or> MAX_RECEIPT_BYTES < byte_length err")
      case True
      then show ?thesis using run RejectInput by (auto simp: reject_input_def succeeded_def)
    next
      case False
      from row_frame_atomic [OF run [unfolded RejectInput run_input.simps reject_input_def if_not_P [OF False]]] show ?thesis by simp
    qed
  next
    case (CancelInput sc j)
    show ?thesis
    proof (cases "ib' = ib")
      case False
      then have "\<exists>y. cancel_write sc j ib = Inr (ib', y)" using run CancelInput by (cases won) (auto simp: cancel_input_def atomic_run)
      then show ?thesis using False
        by (auto simp: cancel_write_def Let_def raise_bind_Inr_iff row_frame_set_input dest!: reread_Inr split: if_splits)
    qed simp
  next
    case (RetryInput maximum sc j)
    then show ?thesis using run
      by (cases won) (auto simp: retry_input_def atomic_run retry_write_def raise_bind_Inr_iff row_frame_set_input dest!: reread_Inr split: if_splits)
  next
    case (RestartInbox now)
    then show ?thesis using run by (auto simp: row_frame_def recover_inbox_def)
  qed (use other in blast)
qed

lemma load_stages:
  assumes "inbox_ok ib"
  shows "load_of k ib = card {i. \<exists>s. stage ib (k, i) = Some s \<and> unfinished s}"
proof -
  let ?rows = "filter (\<lambda>row. in_scope row = k \<and> unfinished (in_status row)) (ib_inputs ib)"
  have d: "distinct (map (\<lambda>r. (in_scope r, in_message r)) (ib_inputs ib))" using assms by (simp add: inbox_ok_def)
  then have "distinct ?rows" "inj_on in_message (set ?rows)" by (auto simp: distinct_map inj_on_def)
  then have "load_of k ib = card (in_message ` set ?rows)" unfolding load_of_def by (simp only: distinct_card card_image)
  also have "in_message ` set ?rows = {i. \<exists>s. stage ib (k, i) = Some s \<and> unfinished s}"
  proof (intro equalityI subsetI)
    fix i
    assume "i \<in> in_message ` set ?rows"
    then obtain row where "row \<in> set (ib_inputs ib)" "in_scope row = k" "unfinished (in_status row)" "i = in_message row" by auto
    then show "i \<in> {i. \<exists>s. stage ib (k, i) = Some s \<and> unfinished s}" using row_of_key [OF assms, of row] by (simp add: stage_def)
  next
    fix i
    assume "i \<in> {i. \<exists>s. stage ib (k, i) = Some s \<and> unfinished s}"
    then obtain row where "find_row k i ib = Some row" "unfinished (in_status row)" by (auto simp: stage_def)
    then show "i \<in> in_message ` set ?rows" using found_row [of k i ib row] by auto
  qed
  finally show ?thesis .
qed

lemma known_stage: "stage ib (k, i) \<noteq> None \<longleftrightarrow> (k, i) \<in> (\<lambda>(_, k, i, _). (k, i)) ` set (row_frame ib)"
  by (auto simp: stage_def find_row_def find_None_iff row_frame_def image_iff)

lemma finite_stages: "inbox_ok ib \<Longrightarrow> finite {i. \<exists>s. stage ib (k, i) = Some s \<and> unfinished s}"
proof -
  have "{i. \<exists>s. stage ib (k, i) = Some s \<and> unfinished s} \<subseteq> in_message ` set (ib_inputs ib)"
    using found_row by (fastforce simp: stage_def)
  then show ?thesis using finite_subset by blast
qed

lemma load_step:
  assumes step: "inbox_step ib (op, won) ib'" and ok: "inbox_ok ib" and n: "capacity_of n op" "int (load_of k ib) \<le> n"
  shows "int (load_of k ib') \<le> n"
proof -
  note ok' = input_step_ok [OF step ok]
  let ?U = "\<lambda>ib. {i. \<exists>s. stage ib (k, i) = Some s \<and> unfinished s}"
  have run: "run_input op ib = (ib', won)" using step by (simp add: inbox_step_def)
  have sub: "?U ib' \<subseteq> ?U ib" if same: "row_frame ib' = row_frame ib" and noretry: "\<And>i. \<not> retries (k, i) (op, won)"
  proof (intro subsetI)
    fix i
    assume "i \<in> ?U ib'"
    then obtain s where s: "stage ib' (k, i) = Some s" "unfinished s" by auto
    have "stage ib (k, i) \<noteq> None" using s(1) known_stage [of ib k i] known_stage [of ib' k i] same by simp
    then show "i \<in> ?U ib" using stage_step [OF step ok, of "(k, i)"] noretry [of i] s
      by (auto simp: stage_moves_def quiet_move_def unfinished_def split: if_splits)
  qed
  have le: "int (load_of k ib') \<le> n" if "?U ib' \<subseteq> ?U ib"
    using card_mono [OF finite_stages [OF ok] that] n(2) by (simp add: load_stages [OF ok] load_stages [OF ok'])
  have more: "int (load_of k ib') \<le> n" if "?U ib' \<subseteq> insert j (?U ib)" and "int (load_of k ib) < n" for j
    using card_mono [OF _ that(1)] card_insert_le_m1 [of "Suc (card (?U ib))" "?U ib" j] finite_stages [OF ok, of k] that(2)
    by (simp add: load_stages [OF ok] load_stages [OF ok'])
  show ?thesis
  proof (cases op)
    case (Accept maximum e hex)
    then obtain res where q: "enqueue maximum e hex ib = (ib', res)" using run by (auto simp: succeeded_def prod_eq_iff)
    from enqueue_row_frame [OF q] show ?thesis
    proof (elim disjE exE conjE)
      assume "ib_inputs ib' = ib_inputs ib"
      then show ?thesis using n(2) by (simp add: load_of_def)
    next
      fix row
      assume "ib_inputs ib' = ib_inputs ib @ [row]" "int (load_of (in_scope row) ib) < maximum"
      then show ?thesis using n Accept by (auto simp: load_of_def)
    qed
  next
    case (RetryInput maximum sc j)
    show ?thesis
    proof (cases won)
      case True
      then obtain x where w: "retry_write maximum sc j ib = Inr (ib', x)" using run RetryInput by (auto simp: retry_input_def atomic_run)
      have cap: "int (load_of (scope_key sc) ib) < maximum"
        using w by (auto simp: retry_write_def raise_bind_Inr_iff capacity_check_def split: if_splits)
      have "?U ib' \<subseteq> (if scope_key sc = k then insert j (?U ib) else ?U ib)"
        using retry_stage [OF ok w] by (auto split: if_splits)
      then show ?thesis using le more [of j] cap n(1) RetryInput by (auto split: if_splits)
    next
      case False
      then show ?thesis using run RetryInput n(2) by (auto simp: retry_input_def atomic_run)
    qed
  qed (rule le, rule sub, use row_frame_step [OF step] in simp_all)+
qed

end
