(* ===== verification/Input_Demo.thy ===== *)
theory Input_Demo
  imports Input_Runs
begin

text \<open>One short run of the inbox, at which its properties are exercised.\<close>

definition demo_input :: session_input where
  "demo_input = \<lparr>si_id = ''m1'', si_origin = HumanInput, si_source = ''cli'', si_instruction = ''go'', si_evidence = [],
     si_provenance = []\<rparr>"

definition demo_scope :: input_scope where
  "demo_scope = \<lparr>sc_group = ''g'', sc_workspace = path_of ''/w''\<rparr>"

definition demo_envelope :: envelope where
  "demo_envelope = \<lparr>ev_scope = demo_scope, ev_message = message_doc demo_input, ev_context = VDict [], ev_reply = None,
     ev_images = [], ev_human = True, ev_key = ''''\<rparr>"

definition demo_payload :: pyval where
  "demo_payload = envelope_doc demo_envelope"

definition demo_hex :: string where
  "demo_hex = replicate 32 (CHR ''a'')"

definition demo_pending :: input_row where
  "demo_pending = \<lparr>in_seq = 1, in_scope = (''g'', ''/w''), in_message = ''m1'', in_payload = demo_payload, in_status = InPending,
     in_attempt = '''', in_response = '''', in_error = '''', in_session = ''''\<rparr>"

definition demo_claimed :: input_row where
  "demo_claimed = demo_pending\<lparr>in_status := InClaimed, in_attempt := demo_hex\<rparr>"

definition demo_running :: input_row where
  "demo_running = demo_claimed\<lparr>in_status := InRunning, in_session := ''s''\<rparr>"

definition record_of :: "input_row \<Rightarrow> input_record" where
  "record_of row = \<lparr>ir_envelope = demo_envelope, ir_status = in_status row, ir_attempt = in_attempt row,
     ir_response = in_response row, ir_error = in_error row, ir_session = in_session row\<rparr>"

definition demo_attempt :: attempt_row where
  "demo_attempt = (new_attempt demo_hex 1)\<lparr>at_status := InRunning, at_started := True, at_session := ''s'', at_started_at := Some (PFin 1)\<rparr>"

definition demo_inbox :: "input_row \<Rightarrow> attempt_row list \<Rightarrow> inbox" where
  "demo_inbox row as = \<lparr>ib_scopes = [((''g'', ''/w''), demo_hex)], ib_inputs = [row], ib_attempts = as\<rparr>"

definition demo_inputs :: "(input_op \<times> bool) list" where
  "demo_inputs = [(Accept 50 demo_envelope demo_hex, True), (ClaimNext demo_scope demo_hex, True),
     (StartInput (record_of demo_claimed) ''s'' (PFin 1), True)]"

lemma demo_path: "path_of ''/w'' = \<lparr>pp_root = ''/'', pp_parts = [''w'']\<rparr>" "path_str \<lparr>pp_root = ''/'', pp_parts = [''w'']\<rparr> = ''/w''"
  by code_simp+

lemma demo_scope_key: "scope_key demo_scope = (''g'', ''/w'')"
  by (simp add: scope_key_def demo_scope_def demo_path)

lemma demo_short: "s \<in> {''g'', ''/w'', ''m1'', ''cli'', ''go''} \<Longrightarrow> 100 \<le> n \<Longrightarrow> bounded_text e n s"
proof -
  assume s: "s \<in> {''g'', ''/w'', ''m1'', ''cli'', ''go''}" and n: "100 \<le> n"
  have "strip s \<noteq> [] \<and> char_of (0 :: nat) \<notin> set s \<and> byte_length s \<le> 100"
    using s by (elim insertE emptyE; simp; code_simp)
  then show ?thesis using n by (simp add: bounded_text_def)
qed

lemma demo_scope_ok: "scope_ok demo_scope"
  by (simp add: scope_ok_def make_scope_def demo_scope_def demo_path demo_short)

lemma demo_decoded: "decode_input False (input_doc demo_input) = Inr demo_input"
proof -
  have "length (json_text (input_doc demo_input)) \<le> 200" "finite_json 0 (input_doc demo_input)" by code_simp+
  moreover have "strip ''go'' \<noteq> []" "char_of (0 :: nat) \<notin> set ''go''" by code_simp+
  ultimately show ?thesis
    unfolding decode_input_iff by (simp add: MAX_INPUT_BYTES_def input_doc_def INPUT_FIELDS_def insert_commute)
      (auto simp: input_of_iff demo_input_def field_of_def demo_short)
qed

lemma demo_envelope_ok: "envelope_ok demo_envelope"
proof -
  have "bounded_text True 256 ''''" by (simp add: bounded_text_def byte_length_def)
  moreover have "context_check (VDict []) = Inr (VDict [])" by (simp add: context_check_def MAX_METADATA_BYTES_def)
  ultimately show ?thesis
    using demo_decoded demo_scope_ok
    by (auto simp: envelope_ok_def demo_envelope_def reply_ok_def intro!: exI [of _ demo_input])
      (simp_all add: input_doc_def demo_input_def)
qed

lemma demo_input_message: "envelope_message demo_envelope = Inr demo_input"
  using message_decodes(1) [OF demo_decoded] by (simp add: envelope_message_def demo_envelope_def) (simp add: sorted_input_def demo_input_def)

lemma demo_encoded: "encode_envelope demo_envelope = Inr demo_payload"
proof -
  have "length (json_text (VDict (metadata_fields demo_envelope))) \<le> 500" "length (json_text (envelope_doc demo_envelope)) \<le> 1000"
      "\<not> has_nan (envelope_doc demo_envelope)"
    by code_simp+
  then show ?thesis
    by (simp add: encode_envelope_def MAX_METADATA_BYTES_def MAX_ENVELOPE_BYTES_def MAX_INPUT_BYTES_def MAX_REFERENCE_BYTES_def demo_payload_def)
qed

lemma demo_hex_ok: "uuid_hex demo_hex" "length demo_hex = 32" "demo_hex \<noteq> ''''"
  by (simp_all add: uuid_hex_def demo_hex_def is_hex_def)

lemma demo_record:
  "in_payload row = demo_payload \<Longrightarrow> in_scope row = (''g'', ''/w'') \<Longrightarrow> in_message row = ''m1'' \<Longrightarrow> in_status row \<noteq> InReleased \<Longrightarrow>
     row_record row = Inr (record_of row)"
  using envelope_roundtrip [OF demo_envelope_ok demo_encoded]
  by (simp add: row_record_def demo_input_message record_of_def) (simp add: demo_envelope_def demo_scope_key demo_input_def)

lemma demo_rows:
  "in_payload demo_pending = demo_payload" "in_scope demo_pending = (''g'', ''/w'')" "in_message demo_pending = ''m1''"
  "in_status demo_pending = InPending" "in_attempt demo_pending = ''''" "in_seq demo_pending = 1"
  by (simp_all add: demo_pending_def)

lemma demo_reread:
  "in_payload row = demo_payload \<Longrightarrow> in_scope row = (''g'', ''/w'') \<Longrightarrow> in_message row = ''m1'' \<Longrightarrow> in_status row \<noteq> InReleased \<Longrightarrow>
     reread (''g'', ''/w'') ''m1'' (demo_inbox row as) = Inr (demo_inbox row as, record_of row)"
  by (simp add: reread_def select_row_def find_row_def demo_inbox_def demo_record)

lemma demo_key: "record_key (record_of row) = Inr ((''g'', ''/w''), ''m1'')"
  by (simp add: record_key_def record_of_def demo_input_message) (simp add: demo_envelope_def demo_scope_key demo_input_def)

lemma demo_accept: "run_input (Accept 50 demo_envelope demo_hex) new_inbox = (demo_inbox demo_pending [], True)"
proof -
  have "ev_scope demo_envelope = demo_scope" "si_id demo_input = ''m1''" by (simp_all add: demo_envelope_def demo_input_def)
  moreover have "row_record demo_pending = Inr (record_of demo_pending)" by (rule demo_record) (simp_all add: demo_rows)
  ultimately show ?thesis
    using demo_hex_ok(2)
    by (simp add: enqueue_def valid_capacity_def atomically_def enqueue_write_def demo_encoded demo_input_message demo_scope_key Let_def
        find_row_def new_inbox_def capacity_check_def load_of_def bind_scope_def next_row_def select_row_def succeeded_def
        demo_inbox_def flip: demo_pending_def)
qed

lemma demo_claim: "run_input (ClaimNext demo_scope demo_hex) (demo_inbox demo_pending []) =
    (demo_inbox demo_claimed [new_attempt demo_hex 1], True)"
proof -
  have "set_input 1 (\<lambda>r. r\<lparr>in_status := InClaimed, in_attempt := demo_hex\<rparr>)
      (demo_inbox demo_pending []\<lparr>ib_attempts := [new_attempt demo_hex 1]\<rparr>) = demo_inbox demo_claimed [new_attempt demo_hex 1]"
    by (simp add: set_input_def demo_inbox_def demo_rows demo_claimed_def)
  moreover have "reread (''g'', ''/w'') ''m1'' (demo_inbox demo_claimed [new_attempt demo_hex 1]) =
      Inr (demo_inbox demo_claimed [new_attempt demo_hex 1], record_of demo_claimed)"
    by (rule demo_reread) (simp_all add: demo_claimed_def demo_rows)
  moreover have "ib_inputs (demo_inbox demo_pending []) = [demo_pending]" "ib_attempts (demo_inbox demo_pending []) = []"
    by (simp_all add: demo_inbox_def)
  ultimately show ?thesis
    by (simp add: claim_input_def atomically_def claim_write_def demo_scope_key Let_def demo_rows active_def succeeded_def)
qed

lemma demo_start_input: "run_input (StartInput (record_of demo_claimed) ''s'' (PFin 1)) (demo_inbox demo_claimed [new_attempt demo_hex 1]) =
    (demo_inbox demo_running [demo_attempt], True)"
proof -
  have "select_row (''g'', ''/w'') ''m1'' (demo_inbox demo_claimed [new_attempt demo_hex 1]) = Inr demo_claimed"
    by (simp add: select_row_def find_row_def demo_inbox_def demo_claimed_def demo_rows)
  moreover have "ir_attempt (record_of demo_claimed) = demo_hex" "in_attempt demo_claimed = demo_hex" "in_status demo_claimed = InClaimed"
      "in_seq demo_claimed = 1"
    by (simp_all add: record_of_def demo_claimed_def demo_rows)
  moreover have "set_attempt demo_hex
       (\<lambda>a. a\<lparr>at_status := InRunning, at_started := True, at_session := ''s'', at_started_at := Some (PFin 1)\<rparr>)
       (set_input 1 (\<lambda>row. row\<lparr>in_status := InRunning, in_session := ''s''\<rparr>) (demo_inbox demo_claimed [new_attempt demo_hex 1])) =
      demo_inbox demo_running [demo_attempt]"
    by (simp add: set_attempt_def set_input_def demo_inbox_def demo_running_def demo_claimed_def demo_rows demo_attempt_def new_attempt_def)
  moreover have "reread (''g'', ''/w'') ''m1'' (demo_inbox demo_running [demo_attempt]) =
      Inr (demo_inbox demo_running [demo_attempt], record_of demo_running)"
    by (rule demo_reread) (simp_all add: demo_running_def demo_claimed_def demo_rows)
  ultimately show ?thesis
    using demo_hex_ok(3)
    by (simp add: start_input_def atomically_def advance_def attempt_of_def demo_key succeeded_def)
qed

lemma inbox_three: "inbox_step s a s1 \<Longrightarrow> inbox_step s1 b s2 \<Longrightarrow> inbox_step s2 c s3 \<Longrightarrow> trace inbox_step s [a, b, c] s3"
  using trace_append [OF trace_append [OF trace_one [of inbox_step s a s1] trace_one [of inbox_step s1 b s2]] trace_one [of inbox_step s2 c s3]]
  by simp

lemma demo_inbox_run: "trace inbox_step new_inbox demo_inputs (demo_inbox demo_running [demo_attempt])"
  unfolding demo_inputs_def
proof (rule inbox_three)
  show "inbox_step new_inbox (Accept 50 demo_envelope demo_hex, True) (demo_inbox demo_pending [])"
    using demo_accept by (simp only: inbox_step_def fst_conv snd_conv typed_input.simps demo_envelope_ok demo_hex_ok(1) simp_thms)
  show "inbox_step (demo_inbox demo_pending []) (ClaimNext demo_scope demo_hex, True) (demo_inbox demo_claimed [new_attempt demo_hex 1])"
    using demo_claim by (simp only: inbox_step_def fst_conv snd_conv typed_input.simps demo_hex_ok(1) simp_thms)
  have "valid_time (Some (PFin 1))" by (simp add: valid_time_def)
  then show "inbox_step (demo_inbox demo_claimed [new_attempt demo_hex 1]) (StartInput (record_of demo_claimed) ''s'' (PFin 1), True)
      (demo_inbox demo_running [demo_attempt])"
    using demo_start_input by (simp only: inbox_step_def fst_conv snd_conv typed_input.simps simp_thms)
qed

end
