(* ===== verification/Input_Props.thy ===== *)
theory Input_Props
  imports Input_Demo
begin

text \<open>What every run of the inbox keeps.\<close>

text \<open>C39. A saved input reads back: every envelope the constructor makes of typed arguments, once encoded, is decoded
  to the same envelope, whatever its message, context, reply target and images are.\<close>

theorem saved_envelope_restores:
  assumes "make_envelope sc m reply images human key context = Inr e" and "scope_ok sc" and "reply_ok reply"
    and "unique_fields (input_doc m)" and "unique_fields context" and "encode_envelope e = Inr payload"
  shows "decode_envelope payload = Inr e"
  using made_envelope_ok [OF assms(1-5)] assms(6) by (rule envelope_roundtrip)

lemma saved_envelope_restores_witness: "decode_envelope demo_payload = Inr demo_envelope"
proof -
  have "bounded_text True 256 ''''" by (simp add: bounded_text_def byte_length_def)
  then have "make_envelope demo_scope demo_input None [] (VBool True) (VStr '''') VNone = Inr demo_envelope"
    using demo_decoded
    by (simp add: make_envelope_def human_check_def text_check_def context_check_def sorted_input_doc demo_envelope_def)
      (simp add: demo_input_def)
  then show ?thesis
    by (rule saved_envelope_restores) (simp_all add: demo_scope_ok reply_ok_def demo_encoded, simp_all add: input_doc_def demo_input_def)
qed

text \<open>C26. Whatever calls the intake, the consumer and the operator make, in any order and with the process dying
  between any two of them, the inbox file they leave is one that opening accepts, and opening it
  returns the unstarted claims to the queue, settles the interrupted runs and changes nothing else.\<close>

theorem inbox_reopens:
  assumes "trace inbox_step new_inbox es ib"
  shows "open_inbox now ib = Inr (recover_inbox now ib)"
  using inbox_ok_validates [OF run_inbox_ok [OF assms]] by (simp add: open_inbox_def)

lemma inbox_reopens_witness:
  "open_inbox (PFin 2) (demo_inbox demo_running [demo_attempt]) =
    Inr (demo_inbox (demo_running\<lparr>in_status := InInterrupted, in_error := INTERRUPTED\<rparr>)
      [demo_attempt\<lparr>at_status := InInterrupted, at_error := INTERRUPTED, at_settled_at := Some (PFin 2)\<rparr>])"
  using inbox_reopens [OF demo_inbox_run, of "PFin 2"]
  by (simp add: recover_inbox_def demo_inbox_def recover_input_def recover_attempt_def demo_running_def demo_attempt_def)

text \<open>C18. Nothing runs by itself again: over any run, crashes included, an accepted message was started at most once
  more often than it was explicitly retried, and not more often than that while it waits, is
  claimed or is cancelled; and no attempt is started twice.\<close>

theorem executions_authorized:
  assumes "trace inbox_step new_inbox es ib"
  shows "length (filter (starts k) es) \<le> length (filter (retries k) es) +
      (if stage ib k \<in> {Some InRunning, Some InSucceeded, Some InFailed, Some InInterrupted} then 1 else 0) \<and>
    distinct (concat (map begun es))"
proof
  show "distinct (concat (map begun es))" by (rule attempts.granted_once [OF assms new_inbox_ok])
  show "length (filter (starts k) es) \<le> length (filter (retries k) es) +
      (if stage ib k \<in> {Some InRunning, Some InSucceeded, Some InFailed, Some InInterrupted} then 1 else 0)"
    using assms
  proof (induction rule: trace.induct)
    case (trace_snoc es s e s')
    have "stage_moves k e s s'" using stage_step [of s "fst e" "snd e" s' k] trace_snoc.hyps run_inbox_ok by auto
    moreover have "starts k e \<Longrightarrow> \<not> retries k e" by (cases "(k, e)" rule: starts.cases) auto
    ultimately show ?case using trace_snoc.IH by (auto simp: stage_moves_def quiet_move_def split: if_splits)
  qed simp
qed

lemma executions_authorized_witness: "distinct (concat (map begun demo_inputs)) \<and> concat (map begun demo_inputs) = [demo_hex]"
proof -
  have "concat (map begun demo_inputs) = [demo_hex]"
    by (simp add: demo_inputs_def record_of_def demo_claimed_def)
  then show ?thesis using executions_authorized [OF demo_inbox_run] by blast
qed

text \<open>An accepted message is never lost: from the moment the inbox holds it, and whatever happens then, it holds it
  with the same content at the same place in the queue.\<close>

lemma accepted_input_kept:
  assumes "trace inbox_step new_inbox es ib" and "trace inbox_step ib es' ib'" and "find_row k i ib = Some row"
  shows "\<exists>row'. find_row k i ib' = Some row' \<and> in_payload row' = in_payload row \<and> in_seq row' = in_seq row"
proof -
  have ok: "inbox_ok ib'" using inbox.trace_inv [OF assms(2) run_inbox_ok [OF assms(1)]] .
  have "set (row_frame ib) \<subseteq> set (row_frame ib')"
    using assms(2)
  proof (induction rule: trace.induct)
    case (trace_snoc es s e s')
    have "set (row_frame s) \<subseteq> set (row_frame s')"
    proof (cases "\<exists>maximum v hex. fst e = Accept maximum v hex")
      case True
      then obtain maximum v hex res where "enqueue maximum v hex s = (s', res)"
        using trace_snoc.hyps(2) by (auto simp: inbox_step_def succeeded_def prod_eq_iff)
      from enqueue_row_frame [OF this] show ?thesis by (auto simp: row_frame_def)
    next
      case False
      then show ?thesis using row_frame_step [of s "fst e" "snd e" s'] trace_snoc.hyps(2) by auto
    qed
    then show ?case using trace_snoc.IH by blast
  qed simp
  moreover have "(in_seq row, k, i, in_payload row) \<in> set (row_frame ib)" using found_row [OF assms(3)] by (force simp: row_frame_def)
  ultimately obtain row' where r: "row' \<in> set (ib_inputs ib')" "in_seq row' = in_seq row" "in_scope row' = k" "in_message row' = i"
      "in_payload row' = in_payload row"
    by (auto simp: row_frame_def)
  then show ?thesis using row_of_key [OF ok r(1)] by blast
qed

lemma accepted_input_kept_witness:
  "\<exists>row'. find_row (''g'', ''/w'') ''m1'' (recover_inbox (PFin 2) (demo_inbox demo_running [demo_attempt])) = Some row' \<and>
    in_payload row' = demo_payload \<and> in_seq row' = 1"
proof -
  have "inbox_step (demo_inbox demo_running [demo_attempt]) (RestartInbox (PFin 2), True)
      (recover_inbox (PFin 2) (demo_inbox demo_running [demo_attempt]))"
    by (simp add: inbox_step_def valid_time_def)
  note t = trace_one [of inbox_step, OF this]
  have f: "find_row (''g'', ''/w'') ''m1'' (demo_inbox demo_running [demo_attempt]) = Some demo_running"
    by (simp add: find_row_def demo_inbox_def demo_running_def demo_claimed_def demo_rows)
  show ?thesis using accepted_input_kept [OF demo_inbox_run t f] by (simp add: demo_running_def demo_claimed_def demo_rows)
qed

text \<open>The queue of a scope is bounded: if no call admits more than \<open>n\<close> messages, no scope ever holds more than
  \<open>n\<close> unfinished ones, however often they are released, retried and recovered.\<close>

lemma inbox_load_bounded:
  assumes "trace inbox_step new_inbox es ib" and "\<forall>e \<in> set es. capacity_of n (fst e)" and "0 \<le> n"
  shows "int (load_of k ib) \<le> n"
  using assms
proof (induction rule: trace.induct)
  case trace_nil
  then show ?case by (simp add: load_of_def new_inbox_def)
next
  case (trace_snoc es s e s')
  then show ?case using load_step [of s "fst e" "snd e" s' n k] run_inbox_ok by simp
qed

lemma inbox_load_bounded_witness: "int (load_of (''g'', ''/w'') (demo_inbox demo_running [demo_attempt])) \<le> 50"
  by (rule inbox_load_bounded [OF demo_inbox_run]) (simp_all add: demo_inputs_def)

end
