(* ===== verification/Output_Store.thy ===== *)
theory Output_Store
  imports Input_Store
begin

text \<open>
  \<open>claw/core/outputs/store.py\<close>: the journal of output chunks and of the attempts to send them.
  SHA-256 is the argument \<open>sha\<close>; nothing is relied on but that it is a function. Transactions,
  keys, \<open>uuid4\<close> and saved payloads are as in the inbox.
\<close>

section \<open>The tables\<close>

text \<open>The statuses of the two tables: an output is never \<open>not_sent\<close>, a send attempt never pending or cancelled.\<close>

datatype output_status = OutPending | OutSending | OutDelivered | OutUnknown | OutCancelled | OutNotSent

record origin_row =
  og_id :: string
  og_scope :: "string \<times> string"
  og_message :: string
  og_attempt :: string
  og_binding :: string
  og_payload :: pyval
  og_hash :: string

record output_row =
  ou_seq :: int
  ou_id :: string
  ou_origin :: string
  ou_ordinal :: int
  ou_text :: string
  ou_hash :: string
  ou_status :: output_status
  ou_send :: string
  ou_error :: string

record send_row =
  sd_id :: string
  sd_output :: string
  sd_status :: output_status
  sd_error :: string

record journal =
  jo_origins :: "origin_row list"
  jo_outputs :: "output_row list"
  jo_sends :: "send_row list"

definition new_journal :: journal where
  "new_journal = \<lparr>jo_origins = [], jo_outputs = [], jo_sends = []\<rparr>"

section \<open>Identities\<close>

definition parts_key :: "(string \<Rightarrow> string) \<Rightarrow> pyval list \<Rightarrow> string" where
  "parts_key sha parts = sha (json_dumps True '','' '':'' (VList parts))"

definition label_check :: "string \<Rightarrow> goal_exc + unit" where
  "label_check s = (if bounded_text False 256 s then Inr () else Inl BadValue)"

definition origin_key :: "(string \<Rightarrow> string) \<Rightarrow> envelope \<Rightarrow> string \<Rightarrow> string \<Rightarrow> goal_exc + string" where
  "origin_key sha e attempt binding =
     raise_bind (label_check attempt) (\<lambda>_. raise_bind (label_check binding) (\<lambda>_. raise_bind (envelope_message e) (\<lambda>m.
       Inr (parts_key sha [VStr (fst (scope_key (ev_scope e))), VStr (snd (scope_key (ev_scope e))), VStr (si_id m),
         VStr attempt, VStr binding]))))"

definition output_key :: "(string \<Rightarrow> string) \<Rightarrow> string \<Rightarrow> int \<Rightarrow> string" where
  "output_key sha origin ordinal = parts_key sha [VStr origin, VInt ordinal]"

definition ordinal_check :: "int \<Rightarrow> goal_exc + unit" where
  "ordinal_check n = (if 0 \<le> n \<and> n < 2 ^ 53 then Inr () else Inl BadValue)"

definition chunk_check :: "string \<Rightarrow> goal_exc + unit" where
  "chunk_check s = (if s = [] \<or> 65536 < byte_length s then Inl BadValue else Inr ())"

section \<open>Records\<close>

record output_record =
  or_id :: string
  or_envelope :: envelope
  or_attempt :: string
  or_ordinal :: int
  or_binding :: string
  or_text :: string
  or_status :: output_status
  or_send :: string
  or_error :: string

definition delivery_status :: "output_record list \<Rightarrow> string" where
  "delivery_status rows =
     (let states = set (map or_status rows)
      in if states = {} then ''untracked'' else if states = {OutDelivered} then ''delivered''
         else if OutUnknown \<in> states then ''unknown'' else if states \<subseteq> {OutPending, OutSending} then ''pending''
         else if states = {OutCancelled} then ''cancelled'' else ''partial'')"

text \<open>\<open>_record\<close> of a row of the join of \<open>outputs\<close> and \<open>origins\<close>.\<close>

definition joined_record :: "(string \<Rightarrow> string) \<Rightarrow> origin_row \<Rightarrow> output_row \<Rightarrow> goal_exc + output_record" where
  "joined_record sha og ou =
     raise_bind (decode_envelope (og_payload og)) (\<lambda>e.
     raise_bind (origin_key sha e (og_attempt og) (og_binding og)) (\<lambda>origin.
     raise_bind (ordinal_check (ou_ordinal ou)) (\<lambda>_.
     raise_bind (chunk_check (ou_text ou)) (\<lambda>_.
     raise_bind (envelope_message e) (\<lambda>m.
       if origin \<noteq> ou_origin ou \<or> output_key sha origin (ou_ordinal ou) \<noteq> ou_id ou
          \<or> sha (json_text (og_payload og)) \<noteq> og_hash og \<or> sha (ou_text ou) \<noteq> ou_hash ou
          \<or> (scope_key (ev_scope e), si_id m) \<noteq> (og_scope og, og_message og) \<or> ou_status ou = OutNotSent
       then Inl BadValue
       else Inr \<lparr>or_id = ou_id ou, or_envelope = e, or_attempt = og_attempt og, or_ordinal = ou_ordinal ou,
                 or_binding = og_binding og, or_text = ou_text ou, or_status = ou_status ou, or_send = ou_send ou,
                 or_error = ou_error ou\<rparr>)))))"

definition find_origin :: "string \<Rightarrow> journal \<Rightarrow> origin_row option" where
  "find_origin i j = find (\<lambda>og. og_id og = i) (jo_origins j)"

definition find_output :: "string \<Rightarrow> journal \<Rightarrow> output_row option" where
  "find_output i j = find (\<lambda>ou. ou_id ou = i) (jo_outputs j)"

definition joined :: "journal \<Rightarrow> (origin_row \<times> output_row) list" where
  "joined j = List.map_filter (\<lambda>ou. map_option (\<lambda>og. (og, ou)) (find_origin (ou_origin ou) j)) (jo_outputs j)"

definition select_output :: "(string \<Rightarrow> string) \<Rightarrow> string \<Rightarrow> journal \<Rightarrow> goal_exc + output_record" where
  "select_output sha i j =
     (case find (\<lambda>(og, ou). ou_id ou = i) (joined j) of None \<Rightarrow> Inl BadValue | Some (og, ou) \<Rightarrow> joined_record sha og ou)"

definition output_records ::
  "(string \<Rightarrow> string) \<Rightarrow> input_scope option \<Rightarrow> string option \<Rightarrow> journal \<Rightarrow> goal_exc + output_record list" where
  "output_records sha sc message j =
     raise_bind (case message of None \<Rightarrow> Inr () | Some i \<Rightarrow> label_check i) (\<lambda>_.
       raise_map (\<lambda>(og, ou). joined_record sha og ou)
         (filter (\<lambda>(og, ou). (case sc of None \<Rightarrow> True | Some s \<Rightarrow> og_scope og = scope_key s) \<and>
                             (case message of None \<Rightarrow> True | Some i \<Rightarrow> og_message og = i)) (joined j)))"

text \<open>\<open>json_extract\<close> of a path of keys; a number or a null is no text.\<close>

fun json_path :: "string list \<Rightarrow> pyval \<Rightarrow> pyval option" where
  "json_path [] v = Some v"
| "json_path (k # ks) v = (case v of VDict d \<Rightarrow> (case map_of d k of None \<Rightarrow> None | Some w \<Rightarrow> json_path ks w) | _ \<Rightarrow> None)"

definition delivery_for_reference ::
  "(string \<Rightarrow> string) \<Rightarrow> input_scope \<Rightarrow> string \<Rightarrow> journal \<Rightarrow> goal_exc + string \<times> (string \<times> output_status) list" where
  "delivery_for_reference sha sc reference j =
     (if strip reference = [] \<or> 256 < byte_length reference then Inl BadValue
      else let rows = filter (\<lambda>(og, ou). og_scope og = scope_key sc \<and>
                 json_path [''context'', ''outbound_tool''] (og_payload og) = Some (VStr ''message'') \<and>
                 json_path [''message'', ''provenance'', ''reference''] (og_payload og) = Some (VStr reference)) (joined j)
           in if 256 < length rows then Inr (''unavailable'', [])
              else raise_bind (raise_map (\<lambda>(og, ou). joined_record sha og ou) rows) (\<lambda>rs.
                Inr (delivery_status rs, map (\<lambda>r. (or_id r, or_status r)) rs)))"

section \<open>Operations\<close>

definition next_output :: "journal \<Rightarrow> int" where
  "next_output j = fold max (map ou_seq (jo_outputs j)) 0 + 1"

definition add_origin :: "origin_row \<Rightarrow> journal \<Rightarrow> journal" where
  "add_origin og j = (if find_origin (og_id og) j \<noteq> None then j else j\<lparr>jo_origins := jo_origins j @ [og]\<rparr>)"

text \<open>\<open>INSERT OR IGNORE\<close> under \<open>UNIQUE(output_id)\<close> and \<open>UNIQUE(origin_id, ordinal)\<close>.\<close>

definition add_output :: "output_row \<Rightarrow> journal \<Rightarrow> journal" where
  "add_output ou j =
     (if \<exists>x \<in> set (jo_outputs j). ou_id x = ou_id ou \<or> (ou_origin x, ou_ordinal x) = (ou_origin ou, ou_ordinal ou) then j
      else j\<lparr>jo_outputs := jo_outputs j @ [ou]\<rparr>)"

definition append_write ::
  "(string \<Rightarrow> string) \<Rightarrow> envelope \<Rightarrow> string \<Rightarrow> int \<Rightarrow> string \<Rightarrow> string \<Rightarrow> journal \<Rightarrow> goal_exc + journal \<times> output_record" where
  "append_write sha e attempt ordinal binding chunk j =
     raise_bind (ordinal_check ordinal) (\<lambda>_.
     raise_bind (chunk_check chunk) (\<lambda>_.
     raise_bind (origin_key sha e attempt binding) (\<lambda>origin.
     raise_bind (encode_envelope e) (\<lambda>payload.
     raise_bind (envelope_message e) (\<lambda>m.
       let i = output_key sha origin ordinal
       in if (case find_origin origin j of None \<Rightarrow> False | Some og \<Rightarrow> json_text (og_payload og) \<noteq> json_text payload) then Inl BadValue
          else let j = add_origin \<lparr>og_id = origin, og_scope = scope_key (ev_scope e), og_message = si_id m, og_attempt = attempt,
                   og_binding = binding, og_payload = payload, og_hash = sha (json_text payload)\<rparr> j
               in if (case find_output i j of None \<Rightarrow> False | Some ou \<Rightarrow> ou_text ou \<noteq> chunk) then Inl BadValue
                  else let j = add_output \<lparr>ou_seq = next_output j, ou_id = i, ou_origin = origin, ou_ordinal = ordinal, ou_text = chunk,
                         ou_hash = sha chunk, ou_status = OutPending, ou_send = '''', ou_error = ''''\<rparr> j
                       in raise_bind (select_output sha i j) (\<lambda>r. Inr (j, r)))))))"

definition append_output ::
  "(string \<Rightarrow> string) \<Rightarrow> envelope \<Rightarrow> string \<Rightarrow> int \<Rightarrow> string \<Rightarrow> string \<Rightarrow> journal \<Rightarrow> journal \<times> (goal_exc + output_record)" where
  "append_output sha e attempt ordinal binding chunk = atomically (append_write sha e attempt ordinal binding chunk)"

definition set_output :: "string \<Rightarrow> (output_row \<Rightarrow> output_row) \<Rightarrow> journal \<Rightarrow> journal" where
  "set_output i f j = j\<lparr>jo_outputs := map (\<lambda>ou. if ou_id ou = i then f ou else ou) (jo_outputs j)\<rparr>"

definition set_send :: "string \<Rightarrow> (send_row \<Rightarrow> send_row) \<Rightarrow> journal \<Rightarrow> journal" where
  "set_send i f j = j\<lparr>jo_sends := map (\<lambda>sd. if sd_id sd = i then f sd else sd) (jo_sends j)\<rparr>"

definition pending_ids :: "input_scope \<Rightarrow> string list \<Rightarrow> journal \<Rightarrow> string list" where
  "pending_ids sc messages j =
     map (\<lambda>(og, ou). ou_id ou) (filter (\<lambda>(og, ou). og_scope og = scope_key sc \<and> ou_status ou = OutPending \<and> og_message og \<in> set messages)
       (joined j))"

definition cancel_one :: "string \<Rightarrow> journal \<Rightarrow> journal" where
  "cancel_one i = set_output i (\<lambda>ou. if ou_status ou = OutPending then ou\<lparr>ou_status := OutCancelled\<rparr> else ou)"

definition cancel_outputs :: "input_scope \<Rightarrow> string list \<Rightarrow> journal \<Rightarrow> journal \<times> (goal_exc + string list)" where
  "cancel_outputs sc messages j =
     (case raise_map label_check messages of
        Inl e \<Rightarrow> (j, Inl e)
      | Inr _ \<Rightarrow> (let ids = pending_ids sc messages j in (fold cancel_one ids j, Inr ids)))"

definition begin_write :: "(string \<Rightarrow> string) \<Rightarrow> string \<Rightarrow> string \<Rightarrow> journal \<Rightarrow> goal_exc + journal \<times> output_record" where
  "begin_write sha i hex j =
     raise_bind (select_output sha i j) (\<lambda>r.
       if or_status r \<noteq> OutPending then Inl BadValue
       else if hex \<in> sd_id ` set (jo_sends j) then Inl Constraint
       else let j = set_output i (\<lambda>ou. ou\<lparr>ou_status := OutSending, ou_send := hex, ou_error := ''''\<rparr>)
                      (j\<lparr>jo_sends := jo_sends j @ [\<lparr>sd_id = hex, sd_output = i, sd_status = OutSending, sd_error = ''''\<rparr>]\<rparr>)
            in raise_bind (select_output sha i j) (\<lambda>r. Inr (j, r)))"

definition begin_send :: "(string \<Rightarrow> string) \<Rightarrow> string \<Rightarrow> string \<Rightarrow> journal \<Rightarrow> journal \<times> (goal_exc + output_record)" where
  "begin_send sha i hex = atomically (begin_write sha i hex)"

definition attempt_state :: "output_status \<Rightarrow> output_status" where
  "attempt_state st = (if st = OutPending then OutNotSent else st)"

definition settle_write ::
  "(string \<Rightarrow> string) \<Rightarrow> string \<Rightarrow> string \<Rightarrow> output_status \<Rightarrow> string \<Rightarrow> journal \<Rightarrow> goal_exc + journal \<times> output_record" where
  "settle_write sha i send st err j =
     raise_bind (select_output sha i j) (\<lambda>r.
       if or_status r \<noteq> OutSending \<or> or_send r \<noteq> send then Inl BadValue
       else let j = set_output i (\<lambda>ou. ou\<lparr>ou_status := st, ou_error := err\<rparr>)
                      (set_send send (\<lambda>sd. sd\<lparr>sd_status := attempt_state st, sd_error := err\<rparr>) j)
            in raise_bind (select_output sha i j) (\<lambda>r. Inr (j, r)))"

definition settle_send ::
  "(string \<Rightarrow> string) \<Rightarrow> string \<Rightarrow> string \<Rightarrow> output_status \<Rightarrow> string \<Rightarrow> journal \<Rightarrow> journal \<times> (goal_exc + output_record)" where
  "settle_send sha i send st err j =
     (if st \<notin> {OutPending, OutDelivered, OutUnknown} then (j, Inl BadValue)
      else atomically (settle_write sha i send st err) j)"

section \<open>Opening\<close>

definition sends_of :: "journal \<Rightarrow> string \<Rightarrow> send_row list" where
  "sends_of j i = filter (\<lambda>sd. sd_output sd = i) (jo_sends j)"

definition sends_ok :: "output_row \<Rightarrow> send_row list \<Rightarrow> bool" where
  "sends_ok ou ss \<longleftrightarrow>
     (\<forall>sd \<in> set ss. uuid_ok (sd_id sd) \<and> sd_status sd \<in> {OutSending, OutNotSent, OutDelivered, OutUnknown}) \<and>
     (if ou_send ou \<noteq> ''''
      then ss \<noteq> [] \<and>
        (sd_id (last ss), sd_status (last ss), sd_error (last ss)) =
          (ou_send ou, if ou_status ou \<in> {OutPending, OutCancelled} then OutNotSent else ou_status ou, ou_error ou) \<and>
        (\<forall>sd \<in> set (butlast ss). sd_status sd = OutNotSent)
      else ss = [] \<and> ou_status ou \<in> {OutPending, OutCancelled} \<and> ou_error ou = '''')"

definition foreign_rows :: "journal \<Rightarrow> bool" where
  "foreign_rows j \<longleftrightarrow> (\<forall>ou \<in> set (jo_outputs j). ou_origin ou \<in> og_id ` set (jo_origins j)) \<and>
     (\<forall>sd \<in> set (jo_sends j). sd_output sd \<in> ou_id ` set (jo_outputs j))"

definition validate_outputs :: "(string \<Rightarrow> string) \<Rightarrow> journal \<Rightarrow> goal_exc + unit" where
  "validate_outputs sha j =
     (if \<not> foreign_rows j then Inl BadValue
      else raise_bind (raise_map (\<lambda>(og, ou). raise_bind (joined_record sha og ou) (\<lambda>_.
             if sends_ok ou (sends_of j (ou_id ou)) then Inr () else Inl BadValue)) (joined j)) (\<lambda>_. Inr ()))"

definition INTERRUPTED_SEND :: string where
  "INTERRUPTED_SEND = ''Transport interrupted; output may have been accepted, inspect before retry''"

definition recover_send :: "send_row \<Rightarrow> send_row" where
  "recover_send sd = (if sd_status sd = OutSending then sd\<lparr>sd_status := OutUnknown, sd_error := INTERRUPTED_SEND\<rparr> else sd)"

definition recover_output :: "output_row \<Rightarrow> output_row" where
  "recover_output ou = (if ou_status ou = OutSending then ou\<lparr>ou_status := OutUnknown, ou_error := INTERRUPTED_SEND\<rparr> else ou)"

definition recover_journal :: "journal \<Rightarrow> journal" where
  "recover_journal j = j\<lparr>jo_outputs := map recover_output (jo_outputs j), jo_sends := map recover_send (jo_sends j)\<rparr>"

definition open_outputs :: "(string \<Rightarrow> string) \<Rightarrow> journal \<Rightarrow> goal_exc + journal" where
  "open_outputs sha j = raise_bind (validate_outputs sha j) (\<lambda>_. Inr (recover_journal j))"

end
