(* ===== verification/Output_Inv.thy ===== *)
theory Output_Inv
  imports Output_Store Input_Inv
begin

text \<open>
  The invariant of the output journal, which is what opening it checks and what its keys enforce,
  and that every operation keeps it.
\<close>

section \<open>The invariant\<close>

definition origin_ok :: "(string \<Rightarrow> string) \<Rightarrow> origin_row \<Rightarrow> bool" where
  "origin_ok sha og \<longleftrightarrow> (\<exists>e m. envelope_ok e \<and> encode_envelope e = Inr (og_payload og) \<and> envelope_message e = Inr m \<and>
     origin_key sha e (og_attempt og) (og_binding og) = Inr (og_id og) \<and> og_hash og = sha (json_text (og_payload og)) \<and>
     og_scope og = scope_key (ev_scope e) \<and> og_message og = si_id m)"

definition chunk_ok :: "(string \<Rightarrow> string) \<Rightarrow> output_row \<Rightarrow> bool" where
  "chunk_ok sha ou \<longleftrightarrow> ordinal_check (ou_ordinal ou) = Inr () \<and> chunk_check (ou_text ou) = Inr () \<and>
     ou_id ou = output_key sha (ou_origin ou) (ou_ordinal ou) \<and> ou_hash ou = sha (ou_text ou)"

definition journal_ok :: "(string \<Rightarrow> string) \<Rightarrow> journal \<Rightarrow> bool" where
  "journal_ok sha j \<longleftrightarrow>
     distinct (map og_id (jo_origins j)) \<and> distinct (map ou_id (jo_outputs j)) \<and> distinct (map sd_id (jo_sends j)) \<and>
     foreign_rows j \<and> (\<forall>og \<in> set (jo_origins j). origin_ok sha og) \<and>
     (\<forall>ou \<in> set (jo_outputs j). chunk_ok sha ou \<and> ou_status ou \<noteq> OutNotSent \<and> sends_ok ou (sends_of j (ou_id ou))) \<and>
     (\<forall>sd \<in> set (jo_sends j). sd_id sd \<noteq> '''')"

lemma find_key: "distinct (map key xs) \<Longrightarrow> x \<in> set xs \<Longrightarrow> find (\<lambda>y. key y = key x) xs = Some x"
  by (induction xs) auto

lemma find_keyD: "find (\<lambda>y. key y = k) xs = Some x \<Longrightarrow> x \<in> set xs \<and> key x = k"
  by (auto simp: find_Some_iff)

lemma origin_found:
  assumes "journal_ok sha j" and "ou \<in> set (jo_outputs j)"
  obtains og where "find_origin (ou_origin ou) j = Some og" "og \<in> set (jo_origins j)" "og_id og = ou_origin ou" "origin_ok sha og"
proof -
  obtain og where og: "og \<in> set (jo_origins j)" "og_id og = ou_origin ou" using assms by (auto simp: journal_ok_def foreign_rows_def)
  moreover have "find_origin (ou_origin ou) j = Some og"
    using find_key [of og_id "jo_origins j" og] assms(1) og by (simp add: find_origin_def journal_ok_def)
  ultimately show ?thesis using that assms(1) by (simp add: journal_ok_def)
qed

lemma origin_record:
  assumes "origin_ok sha og" and "chunk_ok sha ou" and "og_id og = ou_origin ou" and "ou_status ou \<noteq> OutNotSent"
  obtains r where "joined_record sha og ou = Inr r" "or_id r = ou_id ou" "or_status r = ou_status ou" "or_send r = ou_send ou"
proof -
  obtain e m where e: "envelope_ok e" "encode_envelope e = Inr (og_payload og)" "envelope_message e = Inr m"
      "origin_key sha e (og_attempt og) (og_binding og) = Inr (og_id og)" "og_hash og = sha (json_text (og_payload og))"
      "og_scope og = scope_key (ev_scope e)" "og_message og = si_id m"
    using assms(1) by (auto simp: origin_ok_def)
  note d = envelope_roundtrip [OF e(1,2)]
  show ?thesis
    by (rule that, simp add: joined_record_def d e(3-7) assms(2-4) [unfolded chunk_ok_def] flip: assms(3))
      (use assms in \<open>simp_all add: chunk_ok_def\<close>)
qed

lemma joined_rows:
  assumes ok: "journal_ok sha j" and "set xs \<subseteq> set (jo_outputs j)"
  shows "map snd (List.map_filter (\<lambda>ou. map_option (\<lambda>og. (og, ou)) (find_origin (ou_origin ou) j)) xs) = xs"
  using assms(2)
proof (induction xs)
  case (Cons ou xs)
  obtain og where "find_origin (ou_origin ou) j = Some og" using origin_found [OF ok, of ou] Cons.prems by auto
  then show ?case using Cons by (simp add: map_filter_simps)
qed (simp add: map_filter_simps)

lemma joined_mem: "(og, ou) \<in> set (joined j) \<Longrightarrow> find_origin (ou_origin ou) j = Some og \<and> ou \<in> set (jo_outputs j)"
  by (auto simp: joined_def List.map_filter_def split: option.splits)

lemma joined_ok:
  assumes ok: "journal_ok sha j" and mem: "(og, ou) \<in> set (joined j)"
  obtains r where "joined_record sha og ou = Inr r" "or_id r = ou_id ou" "or_status r = ou_status ou" "or_send r = ou_send ou"
    "ou \<in> set (jo_outputs j)"
proof -
  have m: "find_origin (ou_origin ou) j = Some og" "ou \<in> set (jo_outputs j)" using joined_mem [OF mem] by auto
  then have "origin_ok sha og" "og_id og = ou_origin ou" "chunk_ok sha ou" "ou_status ou \<noteq> OutNotSent"
    using ok find_keyD [of og_id] by (auto simp: journal_ok_def find_origin_def)
  from origin_record [OF this(1,3,2,4)] show ?thesis using that m(2) by metis
qed

lemma select_found:
  assumes ok: "journal_ok sha j" and ou: "ou \<in> set (jo_outputs j)"
  obtains r where "select_output sha (ou_id ou) j = Inr r" "or_id r = ou_id ou" "or_status r = ou_status ou" "or_send r = ou_send ou"
proof -
  obtain og where og: "find_origin (ou_origin ou) j = Some og" using origin_found [OF ok ou] by metis
  have mem: "(og, ou) \<in> set (joined j)" using og ou by (auto simp: joined_def List.map_filter_def intro!: image_eqI [of _ _ ou])
  have "find (\<lambda>(og, o'). ou_id o' = ou_id ou) (joined j) = Some (og, ou)"
  proof -
    have "map snd (joined j) = jo_outputs j" using joined_rows [OF ok] by (simp add: joined_def)
    from arg_cong [OF this, of "map ou_id"]
    have "map (\<lambda>p. ou_id (snd p)) (joined j) = map ou_id (jo_outputs j)" by (simp only: map_map comp_def)
    then have "distinct (map (\<lambda>p. ou_id (snd p)) (joined j))" using ok by (simp only: journal_ok_def)
    from find_key [OF this mem] show ?thesis by (simp add: split_def)
  qed
  moreover obtain r where "joined_record sha og ou = Inr r" "or_id r = ou_id ou" "or_status r = ou_status ou" "or_send r = ou_send ou"
    using joined_ok [OF ok mem] by metis
  ultimately show ?thesis using that by (simp add: select_output_def)
qed

lemma select_output_Inr:
  assumes ok: "journal_ok sha j" and sel: "select_output sha i j = Inr r"
  obtains ou where "ou \<in> set (jo_outputs j)" "ou_id ou = i" "or_id r = i" "or_status r = ou_status ou" "or_send r = ou_send ou"
proof -
  obtain og ou where p: "find (\<lambda>(og, ou). ou_id ou = i) (joined j) = Some (og, ou)" "joined_record sha og ou = Inr r"
    using sel by (auto simp: select_output_def split: option.splits)
  then have "(og, ou) \<in> set (joined j)" "ou_id ou = i" by (auto simp: find_Some_iff set_conv_nth)
  then show ?thesis using joined_ok [OF ok] p(2) that by (metis sum.inject(2))
qed

lemma journal_ok_validates:
  assumes ok: "journal_ok sha j"
  shows "validate_outputs sha j = Inr ()"
proof -
  have "\<exists>y. (\<lambda>(og, ou). raise_bind (joined_record sha og ou) (\<lambda>_. if sends_ok ou (sends_of j (ou_id ou)) then Inr () else Inl BadValue)) p = Inr y"
    if "p \<in> set (joined j)" for p
  proof -
    obtain og ou where p: "p = (og, ou)" by (cases p)
    have m: "(og, ou) \<in> set (joined j)" using that p by simp
    obtain r where "joined_record sha og ou = Inr r" "ou \<in> set (jo_outputs j)" using joined_ok [OF ok m] by metis
    then show ?thesis using ok by (simp add: p journal_ok_def)
  qed
  then obtain ys where "raise_map (\<lambda>(og, ou). raise_bind (joined_record sha og ou)
      (\<lambda>_. if sends_ok ou (sends_of j (ou_id ou)) then Inr () else Inl BadValue)) (joined j) = Inr ys"
    using raise_map_units [of "joined j"] by blast
  then show ?thesis using ok by (simp add: validate_outputs_def journal_ok_def)
qed

section \<open>Changing one output\<close>

lemma unique_output:
  "journal_ok sha j \<Longrightarrow> ou \<in> set (jo_outputs j) \<Longrightarrow> x \<in> set (jo_outputs j) \<Longrightarrow> ou_id x = ou_id ou \<Longrightarrow> x = ou"
  using inj_onD [of ou_id "set (jo_outputs j)" x ou] by (simp add: journal_ok_def distinct_map)

lemma change_output_ok:
  assumes ok: "journal_ok sha j" and ou: "ou \<in> set (jo_outputs j)"
    and keeps: "\<And>x. ou_id (f x) = ou_id x \<and> ou_origin (f x) = ou_origin x \<and> ou_ordinal (f x) = ou_ordinal x \<and>
      ou_text (f x) = ou_text x \<and> ou_hash (f x) = ou_hash x"
    and others: "\<And>i. i \<noteq> ou_id ou \<Longrightarrow> filter (\<lambda>sd. sd_output sd = i) ss = sends_of j i"
    and keys: "distinct (map sd_id ss)" "\<forall>sd \<in> set ss. sd_id sd \<noteq> ''''"
    and cell: "ou_status (f ou) \<noteq> OutNotSent" "sends_ok (f ou) (filter (\<lambda>sd. sd_output sd = ou_id ou) ss)"
  shows "journal_ok sha (set_output (ou_id ou) f (j\<lparr>jo_sends := ss\<rparr>))"
proof -
  let ?j = "set_output (ou_id ou) f (j\<lparr>jo_sends := ss\<rparr>)"
  define F where "F = (\<lambda>x. if ou_id x = ou_id ou then f x else x)"
  have outs: "jo_outputs ?j = map F (jo_outputs j)" and rest: "jo_origins ?j = jo_origins j" "jo_sends ?j = ss"
    by (simp_all add: set_output_def F_def)
  have same: "ou_id (F x) = ou_id x" "ou_origin (F x) = ou_origin x" "chunk_ok sha (F x) = chunk_ok sha x" for x
    using keeps [of x] by (simp_all add: F_def chunk_ok_def)
  have ids: "ou_id ` set (jo_outputs ?j) = ou_id ` set (jo_outputs j)" unfolding outs by (simp add: image_image same)
  have "sd_output sd \<in> ou_id ` set (jo_outputs j)" if "sd \<in> set ss" for sd
  proof (cases "sd_output sd = ou_id ou")
    case False
    have "sd \<in> set (filter (\<lambda>x. sd_output x = sd_output sd) ss)" using that by simp
    then have "sd \<in> set (jo_sends j)" unfolding others [OF False] by (simp add: sends_of_def)
    then show ?thesis using ok by (simp add: journal_ok_def foreign_rows_def)
  qed (use ou in simp)
  then have "foreign_rows ?j"
    using ok unfolding foreign_rows_def ids rest by (auto simp: outs same journal_ok_def foreign_rows_def)
  moreover have "chunk_ok sha (F x) \<and> ou_status (F x) \<noteq> OutNotSent \<and> sends_ok (F x) (sends_of ?j (ou_id (F x)))"
    if x: "x \<in> set (jo_outputs j)" for x
  proof (cases "ou_id x = ou_id ou")
    case True
    then have "x = ou" using unique_output [OF ok ou x] by simp
    then show ?thesis using cell ok ou same(3) [of ou] same(1) [of ou] by (simp add: F_def sends_of_def rest journal_ok_def)
  next
    case False
    then have "sends_of ?j (ou_id x) = sends_of j (ou_id x)" using others by (simp add: sends_of_def rest)
    then show ?thesis using False ok x by (simp add: F_def journal_ok_def)
  qed
  moreover have "distinct (map ou_id (jo_outputs ?j))" using ok by (simp add: outs comp_def same journal_ok_def)
  ultimately show ?thesis using ok keys by (simp add: journal_ok_def rest) (simp add: outs)
qed

section \<open>Operations\<close>

lemma set_output_keeps [simp]:
  "jo_origins (set_output i f j) = jo_origins j" "jo_sends (set_output i f j) = jo_sends j"
  by (simp_all add: set_output_def)

lemma origins_grow: "set (jo_origins j) \<subseteq> set (jo_origins (add_origin og j))"
  by (auto simp: add_origin_def)

lemma add_origin_ok:
  assumes ok: "journal_ok sha j" and og: "origin_ok sha og"
  shows "journal_ok sha (add_origin og j) \<and> og_id og \<in> og_id ` set (jo_origins (add_origin og j)) \<and>
    jo_outputs (add_origin og j) = jo_outputs j \<and> jo_sends (add_origin og j) = jo_sends j"
proof (cases "find_origin (og_id og) j")
  case None
  then have "og_id og \<notin> og_id ` set (jo_origins j)" by (auto simp: find_origin_def find_None_iff)
  then show ?thesis using ok og None
    by (auto simp: add_origin_def journal_ok_def foreign_rows_def sends_of_def)
next
  case (Some x)
  then have "x \<in> set (jo_origins j)" "og_id x = og_id og" using find_keyD [of og_id "og_id og" "jo_origins j" x] by (simp_all add: find_origin_def)
  then have "og_id og \<in> og_id ` set (jo_origins j)" by (metis image_eqI)
  then show ?thesis using ok Some by (simp add: add_origin_def)
qed

lemma add_output_ok:
  assumes ok: "journal_ok sha j" and ou: "chunk_ok sha ou" "ou_status ou = OutPending" "ou_send ou = ''''" "ou_error ou = ''''"
    and og: "ou_origin ou \<in> og_id ` set (jo_origins j)"
  shows "journal_ok sha (add_output ou j)"
proof (cases "\<exists>x \<in> set (jo_outputs j). ou_id x = ou_id ou \<or> (ou_origin x, ou_ordinal x) = (ou_origin ou, ou_ordinal ou)")
  case False
  then have new: "ou_id ou \<notin> ou_id ` set (jo_outputs j)" by auto
  have "\<forall>sd \<in> set (jo_sends j). sd_output sd \<in> ou_id ` set (jo_outputs j)" using ok by (simp add: journal_ok_def foreign_rows_def)
  then have "sends_of j (ou_id ou) = []" unfolding sends_of_def filter_empty_conv using new by metis
  then have sends: "sends_ok ou (sends_of j (ou_id ou))" using ou by (simp add: sends_ok_def)
  let ?j = "j\<lparr>jo_outputs := jo_outputs j @ [ou]\<rparr>"
  have "add_output ou j = ?j" using False unfolding add_output_def by (rule if_not_P)
  moreover have "sends_of ?j i = sends_of j i" for i by (simp add: sends_of_def)
  moreover have "foreign_rows ?j" using ok og by (auto simp: journal_ok_def foreign_rows_def)
  ultimately show ?thesis using ok ou(1,2) new sends by (simp add: journal_ok_def)
qed (use ok in \<open>simp add: add_output_def\<close>)

lemma append_ok:
  assumes ok: "journal_ok sha j" and e: "envelope_ok e"
  shows "journal_ok sha (fst (append_output sha e attempt ordinal binding chunk j))"
  unfolding append_output_def
proof (rule atomically_keeps [where P = "journal_ok sha", OF ok])
  fix j' r
  assume "append_write sha e attempt ordinal binding chunk j = Inr (j', r)"
  then obtain origin payload m where c: "ordinal_check ordinal = Inr ()" "chunk_check chunk = Inr ()"
      "origin_key sha e attempt binding = Inr origin" "encode_envelope e = Inr payload" "envelope_message e = Inr m"
    and j': "j' = (let j1 = add_origin \<lparr>og_id = origin, og_scope = scope_key (ev_scope e), og_message = si_id m, og_attempt = attempt,
                   og_binding = binding, og_payload = payload, og_hash = sha (json_text payload)\<rparr> j
               in add_output \<lparr>ou_seq = next_output j1, ou_id = output_key sha origin ordinal, ou_origin = origin, ou_ordinal = ordinal,
                         ou_text = chunk, ou_hash = sha chunk, ou_status = OutPending, ou_send = '''', ou_error = ''''\<rparr> j1)"
    unfolding append_write_def by (auto simp: raise_bind_Inr_iff Let_def split: if_splits)
  let ?og = "\<lparr>og_id = origin, og_scope = scope_key (ev_scope e), og_message = si_id m, og_attempt = attempt,
     og_binding = binding, og_payload = payload, og_hash = sha (json_text payload)\<rparr>"
  have "origin_ok sha ?og" using e c by (auto simp: origin_ok_def)
  note o = add_origin_ok [OF ok this]
  show "journal_ok sha j'"
    unfolding j' Let_def by (rule add_output_ok) (use o c in \<open>simp_all add: chunk_ok_def\<close>)
qed

lemma settled_sends:
  assumes "sends_ok ou ss" and "ou_status ou = OutPending"
  shows "\<forall>sd \<in> set ss. sd_status sd = OutNotSent \<and> uuid_ok (sd_id sd)"
proof (cases "ou_send ou = ''''")
  case False
  then have "ss \<noteq> []" "sd_status (last ss) = OutNotSent" "\<forall>sd \<in> set (butlast ss). sd_status sd = OutNotSent" "\<forall>sd \<in> set ss. uuid_ok (sd_id sd)"
    using assms by (auto simp: sends_ok_def)
  moreover have "set ss = insert (last ss) (set (butlast ss))" using \<open>ss \<noteq> []\<close> by (cases ss rule: rev_cases) auto
  ultimately show ?thesis by auto
qed (use assms in \<open>simp add: sends_ok_def\<close>)

lemma begin_ok:
  assumes ok: "journal_ok sha j" and hex: "uuid_hex hex"
  shows "journal_ok sha (fst (begin_send sha i hex j))"
  unfolding begin_send_def
proof (rule atomically_keeps [where P = "journal_ok sha", OF ok])
  fix j' x
  assume w: "begin_write sha i hex j = Inr (j', x)"
  let ?f = "\<lambda>ou. ou\<lparr>ou_status := OutSending, ou_send := hex, ou_error := ''''\<rparr> :: output_row"
  let ?sd = "\<lparr>sd_id = hex, sd_output = i, sd_status = OutSending, sd_error = ''''\<rparr>"
  obtain r where sel: "select_output sha i j = Inr r" and st: "or_status r = OutPending" and new: "hex \<notin> sd_id ` set (jo_sends j)"
    and j': "j' = set_output i ?f (j\<lparr>jo_sends := jo_sends j @ [?sd]\<rparr>)"
    using w by (auto simp: begin_write_def raise_bind_Inr_iff Let_def split: if_splits)
  obtain ou where ou: "ou \<in> set (jo_outputs j)" "ou_id ou = i" "ou_status ou = OutPending"
    using select_output_Inr [OF ok sel] st by metis
  have cell: "sends_ok ou (sends_of j i)" using ok ou by (auto simp: journal_ok_def)
  have ne: "hex \<noteq> ''''" using hex by (auto simp: uuid_hex_def)
  have "sends_ok (?f ou) (sends_of j i @ [?sd])"
    using settled_sends [OF cell ou(3)] uuid_hex_ok [OF hex] ne by (auto simp: sends_ok_def)
  then have "journal_ok sha (set_output (ou_id ou) ?f (j\<lparr>jo_sends := jo_sends j @ [?sd]\<rparr>))"
    by (intro change_output_ok [OF ok ou(1)]) (use ok new ne ou(2) in \<open>auto simp: sends_of_def journal_ok_def\<close>)
  then show "journal_ok sha j'" by (simp add: j' ou(2))
qed

lemma settle_send_ok:
  assumes ok: "journal_ok sha j"
  shows "journal_ok sha (fst (settle_send sha i send st err j))"
proof (cases "st \<notin> {OutPending, OutDelivered, OutUnknown}")
  case False
  show ?thesis
    unfolding settle_send_def if_not_P [OF False]
  proof (rule atomically_keeps [where P = "journal_ok sha", OF ok])
    fix j' x
    assume w: "settle_write sha i send st err j = Inr (j', x)"
    let ?f = "\<lambda>ou. ou\<lparr>ou_status := st, ou_error := err\<rparr> :: output_row"
    let ?g = "\<lambda>sd. sd\<lparr>sd_status := attempt_state st, sd_error := err\<rparr> :: send_row"
    obtain r where sel: "select_output sha i j = Inr r" and st: "or_status r = OutSending" "or_send r = send"
      and j': "j' = set_output i ?f (set_send send ?g j)"
      using w by (auto simp: settle_write_def raise_bind_Inr_iff Let_def split: if_splits)
    obtain ou where ou: "ou \<in> set (jo_outputs j)" "ou_id ou = i" "ou_status ou = OutSending" "ou_send ou = send"
      using select_output_Inr [OF ok sel] st by metis
    have cell: "sends_ok ou (sends_of j i)" using ok ou by (auto simp: journal_ok_def)
    have ne: "send \<noteq> ''''" using cell ou by (auto simp: sends_ok_def)
    then have "sends_of j i \<noteq> []" using cell ou by (simp add: sends_ok_def)
    then obtain bs s where split: "sends_of j i = bs @ [s]" by (cases "sends_of j i" rule: rev_cases) auto
    have s: "sd_id s = send" "uuid_ok (sd_id s)" "\<forall>b \<in> set bs. sd_status b = OutNotSent \<and> uuid_ok (sd_id b)"
      using cell ou ne by (auto simp: split sends_ok_def)
    have mem: "s \<in> set (jo_sends j)" "sd_output s = i" "set bs \<subseteq> set (jo_sends j)"
      using arg_cong [OF split, of set] by (auto simp: sends_of_def)
    define G where "G = (\<lambda>sd. if sd_id sd = send then ?g sd else sd)"
    have ids: "distinct (map sd_id (jo_sends j))" using ok by (simp add: journal_ok_def)
    have same: "sd_id (G b) = sd_id b" "sd_output (G b) = sd_output b" for b by (simp_all add: G_def)
    have Gs: "G b = b" if "b \<in> set (jo_sends j)" "b \<noteq> s" for b
      using inj_onD [of sd_id "set (jo_sends j)" b s] ids that mem(1) s(1) by (auto simp: G_def distinct_map)
    have flt: "filter (\<lambda>b. sd_output b = k) (map G (jo_sends j)) = map G (sends_of j k)" for k
      by (simp add: filter_map comp_def same sends_of_def)
    have others: "map G (sends_of j k) = sends_of j k" if "k \<noteq> i" for k
      using Gs mem(2) that by (intro map_idI) (auto simp: sends_of_def)
    have "distinct (bs @ [s])" using ids unfolding split [symmetric] by (simp add: sends_of_def distinct_map)
    then have here: "map G (sends_of j i) = bs @ [?g s]"
      using Gs mem(3) s(1) unfolding split by (auto intro!: map_idI simp: G_def)
    have "journal_ok sha (set_output (ou_id ou) ?f (j\<lparr>jo_sends := map G (jo_sends j)\<rparr>))"
    proof (rule change_output_ok [OF ok ou(1)])
      show "filter (\<lambda>sd. sd_output sd = k) (map G (jo_sends j)) = sends_of j k" if "k \<noteq> ou_id ou" for k
        unfolding flt by (rule others) (use that ou(2) in simp)
      show "sends_ok (?f ou) (filter (\<lambda>sd. sd_output sd = ou_id ou) (map G (jo_sends j)))"
        unfolding flt ou(2) here using s ou(4) ne False by (auto simp: sends_ok_def attempt_state_def)
    qed (use ok False in \<open>auto simp: journal_ok_def comp_def same\<close>)
    then show "journal_ok sha j'" unfolding j' set_send_def G_def ou(2) .
  qed
qed (use ok in \<open>simp add: settle_send_def\<close>)

lemma cancel_one_ok:
  assumes ok: "journal_ok sha j"
  shows "journal_ok sha (cancel_one i j)"
proof (cases "\<exists>ou \<in> set (jo_outputs j). ou_id ou = i")
  case True
  then obtain ou where ou: "ou \<in> set (jo_outputs j)" "ou_id ou = i" by blast
  let ?f = "\<lambda>ou. if ou_status ou = OutPending then ou\<lparr>ou_status := OutCancelled\<rparr> else ou :: output_row"
  have "sends_ok ou (sends_of j i)" "ou_status ou \<noteq> OutNotSent" using ok ou by (auto simp: journal_ok_def)
  then have "journal_ok sha (set_output (ou_id ou) ?f (j\<lparr>jo_sends := jo_sends j\<rparr>))"
    by (intro change_output_ok [OF ok ou(1)]) (use ok ou(2) in \<open>auto simp: sends_of_def [symmetric] journal_ok_def sends_ok_def\<close>)
  then show ?thesis by (simp add: cancel_one_def ou(2))
next
  case False
  then have "map (\<lambda>ou. if ou_id ou = i then if ou_status ou = OutPending then ou\<lparr>ou_status := OutCancelled\<rparr> else ou else ou)
      (jo_outputs j) = jo_outputs j"
    by (intro map_idI) auto
  then have "cancel_one i j = j" by (simp add: cancel_one_def set_output_def)
  then show ?thesis using ok by simp
qed

lemma cancel_outputs_ok: "journal_ok sha j \<Longrightarrow> journal_ok sha (fst (cancel_outputs sc messages j))"
proof -
  have "journal_ok sha j \<Longrightarrow> journal_ok sha (fold cancel_one ids j)" for ids
    by (induction ids arbitrary: j) (simp_all add: cancel_one_ok)
  then show "journal_ok sha j \<Longrightarrow> ?thesis" by (simp add: cancel_outputs_def Let_def split: sum.split)
qed

lemma recover_journal_ok:
  assumes ok: "journal_ok sha j"
  shows "journal_ok sha (recover_journal j)"
proof -
  have out: "ou_id (recover_output ou) = ou_id ou" "ou_origin (recover_output ou) = ou_origin ou"
      "chunk_ok sha (recover_output ou) = chunk_ok sha ou" for ou
    by (simp_all add: recover_output_def chunk_ok_def)
  have send: "sd_id (recover_send sd) = sd_id sd" "sd_output (recover_send sd) = sd_output sd" for sd
    by (simp_all add: recover_send_def)
  have sends: "sends_of (recover_journal j) i = map recover_send (sends_of j i)" for i
    by (simp add: sends_of_def recover_journal_def filter_map comp_def send)
  have "sends_ok (recover_output ou) (map recover_send ss)" if s: "sends_ok ou ss" for ou ss
  proof (cases "ou_send ou = ''''")
    case True
    then show ?thesis using s by (auto simp: sends_ok_def recover_output_def)
  next
    case False
    then obtain bs sd where ss: "ss = bs @ [sd]" using s by (cases ss rule: rev_cases) (auto simp: sends_ok_def)
    have "map recover_send bs = bs" using s False by (intro map_idI) (auto simp: ss sends_ok_def recover_send_def)
    then show ?thesis using s False by (auto simp: ss sends_ok_def recover_output_def recover_send_def)
  qed
  then have "\<forall>ou \<in> set (jo_outputs j). chunk_ok sha (recover_output ou) \<and> ou_status (recover_output ou) \<noteq> OutNotSent \<and>
      sends_ok (recover_output ou) (sends_of (recover_journal j) (ou_id (recover_output ou)))"
    using ok by (auto simp: journal_ok_def out sends) (auto simp: recover_output_def split: if_splits)
  moreover have "foreign_rows (recover_journal j)"
    using ok by (auto simp: journal_ok_def foreign_rows_def recover_journal_def out send image_image)
  ultimately show ?thesis using ok
    by (simp add: journal_ok_def) (simp add: recover_journal_def comp_def out send)
qed

end
