(* ===== verification/Output_Runs.thy ===== *)
theory Output_Runs
  imports Output_Inv Input_Runs
begin

text \<open>
  Runs of the output journal: chunks appended, sends begun and settled, pending chunks cancelled,
  in any order and with the process dying and the journal being opened again between any two calls.
\<close>

section \<open>Calls\<close>

datatype output_op =
    AppendOutput envelope string int string string
  | BeginSend string string
  | SettleSend string string output_status string
  | CancelOutputs input_scope "string list"
  | RestartOutputs

fun run_output :: "(string \<Rightarrow> string) \<Rightarrow> output_op \<Rightarrow> journal \<Rightarrow> journal \<times> bool" where
  "run_output sha (AppendOutput e attempt ordinal binding chunk) j = succeeded (append_output sha e attempt ordinal binding chunk j)"
| "run_output sha (BeginSend i hex) j = succeeded (begin_send sha i hex j)"
| "run_output sha (SettleSend i send st err) j = succeeded (settle_send sha i send st err j)"
| "run_output sha (CancelOutputs sc messages) j = succeeded (cancel_outputs sc messages j)"
| "run_output sha RestartOutputs j = (recover_journal j, True)"

fun typed_output :: "output_op \<Rightarrow> bool" where
  "typed_output (AppendOutput e attempt ordinal binding chunk) = envelope_ok e"
| "typed_output (BeginSend i hex) = uuid_hex hex"
| "typed_output op = True"

definition journal_step :: "(string \<Rightarrow> string) \<Rightarrow> journal \<Rightarrow> output_op \<times> bool \<Rightarrow> journal \<Rightarrow> bool" where
  "journal_step sha j e j' \<longleftrightarrow> typed_output (fst e) \<and> run_output sha (fst e) j = (j', snd e)"

lemma new_journal_ok: "journal_ok sha new_journal"
  by (simp add: journal_ok_def new_journal_def foreign_rows_def)

lemma journal_step_ok: "journal_step sha j e j' \<Longrightarrow> journal_ok sha j \<Longrightarrow> journal_ok sha j'"
proof -
  assume s: "journal_step sha j e j'" and ok: "journal_ok sha j"
  have "journal_ok sha (fst (run_output sha op j))" if "typed_output op" for op
    using that ok by (cases op) (simp_all add: append_ok begin_ok settle_send_ok cancel_outputs_ok recover_journal_ok)
  from this [of "fst e"] s show ?thesis by (simp add: journal_step_def)
qed

section \<open>The state of an output\<close>

definition fate :: "journal \<Rightarrow> string \<Rightarrow> output_status option" where
  "fate j i = map_option ou_status (find_output i j)"

fun begins :: "string \<Rightarrow> output_op \<times> bool \<Rightarrow> bool" where
  "begins i (BeginSend k hex, won) \<longleftrightarrow> won \<and> k = i"
| "begins i _ \<longleftrightarrow> False"

text \<open>The transport knows that the send was not accepted.\<close>

fun rejects :: "string \<Rightarrow> output_op \<times> bool \<Rightarrow> bool" where
  "rejects i (SettleSend k send st err, won) \<longleftrightarrow> won \<and> k = i \<and> st = OutPending"
| "rejects i _ \<longleftrightarrow> False"

definition fate_moves :: "string \<Rightarrow> output_op \<times> bool \<Rightarrow> output_status option \<Rightarrow> output_status option \<Rightarrow> bool" where
  "fate_moves i e s s' \<longleftrightarrow>
     (if begins i e then s = Some OutPending \<and> s' = Some OutSending
      else if rejects i e then s = Some OutSending \<and> s' = Some OutPending
      else s' = s \<or> (s, s') \<in> {(None, Some OutPending), (Some OutPending, Some OutCancelled), (Some OutSending, Some OutDelivered),
        (Some OutSending, Some OutUnknown)})"

lemma output_found:
  assumes "journal_ok sha j" and "ou \<in> set (jo_outputs j)"
  shows "find_output (ou_id ou) j = Some ou"
  using find_key [of ou_id "jo_outputs j" ou] assms by (simp add: find_output_def journal_ok_def)

lemma fate_sends [simp]: "fate (j\<lparr>jo_sends := ss\<rparr>) i = fate j i" "fate (set_send k g j) i = fate j i"
  by (simp_all add: fate_def find_output_def set_send_def)

lemma fate_set_output:
  assumes "\<And>x. ou_id (f x) = ou_id x"
  shows "fate (set_output k f j) i = (if i = k then map_option (\<lambda>ou. ou_status (f ou)) (find_output i j) else fate j i)"
proof -
  have "find_output i (set_output k f j) = map_option (\<lambda>ou. if ou_id ou = k then f ou else ou) (find_output i j)"
    unfolding find_output_def set_output_def using assms by (simp add: find_map_keep)
  moreover have "ou_id ou = i" if "find_output i j = Some ou" for ou
    using find_keyD [of ou_id i "jo_outputs j" ou] that by (simp add: find_output_def)
  ultimately show ?thesis by (cases "find_output i j") (auto simp: fate_def)
qed

lemma begin_fate:
  assumes ok: "journal_ok sha j" and w: "begin_write sha k hex j = Inr (j', x)"
  shows "fate j k = Some OutPending \<and> fate j' i = (if i = k then Some OutSending else fate j i) \<and>
    hex \<notin> sd_id ` set (jo_sends j) \<and> sd_id ` set (jo_sends j') = insert hex (sd_id ` set (jo_sends j))"
proof -
  obtain r where sel: "select_output sha k j = Inr r" and st: "or_status r = OutPending" and new: "hex \<notin> sd_id ` set (jo_sends j)"
    and j': "j' = set_output k (\<lambda>ou. ou\<lparr>ou_status := OutSending, ou_send := hex, ou_error := ''''\<rparr>)
      (j\<lparr>jo_sends := jo_sends j @ [\<lparr>sd_id = hex, sd_output = k, sd_status = OutSending, sd_error = ''''\<rparr>]\<rparr>)"
    using w by (auto simp: begin_write_def raise_bind_Inr_iff Let_def split: if_splits)
  obtain ou where ou: "ou \<in> set (jo_outputs j)" "ou_id ou = k" "ou_status ou = OutPending"
    using select_output_Inr [OF ok sel] st by metis
  have f: "find_output k j = Some ou" using output_found [OF ok ou(1)] ou(2) by simp
  then have "find_output k (j\<lparr>jo_sends := ss\<rparr>) = Some ou" for ss by (simp add: find_output_def)
  then show ?thesis using f ou(3) new by (simp add: j' fate_set_output) (simp add: fate_def)
qed

lemma settle_fate:
  assumes ok: "journal_ok sha j" and w: "settle_write sha k send st err j = Inr (j', x)"
  shows "fate j k = Some OutSending \<and> fate j' i = (if i = k then Some st else fate j i) \<and> sd_id ` set (jo_sends j') = sd_id ` set (jo_sends j)"
proof -
  obtain r where sel: "select_output sha k j = Inr r" and s: "or_status r = OutSending"
    and j': "j' = set_output k (\<lambda>ou. ou\<lparr>ou_status := st, ou_error := err\<rparr>)
      (set_send send (\<lambda>sd. sd\<lparr>sd_status := attempt_state st, sd_error := err\<rparr>) j)"
    using w by (auto simp: settle_write_def raise_bind_Inr_iff Let_def split: if_splits)
  obtain ou where ou: "ou \<in> set (jo_outputs j)" "ou_id ou = k" "ou_status ou = OutSending"
    using select_output_Inr [OF ok sel] s by metis
  have f: "find_output k j = Some ou" using output_found [OF ok ou(1)] ou(2) by simp
  then have "find_output k (set_send send g j) = Some ou" for g by (simp add: find_output_def set_send_def)
  moreover have "map sd_id (jo_sends j') = map sd_id (jo_sends j)" by (simp add: j' set_send_def)
  then have "sd_id ` set (jo_sends j') = sd_id ` set (jo_sends j)" by (metis list.set_map)
  ultimately show ?thesis using f ou(3) by (simp add: j' fate_set_output) (simp add: fate_def)
qed

lemma append_fate:
  assumes w: "append_write sha e attempt ordinal binding chunk j = Inr (j', x)"
  shows "(fate j' i = fate j i \<or> fate j i = None \<and> fate j' i = Some OutPending) \<and> jo_sends j' = jo_sends j"
proof -
  have "\<exists>og ou. ou_status ou = OutPending \<and> j' = add_output ou (add_origin og j)"
    using w unfolding append_write_def
    by (auto simp: raise_bind_Inr_iff Let_def split: if_splits) (rule exI, rule exI, rule conjI [rotated], rule refl, simp)
  then obtain og ou where ou: "ou_status ou = OutPending" and j': "j' = add_output ou (add_origin og j)" by blast
  have o: "jo_outputs (add_origin og j) = jo_outputs j" "jo_sends (add_origin og j) = jo_sends j" by (simp_all add: add_origin_def)
  have "jo_outputs j' = jo_outputs j \<or> jo_outputs j' = jo_outputs j @ [ou]" "jo_sends j' = jo_sends j"
    by (simp_all add: j' add_output_def o)
  then show ?thesis using ou by (auto simp: fate_def find_output_def find_append split: option.splits if_splits)
qed

lemma cancel_one_fate: "fate (cancel_one k j) i = fate j i \<or> fate j i = Some OutPending \<and> fate (cancel_one k j) i = Some OutCancelled"
proof -
  have "fate (cancel_one k j) i =
      (if i = k then map_option (\<lambda>ou. ou_status (if ou_status ou = OutPending then ou\<lparr>ou_status := OutCancelled\<rparr> else ou)) (find_output i j)
       else fate j i)"
    unfolding cancel_one_def by (rule fate_set_output) simp
  then show ?thesis by (cases "find_output i j") (auto simp: fate_def)
qed

lemma cancel_outputs_fate:
  "(fate (fst (cancel_outputs sc ms j)) i = fate j i \<or> fate j i = Some OutPending \<and> fate (fst (cancel_outputs sc ms j)) i = Some OutCancelled) \<and>
    jo_sends (fst (cancel_outputs sc ms j)) = jo_sends j"
proof -
  have "(fate (fold cancel_one ids j) i = fate j i \<or> fate j i = Some OutPending \<and> fate (fold cancel_one ids j) i = Some OutCancelled) \<and>
      jo_sends (fold cancel_one ids j) = jo_sends j" for ids
  proof (induction ids arbitrary: j)
    case (Cons k ids)
    have "jo_sends (cancel_one k j) = jo_sends j" by (simp add: cancel_one_def)
    then show ?case using Cons.IH [of "cancel_one k j"] cancel_one_fate [of k j i] by auto
  qed simp
  then show ?thesis by (simp add: cancel_outputs_def Let_def split: sum.split)
qed

lemma recover_fate:
  "(fate (recover_journal j) i = fate j i \<or> fate j i = Some OutSending \<and> fate (recover_journal j) i = Some OutUnknown) \<and>
    sd_id ` set (jo_sends (recover_journal j)) = sd_id ` set (jo_sends j)"
proof -
  have "find_output i (recover_journal j) = map_option recover_output (find_output i j)"
    unfolding find_output_def recover_journal_def by (simp add: find_map_keep recover_output_def)
  moreover have "sd_id (recover_send sd) = sd_id sd" for sd by (simp add: recover_send_def)
  ultimately show ?thesis
    by (cases "find_output i j") (auto simp: fate_def recover_output_def recover_journal_def image_image)
qed

text \<open>The send attempts a call begins.\<close>

fun sent_ids :: "output_op \<times> bool \<Rightarrow> string list" where
  "sent_ids (BeginSend i hex, won) = (if won then [hex] else [])"
| "sent_ids _ = []"

lemma journal_moves:
  assumes step: "journal_step sha j (op, won) j'" and ok: "journal_ok sha j"
  shows "fate_moves i (op, won) (fate j i) (fate j' i) \<and>
    (\<forall>k \<in> set (sent_ids (op, won)). k \<notin> sd_id ` set (jo_sends j)) \<and>
    set (sent_ids (op, won)) \<union> sd_id ` set (jo_sends j) \<subseteq> sd_id ` set (jo_sends j')"
proof -
  have run: "run_output sha op j = (j', won)" using step by (simp add: journal_step_def)
  show ?thesis
  proof (cases op)
    case (AppendOutput e attempt ordinal binding chunk)
    then show ?thesis using run append_fate [of sha e attempt ordinal binding chunk j j' _ i]
      by (cases won) (fastforce simp: append_output_def atomic_run fate_moves_def)+
  next
    case (BeginSend k hex)
    then show ?thesis using run begin_fate [OF ok, of k hex j' _ i] by (cases won) (auto simp: begin_send_def atomic_run fate_moves_def)
  next
    case (SettleSend k send st err)
    show ?thesis
    proof (cases "st \<notin> {OutPending, OutDelivered, OutUnknown}")
      case True
      then show ?thesis using run SettleSend by (auto simp: settle_send_def succeeded_def fate_moves_def)
    next
      case False
      have "succeeded (atomically (settle_write sha k send st err) j) = (j', won)"
        using run unfolding SettleSend run_output.simps settle_send_def if_not_P [OF False] .
      then show ?thesis using False SettleSend settle_fate [OF ok, of k send st err j' _ i]
        by (cases won; cases "i = k") (auto simp: atomic_run fate_moves_def)
    qed
  next
    case (CancelOutputs sc ms)
    then have "j' = fst (cancel_outputs sc ms j)" using run by (auto simp: succeeded_def)
    then show ?thesis using CancelOutputs cancel_outputs_fate [of sc ms j i] by (auto simp: fate_moves_def)
  next
    case RestartOutputs
    then show ?thesis using run recover_fate [of j i] by (auto simp: fate_moves_def)
  qed
qed

interpretation sends: lease_machine "journal_step sha" "journal_ok sha" "\<lambda>_. 0" "\<lambda>_ _. False" sent_ids
  "\<lambda>j i. i \<in> sd_id ` set (jo_sends j)" for sha
proof
  show "distinct (sent_ids e)" for e by (cases e rule: sent_ids.cases) auto
  show "i \<notin> sd_id ` set (jo_sends j) \<and> i \<in> sd_id ` set (jo_sends j')"
    if "journal_step sha j e j'" "journal_ok sha j" "i \<in> set (sent_ids e)" for j e j' i
    using journal_moves [of sha j "fst e" "snd e" j'] that unfolding prod.collapse by blast
  show "i \<in> sd_id ` set (jo_sends j')" if "journal_step sha j e j'" "journal_ok sha j" "i \<in> sd_id ` set (jo_sends j)" for j e j' i
    using journal_moves [of sha j "fst e" "snd e" j'] that unfolding prod.collapse by blast
qed (auto intro: journal_step_ok)

lemma run_journal_ok: "trace (journal_step sha) new_journal es j \<Longrightarrow> journal_ok sha j"
  by (rule sends.trace_inv [OF _ new_journal_ok])

end
