(* ===== verification/Output_Props.thy ===== *)
theory Output_Props
  imports Output_Runs Input_Demo
begin

text \<open>What every run of the output journal keeps.\<close>

section \<open>Chunks\<close>

text \<open>The columns of an output that are its content.\<close>

definition chunks :: "journal \<Rightarrow> (int \<times> string \<times> string \<times> int \<times> string \<times> string) list" where
  "chunks j = map (\<lambda>ou. (ou_seq ou, ou_id ou, ou_origin ou, ou_ordinal ou, ou_text ou, ou_hash ou)) (jo_outputs j)"

definition extends :: "journal \<Rightarrow> journal \<Rightarrow> bool" where
  "extends j j' \<longleftrightarrow> (\<exists>cs. chunks j' = chunks j @ cs) \<and> (\<exists>os. jo_origins j' = jo_origins j @ os)"

lemma extends_same: "chunks j' = chunks j \<Longrightarrow> jo_origins j' = jo_origins j \<Longrightarrow> extends j j'"
  by (simp add: extends_def)

lemma extends_trans: "extends j j' \<Longrightarrow> extends j' j'' \<Longrightarrow> extends j j''"
  by (fastforce simp: extends_def)

lemma set_output_kept:
  assumes "\<And>ou. ou_seq (f ou) = ou_seq ou \<and> ou_id (f ou) = ou_id ou \<and> ou_origin (f ou) = ou_origin ou \<and>
    ou_ordinal (f ou) = ou_ordinal ou \<and> ou_text (f ou) = ou_text ou \<and> ou_hash (f ou) = ou_hash ou"
  shows "chunks (set_output i f j) = chunks j" "jo_origins (set_output i f j) = jo_origins j"
  using assms by (simp_all add: chunks_def set_output_def)

lemma chunks_sends [simp]: "chunks (j\<lparr>jo_sends := ss\<rparr>) = chunks j" "chunks (set_send k g j) = chunks j"
  "jo_origins (set_send k g j) = jo_origins j"
  by (simp_all add: chunks_def set_send_def)

lemma append_extends:
  assumes "append_write sha e attempt ordinal binding chunk j = Inr (j', x)"
  shows "extends j j'"
proof -
  obtain og ou where j': "j' = add_output ou (add_origin og j)"
    using assms unfolding append_write_def
    by (auto simp: raise_bind_Inr_iff Let_def split: if_splits)
  have "extends j (add_origin og j)" by (simp add: extends_def add_origin_def chunks_def)
  moreover have "extends s (add_output ou s)" for s by (simp add: extends_def add_output_def chunks_def)
  ultimately show ?thesis using extends_trans j' by blast
qed

lemma cancel_kept: "chunks (fold cancel_one ids j) = chunks j \<and> jo_origins (fold cancel_one ids j) = jo_origins j"
proof (induction ids arbitrary: j)
  case (Cons i ids)
  have "chunks (cancel_one i j) = chunks j \<and> jo_origins (cancel_one i j) = jo_origins j"
    unfolding cancel_one_def by (simp add: set_output_kept)
  then show ?case using Cons.IH by simp
qed simp

lemma journal_extends:
  assumes "journal_step sha j e j'"
  shows "extends j j'"
proof -
  obtain op won where e: "e = (op, won)" by (cases e)
  have run: "run_output sha op j = (j', won)" using assms by (simp add: journal_step_def e)
  have refl: "extends j j" by (simp add: extends_def)
  show ?thesis
  proof (cases op)
    case (AppendOutput v attempt ordinal binding chunk)
    then show ?thesis using run refl append_extends by (cases won) (auto simp: append_output_def atomic_run)
  next
    case (BeginSend k hex)
    then show ?thesis using run refl
      by (cases won) (auto simp: begin_send_def atomic_run begin_write_def raise_bind_Inr_iff Let_def set_output_kept
        intro!: extends_same split: if_splits)
  next
    case (SettleSend k send st err)
    show ?thesis
    proof (cases "st \<notin> {OutPending, OutDelivered, OutUnknown}")
      case True
      then show ?thesis using run SettleSend refl by (auto simp: settle_send_def succeeded_def)
    next
      case False
      have "succeeded (atomically (settle_write sha k send st err) j) = (j', won)"
        using run unfolding SettleSend run_output.simps settle_send_def if_not_P [OF False] .
      then show ?thesis using refl
        by (cases won) (auto simp: atomic_run settle_write_def raise_bind_Inr_iff Let_def set_output_kept
          intro!: extends_same split: if_splits)
    qed
  next
    case (CancelOutputs sc ms)
    then have "j' = fst (cancel_outputs sc ms j)" using run by (auto simp: succeeded_def)
    then show ?thesis using cancel_kept by (auto simp: cancel_outputs_def Let_def extends_def split: sum.splits)
  next
    case RestartOutputs
    have "chunks (recover_journal j) = chunks j" by (auto simp: chunks_def recover_journal_def recover_output_def)
    then have "extends j (recover_journal j)" by (intro extends_same) (simp_all add: recover_journal_def)
    then show ?thesis using run RestartOutputs by simp
  qed
qed

lemma run_extends: "trace (journal_step sha) j es j' \<Longrightarrow> extends j j'"
proof (induction rule: trace.induct)
  case trace_nil
  show ?case by (simp add: extends_def)
next
  case (trace_snoc es s e s')
  then show ?case using extends_trans journal_extends by blast
qed

section \<open>A run\<close>

definition demo_out :: output_row where
  "demo_out = \<lparr>ou_seq = 1, ou_id = ''d'', ou_origin = ''d'', ou_ordinal = 0, ou_text = ''hi'', ou_hash = ''d'',
     ou_status = OutPending, ou_send = '''', ou_error = ''''\<rparr>"

definition demo_origin_row :: origin_row where
  "demo_origin_row = \<lparr>og_id = ''d'', og_scope = (''g'', ''/w''), og_message = ''m1'', og_attempt = ''t'', og_binding = ''b'',
     og_payload = demo_payload, og_hash = ''d''\<rparr>"

definition demo_sha_d :: "string \<Rightarrow> string" where
  "demo_sha_d s = ''d''"

definition demo_journal :: "output_row \<Rightarrow> send_row list \<Rightarrow> journal" where
  "demo_journal ou ss = \<lparr>jo_origins = [demo_origin_row], jo_outputs = [ou], jo_sends = ss\<rparr>"

definition demo_sending :: output_row where
  "demo_sending = demo_out\<lparr>ou_status := OutSending, ou_send := demo_hex\<rparr>"

definition demo_send :: send_row where
  "demo_send = \<lparr>sd_id = demo_hex, sd_output = ''d'', sd_status = OutSending, sd_error = ''''\<rparr>"

lemma demo_label: "bounded_text False 256 ''t''" "bounded_text False 256 ''b''"
  by code_simp+

lemma demo_origin_key: "origin_key demo_sha_d demo_envelope ''t'' ''b'' = Inr ''d''"
  by (simp add: origin_key_def label_check_def demo_label demo_input_message parts_key_def demo_sha_d_def)

lemma demo_chunk: "chunk_check ''hi'' = Inr ()" "ordinal_check 0 = Inr ()"
  by (simp_all add: chunk_check_def ordinal_check_def byte_length_def) code_simp?

lemma demo_select:
  assumes "ou_id ou = ''d''" "ou_origin ou = ''d''" "ou_ordinal ou = 0" "ou_text ou = ''hi''" "ou_hash ou = ''d''" "ou_status ou \<noteq> OutNotSent"
  shows "select_output demo_sha_d ''d'' (demo_journal ou ss) =
    Inr \<lparr>or_id = ''d'', or_envelope = demo_envelope, or_attempt = ''t'', or_ordinal = 0, or_binding = ''b'', or_text = ''hi'',
      or_status = ou_status ou, or_send = ou_send ou, or_error = ou_error ou\<rparr>"
proof -
  have "joined (demo_journal ou ss) = [(demo_origin_row, ou)]"
    using assms by (simp add: joined_def demo_journal_def find_origin_def demo_origin_row_def List.map_filter_simps)
  moreover have "decode_envelope demo_payload = Inr demo_envelope" by (rule envelope_roundtrip [OF demo_envelope_ok demo_encoded])
  moreover have "scope_key (ev_scope demo_envelope) = (''g'', ''/w'')" "si_id demo_input = ''m1''"
    by (simp_all add: demo_envelope_def demo_scope_key demo_input_def)
  ultimately show ?thesis
    using assms by (simp add: select_output_def joined_record_def demo_origin_row_def demo_origin_key demo_chunk demo_input_message output_key_def
        parts_key_def demo_sha_d_def)
qed

definition demo_outputs :: "(output_op \<times> bool) list" where
  "demo_outputs = [(AppendOutput demo_envelope ''t'' 0 ''b'' ''hi'', True), (BeginSend ''d'' demo_hex, True)]"

lemma demo_append: "run_output demo_sha_d (AppendOutput demo_envelope ''t'' 0 ''b'' ''hi'') new_journal = (demo_journal demo_out [], True)"
proof -
  have "scope_key (ev_scope demo_envelope) = (''g'', ''/w'')" "si_id demo_input = ''m1''"
    by (simp_all add: demo_envelope_def demo_scope_key demo_input_def)
  moreover have "add_output demo_out (add_origin demo_origin_row new_journal) = demo_journal demo_out []"
    by (simp add: add_output_def add_origin_def find_origin_def new_journal_def demo_journal_def)
  moreover have "select_output demo_sha_d ''d'' (demo_journal demo_out []) = Inr r" if "r = \<lparr>or_id = ''d'', or_envelope = demo_envelope,
      or_attempt = ''t'', or_ordinal = 0, or_binding = ''b'', or_text = ''hi'', or_status = OutPending, or_send = '''', or_error = ''''\<rparr>" for r
    using demo_select [of demo_out "[]"] that by (simp add: demo_out_def)
  moreover have "output_key demo_sha_d ''d'' 0 = ''d''" by (simp add: output_key_def parts_key_def demo_sha_d_def)
  moreover have "find_origin ''d'' new_journal = None" "find_output ''d'' (add_origin og new_journal) = None" "next_output (add_origin og new_journal) = 1" for og
    by (simp_all add: find_origin_def find_output_def add_origin_def new_journal_def next_output_def)
  ultimately have "append_write demo_sha_d demo_envelope ''t'' 0 ''b'' ''hi'' new_journal = Inr (demo_journal demo_out [],
      \<lparr>or_id = ''d'', or_envelope = demo_envelope, or_attempt = ''t'', or_ordinal = 0, or_binding = ''b'', or_text = ''hi'',
      or_status = OutPending, or_send = '''', or_error = ''''\<rparr>)"
    by (simp add: append_write_def demo_chunk demo_origin_key demo_encoded demo_input_message Let_def demo_sha_d_def
        flip: demo_out_def demo_origin_row_def)
  then show ?thesis by (simp add: append_output_def atomically_def succeeded_def)
qed

lemma demo_begin_send: "run_output demo_sha_d (BeginSend ''d'' demo_hex) (demo_journal demo_out []) = (demo_journal demo_sending [demo_send], True)"
proof -
  have "set_output ''d'' (\<lambda>ou. ou\<lparr>ou_status := OutSending, ou_send := demo_hex, ou_error := ''''\<rparr>)
      (demo_journal demo_out []\<lparr>jo_sends := [demo_send]\<rparr>) = demo_journal demo_sending [demo_send]"
    by (simp add: set_output_def demo_journal_def demo_sending_def demo_out_def)
  moreover have "select_output demo_sha_d ''d'' (demo_journal demo_out []) = Inr \<lparr>or_id = ''d'', or_envelope = demo_envelope,
      or_attempt = ''t'', or_ordinal = 0, or_binding = ''b'', or_text = ''hi'', or_status = OutPending, or_send = '''', or_error = ''''\<rparr>"
    using demo_select [of demo_out "[]"] by (simp add: demo_out_def)
  moreover have "\<exists>r. select_output demo_sha_d ''d'' (demo_journal demo_sending [demo_send]) = Inr r"
    using demo_select [of demo_sending "[demo_send]"] by (simp add: demo_sending_def demo_out_def)
  moreover have "jo_sends (demo_journal demo_out []) = []" by (simp add: demo_journal_def)
  ultimately show ?thesis
    by (auto simp: begin_send_def atomically_def begin_write_def Let_def succeeded_def simp flip: demo_send_def)
qed

lemma demo_outputs_run: "trace (journal_step demo_sha_d) new_journal demo_outputs (demo_journal demo_sending [demo_send])"
proof -
  have 1: "journal_step demo_sha_d new_journal (AppendOutput demo_envelope ''t'' 0 ''b'' ''hi'', True) (demo_journal demo_out [])"
    using demo_append by (simp only: journal_step_def fst_conv snd_conv typed_output.simps demo_envelope_ok simp_thms)
  have 2: "journal_step demo_sha_d (demo_journal demo_out []) (BeginSend ''d'' demo_hex, True) (demo_journal demo_sending [demo_send])"
    using demo_begin_send by (simp only: journal_step_def fst_conv snd_conv typed_output.simps demo_hex_ok simp_thms)
  show ?thesis using trace_append [OF trace_one [of "journal_step demo_sha_d", OF 1] trace_one [of "journal_step demo_sha_d", OF 2]]
    by (simp add: demo_outputs_def)
qed

section \<open>Properties\<close>

lemma fate_final:
  assumes "trace (journal_step sha) j es j'" and "journal_ok sha j" and "fate j i \<in> {Some OutDelivered, Some OutUnknown, Some OutCancelled}"
  shows "fate j' i = fate j i \<and> (\<forall>e \<in> set es. \<not> begins i e \<and> \<not> rejects i e)"
  using assms
proof (induction rule: trace.induct)
  case (trace_snoc es s e s')
  have "fate_moves i e (fate s i) (fate s' i)"
    using journal_moves [of sha s "fst e" "snd e" s' i] trace_snoc.hyps(2) sends.trace_inv [OF trace_snoc.hyps(1) trace_snoc.prems(1)] by simp
  moreover have "fate s i = fate j i" "\<forall>e \<in> set es. \<not> begins i e \<and> \<not> rejects i e" using trace_snoc by blast+
  ultimately show ?case using trace_snoc.prems(2) by (auto simp: fate_moves_def split: if_splits)
qed simp

text \<open>C38. Whatever the agent, the transport and the operator do, in any order and with the process dying between
  any two calls, the journal they leave is one that opening accepts, and opening it settles the
  interrupted sends as unknown and changes nothing else. What was appended stays: later calls
  only add origins and chunks, and none alters the text, the identity or the place of one.\<close>

theorem outputs_reopen:
  assumes "trace (journal_step sha) new_journal es j" and "trace (journal_step sha) j es' j'"
  shows "open_outputs sha j = Inr (recover_journal j) \<and> extends j j'"
proof -
  have "journal_ok sha j" by (rule run_journal_ok [OF assms(1)])
  then show ?thesis using journal_ok_validates [of sha j] run_extends [OF assms(2)] by (simp add: open_outputs_def)
qed

lemma outputs_reopen_witness:
  "open_outputs demo_sha_d (demo_journal demo_sending [demo_send]) =
    Inr (demo_journal (demo_sending\<lparr>ou_status := OutUnknown, ou_error := INTERRUPTED_SEND\<rparr>)
      [demo_send\<lparr>sd_status := OutUnknown, sd_error := INTERRUPTED_SEND\<rparr>])"
  using outputs_reopen [OF demo_outputs_run trace_nil]
  by (simp add: recover_journal_def demo_journal_def recover_output_def recover_send_def demo_sending_def demo_send_def)

text \<open>C28. Every send of a chunk is accounted for: over any run, crashes included, its sends were begun exactly
  once more often than the transport said it had not accepted one, if it is being sent, was
  delivered or has an unknown outcome, and as often otherwise; no send attempt is begun twice;
  and a chunk that was delivered or cancelled, or whose outcome is unknown, stays that way and is
  never begun or sent back again.\<close>

theorem sends_accounted:
  assumes "trace (journal_step sha) new_journal es j" and "trace (journal_step sha) j es' j'"
  shows "length (filter (begins i) es) = length (filter (rejects i) es) +
      (if fate j i \<in> {Some OutSending, Some OutDelivered, Some OutUnknown} then 1 else 0) \<and>
    distinct (concat (map sent_ids es)) \<and>
    (fate j i \<in> {Some OutDelivered, Some OutUnknown, Some OutCancelled} \<longrightarrow>
      fate j' i = fate j i \<and> (\<forall>e \<in> set es'. \<not> begins i e \<and> \<not> rejects i e))"
proof (intro conjI impI)
  show "length (filter (begins i) es) = length (filter (rejects i) es) +
      (if fate j i \<in> {Some OutSending, Some OutDelivered, Some OutUnknown} then 1 else 0)"
    using assms(1)
  proof (induction rule: trace.induct)
    case trace_nil
    show ?case by (simp add: fate_def find_output_def new_journal_def)
  next
    case (trace_snoc es s e s')
    have "fate_moves i e (fate s i) (fate s' i)"
      using journal_moves [of sha s "fst e" "snd e" s' i] trace_snoc.hyps(2) run_journal_ok [OF trace_snoc.hyps(1)] by simp
    moreover have "begins i e \<Longrightarrow> \<not> rejects i e" by (cases "(i, e)" rule: begins.cases) auto
    ultimately show ?case using trace_snoc.IH by (auto simp: fate_moves_def split: if_splits)
  qed
  show "distinct (concat (map sent_ids es))" by (rule sends.granted_once [OF assms(1) new_journal_ok])
  assume "fate j i \<in> {Some OutDelivered, Some OutUnknown, Some OutCancelled}"
  from fate_final [OF assms(2) run_journal_ok [OF assms(1)] this]
  show "fate j' i = fate j i" "\<forall>e \<in> set es'. \<not> begins i e \<and> \<not> rejects i e" by blast+
qed

lemma sends_accounted_witness:
  "length (filter (begins ''d'') demo_outputs) = 1 \<and> fate (demo_journal demo_sending [demo_send]) ''d'' = Some OutSending"
proof -
  have "fate (demo_journal demo_sending [demo_send]) ''d'' = Some OutSending"
    by (simp add: fate_def find_output_def demo_journal_def demo_sending_def demo_out_def)
  moreover have "filter (rejects ''d'') demo_outputs = []" by (simp add: demo_outputs_def)
  ultimately show ?thesis using sends_accounted [OF demo_outputs_run trace_nil, of "''d''"] by simp
qed

end
