(* ===== verification/Spec2Isabelle.thy ===== *)
theory Spec2Isabelle
  imports Loader_Valid Exec_Why Checkpoint_Steps Serialize_Parsed Builder_Props Stub_Exec Suite_Props Judge Goal_Props Input_Props Output_Props
begin

text \<open>
  A verification library for the workflow engine of xdog, the package \<open>packages/flow\<close>
  (\<open>src/packages/flow/src/xdog/flow\<close>; file names below are relative to it), for the goal
  registry of \<open>packages/skills\<close> (\<open>src/packages/skills/src/xdog/skills/goal\<close>), and for the durable inbox
  and output journal of \<open>packages/claw\<close> (\<open>src/packages/claw/src/xdog/claw/core\<close>).

  \<^bold>\<open>The program.\<close> A workflow is a JSON document: nodes (agents, scripts, people, child
  workflows) and edges that carry values from output ports to input ports, under conditions,
  in bounded loops, or fanned out over an array. \<open>loader.py\<close> parses the document into the frozen
  dataclasses of \<open>models.py\<close> and validates it. \<open>frontier.py\<close> compiles a workflow to scheduler
  metadata and defines the transitions of the scheduler: lease the ready frontier, commit a batch
  of completions, fire or close loop groups, isolate failed nodes. \<open>executor.py\<close> drives the
  scheduler: it leases a batch, runs its activations concurrently, settles the batch, writes a
  checkpoint (\<open>checkpoint.py\<close>) and goes on. \<open>conditions.py\<close>, \<open>interpolate.py\<close> and \<open>coerce.py\<close>
  evaluate guards, fill templates and convert port values on the way. The goal registry is the
  durable record of what an agent works towards: one current goal with its revisions, an outbox
  of reminders to the agent, wake signals and faults, in one SQLite file per owner.
  The inbox (\<open>inputs/store.py\<close>) keeps every message a session accepted, through claiming, execution and
  outcome; a message is written to it as an envelope (\<open>inputs/models.py\<close>) around a \<open>SessionInput\<close>
  (\<open>session_input.py\<close> of \<open>packages/agent\<close>), with images as \<open>image_files.py\<close> of \<open>packages/ai\<close> decodes them. The output journal (\<open>outputs/store.py\<close>) keeps every reply in chunks, each through its sending
  over a channel. Both are SQLite files that are checked when they are opened and that turn
  what was under way when the process died into a state no one takes up again by itself.

  \<^bold>\<open>The theories\<close>, in the order of the code's dependencies.

  \<^item> \<open>Prelude\<close>, \<open>Values\<close>: dicts as association lists in insertion order, exceptions as the left
    of a sum, \<open>str(n)\<close>; JSON values, with floats rounded as IEEE binary64, \<open>==\<close>, \<open>str\<close>, \<open>repr\<close>.
  \<^item> \<open>Models\<close>, \<open>Edge_Ids\<close>: \<open>models.py\<close>. Dataclasses are records and mutually recursive datatypes
    with the source's fields; the content-addressed edge identities and their canonical JSON.
  \<^item> \<open>Errors\<close>: \<open>errors.py\<close>, \<open>error_codes.py\<close>, and the built-in exceptions the code can raise.
  \<^item> \<open>Coerce\<close>, \<open>Conditions\<close>: \<open>coerce.py\<close>, \<open>interpolate.py\<close>, \<open>conditions.py\<close>; a declarative truth
    predicate for conditions and the proof that the evaluator computes it.
  \<^item> \<open>Loader_Schema\<close>, \<open>Loader_Parse\<close>, \<open>Cycle\<close>, \<open>Loader_Validate\<close>: \<open>loader.py\<close>. Parsing with every
    raise as a branch; the static schemas; the iterative depth-first search, exact against
    reachability; every check of \<open>validation_errors\<close>. \<open>Valid_Facts\<close>, \<open>Loader_Valid\<close> give what
    acceptance guarantees; \<open>Valid_Demo\<close> is an accepted workflow with a loop.
  \<^item> \<open>Frontier_Spec\<close>, \<open>Frontier_Build\<close>: the compilation \<open>build_frontier_spec\<close>, its well-formedness.
    \<open>Frontier\<close>, \<open>Frontier_Inv\<close>, \<open>Frontier_Batch\<close>: the state dict as the record \<open>fstate\<close>, one
    definition per transition, the invariant \<open>state_inv\<close>, totality. \<open>Frontier_Run\<close>,
    \<open>Frontier_Effects\<close>: whole runs of the scheduler, and what single transitions do.
  \<^item> \<open>Machine\<close>: runs of a labelled step relation and two contracts as locales, \<open>bounded_machine\<close>
    (an invariant and a work measure) and its extension \<open>lease_machine\<close> (each key granted at most
    once). The scheduler interprets the second (\<open>Frontier_Run\<close>), the executor the first
    (\<open>Exec_Machine\<close>).
  \<^item> \<open>Exec_Data\<close>, \<open>Executor\<close>: \<open>executor.py\<close>. \<open>Exec_Data\<close> is what one node reads and writes;
    \<open>Executor\<close> is the run loop as a machine whose events are the blocks of code between two
    awaits (taking the frontier, \<open>Call\<close>, \<open>Return\<close>, settling), interleaved freely under the
    concurrency cap. \<open>Exec_Facts\<close>, \<open>Exec_Progress\<close>, \<open>Exec_Events\<close>, \<open>Exec_Machine\<close>: the invariant
    and measure of that machine, and its projection to the scheduler. \<open>Exec_Runs\<close>, \<open>Exec_Flow\<close>,
    \<open>Exec_Settle\<close>, \<open>Exec_Resume\<close>, \<open>Exec_Own\<close>: traces, data flow, settling, resuming, ownership of
    ports; \<open>Exec_Props\<close>, \<open>Exec_Effects\<close> state the properties; \<open>Exec_Why\<close> tells why a run was given up.
  \<^item> \<open>Checkpoint\<close>: the contract and snapshot of \<open>checkpoint.py\<close> and the restoring half of
    \<open>execute\<close>; the file store one file-system operation at a time, behind the locale
    \<open>checkpoint_store\<close>. \<open>Checkpoint_Facts\<close>, \<open>Checkpoint_Props\<close>, \<open>Checkpoint_Steps\<close>: round trip,
    atomicity, and a concrete run, paused by a person, whose resumption repeats a step number.
  \<^item> \<open>Serialize\<close>, \<open>Serialize_Trip\<close>, \<open>Serialize_Parsed\<close>: the writer \<open>builder/serialize.py\<close>; one round
    trip per part of a document, then the law for every parsed workflow and where it ends.
  \<^item> \<open>Builder\<close>, \<open>Builder_Props\<close>: the headless editor \<open>builder/model.py\<close>, \<open>builder/actions.py\<close>;
    its model as a record, one definition per action, and sequences of edits as a relation.
  \<^item> The test kit \<open>testing/\<close>: \<open>Stub_Match\<close> is the matcher with the rule it computes, \<open>Stubs\<close> the suite
    types and the state of a case's stubs, \<open>Stub_Props\<close> what they answer, behind the locale
    \<open>ordered_oracle\<close> that the executor is a lawful client of (\<open>Stub_Exec\<close>); \<open>Suite\<close>, \<open>Suite_Props\<close>
    parse and validate a suite, \<open>Judge\<close> is the verdict on a finished run.
  \<^item> The goal registry \<open>skills/goal/\<close>: \<open>Goal_Model\<close> is \<open>models.py\<close>, \<open>codec.py\<close>, \<open>host.py\<close> and
    \<open>transitions.py\<close>; \<open>Goal_Store\<close> is \<open>store.py\<close>, a table as an association list and an operation
    as one transaction; \<open>Goal_Service\<close> is the writing part of \<open>service.py\<close>. \<open>Goal_Inv\<close>, \<open>Goal_Put\<close>:
    the invariant, which implies the check on opening, operation by operation. \<open>Goal_Life\<close>: the
    lifecycle as an automaton with the authority each of its steps needs, and the answer of every
    call read off it. \<open>Goal_Runs\<close>: the calls in any order, as a \<open>bounded_machine\<close> and, for
    the outcomes of reminders, a \<open>lease_machine\<close>. \<open>Goal_Demo\<close> is one short run, \<open>Goal_Props\<close>
    states the properties.
  \<^item> The inbox and outbox of \<open>claw\<close>: \<open>Input_Model\<close> is \<open>session_input.py\<close>, \<open>inputs/models.py\<close> and the
    decoding part of \<open>image_files.py\<close>: a message, its envelope, their parsers and writers; \<open>Input_Trip\<close> its round trip through JSON. \<open>Input_Store\<close> is
    \<open>inputs/store.py\<close> and \<open>Output_Store\<close> is \<open>outputs/store.py\<close>, as \<open>Goal_Store\<close> is for the goals. \<open>Input_Inv\<close>,
    \<open>Output_Inv\<close>: the invariants, which imply the checks on opening. \<open>Input_Runs\<close>, \<open>Output_Runs\<close>:
    the calls in any order, crashes between them included. \<open>Input_Demo\<close>, \<open>Input_Props\<close>,
    \<open>Output_Props\<close>: a short run, and the properties.
  \<^item> this theory: what validation gives the scheduler and the executor, end to end.

  \<^bold>\<open>Bounds, not fuel.\<close> Two helpers of float printing in \<open>Values\<close> take fuel: \<open>log10_up\<close>, which counts the decimal
  digits of a binary64 (700, where an exponent has at most 309 digits before and 324 after the
  point), and \<open>pf_digits\<close>, which looks for the shortest one that reads back (17, the digits that
  always do). No other definition does. Loops of the code are structural recursion or
  \<open>function\<close>s with a proved measure; the run loop, which has no bound of its own, is a relation,
  and its termination is a theorem: a scheduler run leases at most
  \<open>nodes * (budget + 1)\<close> activations, where \<open>budget\<close> is the loop budget that is left, and a run of
  the executor takes at most \<open>2 * attempts + 4\<close> events for each of them, and one more.

  \<^bold>\<open>Parameters.\<close> SHA-256 (\<open>sha\<close>: the code needs its hex digests to have five characters),
  the JSONPath engine (\<open>jp\<close>), \<open>json.loads\<close> (\<open>loads\<close>), the file system of subflow files (\<open>file_env\<close>),
  \<open>ast.parse\<close> of scripts, the skill resolver and the names of built-in tools (\<open>load_env\<close>), and all
  an activation is answered by: agent runners, scripts, stubs, people, child runs (\<open>world\<close>);
  finding and decoding the files of a test suite (\<open>open_flow\<close>). For the goals: SHA-256 again,
  whether the owner and the invocation are still valid at each check (\<open>alive\<close>), what the write to
  the goal's workspace raises (\<open>io\<close>), the clock and the random id. SQLite gives what it documents:
  atomic transactions, primary and foreign keys. For the inbox and the outbox:
  \<open>uuid4\<close> (the id of an attempt or a send), \<open>time.time\<close>, and SHA-256. A JSON text the code writes with
  \<open>json.dumps\<close> and stores is kept as the document \<open>json.loads\<close> reads from it; its length and its
  repeated keys are those of the text.

  \<^bold>\<open>Not modelled.\<close> Event callbacks, logging, and previews of the executor, which cannot change
  its state; retry delays and timeouts as durations (a timeout is one more exception of an
  attempt); the binding of script modules; the \<open>render_*\<close> functions, which copy source text into
  generated modules. Outside the modules above: code generation and bundling, whose contract needs
  a semantics of the generated Python; the runners, the command line, the systemd installer and
  the terminal front end of the editor, which are I/O. Of the goals: the read-only views of the
  registry, the schema check and the upgrade of older files, the task and report files, the
  runtime loop, whose writes are calls the model allows in any order. The other packages of the
  repository: vendor protocols, the agent loop, channels and terminal interfaces, whose behaviour
  is that of the services behind them; of \<open>claw\<close> the consumer that drives the inbox, delivery and
  receipts, the file leases and the read-only views. Instances of a fan-out that go on
  after one of them failed are left out of the executor (see \<open>fan_answers\<close>).
\<close>

section \<open>From the file to the run\<close>

text \<open>C2. A workflow that passes validation runs: it compiles to a scheduler specification, and in every
  state any run of the scheduler reaches leasing, committing and isolating return, and the run
  leases at most nodes times (loop budget + 1) activations.\<close>

theorem valid_workflow_runs:
  assumes "valid env base w" and "\<forall>s. 5 \<le> length (le_sha env s)"
  shows "\<exists>sp. build_frontier_spec (le_sha env) w = Some sp \<and> fs_nodes sp = map nd_id (wf_nodes w) \<and>
    (\<forall>restored lc es st lc'. trace (sched_step sp) (new_frontier_state sp restored, lc) es (st, lc') \<longrightarrow>
       take_ready sp st \<noteq> None \<and>
       (\<forall>cs. known_batch sp cs \<longrightarrow> complete_batch sp cs st lc' \<noteq> None) \<and>
       (\<forall>ns. ns \<subseteq> set (fs_nodes sp) \<longrightarrow> isolate_nodes ns st \<noteq> None) \<and>
       length (concat (map leased_keys es)) \<le> length (wf_nodes w) * (budget sp lc + 1))"
proof -
  have ok: "graph_ok w" by (rule valid_graph_ok [OF assms(1)])
  obtain sp where sp: "build_frontier_spec (le_sha env) w = Some sp" "wf_spec sp"
    using wf_build_frontier_spec [OF ok assms(2)] by blast
  have nodes: "fs_nodes sp = map nd_id (wf_nodes w)"
    using sp(1) by (auto simp: build_frontier_spec_def Let_def split: bind_splits)
  have run: "take_ready sp st \<noteq> None \<and>
       (\<forall>cs. known_batch sp cs \<longrightarrow> complete_batch sp cs st lc' \<noteq> None) \<and>
       (\<forall>ns. ns \<subseteq> set (fs_nodes sp) \<longrightarrow> isolate_nodes ns st \<noteq> None) \<and>
       length (concat (map leased_keys es)) \<le> length (wf_nodes w) * (budget sp lc + 1)"
    if t: "trace (sched_step sp) (new_frontier_state sp restored, lc) es (st, lc')" for restored lc es st lc'
  proof -
    have inv: "state_inv sp st" using run_inv [OF sp(2) t] by simp
    have "complete_batch sp cs st lc' \<noteq> None" if "known_batch sp cs" for cs
      using complete_batch_step [OF sp(2) inv that, of lc'] by fastforce
    moreover have "isolate_nodes ns st \<noteq> None" if "ns \<subseteq> set (fs_nodes sp)" for ns
      using isolate_total [OF inv that] by fastforce
    moreover have "take_ready sp st \<noteq> None" using take_ready_total [OF inv sp(2)] by fastforce
    ultimately show ?thesis using trace_leases_bound [OF sp(2) t] nodes by simp
  qed
  then show ?thesis using sp(1) nodes by blast
qed

lemma valid_workflow_runs_witness:
  "\<exists>sp. build_frontier_spec demo_sha demo_flow = Some sp \<and> take_ready sp (new_frontier_state sp {}) \<noteq> None"
proof -
  have "\<forall>s. 5 \<le> length (le_sha demo_load s)" by (simp add: demo_load_def demo_sha_def)
  from valid_workflow_runs [OF demo_flow_valid this] obtain sp where
    sp: "build_frontier_spec demo_sha demo_flow = Some sp" and
    run: "\<And>lc es st lc'. trace (sched_step sp) (new_frontier_state sp {}, lc) es (st, lc') \<Longrightarrow> take_ready sp st \<noteq> None"
    unfolding demo_load_def load_env.simps by metis
  have "take_ready sp (new_frontier_state sp {}) \<noteq> None"
    by (rule run) (rule trace_nil)
  then show ?thesis using sp by blast
qed

text \<open>C1. A workflow that passes validation executes: whatever its agents, scripts and people do, under
  any cap and any interleaving, its run is bounded by its loops and retries and never
  deadlocks, and every activation is of one of its nodes. The scheduler never raises in it: leasing
  returns, and when settling a batch ends the run it is because a node failed that is not
  isolated, a condition on an edge of a completed node raised, a strict loop is used up or the
  token budget is.\<close>

theorem valid_workflow_executes:
  assumes "valid env base w" and "\<forall>s. 5 \<le> length (le_sha env s)" and "build_frontier_spec (le_sha env) w = Some sp"
    and "xv_wf x = w" and "trace (exec_step x sp) (start_conf x sp inputs) es c"
  shows "length es \<le> length (wf_nodes w) * (budget sp Map.empty + 1) * (2 * attempts_max x + 4) + 1 \<and>
    ((\<exists>e c'. exec_step x sp c e c') \<longleftrightarrow> cf_status c = Running) \<and> take_ready sp (cf_front c) \<noteq> None \<and>
    (\<forall>ev c' e. exec_step x sp c ev c' \<and> cf_status c' = Raised e \<longrightarrow> given_up x sp c e) \<and>
    sl_node ` set (cf_batch c) \<subseteq> nd_id ` set (wf_nodes w)"
proof -
  have ok: "graph_ok w" by (rule valid_graph_ok [OF assms(1)])
  then have distinct: "distinct (map nd_id (wf_nodes w))" by (simp add: graph_ok_def Let_def)
  have wf: "wf_spec sp" using wf_build_frontier_spec [OF ok assms(2)] assms(3) by auto
  have nodes: "fs_nodes sp = map nd_id (wf_nodes w)"
    using assms(3) by (auto simp: build_frontier_spec_def Let_def split: bind_splits)
  have inv: "exec_inv x sp (budget sp Map.empty) c" and m: "mirrored sp c"
    using run_ok [OF wf assms(5)] by blast+
  have front: "state_inv sp (cf_front c)" using m by (simp add: mirrored_def)
  have "length es \<le> length (fs_nodes sp) * (budget sp Map.empty + 1) * (2 * attempts_max x + 4) + 1"
    using trace_length [OF assms(5) start_ok(1) [OF wf]] exec_work_start [of x sp "budget sp Map.empty" inputs] by linarith
  moreover have "(\<exists>e c'. exec_step x sp c e c') \<longleftrightarrow> cf_status c = Running"
    using exec_progress [OF inv] exec_step_running by blast
  moreover have "take_ready sp (cf_front c) \<noteq> None"
    using take_ready_total [OF front wf] by simp
  moreover have known: "sl_node ` set (cf_batch c) \<subseteq> nd_id ` set (wf_nodes w)" using slots_known [OF m] nodes by auto
  moreover have "given_up x sp c e" if "exec_step x sp c ev c'" "cf_status c' = Raised e" for ev c' e
  proof (rule step_why [OF wf front that])
    fix s assume "s \<in> set (cf_batch c)"
    then have s: "sl_node s \<in> nd_id ` set (wf_nodes w)" using known by blast
    then show "exec_node x (sl_node s) \<noteq> None \<and> insert (sl_node s) (transitive_successors (xv_wf x) (sl_node s)) \<subseteq> set (fs_nodes sp)"
      using scope_known [OF ok s] distinct by (simp add: exec_node_def node_by_id_None assms(4) nodes)
  qed
  ultimately show ?thesis unfolding nodes length_map by blast
qed

lemma valid_workflow_executes_witness:
  "\<exists>sp e c'. build_frontier_spec demo_sha demo_flow = Some sp \<and> exec_step demo_exec sp (start_conf demo_exec sp []) e c'"
proof -
  have sha: "\<forall>s. 5 \<le> length (le_sha demo_load s)" by (simp add: demo_load_def demo_sha_def)
  have "graph_ok demo_flow" by (rule valid_graph_ok [OF demo_flow_valid])
  then obtain sp where sp: "build_frontier_spec (le_sha demo_load) demo_flow = Some sp"
    using wf_build_frontier_spec [OF _ sha] by blast
  have w: "xv_wf demo_exec = demo_flow" by (simp add: demo_exec_def)
  have "cf_status (start_conf demo_exec sp []) = Running" by (simp add: start_conf_def)
  then have "\<exists>e c'. exec_step demo_exec sp (start_conf demo_exec sp []) e c'"
    using valid_workflow_executes [OF demo_flow_valid sha sp w trace_nil] by blast
  then show ?thesis using sp by (auto simp: demo_load_def)
qed

end
